(* ===== verification/Prelude.thy ===== *)
theory Prelude
  imports Main "HOL-Library.AList" "HOL-Library.Word"
begin

section \<open>Shared types, containers and lemmas\<close>

text \<open>
  What every component of the development uses.
  \<^item> JavaScript's \<open>Map\<close>: an association list in insertion order. Setting a key that is present
    replaces the value in place, setting a new key appends it, and \<open>keys().next()\<close> is the
    oldest key. The contract is the locale \<open>insertion_ordered_map\<close>; the bounded stores of the
    program (nonces, retry ledgers, failure windows) rest on its lemmas.
  \<^item> Bytes (\<open>8 word\<close>) and the big-endian 32-bit integers of Node's \<open>Buffer\<close>.
  \<^item> JSON values and object spread, for event payloads and parsed columns.
  \<^item> \<open>step_machine\<close>: a step function with an invariant, and the lemma that whole runs keep it.
  Timestamps (\<open>Date.now()\<close>) are \<open>int\<close> arguments; a function that reads the clock twice takes
  two of them.
\<close>

named_theorems map_simps \<open>lookup and size laws of the insertion-ordered map\<close>
named_theorems wf_intros \<open>operations keep the well-formedness of their component\<close>

subsection \<open>The insertion-ordered map\<close>

type_synonym ('k, 'v) jsmap = "('k \<times> 'v) list"

definition jm_get :: "('k, 'v) jsmap \<Rightarrow> 'k \<Rightarrow> 'v option" where
  "jm_get m k = map_of m k"

definition jm_set :: "'k \<Rightarrow> 'v \<Rightarrow> ('k, 'v) jsmap \<Rightarrow> ('k, 'v) jsmap" where
  "jm_set k v m = AList.update k v m"

definition jm_delete :: "'k \<Rightarrow> ('k, 'v) jsmap \<Rightarrow> ('k, 'v) jsmap" where
  "jm_delete k m = AList.delete k m"

definition jm_keys :: "('k, 'v) jsmap \<Rightarrow> 'k list" where
  "jm_keys m = map fst m"

definition jm_values :: "('k, 'v) jsmap \<Rightarrow> 'v list" where
  "jm_values m = map snd m"

definition jm_size :: "('k, 'v) jsmap \<Rightarrow> nat" where
  "jm_size m = length m"

definition jm_has :: "('k, 'v) jsmap \<Rightarrow> 'k \<Rightarrow> bool" where
  "jm_has m k \<longleftrightarrow> k \<in> set (map fst m)"

definition jm_wf :: "('k, 'v) jsmap \<Rightarrow> bool" where
  "jm_wf m \<longleftrightarrow> distinct (map fst m)"

text \<open>\<open>m.keys().next().value\<close>: the oldest key, \<open>undefined\<close> on an empty map.\<close>

definition jm_oldest :: "('k, 'v) jsmap \<Rightarrow> 'k option" where
  "jm_oldest m = (case m of [] \<Rightarrow> None | (k, _) # _ \<Rightarrow> Some k)"

definition jm_delete_oldest :: "('k, 'v) jsmap \<Rightarrow> ('k, 'v) jsmap" where
  "jm_delete_oldest m = (case jm_oldest m of None \<Rightarrow> m | Some k \<Rightarrow> jm_delete k m)"

lemmas jm_defs = jm_get_def jm_set_def jm_delete_def jm_keys_def jm_values_def jm_size_def
  jm_has_def jm_wf_def jm_oldest_def

lemma keys_update: "map fst (AList.update k v m) =
    (if k \<in> set (map fst m) then map fst m else map fst m @ [k])"
  by (induction m) auto

lemma keys_delete: "map fst (AList.delete k m) = filter (\<lambda>x. x \<noteq> k) (map fst m)"
  by (induction m) (auto simp: AList.delete_eq)

locale insertion_ordered_map =
  fixes get :: "'m \<Rightarrow> 'k \<Rightarrow> 'v option"
    and put :: "'k \<Rightarrow> 'v \<Rightarrow> 'm \<Rightarrow> 'm"
    and delete :: "'k \<Rightarrow> 'm \<Rightarrow> 'm"
    and keys :: "'m \<Rightarrow> 'k list"
    and wf :: "'m \<Rightarrow> bool"
  assumes get_put: "get (put k v m) k' = (if k' = k then Some v else get m k')"
    and get_delete: "get (delete k m) k' = (if k' = k then None else get m k')"
    and keys_put: "keys (put k v m) = (if k \<in> set (keys m) then keys m else keys m @ [k])"
    and keys_delete: "keys (delete k m) = filter (\<lambda>x. x \<noteq> k) (keys m)"
    and get_in_keys: "get m k \<noteq> None \<longleftrightarrow> k \<in> set (keys m)"
    and wf_keys: "wf m \<longleftrightarrow> distinct (keys m)"
begin

lemma wf_put: "wf m \<Longrightarrow> wf (put k v m)"
  by (auto simp: wf_keys keys_put)

lemma wf_delete: "wf m \<Longrightarrow> wf (delete k m)"
  by (simp add: wf_keys keys_delete)

lemma size_put_le: "length (keys (put k v m)) \<le> Suc (length (keys m))"
  by (simp add: keys_put)

lemma size_put_present: "k \<in> set (keys m) \<Longrightarrow> length (keys (put k v m)) = length (keys m)"
  by (simp add: keys_put)

lemma size_delete_le: "length (keys (delete k m)) \<le> length (keys m)"
  by (simp add: keys_delete)

lemma size_delete_present:
  assumes "wf m" and "k \<in> set (keys m)"
  shows "Suc (length (keys (delete k m))) = length (keys m)"
proof -
  have "filter (\<lambda>x. x \<noteq> k) (keys m) = remove1 k (keys m)"
    using assms(1) by (simp add: wf_keys distinct_remove1_removeAll removeAll_filter_not_eq eq_commute)
  then show ?thesis
    using assms(2) length_pos_if_in_set [of k "keys m"] by (simp add: keys_delete length_remove1)
qed

text \<open>Deleting the oldest key makes room for one more: the eviction rule of every bounded store.\<close>

lemma evict_then_put:
  assumes "wf m" and "keys m = k0 # ks" and "length (keys m) \<le> cap"
  shows "length (keys (put k v (delete k0 m))) \<le> cap"
  using size_put_le [of k v "delete k0 m"] size_delete_present [OF assms(1), of k0] assms(2,3)
  by simp

lemma oldest_survives_put: "keys m = k0 # ks \<Longrightarrow> \<exists>ks'. keys (put k v m) = k0 # ks'"
  by (simp add: keys_put)

end

interpretation jm: insertion_ordered_map jm_get jm_set jm_delete jm_keys jm_wf
  by unfold_locales
    (auto simp: jm_defs Prelude.keys_update Prelude.keys_delete update_conv' delete_conv' map_of_eq_None_iff)

lemmas [map_simps] = jm.get_put jm.get_delete jm.keys_put jm.keys_delete
lemmas [wf_intros] = jm.wf_put jm.wf_delete

lemma jm_has_get: "jm_has m k \<longleftrightarrow> jm_get m k \<noteq> None"
  using jm.get_in_keys [of m k] by (simp add: jm_has_def jm_keys_def)

lemma jm_size_keys: "jm_size m = length (jm_keys m)"
  by (simp add: jm_size_def jm_keys_def)

lemma jm_get_Nil [simp]: "jm_get [] k = None"
  by (simp add: jm_get_def)

lemma jm_wf_Nil [simp]: "jm_wf []"
  by (simp add: jm_wf_def)

lemma jm_wf_filter: "jm_wf m \<Longrightarrow> jm_wf (filter P m)"
  by (simp add: jm_wf_def distinct_map_filter)

lemma jm_get_filter:
  assumes "jm_wf m"
  shows "jm_get (filter P m) k = (case jm_get m k of Some v \<Rightarrow> if P (k, v) then Some v else None | None \<Rightarrow> None)"
  using assms
proof (induction m)
  case Nil
  then show ?case by simp
next
  case (Cons kv m)
  then have "fst kv \<notin> fst ` set m" and wf: "jm_wf m" by (auto simp: jm_wf_def)
  then have "map_of m (fst kv) = None" by (simp add: map_of_eq_None_iff)
  with Cons.IH [OF wf] show ?case
    by (cases kv) (auto simp: jm_get_def split: option.splits)
qed

lemma jm_wf_delete_oldest [wf_intros]: "jm_wf m \<Longrightarrow> jm_wf (jm_delete_oldest m)"
  by (auto simp: jm_delete_oldest_def jm.wf_delete split: option.splits)

lemma size_delete_oldest:
  assumes "jm_wf m"
  shows "jm_size (jm_delete_oldest m) = jm_size m - 1"
proof (cases m)
  case Nil
  then show ?thesis by (simp add: jm_delete_oldest_def jm_oldest_def jm_size_def)
next
  case (Cons kv m')
  with assms jm.size_delete_present [of m "fst kv"] show ?thesis
    by (cases kv) (simp add: jm_delete_oldest_def jm_oldest_def jm_size_keys jm_keys_def)
qed

lemma jm_get_delete_oldest:
  "jm_get (jm_delete_oldest m) k = (if jm_oldest m = Some k then None else jm_get m k)"
  by (auto simp: jm_delete_oldest_def jm.get_delete split: option.splits)

lemma jm_oldest_mem: "jm_oldest m = Some k \<Longrightarrow> jm_get m k \<noteq> None"
  by (auto simp: jm_oldest_def jm_get_def split: list.splits)

lemma jm_size_set_le: "jm_size (jm_set k v m) \<le> Suc (jm_size m)"
  using jm.size_put_le [of k v m] by (simp add: jm_size_keys)

lemma jm_size_set_present: "jm_get m k \<noteq> None \<Longrightarrow> jm_size (jm_set k v m) = jm_size m"
  using jm.size_put_present [of k m v] jm.get_in_keys [of m k] by (simp add: jm_size_keys)

subsection \<open>Runs of a step function\<close>

text \<open>
  A component as a step function on its state, driven by a sequence of inputs. \<open>ok\<close> is what the
  callers guarantee of each input (a static type of the source, a caller's guard).
\<close>

locale step_machine =
  fixes step :: "'s \<Rightarrow> 'i \<Rightarrow> 's"
    and ok :: "'i \<Rightarrow> bool"
    and inv :: "'s \<Rightarrow> bool"
  assumes inv_step: "inv s \<Longrightarrow> ok i \<Longrightarrow> inv (step s i)"
begin

lemma inv_run: "inv s \<Longrightarrow> list_all ok is \<Longrightarrow> inv (foldl step s is)"
  by (induction "is" arbitrary: s) (auto intro: inv_step)

lemma inv_prefix: "inv s \<Longrightarrow> list_all ok (xs @ ys) \<Longrightarrow> inv (foldl step s xs)"
  by (simp add: inv_run)

end

subsection \<open>Bytes and big-endian integers\<close>

type_synonym byte = "8 word"

text \<open>\<open>Buffer.writeUInt32BE\<close>: \<open>None\<close> is the \<open>RangeError\<close> it throws above \<open>0xffffffff\<close>.\<close>

definition u32be :: "nat \<Rightarrow> byte list" where
  "u32be n = [of_nat (n div 16777216), of_nat (n div 65536), of_nat (n div 256), of_nat n]"

definition write_u32be :: "nat \<Rightarrow> byte list option" where
  "write_u32be n = (if n < 4294967296 then Some (u32be n) else None)"

text \<open>\<open>Buffer.readUInt32BE(0)\<close>: \<open>None\<close> is the \<open>RangeError\<close> of a buffer that is too short.\<close>

fun read_u32be :: "byte list \<Rightarrow> nat option" where
  "read_u32be (a # b # c # d # _) =
     Some (unat a * 16777216 + unat b * 65536 + unat c * 256 + unat d)"
| "read_u32be _ = None"

lemma length_u32be [simp]: "length (u32be n) = 4"
  by (simp add: u32be_def)

lemma unat_byte_of_nat: "unat (of_nat n :: byte) = n mod 256"
  by (simp add: unat_of_nat)

lemma read_u32be_u32be:
  assumes "n < 4294967296"
  shows "read_u32be (u32be n @ rest) = Some n"
proof -
  define a b c where "a = n div 256" and "b = a div 256" and "c = b div 256"
  have quot: "n div 65536 = b" "n div 16777216 = c"
    by (simp_all add: a_def b_def c_def div_mult2_eq [symmetric])
  have "c < 256" using assms quot(2) by (auto simp: less_mult_imp_div_less)
  moreover have "n = a * 256 + n mod 256" "a = b * 256 + a mod 256" "b = c * 256 + b mod 256"
    by (simp_all add: a_def b_def c_def)
  ultimately have "c mod 256 * 16777216 + b mod 256 * 65536 + a mod 256 * 256 + n mod 256 = n"
    by simp
  then show ?thesis by (simp add: u32be_def unat_byte_of_nat quot a_def)
qed

lemma unat_byte_less: "unat (b :: byte) < 256"
proof -
  have "unat b < 2 ^ LENGTH(8)" by (rule unsigned_less)
  then show ?thesis by simp
qed

lemma read_u32be_bound: "read_u32be bs = Some n \<Longrightarrow> n < 4294967296"
proof (induction bs rule: read_u32be.induct)
  case (1 a b c d rest)
  then show ?case
    using unat_byte_less [of a] unat_byte_less [of b] unat_byte_less [of c] unat_byte_less [of d]
    by simp
qed auto

lemma read_u32be_Some: "4 \<le> length bs \<Longrightarrow> \<exists>n. read_u32be bs = Some n"
  by (cases bs rule: read_u32be.cases) auto

lemma read_u32be_append: "4 \<le> length bs \<Longrightarrow> read_u32be (bs @ cs) = read_u32be bs"
  by (cases bs rule: read_u32be.cases) auto

lemma read_u32be_None: "read_u32be bs = None \<longleftrightarrow> length bs < 4"
  by (cases bs rule: read_u32be.cases) auto

subsection \<open>JSON values and object spread\<close>

datatype json = JNull | JBool bool | JNum int | JStr string | JArr "json list" | JObj "(string \<times> json) list"

type_synonym jobject = "(string, json) jsmap"

text \<open>\<open>{ ...a, ...b }\<close>: the fields of \<open>b\<close> win, in place where \<open>a\<close> has them.\<close>

definition spread :: "jobject \<Rightarrow> jobject \<Rightarrow> jobject" where
  "spread a b = foldl (\<lambda>m (k, v). jm_set k v m) a b"

lemma spread_Nil [simp]: "spread a [] = a"
  by (simp add: spread_def)

lemma jm_get_spread: "k \<notin> fst ` set b \<Longrightarrow> jm_get (spread a b) k = jm_get a k"
  unfolding spread_def by (induction b arbitrary: a) (auto simp: jm.get_put)

subsection \<open>Text\<close>

text \<open>A JavaScript string as its code points, for the code that cuts by code points.\<close>

type_synonym codepoints = "nat list"

definition lit :: "string \<Rightarrow> codepoints" where
  "lit s = map (\<lambda>c. of_char c) s"

lemma length_lit [simp]: "length (lit s) = length s"
  by (simp add: lit_def)

end
