(* ===== verification/Attention.thy ===== *)
theory Attention
  imports Prelude
begin

section \<open>The attention state machine and its tracker\<close>

text \<open>
  \<open>src/services/attention-detect.ts\<close> holds a pure reducer \<open>advanceAttention\<close> that decides when a
  session needs its user: noisy terminal signals wait out a quiet window, decisions an agent is
  blocked on are immune to further output. \<open>src/services/attention-tracker.ts\<close> wraps it with the
  settle windows of hook-originated signals, the turn-end latch and the events sent to clients.
  The byte scanners of \<open>attention-detect.ts\<close> (regular expressions over terminal output) are in
  \<open>TerminalModes\<close>; here their results enter as inputs.
\<close>

subsection \<open>The reducer\<close>

datatype attention_state = Att_idle | Att_pending_attention | Att_attention | Att_clearing

datatype attention_signal_kind =
    Bell | Notification | TitleIdle | AltScreenExit | Silence | HookNotification | ReviewGate
  | AgentIdle | PromoteRequest | PermissionRequest | PlanReady | Elicitation | Question
  | ToolFailure | ApiError

fun ATTENTION_CONFIRM_MS :: "attention_signal_kind \<Rightarrow> int" where
  "ATTENTION_CONFIRM_MS Bell = 2000"
| "ATTENTION_CONFIRM_MS Notification = 1000"
| "ATTENTION_CONFIRM_MS _ = 0"

definition OUTPUT_IMMUNE_KINDS :: "attention_signal_kind set" where
  "OUTPUT_IMMUNE_KINDS = {HookNotification, ReviewGate, PromoteRequest, PermissionRequest,
     PlanReady, Elicitation, Question}"

definition ACK_BLOCKING_KINDS :: "attention_signal_kind set" where
  "ACK_BLOCKING_KINDS = {k \<in> OUTPUT_IMMUNE_KINDS. k \<noteq> HookNotification}"

definition GENERIC_IMMUNE_KINDS :: "attention_signal_kind set" where
  "GENERIC_IMMUNE_KINDS = {HookNotification}"

definition moreAuthoritativeKind ::
  "attention_signal_kind option \<Rightarrow> attention_signal_kind \<Rightarrow> attention_signal_kind" where
  "moreAuthoritativeKind current incoming =
     (case current of
        None \<Rightarrow> incoming
      | Some c \<Rightarrow>
          if c \<in> OUTPUT_IMMUNE_KINDS \<and> incoming \<notin> OUTPUT_IMMUNE_KINDS then c
          else if c \<in> OUTPUT_IMMUNE_KINDS \<and> c \<notin> GENERIC_IMMUNE_KINDS
                  \<and> incoming \<in> GENERIC_IMMUNE_KINDS then c
          else incoming)"

record attention_machine =
  am_state :: attention_state
  pendingKind :: "attention_signal_kind option"
  pendingSince :: "int option"
  confirmedAt :: "int option"
  confirmedKind :: "attention_signal_kind option"

definition INITIAL_ATTENTION_STATE :: attention_machine where
  "INITIAL_ATTENTION_STATE = \<lparr>am_state = Att_idle, pendingKind = None, pendingSince = None,
     confirmedAt = None, confirmedKind = None\<rparr>"

datatype attention_input =
    In_signal attention_signal_kind int
  | In_output int
  | In_tick int
  | In_userInput int

record attention_emit =
  em_attention :: bool
  em_signal :: "attention_signal_kind option"

record attention_log =
  log_from :: attention_state
  log_to :: attention_state
  log_kind :: "attention_signal_kind option"

record attention_transition =
  tr_next :: attention_machine
  tr_emit :: "attention_emit list"
  tr_log :: "attention_log list"

definition noop :: "attention_machine \<Rightarrow> attention_transition" where
  "noop s = \<lparr>tr_next = s, tr_emit = [], tr_log = []\<rparr>"

definition confirmAttention ::
  "attention_machine \<Rightarrow> attention_signal_kind \<Rightarrow> int \<Rightarrow> attention_transition" where
  "confirmAttention s kind now =
     (let alreadyConfirmed = am_state s = Att_attention in
      \<lparr>tr_next = \<lparr>am_state = Att_attention, pendingKind = None, pendingSince = None,
                   confirmedAt = Some now, confirmedKind = Some kind\<rparr>,
       tr_emit = (if alreadyConfirmed then [] else [\<lparr>em_attention = True, em_signal = Some kind\<rparr>]),
       tr_log = (if alreadyConfirmed then []
                 else [\<lparr>log_from = am_state s, log_to = Att_attention, log_kind = Some kind\<rparr>])\<rparr>)"

definition enterPending ::
  "attention_machine \<Rightarrow> attention_signal_kind \<Rightarrow> int \<Rightarrow> attention_transition" where
  "enterPending s kind now =
     (if ATTENTION_CONFIRM_MS kind \<le> 0 then confirmAttention s kind now
      else \<lparr>tr_next = \<lparr>am_state = Att_pending_attention, pendingKind = Some kind,
                        pendingSince = Some now, confirmedAt = None, confirmedKind = None\<rparr>,
            tr_emit = [],
            tr_log = [\<lparr>log_from = am_state s, log_to = Att_pending_attention,
                        log_kind = Some kind\<rparr>]\<rparr>)"

definition cancelPending :: "attention_machine \<Rightarrow> attention_transition" where
  "cancelPending s = \<lparr>tr_next = INITIAL_ATTENTION_STATE, tr_emit = [],
     tr_log = [\<lparr>log_from = am_state s, log_to = Att_idle, log_kind = pendingKind s\<rparr>]\<rparr>"

definition clearAttention_transition :: attention_transition where
  "clearAttention_transition = \<lparr>tr_next = INITIAL_ATTENTION_STATE,
     tr_emit = [\<lparr>em_attention = False, em_signal = None\<rparr>],
     tr_log = [\<lparr>log_from = Att_attention, log_to = Att_clearing, log_kind = None\<rparr>,
               \<lparr>log_from = Att_clearing, log_to = Att_idle, log_kind = None\<rparr>]\<rparr>"

text \<open>
  The tick of a pending machine: with no pending kind the source compares against \<open>undefined\<close>,
  which is false, and a missing \<open>pendingSince\<close> counts as no time elapsed.
\<close>

definition pendingTick :: "attention_machine \<Rightarrow> int \<Rightarrow> attention_transition" where
  "pendingTick s now =
     (case pendingKind s of
        None \<Rightarrow> noop s
      | Some kind \<Rightarrow>
          let elapsed = now - (case pendingSince s of None \<Rightarrow> now | Some t \<Rightarrow> t) in
          if ATTENTION_CONFIRM_MS kind \<le> elapsed then confirmAttention s kind now else noop s)"

definition advanceAttention :: "attention_machine \<Rightarrow> attention_input \<Rightarrow> attention_transition" where
  "advanceAttention s input =
     (case am_state s of
        Att_idle \<Rightarrow>
          (case input of In_signal kind now \<Rightarrow> enterPending s kind now | _ \<Rightarrow> noop s)
      | Att_pending_attention \<Rightarrow>
          (case input of
             In_signal kind now \<Rightarrow> enterPending s kind now
           | In_output _ \<Rightarrow> cancelPending s
           | In_userInput _ \<Rightarrow> cancelPending s
           | In_tick now \<Rightarrow> pendingTick s now)
      | Att_attention \<Rightarrow>
          (case input of
             In_signal kind now \<Rightarrow>
               \<lparr>tr_next = s\<lparr>confirmedAt := Some now,
                              confirmedKind := Some (moreAuthoritativeKind (confirmedKind s) kind)\<rparr>,
                tr_emit = [], tr_log = []\<rparr>
           | In_output _ \<Rightarrow>
               (case confirmedKind s of
                  Some k \<Rightarrow> if k \<in> OUTPUT_IMMUNE_KINDS then noop s else clearAttention_transition
                | None \<Rightarrow> clearAttention_transition)
           | In_userInput _ \<Rightarrow> clearAttention_transition
           | In_tick _ \<Rightarrow> noop s)
      | Att_clearing \<Rightarrow> \<lparr>tr_next = INITIAL_ATTENTION_STATE, tr_emit = [], tr_log = []\<rparr>)"

lemmas transition_defs = noop_def confirmAttention_def enterPending_def cancelPending_def
  clearAttention_transition_def pendingTick_def INITIAL_ATTENTION_STATE_def Let_def

subsection \<open>What the reducer guarantees\<close>

text \<open>The reachable shapes of the machine: the fields agree with the state they belong to.\<close>

definition attention_wf :: "attention_machine \<Rightarrow> bool" where
  "attention_wf s \<longleftrightarrow>
     (case am_state s of
        Att_idle \<Rightarrow> s = INITIAL_ATTENTION_STATE
      | Att_pending_attention \<Rightarrow>
          (\<exists>k t. pendingKind s = Some k \<and> 0 < ATTENTION_CONFIRM_MS k \<and> pendingSince s = Some t)
          \<and> confirmedAt s = None \<and> confirmedKind s = None
      | Att_attention \<Rightarrow>
          pendingKind s = None \<and> pendingSince s = None \<and> confirmedAt s \<noteq> None \<and> confirmedKind s \<noteq> None
      | Att_clearing \<Rightarrow> False)"

lemma attention_wf_initial [simp]: "attention_wf INITIAL_ATTENTION_STATE"
  by (simp add: attention_wf_def INITIAL_ATTENTION_STATE_def)

lemma wf_confirmAttention [wf_intros]: "attention_wf (tr_next (confirmAttention s k t))"
  by (simp add: attention_wf_def confirmAttention_def Let_def)

lemma wf_enterPending [wf_intros]: "attention_wf (tr_next (enterPending s k t))"
  by (auto simp: enterPending_def wf_intros) (simp add: attention_wf_def)

lemma attention_wf_advance [wf_intros]:
  assumes "attention_wf s"
  shows "attention_wf (tr_next (advanceAttention s i))"
  using assms
  by (cases "am_state s"; cases i)
    (auto simp: advanceAttention_def pendingTick_def noop_def cancelPending_def
      clearAttention_transition_def wf_intros Let_def attention_wf_def [of s] split: option.splits,
     auto simp: attention_wf_def)

definition advance :: "attention_machine \<Rightarrow> attention_input \<Rightarrow> attention_machine" where
  "advance s i = tr_next (advanceAttention s i)"

interpretation attention: step_machine advance "\<lambda>_. True" attention_wf
  by unfold_locales (simp add: advance_def attention_wf_advance)

text \<open>The transition's events are exactly the edges of the confirmed flag.\<close>

lemma advance_emit:
  assumes "attention_wf s"
  shows "map em_attention (tr_emit (advanceAttention s i)) =
    (if (am_state (advance s i) = Att_attention) = (am_state s = Att_attention)
     then [] else [am_state s \<noteq> Att_attention])"
  using assms
  by (cases "am_state s"; cases i)
    (auto simp: advance_def advanceAttention_def transition_defs attention_wf_def split: option.splits)

fun emitted :: "attention_machine \<Rightarrow> attention_input list \<Rightarrow> bool list" where
  "emitted s [] = []"
| "emitted s (i # is) = map em_attention (tr_emit (advanceAttention s i)) @ emitted (advance s i) is"

fun alternates :: "bool \<Rightarrow> bool list \<Rightarrow> bool" where
  "alternates b [] = True"
| "alternates b (x # xs) = (x = b \<and> alternates (\<not> b) xs)"

lemma emitted_alternates:
  assumes "attention_wf s"
  shows "alternates (am_state s \<noteq> Att_attention) (emitted s is)
    \<and> last ((am_state s = Att_attention) # emitted s is) = (am_state (foldl advance s is) = Att_attention)"
  using assms
proof (induction "is" arbitrary: s)
  case Nil
  then show ?case by simp
next
  case (Cons i "is")
  from Cons.prems have "attention_wf (advance s i)" by (simp add: advance_def attention_wf_advance)
  note IH = Cons.IH [OF this]
  show ?case
    using IH by (cases "am_state s = Att_attention"; cases "am_state (advance s i) = Att_attention")
      (simp_all add: advance_emit [OF Cons.prems])
qed

lemma more_authoritative_immune:
  "c \<in> OUTPUT_IMMUNE_KINDS \<Longrightarrow> moreAuthoritativeKind (Some c) k \<in> OUTPUT_IMMUNE_KINDS"
  by (auto simp: moreAuthoritativeKind_def)

lemma more_authoritative_specific:
  "c \<in> ACK_BLOCKING_KINDS \<Longrightarrow> moreAuthoritativeKind (Some c) k \<in> ACK_BLOCKING_KINDS"
  by (auto simp: moreAuthoritativeKind_def ACK_BLOCKING_KINDS_def GENERIC_IMMUNE_KINDS_def)

fun is_userInput :: "attention_input \<Rightarrow> bool" where
  "is_userInput (In_userInput _) = True"
| "is_userInput _ = False"

lemma immune_step:
  assumes "K = OUTPUT_IMMUNE_KINDS \<or> K = ACK_BLOCKING_KINDS"
    and "am_state s = Att_attention" and "confirmedKind s = Some k" and "k \<in> K" and "\<not> is_userInput i"
  shows "am_state (advance s i) = Att_attention \<and> (\<exists>k'. confirmedKind (advance s i) = Some k' \<and> k' \<in> K)"
proof -
  have "k \<in> OUTPUT_IMMUNE_KINDS" using assms(1,4) by (auto simp: ACK_BLOCKING_KINDS_def)
  with assms show ?thesis
    by (cases i) (auto simp: advance_def advanceAttention_def noop_def
        intro: more_authoritative_immune more_authoritative_specific)
qed

lemma immune_run:
  assumes "K = OUTPUT_IMMUNE_KINDS \<or> K = ACK_BLOCKING_KINDS"
    and "am_state s = Att_attention" and "confirmedKind s = Some k" and "k \<in> K"
    and "list_all (\<lambda>i. \<not> is_userInput i) is"
  shows "am_state (foldl advance s is) = Att_attention
    \<and> (\<exists>k'. confirmedKind (foldl advance s is) = Some k' \<and> k' \<in> K)"
  using assms(2-5)
proof (induction "is" arbitrary: s k)
  case (Cons i "is")
  then obtain k' where "am_state (advance s i) = Att_attention"
    and "confirmedKind (advance s i) = Some k'" and "k' \<in> K"
    using immune_step [OF assms(1), of s k i] by auto
  with Cons.IH [of "advance s i" k'] Cons.prems show ?case by simp
qed auto

text \<open>A burst of noisy signals: each restarts the window, and no tick inside it confirms.\<close>

fun in_window :: "int \<Rightarrow> attention_input list \<Rightarrow> bool" where
  "in_window since [] = True"
| "in_window since (In_signal k now # is) = (k = Bell \<and> in_window now is)"
| "in_window since (In_tick now # is) = (now - since < 2000 \<and> in_window since is)"
| "in_window since (_ # is) = False"

lemma emitted_quiet:
  assumes "am_state s = Att_pending_attention" and "pendingKind s = Some Bell"
    and "pendingSince s = Some since" and "in_window since is"
  shows "emitted s is = []"
  using assms
proof (induction "is" arbitrary: s since)
  case (Cons i "is")
  show ?case
  proof (cases i)
    case (In_signal k now)
    with Cons.prems have "am_state (advance s i) = Att_pending_attention"
      "pendingKind (advance s i) = Some Bell" "pendingSince (advance s i) = Some now" "in_window now is"
      "tr_emit (advanceAttention s i) = []"
      by (auto simp: advance_def advanceAttention_def enterPending_def)
    then show ?thesis using Cons.IH by simp
  next
    case (In_tick now)
    with Cons.prems have "advance s i = s" "in_window since is" "tr_emit (advanceAttention s i) = []"
      by (auto simp: advance_def advanceAttention_def pendingTick_def noop_def)
    then show ?thesis using Cons by simp
  qed (use Cons.prems in auto)
qed simp

subsection \<open>The tracker\<close>

fun kind_name :: "attention_signal_kind \<Rightarrow> string" where
  "kind_name Bell = ''bell''"
| "kind_name Notification = ''notification''"
| "kind_name TitleIdle = ''titleIdle''"
| "kind_name AltScreenExit = ''altScreenExit''"
| "kind_name Silence = ''silence''"
| "kind_name HookNotification = ''hookNotification''"
| "kind_name ReviewGate = ''reviewGate''"
| "kind_name AgentIdle = ''agentIdle''"
| "kind_name PromoteRequest = ''promoteRequest''"
| "kind_name PermissionRequest = ''permissionRequest''"
| "kind_name PlanReady = ''planReady''"
| "kind_name Elicitation = ''elicitation''"
| "kind_name Question = ''question''"
| "kind_name ToolFailure = ''toolFailure''"
| "kind_name ApiError = ''apiError''"

text \<open>\<open>ATTENTION_SETTLE_MS\<close>: a partial record; the code reads a missing entry as 0.\<close>

fun ATTENTION_SETTLE_MS :: "attention_signal_kind \<Rightarrow> int option" where
  "ATTENTION_SETTLE_MS PermissionRequest = Some 2000"
| "ATTENTION_SETTLE_MS AgentIdle = Some 3000"
| "ATTENTION_SETTLE_MS ToolFailure = Some 2000"
| "ATTENTION_SETTLE_MS ApiError = Some 2000"
| "ATTENTION_SETTLE_MS _ = None"

type_synonym notification_event = "string \<times> jobject"

record deferred_emit =
  de_extras :: jobject
  de_alsoEmit :: "notification_event list"
  de_dueAt :: int

text \<open>
  A background task keeps only the field the tracker reads: its \<open>status\<close>, any JSON value (the
  hook protocol does not check its type), \<open>None\<close> when the field is missing.
\<close>

record background_task =
  bt_status :: "json option"

definition TERMINAL_STATUSES :: "string set" where
  "TERMINAL_STATUSES = {''completed'', ''failed'', ''stopped'', ''killed'', ''cancelled'',
     ''canceled'', ''error'', ''timed_out'', ''succeeded'', ''done''}"

definition js_space :: "char \<Rightarrow> bool" where
  "js_space c \<longleftrightarrow> of_char c \<in> {9, 10, 11, 12, 13, 32, 160 :: nat}"

definition js_trim :: "string \<Rightarrow> string" where
  "js_trim s = rev (dropWhile js_space (rev (dropWhile js_space s)))"

definition js_lower :: "char \<Rightarrow> char" where
  "js_lower c = (let n = (of_char c :: nat) in
     if 65 \<le> n \<and> n \<le> 90 \<or> 192 \<le> n \<and> n \<le> 222 \<and> n \<noteq> 215 then char_of (n + 32) else c)"

definition isBackgroundTaskOutstanding :: "background_task \<Rightarrow> bool" where
  "isBackgroundTaskOutstanding t =
     (case bt_status t of
        Some (JStr status) \<Rightarrow> map js_lower (js_trim status) \<notin> TERMINAL_STATUSES
      | _ \<Rightarrow> True)"

definition filterOutstandingBackgroundTasks :: "background_task list \<Rightarrow> background_task list" where
  "filterOutstandingBackgroundTasks ts = filter isBackgroundTaskOutstanding ts"

record attention_tracker =
  at_state :: attention_machine
  lastTurnEndedAt :: "int option"
  turnPromptSource :: "string option"
  workFinishedAt :: "int option"
  backgroundTasks :: "background_task list"
  backgroundTasksAt :: "int option"
  turnEndPingSent :: bool
  deferred :: "(attention_signal_kind, deferred_emit) jsmap"

definition new_tracker :: attention_tracker where
  "new_tracker = \<lparr>at_state = INITIAL_ATTENTION_STATE, lastTurnEndedAt = None, turnPromptSource = None,
     workFinishedAt = None, backgroundTasks = [], backgroundTasksAt = None, turnEndPingSent = False,
     deferred = []\<rparr>"

text \<open>Every operation returns the new tracker and the events handed to \<open>host.emitEvent\<close>, in order.\<close>

definition emit_object :: "attention_emit \<Rightarrow> jobject" where
  "emit_object e = (''attention'', JBool (em_attention e)) #
     (case em_signal e of None \<Rightarrow> [] | Some k \<Rightarrow> [(''signal'', JStr (kind_name k))])"

definition signal_object :: "attention_signal_kind \<Rightarrow> jobject \<Rightarrow> jobject" where
  "signal_object kind extras =
     spread [(''attention'', JBool True), (''signal'', JStr (kind_name kind))] extras"

text \<open>The debug lines: entering or leaving the pending state without confirming is not logged.\<close>

definition logged_entries :: "attention_transition \<Rightarrow> attention_log list" where
  "logged_entries tr = filter (\<lambda>e. \<not> (log_to e = Att_pending_attention \<or>
     (log_from e = Att_pending_attention \<and> log_to e = Att_idle))) (tr_log tr)"

definition applyAttentionTransition :: "attention_transition \<Rightarrow> jobject option \<Rightarrow>
    attention_tracker \<Rightarrow> attention_tracker \<times> notification_event list" where
  "applyAttentionTransition tr extras t =
     (t\<lparr>at_state := tr_next tr\<rparr>,
      map (\<lambda>e. (''attention'',
             case extras of
               Some x \<Rightarrow> if em_attention e then spread (emit_object e) x else emit_object e
             | None \<Rightarrow> emit_object e)) (tr_emit tr))"

definition cancelDeferred :: "attention_signal_kind \<Rightarrow> attention_tracker \<Rightarrow> attention_tracker" where
  "cancelDeferred kind t = t\<lparr>deferred := jm_delete kind (deferred t)\<rparr>"

definition clearIfConfirmedKind :: "attention_signal_kind \<Rightarrow> int \<Rightarrow> attention_tracker \<Rightarrow>
    attention_tracker \<times> notification_event list" where
  "clearIfConfirmedKind kind now t =
     (let t1 = cancelDeferred kind t in
      if am_state (at_state t1) = Att_attention \<and> confirmedKind (at_state t1) = Some kind
      then applyAttentionTransition (advanceAttention (at_state t1) (In_userInput now)) None t1
      else (t1, []))"

definition clearAttention :: "int \<Rightarrow> attention_tracker \<Rightarrow> attention_tracker \<times> notification_event list" where
  "clearAttention now t =
     (let t1 = t\<lparr>deferred := []\<rparr> in
      applyAttentionTransition (advanceAttention (at_state t1) (In_userInput now)) None t1)"

definition acknowledgeAttention ::
  "int \<Rightarrow> attention_tracker \<Rightarrow> bool \<times> attention_tracker \<times> notification_event list" where
  "acknowledgeAttention now t =
     (if (case confirmedKind (at_state t) of Some k \<Rightarrow> k \<in> ACK_BLOCKING_KINDS | None \<Rightarrow> False)
      then (False, t, [])
      else case clearAttention now t of (t1, evs) \<Rightarrow>
        (True, t1\<lparr>lastTurnEndedAt := None, turnEndPingSent := False\<rparr>,
         evs @ [(''attention'', [(''attention'', JBool False)])]))"

definition emitAttentionSignalWithExtras :: "attention_signal_kind \<Rightarrow> jobject \<Rightarrow> int \<Rightarrow>
    attention_tracker \<Rightarrow> attention_tracker \<times> notification_event list" where
  "emitAttentionSignalWithExtras kind extras now t =
     (t\<lparr>at_state := tr_next (advanceAttention (at_state t) (In_signal kind now))\<rparr>,
      [(''attention'', signal_object kind extras)])"

definition emitAttentionSignalDeferred :: "attention_signal_kind \<Rightarrow> jobject \<Rightarrow>
    notification_event list \<Rightarrow> int \<Rightarrow> attention_tracker \<Rightarrow> attention_tracker" where
  "emitAttentionSignalDeferred kind extras alsoEmit now t =
     (let settleMs = (case ATTENTION_SETTLE_MS kind of None \<Rightarrow> 0 | Some ms \<Rightarrow> ms) in
      t\<lparr>deferred := jm_set kind
         \<lparr>de_extras = extras, de_alsoEmit = alsoEmit, de_dueAt = now + settleMs\<rparr> (deferred t)\<rparr>)"

text \<open>
  \<open>drainDeferred\<close> iterates over the live map and deletes the entries it flushes; the loop below
  visits the entries that were there when it started, in order, as the iterator does.
\<close>

fun drain_loop :: "int \<Rightarrow> (attention_signal_kind, deferred_emit) jsmap \<Rightarrow> attention_tracker \<Rightarrow>
    attention_tracker \<times> notification_event list" where
  "drain_loop now [] t = (t, [])"
| "drain_loop now ((kind, entry) # rest) t =
     (if de_dueAt entry > now then drain_loop now rest t
      else
        let t1 = t\<lparr>deferred := jm_delete kind (deferred t),
                   at_state := tr_next (advanceAttention (at_state t) (In_signal kind now))\<rparr>;
            evs = de_alsoEmit entry @ [(''attention'', signal_object kind (de_extras entry))]
        in (case drain_loop now rest t1 of (t2, evs2) \<Rightarrow> (t2, evs @ evs2)))"

definition drainDeferred :: "int \<Rightarrow> attention_tracker \<Rightarrow> attention_tracker \<times> notification_event list" where
  "drainDeferred now t = drain_loop now (deferred t) t"

definition setBackgroundTasks :: "background_task list \<Rightarrow> int \<Rightarrow> attention_tracker \<Rightarrow> attention_tracker" where
  "setBackgroundTasks tasks now t = t\<lparr>backgroundTasks := tasks,
     backgroundTasksAt := (if filterOutstandingBackgroundTasks tasks \<noteq> [] then Some now else None)\<rparr>"

definition resolveDeferredTurnEnd :: "int \<Rightarrow> attention_tracker \<Rightarrow> attention_tracker" where
  "resolveDeferredTurnEnd now t =
     (if lastTurnEndedAt t = None then t
      else if turnEndPingSent t then t
      else if filterOutstandingBackgroundTasks (backgroundTasks t) \<noteq> [] then t
      else emitAttentionSignalDeferred AgentIdle [] [] now (t\<lparr>turnEndPingSent := True\<rparr>))"

definition clearDeferred :: "attention_tracker \<Rightarrow> attention_tracker" where
  "clearDeferred t = t\<lparr>deferred := []\<rparr>"

subsection \<open>What the tracker guarantees\<close>

text \<open>
  A client follows the tracker through its \<open>attention\<close> events alone: it keeps the last
  \<open>attention\<close> flag it was sent.
\<close>

definition client_step :: "bool \<Rightarrow> notification_event \<Rightarrow> bool" where
  "client_step b ev = (if fst ev = ''attention''
     then (case jm_get (snd ev) ''attention'' of Some (JBool v) \<Rightarrow> v | _ \<Rightarrow> b) else b)"

definition client_view :: "bool \<Rightarrow> notification_event list \<Rightarrow> bool" where
  "client_view b evs = foldl client_step b evs"

lemma client_view_simps [simp]:
  "client_view b [] = b"
  "client_view b (ev # evs) = client_view (client_step b ev) evs"
  "client_view b (xs @ ys) = client_view (client_view b xs) ys"
  by (simp_all add: client_view_def)

definition extras_ok :: "jobject \<Rightarrow> bool" where
  "extras_ok x \<longleftrightarrow> ''attention'' \<notin> fst ` set x"

definition also_ok :: "notification_event list \<Rightarrow> bool" where
  "also_ok evs \<longleftrightarrow> list_all (\<lambda>ev. fst ev \<noteq> ''attention'') evs"

lemma client_view_also: "also_ok evs \<Longrightarrow> client_view b evs = b"
  by (induction evs) (auto simp: also_ok_def client_step_def)

lemma client_step_signal [simp]:
  "extras_ok x \<Longrightarrow> client_step b (''attention'', signal_object k x) = True"
  by (simp add: client_step_def signal_object_def extras_ok_def jm_get_spread) (simp add: jm_get_def)

lemma client_view_map:
  assumes "\<And>b e. client_step b (f e) = g e"
  shows "client_view b (map f es) = last (b # map g es)"
  by (induction es arbitrary: b) (simp_all add: assms)

lemma client_view_apply:
  assumes "case x of None \<Rightarrow> True | Some e \<Rightarrow> extras_ok e"
  shows "client_view b (snd (applyAttentionTransition tr x t)) = last (b # map em_attention (tr_emit tr))"
  unfolding applyAttentionTransition_def snd_conv
proof (rule client_view_map)
  fix b e
  show "client_step b (''attention'', case x of Some xs \<Rightarrow>
      if em_attention e then spread (emit_object e) xs else emit_object e | None \<Rightarrow> emit_object e)
    = em_attention e"
    using assms
    by (cases x) (auto simp: client_step_def extras_ok_def jm_get_spread, auto simp: emit_object_def jm_get_def)
qed

lemma client_follows_advance:
  assumes "attention_wf (at_state t)" and "case x of None \<Rightarrow> True | Some e \<Rightarrow> extras_ok e"
  shows "client_view (am_state (at_state t) = Att_attention)
      (snd (applyAttentionTransition (advanceAttention (at_state t) i) x t)) =
    (am_state (tr_next (advanceAttention (at_state t) i)) = Att_attention)"
  using client_view_apply [OF assms(2)] advance_emit [OF assms(1), of i]
  by (auto simp: advance_def)

lemma zero_threshold_confirms:
  assumes "ATTENTION_CONFIRM_MS k = 0" and "attention_wf s"
  shows "am_state (tr_next (advanceAttention s (In_signal k now))) = Att_attention"
  using assms by (cases "am_state s")
    (auto simp: advanceAttention_def enterPending_def confirmAttention_def attention_wf_def Let_def)

definition hook_kind :: "attention_signal_kind \<Rightarrow> bool" where
  "hook_kind k \<longleftrightarrow> k \<in> {HookNotification, ReviewGate, AgentIdle, PromoteRequest, PermissionRequest,
     PlanReady, Elicitation, Question, ToolFailure, ApiError}"

lemma hook_kind_confirms [simp]: "hook_kind k \<Longrightarrow> ATTENTION_CONFIRM_MS k = 0"
  by (auto simp: hook_kind_def)

lemma settle_kind_confirms [simp]: "ATTENTION_SETTLE_MS k \<noteq> None \<Longrightarrow> ATTENTION_CONFIRM_MS k = 0"
  by (cases k) auto

text \<open>The operations the owning session calls, as one step function, with the client beside it.\<close>

datatype tracker_op =
    Op_input attention_input "jobject option"
  | Op_signal attention_signal_kind jobject int
  | Op_defer attention_signal_kind jobject "notification_event list" int
  | Op_drain int
  | Op_clear_kind attention_signal_kind int
  | Op_cancel attention_signal_kind
  | Op_clear int
  | Op_ack int
  | Op_background "background_task list" int
  | Op_turn_end int
  | Op_clear_deferred

fun apply_op :: "attention_tracker \<Rightarrow> tracker_op \<Rightarrow> attention_tracker \<times> notification_event list" where
  "apply_op t (Op_input i x) = applyAttentionTransition (advanceAttention (at_state t) i) x t"
| "apply_op t (Op_signal k x now) = emitAttentionSignalWithExtras k x now t"
| "apply_op t (Op_defer k x al now) = (emitAttentionSignalDeferred k x al now t, [])"
| "apply_op t (Op_drain now) = drainDeferred now t"
| "apply_op t (Op_clear_kind k now) = clearIfConfirmedKind k now t"
| "apply_op t (Op_cancel k) = (cancelDeferred k t, [])"
| "apply_op t (Op_clear now) = clearAttention now t"
| "apply_op t (Op_ack now) = snd (acknowledgeAttention now t)"
| "apply_op t (Op_background ts now) = (setBackgroundTasks ts now t, [])"
| "apply_op t (Op_turn_end now) = (resolveDeferredTurnEnd now t, [])"
| "apply_op t Op_clear_deferred = (clearDeferred t, [])"

fun op_ok :: "tracker_op \<Rightarrow> bool" where
  "op_ok (Op_input i x) = (case x of None \<Rightarrow> True | Some e \<Rightarrow> extras_ok e)"
| "op_ok (Op_signal k x now) = (hook_kind k \<and> extras_ok x)"
| "op_ok (Op_defer k x al now) = (ATTENTION_SETTLE_MS k \<noteq> None \<and> extras_ok x \<and> also_ok al)"
| "op_ok _ = True"

definition tracker_step :: "attention_tracker \<times> bool \<Rightarrow> tracker_op \<Rightarrow> attention_tracker \<times> bool" where
  "tracker_step tb op = (case apply_op (fst tb) op of (t, evs) \<Rightarrow> (t, client_view (snd tb) evs))"

definition entry_ok :: "attention_signal_kind \<times> deferred_emit \<Rightarrow> bool" where
  "entry_ok ke \<longleftrightarrow> ATTENTION_SETTLE_MS (fst ke) \<noteq> None \<and> extras_ok (de_extras (snd ke))
     \<and> also_ok (de_alsoEmit (snd ke))"

definition tracker_wf :: "attention_tracker \<Rightarrow> bool" where
  "tracker_wf t \<longleftrightarrow> attention_wf (at_state t) \<and> list_all entry_ok (deferred t)"

definition tracker_inv :: "attention_tracker \<times> bool \<Rightarrow> bool" where
  "tracker_inv tb \<longleftrightarrow> tracker_wf (fst tb) \<and> snd tb = (am_state (at_state (fst tb)) = Att_attention)"

lemma entries_set: "list_all entry_ok m \<Longrightarrow> entry_ok (k, e) \<Longrightarrow> list_all entry_ok (jm_set k e m)"
  by (induction m) (auto simp: jm_set_def entry_ok_def)

lemma entries_delete: "list_all entry_ok m \<Longrightarrow> list_all entry_ok (jm_delete k m)"
  by (auto simp: jm_delete_def AList.delete_eq list_all_iff)

lemma drain_loop_inv:
  assumes "list_all entry_ok es" and "tracker_wf t"
  shows "tracker_wf (fst (drain_loop now es t)) \<and>
    client_view (am_state (at_state t) = Att_attention) (snd (drain_loop now es t)) =
      (am_state (at_state (fst (drain_loop now es t))) = Att_attention)"
  using assms
proof (induction now es t rule: drain_loop.induct)
  case (2 now kind entry rest t)
  show ?case
  proof (cases "de_dueAt entry > now")
    case True
    with 2 show ?thesis by simp
  next
    case False
    let ?t1 = "t\<lparr>deferred := jm_delete kind (deferred t),
      at_state := tr_next (advanceAttention (at_state t) (In_signal kind now))\<rparr>"
    from 2 have ok: "entry_ok (kind, entry)" "list_all entry_ok rest" "attention_wf (at_state t)"
      by (auto simp: tracker_wf_def)
    then have att: "am_state (at_state ?t1) = Att_attention"
      using zero_threshold_confirms [of kind "at_state t" now] by (simp add: entry_ok_def)
    have wf1: "tracker_wf ?t1"
      using "2.prems" by (simp add: tracker_wf_def attention_wf_advance entries_delete)
    note IH = "2.IH"(2) [OF False refl refl ok(2) wf1]
    from ok(1) have "client_view b (de_alsoEmit entry @ [(''attention'', signal_object kind (de_extras entry))])"
      for b by (simp add: entry_ok_def)
    with False IH att show ?thesis
      by (auto simp: Let_def split: prod.splits)
  qed
qed simp

lemma tracker_wf_simps [simp]:
  "tracker_wf (t\<lparr>lastTurnEndedAt := a\<rparr>) = tracker_wf t"
  "tracker_wf (t\<lparr>turnEndPingSent := b\<rparr>) = tracker_wf t"
  "tracker_wf (t\<lparr>backgroundTasks := ts, backgroundTasksAt := c\<rparr>) = tracker_wf t"
  by (simp_all add: tracker_wf_def)

lemma tracker_wf_defer:
  "tracker_wf t \<Longrightarrow> entry_ok (k, \<lparr>de_extras = x, de_alsoEmit = al, de_dueAt = 0\<rparr>) \<Longrightarrow>
    tracker_wf (emitAttentionSignalDeferred k x al now t)"
  by (auto simp: tracker_wf_def emitAttentionSignalDeferred_def Let_def entry_ok_def intro!: entries_set)

lemma clearAttention_inv:
  assumes "tracker_wf t"
  shows "tracker_wf (fst (clearAttention now t))
    \<and> am_state (at_state (fst (clearAttention now t))) \<noteq> Att_attention
    \<and> \<not> client_view (am_state (at_state t) = Att_attention) (snd (clearAttention now t))"
proof -
  have wf: "attention_wf (at_state t)" using assms by (simp add: tracker_wf_def)
  have "am_state (tr_next (advanceAttention (at_state t) (In_userInput now))) \<noteq> Att_attention"
    using wf by (cases "am_state (at_state t)")
      (auto simp: advanceAttention_def transition_defs attention_wf_def)
  then show ?thesis
    using client_follows_advance [of "t\<lparr>deferred := []\<rparr>" None] wf
    by (simp add: clearAttention_def Let_def tracker_wf_def)
      (simp add: applyAttentionTransition_def attention_wf_advance)
qed

lemma tracker_inv_step:
  assumes "tracker_inv tb" and "op_ok op"
  shows "tracker_inv (tracker_step tb op)"
proof -
  obtain t b where tb: "tb = (t, b)" by (cases tb)
  have wf: "tracker_wf t" and b: "b = (am_state (at_state t) = Att_attention)"
    using assms(1) by (auto simp: tracker_inv_def tb)
  then have awf: "attention_wf (at_state t)" by (simp add: tracker_wf_def)
  show ?thesis
  proof (cases op)
    case (Op_input i x)
    then show ?thesis
      using client_follows_advance [OF awf, of x i] assms(2) wf
      by (auto simp: tracker_inv_def tracker_step_def tb b tracker_wf_def split: prod.splits)
        (auto simp: applyAttentionTransition_def attention_wf_advance)
  next
    case (Op_signal k x now)
    then show ?thesis
      using assms(2) wf zero_threshold_confirms [OF _ awf, of k now]
      by (simp add: tracker_inv_def tracker_step_def tb emitAttentionSignalWithExtras_def
          tracker_wf_def attention_wf_advance)
  next
    case (Op_defer k x al now)
    then show ?thesis
      using assms(2) tracker_wf_defer [OF wf, of k x al now]
      by (simp add: tracker_inv_def tracker_step_def tb b entry_ok_def)
        (simp add: emitAttentionSignalDeferred_def Let_def)
  next
    case (Op_drain now)
    then show ?thesis
      using drain_loop_inv [of "deferred t" t now] wf
      by (auto simp: tracker_inv_def tracker_step_def tb b drainDeferred_def tracker_wf_def
          split: prod.splits)
  next
    case (Op_clear_kind k now)
    then show ?thesis
      using client_follows_advance [of "cancelDeferred k t" None "In_userInput now"] wf
      by (auto simp: tracker_inv_def tracker_step_def tb b clearIfConfirmedKind_def Let_def
          tracker_wf_def cancelDeferred_def entries_delete split: prod.splits)
        (auto simp: applyAttentionTransition_def attention_wf_advance entries_delete)
  next
    case (Op_clear now)
    then show ?thesis
      using clearAttention_inv [OF wf, of now]
      by (auto simp: tracker_inv_def tracker_step_def tb b split: prod.splits)
  next
    case (Op_ack now)
    then show ?thesis
      using clearAttention_inv [OF wf, of now] wf
      by (auto simp: tracker_inv_def tracker_step_def tb b acknowledgeAttention_def client_step_def
          jm_get_def split: prod.splits option.splits)
  next
    case (Op_turn_end now)
    then show ?thesis
      using tracker_wf_defer [of "t\<lparr>turnEndPingSent := True\<rparr>" AgentIdle "[]" "[]" now] wf
      by (simp add: tracker_inv_def tracker_step_def tb b resolveDeferredTurnEnd_def entry_ok_def
          extras_ok_def also_ok_def) (simp add: emitAttentionSignalDeferred_def Let_def)
  qed (use wf in \<open>auto simp: tracker_inv_def tracker_step_def tb b tracker_wf_def cancelDeferred_def
      setBackgroundTasks_def clearDeferred_def entries_delete\<close>)
qed

interpretation tracker: step_machine tracker_step op_ok tracker_inv
  by unfold_locales (rule tracker_inv_step)

subsection \<open>Settle windows\<close>

definition due :: "int \<Rightarrow> (attention_signal_kind, deferred_emit) jsmap \<Rightarrow>
    (attention_signal_kind, deferred_emit) jsmap" where
  "due now es = filter (\<lambda>ke. de_dueAt (snd ke) \<le> now) es"

definition flush_events :: "attention_signal_kind \<times> deferred_emit \<Rightarrow> notification_event list" where
  "flush_events ke = de_alsoEmit (snd ke) @ [(''attention'', signal_object (fst ke) (de_extras (snd ke)))]"

definition raise_all :: "int \<Rightarrow> attention_machine \<Rightarrow>
    (attention_signal_kind, deferred_emit) jsmap \<Rightarrow> attention_machine" where
  "raise_all now s es = foldl (\<lambda>s ke. advance s (In_signal (fst ke) now)) s es"

definition delete_all :: "('k, 'v) jsmap \<Rightarrow> ('k \<times> 'w) list \<Rightarrow> ('k, 'v) jsmap" where
  "delete_all m es = foldl (\<lambda>m ke. jm_delete (fst ke) m) m es"

text \<open>A drain flushes exactly the due entries, in insertion order.\<close>

lemma drain_loop_eq:
  "drain_loop now es t =
    (t\<lparr>deferred := delete_all (deferred t) (due now es),
        at_state := raise_all now (at_state t) (due now es)\<rparr>,
     concat (map flush_events (due now es)))"
proof (induction now es t rule: drain_loop.induct)
  case (1 now t)
  show ?case by (simp add: due_def delete_all_def raise_all_def)
next
  case (2 now kind entry rest t)
  then show ?case
    by (cases "de_dueAt entry > now")
      (simp_all add: due_def delete_all_def raise_all_def flush_events_def advance_def Let_def)
qed

lemma due_set_later: "now < de_dueAt e \<Longrightarrow> jm_wf D \<Longrightarrow> due now (jm_set k e D) = due now (jm_delete k D)"
proof (induction D)
  case (Cons kv D)
  then show ?case
    by (cases kv) (auto simp: due_def jm_set_def jm_delete_def jm_wf_def AList.delete_eq
        intro!: filter_cong, force)
qed (simp add: due_def jm_set_def jm_delete_def)

lemma due_keys: "k \<notin> fst ` set D \<Longrightarrow> k \<notin> fst ` set (due now D)"
  by (auto simp: due_def)

lemma delete_delete_all: "jm_delete k (delete_all m es) = delete_all (jm_delete k m) es"
  unfolding delete_all_def
  by (induction es arbitrary: m) (simp_all add: jm_delete_def AList.delete_twist [of k])

lemma delete_key_gone: "k \<notin> fst ` set (jm_delete k D)"
  by (auto simp: jm_delete_def AList.delete_eq)

lemma raise_other_kind:
  assumes "confirmedKind s \<noteq> Some k" and "k' \<noteq> k"
  shows "confirmedKind (advance s (In_signal k' now)) \<noteq> Some k"
  using assms by (cases "am_state s")
    (auto simp: advance_def advanceAttention_def enterPending_def confirmAttention_def
      INITIAL_ATTENTION_STATE_def moreAuthoritativeKind_def Let_def split: option.splits)

lemma raise_all_other_kinds:
  "confirmedKind s \<noteq> Some k \<Longrightarrow> k \<notin> fst ` set es \<Longrightarrow> confirmedKind (raise_all now s es) \<noteq> Some k"
  unfolding raise_all_def by (induction es arbitrary: s) (auto simp: raise_other_kind)

subsection \<open>Properties\<close>

text \<open>
  Over any sequence of inputs the machine's events alternate between raising and clearing,
  starting with a raise, and the last one agrees with the state it is left in: no duplicate
  notification and no missing clear.
\<close>

theorem attention_events_alternate:
  "alternates True (emitted INITIAL_ATTENTION_STATE is)
    \<and> last (False # emitted INITIAL_ATTENTION_STATE is) =
        (am_state (foldl advance INITIAL_ATTENTION_STATE is) = Att_attention)"
  using emitted_alternates [OF attention_wf_initial, of "is"]
  by (simp add: INITIAL_ATTENTION_STATE_def)

text \<open>
  C10: while a decision an agent is blocked on (a permission, plan, gate, promote, elicitation or
  question) is confirmed, no sequence of terminal output, ticks and further signals clears it or
  downgrades it to a kind that output or a generic acknowledge could clear; only user input can.
\<close>

theorem blocked_decision_survives_output:
  assumes "am_state s = Att_attention" and "confirmedKind s = Some k"
    and "k \<in> {PermissionRequest, PlanReady, ReviewGate, PromoteRequest, Elicitation, Question}"
    and "list_all (\<lambda>i. \<not> is_userInput i) is"
  shows "am_state (foldl advance s is) = Att_attention
    \<and> (\<exists>k'. confirmedKind (foldl advance s is) = Some k'
      \<and> k' \<in> {PermissionRequest, PlanReady, ReviewGate, PromoteRequest, Elicitation, Question})"
proof -
  have "ACK_BLOCKING_KINDS = {PermissionRequest, PlanReady, ReviewGate, PromoteRequest, Elicitation, Question}"
    by (auto simp: ACK_BLOCKING_KINDS_def OUTPUT_IMMUNE_KINDS_def)
  with immune_run [OF disjI2 [OF refl] assms(1,2) _ assms(4)] assms(3) show ?thesis by simp
qed

theorem blocked_decision_survives_output_witness:
  "am_state (foldl advance (advance INITIAL_ATTENTION_STATE (In_signal PlanReady 5))
     [In_output 6, In_signal HookNotification 7, In_tick 8]) = Att_attention"
  using blocked_decision_survives_output
    [of "advance INITIAL_ATTENTION_STATE (In_signal PlanReady 5)" PlanReady
        "[In_output 6, In_signal HookNotification 7, In_tick 8]"]
  by (simp add: advance_def advanceAttention_def transition_defs ACK_BLOCKING_KINDS_def
      OUTPUT_IMMUNE_KINDS_def)

text \<open>
  A burst of terminal bells in which no tick comes 2 s after the latest bell reports nothing:
  every bell restarts the window, so a program that keeps ringing while it works never raises
  attention.
\<close>

theorem bell_burst_is_silent:
  assumes "in_window t0 is"
  shows "emitted INITIAL_ATTENTION_STATE (In_signal Bell t0 # is) = []"
proof -
  let ?s = "advance INITIAL_ATTENTION_STATE (In_signal Bell t0)"
  have s: "am_state ?s = Att_pending_attention" "pendingKind ?s = Some Bell" "pendingSince ?s = Some t0"
    by (simp_all add: advance_def advanceAttention_def transition_defs)
  then have "emitted ?s is = []" using emitted_quiet assms by blast
  then show ?thesis by (simp add: advanceAttention_def transition_defs)
qed

theorem bell_burst_is_silent_witness:
  "emitted INITIAL_ATTENTION_STATE
     (In_signal Bell 0 # [In_tick 1500, In_signal Bell 1900, In_tick 3800]) = []"
  using bell_burst_is_silent [of 0 "[In_tick 1500, In_signal Bell 1900, In_tick 3800]"] by simp

text \<open>
  C9: a client that only sees the \<open>attention\<close> events always agrees with the server. After any
  sequence of tracker operations (terminal input, hook signals, settle windows, decisions,
  acknowledges) from a fresh tracker, the last flag it was sent is the machine's confirmed flag.
\<close>

theorem client_agrees_with_tracker:
  assumes "list_all op_ok ops"
  shows "case foldl tracker_step (new_tracker, False) ops of
    (t, client) \<Rightarrow> client = (am_state (at_state t) = Att_attention)"
proof -
  have "tracker_inv (new_tracker, False)"
    by (simp add: tracker_inv_def tracker_wf_def new_tracker_def)
      (simp add: INITIAL_ATTENTION_STATE_def)
  from tracker.inv_run [OF this assms] show ?thesis
    by (auto simp: tracker_inv_def split: prod.splits)
qed

theorem client_agrees_with_tracker_witness:
  "case foldl tracker_step (new_tracker, False)
      [Op_signal ReviewGate [(''prompt'', JStr ''deploy?'')] 10,
       Op_defer PermissionRequest [] [(''permission_request'', [])] 11, Op_drain 2100] of
    (t, client) \<Rightarrow> client = (am_state (at_state t) = Att_attention)"
  by (rule client_agrees_with_tracker)
    (simp add: hook_kind_def extras_ok_def also_ok_def)

text \<open>
  a hook signal that is resolved inside its settle window leaves no trace. Deferring a signal,
  draining before its window ends and then resolving it gives the events and the tracker of a run
  in which it was never raised.
\<close>

theorem settled_in_window_leaves_no_trace:
  assumes "jm_wf (deferred t)" and "confirmedKind (at_state t) \<noteq> Some k"
    and "ATTENTION_SETTLE_MS k = Some ms" and "now < raised + ms"
  shows "(case drainDeferred now (emitAttentionSignalDeferred k x al raised t) of (t1, evs1) \<Rightarrow>
          case clearIfConfirmedKind k resolved t1 of (t2, evs2) \<Rightarrow> (t2, evs1 @ evs2))
    = drainDeferred now (cancelDeferred k t)"
proof -
  let ?e = "\<lparr>de_extras = x, de_alsoEmit = al, de_dueAt = raised + ms\<rparr>"
  let ?D = "jm_delete k (deferred t)"
  have due: "due now (jm_set k ?e (deferred t)) = due now ?D"
    using assms(1,4) by (intro due_set_later) auto
  have "k \<notin> fst ` set (due now ?D)" by (rule due_keys [OF delete_key_gone])
  then have other: "confirmedKind (raise_all now (at_state t) (due now ?D)) \<noteq> Some k"
    by (rule raise_all_other_kinds [OF assms(2)])
  show ?thesis
    using other assms(3)
    by (simp add: drainDeferred_def drain_loop_eq emitAttentionSignalDeferred_def Let_def due
        clearIfConfirmedKind_def cancelDeferred_def delete_delete_all)
      (simp add: jm_delete_def jm_set_def AList.delete_update_same)
qed

theorem settled_in_window_leaves_no_trace_witness:
  "(case drainDeferred 1000 (emitAttentionSignalDeferred PermissionRequest [] [] 0 new_tracker) of
      (t1, evs1) \<Rightarrow> case clearIfConfirmedKind PermissionRequest 1500 t1 of (t2, evs2) \<Rightarrow> (t2, evs1 @ evs2))
    = (new_tracker, [])"
proof -
  have "drainDeferred 1000 (cancelDeferred PermissionRequest new_tracker) = (new_tracker, [])"
    by (simp add: drainDeferred_def cancelDeferred_def new_tracker_def jm_delete_def)
  then show ?thesis
    using settled_in_window_leaves_no_trace [where t = new_tracker and k = PermissionRequest
        and ms = 2000 and now = 1000 and raised = 0 and x = "[]" and al = "[]" and resolved = 1500]
    by (simp add: new_tracker_def INITIAL_ATTENTION_STATE_def)
qed

text \<open>
  A generic acknowledge is refused exactly while a blocking decision is confirmed, and then
  changes nothing and sends nothing; otherwise it leaves the machine idle, drops every settling
  signal and the finished latch, and tells the client that attention is over.
\<close>

theorem acknowledge_refuses_blocking_only:
  assumes "attention_wf (at_state t)"
  shows "case acknowledgeAttention now t of (accepted, t', evs) \<Rightarrow>
    (accepted \<longleftrightarrow> \<not> (\<exists>k \<in> ACK_BLOCKING_KINDS. confirmedKind (at_state t) = Some k))
    \<and> (\<not> accepted \<longrightarrow> t' = t \<and> evs = [])
    \<and> (accepted \<longrightarrow> at_state t' = INITIAL_ATTENTION_STATE \<and> deferred t' = [] \<and> lastTurnEndedAt t' = None
         \<and> \<not> turnEndPingSent t' \<and> evs \<noteq> [] \<and> last evs = (''attention'', [(''attention'', JBool False)]))"
proof -
  have "tr_next (advanceAttention (at_state t) (In_userInput now)) = INITIAL_ATTENTION_STATE"
    using assms by (cases "am_state (at_state t)")
      (auto simp: advanceAttention_def noop_def cancelPending_def clearAttention_transition_def
        attention_wf_def)
  then show ?thesis
    by (auto simp: acknowledgeAttention_def clearAttention_def applyAttentionTransition_def Let_def
        split: option.splits)
qed

theorem acknowledge_refuses_blocking_only_witness:
  "fst (acknowledgeAttention 9 new_tracker)"
  using acknowledge_refuses_blocking_only [of new_tracker 9]
  by (simp add: new_tracker_def) (auto simp: INITIAL_ATTENTION_STATE_def split: prod.splits)

end
