(* ===== verification/Scrollback.thy ===== *)
theory Scrollback
  imports Prelude
begin

section \<open>The scrollback ring buffer\<close>

text \<open>
  \<open>src/services/scrollback-buffer.ts\<close>: the bytes a session replays to a client that attaches.
  Small chunks are copied into a writable tail slab, large ones are stored as they are; whole
  slabs are evicted from the front above the cap, and the slab array is compacted now and then.
  The model keeps the fields of the class. An evicted slot is \<open>None\<close> (\<open>undefined\<close>); \<open>tailBuf\<close>
  holds the bytes written into the tail slab so far (the class never reads beyond \<open>tailLen\<close>).
  The abstraction is \<open>contents\<close>: the byte stream the slabs represent.
\<close>

subsection \<open>The class\<close>

definition SCROLLBACK_MAX_BYTES :: nat where "SCROLLBACK_MAX_BYTES = 1024 * 1024"
definition COALESCE_MAX_BYTES :: nat where "COALESCE_MAX_BYTES = 16 * 1024"
definition SLAB_BYTES :: nat where "SLAB_BYTES = 64 * 1024"
definition COMPACT_MIN_HEAD :: nat where "COMPACT_MIN_HEAD = 32"

record scrollback =
  slabs :: "byte list option list"
  head :: nat
  tailBuf :: "byte list option"
  tailLen :: nat
  totalBytes :: nat
  bytesEverPushed :: nat

definition new_scrollback :: scrollback where
  "new_scrollback = \<lparr>slabs = [], head = 0, tailBuf = None, tailLen = 0, totalBytes = 0,
     bytesEverPushed = 0\<rparr>"

definition commitTail :: "scrollback \<Rightarrow> scrollback" where
  "commitTail s =
     (case tailBuf s of
        Some b \<Rightarrow> if tailLen s > 0 then s\<lparr>slabs := slabs s @ [Some (take (tailLen s) b)]\<rparr> else s
      | None \<Rightarrow> s)\<lparr>tailBuf := None, tailLen := 0\<rparr>"

function evict_loop :: "scrollback \<Rightarrow> scrollback" where
  "evict_loop s =
     (if totalBytes s > SCROLLBACK_MAX_BYTES \<and> head s < length (slabs s) then
        if tailLen s = 0 \<and> head s = length (slabs s) - 1 then s
        else
          let dropped = slabs s ! head s in
          evict_loop (s\<lparr>slabs := (slabs s)[head s := None], head := head s + 1,
            totalBytes := (case dropped of Some d \<Rightarrow> totalBytes s - length d | None \<Rightarrow> totalBytes s)\<rparr>)
      else s)"
  by pat_completeness auto
termination
  by (relation "measure (\<lambda>s. length (slabs s) - head s)") auto

declare evict_loop.simps [simp del]

definition compact :: "scrollback \<Rightarrow> scrollback" where
  "compact s = (if head s \<ge> COMPACT_MIN_HEAD \<and> head s * 2 \<ge> length (slabs s)
     then s\<lparr>slabs := drop (head s) (slabs s), head := 0\<rparr> else s)"

definition evict :: "scrollback \<Rightarrow> scrollback" where
  "evict s = compact (evict_loop s)"

text \<open>Writing the chunk: large chunks become their own slab, small ones join the tail.\<close>

definition store_chunk :: "byte list \<Rightarrow> scrollback \<Rightarrow> scrollback" where
  "store_chunk chunk s =
     (let len = length chunk in
      if len \<ge> COALESCE_MAX_BYTES then
        let s1 = commitTail s in s1\<lparr>slabs := slabs s1 @ [Some chunk]\<rparr>
      else if len > 0 then
        let s1 = (if tailBuf s = None \<or> tailLen s + len > SLAB_BYTES
                  then (commitTail s)\<lparr>tailBuf := Some []\<rparr> else s)
        in s1\<lparr>tailBuf := Some (take (tailLen s1) (the (tailBuf s1)) @ chunk),
               tailLen := tailLen s1 + len\<rparr>
      else s)"

definition count_bytes :: "nat \<Rightarrow> scrollback \<Rightarrow> scrollback" where
  "count_bytes len s = s\<lparr>totalBytes := totalBytes s + len, bytesEverPushed := bytesEverPushed s + len\<rparr>"

definition push :: "byte list \<Rightarrow> scrollback \<Rightarrow> scrollback" where
  "push chunk s = evict (count_bytes (length chunk) (store_chunk chunk s))"

definition views :: "scrollback \<Rightarrow> byte list list" where
  "views s = map (\<lambda>slot. case slot of Some b \<Rightarrow> b | None \<Rightarrow> []) (drop (head s) (slabs s)) @
     (case tailBuf s of Some b \<Rightarrow> if tailLen s > 0 then [take (tailLen s) b] else [] | None \<Rightarrow> [])"

definition toBuffer :: "byte list \<Rightarrow> scrollback \<Rightarrow> byte list" where
  "toBuffer preamble s = concat (preamble # views s)"

text \<open>The backwards walk of \<open>tail\<close>: newest slab first, until \<open>maxBytes\<close> are covered.\<close>

fun collect :: "nat \<Rightarrow> byte list list \<Rightarrow> byte list list \<Rightarrow> nat \<Rightarrow> byte list list \<times> nat" where
  "collect maxBytes [] collected sofar = (collected, sofar)"
| "collect maxBytes (v # vs) collected sofar =
     (if sofar < maxBytes then collect maxBytes vs (collected @ [v]) (sofar + length v)
      else (collected, sofar))"

definition tail_bytes :: "nat \<Rightarrow> scrollback \<Rightarrow> byte list" where
  "tail_bytes maxBytes s =
     (case collect maxBytes (rev (views s)) [] 0 of (collected, sofar) \<Rightarrow>
        let result = concat (rev collected) in
        if sofar > maxBytes then drop (sofar - maxBytes) result else result)"

definition totalBufferedBytes :: "scrollback \<Rightarrow> nat" where
  "totalBufferedBytes s = totalBytes s"

definition totalBytesEverPushed :: "scrollback \<Rightarrow> nat" where
  "totalBytesEverPushed s = bytesEverPushed s"

subsection \<open>The abstraction and the invariant\<close>

definition contents :: "scrollback \<Rightarrow> byte list" where
  "contents s = concat (views s)"

definition live_slabs :: "scrollback \<Rightarrow> byte list list" where
  "live_slabs s = map the (drop (head s) (slabs s))"

definition tail_view :: "scrollback \<Rightarrow> byte list" where
  "tail_view s = (case tailBuf s of Some b \<Rightarrow> take (tailLen s) b | None \<Rightarrow> [])"

definition slot_ok :: "byte list option \<Rightarrow> bool" where
  "slot_ok slot \<longleftrightarrow> slot \<noteq> None \<and> slot \<noteq> Some []"

definition sb_shape :: "scrollback \<Rightarrow> bool" where
  "sb_shape s \<longleftrightarrow> head s \<le> length (slabs s) \<and> list_all slot_ok (drop (head s) (slabs s))
     \<and> tailLen s = length (tail_view s) \<and> tailLen s \<le> SLAB_BYTES"

definition sb_inv :: "scrollback \<Rightarrow> bool" where
  "sb_inv s \<longleftrightarrow> sb_shape s \<and> totalBytes s = length (contents s)"

lemma views_live:
  assumes "sb_shape s"
  shows "views s = live_slabs s @ (if tail_view s = [] then [] else [tail_view s])"
proof -
  have "map (\<lambda>slot. case slot of Some b \<Rightarrow> b | None \<Rightarrow> []) (drop (head s) (slabs s)) = live_slabs s"
    using assms unfolding live_slabs_def by (auto simp: sb_shape_def list_all_iff slot_ok_def)
  then show ?thesis
    using assms unfolding views_def tail_view_def sb_shape_def
    by (auto simp: tail_view_def split: option.splits)
qed

lemma contents_live: "sb_shape s \<Longrightarrow> contents s = concat (live_slabs s) @ tail_view s"
  unfolding contents_def by (simp add: views_live)

lemma commitTail_props:
  assumes "sb_shape s"
  shows "sb_shape (commitTail s)" and "contents (commitTail s) = contents s"
    and "tailBuf (commitTail s) = None" and "totalBytes (commitTail s) = totalBytes s"
    and "bytesEverPushed (commitTail s) = bytesEverPushed s"
proof -
  show "sb_shape (commitTail s)"
    using assms unfolding commitTail_def sb_shape_def slot_ok_def
    by (auto simp: tail_view_def split: option.splits)
  then show "contents (commitTail s) = contents s"
    using assms by (simp add: contents_live)
      (auto simp: commitTail_def live_slabs_def tail_view_def sb_shape_def split: option.splits)
qed (auto simp: commitTail_def split: option.splits)

lemma append_slab:
  assumes "sb_shape t" and "tailBuf t = None" and "c \<noteq> []"
  shows "sb_shape (t\<lparr>slabs := slabs t @ [Some c]\<rparr>)"
    and "contents (t\<lparr>slabs := slabs t @ [Some c]\<rparr>) = contents t @ c"
proof -
  show shape: "sb_shape (t\<lparr>slabs := slabs t @ [Some c]\<rparr>)"
    using assms by (auto simp: sb_shape_def slot_ok_def tail_view_def)
  then show "contents (t\<lparr>slabs := slabs t @ [Some c]\<rparr>) = contents t @ c"
    using assms by (simp add: contents_live) (auto simp: live_slabs_def tail_view_def sb_shape_def)
qed

lemma append_tail:
  fixes t b c
  defines "t' \<equiv> t\<lparr>tailBuf := Some (take (tailLen t) b @ c), tailLen := tailLen t + length c\<rparr>"
  assumes "sb_shape t" and "tailBuf t = Some b" and "tailLen t + length c \<le> SLAB_BYTES"
  shows "sb_shape t'" and "contents t' = contents t @ c"
proof -
  show shape: "sb_shape t'"
    using assms by (auto simp: sb_shape_def tail_view_def)
  then show "contents t' = contents t @ c"
    using assms by (simp add: contents_live) (auto simp: live_slabs_def tail_view_def sb_shape_def)
qed

lemma fresh_tail:
  fixes s
  defines "t \<equiv> (commitTail s)\<lparr>tailBuf := Some []\<rparr>"
  assumes "sb_shape s"
  shows "sb_shape t" and "contents t = contents s" and "tailLen t = 0"
proof -
  note commit = commitTail_props [OF assms(2)]
  show shape: "sb_shape t" and "tailLen t = 0"
    using commit(1,3) by (auto simp: t_def sb_shape_def tail_view_def)
  have "contents t = contents (commitTail s)"
    using shape commit(1,3) by (simp add: contents_live) (simp add: t_def live_slabs_def tail_view_def)
  with commit(2) show "contents t = contents s" by simp
qed

lemma store_chunk_props:
  assumes "sb_shape s"
  shows "sb_shape (store_chunk c s) \<and> contents (store_chunk c s) = contents s @ c
    \<and> totalBytes (store_chunk c s) = totalBytes s
    \<and> bytesEverPushed (store_chunk c s) = bytesEverPushed s"
proof -
  note commit = commitTail_props [OF assms]
  note facts = assms commit append_slab [of "commitTail s" c] append_tail [of s _ c]
    append_tail [of "(commitTail s)\<lparr>tailBuf := Some []\<rparr>" "[]" c] fresh_tail [OF assms]
  have "length c \<le> SLAB_BYTES" if "\<not> COALESCE_MAX_BYTES \<le> length c"
    using that by (simp add: COALESCE_MAX_BYTES_def SLAB_BYTES_def)
  then show ?thesis
    using facts by (auto simp: store_chunk_def Let_def COALESCE_MAX_BYTES_def)
qed

subsection \<open>Eviction\<close>

definition evict_one :: "scrollback \<Rightarrow> scrollback" where
  "evict_one s = s\<lparr>slabs := (slabs s)[head s := None], head := head s + 1,
     totalBytes := (case slabs s ! head s of Some d \<Rightarrow> totalBytes s - length d | None \<Rightarrow> totalBytes s)\<rparr>"

definition evictable :: "scrollback \<Rightarrow> bool" where
  "evictable s \<longleftrightarrow> totalBytes s > SCROLLBACK_MAX_BYTES \<and> head s < length (slabs s)
     \<and> \<not> (tailLen s = 0 \<and> head s = length (slabs s) - 1)"

lemma evict_loop_unfold: "evict_loop s = (if evictable s then evict_loop (evict_one s) else s)"
  by (subst evict_loop.simps) (auto simp: evictable_def evict_one_def Let_def)

text \<open>Dropping one slab removes its bytes, and nothing else, from the front of the stream.\<close>

lemma evict_one_props:
  assumes inv: "sb_inv s" and "head s < length (slabs s)"
  obtains d where "slabs s ! head s = Some d" and "d \<noteq> []" and "sb_inv (evict_one s)"
    and "contents s = d @ contents (evict_one s)"
    and "bytesEverPushed (evict_one s) = bytesEverPushed s"
proof -
  let ?t = "evict_one s"
  have split: "drop (head s) (slabs s) = slabs s ! head s # drop (Suc (head s)) (slabs s)"
    using assms(2) by (simp add: Cons_nth_drop_Suc)
  have shape: "sb_shape s" using inv by (simp add: sb_inv_def)
  then obtain d where d: "slabs s ! head s = Some d" "d \<noteq> []"
    unfolding sb_shape_def split by (auto simp: slot_ok_def)
  have shape_t: "sb_shape ?t"
    using shape assms(2) unfolding sb_shape_def split
    by (auto simp: evict_one_def tail_view_def split: option.splits)
  have stream: "contents s = d @ contents ?t"
    using shape shape_t d(1) split
    by (simp add: contents_live) (simp add: live_slabs_def evict_one_def tail_view_def split: option.split)
  have "totalBytes ?t = totalBytes s - length d" by (simp add: evict_one_def d(1))
  moreover have "totalBytes s = length d + length (contents ?t)"
    using inv arg_cong [OF stream, of length] by (simp add: sb_inv_def)
  ultimately have inv_t: "sb_inv ?t" using shape_t by (simp add: sb_inv_def)
  have "bytesEverPushed ?t = bytesEverPushed s" by (simp add: evict_one_def)
  with d inv_t stream show thesis by (rule that)
qed

lemma evict_loop_props:
  assumes "sb_inv s"
  shows "sb_inv (evict_loop s) \<and> \<not> evictable (evict_loop s)
    \<and> bytesEverPushed (evict_loop s) = bytesEverPushed s
    \<and> (\<exists>gone. contents s = gone @ contents (evict_loop s)
         \<and> (gone = [] \<or> (\<exists>d. Some d \<in> set (slabs s) \<and>
              SCROLLBACK_MAX_BYTES < length (contents (evict_loop s)) + length d)))"
  using assms
proof (induction s rule: evict_loop.induct)
  case (1 s)
  show ?case
  proof (cases "evictable s")
    case False
    with "1.prems" show ?thesis by (simp add: evict_loop_unfold [of s])
  next
    case True
    then have lt: "head s < length (slabs s)" by (simp add: evictable_def)
    obtain d where d: "slabs s ! head s = Some d" "sb_inv (evict_one s)"
        "contents s = d @ contents (evict_one s)" "bytesEverPushed (evict_one s) = bytesEverPushed s"
      using evict_one_props [OF "1.prems" lt] by blast
    let ?r = "evict_loop (evict_one s)"
    have IH: "sb_inv ?r \<and> \<not> evictable ?r \<and> bytesEverPushed ?r = bytesEverPushed (evict_one s)
      \<and> (\<exists>gone. contents (evict_one s) = gone @ contents ?r
         \<and> (gone = [] \<or> (\<exists>d. Some d \<in> set (slabs (evict_one s)) \<and>
              SCROLLBACK_MAX_BYTES < length (contents ?r) + length d)))"
      using "1.IH" [OF _ _ refl] True d(2) by (simp add: evictable_def evict_one_def)
    then obtain gone where gone: "contents (evict_one s) = gone @ contents ?r"
      "gone = [] \<or> (\<exists>d. Some d \<in> set (slabs (evict_one s)) \<and>
              SCROLLBACK_MAX_BYTES < length (contents ?r) + length d)" by blast
    have "\<exists>d. Some d \<in> set (slabs s) \<and> SCROLLBACK_MAX_BYTES < length (contents ?r) + length d"
    proof (cases "gone = []")
      case True
      have "SCROLLBACK_MAX_BYTES < length (contents s)"
        using \<open>evictable s\<close> "1.prems" by (simp add: evictable_def sb_inv_def)
      then show ?thesis
        using True gone(1) d(1,3) lt by (metis add.commute append_Nil length_append nth_mem)
    next
      case False
      then show ?thesis
        using gone(2) set_update_subset_insert [of "slabs s" "head s" None]
        by (auto simp: evict_one_def)
    qed
    then show ?thesis
      using True IH d(3,4) gone(1) by (simp add: evict_loop_unfold [of s])
  qed
qed

lemma compact_props:
  assumes "sb_inv s"
  shows "sb_inv (compact s) \<and> contents (compact s) = contents s
    \<and> bytesEverPushed (compact s) = bytesEverPushed s"
proof (cases "compact s = s")
  case False
  then have c: "compact s = s\<lparr>slabs := drop (head s) (slabs s), head := 0\<rparr>"
    by (auto simp: compact_def split: if_splits)
  have "sb_shape (compact s)"
    using assms unfolding c by (auto simp: sb_inv_def sb_shape_def tail_view_def split: option.splits)
  moreover have "contents (compact s) = contents s"
    unfolding c contents_def views_def by (simp split: option.split)
  ultimately show ?thesis using assms by (simp add: sb_inv_def) (simp add: c)
qed (use assms in simp)

subsection \<open>Pushing and reading\<close>

lemma stored_props:
  fixes c s
  defines "t \<equiv> count_bytes (length c) (store_chunk c s)"
  assumes "sb_inv s"
  shows "sb_inv t" and "contents t = contents s @ c"
    and "bytesEverPushed t = bytesEverPushed s + length c" and "slabs t = slabs (store_chunk c s)"
proof -
  have st: "sb_shape (store_chunk c s)" "contents (store_chunk c s) = contents s @ c"
    "totalBytes (store_chunk c s) = totalBytes s" "bytesEverPushed (store_chunk c s) = bytesEverPushed s"
    using store_chunk_props [of s c] assms(2) by (auto simp: sb_inv_def)
  have "sb_shape t" using st(1) by (simp add: t_def count_bytes_def sb_shape_def tail_view_def split: option.splits)
  moreover have "contents t = contents (store_chunk c s)"
    by (simp add: t_def count_bytes_def contents_def views_def split: option.split)
  ultimately show "sb_inv t" and "contents t = contents s @ c"
    using assms(2) st by (simp_all add: sb_inv_def) (simp add: t_def count_bytes_def)
qed (use store_chunk_props [of s c] assms in \<open>auto simp: sb_inv_def count_bytes_def\<close>)

lemma push_props:
  assumes "sb_inv s"
  shows "sb_inv (push c s) \<and> bytesEverPushed (push c s) = bytesEverPushed s + length c
    \<and> (\<exists>gone. contents s @ c = gone @ contents (push c s))"
  using stored_props [OF assms, of c] evict_loop_props [OF stored_props(1) [OF assms, of c]]
    compact_props [of "evict_loop (count_bytes (length c) (store_chunk c s))"]
  by (auto simp: push_def evict_def)

interpretation scrollback: step_machine "\<lambda>s c. push c s" "\<lambda>_. True" sb_inv
  by unfold_locales (simp add: push_props)

lemma sb_inv_new [simp]: "sb_inv new_scrollback"
  by (simp add: sb_inv_def sb_shape_def new_scrollback_def contents_def views_def tail_view_def)

lemma contents_new [simp]: "contents new_scrollback = []"
  by (simp add: new_scrollback_def contents_def views_def)

lemma pushes_keep_suffix:
  assumes "sb_inv s"
  shows "bytesEverPushed (foldl (\<lambda>s c. push c s) s cs) = bytesEverPushed s + length (concat cs)
    \<and> (\<exists>gone. contents s @ concat cs = gone @ contents (foldl (\<lambda>s c. push c s) s cs))"
  using assms
proof (induction cs arbitrary: s)
  case (Cons c cs)
  obtain g1 where g1: "contents s @ c = g1 @ contents (push c s)"
    using push_props [OF Cons.prems] by blast
  have inv: "sb_inv (push c s)" using push_props [OF Cons.prems] by blast
  obtain g2 where "contents (push c s) @ concat cs = g2 @ contents (foldl (\<lambda>s c. push c s) (push c s) cs)"
    using Cons.IH [OF inv] by blast
  with g1 have "contents s @ concat (c # cs) = (g1 @ g2) @ contents (foldl (\<lambda>s c. push c s) s (c # cs))"
    by (simp add: append_assoc [symmetric] del: append_assoc) (simp)
  then show ?case using Cons.IH [OF inv] push_props [OF Cons.prems] by (auto intro: exI)
qed simp

text \<open>The backwards walk collects a suffix of the slabs that covers the request.\<close>

lemma collect_props:
  assumes "collect n vs acc sofar = (r, tot)" and "sofar = length (concat acc)"
  shows "\<exists>rest. acc @ vs = r @ rest \<and> tot = length (concat r) \<and> (tot < n \<longrightarrow> rest = [])"
  using assms
proof (induction n vs acc sofar rule: collect.induct)
  case (1 n acc sofar)
  then show ?case by auto
next
  case (2 n v vs acc sofar)
  then show ?case by (cases "sofar < n") (simp, auto)
qed

lemma tail_bytes_eq: "tail_bytes n s = drop (length (contents s) - n) (contents s)"
proof -
  obtain r tot where c: "collect n (rev (views s)) [] 0 = (r, tot)" by force
  then obtain rest where k: "rev (views s) = r @ rest" "tot = length (concat r)"
    "tot < n \<longrightarrow> rest = []"
    using collect_props [OF c] by auto
  then have "views s = rev rest @ rev r" by (metis rev_append rev_rev_ident)
  then have pre: "contents s = concat (rev rest) @ concat (rev r)" by (simp add: contents_def)
  have len: "length (concat (rev r)) = tot"
    using k(2) by (simp add: length_concat rev_map [symmetric] sum_list_rev)
  show ?thesis
  proof (cases "tot < n")
    case True
    then have "contents s = concat (rev r)" using k(3) pre by simp
    with True c len show ?thesis by (simp add: tail_bytes_def)
  next
    case False
    with c len pre show ?thesis by (auto simp: tail_bytes_def Let_def)
  qed
qed

subsection \<open>How much is kept\<close>

text \<open>When the loop stops, the buffer is within its cap or a single oversized slab is left.\<close>

lemma not_evictable_bound:
  assumes "sb_inv s" and "\<not> evictable s"
  shows "length (contents s) \<le> SCROLLBACK_MAX_BYTES \<or> length (views s) = 1"
proof (rule disjCI)
  assume many: "length (views s) \<noteq> 1"
  have shape: "sb_shape s" using assms(1) by (simp add: sb_inv_def)
  show "length (contents s) \<le> SCROLLBACK_MAX_BYTES"
  proof (cases "head s = length (slabs s)")
    case True
    then have "contents s = tail_view s" by (simp add: contents_live [OF shape] live_slabs_def)
    with shape show ?thesis
      by (auto simp: sb_shape_def SLAB_BYTES_def SCROLLBACK_MAX_BYTES_def)
  next
    case False
    then have "head s < length (slabs s)" using shape by (simp add: sb_shape_def)
    moreover have "\<not> (tailLen s = 0 \<and> head s = length (slabs s) - 1)"
      using many calculation shape by (auto simp: views_live [OF shape] live_slabs_def sb_shape_def)
    ultimately show ?thesis using assms by (auto simp: evictable_def sb_inv_def)
  qed
qed

definition slab_bound :: "nat \<Rightarrow> scrollback \<Rightarrow> bool" where
  "slab_bound B s \<longleftrightarrow> (\<forall>d. Some d \<in> set (slabs s) \<longrightarrow> length d \<le> B)"

lemma slab_bound_store:
  assumes "slab_bound B s" and "sb_shape s" and "SLAB_BYTES \<le> B" and "length c \<le> B"
  shows "slab_bound B (store_chunk c s)"
proof -
  have "length (take (tailLen s) b) \<le> B" for b :: "byte list"
    using assms(2,3) by (auto simp: sb_shape_def)
  then show ?thesis
    using assms(1,4)
    by (auto simp: slab_bound_def store_chunk_def commitTail_def Let_def split: option.splits)
qed

lemma slab_bound_evict:
  assumes "slab_bound B s"
  shows "slab_bound B (evict s)"
proof -
  have "slab_bound B (evict_loop s)" using assms
  proof (induction s rule: evict_loop.induct)
    case (1 s)
    have "slab_bound B (evict_one s)"
      using "1.prems" set_update_subset_insert [of "slabs s" "head s" None]
      by (auto simp: slab_bound_def evict_one_def)
    then show ?case
      using "1.IH" [OF _ _ refl] "1.prems"
      by (subst evict_loop_unfold) (auto simp: evictable_def evict_one_def)
  qed
  then show ?thesis
    by (auto simp: evict_def compact_def slab_bound_def dest: in_set_dropD)
qed

text \<open>One push: the bytes lost are a prefix, and losing any means the buffer is nearly full.\<close>

lemma push_retains:
  assumes "sb_inv s" and "slab_bound B s" and "SLAB_BYTES \<le> B" and "length c \<le> B"
  shows "slab_bound B (push c s)
    \<and> (length (contents (push c s)) \<le> SCROLLBACK_MAX_BYTES \<or> length (views (push c s)) = 1)
    \<and> (\<exists>gone. contents s @ c = gone @ contents (push c s)
          \<and> (gone = [] \<or> SCROLLBACK_MAX_BYTES < length (contents (push c s)) + B))"
proof -
  let ?s2 = "count_bytes (length c) (store_chunk c s)"
  note inv2 = stored_props(1) [OF assms(1), of c] and c2 = stored_props(2) [OF assms(1), of c]
  have b2: "slab_bound B ?s2"
    using slab_bound_store [OF assms(2) _ assms(3,4)] assms(1) stored_props(4) [OF assms(1), of c]
    by (simp add: slab_bound_def sb_inv_def)
  let ?e = "evict_loop ?s2"
  have push: "push c s = compact ?e" by (simp add: push_def evict_def)
  note ev = evict_loop_props [OF inv2]
  from ev have inv_e: "sb_inv ?e" and stop: "\<not> evictable ?e" by simp_all
  have keep: "contents (push c s) = contents ?e" "views (push c s) = views ?e"
    using compact_props [OF inv_e] by (simp_all add: push) (simp add: compact_def views_def split: option.split)
  obtain gone where gone: "contents ?s2 = gone @ contents ?e"
    "gone = [] \<or> (\<exists>d. Some d \<in> set (slabs ?s2) \<and> SCROLLBACK_MAX_BYTES < length (contents ?e) + length d)"
    using ev by blast
  have near_full: "gone = [] \<or> SCROLLBACK_MAX_BYTES < length (contents ?e) + B"
  proof (cases "gone = []")
    case False
    with gone(2) obtain d where "Some d \<in> set (slabs ?s2)" "SCROLLBACK_MAX_BYTES < length (contents ?e) + length d"
      by blast
    with b2 show ?thesis unfolding slab_bound_def by fastforce
  qed simp
  have "length (contents ?e) \<le> SCROLLBACK_MAX_BYTES \<or> length (views ?e) = 1"
    by (rule not_evictable_bound [OF inv_e stop])
  with near_full gone(1) c2 keep slab_bound_evict [OF b2] show ?thesis
    by (auto simp: push_def)
qed

lemma pushes_retain:
  assumes "SLAB_BYTES \<le> B" and "list_all (\<lambda>c. length c \<le> B) cs"
    and "sb_inv s" and "slab_bound B s"
    and "length (contents s) \<le> SCROLLBACK_MAX_BYTES \<or> length (views s) = 1"
    and "stream = gone @ contents s" and "gone = [] \<or> SCROLLBACK_MAX_BYTES < length (contents s) + B"
  defines "r \<equiv> foldl (\<lambda>s c. push c s) s cs"
  shows "slab_bound B r \<and> (length (contents r) \<le> SCROLLBACK_MAX_BYTES \<or> length (views r) = 1)
    \<and> (\<exists>gone. stream @ concat cs = gone @ contents r
         \<and> (gone = [] \<or> SCROLLBACK_MAX_BYTES < length (contents r) + B))"
  using assms(2-7) unfolding r_def
proof (induction cs arbitrary: s stream gone)
  case (Cons c cs)
  have small: "length c \<le> B" and rest: "list_all (\<lambda>c. length c \<le> B) cs" using Cons.prems(1) by simp_all
  note p = push_retains [OF Cons.prems(2,3) assms(1) small]
  obtain g where g: "contents s @ c = g @ contents (push c s)"
    "g = [] \<or> SCROLLBACK_MAX_BYTES < length (contents (push c s)) + B" using p by blast
  have stream: "stream @ c = (gone @ g) @ contents (push c s)" using Cons.prems(5) g(1) by simp
  have full: "gone @ g = [] \<or> SCROLLBACK_MAX_BYTES < length (contents (push c s)) + B"
  proof (cases "g = []")
    case True
    then have "length (contents s) \<le> length (contents (push c s))"
      using arg_cong [OF g(1), of length] by simp
    with True Cons.prems(6) show ?thesis by auto
  qed (use g(2) in simp)
  show ?case
    using Cons.IH [OF rest _ _ _ stream full] push_props [OF Cons.prems(2)] p by simp
qed auto

lemma view_bound:
  assumes "sb_inv s" and "slab_bound B s" and "SLAB_BYTES \<le> B" and "length (views s) = 1"
  shows "length (contents s) \<le> B"
proof -
  have "length v \<le> B" if "v \<in> set (views s)" for v
  proof -
    have "length (tail_view s) \<le> B" using assms(1,3) by (auto simp: sb_inv_def sb_shape_def)
    moreover have "length v \<le> B" if "v \<in> set (live_slabs s)"
      using that assms(1,2) by (fastforce simp: live_slabs_def slab_bound_def sb_inv_def sb_shape_def list_all_iff slot_ok_def dest: in_set_dropD split: option.splits)
    ultimately show ?thesis using \<open>v \<in> set (views s)\<close> assms(1) by (auto simp: views_live sb_inv_def split: if_splits)
  qed
  then show ?thesis using assms(4) by (cases "views s") (auto simp: contents_def)
qed

subsection \<open>Properties\<close>

text \<open>
  C11: what a client is replayed is the given preamble followed by a suffix of everything the
  session ever wrote: no gap, no reordering, no corruption, whatever the chunk sizes. The byte
  counters are the length of that suffix and of the whole stream.
\<close>

theorem scrollback_replays_a_suffix:
  "let s = foldl (\<lambda>s c. push c s) new_scrollback cs in
   \<exists>gone kept. concat cs = gone @ kept \<and> toBuffer preamble s = preamble @ kept
     \<and> totalBufferedBytes s = length kept \<and> totalBytesEverPushed s = length (concat cs)"
proof -
  let ?s = "foldl (\<lambda>s c. push c s) new_scrollback cs"
  have "sb_inv ?s" by (rule scrollback.inv_run) (simp_all add: list_all_iff)
  then have "totalBytes ?s = length (contents ?s)" by (simp add: sb_inv_def)
  moreover have "toBuffer preamble ?s = preamble @ contents ?s" by (simp add: toBuffer_def contents_def)
  moreover have "bytesEverPushed new_scrollback = 0" by (simp add: new_scrollback_def)
  ultimately show ?thesis
    using pushes_keep_suffix [OF sb_inv_new, of cs]
    by (auto simp: totalBufferedBytes_def totalBytesEverPushed_def Let_def)
qed

text \<open>
  C12: After every push the buffer is within its cap of 1 MiB or holds exactly one slab; so with chunks of at
  most \<open>B\<close> bytes (\<open>B\<close> at least the size of a slab) it never holds more than the larger of the
  cap and \<open>B\<close>. And no more is dropped than needed: once anything was dropped, what is still replayed is
  longer than the cap less \<open>B\<close>.
\<close>

theorem scrollback_retention:
  assumes "SLAB_BYTES \<le> B" and "list_all (\<lambda>c. length c \<le> B) cs"
  shows "let s = foldl (\<lambda>s c. push c s) new_scrollback cs in
    (length (contents s) \<le> SCROLLBACK_MAX_BYTES \<or> length (views s) = 1)
    \<and> length (contents s) \<le> max SCROLLBACK_MAX_BYTES B
    \<and> (\<exists>gone. concat cs = gone @ contents s
         \<and> (gone = [] \<or> SCROLLBACK_MAX_BYTES < length (contents s) + B))"
proof -
  have "slab_bound B new_scrollback" by (simp add: slab_bound_def new_scrollback_def)
  note kept = pushes_retain [OF assms sb_inv_new this, of "[]" "[]"]
  have "sb_inv (foldl (\<lambda>s c. push c s) new_scrollback cs)" by (rule scrollback.inv_run) (simp_all add: list_all_iff)
  then show ?thesis using kept view_bound [OF _ _ assms(1)] unfolding Let_def by fastforce
qed

theorem scrollback_retention_witness:
  "let s = foldl (\<lambda>s c. push c s) new_scrollback [[27, 91], [65]] in
    \<exists>gone. concat [[27, 91], [65]] = gone @ contents s
         \<and> (gone = [] \<or> SCROLLBACK_MAX_BYTES < length (contents s) + SLAB_BYTES)"
proof -
  have "list_all (\<lambda>c. length c \<le> SLAB_BYTES) [[27, 91], [65 :: byte]]" by (simp add: SLAB_BYTES_def)
  from scrollback_retention [OF order_refl this] show ?thesis by (simp only: Let_def)
qed

text \<open>
  \<open>tail(n)\<close>, which walks the slabs backwards and trims the last one, returns exactly the
  newest \<open>n\<close> buffered bytes (all of them when fewer are buffered).
\<close>

theorem tail_reads_newest:
  "let s = foldl (\<lambda>s c. push c s) new_scrollback cs in
   (\<exists>gone. concat cs = gone @ tail_bytes n s)
   \<and> length (tail_bytes n s) = min n (totalBufferedBytes s)"
proof -
  let ?s = "foldl (\<lambda>s c. push c s) new_scrollback cs"
  have "sb_inv ?s" by (rule scrollback.inv_run) (simp_all add: list_all_iff)
  then have "totalBytes ?s = length (contents ?s)" by (simp add: sb_inv_def)
  moreover obtain gone where "concat cs = gone @ contents ?s"
    using pushes_keep_suffix [OF sb_inv_new, of cs] by auto
  then have "concat cs = (gone @ take (length (contents ?s) - n) (contents ?s)) @ tail_bytes n ?s"
    by (simp add: tail_bytes_eq)
  ultimately show ?thesis
    by (auto simp: Let_def totalBufferedBytes_def) (simp add: tail_bytes_eq)
qed

end
