(* ===== verification/SshAgentFilter.thy ===== *)
theory SshAgentFilter
  imports Prelude
begin

section \<open>The sign-only SSH agent filter\<close>

text \<open>
  \<open>src/services/ssh-agent-filter.ts\<close>: requests towards a user's SSH agent are reassembled from
  an arbitrary chunking of the byte stream and only the two harmless request types pass. The
  model keeps the reused backing store of \<open>SignOnlyFilter\<close> with its valid length; the memory
  \<open>Buffer.allocUnsafe\<close> hands out is the parameter \<open>alloc\<close>. The specification is \<open>frames_of\<close>, a
  plain decoder of the whole stream, and the interface locale \<open>incremental_decoder\<close> says what
  makes such a decoder independent of the chunk boundaries.
\<close>

subsection \<open>The policy\<close>

definition LENGTH_PREFIX_BYTES :: nat where "LENGTH_PREFIX_BYTES = 4"
definition MAX_FRAME_BYTES :: nat where "MAX_FRAME_BYTES = 256 * 1024"

record vector =
  v_type :: int
  v_name :: string
  v_allowed :: bool

definition vec :: "int \<Rightarrow> string \<Rightarrow> bool \<Rightarrow> vector" where
  "vec t n a = \<lparr>v_type = t, v_name = n, v_allowed = a\<rparr>"

definition SSH_AGENT_REQUEST_TYPE_VECTORS :: "vector list" where
  "SSH_AGENT_REQUEST_TYPE_VECTORS =
    [vec 1 ''SSH_AGENTC_REQUEST_RSA_IDENTITIES'' False,
     vec 7 ''SSH_AGENTC_ADD_RSA_IDENTITY'' False,
     vec 8 ''SSH_AGENTC_REMOVE_RSA_IDENTITY'' False,
     vec 9 ''SSH_AGENTC_REMOVE_ALL_RSA_IDENTITIES'' False,
     vec 11 ''SSH_AGENTC_REQUEST_IDENTITIES'' True,
     vec 13 ''SSH_AGENTC_SIGN_REQUEST'' True,
     vec 17 ''SSH_AGENTC_ADD_IDENTITY'' False,
     vec 18 ''SSH_AGENTC_REMOVE_IDENTITY'' False,
     vec 19 ''SSH_AGENTC_REMOVE_ALL_IDENTITIES'' False,
     vec 20 ''SSH_AGENTC_ADD_SMARTCARD_KEY'' False,
     vec 21 ''SSH_AGENTC_REMOVE_SMARTCARD_KEY'' False,
     vec 22 ''SSH_AGENTC_LOCK'' False,
     vec 23 ''SSH_AGENTC_UNLOCK'' False,
     vec 24 ''SSH_AGENTC_ADD_RSA_ID_CONSTRAINED'' False,
     vec 25 ''SSH_AGENTC_ADD_ID_CONSTRAINED'' False,
     vec 26 ''SSH_AGENTC_ADD_SMARTCARD_KEY_CONSTRAINED'' False,
     vec 27 ''SSH_AGENTC_EXTENSION'' False]"

definition SIGN_ONLY_ALLOWLIST :: "int set" where
  "SIGN_ONLY_ALLOWLIST = set (map v_type (filter v_allowed SSH_AGENT_REQUEST_TYPE_VECTORS))"

definition classify :: "int \<Rightarrow> bool" where
  "classify t \<longleftrightarrow> t \<in> SIGN_ONLY_ALLOWLIST"

definition SSH_AGENT_FAILURE_FRAME :: "byte list" where
  "SSH_AGENT_FAILURE_FRAME = [0, 0, 0, 1, 5]"

lemma classify_iff: "classify t \<longleftrightarrow> t = 11 \<or> t = 13"
  by (auto simp: classify_def SIGN_ONLY_ALLOWLIST_def SSH_AGENT_REQUEST_TYPE_VECTORS_def vec_def)

subsection \<open>The filter object\<close>

record filter_result =
  fr_forward :: "byte list list"
  fr_reject :: "byte list list"
  fr_rejectedLengths :: "nat list"

text \<open>What \<open>feed\<close> throws: the frame is too large, or a read past the end of the buffer.\<close>

datatype feed_error = SshAgentFrameTooLargeError nat filter_result | FeedRangeError

record sign_only_filter =
  sf_buffer :: "byte list"
  sf_length :: nat

definition new_filter :: sign_only_filter where
  "new_filter = \<lparr>sf_buffer = [], sf_length = 0\<rparr>"

definition filter_append :: "(nat \<Rightarrow> byte list) \<Rightarrow> byte list \<Rightarrow> sign_only_filter \<Rightarrow> sign_only_filter" where
  "filter_append alloc chunk f =
     (let needed = sf_length f + length chunk;
          buf = (if needed > length (sf_buffer f)
                 then let grown = alloc (max needed (max (length (sf_buffer f) * 2) 64))
                      in take (sf_length f) (sf_buffer f) @ drop (sf_length f) grown
                 else sf_buffer f)
      in f\<lparr>sf_buffer := take (sf_length f) buf @ chunk @ drop (sf_length f + length chunk) buf,
           sf_length := sf_length f + length chunk\<rparr>)"

definition consume :: "nat \<Rightarrow> sign_only_filter \<Rightarrow> sign_only_filter" where
  "consume frameLength f =
     (let left = sf_length f - frameLength in
      f\<lparr>sf_buffer := take left (drop frameLength (sf_buffer f)) @ drop left (sf_buffer f),
         sf_length := left\<rparr>)"

definition frame_type :: "nat \<Rightarrow> byte list \<Rightarrow> int" where
  "frame_type bodyLength frame = (if bodyLength \<ge> 1 then int (unat (frame ! LENGTH_PREFIX_BYTES)) else -1)"

text \<open>Sorting one complete frame into the result.\<close>

definition sort_frame :: "nat \<Rightarrow> byte list \<Rightarrow> filter_result \<Rightarrow> filter_result" where
  "sort_frame bodyLength frame r =
     (if classify (frame_type bodyLength frame)
      then r\<lparr>fr_forward := fr_forward r @ [frame]\<rparr>
      else r\<lparr>fr_reject := fr_reject r @ [SSH_AGENT_FAILURE_FRAME],
              fr_rejectedLengths := fr_rejectedLengths r @ [LENGTH_PREFIX_BYTES + bodyLength]\<rparr>)"

function feed_loop :: "sign_only_filter \<Rightarrow> filter_result \<Rightarrow> (feed_error + filter_result) \<times> sign_only_filter" where
  "feed_loop f r =
     (if sf_length f < LENGTH_PREFIX_BYTES then (Inr r, f)
      else case read_u32be (sf_buffer f) of
        None \<Rightarrow> (Inl FeedRangeError, f)
      | Some bodyLength \<Rightarrow>
          if bodyLength > MAX_FRAME_BYTES then (Inl (SshAgentFrameTooLargeError bodyLength r), f)
          else
            let frameLength = LENGTH_PREFIX_BYTES + bodyLength in
            if sf_length f < frameLength then (Inr r, f)
            else feed_loop (consume frameLength f)
                   (sort_frame bodyLength (take frameLength (sf_buffer f)) r))"
  by pat_completeness auto
termination
  by (relation "measure (\<lambda>(f, r). sf_length f)")
    (auto simp: consume_def LENGTH_PREFIX_BYTES_def Let_def)

declare feed_loop.simps [simp del]

definition feed :: "(nat \<Rightarrow> byte list) \<Rightarrow> byte list \<Rightarrow> sign_only_filter \<Rightarrow>
    (feed_error + filter_result) \<times> sign_only_filter" where
  "feed alloc chunk f =
     feed_loop (filter_append alloc chunk f) \<lparr>fr_forward = [], fr_reject = [], fr_rejectedLengths = []\<rparr>"

subsection \<open>Specification: decoding the whole stream\<close>

text \<open>The complete frames at the front of a stream, the rest, and whether decoding must stop.\<close>

function frames_of :: "byte list \<Rightarrow> byte list list \<times> byte list \<times> nat option" where
  "frames_of bs =
     (case read_u32be bs of
        None \<Rightarrow> ([], bs, None)
      | Some n \<Rightarrow>
          if n > MAX_FRAME_BYTES then ([], bs, Some n)
          else if length bs < LENGTH_PREFIX_BYTES + n then ([], bs, None)
          else case frames_of (drop (LENGTH_PREFIX_BYTES + n) bs) of (fs, rest, err) \<Rightarrow>
            (take (LENGTH_PREFIX_BYTES + n) bs # fs, rest, err))"
  by pat_completeness auto
termination
  by (relation "measure length") (auto simp: LENGTH_PREFIX_BYTES_def)

declare frames_of.simps [simp del]

locale incremental_decoder =
  fixes decode :: "'a list \<Rightarrow> 'f list \<times> 'a list \<times> 'e option"
  assumes decode_append: "decode xs = (fs, rest, None) \<Longrightarrow>
      decode (xs @ ys) = (case decode (rest @ ys) of (gs, rest', err) \<Rightarrow> (fs @ gs, rest', err))"
    and decode_rest: "decode xs = (fs, rest, None) \<Longrightarrow> decode rest = ([], rest, None)"
    and decode_error: "decode xs = (fs, rest, Some e) \<Longrightarrow> decode (xs @ ys) = (fs, rest @ ys, Some e)"
begin

text \<open>Decoding chunk by chunk, keeping the undecoded rest, stops at the first error.\<close>

fun decode_chunks :: "'a list \<Rightarrow> 'a list list \<Rightarrow> 'f list \<times> 'a list \<times> 'e option" where
  "decode_chunks rest [] = ([], rest, None)"
| "decode_chunks rest (c # cs) =
     (case decode (rest @ c) of
        (fs, rest', Some e) \<Rightarrow> (fs, rest', Some e)
      | (fs, rest', None) \<Rightarrow>
          (case decode_chunks rest' cs of (gs, rest'', err) \<Rightarrow> (fs @ gs, rest'', err)))"

lemma decode_chunks_concat:
  assumes "decode_chunks rest cs = (fs, rest', err)" and "decode rest = ([], rest, None)"
  shows "\<exists>unread. decode (rest @ concat cs) = (fs, rest' @ unread, err) \<and> (err = None \<longrightarrow> unread = [])"
  using assms
proof (induction cs arbitrary: rest fs)
  case (Cons c cs)
  obtain fs1 r1 e1 where d: "decode (rest @ c) = (fs1, r1, e1)" by (metis prod_cases3)
  show ?case
  proof (cases e1)
    case (Some e)
    with d Cons.prems(1) decode_error [of "rest @ c" fs1 r1 e "concat cs"] show ?thesis by auto
  next
    case None
    obtain gs where k: "decode_chunks r1 cs = (gs, rest', err)" "fs = fs1 @ gs"
      using None d Cons.prems(1) by (auto split: prod.splits)
    with Cons.IH decode_rest d None obtain unread where
      "decode (r1 @ concat cs) = (gs, rest' @ unread, err)" "err = None \<longrightarrow> unread = []" by blast
    then show ?thesis
      using decode_append [OF d [unfolded None], of "concat cs"] k(2) by auto
  qed
qed simp

text \<open>What is decoded, and where decoding stops, depends on the bytes only.\<close>

lemma chunking_irrelevant:
  assumes "decode_chunks [] cs = (fs, rest, err)" and "decode_chunks [] ds = (gs, rest', err')"
    and "concat cs = concat ds" and "decode [] = ([], [], None)"
  shows "fs = gs \<and> err = err'"
  using decode_chunks_concat [OF assms(1)] decode_chunks_concat [OF assms(2)] assms(3,4) by auto

end

lemma frames_of_append:
  "frames_of xs = (fs, rest, None) \<Longrightarrow>
    frames_of (xs @ ys) = (case frames_of (rest @ ys) of (gs, rest', err) \<Rightarrow> (fs @ gs, rest', err))"
proof (induction xs arbitrary: fs rule: frames_of.induct)
  case (1 xs)
  show ?case
  proof (cases "read_u32be xs")
    case None
    with "1.prems" show ?thesis by (simp add: frames_of.simps [of xs] split: prod.splits)
  next
    case (Some n)
    then have len: "4 \<le> length xs" and n: "read_u32be (xs @ ys) = Some n"
      using read_u32be_None [of xs] read_u32be_append [of xs ys] by auto
    show ?thesis
    proof (cases "n > MAX_FRAME_BYTES \<or> length xs < LENGTH_PREFIX_BYTES + n")
      case True
      with Some "1.prems" show ?thesis
        by (auto simp: frames_of.simps [of xs] split: prod.splits if_splits)
    next
      case False
      let ?m = "LENGTH_PREFIX_BYTES + n"
      obtain fs' rest' err' where r: "frames_of (drop ?m xs) = (fs', rest', err')" by (metis prod_cases3)
      with Some False "1.prems" have eq: "fs = take ?m xs # fs'" "rest' = rest" "err' = None"
        by (auto simp: frames_of.simps [of xs])
      note IH = "1.IH" [OF Some _ _ r [unfolded eq(2,3)]]
      have "frames_of (xs @ ys) = (case frames_of (drop ?m xs @ ys) of (gs, r, e) \<Rightarrow> (take ?m xs # gs, r, e))"
        using n False by (simp add: frames_of.simps [of "xs @ ys"])
      then show ?thesis using IH False eq(1) by (auto split: prod.splits)
    qed
  qed
qed

definition frame_ok :: "byte list \<Rightarrow> bool" where
  "frame_ok frame \<longleftrightarrow> (\<exists>n. read_u32be frame = Some n \<and> n \<le> MAX_FRAME_BYTES
     \<and> length frame = LENGTH_PREFIX_BYTES + n)"

lemma frames_of_bytes:
  "frames_of xs = (fs, rest, err) \<Longrightarrow> xs = concat fs @ rest \<and> list_all frame_ok fs"
proof (induction xs arbitrary: fs rule: frames_of.induct)
  case (1 xs)
  show ?case
  proof (cases "fs = []")
    case True
    with "1.prems" show ?thesis
      by (auto simp: frames_of.simps [of xs] split: option.splits if_splits prod.splits)
  next
    case False
    with "1.prems" obtain n fs' where n: "read_u32be xs = Some n" "\<not> n > MAX_FRAME_BYTES"
      "\<not> length xs < LENGTH_PREFIX_BYTES + n"
      and fs: "frames_of (drop (LENGTH_PREFIX_BYTES + n) xs) = (fs', rest, err)"
        "fs = take (LENGTH_PREFIX_BYTES + n) xs # fs'"
      by (auto simp: frames_of.simps [of xs] split: option.splits if_splits prod.splits)
    let ?t = "take (LENGTH_PREFIX_BYTES + n) xs"
    have "read_u32be ?t = Some n"
      using n read_u32be_append [of ?t "drop (LENGTH_PREFIX_BYTES + n) xs"]
      by (simp add: LENGTH_PREFIX_BYTES_def)
    then have "frame_ok ?t" using n by (auto simp: frame_ok_def)
    moreover have "drop (LENGTH_PREFIX_BYTES + n) xs = concat fs' @ rest \<and> list_all frame_ok fs'"
      using "1.IH" n fs(1) by blast
    ultimately show ?thesis using fs(2) by simp (metis append_take_drop_id)
  qed
qed

lemma frame_ok_nonempty: "frame_ok f \<Longrightarrow> f \<noteq> []"
  by (auto simp: frame_ok_def)

lemma frames_of_rest: "frames_of xs = (fs, rest, None) \<Longrightarrow> frames_of rest = ([], rest, None)"
proof (induction xs arbitrary: fs rule: frames_of.induct)
  case (1 xs)
  show ?case
  proof (cases "rest = xs")
    case False
    with "1.prems" obtain n fs' where "read_u32be xs = Some n" "\<not> n > MAX_FRAME_BYTES"
      "\<not> length xs < LENGTH_PREFIX_BYTES + n" "frames_of (drop (LENGTH_PREFIX_BYTES + n) xs) = (fs', rest, None)"
      by (auto simp: frames_of.simps [of xs] split: option.splits if_splits prod.splits)
    then show ?thesis using "1.IH" by blast
  next
    case True
    then have "concat fs = []" and ok: "list_all frame_ok fs"
      using frames_of_bytes [OF "1.prems"] by auto
    then have "fs = []" by (cases fs) (auto dest: frame_ok_nonempty)
    with "1.prems" True show ?thesis by simp
  qed
qed

lemma frames_of_error:
  "frames_of xs = (fs, rest, Some e) \<Longrightarrow> frames_of (xs @ ys) = (fs, rest @ ys, Some e)"
proof (induction xs arbitrary: fs rule: frames_of.induct)
  case (1 xs)
  then obtain n where n: "read_u32be xs = Some n"
    by (cases "read_u32be xs") (auto simp: frames_of.simps [of xs])
  then have n': "read_u32be (xs @ ys) = Some n"
    using read_u32be_None [of xs] read_u32be_append [of xs ys] by auto
  show ?case
  proof (cases "n > MAX_FRAME_BYTES")
    case True
    then have "frames_of xs = ([], xs, Some n)" "frames_of (xs @ ys) = ([], xs @ ys, Some n)"
      using n n' by (simp_all add: frames_of.simps [of xs] frames_of.simps [of "xs @ ys"])
    with "1.prems" show ?thesis by auto
  next
    case False
    let ?m = "LENGTH_PREFIX_BYTES + n"
    have len: "\<not> length xs < ?m" using n False "1.prems" by (auto simp: frames_of.simps [of xs])
    then obtain fs' where r: "frames_of (drop ?m xs) = (fs', rest, Some e)" "fs = take ?m xs # fs'"
      using n False "1.prems" by (auto simp: frames_of.simps [of xs] split: prod.splits)
    with "1.IH" [OF n False len r(1)] n' False len show ?thesis by (simp add: frames_of.simps [of "xs @ ys"])
  qed
qed

interpretation ssh_frames: incremental_decoder frames_of
  by unfold_locales (fact frames_of_append, fact frames_of_rest, fact frames_of_error)

lemma frames_of_Nil: "frames_of [] = ([], [], None)"
  by (simp add: frames_of.simps [of "[]"])

subsection \<open>The filter implements the specification\<close>

definition live :: "sign_only_filter \<Rightarrow> byte list" where
  "live f = take (sf_length f) (sf_buffer f)"

definition filter_wf :: "sign_only_filter \<Rightarrow> bool" where
  "filter_wf f \<longleftrightarrow> sf_length f \<le> length (sf_buffer f)"

definition sort_frames :: "byte list list \<Rightarrow> filter_result \<Rightarrow> filter_result" where
  "sort_frames fs r = foldl (\<lambda>r f. sort_frame (length f - LENGTH_PREFIX_BYTES) f r) r fs"

lemma length_live: "filter_wf f \<Longrightarrow> length (live f) = sf_length f"
  by (simp add: live_def filter_wf_def)

lemma append_props:
  assumes "filter_wf f" and "\<And>n. length (alloc n) = n"
  shows "filter_wf (filter_append alloc chunk f)" and "live (filter_append alloc chunk f) = live f @ chunk"
  using assms by (auto simp: filter_append_def live_def filter_wf_def Let_def)

lemma consume_props:
  assumes "filter_wf f" and "n \<le> sf_length f"
  shows "filter_wf (consume n f)" and "live (consume n f) = drop n (live f)"
  using assms by (auto simp: consume_def live_def filter_wf_def Let_def drop_take)

lemma read_live: "filter_wf f \<Longrightarrow> LENGTH_PREFIX_BYTES \<le> sf_length f \<Longrightarrow> read_u32be (sf_buffer f) = read_u32be (live f)"
  using read_u32be_append [of "live f" "drop (sf_length f) (sf_buffer f)"]
  by (simp add: length_live LENGTH_PREFIX_BYTES_def) (simp add: live_def)

definition outcome :: "filter_result \<Rightarrow> nat option \<Rightarrow> feed_error + filter_result" where
  "outcome r err = (case err of None \<Rightarrow> Inr r | Some n \<Rightarrow> Inl (SshAgentFrameTooLargeError n r))"

lemma feed_loop_refines:
  assumes "filter_wf f" and "frames_of (live f) = (fs, rest, err)"
  shows "fst (feed_loop f r) = outcome (sort_frames fs r) err
    \<and> filter_wf (snd (feed_loop f r)) \<and> live (snd (feed_loop f r)) = rest"
  using assms
proof (induction f r arbitrary: fs rule: feed_loop.induct)
  case (1 f r)
  note len = length_live [OF "1.prems"(1)]
  show ?case
  proof (cases "read_u32be (live f)")
    case None
    then have "sf_length f < LENGTH_PREFIX_BYTES"
      using read_u32be_None [of "live f"] len by (simp add: LENGTH_PREFIX_BYTES_def)
    with None "1.prems" show ?thesis
      by (simp add: feed_loop.simps [of f] frames_of.simps [of "live f"] outcome_def sort_frames_def)
  next
    case (Some n)
    then have ge: "LENGTH_PREFIX_BYTES \<le> sf_length f" "\<not> sf_length f < LENGTH_PREFIX_BYTES"
      using read_u32be_None [of "live f"] len by (auto simp: LENGTH_PREFIX_BYTES_def not_less)
    have rd: "read_u32be (sf_buffer f) = Some n" using Some read_live [OF "1.prems"(1) ge(1)] by simp
    show ?thesis
    proof (cases "n > MAX_FRAME_BYTES \<or> sf_length f < LENGTH_PREFIX_BYTES + n")
      case True
      then have "frames_of (live f) = ([], live f, if n > MAX_FRAME_BYTES then Some n else None)"
        using len by (auto simp: frames_of.simps [of "live f"] Some)
      moreover have "feed_loop f r = (outcome r (if n > MAX_FRAME_BYTES then Some n else None), f)"
        using True ge(2) by (auto simp: feed_loop.simps [of f r] rd outcome_def Let_def)
      ultimately show ?thesis using "1.prems" by (simp add: sort_frames_def)
    next
      case False
      let ?m = "LENGTH_PREFIX_BYTES + n"
      have frame: "take ?m (sf_buffer f) = take ?m (live f)" using False by (simp add: live_def min_def)
      obtain fs' where fs': "frames_of (drop ?m (live f)) = (fs', rest, err)" "fs = take ?m (live f) # fs'"
        using Some False len "1.prems"(2)
        by (auto simp: frames_of.simps [of "live f"] split: prod.splits)
      have c: "filter_wf (consume ?m f)" "live (consume ?m f) = drop ?m (live f)"
        using consume_props [OF "1.prems"(1), of ?m] False by simp_all
      have "sort_frame n (take ?m (live f)) r = sort_frame (length (take ?m (live f)) - LENGTH_PREFIX_BYTES) (take ?m (live f)) r"
        using False len by simp
      then show ?thesis
        using "1.IH" [OF ge(2) rd _ refl _ c(1)] c(2) fs' False ge rd frame
        by (simp add: feed_loop.simps [of f r] Let_def sort_frames_def)
    qed
  qed
qed

lemma feed_refines:
  assumes "filter_wf f" and "\<And>n. length (alloc n) = n" and "frames_of (live f @ chunk) = (fs, rest, err)"
  shows "fst (feed alloc chunk f)
      = outcome (sort_frames fs \<lparr>fr_forward = [], fr_reject = [], fr_rejectedLengths = []\<rparr>) err
    \<and> filter_wf (snd (feed alloc chunk f)) \<and> live (snd (feed alloc chunk f)) = rest"
  unfolding feed_def using assms append_props [OF assms(1,2)] by (intro feed_loop_refines) simp_all

subsection \<open>A connection's worth of chunks\<close>

definition no_result :: filter_result where
  "no_result = \<lparr>fr_forward = [], fr_reject = [], fr_rejectedLengths = []\<rparr>"

definition result_append :: "filter_result \<Rightarrow> filter_result \<Rightarrow> filter_result" where
  "result_append a b = \<lparr>fr_forward = fr_forward a @ fr_forward b, fr_reject = fr_reject a @ fr_reject b,
     fr_rejectedLengths = fr_rejectedLengths a @ fr_rejectedLengths b\<rparr>"

text \<open>
  All the calls of one connection, one per chunk, in order: the results are appended, and the
  connection is over at the first throw (whose partial result still counts).
\<close>

fun feed_all :: "(nat \<Rightarrow> byte list) \<Rightarrow> byte list list \<Rightarrow> filter_result \<Rightarrow> sign_only_filter \<Rightarrow>
    (feed_error + filter_result) \<times> sign_only_filter" where
  "feed_all alloc [] acc f = (Inr acc, f)"
| "feed_all alloc (c # cs) acc f =
     (case feed alloc c f of
        (Inr r, f') \<Rightarrow> feed_all alloc cs (result_append acc r) f'
      | (Inl (SshAgentFrameTooLargeError n r), f') \<Rightarrow>
          (Inl (SshAgentFrameTooLargeError n (result_append acc r)), f')
      | (Inl FeedRangeError, f') \<Rightarrow> (Inl FeedRangeError, f'))"

lemma result_append_no_result [simp]: "result_append r no_result = r" "result_append no_result r = r"
  by (simp_all add: result_append_def no_result_def)

lemma result_append_assoc: "result_append (result_append a b) c = result_append a (result_append b c)"
  by (simp add: result_append_def)

lemma sort_frame_append: "sort_frame n f r = result_append r (sort_frame n f no_result)"
  by (simp add: sort_frame_def result_append_def no_result_def)

lemma sort_frames_append: "sort_frames fs r = result_append r (sort_frames fs no_result)"
proof (induction fs arbitrary: r)
  case (Cons f fs)
  let ?n = "length f - LENGTH_PREFIX_BYTES"
  have step: "sort_frames (f # fs) r = sort_frames fs (sort_frame ?n f r)" for r by (simp add: sort_frames_def)
  show ?case
    using Cons.IH [of "sort_frame ?n f r"] Cons.IH [of "sort_frame ?n f no_result"]
      sort_frame_append [of ?n f r] by (simp add: step result_append_assoc)
qed (simp add: sort_frames_def)

lemma sort_frames_concat: "sort_frames (fs @ gs) no_result = result_append (sort_frames fs no_result) (sort_frames gs no_result)"
  using sort_frames_append [of gs "sort_frames fs no_result"] by (simp add: sort_frames_def)

lemma feed_all_chunks:
  assumes "filter_wf f" and "\<And>n. length (alloc n) = n" and "ssh_frames.decode_chunks (live f) cs = (fs, rest, err)"
  shows "fst (feed_all alloc cs acc f) = outcome (result_append acc (sort_frames fs no_result)) err
    \<and> live (snd (feed_all alloc cs acc f)) = rest"
  using assms
proof (induction cs arbitrary: f fs acc)
  case Nil
  then show ?case by (simp add: outcome_def sort_frames_def)
next
  case (Cons c cs)
  obtain fs1 r1 e1 where d: "frames_of (live f @ c) = (fs1, r1, e1)" by (metis prod_cases3)
  note fr = feed_refines [OF Cons.prems(1,2) d, folded no_result_def]
  obtain o1 f1 where o1: "feed alloc c f = (o1, f1)" by fastforce
  show ?case
  proof (cases e1)
    case (Some e)
    with d fr o1 Cons.prems(3) show ?thesis by (auto simp: outcome_def)
  next
    case None
    then obtain gs where k: "ssh_frames.decode_chunks r1 cs = (gs, rest, err)" "fs = fs1 @ gs"
      using d Cons.prems(3) by (auto split: prod.splits)
    with Cons.IH [of f1 gs "result_append acc (sort_frames fs1 no_result)"] fr o1 None Cons.prems(2)
    show ?thesis by (simp add: outcome_def sort_frames_concat result_append_assoc)
  qed
qed

lemma feed_all_wf:
  "filter_wf f \<Longrightarrow> (\<And>n. length (alloc n) = n) \<Longrightarrow> feed_all alloc cs acc f = (x, f') \<Longrightarrow> filter_wf f'"
proof (induction cs arbitrary: f acc)
  case (Cons c cs)
  obtain o1 f1 where o1: "feed alloc c f = (o1, f1)" by fastforce
  have "filter_wf f1" using feed_refines [OF Cons.prems(1,2), of c] o1 by (metis prod_cases3 snd_conv)
  with Cons o1 show ?case by (auto split: sum.splits feed_error.splits)
qed simp

lemma live_new: "filter_wf new_filter" "live new_filter = []"
  by (simp_all add: filter_wf_def live_def new_filter_def)

lemma feed_all_new:
  assumes "\<And>n. length (alloc n) = n" and "frames_of (concat cs) = (fs, rest, err)"
  shows "fst (feed_all alloc cs no_result new_filter) = outcome (sort_frames fs no_result) err"
    and "err = None \<Longrightarrow> live (snd (feed_all alloc cs no_result new_filter)) = rest"
proof -
  obtain gs r e where d: "ssh_frames.decode_chunks [] cs = (gs, r, e)" by (metis prod_cases3)
  from ssh_frames.decode_chunks_concat [OF d frames_of_Nil] assms(2)
  have "gs = fs" "e = err" "err = None \<longrightarrow> r = rest" by auto
  moreover have "fst (feed_all alloc cs no_result new_filter) = outcome (sort_frames gs no_result) e
      \<and> live (snd (feed_all alloc cs no_result new_filter)) = r"
    using feed_all_chunks [of new_filter alloc cs gs r e no_result] assms(1) d by (simp add: live_new)
  ultimately show "fst (feed_all alloc cs no_result new_filter) = outcome (sort_frames fs no_result) err"
    "err = None \<Longrightarrow> live (snd (feed_all alloc cs no_result new_filter)) = rest" by auto
qed

subsection \<open>Properties\<close>

text \<open>
  What the filter promises about a byte stream, without reference to its code. A frame is a length and as many bytes;
  a harmless one is a list-identities (11) or sign (13) request. The stream is cut into frames from its
  start on, until what is left is incomplete or announces more than 256 KiB. The harmless frames are forwarded as they
  came; each other one is answered by a failure frame, and its length reported.
\<close>

definition agent_frame :: "byte list \<Rightarrow> bool" where
  "agent_frame frame \<longleftrightarrow> (\<exists>n. read_u32be frame = Some n \<and> n \<le> 262144 \<and> length frame = 4 + n)"

definition harmless :: "byte list \<Rightarrow> bool" where
  "harmless frame \<longleftrightarrow> length frame > 4 \<and> (frame ! 4 = 11 \<or> frame ! 4 = 13)"

definition overlong :: "byte list \<Rightarrow> bool" where
  "overlong rest \<longleftrightarrow> (case read_u32be rest of None \<Rightarrow> False | Some n \<Rightarrow> n > 262144)"

definition incomplete :: "byte list \<Rightarrow> bool" where
  "incomplete rest \<longleftrightarrow> (case read_u32be rest of None \<Rightarrow> True | Some n \<Rightarrow> n \<le> 262144 \<and> length rest < 4 + n)"

definition filters_frames :: "byte list list \<Rightarrow> filter_result \<Rightarrow> bool" where
  "filters_frames fs r \<longleftrightarrow> fr_forward r = filter harmless fs
     \<and> fr_reject r = map (\<lambda>f. [0, 0, 0, 1, 5]) (filter (\<lambda>f. \<not> harmless f) fs)
     \<and> fr_rejectedLengths r = map length (filter (\<lambda>f. \<not> harmless f) fs)"

definition filters_stream :: "byte list \<Rightarrow> feed_error + filter_result \<Rightarrow> bool" where
  "filters_stream bytes x \<longleftrightarrow> (\<exists>fs rest. bytes = concat fs @ rest \<and> list_all agent_frame fs
     \<and> (case x of Inr r \<Rightarrow> filters_frames fs r \<and> incomplete rest
        | Inl (SshAgentFrameTooLargeError n r) \<Rightarrow> filters_frames fs r \<and> overlong rest \<and> read_u32be rest = Some n
        | Inl FeedRangeError \<Rightarrow> False))"

lemma agent_frame_eq: "agent_frame = frame_ok"
  by (rule ext) (simp add: agent_frame_def frame_ok_def MAX_FRAME_BYTES_def LENGTH_PREFIX_BYTES_def)

lemma filters_sort_frame:
  assumes "frame_ok frame" and "filters_frames fs r"
  shows "filters_frames (fs @ [frame]) (sort_frame (length frame - LENGTH_PREFIX_BYTES) frame r)"
proof -
  have len: "4 \<le> length frame" using assms(1) by (auto simp: frame_ok_def LENGTH_PREFIX_BYTES_def)
  have "uint b = 11 \<longleftrightarrow> b = 11" "uint b = 13 \<longleftrightarrow> b = 13" for b :: byte
    by (simp_all add: word_uint_eq_iff)
  then have "classify (frame_type (length frame - LENGTH_PREFIX_BYTES) frame) \<longleftrightarrow> harmless frame"
    using len by (auto simp: classify_iff frame_type_def harmless_def LENGTH_PREFIX_BYTES_def)
  with assms(2) len show ?thesis
    by (simp add: filters_frames_def sort_frame_def SSH_AGENT_FAILURE_FRAME_def LENGTH_PREFIX_BYTES_def)
qed

lemma filters_sort_frames:
  "list_all frame_ok fs \<Longrightarrow> filters_frames gs r \<Longrightarrow> filters_frames (gs @ fs) (sort_frames fs r)"
proof (induction fs arbitrary: gs r)
  case (Cons f fs)
  from Cons.IH [OF _ filters_sort_frame [OF _ Cons.prems(2)], of f] Cons.prems(1) show ?case
    by (simp add: sort_frames_def)
qed (simp add: sort_frames_def)

lemma filters_no_result: "filters_frames [] no_result"
  by (simp add: filters_frames_def no_result_def)

lemma frames_of_stop:
  "frames_of xs = (fs, rest, err) \<Longrightarrow> (case err of None \<Rightarrow> incomplete rest | Some n \<Rightarrow> overlong rest \<and> read_u32be rest = Some n)"
proof (induction xs arbitrary: fs rule: frames_of.induct)
  case (1 xs)
  show ?case
  proof (cases "\<exists>n. read_u32be xs = Some n \<and> n \<le> MAX_FRAME_BYTES \<and> LENGTH_PREFIX_BYTES + n \<le> length xs")
    case True
    then obtain n fs' where "read_u32be xs = Some n" "\<not> n > MAX_FRAME_BYTES" "\<not> length xs < LENGTH_PREFIX_BYTES + n"
      "frames_of (drop (LENGTH_PREFIX_BYTES + n) xs) = (fs', rest, err)"
      using "1.prems" by (auto simp: frames_of.simps [of xs] split: prod.splits)
    then show ?thesis using "1.IH" by blast
  next
    case False
    with "1.prems" show ?thesis
      by (auto simp: frames_of.simps [of xs] incomplete_def overlong_def MAX_FRAME_BYTES_def LENGTH_PREFIX_BYTES_def
          split: option.splits if_splits)
  qed
qed

lemma filters_outcome:
  assumes "frames_of bytes = (fs, rest, err)"
  shows "filters_stream bytes (outcome (sort_frames fs no_result) err)"
proof -
  have b: "bytes = concat fs @ rest" "list_all frame_ok fs" using frames_of_bytes [OF assms] by auto
  have "filters_frames fs (sort_frames fs no_result)" using filters_sort_frames [OF b(2) filters_no_result] by simp
  with b frames_of_stop [OF assms] show ?thesis
    unfolding filters_stream_def agent_frame_eq
    by (intro exI [of _ fs] exI [of _ rest]) (simp add: outcome_def split: option.splits)
qed

definition result_bytes :: "filter_result \<Rightarrow> nat" where
  "result_bytes r = sum_list (map length (fr_forward r)) + sum_list (fr_rejectedLengths r)"

lemma result_bytes_sort_frames:
  "list_all frame_ok fs \<Longrightarrow> result_bytes (sort_frames fs r) = result_bytes r + length (concat fs)"
proof (induction fs arbitrary: r)
  case (Cons f fs)
  have "result_bytes (sort_frame (length f - LENGTH_PREFIX_BYTES) f r) = result_bytes r + length f"
    using Cons.prems by (auto simp: result_bytes_def sort_frame_def frame_ok_def)
  with Cons show ?case by (simp add: sort_frames_def)
qed (simp add: sort_frames_def)

lemma frames_of_rest_short:
  "frames_of xs = (fs, rest, None) \<Longrightarrow> length rest < LENGTH_PREFIX_BYTES + MAX_FRAME_BYTES"
  using frames_of_rest [of xs fs rest] read_u32be_None [of rest]
  by (auto simp: frames_of.simps [of rest] LENGTH_PREFIX_BYTES_def MAX_FRAME_BYTES_def
      split: option.splits if_splits prod.splits)

text \<open>
  C13: Whatever bytes a client sends, however they are split, the filter treats them as the sequence of complete
  frames they begin with. Exactly the list-identities and sign requests among them are forwarded, each unchanged, whole
  and in order; each of the others is answered by one five-byte failure frame with its length reported. It stops
  with the over-long error exactly when what follows announces more than 256 KiB, otherwise nothing but an incomplete
  frame is left, and it never reads out of range.
\<close>

theorem filter_forwards_only_safe:
  assumes "\<And>n. length (alloc n) = n"
  shows "filters_stream (concat cs) (fst (feed_all alloc cs no_result new_filter))"
proof -
  obtain fs rest err where d: "frames_of (concat cs) = (fs, rest, err)" by (metis prod_cases3)
  show ?thesis unfolding feed_all_new(1) [OF assms d] using d by (rule filters_outcome)
qed

theorem filter_forwards_only_safe_witness:
  "filters_stream [0, 0, 0, 1, 17, 0, 0, 0, 1, 11]
    (fst (feed_all (\<lambda>n. replicate n 0) [[0, 0, 0], [1, 17, 0, 0, 0, 1, 11]] no_result new_filter))"
  using filter_forwards_only_safe [of "\<lambda>n. replicate n 0" "[[0, 0, 0], [1, 17, 0, 0, 0, 1, 11]]"] by simp

text \<open>
  C14: The chunk boundaries a client chooses make no difference: two ways of splitting the same
  bytes give the same forwarded frames, the same failure replies and lengths in the same order,
  and the same over-long frame error with the same partial result.
\<close>

theorem filter_chunking_irrelevant:
  assumes "\<And>n. length (alloc n) = n" and "concat cs = concat ds"
  shows "fst (feed_all alloc cs no_result new_filter) = fst (feed_all alloc ds no_result new_filter)"
  by (metis assms feed_all_new(1) prod_cases3)

theorem filter_chunking_irrelevant_witness:
  "fst (feed_all (\<lambda>n. replicate n 0) [[0, 0, 0], [1, 17, 0, 0, 0, 1, 11]] no_result new_filter)
    = fst (feed_all (\<lambda>n. replicate n 0) [[0, 0, 0, 1, 17], [0], [0, 0, 1, 11]] no_result new_filter)"
  by (rule filter_chunking_irrelevant) simp_all

text \<open>
  As long as no over-long frame arrives, no byte is lost or kept twice: the forwarded frames,
  the lengths reported for the rejected ones and the bytes still held add up to the bytes fed,
  and fewer than 4 + 256 Ki bytes are held between calls.
\<close>

theorem filter_conserves_bytes:
  assumes "\<And>n. length (alloc n) = n" and "feed_all alloc cs no_result new_filter = (Inr r, f)"
  shows "result_bytes r + sf_length f = length (concat cs) \<and> sf_length f < 4 + 262144"
proof -
  obtain fs rest err where d: "frames_of (concat cs) = (fs, rest, err)" by (metis prod_cases3)
  have none: "err = None" and r: "r = sort_frames fs no_result"
    using feed_all_new(1) [OF assms(1) d] assms(2) by (auto simp: outcome_def split: option.splits)
  have "live f = rest" using feed_all_new(2) [OF assms(1) d none] assms(2) by simp
  moreover have "filter_wf f" using feed_all_wf [OF _ assms] live_new by simp
  ultimately have "sf_length f = length rest" using length_live by fastforce
  moreover have "length (concat cs) = length (concat fs) + length rest" "list_all frame_ok fs"
    using frames_of_bytes [OF d] by auto
  ultimately show ?thesis
    using result_bytes_sort_frames [of fs no_result] r frames_of_rest_short [of "concat cs" fs rest] d none
    by (simp add: result_bytes_def no_result_def LENGTH_PREFIX_BYTES_def MAX_FRAME_BYTES_def)
qed

theorem filter_conserves_bytes_witness:
  "\<exists>r f. feed_all (\<lambda>n. replicate n 0) [[0, 0, 0], [1, 17, 0, 0]] no_result new_filter = (Inr r, f)
    \<and> result_bytes r + sf_length f = length (concat [[0, 0, 0], [1, 17, 0, 0 :: byte]]) \<and> sf_length f < 4 + 262144"
proof -
  have alloc: "length ((\<lambda>n. replicate n 0) n) = n" for n by simp
  have two: "frames_of [0, 0] = ([], [0, 0], None)" by (simp add: frames_of.simps [of "[0, 0]"])
  have "frames_of (concat [[0, 0, 0], [1, 17, 0, 0]]) = ([[0, 0, 0, 1, 17]], [0, 0], None)"
    by (simp add: frames_of.simps [of "[0, 0, 0, 1, 17, 0, 0]"] two LENGTH_PREFIX_BYTES_def
        MAX_FRAME_BYTES_def)
  from feed_all_new(1) [OF alloc this] obtain r f where
    run: "feed_all (\<lambda>n. replicate n 0) [[0, 0, 0], [1, 17, 0, 0]] no_result new_filter = (Inr r, f)"
    by (cases "feed_all (\<lambda>n. replicate n 0) [[0, 0, 0], [1, 17, 0, 0]] no_result new_filter")
      (simp add: outcome_def)
  with filter_conserves_bytes [OF alloc run] show ?thesis by blast
qed

end
