(* ===== verification/MuxFrame.thy ===== *)
theory MuxFrame
  imports Prelude
begin

section \<open>The wire format of the channel multiplexer\<close>

text \<open>
  \<open>src/services/ssh-agent-mux.ts\<close>, lines 69 to 205: the frame types, the encoders and the
  decoder of the binary protocol that carries many channels over one WebSocket, and the search
  for a free channel id. \<open>None\<close> of an encoder is the \<open>RangeError\<close> of \<open>writeUInt32BE\<close>; \<open>None\<close> of
  the decoder is the \<open>null\<close> the source returns for a malformed frame.
\<close>

subsection \<open>Constants and frames\<close>

definition CHANNEL_WINDOW_BYTES :: nat where "CHANNEL_WINDOW_BYTES = 256 * 1024"
definition WINDOW_ADJUST_THRESHOLD_BYTES :: nat where "WINDOW_ADJUST_THRESHOLD_BYTES = CHANNEL_WINDOW_BYTES div 2"
definition DEFAULT_MAX_CHANNELS :: nat where "DEFAULT_MAX_CHANNELS = 256"
definition HEADER_BYTES :: nat where "HEADER_BYTES = 5"

datatype frame_tag = FOpen | FOpenAck | FOpenFail | FData | FWindowAdjust | FEof | FClose | FPing | FPong

definition FrameType :: "frame_tag \<Rightarrow> byte" where
  "FrameType t = (case t of FOpen \<Rightarrow> 1 | FOpenAck \<Rightarrow> 2 | FOpenFail \<Rightarrow> 3 | FData \<Rightarrow> 4
     | FWindowAdjust \<Rightarrow> 5 | FEof \<Rightarrow> 6 | FClose \<Rightarrow> 7 | FPing \<Rightarrow> 8 | FPong \<Rightarrow> 9)"

text \<open>\<open>ParsedFrame\<close>: the seven header-only types, and the two with a payload.\<close>

datatype parsed_frame =
    Header frame_tag (frame_channelId: nat)
  | WindowAdjust (frame_channelId: nat) nat
  | Data (frame_channelId: nat) "byte list"

definition header_tag :: "frame_tag \<Rightarrow> bool" where
  "header_tag t \<longleftrightarrow> t \<noteq> FData \<and> t \<noteq> FWindowAdjust"

subsection \<open>Encoding and decoding\<close>

definition encodeHeader :: "frame_tag \<Rightarrow> nat \<Rightarrow> byte list option" where
  "encodeHeader t channelId = map_option (\<lambda>bs. FrameType t # bs) (write_u32be channelId)"

definition encodeWindowAdjust :: "nat \<Rightarrow> nat \<Rightarrow> byte list option" where
  "encodeWindowAdjust channelId byteCount =
     (case write_u32be channelId of None \<Rightarrow> None
      | Some c \<Rightarrow> (case write_u32be byteCount of None \<Rightarrow> None
          | Some n \<Rightarrow> Some (FrameType FWindowAdjust # c @ n)))"

definition encodeData :: "nat \<Rightarrow> byte list \<Rightarrow> byte list option" where
  "encodeData channelId payload = map_option (\<lambda>h. h @ payload) (encodeHeader FData channelId)"

definition tag_of_byte :: "byte \<Rightarrow> frame_tag option" where
  "tag_of_byte b = (if b = 1 then Some FOpen else if b = 2 then Some FOpenAck
     else if b = 3 then Some FOpenFail else if b = 4 then Some FData
     else if b = 5 then Some FWindowAdjust else if b = 6 then Some FEof
     else if b = 7 then Some FClose else if b = 8 then Some FPing
     else if b = 9 then Some FPong else None)"

definition decodeFrame :: "byte list \<Rightarrow> parsed_frame option" where
  "decodeFrame raw =
     (if length raw < HEADER_BYTES then None
      else case (tag_of_byte (hd raw), read_u32be (drop 1 raw)) of
        (Some t, Some channelId) \<Rightarrow>
          (case t of
             FWindowAdjust \<Rightarrow>
               if length raw < HEADER_BYTES + 4 then None
               else map_option (WindowAdjust channelId) (read_u32be (drop HEADER_BYTES raw))
           | FData \<Rightarrow> Some (Data channelId (drop HEADER_BYTES raw))
           | _ \<Rightarrow> Some (Header t channelId))
      | _ \<Rightarrow> None)"

text \<open>The frame a sender means, and the encoder the source uses for it.\<close>

fun encode_frame :: "parsed_frame \<Rightarrow> byte list option" where
  "encode_frame (Header t c) = encodeHeader t c"
| "encode_frame (WindowAdjust c n) = encodeWindowAdjust c n"
| "encode_frame (Data c p) = encodeData c p"

fun frame_wf :: "parsed_frame \<Rightarrow> bool" where
  "frame_wf (Header t c) \<longleftrightarrow> header_tag t \<and> c < 4294967296"
| "frame_wf (WindowAdjust c n) \<longleftrightarrow> c < 4294967296 \<and> n < 4294967296"
| "frame_wf (Data c p) \<longleftrightarrow> c < 4294967296"

lemma tag_of_byte_FrameType [simp]: "tag_of_byte (FrameType t) = Some t"
  by (cases t) (simp_all add: tag_of_byte_def FrameType_def)

lemma tag_of_byte_eq: "tag_of_byte b = Some t \<longleftrightarrow> b = FrameType t"
  by (cases t) (auto simp: tag_of_byte_def FrameType_def)

lemma drop_u32be [simp]: "drop 4 (u32be n @ xs) = xs"
  by simp

lemma decode_header_prefix:
  assumes "c < 4294967296"
  shows "decodeFrame (FrameType t # u32be c @ rest) =
    (case t of FWindowAdjust \<Rightarrow> map_option (WindowAdjust c) (read_u32be rest)
     | FData \<Rightarrow> Some (Data c rest) | _ \<Rightarrow> Some (Header t c))"
  using assms read_u32be_None [of rest]
  by (cases t) (simp_all add: decodeFrame_def HEADER_BYTES_def read_u32be_u32be)

lemma encode_frame_Some: "frame_wf f \<Longrightarrow> \<exists>bs. encode_frame f = Some bs"
  by (cases f) (auto simp: encodeHeader_def encodeWindowAdjust_def encodeData_def write_u32be_def)

lemma decode_encode: "frame_wf f \<Longrightarrow> encode_frame f = Some bs \<Longrightarrow> decodeFrame bs = Some f"
proof (cases f)
  case (Header t c)
  assume "frame_wf f" "encode_frame f = Some bs"
  with Header show ?thesis using decode_header_prefix [of c t "[]"]
    by (cases t) (auto simp: encodeHeader_def write_u32be_def header_tag_def)
next
  case (WindowAdjust c n)
  assume "frame_wf f" "encode_frame f = Some bs"
  with WindowAdjust show ?thesis
    using decode_header_prefix [of c FWindowAdjust "u32be n"] read_u32be_u32be [of n "[]"]
    by (auto simp: encodeWindowAdjust_def write_u32be_def)
next
  case (Data c p)
  assume "frame_wf f" "encode_frame f = Some bs"
  with Data show ?thesis using decode_header_prefix [of c FData p]
    by (auto simp: encodeData_def encodeHeader_def write_u32be_def)
qed

lemma byte_of_nat_low: "(of_nat (k * 256 + unat d) :: byte) = d"
proof -
  have "(of_nat (k * 256 + unat d) :: byte) = of_nat k * 256 + d" by simp
  moreover have "(256 :: byte) = 0" by simp
  ultimately show ?thesis by (simp only: mult_zero_right add_0)
qed

text \<open>Reading four bytes and writing the number back gives the bytes again.\<close>

lemma u32be_read:
  assumes "read_u32be bs = Some n"
  shows "u32be n = take 4 bs"
proof -
  from assms obtain a b c d rest where bs: "bs = a # b # c # d # rest"
    by (cases bs rule: read_u32be.cases) auto
  define A B C D where "A = unat a" and "B = unat b" and "C = unat c" and "D = unat d"
  have lt: "A < 256" "B < 256" "C < 256" "D < 256"
    by (simp_all add: A_def B_def C_def D_def unat_byte_less)
  have n: "n = ((A * 256 + B) * 256 + C) * 256 + D"
    using assms bs by (simp add: A_def B_def C_def D_def)
  have 1: "n div 256 = (A * 256 + B) * 256 + C" using lt n by simp
  have 2: "n div 65536 = A * 256 + B"
    using lt 1 div_mult2_eq [of n 256 256] by simp
  have 3: "n div 16777216 = A"
    using lt 2 div_mult2_eq [of n 65536 256] by simp
  have "(of_nat n :: byte) = d" unfolding n D_def by (rule byte_of_nat_low)
  moreover have "(of_nat (n div 256) :: byte) = c" unfolding 1 C_def by (rule byte_of_nat_low)
  moreover have "(of_nat (n div 65536) :: byte) = b" unfolding 2 B_def by (rule byte_of_nat_low)
  moreover have "(of_nat (n div 16777216) :: byte) = a" unfolding 3 A_def by simp
  ultimately show ?thesis by (simp add: u32be_def bs)
qed

lemma u32be_read_append: "read_u32be bs = Some n \<Longrightarrow> bs = u32be n @ drop 4 bs \<and> n < 4294967296"
  using u32be_read read_u32be_bound by simp

lemma encode_decode:
  assumes "decodeFrame raw = Some f"
  shows "frame_wf f \<and> (\<exists>bs rest. encode_frame f = Some bs \<and> raw = bs @ rest
    \<and> (\<forall>c p. f = Data c p \<longrightarrow> rest = []))"
proof -
  obtain b body where raw: "raw = b # body"
    using assms by (cases raw) (auto simp: decodeFrame_def HEADER_BYTES_def)
  obtain t c where tc: "tag_of_byte b = Some t" "read_u32be body = Some c"
    using assms by (auto simp: raw decodeFrame_def split: if_splits option.splits)
  have b: "b = FrameType t" using tc(1) by (simp add: tag_of_byte_eq)
  obtain rest where body: "body = u32be c @ rest" and c: "c < 4294967296"
    using u32be_read_append [OF tc(2)] by blast
  have d: "decodeFrame raw = (case t of FWindowAdjust \<Rightarrow> map_option (WindowAdjust c) (read_u32be rest)
     | FData \<Rightarrow> Some (Data c rest) | _ \<Rightarrow> Some (Header t c))"
    using decode_header_prefix [OF c, of t rest] by (simp add: raw b body)
  show ?thesis
  proof (cases "t = FWindowAdjust")
    case True
    with d assms obtain n where n: "read_u32be rest = Some n" "f = WindowAdjust c n"
      by (cases "read_u32be rest") auto
    with True u32be_read_append [OF n(1)] c show ?thesis
      by (auto simp: raw b body encodeWindowAdjust_def write_u32be_def)
  next
    case False
    with d assms c show ?thesis
      by (cases t) (auto simp: raw b body encodeData_def encodeHeader_def write_u32be_def header_tag_def)
  qed
qed

subsection \<open>Picking a free channel id\<close>

text \<open>\<open>None\<close> is the error thrown after \<open>maxChecks\<close> failed checks.\<close>

function pick_loop :: "nat list \<Rightarrow> nat \<Rightarrow> nat \<Rightarrow> nat \<Rightarrow> nat \<Rightarrow> nat option" where
  "pick_loop occupied start maxChecks checks cid =
     (if cid \<in> set occupied then
        if Suc checks > maxChecks then None
        else pick_loop occupied start maxChecks (Suc checks) (if cid \<ge> 0xfffffffe then start else cid + 2)
      else Some cid)"
  by pat_completeness auto
termination
  by (relation "measure (\<lambda>(_, _, m, c, _). m - c)") auto

declare pick_loop.simps [simp del]

definition pickFreeChannelId :: "nat list \<Rightarrow> nat \<Rightarrow> nat \<Rightarrow> nat option" where
  "pickFreeChannelId occupied start maxChecks = pick_loop occupied start maxChecks 0 start"

lemma pick_loop_sound:
  "pick_loop occ start m k cid = Some r \<Longrightarrow> cid mod 2 = start mod 2 \<Longrightarrow> cid < 4294967296 \<Longrightarrow> start < 4294967296
    \<Longrightarrow> start \<le> cid \<Longrightarrow> r \<notin> set occ \<and> r mod 2 = start mod 2 \<and> r < 4294967296 \<and> start \<le> r"
proof (induction occ start m k cid rule: pick_loop.induct)
  case (1 occ start m k cid)
  show ?case
  proof (cases "cid \<in> set occ")
    case True
    with "1.prems"(1) have k: "\<not> m < Suc k"
      and rec: "pick_loop occ start m (Suc k) (if cid \<ge> 0xfffffffe then start else cid + 2) = Some r"
      by (auto simp: pick_loop.simps [of occ start m k cid] split: if_splits)
    show ?thesis using "1.IH" [OF True k rec] "1.prems"(2-) by auto
  next
    case False
    with "1.prems" show ?thesis by (auto simp: pick_loop.simps [of occ start m k cid])
  qed
qed

text \<open>The candidates seen so far are all occupied, so there cannot be more of them than ids in use.\<close>

lemma pick_loop_finds:
  "cid = start + 2 * k \<Longrightarrow> (\<lambda>i. start + 2 * i) ` {..<k} \<subseteq> set occ \<Longrightarrow> card (set occ) \<le> m
    \<Longrightarrow> start + 2 * card (set occ) < 4294967296 \<Longrightarrow> \<exists>r. pick_loop occ start m k cid = Some r"
proof (induction occ start m k cid rule: pick_loop.induct)
  case (1 occ start m k cid)
  show ?case
  proof (cases "cid \<in> set occ")
    case True
    have seen: "(\<lambda>i. start + 2 * i) ` {..<Suc k} \<subseteq> set occ"
      using "1.prems"(1,2) True by (auto simp: lessThan_Suc)
    have "Suc k = card ((\<lambda>i. start + 2 * i) ` {..<Suc k})" by (simp add: card_image inj_on_def)
    also have "\<dots> \<le> card (set occ)" using seen by (intro card_mono) simp_all
    finally have k: "Suc k \<le> card (set occ)" .
    with "1.prems"(1,3,4) have "\<not> m < Suc k" and "\<not> 0xfffffffe \<le> cid" by linarith+
    moreover from this have "\<exists>r. pick_loop occ start m (Suc k) (cid + 2) = Some r"
      using "1.IH" [OF True] seen "1.prems" by simp
    ultimately show ?thesis using True by (simp add: pick_loop.simps [of occ start m k cid])
  next
    case False
    then show ?thesis by (simp add: pick_loop.simps [of occ start m k cid])
  qed
qed

subsection \<open>Properties\<close>

text \<open>
  Every frame the multiplexer can mean (ids and byte counts of 32 bits) is encoded, and the
  encoding decodes to the same frame; conversely whatever byte string is accepted from the peer
  starts with the encoding of the frame it is read as, and a data frame is that encoding exactly,
  so no payload byte is dropped or added.
\<close>

theorem mux_frame_roundtrip:
  "(frame_wf f \<longrightarrow> (\<exists>bs. encode_frame f = Some bs \<and> decodeFrame bs = Some f))
   \<and> (decodeFrame raw = Some g \<longrightarrow> frame_wf g \<and> (\<exists>bs rest. encode_frame g = Some bs \<and> raw = bs @ rest
        \<and> (\<forall>c p. g = Data c p \<longrightarrow> rest = [])))"
  using encode_frame_Some decode_encode encode_decode by blast

theorem mux_frame_roundtrip_witness:
  "(\<exists>bs. encode_frame (Data 7 [1, 2]) = Some bs \<and> decodeFrame bs = Some (Data 7 [1, 2]))
   \<and> decodeFrame [6, 0, 0, 0, 9, 42] = Some (Header FEof 9) \<and> frame_wf (Header FEof 9)"
proof -
  have d: "decodeFrame [6, 0, 0, 0, 9, 42] = Some (Header FEof 9)"
    by (simp add: decodeFrame_def HEADER_BYTES_def tag_of_byte_def)
  show ?thesis
    using mux_frame_roundtrip [of "Data 7 [1, 2]" "[6, 0, 0, 0, 9, 42]" "Header FEof 9"] d by simp
qed

text \<open>
  While the search stays below the end of the 32-bit id space, an allocation with at most
  \<open>maxChecks\<close> ids in use always succeeds, and the id it gives is not in use, has the parity of the
  side that allocates and fits the four bytes of a frame header.
\<close>

theorem pickFreeChannelId_fresh:
  assumes "card (set occupied) \<le> maxChecks" and "start + 2 * card (set occupied) < 4294967296"
  shows "\<exists>cid. pickFreeChannelId occupied start maxChecks = Some cid \<and> cid \<notin> set occupied
    \<and> cid mod 2 = start mod 2 \<and> start \<le> cid \<and> cid < 4294967296"
  using pick_loop_finds [of start start 0 occupied maxChecks] assms
    pick_loop_sound [of occupied start maxChecks 0 start]
  by (auto simp: pickFreeChannelId_def)

theorem pickFreeChannelId_fresh_witness:
  "\<exists>cid. pickFreeChannelId [1, 3, 4] 1 3 = Some cid \<and> cid \<notin> set [1, 3, 4] \<and> cid mod 2 = 1 mod 2
    \<and> 1 \<le> cid \<and> cid < 4294967296"
  by (rule pickFreeChannelId_fresh) simp_all

text \<open>
  Near the end of the id space the search is not complete: it wraps to the position it started
  from and not to the first id of the parity, so with only the last id occupied it gives up
  although every other id is free.
\<close>

lemma pickFreeChannelId_gives_up_at_the_end:
  "pickFreeChannelId [0xfffffffe] 0xfffffffe maxChecks = None"
proof -
  have "pick_loop [0xfffffffe] 0xfffffffe m k 0xfffffffe = None" for m k
    by (induction "m - k" arbitrary: k) (simp_all add: pick_loop.simps [of _ _ m])
  then show ?thesis by (simp add: pickFreeChannelId_def)
qed

end
