(* ===== verification/MuxChannel.thy ===== *)
theory MuxChannel
  imports MuxFrame
begin

section \<open>A multiplexed channel\<close>

text \<open>
  \<open>ChannelImpl\<close> of \<open>src/services/ssh-agent-mux.ts\<close>. A channel's operations change its own fields
  and hand out effects in the order the source performs them: a frame for the connection's
  \<open>sendFrame\<close>, the \<open>onLocalClose\<close> callback, and the invocation of one listener (by its position in
  its array; \<open>invokeListener\<close> swallows what a listener throws, so an invocation never interrupts
  the operation). The connection interprets the effects (theory \<open>MuxConnection\<close>).
  The last part puts two channels at the ends of an ordered link and shows that the credit of
  the window protocol is conserved.
\<close>

subsection \<open>The channel and its operations\<close>

record channel =
  ch_id :: nat
  ch_closed :: bool
  ch_maxSendWindow :: nat
  ch_sendWindowBytes :: nat
  ch_unacknowledgedBytes :: nat
  ch_dataListeners :: nat
  ch_eofListeners :: nat
  ch_closeListeners :: nat
  ch_drainListeners :: nat
  ch_pendingData :: "byte list list"
  ch_pendingDataBytes :: nat
  ch_pendingEof :: bool

datatype channel_effect =
    SendFrame "byte list option"
  | LocalClose nat
  | FireData nat nat "byte list"
  | FireEof nat nat
  | FireClose nat nat
  | FireDrain nat nat

datatype channel_error = SendOnClosed nat | SendExceedsWindow nat nat nat

definition new_channel :: "nat \<Rightarrow> nat \<Rightarrow> channel" where
  "new_channel cid maxSendWindow =
    \<lparr>ch_id = cid, ch_closed = False, ch_maxSendWindow = maxSendWindow, ch_sendWindowBytes = maxSendWindow,
     ch_unacknowledgedBytes = 0, ch_dataListeners = 0, ch_eofListeners = 0, ch_closeListeners = 0,
     ch_drainListeners = 0, ch_pendingData = [], ch_pendingDataBytes = 0, ch_pendingEof = False\<rparr>"

definition sendWindow :: "channel \<Rightarrow> nat" where
  "sendWindow ch = ch_sendWindowBytes ch"

definition channel_send :: "byte list \<Rightarrow> channel \<Rightarrow> channel_error + channel \<times> channel_effect list" where
  "channel_send chunk ch =
     (if ch_closed ch then Inl (SendOnClosed (ch_id ch))
      else if length chunk > ch_sendWindowBytes ch
      then Inl (SendExceedsWindow (length chunk) (ch_id ch) (ch_sendWindowBytes ch))
      else Inr (ch\<lparr>ch_sendWindowBytes := ch_sendWindowBytes ch - length chunk\<rparr>,
                [SendFrame (encodeData (ch_id ch) chunk)]))"

definition channel_eof :: "channel \<Rightarrow> channel \<times> channel_effect list" where
  "channel_eof ch = (if ch_closed ch then (ch, []) else (ch, [SendFrame (encodeHeader FEof (ch_id ch))]))"

definition fire_close :: "channel \<Rightarrow> channel_effect list" where
  "fire_close ch = map (FireClose (ch_id ch)) [0..<ch_closeListeners ch]"

definition channel_close :: "channel \<Rightarrow> channel \<times> channel_effect list" where
  "channel_close ch =
     (if ch_closed ch then (ch, [])
      else (ch\<lparr>ch_closed := True, ch_pendingData := [], ch_pendingDataBytes := 0\<rparr>,
            [SendFrame (encodeHeader FClose (ch_id ch)), LocalClose (ch_id ch)] @ fire_close ch))"

definition channel_closeLocally :: "channel \<Rightarrow> channel \<times> channel_effect list" where
  "channel_closeLocally ch =
     (if ch_closed ch then (ch, [])
      else (ch\<lparr>ch_closed := True, ch_pendingData := [], ch_pendingDataBytes := 0\<rparr>, fire_close ch))"

definition channel_onData :: "channel \<Rightarrow> channel \<times> channel_effect list" where
  "channel_onData ch =
     (let isFirst = (ch_dataListeners ch = 0);
          ch' = ch\<lparr>ch_dataListeners := Suc (ch_dataListeners ch)\<rparr>
      in if isFirst \<and> ch_pendingData ch \<noteq> []
         then (ch'\<lparr>ch_pendingData := [], ch_pendingDataBytes := 0\<rparr>,
               map (FireData (ch_id ch) 0) (ch_pendingData ch))
         else (ch', []))"

definition channel_onEof :: "channel \<Rightarrow> channel \<times> channel_effect list" where
  "channel_onEof ch =
     (let isFirst = (ch_eofListeners ch = 0);
          ch' = ch\<lparr>ch_eofListeners := Suc (ch_eofListeners ch)\<rparr>
      in if isFirst \<and> ch_pendingEof ch
         then (ch'\<lparr>ch_pendingEof := False\<rparr>, [FireEof (ch_id ch) 0])
         else (ch', []))"

definition channel_onClose :: "channel \<Rightarrow> channel" where
  "channel_onClose ch = ch\<lparr>ch_closeListeners := Suc (ch_closeListeners ch)\<rparr>"

definition channel_onDrain :: "channel \<Rightarrow> channel" where
  "channel_onDrain ch = ch\<lparr>ch_drainListeners := Suc (ch_drainListeners ch)\<rparr>"

definition handleData :: "byte list \<Rightarrow> channel \<Rightarrow> channel \<times> channel_effect list" where
  "handleData chunk ch =
     (if ch_dataListeners ch = 0 then
        if ch_pendingDataBytes ch + length chunk > ch_maxSendWindow ch then channel_close ch
        else (ch\<lparr>ch_pendingDataBytes := ch_pendingDataBytes ch + length chunk,
                 ch_pendingData := ch_pendingData ch @ [chunk]\<rparr>, [])
      else (ch, map (\<lambda>i. FireData (ch_id ch) i chunk) [0..<ch_dataListeners ch]))"

definition handleEof :: "channel \<Rightarrow> channel \<times> channel_effect list" where
  "handleEof ch =
     (if ch_eofListeners ch = 0 then (ch\<lparr>ch_pendingEof := True\<rparr>, [])
      else (ch, map (FireEof (ch_id ch)) [0..<ch_eofListeners ch]))"

definition handleWindowAdjust :: "nat \<Rightarrow> channel \<Rightarrow> channel \<times> channel_effect list" where
  "handleWindowAdjust byteCount ch =
     (ch\<lparr>ch_sendWindowBytes := min (ch_sendWindowBytes ch + byteCount) (ch_maxSendWindow ch)\<rparr>,
      map (FireDrain (ch_id ch)) [0..<ch_drainListeners ch])"

definition acknowledgeConsumed :: "nat \<Rightarrow> channel \<Rightarrow> channel \<times> channel_effect list" where
  "acknowledgeConsumed byteCount ch =
     (if ch_closed ch then (ch, [])
      else
        let total = ch_unacknowledgedBytes ch + byteCount in
        if total \<ge> WINDOW_ADJUST_THRESHOLD_BYTES
        then (ch\<lparr>ch_unacknowledgedBytes := 0\<rparr>, [SendFrame (encodeWindowAdjust (ch_id ch) total)])
        else (ch\<lparr>ch_unacknowledgedBytes := total\<rparr>, []))"

lemmas channel_defs = channel_send_def channel_eof_def channel_close_def channel_closeLocally_def
  channel_onData_def channel_onEof_def channel_onClose_def channel_onDrain_def handleData_def
  handleEof_def handleWindowAdjust_def acknowledgeConsumed_def fire_close_def Let_def

subsection \<open>Well-formed channels\<close>

text \<open>
  The window never exceeds what was granted, the pending buffer is counted exactly and bounded by
  the window, data waits only while no listener is attached, and a closed channel holds none.
\<close>

definition channel_wf :: "channel \<Rightarrow> bool" where
  "channel_wf ch \<longleftrightarrow> ch_sendWindowBytes ch \<le> ch_maxSendWindow ch
     \<and> ch_pendingDataBytes ch = length (concat (ch_pendingData ch))
     \<and> ch_pendingDataBytes ch \<le> ch_maxSendWindow ch
     \<and> (ch_dataListeners ch > 0 \<longrightarrow> ch_pendingData ch = [])"

datatype channel_op = OpSend "byte list" | OpEof | OpClose | OpCloseLocally | OpOnData | OpOnEof
  | OpOnClose | OpOnDrain | OpData "byte list" | OpHandleEof | OpAdjust nat | OpAck nat

text \<open>Any call on a channel; a call that throws changes nothing.\<close>

fun channel_do :: "channel_op \<Rightarrow> channel \<Rightarrow> channel \<times> channel_effect list" where
  "channel_do (OpSend b) ch = (case channel_send b ch of Inl _ \<Rightarrow> (ch, []) | Inr r \<Rightarrow> r)"
| "channel_do OpEof ch = channel_eof ch"
| "channel_do OpClose ch = channel_close ch"
| "channel_do OpCloseLocally ch = channel_closeLocally ch"
| "channel_do OpOnData ch = channel_onData ch"
| "channel_do OpOnEof ch = channel_onEof ch"
| "channel_do OpOnClose ch = (channel_onClose ch, [])"
| "channel_do OpOnDrain ch = (channel_onDrain ch, [])"
| "channel_do (OpData b) ch = handleData b ch"
| "channel_do OpHandleEof ch = handleEof ch"
| "channel_do (OpAdjust n) ch = handleWindowAdjust n ch"
| "channel_do (OpAck n) ch = acknowledgeConsumed n ch"

lemma channel_wf_new [wf_intros]: "channel_wf (new_channel cid w)"
  by (simp add: channel_wf_def new_channel_def)

lemma channel_wf_do [wf_intros]: "channel_wf ch \<Longrightarrow> channel_wf (fst (channel_do op ch))"
  by (cases op) (auto simp: channel_wf_def channel_defs)

lemma channel_do_static [simp]:
  "ch_id (fst (channel_do op ch)) = ch_id ch" "ch_maxSendWindow (fst (channel_do op ch)) = ch_maxSendWindow ch"
  by (cases op; auto simp: channel_defs)+

interpretation channel_machine: step_machine "\<lambda>ch op. fst (channel_do op ch)" "\<lambda>_. True" channel_wf
  by unfold_locales (rule channel_wf_do)

fun channel_run :: "channel_op list \<Rightarrow> channel \<Rightarrow> channel \<times> channel_effect list" where
  "channel_run [] ch = (ch, [])"
| "channel_run (op # ops) ch =
     (case channel_do op ch of (ch', es) \<Rightarrow> case channel_run ops ch' of (ch'', es') \<Rightarrow> (ch'', es @ es'))"

lemma fst_channel_run: "fst (channel_run ops ch) = foldl (\<lambda>ch op. fst (channel_do op ch)) ch ops"
  by (induction ops arbitrary: ch) (simp_all add: split_beta)

subsection \<open>Data reaches the first listener in order, whenever it attaches\<close>

fun fired_first :: "channel_effect list \<Rightarrow> byte list list" where
  "fired_first [] = []"
| "fired_first (FireData _ i b # es) = (if i = 0 then b # fired_first es else fired_first es)"
| "fired_first (_ # es) = fired_first es"

fun received :: "channel_op list \<Rightarrow> byte list list" where
  "received [] = []"
| "received (OpData b # ops) = b # received ops"
| "received (_ # ops) = received ops"

lemma received_Cons: "received (op # ops) = received [op] @ received ops"
  by (cases op) simp_all

lemma fired_first_append [simp]: "fired_first (xs @ ys) = fired_first xs @ fired_first ys"
  by (induction xs rule: fired_first.induct) auto

lemma fired_first_FireData0 [simp]: "fired_first (map (FireData c 0) bs) = bs"
  by (induction bs) auto

lemma fired_first_listeners: "n > 0 \<Longrightarrow> fired_first (map (\<lambda>i. FireData c i b) [0..<n]) = [b]"
proof -
  have none: "fired_first (map (\<lambda>i. FireData c i b) xs) = []" if "0 \<notin> set xs" for xs
    using that by (induction xs) auto
  assume "n > 0"
  then have "[0..<n] = 0 # [1..<n]" by (simp add: upt_conv_Cons)
  then show ?thesis by (simp add: none)
qed

lemma fired_first_other [simp]: "fired_first (map (FireClose c) xs) = []"
  "fired_first (map (FireEof c) xs) = []" "fired_first (map (FireDrain c) xs) = []"
  by (induction xs; simp)+

lemma channel_do_delivery:
  assumes "channel_wf ch" and "\<not> ch_closed (fst (channel_do op ch))"
  shows "fired_first (snd (channel_do op ch)) @ ch_pendingData (fst (channel_do op ch))
    = ch_pendingData ch @ received [op]"
  using assms by (cases op) (auto simp: channel_defs channel_wf_def fired_first_listeners split: if_splits)

lemma closed_stays: "ch_closed ch \<Longrightarrow> ch_closed (fst (channel_run ops ch))"
proof (induction ops arbitrary: ch)
  case (Cons op ops)
  have "ch_closed (fst (channel_do op ch))" using Cons.prems by (cases op) (auto simp: channel_defs)
  with Cons.IH show ?case by (simp add: split_beta)
qed simp

lemma channel_run_delivery:
  "channel_wf ch \<Longrightarrow> \<not> ch_closed (fst (channel_run ops ch))
    \<Longrightarrow> fired_first (snd (channel_run ops ch)) @ ch_pendingData (fst (channel_run ops ch))
      = ch_pendingData ch @ received ops"
proof (induction ops arbitrary: ch)
  case (Cons op ops)
  let ?ch = "fst (channel_do op ch)"
  have run: "channel_run (op # ops) ch = (fst (channel_run ops ?ch), snd (channel_do op ch) @ snd (channel_run ops ?ch))"
    by (simp add: split_beta)
  have open_: "\<not> ch_closed (fst (channel_run ops ?ch))" using Cons.prems(2) run by simp
  then have "\<not> ch_closed ?ch" using closed_stays by blast
  with Cons.prems(1) have step: "fired_first (snd (channel_do op ch)) @ ch_pendingData ?ch = ch_pendingData ch @ received [op]"
    by (rule channel_do_delivery)
  have "fired_first (snd (channel_run ops ?ch)) @ ch_pendingData (fst (channel_run ops ?ch)) = ch_pendingData ?ch @ received ops"
    using Cons.IH channel_wf_do Cons.prems(1) open_ by blast
  with step show ?case
    unfolding run received_Cons [of op ops] fst_conv snd_conv fired_first_append append_assoc
    by (metis append_assoc)
qed simp

subsection \<open>Two ends of a link\<close>

text \<open>
  A sending channel, the frames under way to the receiving one, the bytes the receiver's consumer
  has been handed and not yet acknowledged, and the frames under way back. Frames arrive in
  order, as on a WebSocket, and are dispatched by what they decode to.
\<close>

record link =
  ln_sender :: channel
  ln_wire :: "byte list list"
  ln_receiver :: channel
  ln_handed :: nat
  ln_back :: "byte list list"

definition payload :: "byte list \<Rightarrow> byte list" where
  "payload raw = (case decodeFrame raw of Some (Data _ p) \<Rightarrow> p | _ \<Rightarrow> [])"

definition credit :: "byte list \<Rightarrow> nat" where
  "credit raw = (case decodeFrame raw of Some (WindowAdjust _ n) \<Rightarrow> n | _ \<Rightarrow> 0)"

fun frames_out :: "channel_effect list \<Rightarrow> byte list list" where
  "frames_out [] = []"
| "frames_out (SendFrame (Some f) # es) = f # frames_out es"
| "frames_out (_ # es) = frames_out es"

inductive link_step :: "link \<Rightarrow> link \<Rightarrow> bool" where
  transmit: "channel_send chunk (ln_sender l) = Inr (a, es)
    \<Longrightarrow> link_step l (l\<lparr>ln_sender := a, ln_wire := ln_wire l @ frames_out es\<rparr>)"
| arrive: "ln_wire l = raw # rest \<Longrightarrow> handleData (payload raw) (ln_receiver l) = (b, es)
    \<Longrightarrow> link_step l (l\<lparr>ln_wire := rest, ln_receiver := b,
          ln_handed := ln_handed l + length (concat (fired_first es)), ln_back := ln_back l @ frames_out es\<rparr>)"
| attach: "ch_dataListeners (ln_receiver l) = 0 \<Longrightarrow> channel_onData (ln_receiver l) = (b, es)
    \<Longrightarrow> link_step l (l\<lparr>ln_receiver := b, ln_handed := ln_handed l + length (concat (fired_first es))\<rparr>)"
| consumed: "n \<le> ln_handed l \<Longrightarrow> acknowledgeConsumed n (ln_receiver l) = (b, es)
    \<Longrightarrow> link_step l (l\<lparr>ln_receiver := b, ln_handed := ln_handed l - n, ln_back := ln_back l @ frames_out es\<rparr>)"
| adjusted: "ln_back l = raw # rest \<Longrightarrow> handleWindowAdjust (credit raw) (ln_sender l) = (a, es)
    \<Longrightarrow> link_step l (l\<lparr>ln_sender := a, ln_back := rest\<rparr>)"

inductive_cases link_stepE: "link_step l l'"

definition new_link :: "nat \<Rightarrow> link" where
  "new_link cid = \<lparr>ln_sender = new_channel cid CHANNEL_WINDOW_BYTES, ln_wire = [],
     ln_receiver = new_channel cid CHANNEL_WINDOW_BYTES, ln_handed = 0, ln_back = []\<rparr>"

definition link_total :: "link \<Rightarrow> nat" where
  "link_total l = ch_sendWindowBytes (ln_sender l) + sum_list (map (\<lambda>r. length (payload r)) (ln_wire l))
     + ch_pendingDataBytes (ln_receiver l) + ln_handed l + ch_unacknowledgedBytes (ln_receiver l)
     + sum_list (map credit (ln_back l))"

definition link_inv :: "link \<Rightarrow> bool" where
  "link_inv l \<longleftrightarrow> link_total l = CHANNEL_WINDOW_BYTES
     \<and> channel_wf (ln_sender l) \<and> channel_wf (ln_receiver l)
     \<and> \<not> ch_closed (ln_sender l) \<and> \<not> ch_closed (ln_receiver l)
     \<and> ch_id (ln_sender l) < 4294967296 \<and> ch_id (ln_receiver l) < 4294967296
     \<and> ch_maxSendWindow (ln_sender l) = CHANNEL_WINDOW_BYTES
     \<and> ch_maxSendWindow (ln_receiver l) = CHANNEL_WINDOW_BYTES
     \<and> ch_unacknowledgedBytes (ln_receiver l) < WINDOW_ADJUST_THRESHOLD_BYTES"

lemma data_frame_out:
  assumes "c < 4294967296"
  shows "\<exists>raw. encodeData c b = Some raw \<and> payload raw = b"
  using assms encode_frame_Some [of "Data c b"] decode_encode [of "Data c b"] by (auto simp: payload_def)

lemma adjust_frame_out:
  assumes "c < 4294967296" and "n < 4294967296"
  shows "\<exists>raw. encodeWindowAdjust c n = Some raw \<and> credit raw = n"
  using assms encode_frame_Some [of "WindowAdjust c n"] decode_encode [of "WindowAdjust c n"]
  by (auto simp: credit_def)

lemmas window_consts = CHANNEL_WINDOW_BYTES_def WINDOW_ADJUST_THRESHOLD_BYTES_def

lemma link_inv_new: "cid < 4294967296 \<Longrightarrow> link_inv (new_link cid)"
  by (simp add: link_inv_def new_link_def link_total_def new_channel_def channel_wf_def window_consts)

lemma link_inv_transmit:
  assumes "link_inv l" and "channel_send chunk (ln_sender l) = Inr (a, es)"
  shows "link_inv (l\<lparr>ln_sender := a, ln_wire := ln_wire l @ frames_out es\<rparr>)"
proof -
  obtain raw where "encodeData (ch_id (ln_sender l)) chunk = Some raw" "payload raw = chunk"
    using data_frame_out assms(1) unfolding link_inv_def by blast
  with assms show ?thesis
    by (auto simp: link_inv_def link_total_def channel_send_def channel_wf_def split: if_splits)
qed

text \<open>The bound that closes a channel is out of reach while the invariant holds.\<close>

lemma handleData_within_credit:
  assumes "link_inv l" and "ln_wire l = raw # rest" and "handleData (payload raw) (ln_receiver l) = (b, es)"
  shows "\<not> ch_closed b \<and> frames_out es = [] \<and> channel_wf b \<and> ch_id b = ch_id (ln_receiver l)
    \<and> ch_maxSendWindow b = ch_maxSendWindow (ln_receiver l)
    \<and> ch_unacknowledgedBytes b = ch_unacknowledgedBytes (ln_receiver l)
    \<and> ch_pendingDataBytes b + length (concat (fired_first es))
       = ch_pendingDataBytes (ln_receiver l) + length (payload raw)"
proof -
  have fits: "ch_pendingDataBytes (ln_receiver l) + length (payload raw) \<le> ch_maxSendWindow (ln_receiver l)"
    using assms(1,2) by (simp add: link_inv_def link_total_def)
  have no_frames: "frames_out (map (\<lambda>i. FireData c i d) xs) = []" for c d and xs :: "nat list"
    by (induction xs) auto
  have "channel_wf b"
    using channel_wf_do [of "ln_receiver l" "OpData (payload raw)"] assms by (simp add: link_inv_def)
  with fits assms show ?thesis
    by (auto simp: handleData_def link_inv_def no_frames fired_first_listeners split: if_splits)
qed

lemma link_inv_arrive:
  assumes "link_inv l" and "ln_wire l = raw # rest" and "handleData (payload raw) (ln_receiver l) = (b, es)"
  shows "link_inv (l\<lparr>ln_wire := rest, ln_receiver := b,
          ln_handed := ln_handed l + length (concat (fired_first es)), ln_back := ln_back l @ frames_out es\<rparr>)"
  using handleData_within_credit [OF assms] assms(1,2) by (simp add: link_inv_def link_total_def)

lemma link_inv_attach:
  assumes "link_inv l" and "channel_onData (ln_receiver l) = (b, es)"
  shows "link_inv (l\<lparr>ln_receiver := b, ln_handed := ln_handed l + length (concat (fired_first es))\<rparr>)"
  using assms channel_wf_do [of "ln_receiver l" OpOnData]
  by (auto simp: link_inv_def link_total_def channel_onData_def channel_wf_def Let_def split: if_splits)

lemma link_inv_consumed:
  assumes "link_inv l" and "n \<le> ln_handed l" and "acknowledgeConsumed n (ln_receiver l) = (b, es)"
  shows "link_inv (l\<lparr>ln_receiver := b, ln_handed := ln_handed l - n, ln_back := ln_back l @ frames_out es\<rparr>)"
proof (cases "ch_unacknowledgedBytes (ln_receiver l) + n \<ge> WINDOW_ADJUST_THRESHOLD_BYTES")
  case True
  let ?n = "ch_unacknowledgedBytes (ln_receiver l) + n"
  have "?n \<le> CHANNEL_WINDOW_BYTES" using assms(1,2) by (simp add: link_inv_def link_total_def)
  then have "?n < 4294967296" by (simp add: window_consts)
  then obtain raw where "encodeWindowAdjust (ch_id (ln_receiver l)) ?n = Some raw" "credit raw = ?n"
    using adjust_frame_out assms(1) unfolding link_inv_def by blast
  with True assms show ?thesis
    by (auto simp: link_inv_def link_total_def acknowledgeConsumed_def channel_wf_def Let_def window_consts)
next
  case False
  with assms show ?thesis
    by (auto simp: link_inv_def link_total_def acknowledgeConsumed_def channel_wf_def Let_def)
qed

lemma link_inv_adjusted:
  assumes "link_inv l" and "ln_back l = raw # rest" and "handleWindowAdjust (credit raw) (ln_sender l) = (a, es)"
  shows "link_inv (l\<lparr>ln_sender := a, ln_back := rest\<rparr>)"
  using assms by (auto simp: link_inv_def link_total_def handleWindowAdjust_def channel_wf_def)

lemma link_inv_step: "link_step l l' \<Longrightarrow> link_inv l \<Longrightarrow> link_inv l'"
  by (induction rule: link_step.induct)
    (auto intro: link_inv_transmit link_inv_arrive link_inv_attach link_inv_consumed link_inv_adjusted)

lemma link_inv_reachable: "link_step\<^sup>*\<^sup>* l l' \<Longrightarrow> link_inv l \<Longrightarrow> link_inv l'"
  by (induction rule: rtranclp_induct) (auto intro: link_inv_step)

subsection \<open>Properties\<close>

text \<open>
  Whatever calls are made on a channel in whatever order, as long as it stays open the data
  frames that arrive reach its first listener exactly once and in order of arrival, those that
  came before the listener was attached included; what has not reached it yet is what is pending,
  and the pending bytes and the send window stay within the granted window.
\<close>

theorem channel_data_in_order:
  assumes "channel_run ops (new_channel cid w) = (ch, es)" and "\<not> ch_closed ch"
  shows "fired_first es @ ch_pendingData ch = received ops
    \<and> (ch_dataListeners ch > 0 \<longrightarrow> fired_first es = received ops)
    \<and> length (concat (ch_pendingData ch)) \<le> w \<and> sendWindow ch \<le> w"
proof -
  have wf: "channel_wf ch" and w: "ch_maxSendWindow ch = w"
  proof -
    have "ch_maxSendWindow (foldl (\<lambda>ch op. fst (channel_do op ch)) ch' ops) = ch_maxSendWindow ch'" for ch'
      by (induction ops arbitrary: ch') auto
    then show "ch_maxSendWindow ch = w"
      using fst_channel_run [of ops "new_channel cid w"] assms(1) by (simp add: new_channel_def)
    show "channel_wf ch"
      using channel_machine.inv_run [of "new_channel cid w" ops] channel_wf_new [of cid w]
        fst_channel_run [of ops "new_channel cid w"] assms(1) by (simp add: list_all_iff)
  qed
  have "fired_first es @ ch_pendingData ch = received ops"
    using channel_run_delivery [of "new_channel cid w" ops] channel_wf_new [of cid w] assms
    by (simp add: new_channel_def)
  with wf w show ?thesis by (auto simp: channel_wf_def sendWindow_def)
qed

theorem channel_data_in_order_witness:
  "fired_first (snd (channel_run [OpData [1], OpData [2, 3], OpOnData, OpData [4]] (new_channel 1 8)))
    = [[1], [2, 3], [4]]"
proof -
  let ?ops = "[OpData [1], OpData [2, 3], OpOnData, OpData [4]]"
  have run: "channel_run ?ops (new_channel 1 8) =
    ((new_channel 1 8)\<lparr>ch_dataListeners := 1\<rparr>, [FireData 1 0 [1], FireData 1 0 [2, 3], FireData 1 0 [4]])"
    by (simp add: new_channel_def handleData_def channel_onData_def Let_def)
  then show ?thesis using channel_data_in_order [OF run] by (simp add: new_channel_def)
qed

text \<open>
  C18: Between two ends that follow the protocol the window's credit is conserved: the sender's
  window, the bytes under way, the bytes waiting at the receiver, the bytes its consumer holds,
  the bytes consumed and not yet reported, and the credit under way back always add up to the
  256 KiB that were granted. Hence the receiver never closes the channel for an overrun, no
  adjustment is cut by the clamp, and once everything under way has been consumed the sender may
  send again more than half a window: the link cannot stall.
\<close>

theorem window_credit_conserved:
  assumes "link_step\<^sup>*\<^sup>* (new_link cid) l" and "cid < 4294967296"
  shows "link_total l = CHANNEL_WINDOW_BYTES \<and> \<not> ch_closed (ln_receiver l) \<and> \<not> ch_closed (ln_sender l)
    \<and> (\<forall>raw \<in> set (ln_back l). sendWindow (ln_sender l) + credit raw \<le> CHANNEL_WINDOW_BYTES)
    \<and> (ln_wire l = [] \<and> ln_back l = [] \<and> ln_handed l = 0 \<and> ch_pendingData (ln_receiver l) = []
        \<longrightarrow> sendWindow (ln_sender l) > CHANNEL_WINDOW_BYTES div 2)"
proof -
  have inv: "link_inv l" using link_inv_reachable [OF assms(1) link_inv_new [OF assms(2)]] .
  have "credit raw \<le> sum_list (map credit (ln_back l))" if "raw \<in> set (ln_back l)" for raw
    using that by (auto intro!: member_le_sum_list)
  with inv show ?thesis
    by (fastforce simp: link_inv_def link_total_def sendWindow_def channel_wf_def window_consts)
qed

theorem window_credit_conserved_witness:
  "\<exists>l. link_step\<^sup>*\<^sup>* (new_link 3) l \<and> ln_wire l \<noteq> [] \<and> link_total l = CHANNEL_WINDOW_BYTES"
proof -
  obtain raw where raw: "encodeData 3 [7, 8] = Some raw" "payload raw = [7, 8]"
    using data_frame_out [of 3 "[7, 8]"] by auto
  let ?l = "(new_link 3)\<lparr>ln_sender := (new_channel 3 CHANNEL_WINDOW_BYTES)\<lparr>ch_sendWindowBytes :=
      CHANNEL_WINDOW_BYTES - 2\<rparr>, ln_wire := ln_wire (new_link 3) @ frames_out [SendFrame (Some raw)]\<rparr>"
  have "link_step (new_link 3) ?l"
    by (rule link_step.transmit [of "[7, 8]"])
      (simp add: new_link_def new_channel_def channel_send_def raw window_consts)
  then have reach: "link_step\<^sup>*\<^sup>* (new_link 3) ?l" by (rule r_into_rtranclp)
  moreover have "ln_wire ?l \<noteq> []" by simp
  ultimately show ?thesis using window_credit_conserved [OF reach] by auto
qed

end
