(* ===== verification/MuxConnection.thy ===== *)
theory MuxConnection
  imports MuxChannel "HOL-Library.Multiset"
begin

section \<open>A multiplexed connection\<close>

text \<open>
  \<open>createMuxConnection\<close> of \<open>src/services/ssh-agent-mux.ts\<close>. The closure's variables are the record
  \<open>mux\<close>. Channel objects live in a store (\<open>mx_objs\<close>, by creation order) and the \<open>channels\<close> map
  refers to them, because callers keep a channel object after its id has been freed and reused.
  Promises are the tokens the callers of \<open>openChannel\<close> pass; what the code does towards the socket,
  the listeners and the promises is the log \<open>mx_out\<close>.
  The WebSocket is the parameter: its \<open>readyState\<close> changes by inputs of its own, and the value of
  \<open>bufferedAmount\<close> at the n-th reading is the function \<open>cf_buffered\<close>. A listener's own calls are
  later inputs. An exception (\<open>mx_threw\<close>) stops the rest of the operation.
\<close>

subsection \<open>State\<close>

datatype ready_state = Connecting | SockOpen | Closing | SockClosed

datatype close_reason = SendBufferExceeded nat | SocketClosedReason | SocketErrorReason | PongTimeoutReason | LocalCloseReason

datatype mux_error =
    AlreadyClosed | PreviewCapReached | StreamCapReached | LocalCapReached | OpenAborted | SlotTimeout
  | ClosedWhileWaiting | ClosedWhilePending | NoOpenReply nat | MuxPeerRefusedError nat
  | AllocatorExhausted | EncodeRangeError | ChannelError channel_error

datatype mux_out =
    WsSend "byte list" | WsSwallow "byte list" | WsTerminate | WsClose
  | OpenCalled nat | Resolve nat nat | Reject nat mux_error | OpenThrew nat
  | OnWaiting nat | SlotAcquired nat
  | OnChannel nat nat | OnClosed nat close_reason | OnPong nat int
  | ChannelOut channel_effect

record slot_waiter =
  w_promise :: nat
  w_stream :: bool
  w_preview :: bool

record open_options =
  oo_stream :: bool
  oo_preview :: bool
  oo_waitTimeoutMs :: "int option"
  oo_aborted :: bool

record mux_options =
  mo_maxChannels :: "nat option"
  mo_maxStreamChannels :: "nat option"
  mo_maxPreviewChannels :: "nat option"
  mo_even :: bool
  mo_maxBufferedBytes :: "nat option"

record mux_config =
  cf_maxChannels :: nat
  cf_maxStreamChannels :: nat
  cf_maxPreviewChannels :: nat
  cf_startChannelId :: nat
  cf_maxBufferedBytes :: "nat option"
  cf_buffered :: "nat \<Rightarrow> nat"

record mux =
  mx_objs :: "channel list"
  mx_channels :: "(nat, nat) jsmap"
  mx_pendingOpens :: "(nat, nat) jsmap"
  mx_streamIds :: "nat list"
  mx_previewIds :: "nat list"
  mx_nextChannelId :: nat
  mx_closed :: bool
  mx_pingTimer :: bool
  mx_pongTimeoutTimer :: bool
  mx_slotWaiters :: "slot_waiter list"
  mx_channelListeners :: nat
  mx_closeListeners :: nat
  mx_pongListeners :: nat
  mx_socket :: ready_state
  mx_reads :: nat
  mx_out :: "mux_out list"
  mx_threw :: "mux_error option"

definition mux_config_of :: "mux_options \<Rightarrow> (nat \<Rightarrow> nat) \<Rightarrow> mux_config" where
  "mux_config_of opts buffered =
     (let maxChannels = (case mo_maxChannels opts of Some n \<Rightarrow> n | None \<Rightarrow> DEFAULT_MAX_CHANNELS);
          maxStream = min (case mo_maxStreamChannels opts of Some n \<Rightarrow> n | None \<Rightarrow> maxChannels) maxChannels;
          maxPreview = min (case mo_maxPreviewChannels opts of Some n \<Rightarrow> n | None \<Rightarrow> maxStream) maxStream
      in \<lparr>cf_maxChannels = maxChannels, cf_maxStreamChannels = maxStream, cf_maxPreviewChannels = maxPreview,
          cf_startChannelId = (if mo_even opts then 2 else 1), cf_maxBufferedBytes = mo_maxBufferedBytes opts,
          cf_buffered = buffered\<rparr>)"

definition new_mux :: "mux_config \<Rightarrow> mux" where
  "new_mux cf =
    \<lparr>mx_objs = [], mx_channels = [], mx_pendingOpens = [], mx_streamIds = [], mx_previewIds = [],
     mx_nextChannelId = cf_startChannelId cf, mx_closed = False, mx_pingTimer = True,
     mx_pongTimeoutTimer = False, mx_slotWaiters = [], mx_channelListeners = 0, mx_closeListeners = 0,
     mx_pongListeners = 0, mx_socket = SockOpen, mx_reads = 0, mx_out = [], mx_threw = None\<rparr>"

subsection \<open>Helpers of the closure\<close>

definition emits :: "mux_out list \<Rightarrow> mux \<Rightarrow> mux" where
  "emits os m = m\<lparr>mx_out := mx_out m @ os\<rparr>"

text \<open>The rest of an operation runs only if nothing was thrown.\<close>

definition unless_threw :: "(mux \<Rightarrow> mux) \<Rightarrow> mux \<Rightarrow> mux" where
  "unless_threw f m = (if mx_threw m = None then f m else m)"

definition openChannelCount :: "mux \<Rightarrow> nat" where
  "openChannelCount m = jm_size (mx_channels m) + jm_size (mx_pendingOpens m)"

definition streamsInUse :: "mux \<Rightarrow> nat" where
  "streamsInUse m = length (mx_streamIds m) + length (filter w_stream (mx_slotWaiters m))"

definition previewsInUse :: "mux \<Rightarrow> nat" where
  "previewsInUse m = length (mx_previewIds m) + length (filter w_preview (mx_slotWaiters m))"

definition forgetStream :: "nat \<Rightarrow> mux \<Rightarrow> mux" where
  "forgetStream cid m = m\<lparr>mx_streamIds := removeAll cid (mx_streamIds m), mx_previewIds := removeAll cid (mx_previewIds m)\<rparr>"

text \<open>\<open>closeLocally\<close> on each channel of a snapshot of \<open>channels.values()\<close>.\<close>

fun closeLocally_all :: "nat list \<Rightarrow> mux \<Rightarrow> mux" where
  "closeLocally_all [] m = m"
| "closeLocally_all (k # ks) m =
     (case channel_closeLocally (mx_objs m ! k) of (ch, es) \<Rightarrow>
        closeLocally_all ks (emits (map ChannelOut es) (m\<lparr>mx_objs := (mx_objs m)[k := ch]\<rparr>)))"

definition reject_waiters :: "mux \<Rightarrow> mux" where
  "reject_waiters m = emits (map (\<lambda>w. Reject (w_promise w) ClosedWhileWaiting) (mx_slotWaiters m))
     (m\<lparr>mx_slotWaiters := []\<rparr>)"

definition teardown :: "close_reason \<Rightarrow> mux \<Rightarrow> mux" where
  "teardown reason m =
     (if mx_closed m then m
      else
        let m1 = reject_waiters (m\<lparr>mx_closed := True, mx_pingTimer := False, mx_pongTimeoutTimer := False\<rparr>);
            m2 = emits (map (\<lambda>p. Reject p ClosedWhilePending) (jm_values (mx_pendingOpens m1)))
                   (m1\<lparr>mx_pendingOpens := [], mx_streamIds := [], mx_previewIds := []\<rparr>);
            m3 = (closeLocally_all (jm_values (mx_channels m2)) m2)\<lparr>mx_channels := []\<rparr>
        in emits (map (\<lambda>i. OnClosed i reason) [0..<mx_closeListeners m3]) m3)"

definition socket_terminate :: "mux \<Rightarrow> mux" where
  "socket_terminate m = emits [WsTerminate] (m\<lparr>mx_socket := (if mx_socket m = SockClosed then SockClosed else Closing)\<rparr>)"

definition sendFrame :: "mux_config \<Rightarrow> byte list option \<Rightarrow> mux \<Rightarrow> mux" where
  "sendFrame cf frame m =
     (case frame of None \<Rightarrow> m\<lparr>mx_threw := Some EncodeRangeError\<rparr>
      | Some f \<Rightarrow>
          if mx_socket m \<noteq> SockOpen then emits [WsSwallow f] m
          else (case cf_maxBufferedBytes cf of
                  None \<Rightarrow> emits [WsSend f] m
                | Some limit \<Rightarrow>
                    let amount = cf_buffered cf (mx_reads m); m' = m\<lparr>mx_reads := Suc (mx_reads m)\<rparr> in
                    if amount > limit
                    then socket_terminate (teardown (SendBufferExceeded limit) (emits [WsSwallow f] m'))
                    else emits [WsSend f] m'))"

definition combinedOccupiedIds :: "mux \<Rightarrow> nat list" where
  "combinedOccupiedIds m = jm_keys (mx_channels m) @ jm_keys (mx_pendingOpens m)"

definition allocateChannelId :: "mux_config \<Rightarrow> mux \<Rightarrow> (nat \<times> mux) option" where
  "allocateChannelId cf m =
     (case pickFreeChannelId (combinedOccupiedIds m) (mx_nextChannelId m) (cf_maxChannels cf) of
        None \<Rightarrow> None
      | Some cid \<Rightarrow> Some (cid, m\<lparr>mx_nextChannelId := (if cid \<ge> 0xfffffffe then cf_startChannelId cf else cid + 2)\<rparr>))"

text \<open>The part of \<open>openChannel\<close> after the caps: take an id, remember the promise, ask the peer.\<close>

definition open_now :: "mux_config \<Rightarrow> nat \<Rightarrow> bool \<Rightarrow> bool \<Rightarrow> mux \<Rightarrow> mux" where
  "open_now cf p stream preview m =
     (case allocateChannelId cf m of
        None \<Rightarrow> emits [OpenThrew p] (m\<lparr>mx_threw := Some AllocatorExhausted\<rparr>)
      | Some (cid, m1) \<Rightarrow>
          sendFrame cf (encodeHeader FOpen cid)
            (m1\<lparr>mx_streamIds := (if stream then List.insert cid (mx_streamIds m1) else mx_streamIds m1),
                mx_previewIds := (if preview then List.insert cid (mx_previewIds m1) else mx_previewIds m1),
                mx_pendingOpens := jm_set cid p (mx_pendingOpens m1)\<rparr>))"

definition open_body :: "mux_config \<Rightarrow> nat \<Rightarrow> open_options \<Rightarrow> mux \<Rightarrow> mux" where
  "open_body cf p opts m =
     (let preview = oo_preview opts; stream = (oo_stream opts \<or> oo_preview opts) in
      if mx_closed m then emits [Reject p AlreadyClosed] m
      else if preview \<and> previewsInUse m \<ge> cf_maxPreviewChannels cf then emits [Reject p PreviewCapReached] m
      else if stream \<and> streamsInUse m \<ge> cf_maxStreamChannels cf then emits [Reject p StreamCapReached] m
      else if openChannelCount m \<ge> cf_maxChannels cf then
        (case oo_waitTimeoutMs opts of
           None \<Rightarrow> emits [Reject p LocalCapReached] m
         | Some t \<Rightarrow>
             if t \<le> 0 then emits [Reject p LocalCapReached] m
             else if oo_aborted opts then emits [Reject p OpenAborted] m
             else emits [OnWaiting p]
               (m\<lparr>mx_slotWaiters := mx_slotWaiters m @ [\<lparr>w_promise = p, w_stream = stream, w_preview = preview\<rparr>]\<rparr>))
      else open_now cf p stream preview m)"

definition openChannel :: "mux_config \<Rightarrow> nat \<Rightarrow> open_options \<Rightarrow> mux \<Rightarrow> mux" where
  "openChannel cf p opts m = open_body cf p opts (emits [OpenCalled p] m)"

text \<open>A granted waiter opens again with its flags only, for the same promise.\<close>

definition proceed :: "mux_config \<Rightarrow> slot_waiter \<Rightarrow> mux \<Rightarrow> mux" where
  "proceed cf w m = open_body cf (w_promise w)
     \<lparr>oo_stream = w_stream w, oo_preview = w_preview w, oo_waitTimeoutMs = None, oo_aborted = False\<rparr>
     (emits [SlotAcquired (w_promise w)] m)"

lemma emits_simps [simp]:
  "mx_objs (emits os m) = mx_objs m" "mx_channels (emits os m) = mx_channels m"
  "mx_pendingOpens (emits os m) = mx_pendingOpens m" "mx_streamIds (emits os m) = mx_streamIds m"
  "mx_previewIds (emits os m) = mx_previewIds m" "mx_nextChannelId (emits os m) = mx_nextChannelId m"
  "mx_closed (emits os m) = mx_closed m" "mx_slotWaiters (emits os m) = mx_slotWaiters m"
  "mx_pingTimer (emits os m) = mx_pingTimer m" "mx_pongTimeoutTimer (emits os m) = mx_pongTimeoutTimer m"
  "mx_closeListeners (emits os m) = mx_closeListeners m" "mx_socket (emits os m) = mx_socket m"
  "mx_threw (emits os m) = mx_threw m" "mx_out (emits os m) = mx_out m @ os"
  by (simp_all add: emits_def)

lemma closeLocally_all_simps [simp]:
  "mx_channels (closeLocally_all ks m) = mx_channels m" "mx_slotWaiters (closeLocally_all ks m) = mx_slotWaiters m"
  "mx_pendingOpens (closeLocally_all ks m) = mx_pendingOpens m" "mx_closed (closeLocally_all ks m) = mx_closed m"
  "mx_streamIds (closeLocally_all ks m) = mx_streamIds m" "mx_previewIds (closeLocally_all ks m) = mx_previewIds m"
  "mx_nextChannelId (closeLocally_all ks m) = mx_nextChannelId m" "mx_threw (closeLocally_all ks m) = mx_threw m"
  "mx_socket (closeLocally_all ks m) = mx_socket m"
  by (induction ks arbitrary: m) (simp_all add: split_beta)

lemma teardown_fields [simp]:
  "mx_slotWaiters (teardown r m) = (if mx_closed m then mx_slotWaiters m else [])"
  "mx_channels (teardown r m) = (if mx_closed m then mx_channels m else [])"
  "mx_pendingOpens (teardown r m) = (if mx_closed m then mx_pendingOpens m else [])"
  "mx_streamIds (teardown r m) = (if mx_closed m then mx_streamIds m else [])"
  "mx_previewIds (teardown r m) = (if mx_closed m then mx_previewIds m else [])"
  "mx_closed (teardown r m) = True" "mx_nextChannelId (teardown r m) = mx_nextChannelId m"
  "mx_threw (teardown r m) = mx_threw m"
  by (simp_all add: teardown_def reject_waiters_def Let_def)

lemma waiters_sendFrame: "length (mx_slotWaiters (sendFrame cf f m)) \<le> length (mx_slotWaiters m)"
  by (simp add: sendFrame_def socket_terminate_def Let_def split: option.splits)

lemma waiters_proceed: "length (mx_slotWaiters (proceed cf w m)) \<le> length (mx_slotWaiters m)"
  unfolding proceed_def open_body_def open_now_def allocateChannelId_def
  by (auto simp: Let_def split: option.splits intro: order_trans [OF waiters_sendFrame])

function drain_waiters :: "mux_config \<Rightarrow> mux \<Rightarrow> mux" where
  "drain_waiters cf m =
     (case mx_slotWaiters m of
        [] \<Rightarrow> m
      | next # rest \<Rightarrow>
          if openChannelCount m < cf_maxChannels cf
          then let m' = proceed cf next (m\<lparr>mx_slotWaiters := rest\<rparr>)
               in if mx_threw m' = None then drain_waiters cf m' else m'
          else m)"
  by pat_completeness auto
termination
proof (relation "measure (\<lambda>(cf, m). length (mx_slotWaiters m))")
  show "((cf, y), cf, m) \<in> measure (\<lambda>(cf, m). length (mx_slotWaiters m))"
    if "mx_slotWaiters m = x # rest" and "y = proceed cf x (m\<lparr>mx_slotWaiters := rest\<rparr>)" for cf m x rest y
    using that waiters_proceed [of cf x "m\<lparr>mx_slotWaiters := rest\<rparr>"] by simp
qed auto

declare drain_waiters.simps [simp del]


definition drainSlotWaiters :: "mux_config \<Rightarrow> mux \<Rightarrow> mux" where
  "drainSlotWaiters cf m = (if mx_closed m then m else drain_waiters cf m)"

definition removeChannel :: "mux_config \<Rightarrow> nat \<Rightarrow> mux \<Rightarrow> mux" where
  "removeChannel cf cid m =
     drainSlotWaiters cf (forgetStream cid (m\<lparr>mx_channels := jm_delete cid (mx_channels m)\<rparr>))"

subsection \<open>Channel calls and incoming frames\<close>

fun run_effect :: "mux_config \<Rightarrow> channel_effect \<Rightarrow> mux \<Rightarrow> mux" where
  "run_effect cf (SendFrame f) m = sendFrame cf f m"
| "run_effect cf (LocalClose cid) m = removeChannel cf cid m"
| "run_effect cf e m = emits [ChannelOut e] m"

fun run_effects :: "mux_config \<Rightarrow> channel_effect list \<Rightarrow> mux \<Rightarrow> mux" where
  "run_effects cf [] m = m"
| "run_effects cf (e # es) m = unless_threw (run_effects cf es) (run_effect cf e m)"

text \<open>An operation on the channel object \<open>k\<close>, its effects carried out by the connection.\<close>

definition obj_do :: "mux_config \<Rightarrow> channel_op \<Rightarrow> nat \<Rightarrow> mux \<Rightarrow> mux" where
  "obj_do cf op k m =
     (case channel_do op (mx_objs m ! k) of (ch, es) \<Rightarrow> run_effects cf es (m\<lparr>mx_objs := (mx_objs m)[k := ch]\<rparr>))"

text \<open>A caller's use of a channel object: \<open>send\<close> throws on a closed channel or an exhausted window.\<close>

definition channel_call :: "mux_config \<Rightarrow> nat \<Rightarrow> channel_op \<Rightarrow> mux \<Rightarrow> mux" where
  "channel_call cf k op m =
     (case op of
        OpSend chunk \<Rightarrow> (case channel_send chunk (mx_objs m ! k) of
            Inl e \<Rightarrow> m\<lparr>mx_threw := Some (ChannelError e)\<rparr>
          | Inr _ \<Rightarrow> obj_do cf op k m)
      | _ \<Rightarrow> obj_do cf op k m)"

text \<open>\<open>new ChannelImpl(...)\<close> entered in \<open>channels\<close>.\<close>

definition add_channel :: "nat \<Rightarrow> mux \<Rightarrow> mux" where
  "add_channel cid m = m\<lparr>mx_objs := mx_objs m @ [new_channel cid CHANNEL_WINDOW_BYTES],
     mx_channels := jm_set cid (length (mx_objs m)) (mx_channels m)\<rparr>"

definition handle_open :: "mux_config \<Rightarrow> nat \<Rightarrow> mux \<Rightarrow> mux" where
  "handle_open cf cid m =
     (if openChannelCount m \<ge> cf_maxChannels cf then sendFrame cf (encodeHeader FOpenFail cid) m
      else if jm_has (mx_channels m) cid \<or> jm_has (mx_pendingOpens m) cid
      then sendFrame cf (encodeHeader FOpenFail cid) m
      else unless_threw (\<lambda>m'. emits (map (\<lambda>i. OnChannel i (length (mx_objs m))) [0..<mx_channelListeners m']) m')
             (sendFrame cf (encodeHeader FOpenAck cid) (add_channel cid m)))"

definition handle_openAck :: "nat \<Rightarrow> mux \<Rightarrow> mux" where
  "handle_openAck cid m =
     (case jm_get (mx_pendingOpens m) cid of
        None \<Rightarrow> m
      | Some p \<Rightarrow> emits [Resolve p (length (mx_objs m))]
          (add_channel cid (m\<lparr>mx_pendingOpens := jm_delete cid (mx_pendingOpens m)\<rparr>)))"

text \<open>A pending open that fails: refused by the peer, or never answered.\<close>

definition fail_open :: "mux_config \<Rightarrow> nat \<Rightarrow> mux_error \<Rightarrow> nat \<Rightarrow> mux \<Rightarrow> mux" where
  "fail_open cf p err cid m =
     drainSlotWaiters cf (emits [Reject p err]
       (forgetStream cid (m\<lparr>mx_pendingOpens := jm_delete cid (mx_pendingOpens m)\<rparr>)))"

definition handle_openFail :: "mux_config \<Rightarrow> nat \<Rightarrow> mux \<Rightarrow> mux" where
  "handle_openFail cf cid m =
     (case jm_get (mx_pendingOpens m) cid of
        None \<Rightarrow> m
      | Some p \<Rightarrow> fail_open cf p (MuxPeerRefusedError cid) cid m)"

definition handle_close :: "mux_config \<Rightarrow> nat \<Rightarrow> nat \<Rightarrow> mux \<Rightarrow> mux" where
  "handle_close cf cid k m =
     unless_threw (drainSlotWaiters cf)
       (obj_do cf OpCloseLocally k (forgetStream cid (m\<lparr>mx_channels := jm_delete cid (mx_channels m)\<rparr>)))"

definition dispatch_frame :: "mux_config \<Rightarrow> int \<Rightarrow> parsed_frame \<Rightarrow> mux \<Rightarrow> mux" where
  "dispatch_frame cf now frame m =
     (let scoped = (\<lambda>cid f. case jm_get (mx_channels m) cid of None \<Rightarrow> m | Some k \<Rightarrow> f k) in
      case frame of
        Header FPing _ \<Rightarrow> sendFrame cf (encodeHeader FPong 0) m
      | Header FPong _ \<Rightarrow> emits (map (\<lambda>i. OnPong i now) [0..<mx_pongListeners m]) (m\<lparr>mx_pongTimeoutTimer := False\<rparr>)
      | Header FOpen cid \<Rightarrow> handle_open cf cid m
      | Header FOpenAck cid \<Rightarrow> handle_openAck cid m
      | Header FOpenFail cid \<Rightarrow> handle_openFail cf cid m
      | Data cid bytes \<Rightarrow> scoped cid (\<lambda>k. obj_do cf (OpData bytes) k m)
      | WindowAdjust cid n \<Rightarrow> scoped cid (\<lambda>k. obj_do cf (OpAdjust n) k m)
      | Header FEof cid \<Rightarrow> scoped cid (\<lambda>k. obj_do cf OpHandleEof k m)
      | Header FClose cid \<Rightarrow> scoped cid (\<lambda>k. handle_close cf cid k m)
      | Header _ _ \<Rightarrow> m)"

datatype raw_data = RawBuffer "byte list" | RawFragments "byte list list" | RawArrayBuffer "byte list"

fun raw_toBuffer :: "raw_data \<Rightarrow> byte list" where
  "raw_toBuffer (RawBuffer b) = b"
| "raw_toBuffer (RawFragments bs) = concat bs"
| "raw_toBuffer (RawArrayBuffer b) = b"

definition handleMessage :: "mux_config \<Rightarrow> raw_data \<Rightarrow> bool \<Rightarrow> int \<Rightarrow> mux \<Rightarrow> mux" where
  "handleMessage cf data isBinary now m =
     (if \<not> isBinary then m
      else case decodeFrame (raw_toBuffer data) of None \<Rightarrow> m | Some frame \<Rightarrow> dispatch_frame cf now frame m)"

subsection \<open>Timers and the connection's own close\<close>

definition ping_tick :: "mux_config \<Rightarrow> mux \<Rightarrow> mux" where
  "ping_tick cf m =
     (if \<not> mx_pingTimer m \<or> mx_socket m \<noteq> SockOpen then m
      else unless_threw (\<lambda>m'. m'\<lparr>mx_pongTimeoutTimer := True\<rparr>) (sendFrame cf (encodeHeader FPing 0) m))"

definition pong_timeout :: "mux \<Rightarrow> mux" where
  "pong_timeout m =
     (if mx_pongTimeoutTimer m
      then teardown PongTimeoutReason (socket_terminate (m\<lparr>mx_pongTimeoutTimer := False\<rparr>)) else m)"

definition open_ack_timeout :: "mux_config \<Rightarrow> nat \<Rightarrow> nat \<Rightarrow> mux \<Rightarrow> mux" where
  "open_ack_timeout cf cid p m =
     (if jm_get (mx_pendingOpens m) cid = Some p then fail_open cf p (NoOpenReply cid) cid m else m)"

text \<open>The timer of a queued open, or its abort signal: the waiter leaves the queue and is rejected.\<close>

definition leave_queue :: "nat \<Rightarrow> mux_error \<Rightarrow> mux \<Rightarrow> mux" where
  "leave_queue p err m =
     (case List.extract (\<lambda>w. w_promise w = p) (mx_slotWaiters m) of
        None \<Rightarrow> m
      | Some (before, _, after) \<Rightarrow> emits [Reject p err] (m\<lparr>mx_slotWaiters := before @ after\<rparr>))"

fun close_all :: "mux_config \<Rightarrow> nat list \<Rightarrow> mux \<Rightarrow> mux" where
  "close_all cf [] m = m"
| "close_all cf (k # ks) m = unless_threw (close_all cf ks) (obj_do cf OpClose k m)"

definition socket_close :: "mux \<Rightarrow> mux" where
  "socket_close m =
     (if mx_socket m = SockOpen \<or> mx_socket m = Connecting then emits [WsClose] (m\<lparr>mx_socket := Closing\<rparr>) else m)"

definition mux_close :: "mux_config \<Rightarrow> mux \<Rightarrow> mux" where
  "mux_close cf m =
     (if mx_closed m then m
      else let m1 = reject_waiters m in
        unless_threw (\<lambda>m2. teardown LocalCloseReason (socket_close m2))
          (close_all cf (jm_values (mx_channels m1)) m1))"

subsection \<open>The connection as a machine\<close>

datatype mux_input =
    CallOpen nat open_options | CallChannel nat channel_op | CallClose
  | CallOnChannel | CallOnClose | CallOnPong
  | Message raw_data bool int | SocketState ready_state | SocketCloseEvent | SocketErrorEvent
  | PingTick | PongTimeout | OpenAckTimeout nat nat | WaiterTimeout nat | WaiterAbort nat

text \<open>The operations of the \<open>MuxChannel\<close> interface; the others are the connection's own.\<close>

definition public_op :: "channel_op \<Rightarrow> bool" where
  "public_op op = (case op of OpSend _ \<Rightarrow> True | OpEof \<Rightarrow> True | OpClose \<Rightarrow> True | OpOnData \<Rightarrow> True
     | OpOnEof \<Rightarrow> True | OpOnClose \<Rightarrow> True | OpOnDrain \<Rightarrow> True | OpAck _ \<Rightarrow> True | _ \<Rightarrow> False)"

fun mux_input_step :: "mux_config \<Rightarrow> mux \<Rightarrow> mux_input \<Rightarrow> mux" where
  "mux_input_step cf m (CallOpen p opts) = openChannel cf p opts m"
| "mux_input_step cf m (CallChannel k op) =
     (if public_op op \<and> k < length (mx_objs m) then channel_call cf k op m else m)"
| "mux_input_step cf m CallClose = mux_close cf m"
| "mux_input_step cf m CallOnChannel = m\<lparr>mx_channelListeners := Suc (mx_channelListeners m)\<rparr>"
| "mux_input_step cf m CallOnClose = m\<lparr>mx_closeListeners := Suc (mx_closeListeners m)\<rparr>"
| "mux_input_step cf m CallOnPong = m\<lparr>mx_pongListeners := Suc (mx_pongListeners m)\<rparr>"
| "mux_input_step cf m (Message data isBinary now) = handleMessage cf data isBinary now m"
| "mux_input_step cf m (SocketState s) = m\<lparr>mx_socket := s\<rparr>"
| "mux_input_step cf m SocketCloseEvent = teardown SocketClosedReason m"
| "mux_input_step cf m SocketErrorEvent = teardown SocketErrorReason m"
| "mux_input_step cf m PingTick = ping_tick cf m"
| "mux_input_step cf m PongTimeout = pong_timeout m"
| "mux_input_step cf m (OpenAckTimeout cid p) = open_ack_timeout cf cid p m"
| "mux_input_step cf m (WaiterTimeout p) = leave_queue p SlotTimeout m"
| "mux_input_step cf m (WaiterAbort p) = leave_queue p OpenAborted m"

text \<open>Each input is a fresh turn of the event loop: an exception of the last one is gone.\<close>

definition mux_step :: "mux_config \<Rightarrow> mux \<Rightarrow> mux_input \<Rightarrow> mux" where
  "mux_step cf m i = mux_input_step cf (m\<lparr>mx_threw := None\<rparr>) i"

definition mux_run :: "mux_config \<Rightarrow> mux_input list \<Rightarrow> mux" where
  "mux_run cf is = foldl (mux_step cf) (new_mux cf) is"

end
