(* ===== verification/MuxSafety.thy ===== *)
theory MuxSafety
  imports MuxConnection
begin

section \<open>Invariants of a multiplexed connection\<close>

text \<open>
  The invariant of \<open>createMuxConnection\<close>'s variables and its preservation by every input
  (\<open>mux_step\<close>): the maps are disjoint and within the caps, every stream slot in use belongs to a
  live id, the \<open>channels\<close> map refers to exactly the open channel objects, and ids have the
  connection's parity. The object that is in the middle of \<open>close()\<close> (closed already, not yet
  removed from the map) is the parameter \<open>x\<close> of \<open>heap_inv\<close>.
\<close>

subsection \<open>The invariant\<close>

definition obj_ok :: "channel \<Rightarrow> bool" where
  "obj_ok ch \<longleftrightarrow> channel_wf ch \<and> ch_maxSendWindow ch = CHANNEL_WINDOW_BYTES \<and> ch_id ch < 4294967296"

definition ids_inv :: "mux_config \<Rightarrow> mux \<Rightarrow> bool" where
  "ids_inv cf m \<longleftrightarrow> jm_wf (mx_channels m) \<and> jm_wf (mx_pendingOpens m)
     \<and> set (jm_keys (mx_channels m)) \<inter> set (jm_keys (mx_pendingOpens m)) = {}
     \<and> (\<forall>c \<in> set (jm_keys (mx_pendingOpens m)). c < 4294967296 \<and> c mod 2 = cf_startChannelId cf mod 2)
     \<and> mx_nextChannelId m < 4294967296 \<and> mx_nextChannelId m mod 2 = cf_startChannelId cf mod 2"

definition caps_inv :: "mux_config \<Rightarrow> mux \<Rightarrow> bool" where
  "caps_inv cf m \<longleftrightarrow> openChannelCount m \<le> cf_maxChannels cf
     \<and> streamsInUse m \<le> cf_maxStreamChannels cf \<and> previewsInUse m \<le> cf_maxPreviewChannels cf
     \<and> distinct (mx_streamIds m) \<and> distinct (mx_previewIds m) \<and> set (mx_previewIds m) \<subseteq> set (mx_streamIds m)
     \<and> set (mx_streamIds m) \<subseteq> set (jm_keys (mx_channels m)) \<union> set (jm_keys (mx_pendingOpens m))
     \<and> (\<forall>w \<in> set (mx_slotWaiters m). w_preview w \<longrightarrow> w_stream w)
     \<and> (mx_closed m \<longrightarrow> mx_slotWaiters m = [] \<and> mx_pendingOpens m = [])"

definition heap_inv :: "nat option \<Rightarrow> mux \<Rightarrow> bool" where
  "heap_inv x m \<longleftrightarrow> (\<forall>ch \<in> set (mx_objs m). obj_ok ch)
     \<and> (\<forall>k < length (mx_objs m). \<not> ch_closed (mx_objs m ! k) \<longrightarrow> jm_get (mx_channels m) (ch_id (mx_objs m ! k)) = Some k)
     \<and> (\<forall>c k. jm_get (mx_channels m) c = Some k \<longrightarrow> k < length (mx_objs m) \<and> ch_id (mx_objs m ! k) = c
          \<and> (\<not> ch_closed (mx_objs m ! k) \<or> x = Some k))
     \<and> (\<forall>k. x = Some k \<longrightarrow> k < length (mx_objs m) \<and> ch_closed (mx_objs m ! k)
          \<and> jm_get (mx_channels m) (ch_id (mx_objs m ! k)) \<in> {None, Some k})"

lemma heap_invI:
  assumes "\<And>ch. ch \<in> set (mx_objs m) \<Longrightarrow> obj_ok ch"
    and "\<And>k. k < length (mx_objs m) \<Longrightarrow> \<not> ch_closed (mx_objs m ! k)
      \<Longrightarrow> jm_get (mx_channels m) (ch_id (mx_objs m ! k)) = Some k"
    and "\<And>c k. jm_get (mx_channels m) c = Some k \<Longrightarrow> k < length (mx_objs m) \<and> ch_id (mx_objs m ! k) = c
      \<and> (\<not> ch_closed (mx_objs m ! k) \<or> x = Some k)"
    and "\<And>k. x = Some k \<Longrightarrow> k < length (mx_objs m) \<and> ch_closed (mx_objs m ! k)
      \<and> jm_get (mx_channels m) (ch_id (mx_objs m ! k)) \<in> {None, Some k}"
  shows "heap_inv x m"
  unfolding heap_inv_def by (intro conjI allI ballI impI assms)

lemma heap_ok: "heap_inv x m \<Longrightarrow> ch \<in> set (mx_objs m) \<Longrightarrow> obj_ok ch"
  unfolding heap_inv_def by blast

lemma heap_open: "heap_inv x m \<Longrightarrow> k < length (mx_objs m) \<Longrightarrow> \<not> ch_closed (mx_objs m ! k)
    \<Longrightarrow> jm_get (mx_channels m) (ch_id (mx_objs m ! k)) = Some k"
  unfolding heap_inv_def by blast

lemma heap_mapped: "heap_inv x m \<Longrightarrow> jm_get (mx_channels m) c = Some k \<Longrightarrow> k < length (mx_objs m)
    \<and> ch_id (mx_objs m ! k) = c \<and> (\<not> ch_closed (mx_objs m ! k) \<or> x = Some k)"
  unfolding heap_inv_def by blast

lemma heap_closing: "heap_inv (Some k) m \<Longrightarrow> k < length (mx_objs m) \<and> ch_closed (mx_objs m ! k)
    \<and> jm_get (mx_channels m) (ch_id (mx_objs m ! k)) \<in> {None, Some k}"
  unfolding heap_inv_def by blast

lemma heap_cong: "mx_objs m' = mx_objs m \<Longrightarrow> mx_channels m' = mx_channels m \<Longrightarrow> heap_inv x m' = heap_inv x m"
  unfolding heap_inv_def by (simp only:)

definition mux_inv :: "mux_config \<Rightarrow> nat option \<Rightarrow> mux \<Rightarrow> bool" where
  "mux_inv cf x m \<longleftrightarrow> ids_inv cf m \<and> caps_inv cf m \<and> heap_inv x m"

definition config_ok :: "mux_config \<Rightarrow> bool" where
  "config_ok cf \<longleftrightarrow> cf_startChannelId cf \<in> {1, 2}"

lemma config_ok_of: "config_ok (mux_config_of opts buffered)"
  by (simp add: config_ok_def mux_config_of_def Let_def)

lemma mux_inv_new: "config_ok cf \<Longrightarrow> mux_inv cf None (new_mux cf)"
  by (auto simp: mux_inv_def ids_inv_def caps_inv_def heap_inv_def new_mux_def config_ok_def
      openChannelCount_def streamsInUse_def previewsInUse_def jm_size_def jm_keys_def)

text \<open>The invariant does not look at the log, the timers, the listeners or the socket.\<close>

lemma same_inv:
  assumes "mx_objs m' = mx_objs m" "mx_channels m' = mx_channels m" "mx_pendingOpens m' = mx_pendingOpens m"
    "mx_streamIds m' = mx_streamIds m" "mx_previewIds m' = mx_previewIds m"
    "mx_nextChannelId m' = mx_nextChannelId m" "mx_closed m' = mx_closed m" "mx_slotWaiters m' = mx_slotWaiters m"
  shows "mux_inv cf x m' = mux_inv cf x m"
  using assms heap_cong [of m' m x] by (simp add: mux_inv_def ids_inv_def caps_inv_def openChannelCount_def
      streamsInUse_def previewsInUse_def)

lemma inv_emits [simp]: "mux_inv cf x (emits os m) = mux_inv cf x m"
  by (rule same_inv) simp_all

lemma inv_noise [simp]:
  "mux_inv cf x (m\<lparr>mx_threw := e\<rparr>) = mux_inv cf x m" "mux_inv cf x (m\<lparr>mx_reads := n\<rparr>) = mux_inv cf x m"
  "mux_inv cf x (m\<lparr>mx_socket := s\<rparr>) = mux_inv cf x m" "mux_inv cf x (m\<lparr>mx_pongTimeoutTimer := b\<rparr>) = mux_inv cf x m"
  "mux_inv cf x (m\<lparr>mx_channelListeners := n\<rparr>) = mux_inv cf x m" "mux_inv cf x (m\<lparr>mx_closeListeners := n\<rparr>) = mux_inv cf x m"
  "mux_inv cf x (m\<lparr>mx_pongListeners := n\<rparr>) = mux_inv cf x m"
  by (rule same_inv; simp)+

subsection \<open>Tearing down\<close>

lemma nth_update: "j < length xs \<Longrightarrow> xs[k := x] ! j = (if j = k then x else xs ! j)"
  by (cases "j = k") auto

lemma closeLocally_all_objs:
  "length (mx_objs (closeLocally_all ks m)) = length (mx_objs m)
   \<and> (\<forall>j < length (mx_objs m).
        ch_id (mx_objs (closeLocally_all ks m) ! j) = ch_id (mx_objs m ! j)
      \<and> (ch_closed (mx_objs (closeLocally_all ks m) ! j) \<longleftrightarrow> ch_closed (mx_objs m ! j) \<or> j \<in> set ks)
      \<and> (obj_ok (mx_objs m ! j) \<longrightarrow> obj_ok (mx_objs (closeLocally_all ks m) ! j)))"
proof (induction ks arbitrary: m)
  case (Cons k ks)
  obtain ch es where c: "channel_closeLocally (mx_objs m ! k) = (ch, es)" by fastforce
  then have ch: "ch_closed ch" "ch_id ch = ch_id (mx_objs m ! k)" "obj_ok (mx_objs m ! k) \<longrightarrow> obj_ok ch"
    by (auto simp: channel_closeLocally_def obj_ok_def channel_wf_def split: if_splits)
  let ?m = "emits (map ChannelOut es) (m\<lparr>mx_objs := (mx_objs m)[k := ch]\<rparr>)"
  have eq: "closeLocally_all (k # ks) m = closeLocally_all ks ?m" using c by simp
  show ?case unfolding eq using Cons.IH [of ?m] ch by (auto simp: nth_update)
qed simp

lemma teardown_objs:
  assumes "\<not> mx_closed m"
  shows "mx_objs (teardown r m) = mx_objs (closeLocally_all (jm_values (mx_channels m)) m)"
proof -
  have eq: "mx_objs (closeLocally_all ks a) = mx_objs (closeLocally_all ks b)" if "mx_objs a = mx_objs b" for ks a b
    using that by (induction ks arbitrary: a b) (simp_all add: split_beta)
  show ?thesis
    using assms by (simp add: teardown_def Let_def reject_waiters_def) (rule eq, simp)
qed

lemma get_in_values: "jm_get c i = Some k \<Longrightarrow> k \<in> set (jm_values c)"
  by (auto simp: jm_get_def jm_values_def dest!: map_of_SomeD intro: rev_image_eqI)

lemma inv_teardown:
  assumes "mux_inv cf x m"
  shows "mux_inv cf x (teardown r m)"
proof (cases "mx_closed m")
  case True
  then show ?thesis using assms by (simp add: teardown_def)
next
  case False
  let ?m = "teardown r m"
  have heap: "heap_inv x m" using assms by (simp add: mux_inv_def)
  note objs = closeLocally_all_objs [of "jm_values (mx_channels m)" m, folded teardown_objs [OF False, of r]]
  have closed: "ch_closed (mx_objs ?m ! k)" if "k < length (mx_objs m)" for k
  proof (cases "ch_closed (mx_objs m ! k)")
    case False
    then have "k \<in> set (jm_values (mx_channels m))" by (rule get_in_values [OF heap_open [OF heap that]])
    with objs that show ?thesis by simp
  qed (use objs that in blast)
  have len: "length (mx_objs ?m) = length (mx_objs m)" using objs by blast
  have "obj_ok (mx_objs ?m ! k)" if "k < length (mx_objs m)" for k
    using objs that heap_ok [OF heap, of "mx_objs m ! k"] by simp
  then have "heap_inv x ?m"
    using closed heap_closing False heap by (intro heap_invI) (auto simp: len in_set_conv_nth)
  then show ?thesis
    using assms False by (simp add: mux_inv_def ids_inv_def caps_inv_def openChannelCount_def streamsInUse_def
        previewsInUse_def jm_size_def jm_keys_def)
qed

lemma inv_socket_terminate [simp]: "mux_inv cf x (socket_terminate m) = mux_inv cf x m"
  by (simp add: socket_terminate_def)

lemma inv_sendFrame: "mux_inv cf x m \<Longrightarrow> mux_inv cf x (sendFrame cf f m)"
  by (auto simp: sendFrame_def Let_def inv_teardown split: option.splits)

lemma socket_terminate_fields [simp]:
  "mx_threw (socket_terminate m) = mx_threw m" "mx_objs (socket_terminate m) = mx_objs m"
  "mx_closed (socket_terminate m) = mx_closed m" "mx_slotWaiters (socket_terminate m) = mx_slotWaiters m"
  "mx_channels (socket_terminate m) = mx_channels m" "mx_pendingOpens (socket_terminate m) = mx_pendingOpens m"
  by (simp_all add: socket_terminate_def)

lemma sendFrame_threw [simp]: "mx_threw (sendFrame cf (Some f) m) = mx_threw m"
  by (simp add: sendFrame_def Let_def split: option.splits)

lemma encodeHeader_Some: "c < 4294967296 \<Longrightarrow> \<exists>f. encodeHeader t c = Some f"
  by (simp add: encodeHeader_def write_u32be_def)

subsection \<open>Opening\<close>

lemma allocate_fresh:
  assumes "allocateChannelId cf m = Some (cid, m')" and "ids_inv cf m" and "config_ok cf"
  shows "cid \<notin> set (jm_keys (mx_channels m)) \<and> cid \<notin> set (jm_keys (mx_pendingOpens m)) \<and> cid < 4294967296
    \<and> cid mod 2 = cf_startChannelId cf mod 2 \<and> (\<exists>n < 4294967296. n mod 2 = cf_startChannelId cf mod 2
        \<and> m' = m\<lparr>mx_nextChannelId := n\<rparr>)"
proof -
  have "pick_loop (combinedOccupiedIds m) (mx_nextChannelId m) (cf_maxChannels cf) 0 (mx_nextChannelId m) = Some cid"
    and m': "m' = m\<lparr>mx_nextChannelId := (if cid \<ge> 0xfffffffe then cf_startChannelId cf else cid + 2)\<rparr>"
    using assms(1) by (auto simp: allocateChannelId_def pickFreeChannelId_def split: option.splits)
  from pick_loop_sound [OF this(1)] assms(2)
  have c: "cid \<notin> set (combinedOccupiedIds m)" "cid mod 2 = cf_startChannelId cf mod 2" "cid < 4294967296"
    by (auto simp: ids_inv_def)
  have "\<exists>n < 4294967296. n mod 2 = cf_startChannelId cf mod 2 \<and> m' = m\<lparr>mx_nextChannelId := n\<rparr>"
    using c(2,3) assms(3) m' by (intro exI [of _ "mx_nextChannelId m'"]) (auto simp: config_ok_def)
  with c show ?thesis by (simp add: combinedOccupiedIds_def)
qed

lemma inv_open_now:
  assumes inv: "mux_inv cf None m" and cf: "config_ok cf" and "\<not> mx_closed m"
    and room: "openChannelCount m < cf_maxChannels cf" "stream \<longrightarrow> streamsInUse m < cf_maxStreamChannels cf"
      "preview \<longrightarrow> previewsInUse m < cf_maxPreviewChannels cf" "preview \<longrightarrow> stream"
  shows "mux_inv cf None (open_now cf p stream preview m)"
proof (cases "allocateChannelId cf m")
  case None
  then show ?thesis using inv by (simp add: open_now_def)
next
  case (Some r)
  obtain cid m1 where r: "r = (cid, m1)" by fastforce
  obtain n where n: "cid \<notin> set (jm_keys (mx_channels m))" "cid \<notin> set (jm_keys (mx_pendingOpens m))"
    "cid < 4294967296" "cid mod 2 = cf_startChannelId cf mod 2" "n < 4294967296"
    "n mod 2 = cf_startChannelId cf mod 2" "m1 = m\<lparr>mx_nextChannelId := n\<rparr>"
    using allocate_fresh [of cf m cid m1] inv cf Some r by (auto simp: mux_inv_def)
  have new: "cid \<notin> set (mx_streamIds m)" "cid \<notin> set (mx_previewIds m)"
    using n(1,2) inv by (auto simp: mux_inv_def caps_inv_def)
  let ?m = "m1\<lparr>mx_streamIds := (if stream then List.insert cid (mx_streamIds m1) else mx_streamIds m1),
                mx_previewIds := (if preview then List.insert cid (mx_previewIds m1) else mx_previewIds m1),
                mx_pendingOpens := jm_set cid p (mx_pendingOpens m1)\<rparr>"
  have "ids_inv cf ?m"
    using inv n by (auto simp: mux_inv_def ids_inv_def jm.keys_put jm.wf_put)
  moreover have "caps_inv cf ?m"
    using inv n new room assms(3)
    by (auto simp: mux_inv_def caps_inv_def jm.keys_put openChannelCount_def streamsInUse_def
        previewsInUse_def jm_size_keys List.insert_def)
  moreover have "heap_inv None ?m" using inv n(7) heap_cong [of ?m m None] by (simp add: mux_inv_def)
  ultimately have "mux_inv cf None ?m" unfolding mux_inv_def by blast
  then have "mux_inv cf None (sendFrame cf (encodeHeader FOpen cid) ?m)" by (rule inv_sendFrame)
  then show ?thesis unfolding open_now_def Some r by (simp only: option.case prod.case)
qed

lemma inv_open_body:
  assumes "mux_inv cf None m" and "config_ok cf"
  shows "mux_inv cf None (open_body cf p opts m)"
proof -
  have wait: "mux_inv cf None (m\<lparr>mx_slotWaiters := mx_slotWaiters m @ [\<lparr>w_promise = p, w_stream = s, w_preview = v\<rparr>]\<rparr>)"
    if "\<not> mx_closed m" "v \<longrightarrow> s" "s \<longrightarrow> streamsInUse m < cf_maxStreamChannels cf" "v \<longrightarrow> previewsInUse m < cf_maxPreviewChannels cf"
    for s v
    using that assms(1) heap_cong [of "m\<lparr>mx_slotWaiters := mx_slotWaiters m @ [\<lparr>w_promise = p, w_stream = s, w_preview = v\<rparr>]\<rparr>" m None]
    by (auto simp: mux_inv_def ids_inv_def caps_inv_def openChannelCount_def streamsInUse_def previewsInUse_def)
  show ?thesis
    using assms unfolding open_body_def Let_def
    by (auto split: option.splits intro!: wait inv_open_now)
qed

text \<open>A waiter that gets its slot leaves the queue first: its own place makes room under the caps.\<close>

lemma inv_fewer_waiters:
  assumes "mux_inv cf x m" and "set ws \<subseteq> set (mx_slotWaiters m)"
    and "length (filter w_stream ws) \<le> length (filter w_stream (mx_slotWaiters m))"
    and "length (filter w_preview ws) \<le> length (filter w_preview (mx_slotWaiters m))"
  shows "mux_inv cf x (m\<lparr>mx_slotWaiters := ws\<rparr>)"
proof -
  have "caps_inv cf (m\<lparr>mx_slotWaiters := ws\<rparr>)"
    using assms by (auto simp: mux_inv_def caps_inv_def openChannelCount_def streamsInUse_def previewsInUse_def)
  then show ?thesis
    using assms(1) heap_cong [of "m\<lparr>mx_slotWaiters := ws\<rparr>" m x] by (simp add: mux_inv_def ids_inv_def)
qed

lemma inv_shift:
  assumes "mux_inv cf None m" and "mx_slotWaiters m = w # rest"
  shows "mux_inv cf None (m\<lparr>mx_slotWaiters := rest\<rparr>)"
  by (rule inv_fewer_waiters [OF assms(1)]) (auto simp: assms(2))

lemma inv_drain_waiters: "mux_inv cf None m \<Longrightarrow> config_ok cf \<Longrightarrow> mux_inv cf None (drain_waiters cf m)"
proof (induction cf m rule: drain_waiters.induct)
  case (1 cf m)
  show ?case
  proof (cases "mx_slotWaiters m")
    case Nil
    then show ?thesis using "1.prems" by (simp add: drain_waiters.simps)
  next
    case (Cons w rest)
    have "mux_inv cf None (proceed cf w (m\<lparr>mx_slotWaiters := rest\<rparr>))"
      unfolding proceed_def by (intro inv_open_body) (simp_all add: inv_shift [OF "1.prems"(1) Cons] "1.prems")
    with "1.IH" [OF Cons] "1.prems" Cons show ?thesis by (simp add: drain_waiters.simps [of cf m] Let_def)
  qed
qed

lemma inv_drainSlotWaiters: "mux_inv cf None m \<Longrightarrow> config_ok cf \<Longrightarrow> mux_inv cf None (drainSlotWaiters cf m)"
  by (simp add: drainSlotWaiters_def inv_drain_waiters)

subsection \<open>Channel operations\<close>

fun is_LocalClose :: "channel_effect \<Rightarrow> bool" where
  "is_LocalClose (LocalClose _) \<longleftrightarrow> True"
| "is_LocalClose _ \<longleftrightarrow> False"

lemma inv_run_effects:
  "mux_inv cf x m \<Longrightarrow> list_all (\<lambda>e. \<not> is_LocalClose e) es \<Longrightarrow> mux_inv cf x (run_effects cf es m)"
proof (induction es arbitrary: m)
  case (Cons e es)
  have "mux_inv cf x (run_effect cf e m)" using Cons.prems by (cases e) (auto simp: inv_sendFrame)
  with Cons show ?case by (simp add: unless_threw_def)
qed simp

text \<open>Writing an object back that is no more closed than before.\<close>

lemma inv_update_obj:
  assumes "mux_inv cf None m" and "obj_ok ch" and "ch_id ch = ch_id (mx_objs m ! k)"
    and "ch_closed ch = ch_closed (mx_objs m ! k)" and "k < length (mx_objs m)"
  shows "mux_inv cf None (m\<lparr>mx_objs := (mx_objs m)[k := ch]\<rparr>)"
proof -
  have heap: "heap_inv None m" using assms(1) by (simp add: mux_inv_def)
  have "heap_inv None (m\<lparr>mx_objs := (mx_objs m)[k := ch]\<rparr>)"
    using assms(2-5) heap_ok [OF heap] heap_open [OF heap] heap_mapped [OF heap]
    by (intro heap_invI) (auto simp: nth_update dest!: set_update_subset_insert [THEN subsetD])
  then show ?thesis using assms(1)
    by (simp add: mux_inv_def ids_inv_def caps_inv_def openChannelCount_def streamsInUse_def previewsInUse_def)
qed

text \<open>An id that leaves the maps leaves the stream sets with it.\<close>

lemma caps_forget:
  assumes "caps_inv cf m" and "openChannelCount m1 \<le> openChannelCount m"
    and "set (jm_keys (mx_channels m)) \<union> set (jm_keys (mx_pendingOpens m))
      \<subseteq> insert cid (set (jm_keys (mx_channels m1)) \<union> set (jm_keys (mx_pendingOpens m1)))"
    and "mx_streamIds m1 = mx_streamIds m" "mx_previewIds m1 = mx_previewIds m"
      "mx_slotWaiters m1 = mx_slotWaiters m" "mx_closed m1 = mx_closed m" "mx_closed m \<longrightarrow> mx_pendingOpens m1 = []"
  shows "caps_inv cf (forgetStream cid m1)"
proof -
  have len: "length (removeAll cid xs) + n \<le> b" if "length xs + n \<le> b" for xs :: "nat list" and n b
    using that length_removeAll_less_eq [of cid xs] by linarith
  have count: "openChannelCount (forgetStream cid m1) = openChannelCount m1"
    by (simp add: forgetStream_def openChannelCount_def)
  have "streamsInUse (forgetStream cid m1) \<le> cf_maxStreamChannels cf"
    "previewsInUse (forgetStream cid m1) \<le> cf_maxPreviewChannels cf"
    using assms(1,4-6) by (auto simp: caps_inv_def forgetStream_def streamsInUse_def previewsInUse_def intro!: len)
  with assms count show ?thesis unfolding caps_inv_def forgetStream_def by (auto simp: distinct_removeAll)
qed

lemma inv_remove:
  assumes "mux_inv cf (Some k) m" and "ch_id (mx_objs m ! k) = cid"
  shows "mux_inv cf None (forgetStream cid (m\<lparr>mx_channels := jm_delete cid (mx_channels m)\<rparr>))"
proof -
  let ?m = "forgetStream cid (m\<lparr>mx_channels := jm_delete cid (mx_channels m)\<rparr>)"
  have heap: "heap_inv (Some k) m" using assms(1) by (simp add: mux_inv_def)
  have k: "ch_closed (mx_objs m ! k)" "jm_get (mx_channels m) cid \<in> {None, Some k}"
    using heap_closing [OF heap] assms(2) by auto
  have 1: "ch_id (mx_objs m ! j) \<noteq> cid" if "j < length (mx_objs m)" "\<not> ch_closed (mx_objs m ! j)" for j
    using k that heap_open [OF heap that] by auto
  have 2: "\<not> ch_closed (mx_objs m ! j)" if "jm_get (mx_channels m) c = Some j" "c \<noteq> cid" for c j
    using heap_mapped [OF heap that(1)] that(2) assms(2) by auto
  have "heap_inv None ?m"
    using 1 2 heap_ok [OF heap] heap_open [OF heap] heap_mapped [OF heap]
    by (intro heap_invI) (auto simp: forgetStream_def jm.get_delete split: if_splits)
  moreover have "ids_inv cf ?m"
    using assms(1) by (auto simp: mux_inv_def ids_inv_def forgetStream_def jm.keys_delete jm.wf_delete)
  moreover have "caps_inv cf ?m"
    using assms(1) jm.size_delete_le [of cid "mx_channels m"]
    by (intro caps_forget [of cf m]) (auto simp: mux_inv_def openChannelCount_def jm_size_keys jm.keys_delete
        caps_inv_def)
  ultimately show ?thesis by (simp add: mux_inv_def)
qed

lemma sendFrame_objs_id:
  "k < length (mx_objs m) \<Longrightarrow> ch_id (mx_objs (sendFrame cf f m) ! k) = ch_id (mx_objs m ! k)"
proof -
  have "ch_id (mx_objs (teardown r m') ! k) = ch_id (mx_objs m' ! k)" if "k < length (mx_objs m')" for r m'
    using that closeLocally_all_objs [of "jm_values (mx_channels m')" m'] teardown_objs [of m' r]
    by (cases "mx_closed m'") (simp_all add: teardown_def [of r m'])
  moreover assume "k < length (mx_objs m)"
  ultimately show ?thesis by (simp add: sendFrame_def Let_def split: option.splits)
qed

lemma inv_mark_closed:
  assumes inv: "mux_inv cf None m" and k: "k < length (mx_objs m)" "\<not> ch_closed (mx_objs m ! k)"
    and ch: "obj_ok ch" "ch_closed ch" "ch_id ch = ch_id (mx_objs m ! k)"
  shows "mux_inv cf (Some k) (m\<lparr>mx_objs := (mx_objs m)[k := ch]\<rparr>)"
proof -
  have heap: "heap_inv None m" using inv by (simp add: mux_inv_def)
  have "heap_inv (Some k) (m\<lparr>mx_objs := (mx_objs m)[k := ch]\<rparr>)"
    using k ch heap_ok [OF heap] heap_open [OF heap] heap_mapped [OF heap]
    by (intro heap_invI) (auto simp: nth_update dest!: set_update_subset_insert [THEN subsetD])
  then show ?thesis using inv
    by (simp add: mux_inv_def ids_inv_def caps_inv_def openChannelCount_def streamsInUse_def previewsInUse_def)
qed

text \<open>\<open>close()\<close> on an open object: closed, the Close frame sent, then removed from the map.\<close>

lemma closing_decomp:
  assumes inv: "mux_inv cf None m" and cf: "config_ok cf" and "mx_threw m = None"
    and k: "k < length (mx_objs m)" "\<not> ch_closed (mx_objs m ! k)"
    and ch: "channel_close (mx_objs m ! k) = (ch, es)"
  shows "\<exists>m1 es'. mux_inv cf None m1 \<and> mx_threw m1 = None \<and> list_all (\<lambda>e. \<not> is_LocalClose e) es'
    \<and> run_effects cf es (m\<lparr>mx_objs := (mx_objs m)[k := ch]\<rparr>)
      = unless_threw (run_effects cf es') (drainSlotWaiters cf m1)"
proof -
  let ?m = "m\<lparr>mx_objs := (mx_objs m)[k := ch]\<rparr>" and ?c = "ch_id (mx_objs m ! k)"
  have heap: "heap_inv None m" using inv by (simp add: mux_inv_def)
  have ok: "obj_ok (mx_objs m ! k)" using heap_ok [OF heap] k(1) by simp
  then have ch': "obj_ok ch" "ch_closed ch" "ch_id ch = ?c"
    using ch k(2) by (auto simp: channel_close_def obj_ok_def channel_wf_def)
  obtain f where f: "encodeHeader FClose ?c = Some f" using ok encodeHeader_Some by (auto simp: obj_ok_def)
  let ?s = "sendFrame cf (Some f) ?m"
  let ?m1 = "forgetStream ?c (?s\<lparr>mx_channels := jm_delete ?c (mx_channels ?s)\<rparr>)"
  have "ch_id (mx_objs ?s ! k) = ?c" using sendFrame_objs_id [of k ?m] k(1) ch' by simp
  then have "mux_inv cf None ?m1"
    using inv_remove [OF inv_sendFrame [OF inv_mark_closed [OF inv k ch']]] by blast
  moreover have "mx_threw ?m1 = None" using assms(3) by (simp add: forgetStream_def)
  moreover have "list_all (\<lambda>e. \<not> is_LocalClose e) (fire_close (mx_objs m ! k))"
    by (auto simp: fire_close_def list_all_iff)
  moreover have "run_effects cf es ?m = unless_threw (run_effects cf (fire_close (mx_objs m ! k))) (drainSlotWaiters cf ?m1)"
    using ch k(2) assms(3) by (auto simp: channel_close_def f unless_threw_def removeChannel_def)
  ultimately show ?thesis by blast
qed

lemma inv_closing:
  assumes "mux_inv cf None m" and "config_ok cf" and "mx_threw m = None"
    and "k < length (mx_objs m)" "\<not> ch_closed (mx_objs m ! k)"
    and "channel_close (mx_objs m ! k) = (ch, es)"
  shows "mux_inv cf None (run_effects cf es (m\<lparr>mx_objs := (mx_objs m)[k := ch]\<rparr>))"
  using closing_decomp [OF assms] assms(2)
  by (auto simp: unless_threw_def inv_run_effects inv_drainSlotWaiters)

lemma channel_do_kinds:
  assumes "channel_do op ch = (ch', es)" and "op \<noteq> OpCloseLocally"
  shows "channel_close ch = (ch', es) \<and> \<not> ch_closed ch
    \<or> ch_closed ch' = ch_closed ch \<and> list_all (\<lambda>e. \<not> is_LocalClose e) es"
  using assms by (cases op)
    (auto simp: channel_send_def channel_eof_def channel_close_def channel_onData_def channel_onEof_def
      channel_onClose_def channel_onDrain_def handleData_def handleEof_def handleWindowAdjust_def
      acknowledgeConsumed_def fire_close_def Let_def list_all_iff split: if_splits)

lemma obj_ok_do: "obj_ok ch \<Longrightarrow> channel_do op ch = (ch', es) \<Longrightarrow> obj_ok ch' \<and> ch_id ch' = ch_id ch"
  using channel_wf_do [of ch op] channel_do_static [of op ch] by (simp add: obj_ok_def)

lemma inv_obj_do:
  assumes "mux_inv cf None m" and "config_ok cf" and "mx_threw m = None" and "k < length (mx_objs m)"
    and "op \<noteq> OpCloseLocally"
  shows "mux_inv cf None (obj_do cf op k m)"
proof -
  obtain ch es where d: "channel_do op (mx_objs m ! k) = (ch, es)" by fastforce
  have ok: "obj_ok (mx_objs m ! k)" using assms(1,4) heap_ok [of None m] by (simp add: mux_inv_def)
  from channel_do_kinds [OF d assms(5)] show ?thesis
  proof
    assume "channel_close (mx_objs m ! k) = (ch, es) \<and> \<not> ch_closed (mx_objs m ! k)"
    then show ?thesis using inv_closing [OF assms(1-4), of ch es] d by (simp add: obj_do_def)
  next
    assume "ch_closed ch = ch_closed (mx_objs m ! k) \<and> list_all (\<lambda>e. \<not> is_LocalClose e) es"
    then show ?thesis
      using inv_update_obj [OF assms(1), of ch k] obj_ok_do [OF ok d] d assms(4) by (simp add: obj_do_def inv_run_effects)
  qed
qed

subsection \<open>No operation but an accepted open adds an object\<close>

lemma len_teardown [simp]: "length (mx_objs (teardown r m)) = length (mx_objs m)"
  using closeLocally_all_objs [of "jm_values (mx_channels m)" m] teardown_objs [of m r]
  by (cases "mx_closed m") (simp_all add: teardown_def [of r m])

lemma len_sendFrame [simp]: "length (mx_objs (sendFrame cf f m)) = length (mx_objs m)"
  by (simp add: sendFrame_def Let_def split: option.splits)

lemma len_open_now [simp]: "length (mx_objs (open_now cf p s v m)) = length (mx_objs m)"
proof (cases "allocateChannelId cf m")
  case (Some r)
  then obtain cid n where "r = (cid, m\<lparr>mx_nextChannelId := n\<rparr>)"
    by (auto simp: allocateChannelId_def split: option.splits)
  with Some show ?thesis by (simp add: open_now_def)
qed (simp add: open_now_def)

lemma len_open_body [simp]: "length (mx_objs (open_body cf p opts m)) = length (mx_objs m)"
  by (simp add: open_body_def Let_def split: option.splits)

lemma len_drain_waiters [simp]: "length (mx_objs (drain_waiters cf m)) = length (mx_objs m)"
proof (induction cf m rule: drain_waiters.induct)
  case (1 cf m)
  have "length (mx_objs (proceed cf w (m\<lparr>mx_slotWaiters := ws\<rparr>))) = length (mx_objs m)" for w ws
    by (simp add: proceed_def)
  with 1 show ?case
    by (cases "mx_slotWaiters m") (simp_all add: drain_waiters.simps [of cf m] Let_def)
qed

lemma len_removeChannel [simp]: "length (mx_objs (removeChannel cf cid m)) = length (mx_objs m)"
  by (simp add: removeChannel_def drainSlotWaiters_def forgetStream_def)

lemma len_run_effects [simp]: "length (mx_objs (run_effects cf es m)) = length (mx_objs m)"
proof (induction es arbitrary: m)
  case (Cons e es)
  have "length (mx_objs (run_effect cf e m)) = length (mx_objs m)" by (cases e) simp_all
  with Cons show ?case by (simp add: unless_threw_def)
qed simp

lemma len_obj_do [simp]: "length (mx_objs (obj_do cf op k m)) = length (mx_objs m)"
  by (simp add: obj_do_def split_beta)

subsection \<open>Every input keeps the invariant\<close>

lemma new_channel_fields: "ch_id (new_channel c w) = c" "ch_maxSendWindow (new_channel c w) = w"
  "\<not> ch_closed (new_channel c w)"
  by (simp_all add: new_channel_def)

lemma inv_add_channel:
  assumes "ids_inv cf m" and heap: "heap_inv None m" and "caps_inv cf (add_channel cid m)"
    and fresh: "cid \<notin> set (jm_keys (mx_channels m))" "cid \<notin> set (jm_keys (mx_pendingOpens m))" and "cid < 4294967296"
  shows "mux_inv cf None (add_channel cid m)"
proof -
  have ids: "ids_inv cf (add_channel cid m)"
    using assms(1,4,5) by (auto simp: ids_inv_def add_channel_def jm.keys_put jm.wf_put)
  have none: "jm_get (mx_channels m) cid = None" using fresh(1) jm.get_in_keys by fastforce
  have new: "obj_ok (new_channel cid CHANNEL_WINDOW_BYTES)"
    using assms(6) channel_wf_new [of cid CHANNEL_WINDOW_BYTES] unfolding obj_ok_def
    by (simp add: new_channel_fields)
  have "heap_inv None (add_channel cid m)"
  proof (rule heap_invI)
    fix k
    assume k: "k < length (mx_objs (add_channel cid m))" "\<not> ch_closed (mx_objs (add_channel cid m) ! k)"
    show "jm_get (mx_channels (add_channel cid m)) (ch_id (mx_objs (add_channel cid m) ! k)) = Some k"
    proof (cases "k < length (mx_objs m)")
      case True
      then have "jm_get (mx_channels m) (ch_id (mx_objs m ! k)) = Some k"
        using k heap_open [OF heap] by (simp add: add_channel_def nth_append)
      with True none show ?thesis by (auto simp: add_channel_def nth_append jm.get_put)
    next
      case False
      with k(1) have "k = length (mx_objs m)" by (simp add: add_channel_def)
      then show ?thesis by (simp add: add_channel_def jm.get_put new_channel_fields)
    qed
  qed (use new heap_ok [OF heap] heap_mapped [OF heap] in
      \<open>auto simp: add_channel_def nth_append jm.get_put new_channel_fields split: if_splits\<close>)
  with ids assms(3) show ?thesis by (simp add: mux_inv_def)
qed

lemma inv_handle_open:
  assumes "mux_inv cf None m" and "cid < 4294967296"
  shows "mux_inv cf None (handle_open cf cid m)"
proof (cases "openChannelCount m \<ge> cf_maxChannels cf \<or> jm_has (mx_channels m) cid \<or> jm_has (mx_pendingOpens m) cid")
  case True
  then show ?thesis using assms by (auto simp: handle_open_def inv_sendFrame)
next
  case False
  then have fresh: "cid \<notin> set (jm_keys (mx_channels m))" "cid \<notin> set (jm_keys (mx_pendingOpens m))"
    by (simp_all add: jm_has_def jm_keys_def)
  moreover from this have "caps_inv cf (add_channel cid m)"
    using assms(1) False by (auto simp: mux_inv_def caps_inv_def add_channel_def openChannelCount_def
        streamsInUse_def previewsInUse_def jm_size_keys jm.keys_put)
  ultimately have "mux_inv cf None (add_channel cid m)"
    using assms by (intro inv_add_channel) (simp_all add: mux_inv_def)
  then show ?thesis using False by (simp add: handle_open_def unless_threw_def inv_sendFrame)
qed

lemma pending_id: "ids_inv cf m \<Longrightarrow> jm_get (mx_pendingOpens m) cid = Some p
    \<Longrightarrow> cid \<in> set (jm_keys (mx_pendingOpens m)) \<and> cid < 4294967296 \<and> cid \<notin> set (jm_keys (mx_channels m))"
  using jm.get_in_keys [of "mx_pendingOpens m" cid] by (auto simp: ids_inv_def)

lemma inv_handle_openAck:
  assumes "mux_inv cf None m"
  shows "mux_inv cf None (handle_openAck cid m)"
proof (cases "jm_get (mx_pendingOpens m) cid")
  case (Some p)
  let ?m = "m\<lparr>mx_pendingOpens := jm_delete cid (mx_pendingOpens m)\<rparr>"
  have ids: "ids_inv cf m" and heap: "heap_inv None m" using assms by (simp_all add: mux_inv_def)
  note p = pending_id [OF ids Some]
  have open_: "\<not> mx_closed m" using assms Some by (auto simp: mux_inv_def caps_inv_def)
  have "Suc (length (jm_keys (jm_delete cid (mx_pendingOpens m)))) = length (jm_keys (mx_pendingOpens m))"
    using p ids by (intro jm.size_delete_present) (auto simp: ids_inv_def)
  then have "caps_inv cf (add_channel cid ?m)"
    using assms p open_ by (auto simp: mux_inv_def caps_inv_def add_channel_def openChannelCount_def
        streamsInUse_def previewsInUse_def jm_size_keys jm.keys_put jm.keys_delete)
  moreover have "ids_inv cf ?m" using ids by (auto simp: ids_inv_def jm.keys_delete jm.wf_delete)
  moreover have "heap_inv None ?m" using heap heap_cong [of ?m m] by simp
  ultimately have "mux_inv cf None (add_channel cid ?m)"
    using p by (intro inv_add_channel) (simp_all add: jm.keys_delete)
  then show ?thesis using Some by (simp add: handle_openAck_def)
qed (simp add: handle_openAck_def assms)

lemma jm_delete_Nil: "jm_delete c [] = []"
  by (simp add: jm_delete_def)

lemma inv_forget_pending:
  assumes "mux_inv cf None m"
  shows "mux_inv cf None (forgetStream cid (m\<lparr>mx_pendingOpens := jm_delete cid (mx_pendingOpens m)\<rparr>))"
proof -
  let ?m = "m\<lparr>mx_pendingOpens := jm_delete cid (mx_pendingOpens m)\<rparr>"
  have "caps_inv cf (forgetStream cid ?m)"
    using assms(1) jm.size_delete_le [of cid "mx_pendingOpens m"]
    by (intro caps_forget [of cf m]) (auto simp: mux_inv_def openChannelCount_def jm_size_keys jm.keys_delete
        caps_inv_def jm_delete_Nil)
  moreover have "ids_inv cf (forgetStream cid ?m)"
    using assms(1) by (auto simp: mux_inv_def ids_inv_def forgetStream_def jm.keys_delete jm.wf_delete)
  moreover have "heap_inv None (forgetStream cid ?m)"
    using assms(1) heap_cong [of "forgetStream cid ?m" m] by (simp add: mux_inv_def forgetStream_def)
  ultimately show ?thesis by (simp add: mux_inv_def)
qed

lemma inv_fail_open: "mux_inv cf None m \<Longrightarrow> config_ok cf \<Longrightarrow> mux_inv cf None (fail_open cf p err cid m)"
  unfolding fail_open_def by (intro inv_drainSlotWaiters) (simp_all add: inv_forget_pending)

lemma inv_before_drain:
  assumes inv: "mux_inv cf None m" and k: "jm_get (mx_channels m) cid = Some k"
  shows "mux_inv cf None (obj_do cf OpCloseLocally k (forgetStream cid (m\<lparr>mx_channels := jm_delete cid (mx_channels m)\<rparr>)))"
proof -
  have heap: "heap_inv None m" using inv by (simp add: mux_inv_def)
  note mk = heap_mapped [OF heap k]
  obtain ch es where d: "channel_closeLocally (mx_objs m ! k) = (ch, es)" by fastforce
  have ch: "obj_ok ch" "ch_closed ch" "ch_id ch = cid" "list_all (\<lambda>e. \<not> is_LocalClose e) es"
    using d mk heap_ok [OF heap, of "mx_objs m ! k"]
    by (auto simp: channel_closeLocally_def obj_ok_def channel_wf_def fire_close_def list_all_iff split: if_splits)
  let ?m = "m\<lparr>mx_objs := (mx_objs m)[k := ch]\<rparr>"
  have "mux_inv cf (Some k) ?m" using mk ch by (intro inv_mark_closed [OF inv]) auto
  then have "mux_inv cf None (forgetStream cid (?m\<lparr>mx_channels := jm_delete cid (mx_channels ?m)\<rparr>))"
    using mk ch(3) by (intro inv_remove) (auto simp: nth_update)
  then have "mux_inv cf None (run_effects cf es (forgetStream cid (?m\<lparr>mx_channels := jm_delete cid (mx_channels ?m)\<rparr>)))"
    using ch(4) by (rule inv_run_effects)
  moreover have swap: "forgetStream cid (?m\<lparr>mx_channels := jm_delete cid (mx_channels ?m)\<rparr>)
      = (forgetStream cid (m\<lparr>mx_channels := jm_delete cid (mx_channels m)\<rparr>))\<lparr>mx_objs := (mx_objs m)[k := ch]\<rparr>"
    by (simp add: forgetStream_def)
  ultimately show ?thesis using d by (simp add: obj_do_def) (simp add: forgetStream_def)
qed

lemma inv_handle_close:
  assumes "mux_inv cf None m" and "config_ok cf" and "jm_get (mx_channels m) cid = Some k"
  shows "mux_inv cf None (handle_close cf cid k m)"
  using inv_before_drain [OF assms(1,3)] assms(2) by (simp add: handle_close_def unless_threw_def inv_drainSlotWaiters)

lemma inv_dispatch_frame:
  assumes inv: "mux_inv cf None m" and cf: "config_ok cf" and "mx_threw m = None" and "frame_wf f"
  shows "mux_inv cf None (dispatch_frame cf now f m)"
proof -
  have obj: "mux_inv cf None (obj_do cf op k m)" if "jm_get (mx_channels m) c = Some k" "op \<noteq> OpCloseLocally" for c k op
    using that heap_mapped [of None m c k] inv cf assms(3) by (intro inv_obj_do) (auto simp: mux_inv_def)
  show ?thesis
  proof (cases f)
    case (Header t c)
    then have "c < 4294967296" using assms(4) by simp
    with Header inv cf show ?thesis
      by (cases t) (auto simp: dispatch_frame_def inv_sendFrame inv_handle_open inv_handle_openAck
          handle_openFail_def inv_fail_open inv_handle_close obj split: option.splits)
  qed (use inv obj in \<open>auto simp: dispatch_frame_def split: option.splits\<close>)
qed

lemma inv_close_all:
  "mux_inv cf None m \<Longrightarrow> config_ok cf \<Longrightarrow> mx_threw m = None \<Longrightarrow> \<forall>k \<in> set ks. k < length (mx_objs m)
    \<Longrightarrow> mux_inv cf None (close_all cf ks m)"
proof (induction ks arbitrary: m)
  case (Cons k ks)
  have "mux_inv cf None (obj_do cf OpClose k m)" using Cons.prems by (intro inv_obj_do) simp_all
  with Cons show ?case by (simp add: unless_threw_def)
qed simp

lemma inv_reject_waiters: "mux_inv cf x m \<Longrightarrow> mux_inv cf x (reject_waiters m)"
  by (simp add: reject_waiters_def inv_fewer_waiters)

lemma mapped_objects:
  assumes "mux_inv cf None m"
  shows "\<forall>k \<in> set (jm_values (mx_channels m)). k < length (mx_objs m)"
proof
  fix k
  assume "k \<in> set (jm_values (mx_channels m))"
  then obtain c where "(c, k) \<in> set (mx_channels m)" by (auto simp: jm_values_def)
  then have "jm_get (mx_channels m) c = Some k" using assms
    by (simp add: mux_inv_def ids_inv_def jm_wf_def jm_get_def)
  then show "k < length (mx_objs m)" using heap_mapped [of None m c k] assms by (simp add: mux_inv_def)
qed

lemma inv_mux_close:
  assumes "mux_inv cf None m" and "config_ok cf" and "mx_threw m = None"
  shows "mux_inv cf None (mux_close cf m)"
proof -
  have "mux_inv cf None (close_all cf (jm_values (mx_channels m)) (reject_waiters m))"
    using assms mapped_objects [OF assms(1)]
    by (intro inv_close_all inv_reject_waiters) (simp_all add: reject_waiters_def)
  then show ?thesis
    using assms(1) by (simp add: mux_close_def unless_threw_def socket_close_def inv_teardown reject_waiters_def Let_def)
qed

lemma inv_leave_queue:
  assumes "mux_inv cf None m"
  shows "mux_inv cf None (leave_queue p err m)"
proof (cases "List.extract (\<lambda>w. w_promise w = p) (mx_slotWaiters m)")
  case (Some r)
  obtain a w b where r: "r = (a, w, b)" by (metis prod_cases3)
  with Some have "mx_slotWaiters m = a @ w # b" by (simp add: extract_Some_iff)
  then have "mux_inv cf None (m\<lparr>mx_slotWaiters := a @ b\<rparr>)" by (intro inv_fewer_waiters [OF assms]) auto
  with Some r show ?thesis by (simp add: leave_queue_def)
qed (simp add: leave_queue_def assms)

lemma inv_step:
  assumes "mux_inv cf None m" and cf: "config_ok cf"
  shows "mux_inv cf None (mux_step cf m i)"
proof -
  let ?m = "m\<lparr>mx_threw := None\<rparr>"
  have inv: "mux_inv cf None ?m" using assms by simp
  show ?thesis
  proof (cases i)
    case (CallChannel k op)
    with inv_obj_do [OF inv cf] inv show ?thesis
      by (cases op) (auto simp: mux_step_def channel_call_def public_op_def split: sum.splits)
  next
    case (Message data isBinary now)
    with inv_dispatch_frame [OF inv cf] encode_decode inv show ?thesis
      by (auto simp: mux_step_def handleMessage_def split: option.splits)
  qed (use inv cf in \<open>auto simp: mux_step_def openChannel_def inv_open_body inv_mux_close inv_teardown ping_tick_def
      unless_threw_def inv_sendFrame pong_timeout_def open_ack_timeout_def inv_fail_open inv_leave_queue\<close>)
qed

text \<open>The connection as a step machine: the invariant holds after every sequence of inputs.\<close>

interpretation mux_machine: step_machine "mux_step cf" "\<lambda>_. True" "\<lambda>m. config_ok cf \<and> mux_inv cf None m" for cf
  by unfold_locales (auto intro: inv_step)

lemma mux_inv_run: "config_ok cf \<Longrightarrow> mux_inv cf None (mux_run cf is)"
  using mux_machine.inv_run [of cf "new_mux cf" "is"] mux_inv_new [of cf] by (simp add: mux_run_def list_all_iff)

end
