(* ===== verification/MuxPromises.thy ===== *)
theory MuxPromises
  imports MuxSafety
begin

section \<open>Opens settle exactly once, and no queued open starves\<close>

text \<open>
  Three facts about \<open>openChannel\<close> over whole runs of a connection. Every promise is accounted for:
  it is resolved or rejected in the log, or it waits for the peer's reply, or it waits for a slot, or
  the id allocator threw while it was handled, and exactly one of these once. An open for which the
  allocator threw (\<open>OpenThrew\<close>) is never settled: thrown at the call there is no promise, and thrown
  while the slot queue is drained the exception leaves \<open>drainSlotWaiters\<close> and the queued promise stays
  pending. The allocator does not throw while the calls made so far cannot have used up the 32-bit id
  space. And the queue is drained: a queued open waits only while the connection is full.
\<close>

subsection \<open>Promise accounting\<close>

fun called :: "mux_out list \<Rightarrow> nat list" where
  "called [] = []"
| "called (OpenCalled p # os) = p # called os"
| "called (_ # os) = called os"

fun settled :: "mux_out list \<Rightarrow> nat list" where
  "settled [] = []"
| "settled (Resolve p _ # os) = p # settled os"
| "settled (Reject p _ # os) = p # settled os"
| "settled (_ # os) = settled os"

text \<open>The opens for which the id allocator threw.\<close>

fun thrown :: "mux_out list \<Rightarrow> nat list" where
  "thrown [] = []"
| "thrown (OpenThrew p # os) = p # thrown os"
| "thrown (_ # os) = thrown os"

definition outstanding :: "mux \<Rightarrow> nat list" where
  "outstanding m = map w_promise (mx_slotWaiters m) @ jm_values (mx_pendingOpens m)"

text \<open>The opens called are the settled, the thrown, the outstanding and those in \<open>debt\<close>, being handled now.\<close>

definition balanced :: "nat multiset \<Rightarrow> mux \<Rightarrow> bool" where
  "balanced debt m \<longleftrightarrow> mset (called (mx_out m)) = mset (settled (mx_out m)) + mset (thrown (mx_out m)) + mset (outstanding m) + debt"

lemma called_append [simp]: "called (xs @ ys) = called xs @ called ys"
  by (induction xs rule: called.induct) auto

lemma settled_append [simp]: "settled (xs @ ys) = settled xs @ settled ys"
  by (induction xs rule: settled.induct) auto

lemma thrown_append [simp]: "thrown (xs @ ys) = thrown xs @ thrown ys"
  by (induction xs rule: thrown.induct) auto

lemma log_channel [simp]:
  "called (map ChannelOut es) = []" "settled (map ChannelOut es) = []" "thrown (map ChannelOut es) = []"
  by (induction es; simp)+

lemma log_reject [simp]:
  "called (map (\<lambda>x. Reject (f x) e) xs) = []" "settled (map (\<lambda>x. Reject (f x) e) xs) = map f xs"
  "thrown (map (\<lambda>x. Reject (f x) e) xs) = []"
  by (induction xs; simp)+

lemma log_listeners [simp]:
  "called (map (\<lambda>i. OnClosed i r) ns) = []" "settled (map (\<lambda>i. OnClosed i r) ns) = []"
  "thrown (map (\<lambda>i. OnClosed i r) ns) = []" "thrown (map (\<lambda>i. OnChannel i k) ns) = []" "thrown (map (\<lambda>i. OnPong i t) ns) = []"
  "called (map (\<lambda>i. OnChannel i k) ns) = []" "settled (map (\<lambda>i. OnChannel i k) ns) = []"
  "called (map (\<lambda>i. OnPong i t) ns) = []" "settled (map (\<lambda>i. OnPong i t) ns) = []"
  by (induction ns; simp)+

lemma balanced_same:
  assumes "mx_slotWaiters m' = mx_slotWaiters m" "mx_pendingOpens m' = mx_pendingOpens m"
    "called (mx_out m') = called (mx_out m)" "settled (mx_out m') = settled (mx_out m)" "thrown (mx_out m') = thrown (mx_out m)"
  shows "balanced d m' = balanced d m"
  using assms by (simp add: balanced_def outstanding_def)

lemma balanced_emits [simp]:
  "called os = [] \<Longrightarrow> settled os = [] \<Longrightarrow> thrown os = [] \<Longrightarrow> balanced d (emits os m) = balanced d m"
  by (rule balanced_same) simp_all

lemma log_closeLocally_all [simp]:
  "called (mx_out (closeLocally_all ks m)) = called (mx_out m)"
  "settled (mx_out (closeLocally_all ks m)) = settled (mx_out m)"
  "thrown (mx_out (closeLocally_all ks m)) = thrown (mx_out m)"
  by (induction ks arbitrary: m) (simp_all add: split_beta)

lemma jm_values_Nil [simp]: "jm_values [] = []"
  by (simp add: jm_values_def)

lemma balanced_teardown: "balanced d m \<Longrightarrow> balanced d (teardown r m)"
  using log_reject [where f = "\<lambda>p. p"]
  by (simp add: teardown_def reject_waiters_def Let_def balanced_def outstanding_def ac_simps)

lemma balanced_sendFrame: "balanced d m \<Longrightarrow> balanced d (sendFrame cf f m)"
proof -
  have same: "balanced d (m\<lparr>mx_threw := e\<rparr>) = balanced d m" "balanced d (m\<lparr>mx_reads := n\<rparr>) = balanced d m"
    "balanced d (socket_terminate m) = balanced d m" for m e n
    by (rule balanced_same; simp add: socket_terminate_def)+
  then show "balanced d m \<Longrightarrow> balanced d (sendFrame cf f m)"
    by (auto simp: sendFrame_def Let_def balanced_teardown split: option.splits)
qed

lemma values_set_fresh: "k \<notin> set (jm_keys m) \<Longrightarrow> jm_values (jm_set k v m) = jm_values m @ [v]"
  by (induction m) (auto simp: jm_values_def jm_keys_def jm_set_def)

lemma values_delete:
  "jm_wf m \<Longrightarrow> jm_get m k = Some v \<Longrightarrow> mset (jm_values m) = add_mset v (mset (jm_values (jm_delete k m)))"
proof (induction m)
  case (Cons kv m)
  have absent: "jm_delete k m = m" if "k \<notin> fst ` set m"
    using that by (simp add: jm_delete_def)
  from Cons show ?case
    by (cases kv) (auto simp: jm_defs absent split: if_splits)
qed simp

lemma balanced_open_now:
  assumes "balanced {#p#} m" and "ids_inv cf m" and "config_ok cf"
  shows "balanced {#} (open_now cf p s v m)"
proof (cases "allocateChannelId cf m")
  case None
  then show ?thesis using assms(1) by (simp add: open_now_def balanced_def outstanding_def)
next
  case (Some r)
  obtain cid m1 where r: "r = (cid, m1)" by fastforce
  obtain n where "cid \<notin> set (jm_keys (mx_pendingOpens m))" "m1 = m\<lparr>mx_nextChannelId := n\<rparr>"
    using allocate_fresh [of cf m cid m1] assms(2,3) Some r by auto
  with assms(1) have "balanced {#} (m1\<lparr>mx_streamIds := S, mx_previewIds := V, mx_pendingOpens := jm_set cid p (mx_pendingOpens m1)\<rparr>)"
    for S V by (simp add: balanced_def outstanding_def values_set_fresh)
  then show ?thesis unfolding open_now_def Some r by (simp only: option.case prod.case balanced_sendFrame)
qed

lemma balanced_open_body:
  assumes "balanced {#p#} m" and "ids_inv cf m" and "config_ok cf"
  shows "balanced {#} (open_body cf p opts m)"
  using assms balanced_open_now [OF assms]
  by (auto simp: open_body_def Let_def balanced_def outstanding_def split: option.splits)

lemma ids_same:
  assumes "mx_channels m' = mx_channels m" "mx_pendingOpens m' = mx_pendingOpens m" "mx_nextChannelId m' = mx_nextChannelId m"
  shows "ids_inv cf m' = ids_inv cf m"
  using assms by (simp add: ids_inv_def)

lemma ids_teardown: "ids_inv cf m \<Longrightarrow> ids_inv cf (teardown r m)"
  by (simp add: ids_inv_def jm_keys_def)

lemma ids_sendFrame: "ids_inv cf m \<Longrightarrow> ids_inv cf (sendFrame cf f m)"
proof -
  have same: "ids_inv cf (emits os m) = ids_inv cf m" "ids_inv cf (socket_terminate m) = ids_inv cf m"
    "ids_inv cf (m\<lparr>mx_threw := e\<rparr>) = ids_inv cf m" "ids_inv cf (m\<lparr>mx_reads := n\<rparr>) = ids_inv cf m" for os m e n
    by (rule ids_same; simp add: socket_terminate_def)+
  then show "ids_inv cf m \<Longrightarrow> ids_inv cf (sendFrame cf f m)"
    by (auto simp: sendFrame_def Let_def ids_teardown split: option.splits)
qed

lemma ids_open_now:
  assumes "ids_inv cf m" and "config_ok cf"
  shows "ids_inv cf (open_now cf p s v m)"
proof (cases "allocateChannelId cf m")
  case None
  then show ?thesis using assms(1) by (simp add: open_now_def ids_inv_def)
next
  case (Some r)
  obtain cid m1 where r: "r = (cid, m1)" by fastforce
  note fresh = allocate_fresh [of cf m cid m1, OF _ assms]
  then have "ids_inv cf (m1\<lparr>mx_streamIds := S, mx_previewIds := V, mx_pendingOpens := jm_set cid p (mx_pendingOpens m1)\<rparr>)"
    for S V using Some r assms(1) by (auto simp: ids_inv_def jm.keys_put jm.wf_put)
  then show ?thesis unfolding open_now_def Some r by (simp only: option.case prod.case ids_sendFrame)
qed

lemma ids_open_body: "ids_inv cf m \<Longrightarrow> config_ok cf \<Longrightarrow> ids_inv cf (open_body cf p opts m)"
  using ids_same [of "emits os m" m cf for os] ids_open_now [of cf m]
  by (auto simp: open_body_def Let_def ids_inv_def split: option.splits)

lemma balanced_drain_waiters:
  "balanced {#} m \<Longrightarrow> ids_inv cf m \<Longrightarrow> config_ok cf
    \<Longrightarrow> balanced {#} (drain_waiters cf m) \<and> ids_inv cf (drain_waiters cf m)"
proof (induction cf m rule: drain_waiters.induct)
  case (1 cf m)
  show ?case
  proof (cases "mx_slotWaiters m")
    case Nil
    then show ?thesis using "1.prems" by (simp add: drain_waiters.simps)
  next
    case (Cons w rest)
    let ?m = "emits [SlotAcquired (w_promise w)] (m\<lparr>mx_slotWaiters := rest\<rparr>)"
    have "balanced {#w_promise w#} ?m" using "1.prems"(1) Cons by (simp add: balanced_def outstanding_def)
    moreover have "ids_inv cf ?m" using "1.prems"(2) by (simp add: ids_inv_def)
    ultimately have "balanced {#} (proceed cf w (m\<lparr>mx_slotWaiters := rest\<rparr>))"
      "ids_inv cf (proceed cf w (m\<lparr>mx_slotWaiters := rest\<rparr>))"
      unfolding proceed_def using balanced_open_body ids_open_body "1.prems"(3) by blast+
    with "1.IH" [OF Cons] "1.prems" Cons show ?thesis by (simp add: drain_waiters.simps [of cf m] Let_def)
  qed
qed

definition pm :: "mux_config \<Rightarrow> mux \<Rightarrow> bool" where
  "pm cf m \<longleftrightarrow> balanced {#} m \<and> ids_inv cf m \<and> config_ok cf"

lemma pm_same:
  assumes "mx_slotWaiters m' = mx_slotWaiters m" "mx_pendingOpens m' = mx_pendingOpens m"
    "called (mx_out m') = called (mx_out m)" "settled (mx_out m') = settled (mx_out m)" "thrown (mx_out m') = thrown (mx_out m)"
    "mx_channels m' = mx_channels m" "mx_nextChannelId m' = mx_nextChannelId m"
  shows "pm cf m' = pm cf m"
  using balanced_same [OF assms(1-5)] ids_same [OF assms(6,2,7)] by (simp add: pm_def)

lemma pm_sendFrame: "pm cf m \<Longrightarrow> pm cf (sendFrame cf f m)"
  by (simp add: pm_def balanced_sendFrame ids_sendFrame)

lemma pm_drainSlotWaiters: "pm cf m \<Longrightarrow> pm cf (drainSlotWaiters cf m)"
  using balanced_drain_waiters by (simp add: pm_def drainSlotWaiters_def)

lemma pm_removed: "pm cf m \<Longrightarrow> pm cf (forgetStream cid (m\<lparr>mx_channels := jm_delete cid (mx_channels m)\<rparr>))"
  by (auto simp: pm_def ids_inv_def balanced_def outstanding_def forgetStream_def jm.keys_delete jm.wf_delete)

lemma pm_run_effects: "pm cf m \<Longrightarrow> pm cf (run_effects cf es m)"
proof (induction es arbitrary: m)
  case (Cons e es)
  have "pm cf (run_effect cf e m)"
    using Cons.prems pm_same [of "emits [ChannelOut e] m" m cf]
    by (cases e) (simp_all add: pm_sendFrame removeChannel_def pm_drainSlotWaiters pm_removed)
  with Cons show ?case by (simp add: unless_threw_def)
qed simp

lemma pm_obj_do: "pm cf m \<Longrightarrow> pm cf (obj_do cf op k m)"
  using pm_same [of "m\<lparr>mx_objs := os\<rparr>" m cf for os] by (simp add: obj_do_def split_beta pm_run_effects)

lemma pm_close_all: "pm cf m \<Longrightarrow> pm cf (close_all cf ks m)"
  by (induction ks arbitrary: m) (simp_all add: unless_threw_def pm_obj_do)

lemma balanced_add_channel [simp]: "balanced d (add_channel cid m) = balanced d m"
  by (rule balanced_same) (simp_all add: add_channel_def)

lemma balanced_handle_openAck:
  assumes "balanced {#} m" and "ids_inv cf m"
  shows "balanced {#} (handle_openAck cid m)"
proof (cases "jm_get (mx_pendingOpens m) cid")
  case (Some p)
  with values_delete [of "mx_pendingOpens m" cid p] assms show ?thesis
    by (simp add: handle_openAck_def balanced_def outstanding_def add_channel_def ids_inv_def)
qed (simp add: handle_openAck_def assms)

lemma pm_fail_open:
  assumes "pm cf m" and "jm_get (mx_pendingOpens m) cid = Some p"
  shows "pm cf (fail_open cf p err cid m)"
proof -
  let ?m = "emits [Reject p err] (forgetStream cid (m\<lparr>mx_pendingOpens := jm_delete cid (mx_pendingOpens m)\<rparr>))"
  have "balanced {#} ?m"
    using assms values_delete [of "mx_pendingOpens m" cid p]
    by (simp add: pm_def balanced_def outstanding_def forgetStream_def ids_inv_def)
  moreover have "ids_inv cf ?m"
    using assms(1) by (auto simp: pm_def ids_inv_def forgetStream_def jm.keys_delete jm.wf_delete)
  ultimately have "pm cf ?m" using assms(1) unfolding pm_def by blast
  then show ?thesis unfolding fail_open_def by (rule pm_drainSlotWaiters)
qed

lemma pm_handle_close: "pm cf m \<Longrightarrow> pm cf (handle_close cf cid k m)"
  by (simp add: handle_close_def unless_threw_def pm_drainSlotWaiters pm_obj_do pm_removed)

lemma balanced_leave_queue:
  assumes "balanced {#} m"
  shows "balanced {#} (leave_queue p err m)"
proof (cases "List.extract (\<lambda>w. w_promise w = p) (mx_slotWaiters m)")
  case (Some r)
  obtain a w b where r: "r = (a, w, b)" by (metis prod_cases3)
  with Some have "mx_slotWaiters m = a @ w # b" "w_promise w = p" by (auto simp: extract_Some_iff)
  with Some r assms show ?thesis by (simp add: leave_queue_def balanced_def outstanding_def)
qed (simp add: leave_queue_def assms)

lemma balanced_dispatch_frame:
  assumes "pm cf m"
  shows "balanced {#} (dispatch_frame cf now f m)"
proof -
  have b: "balanced {#} m" and i: "ids_inv cf m" using assms by (simp_all add: pm_def)
  have "balanced {#} (m\<lparr>mx_pongTimeoutTimer := t\<rparr>) = balanced {#} m" for t by (rule balanced_same) simp_all
  moreover have "balanced {#} (handle_open cf c m)" for c
    using b by (simp add: handle_open_def unless_threw_def balanced_sendFrame)
  moreover have "balanced {#} (obj_do cf op k m)" "balanced {#} (handle_close cf c k m)" for op k c
    using pm_obj_do [OF assms] pm_handle_close [OF assms] by (simp_all add: pm_def)
  moreover have "balanced {#} (handle_openFail cf c m)" for c
    using b pm_fail_open [OF assms] by (auto simp: handle_openFail_def pm_def split: option.splits)
  ultimately show ?thesis
    using b balanced_handle_openAck [OF b i]
    by (auto simp: dispatch_frame_def balanced_sendFrame split: parsed_frame.splits frame_tag.splits option.splits)
qed

lemma balanced_step:
  assumes "pm cf m"
  shows "balanced {#} (mux_step cf m i)"
proof -
  let ?m = "m\<lparr>mx_threw := None\<rparr>"
  have pm: "pm cf ?m" using assms pm_same [of ?m m cf] by simp
  then have b: "balanced {#} ?m" and i: "ids_inv cf ?m" and cf: "config_ok cf" by (simp_all add: pm_def)
  have noise: "balanced {#} (m'\<lparr>mx_pongTimeoutTimer := t\<rparr>) = balanced {#} m'"
    "balanced {#} (m'\<lparr>mx_threw := e\<rparr>) = balanced {#} m'" "balanced {#} (m'\<lparr>mx_socket := s\<rparr>) = balanced {#} m'"
    "balanced {#} (m'\<lparr>mx_channelListeners := n\<rparr>) = balanced {#} m'" "balanced {#} (m'\<lparr>mx_closeListeners := n\<rparr>) = balanced {#} m'"
    "balanced {#} (m'\<lparr>mx_pongListeners := n\<rparr>) = balanced {#} m'" "balanced {#} (socket_terminate m') = balanced {#} m'"
    for m' t e s n by (rule balanced_same; simp add: socket_terminate_def)+
  show ?thesis
  proof (cases i)
    case (CallOpen p opts)
    have "balanced {#p#} (emits [OpenCalled p] ?m)" using b by (simp add: balanced_def outstanding_def)
    moreover have "ids_inv cf (emits [OpenCalled p] ?m)" using i by (simp add: ids_inv_def)
    ultimately show ?thesis using CallOpen cf by (simp add: mux_step_def openChannel_def balanced_open_body)
  next
    case (CallChannel k op)
    then show ?thesis using b pm_obj_do [OF pm] noise
      by (auto simp: mux_step_def channel_call_def pm_def split: channel_op.splits sum.splits)
  next
    case (Message data isBinary now)
    then show ?thesis using b balanced_dispatch_frame [OF pm]
      by (auto simp: mux_step_def handleMessage_def split: option.splits)
  next
    case CallClose
    have "balanced {#} (reject_waiters ?m)" using b
      by (simp add: reject_waiters_def balanced_def outstanding_def)
    moreover have "ids_inv cf (reject_waiters ?m)" using i by (simp add: reject_waiters_def ids_inv_def)
    ultimately have "pm cf (close_all cf ks (reject_waiters ?m))" for ks
      using cf by (intro pm_close_all) (simp add: pm_def)
    then show ?thesis using CallClose b noise
      by (simp add: mux_step_def mux_close_def unless_threw_def Let_def pm_def balanced_teardown socket_close_def)
  next
    case (OpenAckTimeout cid p)
    then show ?thesis using b pm_fail_open [OF pm] by (auto simp: mux_step_def open_ack_timeout_def pm_def)
  qed (use b noise in \<open>auto simp: mux_step_def balanced_teardown balanced_leave_queue ping_tick_def pong_timeout_def
      unless_threw_def balanced_sendFrame\<close>)
qed

lemma balanced_run: "config_ok cf \<Longrightarrow> balanced {#} (foldl (mux_step cf) (new_mux cf) is)"
proof (induction "is" rule: rev_induct)
  case (snoc i "is")
  then have "mux_inv cf None (foldl (mux_step cf) (new_mux cf) is)" using mux_inv_run by (simp add: mux_run_def)
  with snoc show ?case by (simp add: balanced_step pm_def mux_inv_def)
qed (simp add: balanced_def new_mux_def outstanding_def)

subsection \<open>The id space lasts\<close>

text \<open>
  An open moves \<open>nextChannelId\<close> by at most \<open>id_step\<close>. So while fewer opens were called than would
  exhaust the 32-bit space, the next id has room for all the calls that have not taken one, the
  queued ones (and the \<open>d\<close> being handled now), and the allocator never threw.
\<close>

definition id_step :: "mux_config \<Rightarrow> nat" where
  "id_step cf = 2 * (cf_maxChannels cf + 1)"

definition ids_last :: "mux_config \<Rightarrow> nat \<Rightarrow> bool" where
  "ids_last cf n \<longleftrightarrow> cf_startChannelId cf + id_step cf * n < 4294967296"

definition id_budget :: "mux_config \<Rightarrow> nat \<Rightarrow> mux \<Rightarrow> bool" where
  "id_budget cf d m \<longleftrightarrow> ids_last cf (length (called (mx_out m))) \<longrightarrow> thrown (mx_out m) = []
     \<and> mx_nextChannelId m + id_step cf * (length (mx_slotWaiters m) + d)
         \<le> cf_startChannelId cf + id_step cf * length (called (mx_out m))"

lemma budget_mono:
  assumes "id_budget cf d m" and "called (mx_out m') = called (mx_out m)" and "thrown (mx_out m') = thrown (mx_out m)"
    and "mx_nextChannelId m' = mx_nextChannelId m" and "length (mx_slotWaiters m') + d' \<le> length (mx_slotWaiters m) + d"
  shows "id_budget cf d' m'"
proof -
  have "id_step cf * (length (mx_slotWaiters m') + d') \<le> id_step cf * (length (mx_slotWaiters m) + d)"
    using assms(5) by (rule mult_le_mono2)
  with assms(1) show ?thesis unfolding id_budget_def assms(2-4) by (meson add_left_mono order_trans)
qed

lemma budget_same:
  assumes "called (mx_out m') = called (mx_out m)" "thrown (mx_out m') = thrown (mx_out m)"
    "mx_nextChannelId m' = mx_nextChannelId m" "mx_slotWaiters m' = mx_slotWaiters m"
  shows "id_budget cf d m' = id_budget cf d m"
  using assms by (simp add: id_budget_def)

lemma budget_noise [simp]:
  "called os = [] \<Longrightarrow> thrown os = [] \<Longrightarrow> id_budget cf d (emits os m) = id_budget cf d m"
  "id_budget cf d (m\<lparr>mx_threw := e\<rparr>) = id_budget cf d m" "id_budget cf d (m\<lparr>mx_reads := n\<rparr>) = id_budget cf d m"
  "id_budget cf d (m\<lparr>mx_socket := s\<rparr>) = id_budget cf d m" "id_budget cf d (m\<lparr>mx_pongTimeoutTimer := t\<rparr>) = id_budget cf d m"
  "id_budget cf d (m\<lparr>mx_channelListeners := n\<rparr>) = id_budget cf d m" "id_budget cf d (m\<lparr>mx_closeListeners := n\<rparr>) = id_budget cf d m"
  "id_budget cf d (m\<lparr>mx_pongListeners := n\<rparr>) = id_budget cf d m" "id_budget cf d (m\<lparr>mx_objs := objs\<rparr>) = id_budget cf d m"
  "id_budget cf d (m\<lparr>mx_channels := c\<rparr>) = id_budget cf d m" "id_budget cf d (m\<lparr>mx_pendingOpens := q\<rparr>) = id_budget cf d m"
  "id_budget cf d (forgetStream cid m) = id_budget cf d m" "id_budget cf d (socket_terminate m) = id_budget cf d m"
  "id_budget cf d (add_channel cid m) = id_budget cf d m"
  by (rule budget_same; simp add: forgetStream_def socket_terminate_def add_channel_def)+

lemma budget_reject_waiters: "id_budget cf d m \<Longrightarrow> id_budget cf d (reject_waiters m)"
  by (erule budget_mono) (simp_all add: reject_waiters_def)

lemma log_teardown_called [simp]:
  "called (mx_out (teardown r m)) = called (mx_out m)" "thrown (mx_out (teardown r m)) = thrown (mx_out m)"
  using log_reject [where f = "\<lambda>p. p"] by (simp_all add: teardown_def reject_waiters_def Let_def)

lemma called_open_now [simp]: "called (mx_out (open_now cf p s v m)) = called (mx_out m)"
proof -
  have "called (mx_out (sendFrame cf f m')) = called (mx_out m')" for f m'
    by (simp add: sendFrame_def Let_def socket_terminate_def split: option.split)
  then show ?thesis by (auto simp: open_now_def allocateChannelId_def split: option.splits)
qed

lemma called_open_body [simp]: "called (mx_out (open_body cf p opts m)) = called (mx_out m)"
  by (simp add: open_body_def Let_def split: option.split)

lemma budget_teardown: "id_budget cf d m \<Longrightarrow> id_budget cf d (teardown r m)"
  by (erule budget_mono) (simp_all add: log_teardown_called)

lemma budget_sendFrame: "id_budget cf d m \<Longrightarrow> id_budget cf d (sendFrame cf' f m)"
  by (auto simp: sendFrame_def Let_def budget_teardown split: option.splits)

lemma pick_loop_near: "pick_loop occ start m k cid = Some r \<Longrightarrow> start \<le> cid \<Longrightarrow> r \<le> cid + 2 * (m - k)"
proof (induction occ start m k cid rule: pick_loop.induct)
  case (1 occ start m k cid)
  show ?case
  proof (cases "cid \<in> set occ")
    case True
    with "1.prems"(1) have k: "\<not> m < Suc k"
      and rec: "pick_loop occ start m (Suc k) (if cid \<ge> 0xfffffffe then start else cid + 2) = Some r"
      by (auto simp: pick_loop.simps [of occ start m k cid] split: if_splits)
    have "r \<le> (if cid \<ge> 0xfffffffe then start else cid + 2) + 2 * (m - Suc k)"
      using "1.IH" [OF True k rec] "1.prems"(2) by (simp split: if_splits)
    with k "1.prems"(2) show ?thesis by (auto split: if_splits)
  next
    case False
    with "1.prems" show ?thesis by (simp add: pick_loop.simps [of occ start m k cid])
  qed
qed

text \<open>With room for one more open, the allocator finds an id and leaves the room of the others.\<close>

lemma allocate_budget:
  assumes "mx_nextChannelId m + id_step cf \<le> b" and "b < 4294967296" and "openChannelCount m < cf_maxChannels cf"
  shows "\<exists>cid n. allocateChannelId cf m = Some (cid, m\<lparr>mx_nextChannelId := n\<rparr>) \<and> n \<le> mx_nextChannelId m + id_step cf"
proof -
  have "card (set (combinedOccupiedIds m)) \<le> cf_maxChannels cf"
    using assms(3) card_length [of "combinedOccupiedIds m"] by (simp add: combinedOccupiedIds_def openChannelCount_def jm_size_keys)
  with assms(1,2) have "\<exists>cid. pickFreeChannelId (combinedOccupiedIds m) (mx_nextChannelId m) (cf_maxChannels cf) = Some cid"
    using pick_loop_finds [of "mx_nextChannelId m" "mx_nextChannelId m" 0 "combinedOccupiedIds m" "cf_maxChannels cf"]
    by (simp add: pickFreeChannelId_def id_step_def)
  then obtain cid where cid: "pickFreeChannelId (combinedOccupiedIds m) (mx_nextChannelId m) (cf_maxChannels cf) = Some cid" ..
  then have "cid \<le> mx_nextChannelId m + 2 * cf_maxChannels cf"
    using pick_loop_near [of "combinedOccupiedIds m" "mx_nextChannelId m" "cf_maxChannels cf" 0] by (simp add: pickFreeChannelId_def)
  with cid assms(1,2) show ?thesis
    by (intro exI [of _ cid] exI [of _ "cid + 2"]) (simp add: allocateChannelId_def id_step_def)
qed

lemma budget_open_now:
  assumes "id_budget cf 1 m" and "openChannelCount m < cf_maxChannels cf"
  shows "id_budget cf 0 (open_now cf p s v m)"
proof (cases "ids_last cf (length (called (mx_out m)))")
  case True
  let ?b = "cf_startChannelId cf + id_step cf * length (called (mx_out m))"
  have b: "mx_nextChannelId m + id_step cf * length (mx_slotWaiters m) + id_step cf \<le> ?b" "?b < 4294967296" "thrown (mx_out m) = []"
    using assms(1) True by (simp_all add: id_budget_def ids_last_def)
  from b(1) have "mx_nextChannelId m + id_step cf \<le> ?b" by linarith
  from allocate_budget [OF this b(2) assms(2)] obtain cid n where
    a: "allocateChannelId cf m = Some (cid, m\<lparr>mx_nextChannelId := n\<rparr>)" "n \<le> mx_nextChannelId m + id_step cf" by blast
  with b have "id_budget cf 0 (m\<lparr>mx_nextChannelId := n, mx_streamIds := S, mx_previewIds := V, mx_pendingOpens := P\<rparr>)" for S V P
    by (simp add: id_budget_def)
  then show ?thesis unfolding open_now_def a(1) by (simp add: budget_sendFrame)
next
  case False
  then show ?thesis by (simp add: id_budget_def)
qed

lemma budget_open_body: "id_budget cf 1 m \<Longrightarrow> id_budget cf 0 (open_body cf p opts m)"
  using budget_open_now [of cf m] budget_mono [of cf 1 m "emits [Reject p e] m" 0 for e]
    budget_mono [of cf 1 m "emits [OnWaiting p] (m\<lparr>mx_slotWaiters := mx_slotWaiters m @ [w]\<rparr>)" 0 for w]
  by (auto simp: open_body_def Let_def split: option.split)

lemma budget_drain_waiters: "id_budget cf 0 m \<Longrightarrow> id_budget cf 0 (drain_waiters cf m)"
proof (induction cf m rule: drain_waiters.induct)
  case (1 cf m)
  show ?case
  proof (cases "mx_slotWaiters m")
    case (Cons w rest)
    have "id_budget cf 1 (m\<lparr>mx_slotWaiters := rest\<rparr>)"
      using Cons by (intro budget_mono [OF "1.prems"]) simp_all
    then have "id_budget cf 0 (proceed cf w (m\<lparr>mx_slotWaiters := rest\<rparr>))"
      unfolding proceed_def by (intro budget_open_body) simp
    with "1.IH" [OF Cons] "1.prems" Cons show ?thesis by (simp add: drain_waiters.simps [of cf m] Let_def)
  qed (use "1.prems" in \<open>simp add: drain_waiters.simps\<close>)
qed

lemma budget_drainSlotWaiters: "id_budget cf 0 m \<Longrightarrow> id_budget cf 0 (drainSlotWaiters cf m)"
  by (simp add: drainSlotWaiters_def budget_drain_waiters)

lemma budget_run_effects: "id_budget cf 0 m \<Longrightarrow> id_budget cf 0 (run_effects cf es m)"
proof (induction es arbitrary: m)
  case (Cons e es)
  have "id_budget cf 0 (run_effect cf e m)"
    using Cons.prems by (cases e) (simp_all add: budget_sendFrame removeChannel_def budget_drainSlotWaiters)
  with Cons show ?case by (simp add: unless_threw_def)
qed simp

lemma budget_obj_do: "id_budget cf 0 m \<Longrightarrow> id_budget cf 0 (obj_do cf op k m)"
  by (simp add: obj_do_def split_beta budget_run_effects)

lemma budget_close_all: "id_budget cf 0 m \<Longrightarrow> id_budget cf 0 (close_all cf ks m)"
  by (induction ks arbitrary: m) (simp_all add: unless_threw_def budget_obj_do)

lemma budget_leave_queue: "id_budget cf d m \<Longrightarrow> id_budget cf d (leave_queue p e m)"
  by (erule budget_mono) (auto simp: leave_queue_def extract_Some_iff split: option.split)

lemma budget_dispatch_frame: "id_budget cf 0 m \<Longrightarrow> id_budget cf 0 (dispatch_frame cf now f m)"
  by (auto simp: dispatch_frame_def handle_open_def handle_openAck_def handle_openFail_def fail_open_def handle_close_def
      unless_threw_def budget_sendFrame budget_obj_do budget_drainSlotWaiters split: parsed_frame.splits frame_tag.splits option.splits)

lemma budget_step: "id_budget cf 0 m \<Longrightarrow> id_budget cf 0 (mux_step cf m i)"
proof (cases i)
  case (CallOpen p opts)
  assume "id_budget cf 0 m"
  then have "id_budget cf 1 (emits [OpenCalled p] (m\<lparr>mx_threw := None\<rparr>))" by (auto simp: id_budget_def ids_last_def)
  then show ?thesis using CallOpen by (simp add: mux_step_def openChannel_def budget_open_body)
qed (auto simp: mux_step_def channel_call_def mux_close_def Let_def socket_close_def handleMessage_def fail_open_def
    ping_tick_def pong_timeout_def open_ack_timeout_def unless_threw_def budget_teardown budget_leave_queue budget_sendFrame
    budget_obj_do budget_close_all budget_reject_waiters budget_dispatch_frame budget_drainSlotWaiters
    split: channel_op.splits sum.splits option.splits)

lemma budget_run: "id_budget cf 0 (foldl (mux_step cf) (new_mux cf) is)"
  by (induction "is" rule: rev_induct) (simp_all add: budget_step, simp add: id_budget_def new_mux_def)

subsection \<open>The queue is drained\<close>

definition exhausted :: "mux \<Rightarrow> bool" where
  "exhausted m \<longleftrightarrow> (\<exists>p. OpenThrew p \<in> set (mx_out m))"

definition drained :: "mux_config \<Rightarrow> mux \<Rightarrow> bool" where
  "drained cf m \<longleftrightarrow> exhausted m \<or> mx_slotWaiters m = [] \<or> openChannelCount m \<ge> cf_maxChannels cf"

lemma log_closeLocally_mono: "set (mx_out m) \<subseteq> set (mx_out (closeLocally_all ks m))"
proof (induction ks arbitrary: m)
  case (Cons k ks)
  obtain ch es where c: "channel_closeLocally (mx_objs m ! k) = (ch, es)" by fastforce
  show ?case using Cons.IH [of "emits (map ChannelOut es) (m\<lparr>mx_objs := (mx_objs m)[k := ch]\<rparr>)"] c by auto
qed simp

lemma exhausted_teardown: "exhausted m \<Longrightarrow> exhausted (teardown r m)"
proof (cases "mx_closed m")
  case False
  assume "exhausted m"
  moreover have "set (mx_out m) \<subseteq> set (mx_out (teardown r m))"
    using False by (auto simp: teardown_def Let_def reject_waiters_def
        intro!: log_closeLocally_mono [THEN subsetD])
  ultimately show ?thesis by (auto simp: exhausted_def)
qed (simp add: teardown_def)

lemma exhausted_emits [simp]: "exhausted m \<Longrightarrow> exhausted (emits os m)"
  by (auto simp: exhausted_def)

lemma drained_emits: "drained cf m \<Longrightarrow> drained cf (emits os m)"
  by (auto simp: drained_def openChannelCount_def)

lemma drained_same:
  assumes "mx_slotWaiters m' = mx_slotWaiters m" "mx_pendingOpens m' = mx_pendingOpens m"
    "mx_channels m' = mx_channels m" "mx_out m' = mx_out m"
  shows "drained cf m' = drained cf m"
  using assms by (simp add: drained_def exhausted_def openChannelCount_def)

lemma drained_noise [simp]:
  "drained cf (m\<lparr>mx_threw := e\<rparr>) = drained cf m" "drained cf (m\<lparr>mx_reads := n\<rparr>) = drained cf m"
  "drained cf (m\<lparr>mx_socket := s\<rparr>) = drained cf m" "drained cf (m\<lparr>mx_pongTimeoutTimer := t\<rparr>) = drained cf m"
  "drained cf (m\<lparr>mx_channelListeners := n\<rparr>) = drained cf m" "drained cf (m\<lparr>mx_closeListeners := n\<rparr>) = drained cf m"
  "drained cf (m\<lparr>mx_pongListeners := n\<rparr>) = drained cf m" "drained cf (m\<lparr>mx_objs := objs\<rparr>) = drained cf m"
  by (rule drained_same; simp)+

lemma drained_teardown: "drained cf m \<Longrightarrow> drained cf (teardown r m)"
  using exhausted_teardown [of m r] by (auto simp: drained_def openChannelCount_def)

lemma drained_terminate: "drained cf m \<Longrightarrow> drained cf (socket_terminate m)"
  by (simp add: socket_terminate_def drained_emits)

lemma drained_sendFrame: "drained cf m \<Longrightarrow> drained cf (sendFrame cf f m)"
  by (auto simp: sendFrame_def Let_def drained_emits intro!: drained_teardown drained_terminate split: option.splits)

lemma drained_open_now:
  assumes "drained cf m" and "ids_inv cf m" and "config_ok cf"
  shows "drained cf (open_now cf p s v m)"
proof (cases "allocateChannelId cf m")
  case None
  then show ?thesis by (auto simp: open_now_def drained_def exhausted_def)
next
  case (Some r)
  obtain cid m1 where r: "r = (cid, m1)" by fastforce
  obtain n where n: "cid \<notin> set (jm_keys (mx_pendingOpens m))" "m1 = m\<lparr>mx_nextChannelId := n\<rparr>"
    using allocate_fresh [of cf m cid m1] assms(2,3) Some r by auto
  with assms(1) have "drained cf (m1\<lparr>mx_streamIds := S, mx_previewIds := V, mx_pendingOpens := jm_set cid p (mx_pendingOpens m1)\<rparr>)"
    for S V by (auto simp: drained_def exhausted_def openChannelCount_def jm_size_keys jm.keys_put)
  then show ?thesis unfolding open_now_def Some r by (simp only: option.case prod.case drained_sendFrame)
qed

lemma drained_open_body:
  assumes "drained cf m" and "ids_inv cf m" and "config_ok cf"
  shows "drained cf (open_body cf p opts m)"
  using assms drained_open_now [OF assms]
  by (auto simp: open_body_def Let_def drained_emits drained_def openChannelCount_def split: option.splits)

text \<open>An open throws for want of an id only, and says so in the log.\<close>

lemma open_body_threw:
  assumes "mx_threw m = None" and "ids_inv cf m" and "config_ok cf" and "mx_threw (open_body cf p opts m) \<noteq> None"
  shows "exhausted (open_body cf p opts m)"
proof -
  have "exhausted (open_now cf p s v m)" if "mx_threw (open_now cf p s v m) \<noteq> None" for s v
  proof (cases "allocateChannelId cf m")
    case (Some r)
    obtain cid m1 where r: "r = (cid, m1)" by fastforce
    obtain n f where "m1 = m\<lparr>mx_nextChannelId := n\<rparr>" "encodeHeader FOpen cid = Some f"
      using allocate_fresh [of cf m cid m1] assms(2,3) Some r encodeHeader_Some [of cid FOpen] by auto
    with that Some r assms(1) show ?thesis by (simp add: open_now_def)
  qed (auto simp: open_now_def exhausted_def)
  with assms(1,4) show ?thesis by (auto simp: open_body_def Let_def split: option.splits if_splits)
qed

lemma drained_drain_waiters:
  "mux_inv cf None m \<Longrightarrow> config_ok cf \<Longrightarrow> mx_threw m = None \<Longrightarrow> drained cf (drain_waiters cf m)"
proof (induction cf m rule: drain_waiters.induct)
  case (1 cf m)
  show ?case
  proof (cases "mx_slotWaiters m")
    case Nil
    then show ?thesis by (simp add: drain_waiters.simps drained_def)
  next
    case (Cons w rest)
    let ?m = "m\<lparr>mx_slotWaiters := rest\<rparr>"
    have inv: "mux_inv cf None (proceed cf w ?m)"
      unfolding proceed_def by (intro inv_open_body) (simp_all add: inv_shift [OF "1.prems"(1) Cons] "1.prems")
    have "exhausted (proceed cf w ?m)" if "mx_threw (proceed cf w ?m) \<noteq> None"
      using that "1.prems" unfolding proceed_def by (intro open_body_threw) (simp_all add: mux_inv_def ids_inv_def)
    with "1.IH" [OF Cons _ refl] inv "1.prems" Cons show ?thesis
      by (auto simp: drain_waiters.simps [of cf m] Let_def drained_def)
  qed
qed

lemma drained_drainSlotWaiters:
  "mux_inv cf None m \<Longrightarrow> config_ok cf \<Longrightarrow> mx_threw m = None \<Longrightarrow> drained cf (drainSlotWaiters cf m)"
  by (auto simp: drainSlotWaiters_def drained_drain_waiters) (auto simp: drained_def mux_inv_def caps_inv_def)

lemma drained_run_effects:
  "drained cf m \<Longrightarrow> list_all (\<lambda>e. \<not> is_LocalClose e) es \<Longrightarrow> drained cf (run_effects cf es m)"
proof (induction es arbitrary: m)
  case (Cons e es)
  have "drained cf (run_effect cf e m)" using Cons.prems by (cases e) (auto simp: drained_sendFrame drained_emits)
  with Cons show ?case by (simp add: unless_threw_def)
qed simp

lemma drained_obj_do:
  assumes "mux_inv cf None m" and "config_ok cf" and "mx_threw m = None" and "k < length (mx_objs m)"
    and "op \<noteq> OpCloseLocally" and "drained cf m"
  shows "drained cf (obj_do cf op k m)"
proof -
  obtain ch es where d: "channel_do op (mx_objs m ! k) = (ch, es)" by fastforce
  from channel_do_kinds [OF d assms(5)] show ?thesis
  proof
    assume c: "channel_close (mx_objs m ! k) = (ch, es) \<and> \<not> ch_closed (mx_objs m ! k)"
    then obtain m1 es' where "mux_inv cf None m1" "mx_threw m1 = None" "list_all (\<lambda>e. \<not> is_LocalClose e) es'"
      "run_effects cf es (m\<lparr>mx_objs := (mx_objs m)[k := ch]\<rparr>) = unless_threw (run_effects cf es') (drainSlotWaiters cf m1)"
      using closing_decomp [OF assms(1-4), of ch es] by blast
    with d assms(2) show ?thesis
      by (simp add: obj_do_def unless_threw_def drained_run_effects drained_drainSlotWaiters)
  next
    assume "ch_closed ch = ch_closed (mx_objs m ! k) \<and> list_all (\<lambda>e. \<not> is_LocalClose e) es"
    with d assms(6) show ?thesis by (simp add: obj_do_def drained_run_effects)
  qed
qed

lemma drained_handle_open:
  assumes "mux_inv cf None m" and "drained cf m"
  shows "drained cf (handle_open cf cid m)"
proof (cases "openChannelCount m \<ge> cf_maxChannels cf \<or> jm_has (mx_channels m) cid \<or> jm_has (mx_pendingOpens m) cid")
  case True
  then show ?thesis using assms by (auto simp: handle_open_def drained_sendFrame)
next
  case False
  then have "drained cf (add_channel cid m)"
    using assms(2) by (auto simp: drained_def exhausted_def add_channel_def openChannelCount_def)
  then show ?thesis using False by (simp add: handle_open_def unless_threw_def drained_sendFrame drained_emits)
qed

lemma drained_handle_openAck:
  assumes "mux_inv cf None m" and "drained cf m"
  shows "drained cf (handle_openAck cid m)"
proof (cases "jm_get (mx_pendingOpens m) cid")
  case (Some p)
  have ids: "ids_inv cf m" using assms(1) by (simp add: mux_inv_def)
  note p = pending_id [OF ids Some]
  have "Suc (length (jm_keys (jm_delete cid (mx_pendingOpens m)))) = length (jm_keys (mx_pendingOpens m))"
    using p ids by (intro jm.size_delete_present) (auto simp: ids_inv_def)
  then have "openChannelCount (handle_openAck cid m) = openChannelCount m"
    using p Some by (simp add: handle_openAck_def add_channel_def openChannelCount_def jm_size_keys jm.keys_put)
  then show ?thesis using assms(2) Some by (auto simp: drained_def exhausted_def handle_openAck_def add_channel_def)
qed (simp add: handle_openAck_def assms)

lemma forgetStream_threw [simp]: "mx_threw (forgetStream cid m) = mx_threw m"
  by (simp add: forgetStream_def)

lemma drained_fail_open:
  "mux_inv cf None m \<Longrightarrow> config_ok cf \<Longrightarrow> mx_threw m = None \<Longrightarrow> drained cf (fail_open cf p err cid m)"
  unfolding fail_open_def
  by (intro drained_drainSlotWaiters) (simp_all add: inv_forget_pending)

lemma run_fire_close: "mx_threw m = None \<Longrightarrow> mx_threw (run_effects cf (map (FireClose c) ns) m) = None"
  by (induction ns arbitrary: m) (simp_all add: unless_threw_def)

lemma drained_handle_close:
  assumes "mux_inv cf None m" and "config_ok cf" and "mx_threw m = None" and "jm_get (mx_channels m) cid = Some k"
  shows "drained cf (handle_close cf cid k m)"
proof -
  let ?m = "obj_do cf OpCloseLocally k (forgetStream cid (m\<lparr>mx_channels := jm_delete cid (mx_channels m)\<rparr>))"
  have open_: "\<not> ch_closed (mx_objs m ! k)"
    using heap_mapped [of None m cid k] assms(1,4) by (simp add: mux_inv_def)
  have threw: "mx_threw ?m = None"
    using assms(3) open_ by (simp add: obj_do_def forgetStream_def channel_closeLocally_def fire_close_def run_fire_close)
  with inv_before_drain [OF assms(1,4)] assms(2) show ?thesis
    by (simp add: handle_close_def unless_threw_def drained_drainSlotWaiters)
qed

lemma drained_dispatch_frame:
  assumes inv: "mux_inv cf None m" and cf: "config_ok cf" and threw: "mx_threw m = None" and d: "drained cf m"
  shows "drained cf (dispatch_frame cf now f m)"
proof -
  have obj: "drained cf (obj_do cf op k m)" if "jm_get (mx_channels m) c = Some k" "op \<noteq> OpCloseLocally" for c k op
    using that heap_mapped [of None m c k] assms by (intro drained_obj_do) (auto simp: mux_inv_def)
  have openFail: "drained cf (handle_openFail cf c m)" for c
    using d drained_fail_open [OF inv cf threw] by (auto simp: handle_openFail_def split: option.splits)
  show ?thesis
    using d obj openFail drained_handle_open [OF inv d] drained_handle_openAck [OF inv d]
      drained_handle_close [OF inv cf threw]
    by (auto simp: dispatch_frame_def drained_sendFrame drained_emits
        split: parsed_frame.splits frame_tag.splits option.splits)
qed

lemma drained_close_all:
  "mux_inv cf None m \<Longrightarrow> config_ok cf \<Longrightarrow> mx_threw m = None \<Longrightarrow> \<forall>k \<in> set ks. k < length (mx_objs m)
    \<Longrightarrow> drained cf m \<Longrightarrow> drained cf (close_all cf ks m)"
proof (induction ks arbitrary: m)
  case (Cons k ks)
  have "mux_inv cf None (obj_do cf OpClose k m)" "drained cf (obj_do cf OpClose k m)"
    using Cons.prems by (auto intro!: inv_obj_do drained_obj_do)
  with Cons show ?case by (simp add: unless_threw_def)
qed simp

lemma drained_leave_queue: "drained cf m \<Longrightarrow> drained cf (leave_queue p err m)"
  by (auto simp: leave_queue_def drained_def exhausted_def openChannelCount_def extract_None_iff extract_Some_iff
      split: option.splits)

lemma drained_mux_close:
  assumes "mux_inv cf None m" and "config_ok cf" and "mx_threw m = None" and "drained cf m"
  shows "drained cf (mux_close cf m)"
proof -
  have "drained cf (reject_waiters m)" by (simp add: drained_def reject_waiters_def)
  then have "drained cf (close_all cf (jm_values (mx_channels m)) (reject_waiters m))"
    using assms mapped_objects [OF assms(1)]
    by (intro drained_close_all inv_reject_waiters) (simp_all add: reject_waiters_def)
  then show ?thesis
    using assms(4) by (simp add: mux_close_def unless_threw_def socket_close_def reject_waiters_def Let_def
        drained_teardown drained_emits)
qed

lemma drained_step:
  assumes "mux_inv cf None m" and cf: "config_ok cf" and "drained cf m"
  shows "drained cf (mux_step cf m i)"
proof -
  let ?m = "m\<lparr>mx_threw := None\<rparr>"
  have inv: "mux_inv cf None ?m" and d: "drained cf ?m" using assms by simp_all
  then have ids: "ids_inv cf ?m" by (simp add: mux_inv_def)
  show ?thesis
  proof (cases i)
    case (CallChannel k op)
    with drained_obj_do [OF inv cf] d show ?thesis
      by (cases op) (auto simp: mux_step_def channel_call_def public_op_def split: sum.splits)
  next
    case (Message data isBinary now)
    with drained_dispatch_frame [OF inv cf] d show ?thesis
      by (auto simp: mux_step_def handleMessage_def split: option.splits)
  next
    case (CallOpen p opts)
    have "ids_inv cf (emits [OpenCalled p] ?m)" using ids by (simp add: ids_inv_def)
    with CallOpen d cf show ?thesis by (simp add: mux_step_def openChannel_def drained_open_body drained_emits)
  qed (use d inv cf in \<open>auto simp: mux_step_def drained_mux_close drained_teardown ping_tick_def drained_terminate
      unless_threw_def drained_sendFrame pong_timeout_def open_ack_timeout_def drained_fail_open drained_leave_queue\<close>)
qed

lemma drained_run: "config_ok cf \<Longrightarrow> drained cf (foldl (mux_step cf) (new_mux cf) is)"
proof (induction "is" rule: rev_induct)
  case (snoc i "is")
  then have "mux_inv cf None (foldl (mux_step cf) (new_mux cf) is)" using mux_inv_run by (simp add: mux_run_def)
  with snoc show ?case by (simp add: drained_step)
qed (simp add: drained_def new_mux_def)

subsection \<open>Properties\<close>

text \<open>
  C15: Whatever the caller, the peer, the socket and the timers do, a connection never holds more
  open and pending channels than \<open>maxChannels\<close>, its stream and preview channels (queued ones
  included) stay within their caps, no id is both open and pending, every pending id has the
  connection's own parity and fits a frame, and every tracked stream id is open or pending, so
  no slot leaks.
\<close>

theorem mux_caps_and_ids:
  fixes opts buffered "is"
  defines "cf \<equiv> mux_config_of opts buffered"
  defines "m \<equiv> mux_run cf is"
  shows "openChannelCount m \<le> cf_maxChannels cf \<and> streamsInUse m \<le> cf_maxStreamChannels cf
    \<and> previewsInUse m \<le> cf_maxPreviewChannels cf
    \<and> set (jm_keys (mx_channels m)) \<inter> set (jm_keys (mx_pendingOpens m)) = {}
    \<and> list_all (\<lambda>c. c < 4294967296 \<and> c mod 2 = (if mo_even opts then 0 else 1)) (jm_keys (mx_pendingOpens m))
    \<and> set (mx_streamIds m) \<subseteq> set (jm_keys (mx_channels m)) \<union> set (jm_keys (mx_pendingOpens m))"
proof -
  have "mux_inv cf None m" unfolding m_def cf_def by (intro mux_inv_run config_ok_of)
  moreover have "cf_startChannelId cf mod 2 = (if mo_even opts then 0 else 1)"
    by (simp add: cf_def mux_config_of_def Let_def)
  ultimately show ?thesis by (simp add: mux_inv_def ids_inv_def caps_inv_def list_all_iff)
qed

text \<open>
  C16: After every input the \<open>channels\<close> map holds exactly the channel objects that are not closed,
  each under its own id, so a frame never reaches a closed channel and a stale handle of a reused
  id never stands for the new channel; and every channel's send window and buffered data stay
  within the 256 KiB window.
\<close>

theorem mux_map_is_the_open_channels:
  fixes opts buffered "is"
  defines "m \<equiv> mux_run (mux_config_of opts buffered) is"
  shows "list_all (\<lambda>k. (\<not> ch_closed (mx_objs m ! k)) = (jm_get (mx_channels m) (ch_id (mx_objs m ! k)) = Some k)
      \<and> sendWindow (mx_objs m ! k) \<le> 262144 \<and> length (concat (ch_pendingData (mx_objs m ! k))) \<le> 262144)
    [0..<length (mx_objs m)]
    \<and> list_all (\<lambda>(c, k). k < length (mx_objs m) \<and> ch_id (mx_objs m ! k) = c) (mx_channels m)"
proof -
  have inv: "mux_inv (mux_config_of opts buffered) None m" unfolding m_def by (intro mux_inv_run config_ok_of)
  then have heap: "heap_inv None m" and wf: "jm_wf (mx_channels m)" by (simp_all add: mux_inv_def ids_inv_def)
  have "(\<not> ch_closed (mx_objs m ! k)) = (jm_get (mx_channels m) (ch_id (mx_objs m ! k)) = Some k)"
    if "k < length (mx_objs m)" for k
    using heap_open [OF heap that] heap_mapped [OF heap, of "ch_id (mx_objs m ! k)" k] by blast
  moreover have "sendWindow (mx_objs m ! k) \<le> 262144 \<and> length (concat (ch_pendingData (mx_objs m ! k))) \<le> 262144"
    if "k < length (mx_objs m)" for k
    using heap_ok [OF heap, of "mx_objs m ! k"] that
    by (simp add: obj_ok_def channel_wf_def sendWindow_def CHANNEL_WINDOW_BYTES_def)
  moreover have "k < length (mx_objs m) \<and> ch_id (mx_objs m ! k) = c" if "(c, k) \<in> set (mx_channels m)" for c k
    using that wf heap_mapped [OF heap, of c k] by (simp add: jm_wf_def jm_get_def)
  ultimately show ?thesis by (auto simp: list_all_iff)
qed

definition default_options :: mux_options where
  "default_options = \<lparr>mo_maxChannels = None, mo_maxStreamChannels = None, mo_maxPreviewChannels = None,
     mo_even = True, mo_maxBufferedBytes = None\<rparr>"

text \<open>
  C17: Every \<open>openChannel\<close> call is accounted for exactly once: its promise has been resolved or
  rejected, or it waits for the peer's answer or for a slot, or the id allocator threw while the call was
  handled (such an open is never settled: the exception leaves \<open>openChannel\<close>, or \<open>drainSlotWaiters\<close> for a queued
  one). Once the connection is closed nothing waits any more. And the allocator has not thrown as long as
  the first id plus \<open>2 * (maxChannels + 1)\<close> for each call made stays below \<open>2 ^ 32\<close>, so up to there every
  open is settled exactly once by the time the connection is closed.
\<close>

theorem every_open_settles_once:
  fixes opts buffered "is"
  defines "m \<equiv> mux_run (mux_config_of opts buffered) is"
  shows "mset (called (mx_out m)) = mset (settled (mx_out m)) + mset (thrown (mx_out m)) + mset (outstanding m)
    \<and> (mx_closed m \<longrightarrow> outstanding m = [])
    \<and> (ids_last (mux_config_of opts buffered) (length (called (mx_out m))) \<longrightarrow> thrown (mx_out m) = [])"
proof -
  have "balanced {#} m" unfolding m_def mux_run_def by (intro balanced_run config_ok_of)
  moreover have "mux_inv (mux_config_of opts buffered) None m" unfolding m_def by (intro mux_inv_run config_ok_of)
  moreover have "id_budget (mux_config_of opts buffered) 0 m" unfolding m_def mux_run_def by (rule budget_run)
  ultimately show ?thesis by (auto simp: balanced_def id_budget_def mux_inv_def caps_inv_def outstanding_def)
qed

text \<open>The witness: an open is called and the socket fails before the peer answers.\<close>

theorem every_open_settles_once_witness:
  "settled (mx_out (mux_run (mux_config_of default_options (\<lambda>_. 0))
     [CallOpen 5 \<lparr>oo_stream = False, oo_preview = False, oo_waitTimeoutMs = None, oo_aborted = False\<rparr>, SocketErrorEvent])) = [5]"
proof -
  let ?opts = "\<lparr>oo_stream = False, oo_preview = False, oo_waitTimeoutMs = None, oo_aborted = False\<rparr>"
  let ?m = "mux_run (mux_config_of default_options (\<lambda>_. 0)) [CallOpen 5 ?opts, SocketErrorEvent]"
  have called: "called (mx_out ?m) = [5]"
    by (simp add: mux_run_def mux_step_def openChannel_def new_mux_def)
  have "ids_last (mux_config_of default_options (\<lambda>_. 0)) 1"
    by (simp add: ids_last_def id_step_def mux_config_of_def default_options_def DEFAULT_MAX_CHANNELS_def)
  moreover have "mx_closed ?m" by (simp add: mux_run_def mux_step_def)
  ultimately show ?thesis
    using every_open_settles_once [of default_options "\<lambda>_. 0" "[CallOpen 5 ?opts, SocketErrorEvent]"] called by auto
qed

text \<open>
  A queued open waits only while the connection is full: whenever a slot is free after an
  input, the queue is empty (unless the id allocator has ever given up).
\<close>

theorem no_queued_open_starves:
  fixes opts buffered "is"
  defines "cf \<equiv> mux_config_of opts buffered"
  defines "m \<equiv> mux_run cf is"
  shows "exhausted m \<or> mx_slotWaiters m = [] \<or> openChannelCount m = cf_maxChannels cf"
proof -
  have "drained cf m" unfolding m_def mux_run_def cf_def by (intro drained_run config_ok_of)
  moreover have "mux_inv cf None m" unfolding m_def cf_def by (intro mux_inv_run config_ok_of)
  ultimately show ?thesis by (auto simp: drained_def mux_inv_def caps_inv_def)
qed

text \<open>
  An Open frame that arrives after the connection's own \<open>close()\<close>, during the closing handshake,
  is still accepted: a channel is created on the closed connection, handed to the channel
  listeners, and the later socket close does not close it any more.
\<close>

theorem open_after_close_leaks:
  "let m = mux_run (mux_config_of default_options (\<lambda>_. 0))
        [CallOnChannel, CallClose, Message (RawBuffer [1, 0, 0, 0, 3]) True 0, SocketState SockClosed, SocketCloseEvent]
   in mx_closed m \<and> OnChannel 0 0 \<in> set (mx_out m) \<and> \<not> ch_closed (mx_objs m ! 0) \<and> openChannelCount m = 1"
  by (simp add: mux_run_def mux_step_def default_options_def mux_config_of_def new_mux_def mux_close_def
      reject_waiters_def unless_threw_def socket_close_def handleMessage_def decodeFrame_def HEADER_BYTES_def
      tag_of_byte_def dispatch_frame_def handle_open_def openChannelCount_def jm_size_def jm_has_def
      DEFAULT_MAX_CHANNELS_def add_channel_def sendFrame_def encodeHeader_def write_u32be_def
      teardown_def emits_def jm_set_def new_channel_def Let_def)

end
