(* ===== verification/ChannelPipes.thy ===== *)
theory ChannelPipes
  imports MuxSafety SshAgentFilter
begin

section \<open>Piping channels into each other\<close>

text \<open>
  The relays built on \<open>MuxChannel\<close>: \<open>pipeChannelDirection\<close> and \<open>pipeNetSocketToChannel\<close> of
  \<open>src/services/ssh-agent-mux.ts\<close>, and \<open>pipeFilteredRequestDirection\<close> of
  \<open>src/services/ssh-agent-relay.ts\<close>. They are written against the interface, a record of operations
  on a world \<open>'w\<close> that holds both ends. What they rely on are the locales \<open>mux_endpoint\<close> (an end
  they send to) and \<open>relay_ends\<close> (with an end they acknowledge on), interpreted on two connections
  of theory \<open>MuxConnection\<close>.
\<close>

subsection \<open>The channel interface\<close>

record 'w channel_ops =
  co_closed :: "'w \<Rightarrow> bool"
  co_sendWindow :: "'w \<Rightarrow> nat"
  co_send :: "byte list \<Rightarrow> 'w \<Rightarrow> 'w option"
  co_eof :: "'w \<Rightarrow> 'w"
  co_close :: "'w \<Rightarrow> 'w"
  co_acknowledgeConsumed :: "nat \<Rightarrow> 'w \<Rightarrow> 'w"

subsection \<open>One direction between two channels\<close>

text \<open>\<open>flush\<close>: \<open>None\<close> would be the exception of a \<open>send\<close> past the window or on a closed channel.\<close>

fun pipe_flush :: "'w channel_ops \<Rightarrow> 'w channel_ops \<Rightarrow> byte list list \<Rightarrow> 'w \<Rightarrow> (byte list list \<times> 'w) option" where
  "pipe_flush S D [] w = Some ([], w)"
| "pipe_flush S D (next # rest) w =
     (if co_closed D w \<or> length next > co_sendWindow D w then Some (next # rest, w)
      else case co_send D next w of
          None \<Rightarrow> None
        | Some w' \<Rightarrow> pipe_flush S D rest (co_acknowledgeConsumed S (length next) w'))"

definition pipe_onData :: "'w channel_ops \<Rightarrow> 'w channel_ops \<Rightarrow> byte list \<Rightarrow> byte list list \<Rightarrow> 'w
    \<Rightarrow> (byte list list \<times> 'w) option" where
  "pipe_onData S D chunk pending w =
     (if co_closed D w then Some (pending, w) else pipe_flush S D (pending @ [chunk]) w)"

definition pipe_onEof :: "'w channel_ops \<Rightarrow> 'w \<Rightarrow> 'w" where
  "pipe_onEof D w = (if co_closed D w then w else co_eof D w)"

definition pipe_onClose :: "'w channel_ops \<Rightarrow> 'w \<Rightarrow> 'w" where
  "pipe_onClose D w = (if co_closed D w then w else co_close D w)"

text \<open>
  A run of the direction: chunks arrive (dropped once the destination is closed), the destination's window changes
  (\<open>env\<close>) and its drain event flushes. \<open>got\<close> is what was taken over from the source so far. The rules are for
  handlers that return; that in every state of a run they do return is \<open>pipe_total\<close> and part of the property.
\<close>

inductive pipe_step :: "'w channel_ops \<Rightarrow> 'w channel_ops \<Rightarrow> ('w \<Rightarrow> 'w \<Rightarrow> bool)
    \<Rightarrow> byte list list \<times> byte list list \<times> 'w \<Rightarrow> byte list list \<times> byte list list \<times> 'w \<Rightarrow> bool"
  for S D env where
  data: "\<not> co_closed D w \<Longrightarrow> pipe_onData S D chunk pending w = Some (pending', w')
    \<Longrightarrow> pipe_step S D env (got, pending, w) (got @ [chunk], pending', w')"
| dropped: "co_closed D w \<Longrightarrow> pipe_onData S D chunk pending w = Some (pending', w')
    \<Longrightarrow> pipe_step S D env (got, pending, w) (got, pending', w')"
| drain: "env w w1 \<Longrightarrow> pipe_flush S D pending w1 = Some (pending', w')
    \<Longrightarrow> pipe_step S D env (got, pending, w) (got, pending', w')"

text \<open>What waits does so because the destination is closed or has no window for its first chunk.\<close>

definition held_back :: "'w channel_ops \<Rightarrow> byte list list \<Rightarrow> 'w \<Rightarrow> bool" where
  "held_back D pending w \<longleftrightarrow> pending = [] \<or> co_closed D w \<or> length (hd pending) > co_sendWindow D w"

subsection \<open>The filtered direction\<close>

definition sendReject :: "'w channel_ops \<Rightarrow> byte list \<Rightarrow> nat \<Rightarrow> 'w \<Rightarrow> 'w option" where
  "sendReject S replyFrame originalLength w =
     (case (if \<not> co_closed S w \<and> length replyFrame \<le> co_sendWindow S w then co_send S replyFrame w else Some w) of
        None \<Rightarrow> None
      | Some w' \<Rightarrow> Some (co_acknowledgeConsumed S originalLength w'))"

fun sendRejects :: "'w channel_ops \<Rightarrow> (byte list \<times> nat) list \<Rightarrow> 'w \<Rightarrow> 'w option" where
  "sendRejects S [] w = Some w"
| "sendRejects S ((frame, n) # rs) w =
     (case sendReject S frame n w of None \<Rightarrow> None | Some w' \<Rightarrow> sendRejects S rs w')"

definition filtered_onData :: "(nat \<Rightarrow> byte list) \<Rightarrow> 'w channel_ops \<Rightarrow> 'w channel_ops \<Rightarrow> byte list
    \<Rightarrow> sign_only_filter \<Rightarrow> byte list list \<Rightarrow> 'w \<Rightarrow> (sign_only_filter \<times> byte list list \<times> 'w) option" where
  "filtered_onData alloc S D chunk f pending w =
     (if co_closed D w \<or> co_closed S w then Some (f, pending, w)
      else case feed alloc chunk f of
          (Inl (SshAgentFrameTooLargeError _ _), f') \<Rightarrow>
            let w1 = (if co_closed S w then w else co_close S w);
                w2 = (if co_closed D w1 then w1 else co_close D w1)
            in Some (f', pending, w2)
        | (Inl FeedRangeError, f') \<Rightarrow> None
        | (Inr r, f') \<Rightarrow>
            (case sendRejects S (zip (fr_reject r) (fr_rejectedLengths r)) w of
               None \<Rightarrow> None
             | Some w' \<Rightarrow> map_option (\<lambda>(p, w''). (f', p, w'')) (pipe_flush S D (pending @ fr_forward r) w')))"

text \<open>As \<open>pipe_step\<close>, with \<open>filtered_total\<close>; a chunk that arrives once either channel is closed is dropped.\<close>

inductive filtered_step :: "(nat \<Rightarrow> byte list) \<Rightarrow> 'w channel_ops \<Rightarrow> 'w channel_ops \<Rightarrow> ('w \<Rightarrow> 'w \<Rightarrow> bool)
    \<Rightarrow> byte list list \<times> sign_only_filter \<times> byte list list \<times> 'w \<Rightarrow> byte list list \<times> sign_only_filter \<times> byte list list \<times> 'w \<Rightarrow> bool"
  for alloc S D env where
  f_data: "\<not> co_closed D w \<Longrightarrow> \<not> co_closed S w \<Longrightarrow> filtered_onData alloc S D chunk f pending w = Some (f', pending', w')
    \<Longrightarrow> filtered_step alloc S D env (got, f, pending, w) (got @ [chunk], f', pending', w')"
| f_dropped: "co_closed D w \<or> co_closed S w \<Longrightarrow> filtered_onData alloc S D chunk f pending w = Some (f', pending', w')
    \<Longrightarrow> filtered_step alloc S D env (got, f, pending, w) (got, f', pending', w')"
| f_drain: "env w w1 \<Longrightarrow> pipe_flush S D pending w1 = Some (pending', w')
    \<Longrightarrow> filtered_step alloc S D env (got, f, pending, w) (got, f, pending', w')"

subsection \<open>A socket piped through a channel\<close>

text \<open>
  \<open>np_paused\<close>, \<open>np_destroyed\<close>, \<open>np_ended\<close> and \<open>np_wire\<close> are what the calls \<open>pause\<close>/\<open>resume\<close>, \<open>destroy\<close>,
  \<open>end\<close> and \<open>write\<close> did to the \<open>net.Socket\<close>. A paused socket emits neither
  data nor end, and no data comes after the end.
\<close>

record 'w netpipe =
  np_socketEnded :: bool
  np_pendingChunk :: "byte list option"
  np_paused :: bool
  np_destroyed :: bool
  np_ended :: bool
  np_wire :: "byte list list"
  np_world :: 'w

definition new_netpipe :: "'w \<Rightarrow> 'w netpipe" where
  "new_netpipe w = \<lparr>np_socketEnded = False, np_pendingChunk = None, np_paused = False, np_destroyed = False,
     np_ended = False, np_wire = [], np_world = w\<rparr>"

definition np_flushPending :: "'w channel_ops \<Rightarrow> 'w netpipe \<Rightarrow> 'w netpipe option" where
  "np_flushPending D s =
     (case np_pendingChunk s of
        None \<Rightarrow> Some s
      | Some chunk \<Rightarrow>
          if co_closed D (np_world s) \<or> np_socketEnded s then Some (s\<lparr>np_pendingChunk := None\<rparr>)
          else if length chunk > co_sendWindow D (np_world s) then Some s
          else (case co_send D chunk (np_world s) of
                  None \<Rightarrow> None
                | Some w \<Rightarrow> Some (s\<lparr>np_pendingChunk := None, np_world := w, np_paused := False\<rparr>)))"

definition np_onSocketData :: "'w channel_ops \<Rightarrow> byte list \<Rightarrow> 'w netpipe \<Rightarrow> 'w netpipe option" where
  "np_onSocketData D chunk s =
     (if co_closed D (np_world s) then Some s
      else if np_pendingChunk s \<noteq> None
      then Some (s\<lparr>np_pendingChunk := None, np_world := co_close D (np_world s), np_destroyed := True\<rparr>)
      else if length chunk > co_sendWindow D (np_world s)
      then Some (s\<lparr>np_paused := True, np_pendingChunk := Some chunk\<rparr>)
      else map_option (\<lambda>w. s\<lparr>np_world := w\<rparr>) (co_send D chunk (np_world s)))"

definition np_onSocketEnd :: "'w channel_ops \<Rightarrow> 'w netpipe \<Rightarrow> 'w netpipe" where
  "np_onSocketEnd D s = s\<lparr>np_socketEnded := True,
     np_world := (if co_closed D (np_world s) then np_world s else co_eof D (np_world s))\<rparr>"

text \<open>The handlers of \<open>close\<close> and of \<open>error\<close> are the same.\<close>

definition np_onSocketClose :: "'w channel_ops \<Rightarrow> 'w netpipe \<Rightarrow> 'w netpipe" where
  "np_onSocketClose D s =
     s\<lparr>np_world := (if co_closed D (np_world s) then np_world s else co_close D (np_world s))\<rparr>"

definition np_onChannelData :: "byte list \<Rightarrow> 'w netpipe \<Rightarrow> 'w netpipe" where
  "np_onChannelData chunk s = (if np_destroyed s then s else s\<lparr>np_wire := np_wire s @ [chunk]\<rparr>)"

definition np_onChannelEof :: "'w netpipe \<Rightarrow> 'w netpipe" where
  "np_onChannelEof s = (if np_destroyed s then s else s\<lparr>np_ended := True\<rparr>)"

definition np_onChannelClose :: "'w netpipe \<Rightarrow> 'w netpipe" where
  "np_onChannelClose s = (if np_destroyed s then s else s\<lparr>np_destroyed := True\<rparr>)"

inductive netpipe_step :: "'w channel_ops \<Rightarrow> ('w \<Rightarrow> 'w \<Rightarrow> bool)
    \<Rightarrow> 'w netpipe \<times> byte list list \<Rightarrow> 'w netpipe \<times> byte list list \<Rightarrow> bool"
  for D env where
  np_data: "\<not> np_paused s \<Longrightarrow> \<not> np_socketEnded s \<Longrightarrow> np_onSocketData D chunk s = Some s' \<Longrightarrow> netpipe_step D env (s, got) (s', got @ [chunk])"
| np_drain: "env (np_world s) w1 \<Longrightarrow> np_flushPending D (s\<lparr>np_world := w1\<rparr>) = Some s'
    \<Longrightarrow> netpipe_step D env (s, got) (s', got)"
| np_end: "\<not> np_paused s \<Longrightarrow> netpipe_step D env (s, got) (np_onSocketEnd D s, got)"
| np_close: "netpipe_step D env (s, got) (np_onSocketClose D s, got)"
| np_chdata: "netpipe_step D env (s, got) (np_onChannelData chunk s, got)"
| np_written: "netpipe_step D env (s, got) (s\<lparr>np_world := co_acknowledgeConsumed D n (np_world s)\<rparr>, got)"
| np_cheof: "netpipe_step D env (s, got) (np_onChannelEof s, got)"
| np_chclose: "netpipe_step D env (s, got) (np_onChannelClose s, got)"

definition pending_list :: "'w netpipe \<Rightarrow> byte list list" where
  "pending_list s = (case np_pendingChunk s of None \<Rightarrow> [] | Some c \<Rightarrow> [c])"

subsection \<open>What the relays rely on\<close>

text \<open>
  An end that data is sent to: a \<open>send\<close> that respects the window succeeds and adds exactly its
  chunk to what the channel has taken; no other call and no window change adds anything.
\<close>

locale mux_endpoint =
  fixes D :: "'w channel_ops" and taken :: "'w \<Rightarrow> byte list list" and ok :: "'w \<Rightarrow> bool"
    and env :: "'w \<Rightarrow> 'w \<Rightarrow> bool"
  assumes send_fits: "ok w \<Longrightarrow> \<not> co_closed D w \<Longrightarrow> length b \<le> co_sendWindow D w
      \<Longrightarrow> \<exists>w'. co_send D b w = Some w' \<and> ok w' \<and> taken w' = taken w @ [b]"
    and env_ok: "env w w' \<Longrightarrow> ok w \<Longrightarrow> ok w' \<and> taken w' = taken w"
    and close_ok: "ok w \<Longrightarrow> ok (co_close D w) \<and> taken (co_close D w) = taken w"
    and eof_ok: "ok w \<Longrightarrow> ok (co_eof D w) \<and> taken (co_eof D w) = taken w"
    and env_closed: "env w w' \<Longrightarrow> ok w \<Longrightarrow> co_closed D w \<Longrightarrow> co_closed D w'"
    and ack_self: "ok w \<Longrightarrow> ok (co_acknowledgeConsumed D n w) \<and> taken (co_acknowledgeConsumed D n w) = taken w
      \<and> (co_closed D w \<longrightarrow> co_closed D (co_acknowledgeConsumed D n w))"
    and close_closes: "ok w \<Longrightarrow> co_closed D (co_close D w)"
begin

text \<open>A socket's bytes reach the channel in order, one chunk at most waiting for window.\<close>

lemma netpipe_conserves:
  assumes "(netpipe_step D env)\<^sup>*\<^sup>* (new_netpipe w0, []) (s, got)" and "ok w0"
  shows "ok (np_world s) \<and> (np_paused s \<longrightarrow> np_pendingChunk s \<noteq> None \<or> co_closed D (np_world s))
    \<and> (np_pendingChunk s \<noteq> None \<longrightarrow> np_paused s \<and> \<not> np_socketEnded s)
    \<and> (co_closed D (np_world s) \<or> taken (np_world s) @ pending_list s = taken w0 @ got)"
  using assms
proof (induction "(s, got)" arbitrary: s got rule: rtranclp_induct)
  case base
  then show ?case by (simp add: new_netpipe_def pending_list_def)
next
  case (step y)
  obtain s1 got1 where y: "y = (s1, got1)" by fastforce
  with step.hyps(3) step.prems have IH: "ok (np_world s1)" "np_paused s1 \<longrightarrow> np_pendingChunk s1 \<noteq> None \<or> co_closed D (np_world s1)"
    "np_pendingChunk s1 \<noteq> None \<longrightarrow> np_paused s1 \<and> \<not> np_socketEnded s1"
    "co_closed D (np_world s1) \<or> taken (np_world s1) @ pending_list s1 = taken w0 @ got1" by auto
  from step.hyps(2) [unfolded y] show ?case
  proof cases
    case (np_data chunk)
    then show ?thesis using IH send_fits [OF IH(1), of chunk]
      by (auto simp: np_onSocketData_def pending_list_def split: if_splits option.splits)
  next
    case (np_drain w1)
    then have e: "ok w1" "taken w1 = taken (np_world s1)" "co_closed D (np_world s1) \<longrightarrow> co_closed D w1"
      using env_ok env_closed IH(1) by blast+
    with np_drain IH send_fits [OF e(1), of "the (np_pendingChunk s1)"] show ?thesis
      by (auto simp: np_flushPending_def pending_list_def split: if_splits option.splits)
  next
    case np_end
    then show ?thesis using IH eof_ok [OF IH(1)]
      by (auto simp: np_onSocketEnd_def pending_list_def split: option.splits)
  next
    case np_close
    then show ?thesis using IH close_ok [OF IH(1)] close_closes [OF IH(1)]
      by (auto simp: np_onSocketClose_def pending_list_def)
  next
    case (np_written n)
    then show ?thesis using IH ack_self [OF IH(1), of n] by (auto simp: pending_list_def)
  qed (use IH in \<open>auto simp: np_onChannelData_def np_onChannelEof_def np_onChannelClose_def pending_list_def\<close>)
qed

end

locale relay_ends = mux_endpoint D taken ok env
  for D :: "'w channel_ops" and taken ok env +
  fixes S :: "'w channel_ops"
  assumes ack_ok: "ok w \<Longrightarrow> ok (co_acknowledgeConsumed S n w) \<and> taken (co_acknowledgeConsumed S n w) = taken w"
    and reply_ok: "ok w \<Longrightarrow> \<not> co_closed S w \<Longrightarrow> length b \<le> co_sendWindow S w
      \<Longrightarrow> \<exists>w'. co_send S b w = Some w' \<and> ok w' \<and> taken w' = taken w"
    and source_close_ok: "ok w \<Longrightarrow> ok (co_close S w) \<and> taken (co_close S w) = taken w"
begin

lemma flush_spec:
  "ok w \<Longrightarrow> \<exists>sent rest w'. pipe_flush S D p w = Some (rest, w') \<and> ok w' \<and> p = sent @ rest
     \<and> taken w' = taken w @ sent \<and> held_back D rest w'"
proof (induction p arbitrary: w)
  case Nil
  then show ?case by (simp add: held_back_def)
next
  case (Cons b p)
  show ?case
  proof (cases "co_closed D w \<or> length b > co_sendWindow D w")
    case True
    with Cons.prems show ?thesis by (intro exI [of _ "[]"] exI [of _ "b # p"] exI [of _ w]) (auto simp: held_back_def)
  next
    case False
    then obtain w1 where w1: "co_send D b w = Some w1" "ok w1" "taken w1 = taken w @ [b]"
      using send_fits Cons.prems by (meson not_less)
    note a = ack_ok [OF w1(2), of "length b"]
    from Cons.IH [OF a [THEN conjunct1]] obtain sent rest w' where
      "pipe_flush S D p (co_acknowledgeConsumed S (length b) w1) = Some (rest, w')" "ok w'" "p = sent @ rest"
      "taken w' = taken (co_acknowledgeConsumed S (length b) w1) @ sent"
      "held_back D rest w'"
      by blast
    with False w1 a show ?thesis by (intro exI [of _ "b # sent"] exI [of _ rest] exI [of _ w']) auto
  qed
qed

lemma rejects_spec: "ok w \<Longrightarrow> \<exists>w'. sendRejects S rs w = Some w' \<and> ok w' \<and> taken w' = taken w"
proof (induction rs arbitrary: w)
  case (Cons r rs)
  obtain b n where r: "r = (b, n)" by fastforce
  obtain w1 where "sendReject S b n w = Some w1" "ok w1" "taken w1 = taken w"
  proof (cases "\<not> co_closed S w \<and> length b \<le> co_sendWindow S w")
    case True
    then obtain w' where "co_send S b w = Some w'" "ok w'" "taken w' = taken w" using reply_ok Cons.prems by blast
    with True ack_ok [of w' n] that show ?thesis by (simp add: sendReject_def)
  next
    case False
    then have "sendReject S b n w = Some (co_acknowledgeConsumed S n w)" by (auto simp: sendReject_def)
    with ack_ok [of w n] Cons.prems that show ?thesis by simp
  qed
  with Cons.IH [of w1] r show ?case by simp
qed simp

text \<open>Nothing is lost, duplicated or reordered between arrival and the destination channel.\<close>

lemma pipe_conserves:
  assumes "(pipe_step S D env)\<^sup>*\<^sup>* (got0, p0, w0) (got, p, w)" and "ok w0" and "held_back D p0 w0"
  shows "\<exists>g. got = got0 @ g \<and> taken w @ p = taken w0 @ p0 @ g \<and> ok w \<and> held_back D p w"
  using assms
proof (induction "(got, p, w)" arbitrary: got p w rule: rtranclp_induct)
  case base
  then show ?case by simp
next
  case (step y)
  obtain got1 p1 w1 where y: "y = (got1, p1, w1)" by (metis prod_cases3)
  with step.hyps(3) step.prems obtain g where
    g: "got1 = got0 @ g" "taken w1 @ p1 = taken w0 @ p0 @ g" "ok w1" "held_back D p1 w1" by blast
  from step.hyps(2) [unfolded y] show ?case
  proof cases
    case (data chunk)
    with flush_spec [OF g(3), of "p1 @ [chunk]"] obtain sent where
      s: "ok w" "held_back D p w" "p1 @ [chunk] = sent @ p" "taken w = taken w1 @ sent" by (auto simp: pipe_onData_def)
    then have "taken w @ p = taken w0 @ p0 @ g @ [chunk]" using g(2) by (metis append_assoc)
    with data g s(1,2) show ?thesis by simp
  next
    case (dropped chunk)
    with g show ?thesis by (auto simp: pipe_onData_def)
  next
    case (drain w2)
    then have e: "ok w2" "taken w2 = taken w1" using env_ok g(3) by blast+
    with drain flush_spec [OF e(1), of p1] obtain sent where
      "ok w" "held_back D p w" "p1 = sent @ p" "taken w = taken w1 @ sent" by auto
    with drain g show ?thesis by simp
  qed
qed

text \<open>No handler of either direction throws.\<close>

lemma pipe_total: "ok w \<Longrightarrow> pipe_onData S D chunk p w \<noteq> None \<and> (env w w' \<longrightarrow> pipe_flush S D p w' \<noteq> None)"
  using flush_spec [of w "p @ [chunk]"] flush_spec [of w' p] env_ok by (auto simp: pipe_onData_def)

lemma filtered_total:
  assumes "ok w" and "filter_wf f" and "\<And>n. length (alloc n) = n"
  shows "filtered_onData alloc S D chunk f p w \<noteq> None"
proof -
  obtain x f2 where x: "feed alloc chunk f = (x, f2)" by fastforce
  obtain fs rest err where "frames_of (live f @ chunk) = (fs, rest, err)" by (metis prod_cases3)
  from feed_refines [OF assms(2,3) this] x have "x \<noteq> Inl FeedRangeError" by (auto simp: outcome_def split: option.splits)
  moreover have "\<exists>w2. sendRejects S rs w = Some w2 \<and> ok w2" for rs using rejects_spec [OF assms(1)] by blast
  ultimately have cases: "x = Inl e \<Longrightarrow> e \<noteq> FeedRangeError" "\<exists>w2. sendRejects S rs w = Some w2 \<and> ok w2" for e rs by auto
  show ?thesis
  proof (cases x)
    case (Inl e)
    then show ?thesis using x cases(1) [of e] by (cases e) (simp_all add: filtered_onData_def Let_def)
  next
    case (Inr r)
    obtain w2 where w2: "sendRejects S (zip (fr_reject r) (fr_rejectedLengths r)) w = Some w2" "ok w2" using cases(2) by blast
    obtain p' w' where "pipe_flush S D (p @ fr_forward r) w2 = Some (p', w')" using flush_spec [OF w2(2)] by blast
    with Inr x w2 show ?thesis by (simp add: filtered_onData_def)
  qed
qed

text \<open>What the filtered direction hands to the destination is what the filter lets through.\<close>

lemma filtered_safe:
  assumes "(filtered_step alloc S D env)\<^sup>*\<^sup>* ([], new_filter, [], w0) (got, f, p, w)" and "ok w0" and "taken w0 = []"
    and alloc: "\<And>n. length (alloc n) = n"
  shows "ok w \<and> filter_wf f \<and> held_back D p w \<and> (\<exists>fs rest. concat got = concat fs @ rest \<and> list_all agent_frame fs
    \<and> taken w @ p = filter harmless fs \<and> (co_closed D w \<or> live f = rest \<and> incomplete rest))"
  using assms(1)
proof (induction "(got, f, p, w)" arbitrary: got f p w rule: rtranclp_induct)
  case base
  then show ?case using assms(2,3) live_new by (intro conjI exI [of _ "[]"]) (simp_all add: held_back_def incomplete_def)
next
  case (step y)
  obtain got1 f1 p1 w1 where y: "y = (got1, f1, p1, w1)" by (metis prod_cases4)
  with step.hyps(3) obtain fs rest where IH: "ok w1" "filter_wf f1" "held_back D p1 w1" "concat got1 = concat fs @ rest"
    "list_all agent_frame fs" "taken w1 @ p1 = filter harmless fs" "co_closed D w1 \<or> live f1 = rest \<and> incomplete rest" by blast
  from step.hyps(2) [unfolded y] show ?case
  proof cases
    case (f_data chunk)
    then have live1: "live f1 = rest" using IH(7) by blast
    obtain x f2 where x: "feed alloc chunk f1 = (x, f2)" by fastforce
    obtain fs2 rest2 err where fr: "frames_of (rest @ chunk) = (fs2, rest2, err)" by (metis prod_cases3)
    note fed = feed_refines [OF IH(2) alloc fr [folded live1], unfolded x, folded no_result_def]
    show ?thesis
    proof (cases err)
      case None
      have bytes: "concat got = concat (fs @ fs2) @ rest2" "list_all agent_frame (fs @ fs2)" "incomplete rest2"
        using frames_of_bytes [OF fr] frames_of_stop [OF fr] None IH(4,5) f_data(1) by (simp_all add: agent_frame_eq)
      let ?r = "sort_frames fs2 no_result"
      have fwd: "fr_forward ?r = filter harmless fs2"
        using filters_sort_frames [OF _ filters_no_result, of fs2] frames_of_bytes [OF fr] by (simp add: filters_frames_def)
      have xr: "x = Inr ?r" using fed None by (simp add: outcome_def)
      obtain w2 where w2: "sendRejects S (zip (fr_reject ?r) (fr_rejectedLengths ?r)) w1 = Some w2" "ok w2" "taken w2 = taken w1"
        using rejects_spec [OF IH(1)] by blast
      from flush_spec [OF w2(2), of "p1 @ fr_forward ?r"] obtain sent where
        s: "ok w" "p1 @ fr_forward ?r = sent @ p" "taken w = taken w2 @ sent" "held_back D p w" "f = f2"
        using f_data x xr w2(1) by (auto simp: filtered_onData_def)
      have "taken w @ p = filter harmless (fs @ fs2)" using s(2,3) w2(3) IH(6) fwd by (metis append_assoc filter_append)
      with s bytes fed show ?thesis by (intro conjI exI [of _ "fs @ fs2"] exI [of _ rest2]) simp_all
    next
      case (Some n)
      then have "ok w \<and> taken w = taken w1 \<and> co_closed D w \<and> f = f2 \<and> p = p1"
        using f_data x fed IH(1) source_close_ok [OF IH(1)] close_ok close_closes
        by (auto simp: filtered_onData_def Let_def outcome_def split: if_splits)
      moreover have "concat got = concat fs @ (rest @ chunk)" using IH(4) f_data(1) by simp
      ultimately show ?thesis using IH(5,6) fed by (auto simp: held_back_def)
    qed
  next
    case (f_dropped chunk)
    with IH show ?thesis by (auto simp: filtered_onData_def)
  next
    case (f_drain w2)
    then have e: "ok w2" "taken w2 = taken w1" "co_closed D w1 \<longrightarrow> co_closed D w2" using env_ok env_closed IH(1) by blast+
    from flush_spec [OF e(1), of p1] f_drain obtain sent where
      s: "ok w" "p1 = sent @ p" "taken w = taken w2 @ sent" "held_back D p w" by auto
    have "co_closed D w2 \<Longrightarrow> w = w2" using f_drain by (cases p1) auto
    then have "co_closed D w \<or> live f = rest \<and> incomplete rest" using IH(7) e(3) f_drain by auto
    moreover have "taken w @ p = filter harmless fs" using s(2,3) e(2) IH(6) by simp
    ultimately show ?thesis using s IH(2,4,5) f_drain by blast
  qed
qed

end

subsection \<open>The ends are channels of real connections\<close>

text \<open>The interface of the channel object \<open>k\<close> of a connection with configuration \<open>cf\<close>.\<close>

definition mux_ops :: "mux_config \<Rightarrow> nat \<Rightarrow> mux channel_ops" where
  "mux_ops cf k =
    \<lparr>co_closed = (\<lambda>m. ch_closed (mx_objs m ! k)),
     co_sendWindow = (\<lambda>m. sendWindow (mx_objs m ! k)),
     co_send = (\<lambda>b m. let m' = mux_step cf m (CallChannel k (OpSend b)) in if mx_threw m' = None then Some m' else None),
     co_eof = (\<lambda>m. mux_step cf m (CallChannel k OpEof)),
     co_close = (\<lambda>m. mux_step cf m (CallChannel k OpClose)),
     co_acknowledgeConsumed = (\<lambda>n m. mux_step cf m (CallChannel k (OpAck n)))\<rparr>"

fun log_data :: "nat \<Rightarrow> mux_out list \<Rightarrow> byte list list" where
  "log_data c [] = []"
| "log_data c (WsSend raw # os) = (case decodeFrame raw of Some (Data c' p) \<Rightarrow> if c' = c then p # log_data c os else log_data c os | _ \<Rightarrow> log_data c os)"
| "log_data c (WsSwallow raw # os) = (case decodeFrame raw of Some (Data c' p) \<Rightarrow> if c' = c then p # log_data c os else log_data c os | _ \<Rightarrow> log_data c os)"
| "log_data c (_ # os) = log_data c os"

text \<open>The chunks the channel object \<open>k\<close> has accepted, in order, from the frames of its connection.\<close>

definition taken_by :: "nat \<Rightarrow> mux \<Rightarrow> byte list list" where
  "taken_by k m = log_data (ch_id (mx_objs m ! k)) (mx_out m)"

definition end_ok :: "mux_config \<Rightarrow> nat \<Rightarrow> mux \<Rightarrow> bool" where
  "end_ok cf k m \<longleftrightarrow> config_ok cf \<and> mux_inv cf None m \<and> k < length (mx_objs m)"

text \<open>A window adjustment from the peer, for any channel of the connection.\<close>

definition adjusts :: "mux_config \<Rightarrow> mux \<Rightarrow> mux \<Rightarrow> bool" where
  "adjusts cf m m' \<longleftrightarrow> (\<exists>data now c n. decodeFrame (raw_toBuffer data) = Some (WindowAdjust c n)
     \<and> m' = mux_step cf m (Message data True now))"

lemma log_data_append [simp]: "log_data c (xs @ ys) = log_data c xs @ log_data c ys"
  by (induction c xs rule: log_data.induct) (auto split: option.splits parsed_frame.splits)

fun quiet :: "mux_out \<Rightarrow> bool" where
  "quiet (WsSend _) \<longleftrightarrow> False"
| "quiet (WsSwallow _) \<longleftrightarrow> False"
| "quiet _ \<longleftrightarrow> True"

lemma log_data_quiet: "list_all quiet os \<Longrightarrow> log_data c os = []"
proof (induction os)
  case (Cons e os)
  then show ?case by (cases e) auto
qed simp

lemma data_closeLocally_all: "log_data c (mx_out (closeLocally_all ks m)) = log_data c (mx_out m)"
  by (induction ks arbitrary: m) (simp_all add: split_beta log_data_quiet list_all_iff)

lemma log_teardown: "log_data c (mx_out (teardown r m)) = log_data c (mx_out m)"
  by (simp add: teardown_def reject_waiters_def Let_def data_closeLocally_all log_data_quiet list_all_iff)

lemma log_sendFrame:
  "log_data c (mx_out (sendFrame cf (Some f) m)) = log_data c (mx_out m) @ log_data c [WsSend f]"
  by (auto simp: sendFrame_def Let_def socket_terminate_def log_teardown split: option.splits)

lemma header_not_data: "encodeHeader t c = Some f \<Longrightarrow> header_tag t \<Longrightarrow> \<exists>c' t'. decodeFrame f = Some (Header t' c')"
  using decode_header_prefix [of c t "[]"]
  by (cases t) (auto simp: encodeHeader_def write_u32be_def header_tag_def split: if_splits)

lemma log_sendHeader: "header_tag t \<Longrightarrow> log_data c (mx_out (sendFrame cf (encodeHeader t i) m)) = log_data c (mx_out m)"
proof (cases "encodeHeader t i")
  case (Some f)
  assume "header_tag t"
  with header_not_data [OF Some] obtain c' t' where "decodeFrame f = Some (Header t' c')" by blast
  with Some show ?thesis by (simp add: log_sendFrame)
qed (simp add: sendFrame_def)

lemma log_open_now: "log_data c (mx_out (open_now cf p s v m)) = log_data c (mx_out m)"
proof (cases "allocateChannelId cf m")
  case (Some r)
  then obtain cid n where "r = (cid, m\<lparr>mx_nextChannelId := n\<rparr>)"
    by (auto simp: allocateChannelId_def split: option.splits)
  with Some show ?thesis by (simp add: open_now_def log_sendHeader header_tag_def)
qed (simp add: open_now_def)

lemma log_open_body: "log_data c (mx_out (open_body cf p opts m)) = log_data c (mx_out m)"
  by (simp add: open_body_def Let_def log_open_now split: option.splits)

lemma log_drain_waiters: "log_data c (mx_out (drain_waiters cf m)) = log_data c (mx_out m)"
proof (induction cf m rule: drain_waiters.induct)
  case (1 cf m)
  have "log_data c (mx_out (proceed cf w (m\<lparr>mx_slotWaiters := ws\<rparr>))) = log_data c (mx_out m)" for w ws
    by (simp add: proceed_def log_open_body)
  with 1 show ?case
    by (cases "mx_slotWaiters m") (simp_all add: drain_waiters.simps [of cf m] Let_def)
qed

fun quiet_effect :: "channel_effect \<Rightarrow> bool" where
  "quiet_effect (SendFrame (Some f)) \<longleftrightarrow> (case decodeFrame f of Some (Data _ _) \<Rightarrow> False | _ \<Rightarrow> True)"
| "quiet_effect _ \<longleftrightarrow> True"

lemma sendFrame_None [simp]: "mx_out (sendFrame cf None m) = mx_out m" "mx_objs (sendFrame cf None m) = mx_objs m"
  by (simp_all add: sendFrame_def)

lemma log_run_effects: "list_all quiet_effect es \<Longrightarrow> log_data c (mx_out (run_effects cf es m)) = log_data c (mx_out m)"
proof (induction es arbitrary: m)
  case (Cons e es)
  have "log_data c (mx_out (run_effect cf e m)) = log_data c (mx_out m)"
    using Cons.prems
    by (cases e rule: quiet_effect.cases) (auto simp: log_sendFrame removeChannel_def drainSlotWaiters_def
        forgetStream_def log_drain_waiters split: option.splits parsed_frame.splits)
  with Cons show ?case by (simp add: unless_threw_def)
qed simp

text \<open>Objects keep their ids and never reopen.\<close>

definition objs_le :: "mux \<Rightarrow> mux \<Rightarrow> bool" where
  "objs_le m m' \<longleftrightarrow> length (mx_objs m') = length (mx_objs m)
     \<and> (\<forall>j < length (mx_objs m). ch_id (mx_objs m' ! j) = ch_id (mx_objs m ! j)
          \<and> (ch_closed (mx_objs m ! j) \<longrightarrow> ch_closed (mx_objs m' ! j)))"

lemma objs_le_trans: "objs_le a b \<Longrightarrow> objs_le b c \<Longrightarrow> objs_le a c"
  by (simp add: objs_le_def)

lemma objs_le_same: "mx_objs m' = mx_objs m \<Longrightarrow> objs_le m m'"
  by (simp add: objs_le_def)

lemma objs_le_eq_left: "mx_objs a = mx_objs b \<Longrightarrow> objs_le a c = objs_le b c"
  by (simp add: objs_le_def)

lemma objs_le_teardown: "objs_le m (teardown r m)"
  using closeLocally_all_objs [of "jm_values (mx_channels m)" m] teardown_objs [of m r]
  by (cases "mx_closed m") (simp_all add: objs_le_def teardown_def [of r m])

lemma objs_le_sendFrame: "objs_le m (sendFrame cf f m)"
  using objs_le_teardown [of "emits os (m\<lparr>mx_reads := n\<rparr>)" r for os n r]
  by (auto simp: sendFrame_def Let_def objs_le_def split: option.splits)

lemma objs_le_open_now: "objs_le m (open_now cf p s v m)"
proof (cases "allocateChannelId cf m")
  case (Some r)
  then obtain cid n where r: "r = (cid, m\<lparr>mx_nextChannelId := n\<rparr>)"
    by (auto simp: allocateChannelId_def split: option.splits)
  define m1 where "m1 = m\<lparr>mx_nextChannelId := n, mx_streamIds := (if s then List.insert cid (mx_streamIds m) else mx_streamIds m),
      mx_previewIds := (if v then List.insert cid (mx_previewIds m) else mx_previewIds m),
      mx_pendingOpens := jm_set cid p (mx_pendingOpens m)\<rparr>"
  have "open_now cf p s v m = sendFrame cf (encodeHeader FOpen cid) m1"
    using Some r by (simp add: open_now_def m1_def)
  moreover have "mx_objs m1 = mx_objs m" by (simp add: m1_def)
  ultimately show ?thesis using objs_le_sendFrame [of m1] objs_le_eq_left [of m1 m] by simp
qed (simp add: open_now_def objs_le_same)

lemma objs_le_open_body: "objs_le m (open_body cf p opts m)"
  by (simp add: open_body_def Let_def objs_le_open_now objs_le_same split: option.splits)

lemma objs_le_drain_waiters: "objs_le m (drain_waiters cf m)"
proof (induction cf m rule: drain_waiters.induct)
  case (1 cf m)
  have p: "objs_le m (proceed cf w (m\<lparr>mx_slotWaiters := ws\<rparr>))" for w ws
    using objs_le_open_body [of "emits [SlotAcquired (w_promise w)] (m\<lparr>mx_slotWaiters := ws\<rparr>)"]
      objs_le_eq_left [of "emits [SlotAcquired (w_promise w)] (m\<lparr>mx_slotWaiters := ws\<rparr>)" m] by (simp add: proceed_def)
  show ?case
  proof (cases "mx_slotWaiters m")
    case (Cons w ws)
    with "1.IH" [OF Cons _ refl] objs_le_trans [OF p [of w ws]] p show ?thesis
      by (simp add: drain_waiters.simps [of cf m] Let_def objs_le_same)
  qed (simp add: drain_waiters.simps [of cf m] objs_le_same)
qed

lemma objs_le_removeChannel: "objs_le m (removeChannel cf cid m)"
  using objs_le_drain_waiters [of "forgetStream cid (m\<lparr>mx_channels := jm_delete cid (mx_channels m)\<rparr>)" cf]
  by (auto simp: removeChannel_def drainSlotWaiters_def forgetStream_def objs_le_def)

lemma objs_le_run_effects: "objs_le m (run_effects cf es m)"
proof (induction es arbitrary: m)
  case (Cons e es)
  have "objs_le m (run_effect cf e m)"
    by (cases e) (simp_all add: objs_le_sendFrame objs_le_removeChannel objs_le_same)
  with Cons show ?case by (auto simp: unless_threw_def intro: objs_le_trans)
qed (simp add: objs_le_same)

lemma closed_stays_do: "ch_closed ch \<Longrightarrow> ch_closed (fst (channel_do op ch))"
  using closed_stays [of ch "[op]"] by (simp add: split_beta)

lemma objs_le_update:
  assumes "channel_do op (mx_objs m ! k) = (ch, es)"
  shows "objs_le m (m\<lparr>mx_objs := (mx_objs m)[k := ch]\<rparr>)"
  using assms channel_do_static(1) [of op "mx_objs m ! k"] closed_stays_do [of "mx_objs m ! k" op]
  by (auto simp: objs_le_def nth_update)

lemma objs_le_obj_do: "objs_le m (obj_do cf op k m)"
proof -
  obtain ch es where d: "channel_do op (mx_objs m ! k) = (ch, es)" by fastforce
  then show ?thesis
    using objs_le_trans [OF objs_le_update [OF d] objs_le_run_effects] by (simp add: obj_do_def)
qed

lemma end_ok_call:
  assumes "end_ok cf k m" and "public_op op"
  shows "end_ok cf k (mux_step cf m (CallChannel k op))"
  using assms inv_step [of cf m "CallChannel k op"]
  by (auto simp: end_ok_def mux_step_def channel_call_def split: channel_op.splits sum.splits)

lemma taken_quiet_call:
  assumes "end_ok cf k m" and "public_op op" and "\<And>b. op \<noteq> OpSend b"
    and "list_all quiet_effect (snd (channel_do op (mx_objs m ! k)))"
  shows "taken_by k (mux_step cf m (CallChannel k op)) = taken_by k m"
proof -
  let ?m = "m\<lparr>mx_threw := None\<rparr>"
  obtain ch es where d: "channel_do op (mx_objs m ! k) = (ch, es)" by fastforce
  have "mux_step cf m (CallChannel k op) = obj_do cf op k ?m"
    using assms(1-3) by (simp add: mux_step_def channel_call_def end_ok_def split: channel_op.splits)
  moreover have "ch_id (mx_objs (obj_do cf op k ?m) ! k) = ch_id (mx_objs m ! k)"
    using objs_le_obj_do [of ?m cf op k] assms(1) by (simp add: objs_le_def end_ok_def)
  moreover have "log_data c (mx_out (obj_do cf op k ?m)) = log_data c (mx_out m)" for c
    using assms(4) d by (simp add: obj_do_def log_run_effects)
  ultimately show ?thesis by (simp add: taken_by_def)
qed

lemma quiet_header: "header_tag t \<Longrightarrow> quiet_effect (SendFrame (encodeHeader t c))"
  using header_not_data [of t c] by (cases "encodeHeader t c") auto

lemma quiet_adjust: "quiet_effect (SendFrame (encodeWindowAdjust c n))"
proof (cases "encodeWindowAdjust c n")
  case (Some f)
  then have "frame_wf (WindowAdjust c n)" by (auto simp: encodeWindowAdjust_def write_u32be_def split: if_splits option.splits)
  with Some decode_encode [of "WindowAdjust c n" f] show ?thesis by simp
qed simp

lemma quiet_ops:
  "list_all quiet_effect (snd (channel_eof ch))" "list_all quiet_effect (snd (channel_close ch))"
  "list_all quiet_effect (snd (acknowledgeConsumed n ch))"
  using quiet_header [of FEof "ch_id ch"] quiet_header [of FClose "ch_id ch"] quiet_adjust
  by (auto simp: channel_eof_def channel_close_def acknowledgeConsumed_def fire_close_def Let_def header_tag_def
      list_all_iff simp del: quiet_effect.simps(1) split: if_splits)

lemma send_call:
  assumes "end_ok cf k m" and "\<not> ch_closed (mx_objs m ! k)" and "length b \<le> sendWindow (mx_objs m ! k)"
  shows "mx_threw (mux_step cf m (CallChannel k (OpSend b))) = None
    \<and> taken_by k (mux_step cf m (CallChannel k (OpSend b))) = taken_by k m @ [b]"
proof -
  let ?ch = "mx_objs m ! k" and ?m = "m\<lparr>mx_threw := None\<rparr>"
  have k: "k < length (mx_objs m)" and "obj_ok ?ch"
    using assms(1) heap_ok [of None m ?ch] by (auto simp: end_ok_def mux_inv_def)
  then obtain raw where raw: "encodeData (ch_id ?ch) b = Some raw" "decodeFrame raw = Some (Data (ch_id ?ch) b)"
    using encode_frame_Some [of "Data (ch_id ?ch) b"] decode_encode [of "Data (ch_id ?ch) b"] by (auto simp: obj_ok_def)
  define ch where "ch = ?ch\<lparr>ch_sendWindowBytes := ch_sendWindowBytes ?ch - length b\<rparr>"
  have s: "channel_send b ?ch = Inr (ch, [SendFrame (Some raw)])"
    using assms(2,3) raw(1) by (simp add: channel_send_def sendWindow_def ch_def)
  let ?u = "?m\<lparr>mx_objs := (mx_objs m)[k := ch]\<rparr>"
  have step: "mux_step cf m (CallChannel k (OpSend b)) = sendFrame cf (Some raw) ?u"
    using s k by (simp add: mux_step_def channel_call_def public_op_def obj_do_def unless_threw_def)
  have "ch_id (mx_objs (sendFrame cf (Some raw) ?u) ! k) = ch_id ?ch"
    using sendFrame_objs_id [of k ?u] k by (simp add: ch_def)
  then show ?thesis using raw(2) by (simp add: step taken_by_def log_sendFrame)
qed

lemma adjust_keeps:
  assumes "adjusts cf m m'" and "end_ok cf k m"
  shows "end_ok cf k m' \<and> taken_by k m' = taken_by k m \<and> objs_le m m'"
proof -
  obtain data now c n where a: "decodeFrame (raw_toBuffer data) = Some (WindowAdjust c n)"
    "m' = mux_step cf m (Message data True now)" using assms(1) by (auto simp: adjusts_def)
  let ?m = "m\<lparr>mx_threw := None\<rparr>"
  have m': "m' = (case jm_get (mx_channels m) c of None \<Rightarrow> ?m | Some j \<Rightarrow> obj_do cf (OpAdjust n) j ?m)"
    using a by (simp add: mux_step_def handleMessage_def dispatch_frame_def)
  have le: "objs_le m m'"
    using objs_le_obj_do [of ?m cf "OpAdjust n"] objs_le_eq_left [of ?m m] m'
    by (auto simp: objs_le_same split: option.splits)
  have "list_all quiet_effect (snd (channel_do (OpAdjust n) ch))" for ch
    by (auto simp: handleWindowAdjust_def list_all_iff)
  then have "log_data d (mx_out m') = log_data d (mx_out m)" for d
    using m' by (auto simp: obj_do_def split_beta log_run_effects split: option.splits)
  with le have "taken_by k m' = taken_by k m" using assms(2) by (simp add: taken_by_def objs_le_def end_ok_def)
  moreover have "end_ok cf k m'"
    using assms(2) inv_step [of cf m] le a(2) by (simp add: end_ok_def objs_le_def)
  ultimately show ?thesis using le by simp
qed

lemma mux_ops_laws:
  assumes "end_ok cf k m"
  shows "\<not> ch_closed (mx_objs m ! k) \<Longrightarrow> length b \<le> sendWindow (mx_objs m ! k)
      \<Longrightarrow> \<exists>m'. co_send (mux_ops cf k) b m = Some m' \<and> end_ok cf k m' \<and> taken_by k m' = taken_by k m @ [b]"
    and "end_ok cf k (co_close (mux_ops cf k) m) \<and> taken_by k (co_close (mux_ops cf k) m) = taken_by k m"
    and "end_ok cf k (co_eof (mux_ops cf k) m) \<and> taken_by k (co_eof (mux_ops cf k) m) = taken_by k m"
    and "end_ok cf k (co_acknowledgeConsumed (mux_ops cf k) n m)
      \<and> taken_by k (co_acknowledgeConsumed (mux_ops cf k) n m) = taken_by k m"
  using end_ok_call [OF assms] send_call [OF assms] taken_quiet_call [OF assms] quiet_ops
  by (auto simp: mux_ops_def public_op_def Let_def)

lemma call_objs_le: "objs_le m (mux_step cf m (CallChannel k op))"
proof -
  have "objs_le m (obj_do cf op k (m\<lparr>mx_threw := None\<rparr>))"
    using objs_le_obj_do [of "m\<lparr>mx_threw := None\<rparr>" cf op k] objs_le_eq_left [of "m\<lparr>mx_threw := None\<rparr>" m] by simp
  then show ?thesis
    by (auto simp: mux_step_def channel_call_def objs_le_same split: channel_op.splits sum.splits)
qed

lemma close_call_closes:
  assumes "end_ok cf k m"
  shows "ch_closed (mx_objs (mux_step cf m (CallChannel k OpClose)) ! k)"
proof -
  obtain ch es where d: "channel_close (mx_objs m ! k) = (ch, es)" by fastforce
  have k: "k < length (mx_objs m)" using assms by (simp add: end_ok_def)
  let ?u = "m\<lparr>mx_threw := None, mx_objs := (mx_objs m)[k := ch]\<rparr>"
  have "mux_step cf m (CallChannel k OpClose) = run_effects cf es ?u"
    using d k by (simp add: mux_step_def channel_call_def public_op_def obj_do_def)
  moreover have "ch_closed ch" using d by (auto simp: channel_close_def split: if_splits)
  ultimately show ?thesis using objs_le_run_effects [of ?u cf es] k by (simp add: objs_le_def)
qed

interpretation mux_end: mux_endpoint "mux_ops cf k" "taken_by k" "end_ok cf k" "adjusts cf" for cf k
proof
  fix m m' b n
  show "end_ok cf k m \<Longrightarrow> \<not> co_closed (mux_ops cf k) m \<Longrightarrow> length b \<le> co_sendWindow (mux_ops cf k) m
      \<Longrightarrow> \<exists>w'. co_send (mux_ops cf k) b m = Some w' \<and> end_ok cf k w' \<and> taken_by k w' = taken_by k m @ [b]"
    using mux_ops_laws(1) [of cf k m b] by (simp add: mux_ops_def)
  show "adjusts cf m m' \<Longrightarrow> end_ok cf k m \<Longrightarrow> end_ok cf k m' \<and> taken_by k m' = taken_by k m"
    using adjust_keeps by blast
  show "end_ok cf k m \<Longrightarrow> end_ok cf k (co_close (mux_ops cf k) m) \<and> taken_by k (co_close (mux_ops cf k) m) = taken_by k m"
    by (rule mux_ops_laws)
  show "end_ok cf k m \<Longrightarrow> end_ok cf k (co_eof (mux_ops cf k) m) \<and> taken_by k (co_eof (mux_ops cf k) m) = taken_by k m"
    by (rule mux_ops_laws)
  show "adjusts cf m m' \<Longrightarrow> end_ok cf k m \<Longrightarrow> co_closed (mux_ops cf k) m \<Longrightarrow> co_closed (mux_ops cf k) m'"
    using adjust_keeps [of cf m m' k] by (simp add: mux_ops_def objs_le_def end_ok_def)
  show "end_ok cf k m \<Longrightarrow> end_ok cf k (co_acknowledgeConsumed (mux_ops cf k) n m)
      \<and> taken_by k (co_acknowledgeConsumed (mux_ops cf k) n m) = taken_by k m
      \<and> (co_closed (mux_ops cf k) m \<longrightarrow> co_closed (mux_ops cf k) (co_acknowledgeConsumed (mux_ops cf k) n m))"
    using mux_ops_laws(4) [of cf k m n] call_objs_le [of m cf k "OpAck n"]
    by (simp add: mux_ops_def objs_le_def end_ok_def)
  show "end_ok cf k m \<Longrightarrow> co_closed (mux_ops cf k) (co_close (mux_ops cf k) m)"
    using close_call_closes by (simp add: mux_ops_def)
qed

subsection \<open>Two connections as the world of a relay\<close>

definition on_fst :: "'a channel_ops \<Rightarrow> ('a \<times> 'b) channel_ops" where
  "on_fst P = \<lparr>co_closed = co_closed P \<circ> fst, co_sendWindow = co_sendWindow P \<circ> fst,
     co_send = (\<lambda>b w. map_option (\<lambda>a. (a, snd w)) (co_send P b (fst w))),
     co_eof = apfst (co_eof P), co_close = apfst (co_close P),
     co_acknowledgeConsumed = (\<lambda>n. apfst (co_acknowledgeConsumed P n))\<rparr>"

definition on_snd :: "'b channel_ops \<Rightarrow> ('a \<times> 'b) channel_ops" where
  "on_snd P = \<lparr>co_closed = co_closed P \<circ> snd, co_sendWindow = co_sendWindow P \<circ> snd,
     co_send = (\<lambda>b w. map_option (\<lambda>a. (fst w, a)) (co_send P b (snd w))),
     co_eof = apsnd (co_eof P), co_close = apsnd (co_close P),
     co_acknowledgeConsumed = (\<lambda>n. apsnd (co_acknowledgeConsumed P n))\<rparr>"

text \<open>Two independent endpoints are the two ends of a relay.\<close>

locale endpoint_pair = src: mux_endpoint S takenS okS envS + dst: mux_endpoint D takenD okD envD
  for S :: "'a channel_ops" and takenS okS envS and D :: "'b channel_ops" and takenD okD envD

sublocale endpoint_pair \<subseteq> pair: relay_ends "on_snd D" "\<lambda>w. takenD (snd w)" "\<lambda>w. okS (fst w) \<and> okD (snd w)"
    "\<lambda>w w'. fst w' = fst w \<and> envD (snd w) (snd w')" "on_fst S"
proof
  fix w w' :: "'a \<times> 'b" and b n
  show "okS (fst w) \<and> okD (snd w) \<Longrightarrow> \<not> co_closed (on_snd D) w \<Longrightarrow> length b \<le> co_sendWindow (on_snd D) w
      \<Longrightarrow> \<exists>w'. co_send (on_snd D) b w = Some w' \<and> (okS (fst w') \<and> okD (snd w')) \<and> takenD (snd w') = takenD (snd w) @ [b]"
    using dst.send_fits [of "snd w" b] by (auto simp: on_snd_def)
  show "okS (fst w) \<and> okD (snd w) \<Longrightarrow> \<not> co_closed (on_fst S) w \<Longrightarrow> length b \<le> co_sendWindow (on_fst S) w
      \<Longrightarrow> \<exists>w'. co_send (on_fst S) b w = Some w' \<and> (okS (fst w') \<and> okD (snd w')) \<and> takenD (snd w') = takenD (snd w)"
    using src.send_fits [of "fst w" b] by (auto simp: on_fst_def)
qed (use src.ack_self dst.ack_self src.close_ok dst.close_ok dst.env_ok dst.eof_ok dst.env_closed dst.close_closes in
    \<open>auto simp: on_fst_def on_snd_def\<close>)

interpretation two_muxes: endpoint_pair "mux_ops cs ks" "taken_by ks" "end_ok cs ks" "adjusts cs"
    "mux_ops cd kd" "taken_by kd" "end_ok cd kd" "adjusts cd" for cs ks cd kd
  by unfold_locales

text \<open>The destination's window changes, the source's connection does not.\<close>

definition dest_adjusts :: "mux_config \<Rightarrow> mux \<times> mux \<Rightarrow> mux \<times> mux \<Rightarrow> bool" where
  "dest_adjusts cd w w' \<longleftrightarrow> fst w' = fst w \<and> adjusts cd (snd w) (snd w')"

lemma dest_adjusts_eq: "dest_adjusts cd = (\<lambda>w w'. fst w' = fst w \<and> adjusts cd (snd w) (snd w'))"
  by (simp add: dest_adjusts_def fun_eq_iff)

text \<open>A connection with one accepted channel, for the witnesses.\<close>

definition one_channel :: "mux_config \<Rightarrow> mux" where
  "one_channel cf = mux_run cf [Message (RawBuffer [1, 0, 0, 0, 3]) True 0]"

definition plain_config :: mux_config where
  "plain_config = mux_config_of \<lparr>mo_maxChannels = None, mo_maxStreamChannels = None,
     mo_maxPreviewChannels = None, mo_even = True, mo_maxBufferedBytes = None\<rparr> (\<lambda>_. 0)"

lemma one_channel_unfold:
  "mx_objs (one_channel plain_config) = [new_channel 3 CHANNEL_WINDOW_BYTES]
    \<and> mx_out (one_channel plain_config) = [WsSend [2, 0, 0, 0, 3]]"
  by (simp add: one_channel_def plain_config_def mux_run_def mux_step_def mux_config_of_def new_mux_def
      unless_threw_def handleMessage_def decodeFrame_def HEADER_BYTES_def tag_of_byte_def dispatch_frame_def
      handle_open_def openChannelCount_def jm_size_def jm_has_def DEFAULT_MAX_CHANNELS_def add_channel_def
      sendFrame_def encodeHeader_def write_u32be_def u32be_def FrameType_def emits_def jm_set_def Let_def)

lemma one_channel_ok: "end_ok plain_config 0 (one_channel plain_config)" "taken_by 0 (one_channel plain_config) = []"
proof -
  have "config_ok plain_config" unfolding plain_config_def by (rule config_ok_of)
  then show "end_ok plain_config 0 (one_channel plain_config)"
    using mux_inv_run one_channel_unfold by (simp add: end_ok_def one_channel_def)
  show "taken_by 0 (one_channel plain_config) = []"
    using one_channel_unfold by (simp add: taken_by_def decodeFrame_def HEADER_BYTES_def tag_of_byte_def)
qed

definition wpair :: "mux \<times> mux" where
  "wpair = (one_channel plain_config, one_channel plain_config)"

lemma wpair_open: "\<not> co_closed (on_snd (mux_ops plain_config 0)) wpair"
  using one_channel_unfold by (simp add: wpair_def on_snd_def mux_ops_def new_channel_def)

lemma wpair_flush:
  "\<exists>rest w. pipe_flush (on_fst (mux_ops plain_config 0)) (on_snd (mux_ops plain_config 0)) p wpair = Some (rest, w)"
  using two_muxes.pair.flush_spec [of plain_config 0 wpair plain_config 0 p] one_channel_ok by (auto simp: wpair_def)

subsection \<open>Properties\<close>

text \<open>
  C20: Relaying one channel into another loses, duplicates and reorders nothing: after any
  sequence of arriving chunks and window adjustments, what the destination channel has accepted
  followed by what still waits is exactly what arrived while the destination was open, in order. Something waits only when the
  destination is closed or has no window for the first waiting chunk. And in every such state neither handler
  throws: not the one for the next chunk, whatever it holds, and not the one for the next adjustment.
\<close>

theorem relay_conserves_data:
  assumes "(pipe_step (on_fst (mux_ops cs ks)) (on_snd (mux_ops cd kd)) (dest_adjusts cd))\<^sup>*\<^sup>*
      ([], [], ms, md) (got, pending, ms', md')"
    and "end_ok cs ks ms" and "end_ok cd kd md"
  shows "taken_by kd md' @ pending = taken_by kd md @ got \<and> held_back (on_snd (mux_ops cd kd)) pending (ms', md')
    \<and> pipe_onData (on_fst (mux_ops cs ks)) (on_snd (mux_ops cd kd)) chunk pending (ms', md') \<noteq> None
    \<and> (dest_adjusts cd (ms', md') w
        \<longrightarrow> pipe_flush (on_fst (mux_ops cs ks)) (on_snd (mux_ops cd kd)) pending w \<noteq> None)"
proof -
  have "held_back (on_snd (mux_ops cd kd)) [] (ms, md)" by (simp add: held_back_def)
  then obtain g where "got = [] @ g" "taken_by kd md' @ pending = taken_by kd md @ [] @ g"
    and ok: "end_ok cs ks ms' \<and> end_ok cd kd md'" "held_back (on_snd (mux_ops cd kd)) pending (ms', md')"
    using two_muxes.pair.pipe_conserves [OF assms(1) [unfolded dest_adjusts_eq]] assms(2,3) by auto
  then show ?thesis
    using two_muxes.pair.pipe_total [of cs ks "(ms', md')" cd kd chunk pending w] by (simp add: dest_adjusts_eq)
qed

theorem relay_conserves_data_witness:
  "\<exists>pending ms md. taken_by 0 md @ pending = [[1, 2]]
    \<and> pipe_flush (on_fst (mux_ops plain_config 0)) (on_snd (mux_ops plain_config 0)) [[1, 2]] wpair = Some (pending, ms, md)"
proof -
  let ?S = "on_fst (mux_ops plain_config 0) :: (mux \<times> mux) channel_ops" and ?D = "on_snd (mux_ops plain_config 0)"
  obtain rest ms md where fl: "pipe_flush ?S ?D [[1, 2]] wpair = Some (rest, ms, md)"
    using wpair_flush [of "[[1, 2]]"] by auto
  then have "pipe_step ?S ?D (dest_adjusts plain_config) ([], [], wpair) ([] @ [[1, 2]], rest, ms, md)"
    using wpair_open by (intro pipe_step.data) (simp_all add: pipe_onData_def)
  then have "(pipe_step ?S ?D (dest_adjusts plain_config))\<^sup>*\<^sup>*
      ([], [], one_channel plain_config, one_channel plain_config) ([[1, 2]], rest, ms, md)"
    by (simp add: wpair_def r_into_rtranclp)
  from relay_conserves_data [OF this one_channel_ok(1) one_channel_ok(1), THEN conjunct1] fl show ?thesis
    by (auto simp: one_channel_ok(2))
qed

text \<open>
  C19: What reaches the channel towards the user's agent through the filtered relay is exactly the sequence of
  list-identities and sign requests in the bytes taken over from the client, cut into frames from the first byte on: each
  chunk the destination has accepted or that still waits is one such frame, whole, and none is left out or
  reordered. The bytes behind those frames are incomplete, or the relay has closed. And no handler throws,
  whatever the next chunk or adjustment.
\<close>

theorem filtered_relay_only_forwards_safe:
  assumes "(filtered_step alloc (on_fst (mux_ops cs ks)) (on_snd (mux_ops cd kd)) (dest_adjusts cd))\<^sup>*\<^sup>*
      ([], new_filter, [], ms, md) (got, f, pending, ms', md')"
    and "end_ok cs ks ms" and "end_ok cd kd md" and "taken_by kd md = []" and "\<And>n. length (alloc n) = n"
  shows "(\<exists>frames rest. concat got = concat frames @ rest \<and> list_all agent_frame frames
      \<and> taken_by kd md' @ pending = filter harmless frames
      \<and> (co_closed (on_snd (mux_ops cd kd)) (ms', md') \<or> incomplete rest))
    \<and> filtered_onData alloc (on_fst (mux_ops cs ks)) (on_snd (mux_ops cd kd)) chunk f pending (ms', md') \<noteq> None
    \<and> (dest_adjusts cd (ms', md') w
        \<longrightarrow> pipe_flush (on_fst (mux_ops cs ks)) (on_snd (mux_ops cd kd)) pending w \<noteq> None)"
proof -
  note r = two_muxes.pair.filtered_safe [OF assms(1) [unfolded dest_adjusts_eq], simplified fst_conv snd_conv, OF _ assms(4,5)]
  then have ok: "end_ok cs ks ms' \<and> end_ok cd kd md'" "filter_wf f" using assms(2,3) by blast+
  have "filtered_onData alloc (on_fst (mux_ops cs ks)) (on_snd (mux_ops cd kd)) chunk f pending (ms', md') \<noteq> None"
    using two_muxes.pair.filtered_total [of cs ks "(ms', md')" cd kd f alloc chunk pending] ok assms(5) by simp
  with r assms(2,3) ok show ?thesis
    using two_muxes.pair.pipe_total [of cs ks "(ms', md')" cd kd chunk pending w] by (simp add: dest_adjusts_eq) blast
qed

text \<open>The witness: an identity is added and the identities are listed in one chunk; only the list request passes.\<close>

theorem filtered_relay_only_forwards_safe_witness:
  "\<exists>f pending ms md frames rest. filtered_onData (\<lambda>n. replicate n 0) (on_fst (mux_ops plain_config 0)) (on_snd (mux_ops plain_config 0))
        [0, 0, 0, 1, 17, 0, 0, 0, 1, 11] new_filter [] wpair = Some (f, pending, ms, md)
    \<and> [0, 0, 0, 1, 17, 0, 0, 0, 1, 11] = concat frames @ rest \<and> list_all agent_frame frames
    \<and> taken_by 0 md @ pending = filter harmless frames"
proof -
  let ?S = "on_fst (mux_ops plain_config 0) :: (mux \<times> mux) channel_ops" and ?D = "on_snd (mux_ops plain_config 0)"
  let ?chunk = "[0, 0, 0, 1, 17, 0, 0, 0, 1, 11] :: byte list"
  have alloc: "length ((\<lambda>n. replicate n 0) n) = n" for n by simp
  have open_: "\<not> co_closed ?D wpair" "\<not> co_closed ?S wpair"
    using wpair_open one_channel_unfold by (simp_all add: wpair_def on_fst_def mux_ops_def new_channel_def)
  have "filtered_onData (\<lambda>n. replicate n 0) ?S ?D ?chunk new_filter [] wpair \<noteq> None"
    using two_muxes.pair.filtered_total [of plain_config 0 wpair plain_config 0 new_filter "\<lambda>n. replicate n 0"]
      one_channel_ok(1) live_new(1) by (simp add: wpair_def)
  then obtain f pending ms md where
    run: "filtered_onData (\<lambda>n. replicate n 0) ?S ?D ?chunk new_filter [] wpair = Some (f, pending, ms, md)" by auto
  have "filtered_step (\<lambda>n. replicate n 0) ?S ?D (dest_adjusts plain_config)
      ([], new_filter, [], wpair) ([] @ [?chunk], f, pending, ms, md)"
    by (rule filtered_step.f_data [OF open_ run])
  then have "(filtered_step (\<lambda>n. replicate n 0) ?S ?D (dest_adjusts plain_config))\<^sup>*\<^sup>*
      ([], new_filter, [], one_channel plain_config, one_channel plain_config) ([?chunk], f, pending, ms, md)"
    by (simp add: wpair_def r_into_rtranclp)
  from filtered_relay_only_forwards_safe [OF this one_channel_ok(1) one_channel_ok(1) one_channel_ok(2) alloc, THEN conjunct1] run
  show ?thesis by auto
qed

text \<open>
  A socket piped into a channel never loses or reorders a byte while the channel is open:
  the chunks read from the socket are those the channel accepted plus at most one that waits,
  and the socket is paused while it does.
\<close>

theorem socket_pipe_conserves_data:
  assumes "(netpipe_step (mux_ops cf k) (adjusts cf))\<^sup>*\<^sup>* (new_netpipe m, []) (s, got)" and "end_ok cf k m"
  shows "(np_pendingChunk s \<noteq> None \<longrightarrow> np_paused s)
    \<and> (\<not> co_closed (mux_ops cf k) (np_world s) \<longrightarrow> taken_by k (np_world s) @ pending_list s = taken_by k m @ got)"
  using mux_end.netpipe_conserves [OF assms] by blast

theorem socket_pipe_conserves_data_witness:
  "\<exists>s. taken_by 0 (np_world s) @ pending_list s = [] \<and> (netpipe_step (mux_ops plain_config 0) (adjusts plain_config))\<^sup>*\<^sup>*
      (new_netpipe (one_channel plain_config), []) (s, [])"
proof -
  let ?s = "np_onChannelData [9] (new_netpipe (one_channel plain_config))"
  have run: "(netpipe_step (mux_ops plain_config 0) (adjusts plain_config))\<^sup>*\<^sup>*
      (new_netpipe (one_channel plain_config), []) (?s, [])"
    by (intro r_into_rtranclp netpipe_step.np_chdata)
  have "\<not> co_closed (mux_ops plain_config 0) (np_world ?s)"
    using one_channel_unfold by (simp add: np_onChannelData_def new_netpipe_def mux_ops_def new_channel_def)
  with socket_pipe_conserves_data [OF run one_channel_ok(1)] run one_channel_ok(2) show ?thesis by auto
qed

definition sign_request :: "nat \<Rightarrow> byte list" where
  "sign_request n = u32be n @ 13 # replicate (n - 1) 0"

lemma frames_of_sign_request:
  assumes "0 < n" and "n \<le> MAX_FRAME_BYTES"
  shows "frames_of (sign_request n) = ([sign_request n], [], None)"
proof -
  have "n < 4294967296" using assms(2) by (simp add: MAX_FRAME_BYTES_def)
  then have "read_u32be (sign_request n) = Some n" by (simp add: sign_request_def read_u32be_u32be)
  moreover have "length (sign_request n) = LENGTH_PREFIX_BYTES + n"
    using assms(1) by (simp add: sign_request_def LENGTH_PREFIX_BYTES_def)
  ultimately show ?thesis using assms(2) by (simp add: frames_of.simps [of "sign_request n"] frames_of_Nil)
qed

text \<open>
  C21: The filter's frame limit is larger than a channel's window: a sign request whose body has
  more than 262140 bytes (the limit is 262144) is let through by the filter, and yet no channel
  of any connection ever has the window to send it, so the relay keeps it, and everything behind
  it, for good.
\<close>

theorem big_request_is_never_relayed:
  assumes "\<And>n. length (alloc n) = n" and "262140 < n" and "n \<le> 262144"
    and "k < length (mx_objs (mux_run (mux_config_of opts buffered) is))"
  shows "fst (feed alloc (sign_request n) new_filter)
      = Inr \<lparr>fr_forward = [sign_request n], fr_reject = [], fr_rejectedLengths = []\<rparr>
    \<and> pipe_flush S (mux_ops cf k) (sign_request n # rest) (mux_run (mux_config_of opts buffered) is)
      = Some (sign_request n # rest, mux_run (mux_config_of opts buffered) is)"
proof -
  let ?m = "mux_run (mux_config_of opts buffered) is"
  have "frames_of (live new_filter @ sign_request n) = ([sign_request n], [], None)"
    using frames_of_sign_request [of n] assms(2,3) by (simp add: live_new MAX_FRAME_BYTES_def)
  from feed_refines [OF live_new(1) assms(1) this]
  have "fst (feed alloc (sign_request n) new_filter) = Inr (sort_frames [sign_request n] no_result)"
    by (simp add: outcome_def no_result_def)
  moreover have len: "length (sign_request n) = 4 + n" using assms(2) by (simp add: sign_request_def)
  moreover have "sign_request n ! 4 = 13" by (simp add: sign_request_def nth_append)
  ultimately have fwd: "fst (feed alloc (sign_request n) new_filter)
      = Inr \<lparr>fr_forward = [sign_request n], fr_reject = [], fr_rejectedLengths = []\<rparr>"
    using assms(2) by (simp add: sort_frames_def sort_frame_def frame_type_def LENGTH_PREFIX_BYTES_def classify_iff
        no_result_def)
  have "mux_inv (mux_config_of opts buffered) None ?m" by (intro mux_inv_run config_ok_of)
  then have "obj_ok (mx_objs ?m ! k)" using heap_ok [of None ?m] assms(4) by (simp add: mux_inv_def)
  then have "co_sendWindow (mux_ops cf k) ?m \<le> 262144"
    by (simp add: mux_ops_def sendWindow_def obj_ok_def channel_wf_def CHANNEL_WINDOW_BYTES_def)
  with len assms(2) have "length (sign_request n) > co_sendWindow (mux_ops cf k) ?m" by simp
  with fwd show ?thesis by simp
qed

theorem big_request_is_never_relayed_witness:
  "pipe_flush (mux_ops plain_config 0) (mux_ops plain_config 0) [sign_request 262144] (one_channel plain_config)
    = Some ([sign_request 262144], one_channel plain_config)"
  using big_request_is_never_relayed [of "\<lambda>n. replicate n 0" 262144 0 _ _ _ "mux_ops plain_config 0" plain_config "[]"]
    one_channel_unfold by (simp only: one_channel_def plain_config_def) (simp add: length_replicate)

end
