(* ===== verification/Limiters.thy ===== *)
theory Limiters
  imports Prelude "HOL-Library.Multiset"
begin

section \<open>Bounded stores: nonces, failures, retries, windows\<close>

text \<open>
  Four in-memory stores over an insertion-ordered \<open>Map\<close>: the replay protection of
  \<open>src/services/nonce-store.ts\<close>, the failure budget of \<open>src/services/failure-rate-limiter.ts\<close>, the
  retry ledger of \<open>src/services/task-retry-backoff.ts\<close> and the fixed-window limiter of
  \<open>src/services/session-message-queue.ts\<close>. Each is a step machine whose invariant bounds its size.
  A function that reads the clock several times takes the readings as \<open>clock :: nat \<Rightarrow> int\<close>.
\<close>

subsection \<open>Nonces\<close>

definition MAX_NONCES :: nat where "MAX_NONCES = 100000"

type_synonym nonce_store = "(string, int) jsmap"

definition checkAndRecord :: "string \<Rightarrow> int \<Rightarrow> int \<Rightarrow> nonce_store \<Rightarrow> bool \<times> nonce_store" where
  "checkAndRecord nonce ttlMs now seen =
     (if (case jm_get seen nonce of Some expiresAt \<Rightarrow> expiresAt > now | None \<Rightarrow> False) then (False, seen)
      else
        let seen' = (if jm_size seen \<ge> MAX_NONCES then jm_delete_oldest seen else seen)
        in (True, jm_set nonce (now + ttlMs) seen'))"

definition nonce_sweep :: "int \<Rightarrow> nonce_store \<Rightarrow> nonce_store" where
  "nonce_sweep now seen = filter (\<lambda>(_, expiresAt). \<not> expiresAt \<le> now) seen"

datatype nonce_op = Check string int int | Sweep int

fun nonce_step :: "nonce_store \<Rightarrow> nonce_op \<Rightarrow> nonce_store" where
  "nonce_step m (Check n ttl now) = snd (checkAndRecord n ttl now m)"
| "nonce_step m (Sweep now) = nonce_sweep now m"

fun op_time :: "nonce_op \<Rightarrow> int" where
  "op_time (Check _ _ now) = now"
| "op_time (Sweep now) = now"

fun is_check :: "nonce_op \<Rightarrow> bool" where
  "is_check (Check _ _ _) = True"
| "is_check (Sweep _) = False"

definition nonce_inv :: "nonce_store \<Rightarrow> bool" where
  "nonce_inv m \<longleftrightarrow> jm_wf m \<and> jm_size m \<le> MAX_NONCES"

lemma bounded_put:
  assumes "jm_wf m" and "jm_size m \<le> cap" and "0 < cap"
  shows "jm_wf (jm_set k v (if jm_size m \<ge> cap then jm_delete_oldest m else m))
    \<and> jm_size (jm_set k v (if jm_size m \<ge> cap then jm_delete_oldest m else m)) \<le> cap"
proof -
  let ?m = "if jm_size m \<ge> cap then jm_delete_oldest m else m"
  have "jm_wf ?m" "jm_size ?m < cap"
    using assms size_delete_oldest [OF assms(1)] by (auto intro: jm_wf_delete_oldest)
  then show ?thesis using jm_size_set_le [of k v ?m] jm.wf_put [of ?m k v] by simp
qed

lemma MAX_NONCES_pos: "0 < MAX_NONCES"
  by (simp add: MAX_NONCES_def)

lemma nonce_inv_step: "nonce_inv m \<Longrightarrow> nonce_inv (nonce_step m op)"
proof (cases op)
  case (Check n ttl now)
  assume "nonce_inv m"
  with Check bounded_put [of m MAX_NONCES n "now + ttl"] MAX_NONCES_pos show ?thesis
    by (auto simp: nonce_inv_def checkAndRecord_def Let_def split: if_splits)
next
  case (Sweep now)
  assume "nonce_inv m"
  with Sweep show ?thesis
    by (auto simp: nonce_inv_def nonce_sweep_def jm_wf_filter jm_size_def intro: order_trans [OF length_filter_le])
qed

interpretation nonces: step_machine nonce_step "\<lambda>_. True" nonce_inv
  by unfold_locales (rule nonce_inv_step)

text \<open>
  A recorded nonce with fewer than \<open>MAX_NONCES - 1\<close> younger entries behind it is not the next to go.
\<close>

definition recorded :: "string \<Rightarrow> int \<Rightarrow> nat \<Rightarrow> nonce_store \<Rightarrow> bool" where
  "recorded x e n m \<longleftrightarrow> (\<exists>pre post. m = pre @ (x, e) # post \<and> length post \<le> n) \<and> jm_wf m"

lemma recorded_get: "recorded x e n m \<Longrightarrow> jm_get m x = Some e"
proof -
  assume "recorded x e n m"
  then have "(x, e) \<in> set m" and "distinct (map fst m)" by (auto simp: recorded_def jm_wf_def)
  then show ?thesis by (simp add: jm_get_def)
qed

lemma delete_oldest_tl:
  assumes "jm_wf m"
  shows "jm_delete_oldest m = tl m"
proof (cases m)
  case (Cons kv rest)
  then have "AList.delete (fst kv) rest = rest" using assms by (simp add: jm_wf_def)
  with Cons show ?thesis by (cases kv) (simp add: jm_delete_oldest_def jm_oldest_def jm_delete_def)
qed (simp add: jm_delete_oldest_def jm_oldest_def)

lemma update_append: "AList.update k v (xs @ ys) =
    (if k \<in> fst ` set xs then AList.update k v xs @ ys else xs @ AList.update k v ys)"
  by (induction xs) auto

lemma recorded_set:
  assumes "recorded x e n m" and "k \<noteq> x"
  shows "recorded x e (Suc n) (jm_set k v m)"
proof -
  obtain pre post where m: "m = pre @ (x, e) # post" "length post \<le> n" "jm_wf m"
    using assms(1) by (auto simp: recorded_def)
  have len: "length (AList.update k v post) \<le> Suc (length post)"
    using jm_size_set_le [of k v post] by (simp add: jm_size_def jm_set_def)
  have "jm_wf (jm_set k v m)" using m(3) by (rule jm.wf_put)
  moreover have "\<exists>pre' post'. jm_set k v m = pre' @ (x, e) # post' \<and> length post' \<le> Suc n"
  proof (cases "k \<in> fst ` set pre")
    case True
    then have "jm_set k v m = AList.update k v pre @ (x, e) # post" by (simp add: m(1) jm_set_def update_append)
    then show ?thesis using m(2) le_SucI by blast
  next
    case False
    then have "jm_set k v m = pre @ (x, e) # AList.update k v post"
      using assms(2) by (simp add: m(1) jm_set_def update_append)
    then show ?thesis using len m(2) by (meson le_trans Suc_le_mono)
  qed
  ultimately show ?thesis by (simp add: recorded_def)
qed

lemma recorded_evict:
  assumes "recorded x e n m" and "jm_size m \<ge> MAX_NONCES" and "Suc n < MAX_NONCES"
  shows "recorded x e n (jm_delete_oldest m)"
proof -
  obtain pre post where m: "m = pre @ (x, e) # post" "length post \<le> n" "jm_wf m"
    using assms(1) by (auto simp: recorded_def)
  then obtain y pre' where "pre = y # pre'" using assms(2,3) by (cases pre) (auto simp: jm_size_def)
  then have "jm_delete_oldest m = pre' @ (x, e) # post" using m(1,3) by (simp add: delete_oldest_tl)
  moreover have "jm_wf (jm_delete_oldest m)" using m(3) by (rule jm_wf_delete_oldest)
  ultimately show ?thesis using m(2) by (auto simp: recorded_def)
qed

lemma recorded_sweep:
  assumes "recorded x e n m" and "now < e"
  shows "recorded x e n (nonce_sweep now m)"
proof -
  obtain pre post where m: "m = pre @ (x, e) # post" "length post \<le> n" "jm_wf m"
    using assms(1) by (auto simp: recorded_def)
  let ?P = "\<lambda>(_, expiresAt). \<not> expiresAt \<le> now"
  have "nonce_sweep now m = filter ?P pre @ (x, e) # filter ?P post"
    using m(1) assms(2) by (simp add: nonce_sweep_def)
  moreover have "length (filter ?P post) \<le> n" using length_filter_le [of ?P post] m(2) by linarith
  moreover have "jm_wf (nonce_sweep now m)" unfolding nonce_sweep_def using m(3) by (rule jm_wf_filter)
  ultimately show ?thesis unfolding recorded_def by blast
qed

lemma recorded_step:
  assumes "recorded x e n m" and "op_time op < e" and "Suc n < MAX_NONCES"
  shows "recorded x e (if is_check op then Suc n else n) (nonce_step m op)"
proof (cases op)
  case (Check y ttl now)
  have weaken: "recorded x e (Suc n) m" using assms(1) by (fastforce simp: recorded_def)
  show ?thesis
  proof (cases "y = x")
    case True
    with Check assms(2) weaken show ?thesis by (simp add: checkAndRecord_def recorded_get [OF assms(1)])
  next
    case False
    with Check assms(1,3) weaken show ?thesis
      by (auto simp: checkAndRecord_def Let_def recorded_set recorded_evict split: option.splits)
  qed
qed (use assms recorded_sweep in simp)

lemma recorded_run:
  "recorded x e n m \<Longrightarrow> \<forall>op \<in> set ops. op_time op < e \<Longrightarrow> n + length (filter is_check ops) < MAX_NONCES - 1
    \<Longrightarrow> recorded x e (n + length (filter is_check ops)) (foldl nonce_step m ops)"
proof (induction ops arbitrary: n m)
  case (Cons op ops)
  have "recorded x e (if is_check op then Suc n else n) (nonce_step m op)"
    using Cons.prems by (intro recorded_step) auto
  with Cons.IH [of "if is_check op then Suc n else n" "nonce_step m op"] Cons.prems show ?case
    by (auto split: if_splits)
qed simp

text \<open>
  A nonce that is not in the store when it is recorded cannot be replayed while it lives: it
  is accepted once and refused by every check before its expiry, whatever other nonces are
  checked and however often the store is swept in between, until \<open>MAX_NONCES - 2\<close> other checks
  have passed. The store never exceeds \<open>MAX_NONCES\<close> entries.
\<close>

theorem nonce_replay_rejected:
  assumes "nonce_inv m" and "jm_get m x = None" and "\<forall>op \<in> set ops. op_time op \<le> now'" and "now' < now + ttl"
    and "length (filter is_check ops) < MAX_NONCES - 1"
  shows "fst (checkAndRecord x ttl now m)
    \<and> \<not> fst (checkAndRecord x ttl' now' (foldl nonce_step (snd (checkAndRecord x ttl now m)) ops))
    \<and> jm_size (foldl nonce_step (snd (checkAndRecord x ttl now m)) ops) \<le> MAX_NONCES"
proof -
  let ?m0 = "if jm_size m \<ge> MAX_NONCES then jm_delete_oldest m else m"
  let ?m1 = "snd (checkAndRecord x ttl now m)"
  have m1: "fst (checkAndRecord x ttl now m)" "?m1 = jm_set x (now + ttl) ?m0"
    using assms(2) by (simp_all add: checkAndRecord_def Let_def)
  have "jm_get ?m0 x = None" using assms(2) by (simp add: jm_get_delete_oldest)
  then have "x \<notin> fst ` set ?m0" by (simp add: jm_get_def map_of_eq_None_iff)
  then have "jm_set x (now + ttl) ?m0 = ?m0 @ [(x, now + ttl)]"
    using update_append [of x "now + ttl" ?m0 "[]"] by (simp add: jm_set_def)
  moreover have inv: "nonce_inv ?m1" using nonce_inv_step [OF assms(1), of "Check x ttl now"] by simp
  ultimately have "recorded x (now + ttl) 0 ?m1" using m1(2) by (auto simp: recorded_def nonce_inv_def)
  then have "recorded x (now + ttl) (length (filter is_check ops)) (foldl nonce_step ?m1 ops)"
    using recorded_run [of x "now + ttl" 0 ?m1 ops] assms(3-5) by fastforce
  moreover have "nonce_inv (foldl nonce_step ?m1 ops)" using nonces.inv_run [OF inv, of ops] by (simp add: list_all_iff)
  ultimately show ?thesis
    using m1(1) assms(4) by (simp add: checkAndRecord_def recorded_get nonce_inv_def)
qed

theorem nonce_replay_rejected_witness:
  "fst (checkAndRecord ''a'' 60 10 []) \<and> \<not> fst (checkAndRecord ''a'' 60 40
     (foldl nonce_step (snd (checkAndRecord ''a'' 60 10 [])) [Check ''b'' 60 20, Sweep 30]))"
  using nonce_replay_rejected [of "[]" "''a''" "[Check ''b'' 60 20, Sweep 30]" 40 10 60 60]
  by (simp add: nonce_inv_def jm_size_def MAX_NONCES_def)

text \<open>
  An expired nonce that is recorded again keeps its old place in the \<open>Map\<close>: in a full store the
  second check after it evicts it, and it can be replayed at once, long before its new expiry.
\<close>

lemma rerecorded_nonce_replayed:
  assumes m: "m = (a, ea) # (x, ex) # rest" "jm_wf m" "jm_size m = MAX_NONCES" and "ex \<le> now"
    and fresh: "y \<notin> fst ` set m" "z \<notin> fst ` set m" "y \<noteq> z"
  shows "fst (checkAndRecord x ttl now m)
    \<and> fst (checkAndRecord x ttl now (foldl nonce_step m [Check x ttl now, Check y ttl now, Check z ttl now]))"
proof -
  have neq: "a \<noteq> x" "a \<notin> fst ` set rest" "x \<notin> fst ` set rest" using m by (auto simp: jm_wf_def)
  have none: "map_of rest y = None" "map_of rest z = None" using fresh m by (simp_all add: map_of_eq_None_iff)
  have app: "AList.update k v rest = rest @ [(k, v)]" if "map_of rest k = None" for k v
    using update_append [of k v rest "[]"] that by (simp add: map_of_eq_None_iff)
  have 1: "nonce_step m (Check x ttl now) = (x, now + ttl) # rest"
    using m neq assms(4) by (simp add: checkAndRecord_def Let_def delete_oldest_tl jm_get_def jm_set_def)
  have 2: "nonce_step ((x, now + ttl) # rest) (Check y ttl now) = (x, now + ttl) # rest @ [(y, now + ttl)]"
    using m fresh none MAX_NONCES_pos
    by (auto simp: checkAndRecord_def Let_def jm_get_def jm_set_def jm_size_def app)
  have wf: "jm_wf ((x, now + ttl) # rest @ [(y, now + ttl)])" using m fresh by (auto simp: jm_wf_def)
  have 3: "nonce_step ((x, now + ttl) # rest @ [(y, now + ttl)]) (Check z ttl now)
      = AList.update z (now + ttl) (rest @ [(y, now + ttl)])"
    using m fresh none wf
    by (simp add: checkAndRecord_def Let_def jm_get_def jm_set_def jm_size_def delete_oldest_tl map_add_def)
  have "jm_get (AList.update z (now + ttl) (rest @ [(y, now + ttl)])) x = None"
    using neq(3) fresh m map_of_eq_None_iff [of rest x] by (auto simp: jm_get_def update_conv' map_add_def)
  then show ?thesis
    using 1 2 3 m neq assms(4) by (simp add: checkAndRecord_def jm_get_def)
qed

subsection \<open>Failures in a sliding window\<close>

definition MAX_TRACKED_KEYS :: nat where "MAX_TRACKED_KEYS = 10000"

type_synonym failure_store = "(string, int list) jsmap"

definition fl_live :: "int \<Rightarrow> int \<Rightarrow> string \<Rightarrow> failure_store \<Rightarrow> int list \<times> failure_store" where
  "fl_live windowMs now key failures =
     (let cutoff = now - windowMs;
          kept = filter (\<lambda>t. t > cutoff) (case jm_get failures key of Some ts \<Rightarrow> ts | None \<Rightarrow> [])
      in (kept, if kept = [] then jm_delete key failures else jm_set key kept failures))"

definition fl_isBlocked :: "nat \<Rightarrow> int \<Rightarrow> int \<Rightarrow> string \<Rightarrow> failure_store \<Rightarrow> bool \<times> failure_store" where
  "fl_isBlocked maxFailures windowMs now key failures =
     (case fl_live windowMs now key failures of (kept, failures') \<Rightarrow> (length kept \<ge> maxFailures, failures'))"

text \<open>The sweep over all keys, \<open>clock i\<close> being the reading for the i-th of them.\<close>

fun fl_sweep :: "int \<Rightarrow> (nat \<Rightarrow> int) \<Rightarrow> string list \<Rightarrow> failure_store \<Rightarrow> failure_store" where
  "fl_sweep windowMs clock [] failures = failures"
| "fl_sweep windowMs clock (k # ks) failures =
     fl_sweep windowMs (\<lambda>i. clock (Suc i)) ks (snd (fl_live windowMs (clock 0) k failures))"

definition fl_make_room :: "int \<Rightarrow> (nat \<Rightarrow> int) \<Rightarrow> string \<Rightarrow> failure_store \<Rightarrow> failure_store" where
  "fl_make_room windowMs clock key failures =
     (if jm_size failures \<ge> MAX_TRACKED_KEYS \<and> \<not> jm_has failures key
      then let swept = fl_sweep windowMs clock (jm_keys failures) failures
           in if jm_size swept \<ge> MAX_TRACKED_KEYS then jm_delete_oldest swept else swept
      else failures)"

definition fl_recordFailure :: "int \<Rightarrow> (nat \<Rightarrow> int) \<Rightarrow> int \<Rightarrow> int \<Rightarrow> string \<Rightarrow> failure_store \<Rightarrow> failure_store" where
  "fl_recordFailure windowMs clock nowLive nowPush key failures =
     (case fl_live windowMs nowLive key (fl_make_room windowMs clock key failures) of
        (kept, failures') \<Rightarrow> jm_set key (kept @ [nowPush]) failures')"

text \<open>\<open>Math.ceil(x / 1000)\<close> on integers.\<close>

definition fl_retryAfterSeconds :: "int \<Rightarrow> int \<Rightarrow> int \<Rightarrow> string \<Rightarrow> failure_store \<Rightarrow> int \<times> failure_store" where
  "fl_retryAfterSeconds windowMs nowLive now key failures =
     (case fl_live windowMs nowLive key failures of (kept, failures') \<Rightarrow>
        (case kept of [] \<Rightarrow> 1 | t # _ \<Rightarrow> max 1 (- ((- (t + windowMs - now)) div 1000)), failures'))"

datatype fl_op = FlFail string "nat \<Rightarrow> int" int int | FlQuery string int

fun fl_step :: "int \<Rightarrow> failure_store \<Rightarrow> fl_op \<Rightarrow> failure_store" where
  "fl_step w m (FlFail k clock nowLive nowPush) = fl_recordFailure w clock nowLive nowPush k m"
| "fl_step w m (FlQuery k now) = snd (fl_live w now k m)"

text \<open>All the failures ever recorded for a key.\<close>

fun fl_history :: "string \<Rightarrow> fl_op list \<Rightarrow> int list" where
  "fl_history k [] = []"
| "fl_history k (FlFail k' _ _ t # ops) = (if k' = k then t # fl_history k ops else fl_history k ops)"
| "fl_history k (FlQuery _ _ # ops) = fl_history k ops"

definition fl_times :: "failure_store \<Rightarrow> string \<Rightarrow> int list" where
  "fl_times m k = (case jm_get m k of Some ts \<Rightarrow> ts | None \<Rightarrow> [])"

lemma fl_times_live:
  "fl_times (snd (fl_live w now k m)) k' = (if k' = k then filter (\<lambda>t. t > now - w) (fl_times m k) else fl_times m k')"
  by (auto simp: fl_times_def fl_live_def Let_def jm.get_put jm.get_delete split: option.splits)

lemma fl_live_fst: "fst (fl_live w now k m) = filter (\<lambda>t. t > now - w) (fl_times m k)"
  by (simp add: fl_live_def fl_times_def Let_def)

lemma fl_wf_live: "jm_wf m \<Longrightarrow> jm_wf (snd (fl_live w now k m))"
  by (simp add: fl_live_def Let_def jm.wf_put jm.wf_delete)

lemma fl_size_live: "jm_size (snd (fl_live w now k m)) \<le> jm_size m"
  by (auto simp: fl_live_def Let_def jm_size_keys jm.keys_delete jm.keys_put jm.get_in_keys [symmetric]
      split: option.splits intro: length_filter_le)

lemma fl_wf_sweep: "jm_wf m \<Longrightarrow> jm_wf (fl_sweep w clock ks m)"
  by (induction ks arbitrary: clock m) (simp_all add: fl_wf_live)

lemma fl_size_sweep: "jm_size (fl_sweep w clock ks m) \<le> jm_size m"
  by (induction ks arbitrary: clock m) (auto intro: order_trans [OF _ fl_size_live])

lemma fl_times_sweep_sub: "mset (fl_times (fl_sweep w clock ks m) k) \<subseteq># mset (fl_times m k)"
proof (induction ks arbitrary: clock m)
  case (Cons k' ks)
  have "mset (fl_times (snd (fl_live w (clock 0) k' m)) k) \<subseteq># mset (fl_times m k)"
    by (simp add: fl_times_live multiset_filter_subset)
  with Cons show ?case by (auto intro: subset_mset.order_trans)
qed simp

lemma fl_make_room_props:
  assumes "jm_wf m" and "jm_size m \<le> MAX_TRACKED_KEYS"
  shows "jm_wf (fl_make_room w clock k m)" and "jm_size (fl_make_room w clock k m) \<le> MAX_TRACKED_KEYS"
    and "jm_has (fl_make_room w clock k m) k \<or> jm_size (fl_make_room w clock k m) < MAX_TRACKED_KEYS"
    and "mset (fl_times (fl_make_room w clock k m) k') \<subseteq># mset (fl_times m k')"
proof -
  let ?s = "fl_sweep w clock (jm_keys m) m"
  have pos: "0 < MAX_TRACKED_KEYS" by (simp add: MAX_TRACKED_KEYS_def)
  have s: "jm_wf ?s" "jm_size ?s \<le> MAX_TRACKED_KEYS"
    using fl_wf_sweep [OF assms(1)] order_trans [OF fl_size_sweep assms(2)] by blast+
  have sub: "mset (fl_times (jm_delete_oldest ?s) k') \<subseteq># mset (fl_times m k')"
    using fl_times_sweep_sub [of w clock "jm_keys m" m k']
    by (simp add: fl_times_def jm_get_delete_oldest split: option.splits)
  show "jm_wf (fl_make_room w clock k m)"
    using assms s by (simp add: fl_make_room_def Let_def jm_wf_delete_oldest)
  show "jm_size (fl_make_room w clock k m) \<le> MAX_TRACKED_KEYS"
    using assms s size_delete_oldest [OF s(1)] by (simp add: fl_make_room_def Let_def)
  show "jm_has (fl_make_room w clock k m) k \<or> jm_size (fl_make_room w clock k m) < MAX_TRACKED_KEYS"
    using assms s size_delete_oldest [OF s(1)] pos by (auto simp: fl_make_room_def Let_def)
  show "mset (fl_times (fl_make_room w clock k m) k') \<subseteq># mset (fl_times m k')"
    using sub fl_times_sweep_sub by (auto simp: fl_make_room_def Let_def)
qed

definition fl_inv :: "failure_store \<Rightarrow> bool" where
  "fl_inv m \<longleftrightarrow> jm_wf m \<and> jm_size m \<le> MAX_TRACKED_KEYS"

lemma fl_inv_record:
  assumes "fl_inv m"
  shows "fl_inv (fl_recordFailure w clock nl np k m)"
proof -
  note r = fl_make_room_props [of m w clock k, OF assms [unfolded fl_inv_def, THEN conjunct1]
      assms [unfolded fl_inv_def, THEN conjunct2]]
  let ?r = "fl_make_room w clock k m"
  let ?l = "snd (fl_live w nl k ?r)"
  have "jm_size (jm_set k v ?l) \<le> MAX_TRACKED_KEYS" for v
  proof (cases "jm_has ?r k")
    case True
    then have k: "k \<in> set (jm_keys ?r)" by (simp add: jm_has_def jm_keys_def)
    have "?l = jm_delete k ?r \<or> (\<exists>ts. ?l = jm_set k ts ?r)" by (auto simp: fl_live_def Let_def)
    then show ?thesis
    proof
      assume "?l = jm_delete k ?r"
      with k r(1,2) jm.size_delete_present [of ?r k] jm_size_set_le [of k v ?l] show ?thesis
        by (simp add: jm_size_keys)
    next
      assume "\<exists>ts. ?l = jm_set k ts ?r"
      with k r(2) show ?thesis by (auto simp: jm_size_keys jm.keys_put)
    qed
  next
    case False
    with r(3) have "jm_size ?l < MAX_TRACKED_KEYS" using fl_size_live [of w nl k ?r] by simp
    then show ?thesis using jm_size_set_le [of k v ?l] by simp
  qed
  then show ?thesis
    using r(1) fl_wf_live by (auto simp: fl_inv_def fl_recordFailure_def split_beta intro: jm.wf_put)
qed

lemma fl_inv_step: "fl_inv m \<Longrightarrow> fl_inv (fl_step w m op)"
proof (cases op)
  case (FlQuery k now)
  assume "fl_inv m"
  with FlQuery fl_wf_live [of m w now k] fl_size_live [of w now k m] show ?thesis by (simp add: fl_inv_def)
qed (simp add: fl_inv_record)

interpretation failure_machine: step_machine "fl_step w" "\<lambda>_. True" fl_inv for w
  by unfold_locales (rule fl_inv_step)

lemma fl_inv_run: "fl_inv (foldl (fl_step w) [] ops)"
  using failure_machine.inv_run [of "[]" ops w] by (simp add: fl_inv_def jm_size_def list_all_iff)

lemma fl_history_append: "fl_history k (xs @ ys) = fl_history k xs @ fl_history k ys"
  by (induction k xs rule: fl_history.induct) auto

text \<open>What is kept for a key is some of what was recorded for it.\<close>

lemma filter_sub: "mset xs \<subseteq># M \<Longrightarrow> mset (filter P xs) \<subseteq># M"
  by (metis mset_filter multiset_filter_subset subset_mset.order_trans)

lemma fl_times_sub: "mset (fl_times (foldl (fl_step w) [] ops) k) \<subseteq># mset (fl_history k ops)"
proof (induction ops rule: rev_induct)
  case Nil
  then show ?case by (simp add: fl_times_def)
next
  case (snoc op ops)
  let ?m = "foldl (fl_step w) [] ops"
  have inv: "jm_wf ?m" "jm_size ?m \<le> MAX_TRACKED_KEYS" using fl_inv_run by (simp_all add: fl_inv_def)
  show ?case
  proof (cases op)
    case (FlFail k' clock nl np)
    let ?r = "fl_make_room w clock k' ?m"
    have r: "mset (fl_times ?r k) \<subseteq># mset (fl_history k ops)"
      using fl_make_room_props(4) [OF inv] snoc by (rule subset_mset.order_trans)
    have "fl_times (fl_step w ?m op) k = (if k = k' then filter (\<lambda>t. t > nl - w) (fl_times ?r k) @ [np] else fl_times ?r k)"
      using fl_times_live [of w nl k' ?r k] fl_live_fst [of w nl k' ?r] FlFail
      by (simp add: fl_recordFailure_def split_beta fl_times_def jm.get_put)
    moreover have "mset (filter (\<lambda>t. t > nl - w) (fl_times ?r k)) \<subseteq># mset (fl_history k ops)"
      using r by (rule filter_sub)
    ultimately show ?thesis using r FlFail by (auto simp: fl_history_append)
  next
    case (FlQuery k' now)
    with snoc filter_sub [OF snoc, of "\<lambda>t. t > now - w"] show ?thesis
      by (auto simp: fl_history_append fl_times_live)
  qed
qed

lemma subset_count_filter: "mset xs \<subseteq># mset ys \<Longrightarrow> length (filter P xs) \<le> length (filter P ys)"
proof -
  assume "mset xs \<subseteq># mset ys"
  then have "filter_mset P (mset xs) \<subseteq># filter_mset P (mset ys)" by (rule multiset_filter_mono)
  then have "size (mset (filter P xs)) \<le> size (mset (filter P ys))" using size_mset_mono by (simp only: mset_filter)
  then show ?thesis by (simp only: size_mset)
qed

text \<open>
  The failure limiter never blocks a key for anything but its own failures, and its memory is
  bounded: after any failures of any keys, a key is blocked at \<open>now\<close> only if at least \<open>max\<close> failures
  of that key were recorded less than \<open>windowMs\<close> ago, and at most \<open>MAX_TRACKED_KEYS\<close> keys are held.
\<close>

theorem failure_limiter_sound:
  assumes "fst (fl_isBlocked n w now k (foldl (fl_step w) [] ops))"
  shows "n \<le> length (filter (\<lambda>t. t > now - w) (fl_history k ops))
    \<and> jm_size (foldl (fl_step w) [] ops) \<le> MAX_TRACKED_KEYS"
proof -
  have "n \<le> length (filter (\<lambda>t. t > now - w) (fl_times (foldl (fl_step w) [] ops) k))"
    using assms fl_live_fst [of w now k] by (simp add: fl_isBlocked_def split_beta)
  also have "\<dots> \<le> length (filter (\<lambda>t. t > now - w) (fl_history k ops))"
    by (intro subset_count_filter fl_times_sub)
  finally show ?thesis using fl_inv_run [of w ops] by (simp add: fl_inv_def)
qed

theorem failure_limiter_sound_witness:
  "2 \<le> length (filter (\<lambda>t. t > 5 - 60000) (fl_history ''k'' [FlFail ''k'' (\<lambda>_. 0) 0 1, FlFail ''k'' (\<lambda>_. 2) 2 3]))
   \<and> jm_size (foldl (fl_step 60000) [] [FlFail ''k'' (\<lambda>_. 0) 0 1, FlFail ''k'' (\<lambda>_. 2) 2 3]) \<le> MAX_TRACKED_KEYS"
  by (rule failure_limiter_sound)
    (simp add: fl_isBlocked_def fl_live_def fl_recordFailure_def fl_make_room_def jm_size_def MAX_TRACKED_KEYS_def
      jm_get_def jm_set_def jm_delete_def Let_def)

subsection \<open>The retry ledger\<close>

text \<open>
  \<open>attempts\<close> may be pinned to any count, 0 included, where the source computes half of \<open>ttlMs\<close>:
  the wait is kept doubled to stay within the integers. \<open>extra\<close> holds the call site's own fields.
\<close>

record retry_entry =
  re_lastAttemptedAt :: int
  re_attempts :: nat
  re_extra :: jobject

record retry_options =
  ro_ttlMs :: int
  ro_maxTtlMs :: int
  ro_maxEntries :: nat

type_synonym 'k retry_ledger = "('k, retry_entry) jsmap"

definition backoffMs_doubled :: "retry_options \<Rightarrow> nat \<Rightarrow> int" where
  "backoffMs_doubled opts attempts = min (ro_ttlMs opts * 2 ^ attempts) (2 * ro_maxTtlMs opts)"

definition rb_shouldAttempt :: "retry_options \<Rightarrow> 'k \<Rightarrow> int \<Rightarrow> 'k retry_ledger \<Rightarrow> bool" where
  "rb_shouldAttempt opts key now entries =
     (case jm_get entries key of
        None \<Rightarrow> True
      | Some entry \<Rightarrow> 2 * (now - re_lastAttemptedAt entry) \<ge> backoffMs_doubled opts (re_attempts entry))"

definition rb_record :: "retry_options \<Rightarrow> 'k \<Rightarrow> int \<Rightarrow> nat option \<Rightarrow> jobject \<Rightarrow> 'k retry_ledger \<Rightarrow> retry_entry \<times> 'k retry_ledger" where
  "rb_record opts key now pinned extra entries =
     (let existing = jm_get entries key;
          entries' = (if existing = None \<and> jm_size entries \<ge> ro_maxEntries opts then jm_delete_oldest entries else entries);
          attempts = (case pinned of Some n \<Rightarrow> n
             | None \<Rightarrow> (case existing of Some e \<Rightarrow> re_attempts e | None \<Rightarrow> 0) + 1);
          entry = \<lparr>re_lastAttemptedAt = now, re_attempts = attempts,
                    re_extra = spread (case existing of Some e \<Rightarrow> re_extra e | None \<Rightarrow> []) extra\<rparr>
      in (entry, jm_set key entry entries'))"

definition rb_reset :: "'k \<Rightarrow> 'k retry_ledger \<Rightarrow> 'k retry_ledger" where
  "rb_reset key entries = jm_delete key entries"

datatype 'k retry_op = RbRecord 'k int "nat option" jobject | RbReset 'k

fun rb_step :: "retry_options \<Rightarrow> 'k retry_ledger \<Rightarrow> 'k retry_op \<Rightarrow> 'k retry_ledger" where
  "rb_step opts m (RbRecord k now pinned extra) = snd (rb_record opts k now pinned extra m)"
| "rb_step opts m (RbReset k) = rb_reset k m"

definition rb_inv :: "retry_options \<Rightarrow> 'k retry_ledger \<Rightarrow> bool" where
  "rb_inv opts m \<longleftrightarrow> jm_wf m \<and> jm_size m \<le> ro_maxEntries opts \<and> 0 < ro_maxEntries opts"

lemma rb_inv_step: "rb_inv opts m \<Longrightarrow> rb_inv opts (rb_step opts m op)"
proof (cases op)
  case (RbRecord k now pinned extra)
  assume inv: "rb_inv opts m"
  show ?thesis
  proof (cases "jm_get m k")
    case None
    with inv RbRecord bounded_put [of m "ro_maxEntries opts" k] show ?thesis
      by (simp add: rb_inv_def rb_record_def Let_def)
  next
    case (Some e)
    with inv RbRecord jm_size_set_present [of m k] show ?thesis
      by (simp add: rb_inv_def rb_record_def Let_def jm.wf_put)
  qed
next
  case (RbReset k)
  assume "rb_inv opts m"
  with RbReset jm.size_delete_le [of k m] show ?thesis
    by (simp add: rb_inv_def rb_reset_def jm.wf_delete jm_size_keys)
qed

interpretation retry_machine: step_machine "rb_step opts" "\<lambda>_. True" "rb_inv opts" for opts
  by unfold_locales (rule rb_inv_step)

text \<open>\<open>n\<close> attempts in a row, the last at time \<open>t\<close>.\<close>

fun rb_attempts :: "retry_options \<Rightarrow> 'k \<Rightarrow> int list \<Rightarrow> 'k retry_ledger \<Rightarrow> 'k retry_ledger" where
  "rb_attempts opts k [] m = m"
| "rb_attempts opts k (t # ts) m = rb_attempts opts k ts (rb_step opts m (RbRecord k t None []))"

lemma rb_attempts_entry:
  "jm_get m k = Some e \<Longrightarrow> \<exists>e'. jm_get (rb_attempts opts k ts m) k = Some e'
    \<and> re_attempts e' = re_attempts e + length ts \<and> re_lastAttemptedAt e' = last (re_lastAttemptedAt e # ts)"
proof (induction ts arbitrary: m e)
  case (Cons t ts)
  have "jm_get (rb_step opts m (RbRecord k t None [])) k
      = Some \<lparr>re_lastAttemptedAt = t, re_attempts = re_attempts e + 1, re_extra = re_extra e\<rparr>"
    using Cons.prems by (simp add: rb_record_def Let_def jm.get_put)
  from Cons.IH [OF this] show ?case by simp
qed simp

text \<open>
  The retry schedule: after \<open>n + 1\<close> attempts of a key in a row, the last at time \<open>t\<close>, the next one
  is due exactly when \<open>min (ttlMs * 2 ^ n) maxTtlMs\<close> milliseconds have passed since \<open>t\<close>; the wait
  is never longer than the ceiling, so no key is stranded. The ledger never holds more than
  \<open>maxEntries\<close> keys.
\<close>

theorem retry_backoff_schedule:
  assumes "rb_inv opts m" and "jm_get m k = None"
  shows "rb_shouldAttempt opts k now (rb_attempts opts k (ts @ [t]) m)
      = (now - t \<ge> min (ro_ttlMs opts * 2 ^ length ts) (ro_maxTtlMs opts))
    \<and> (now - t \<ge> ro_maxTtlMs opts \<longrightarrow> rb_shouldAttempt opts k now (rb_attempts opts k (ts @ [t]) m))
    \<and> jm_size (rb_attempts opts k (ts @ [t]) m) \<le> ro_maxEntries opts"
proof -
  obtain t0 ts' where ts: "ts @ [t] = t0 # ts'" by (cases ts) auto
  let ?m = "rb_step opts m (RbRecord k t0 None [])"
  have "jm_get ?m k = Some \<lparr>re_lastAttemptedAt = t0, re_attempts = 1, re_extra = []\<rparr>"
    using assms(2) by (simp add: rb_record_def Let_def jm.get_put)
  from rb_attempts_entry [OF this, of opts ts'] obtain e where
    e: "jm_get (rb_attempts opts k (ts @ [t]) m) k = Some e" "re_attempts e = 1 + length ts'"
      "re_lastAttemptedAt e = last (t0 # ts')"
    by (auto simp: ts)
  have len: "1 + length ts' = Suc (length ts)" using arg_cong [OF ts, of length] by simp
  have "last (t0 # ts') = t" using arg_cong [OF ts, of last] by simp
  with e len have sched: "rb_shouldAttempt opts k now (rb_attempts opts k (ts @ [t]) m)
      = (now - t \<ge> min (ro_ttlMs opts * 2 ^ length ts) (ro_maxTtlMs opts))"
    by (auto simp: rb_shouldAttempt_def backoffMs_doubled_def min_def)
  have "rb_inv opts (rb_attempts opts k us m')" if "rb_inv opts m'" for us m'
    using that by (induction us arbitrary: m') (simp_all add: rb_inv_step del: rb_step.simps)
  then have "rb_inv opts (rb_attempts opts k (ts @ [t]) m)" using assms(1) .
  with sched show ?thesis by (auto simp: rb_inv_def)
qed

theorem retry_backoff_schedule_witness:
  "rb_shouldAttempt \<lparr>ro_ttlMs = 100, ro_maxTtlMs = 350, ro_maxEntries = 2\<rparr> ''task'' 520
     (rb_attempts \<lparr>ro_ttlMs = 100, ro_maxTtlMs = 350, ro_maxEntries = 2\<rparr> ''task'' ([0, 110] @ [170]) [])"
  using retry_backoff_schedule [of "\<lparr>ro_ttlMs = 100, ro_maxTtlMs = 350, ro_maxEntries = 2\<rparr>" "[]" "''task''" 520 "[0, 110]" 170]
  by (simp add: rb_inv_def jm_size_def)

subsection \<open>A fixed window per key\<close>

record rate_window =
  rw_startedAt :: int
  rw_used :: nat

type_synonym window_limiter = "(string, rate_window) jsmap"

definition wl_take :: "nat \<Rightarrow> int \<Rightarrow> int \<Rightarrow> string \<Rightarrow> window_limiter \<Rightarrow> bool \<times> window_limiter" where
  "wl_take maxUses windowMs now key windows =
     (let fresh =
        (let ws = jm_set key \<lparr>rw_startedAt = now, rw_used = 1\<rparr> windows
         in (True, if jm_size ws > 1024 then filter (\<lambda>(_, w). \<not> now - rw_startedAt w \<ge> windowMs) ws else ws))
      in case jm_get windows key of
           None \<Rightarrow> fresh
         | Some current \<Rightarrow>
             if now - rw_startedAt current \<ge> windowMs then fresh
             else if rw_used current \<ge> maxUses then (False, windows)
             else (True, jm_set key (current\<lparr>rw_used := rw_used current + 1\<rparr>) windows))"

text \<open>A window never counts more than the allowance, and only a new window starts the count again.\<close>

definition wl_inv :: "nat \<Rightarrow> window_limiter \<Rightarrow> bool" where
  "wl_inv maxUses m \<longleftrightarrow> jm_wf m \<and> (\<forall>w \<in> snd ` set m. 1 \<le> rw_used w \<and> rw_used w \<le> max 1 maxUses)"

lemma values_set_sub: "snd ` set (jm_set k v m) \<subseteq> insert v (snd ` set m)"
  by (induction m) (auto simp: jm_set_def)

lemma jm_get_value: "jm_get m k = Some v \<Longrightarrow> v \<in> snd ` set m"
  by (auto simp: jm_get_def dest!: map_of_SomeD intro: rev_image_eqI)

lemma wl_inv_set: "wl_inv n m \<Longrightarrow> 1 \<le> rw_used v \<Longrightarrow> rw_used v \<le> max 1 n \<Longrightarrow> wl_inv n (jm_set k v m)"
  using values_set_sub [of k v m] jm.wf_put [of m k v] unfolding wl_inv_def by blast

lemma wl_inv_filter: "wl_inv n m \<Longrightarrow> wl_inv n (filter P m)"
  by (auto simp: wl_inv_def jm_wf_filter)

lemma wl_inv_take:
  assumes "wl_inv n m"
  shows "wl_inv n (snd (wl_take n w now k m))"
proof -
  have "wl_inv n (jm_set k \<lparr>rw_startedAt = now, rw_used = 1\<rparr> m)" using assms by (rule wl_inv_set) simp_all
  moreover have "wl_inv n (jm_set k (c\<lparr>rw_used := rw_used c + 1\<rparr>) m)"
    if "jm_get m k = Some c" "\<not> rw_used c \<ge> n" for c
    using assms that by (intro wl_inv_set) auto
  ultimately show ?thesis
    using assms by (auto simp: wl_take_def Let_def wl_inv_filter split: option.splits)
qed

interpretation window_machine: step_machine "\<lambda>m (now, k). snd (wl_take n w now k m)" "\<lambda>_. True" "wl_inv n" for n w
  by unfold_locales (auto intro: wl_inv_take)

end
