(* ===== verification/GateRegistry.thy ===== *)
theory GateRegistry
  imports Prelude
begin

section \<open>Review gates of a session\<close>

text \<open>
  \<open>src/services/gate-registry.ts\<close>: the live map of waiting gates and the scalar summary derived
  from it. \<open>register\<close> reads the clock twice, for the entry and for the summary. The two calls of
  the host interface are the result's event list.
\<close>

datatype gate_state = GIdle | GWaiting | GApproved | GDenied | GLapsed
datatype gate_decision = DApproved | DDenied | DLapsed

record gate_entry =
  ge_prompt :: string
  ge_at :: int

record gate_registry =
  gr_state :: gate_state
  gr_prompt :: "string option"
  gr_at :: "int option"
  gr_pending :: "(string, gate_entry) jsmap"

datatype gate_event = ReviewGate gate_decision string string "string option" | ClearReviewGateAttention

definition new_gates :: gate_registry where
  "new_gates = \<lparr>gr_state = GIdle, gr_prompt = None, gr_at = None, gr_pending = []\<rparr>"

fun state_of_decision :: "gate_decision \<Rightarrow> gate_state" where
  "state_of_decision DApproved = GApproved"
| "state_of_decision DDenied = GDenied"
| "state_of_decision DLapsed = GLapsed"

definition gate_register :: "string \<Rightarrow> string \<Rightarrow> int \<Rightarrow> int \<Rightarrow> gate_registry \<Rightarrow> gate_registry" where
  "gate_register gateId prompt now1 now2 g =
     (let isFirstGate = (jm_size (gr_pending g) = 0);
          g1 = g\<lparr>gr_pending := jm_set gateId \<lparr>ge_prompt = prompt, ge_at = now1\<rparr> (gr_pending g), gr_state := GWaiting\<rparr>
      in if isFirstGate then g1\<lparr>gr_prompt := Some prompt, gr_at := Some now2\<rparr> else g1)"

definition gate_pendingIds :: "gate_registry \<Rightarrow> string list" where
  "gate_pendingIds g = jm_keys (gr_pending g)"

definition gate_entries :: "gate_registry \<Rightarrow> (string \<times> string \<times> int) list" where
  "gate_entries g = map (\<lambda>(gateId, e). (gateId, ge_prompt e, ge_at e)) (gr_pending g)"

definition gate_resolve :: "string \<Rightarrow> gate_decision \<Rightarrow> string option \<Rightarrow> gate_registry \<Rightarrow> gate_registry \<times> gate_event list" where
  "gate_resolve gateId decision reason g =
     (case jm_get (gr_pending g) gateId of
        None \<Rightarrow> (g, [])
      | Some pending \<Rightarrow>
          let g1 = g\<lparr>gr_pending := jm_delete gateId (gr_pending g)\<rparr>;
              ev = ReviewGate decision gateId (ge_prompt pending) reason
          in case gr_pending g1 of
               [] \<Rightarrow> (g1\<lparr>gr_state := state_of_decision decision, gr_prompt := None, gr_at := None\<rparr>,
                      [ev, ClearReviewGateAttention])
             | (_, oldest) # _ \<Rightarrow> (g1\<lparr>gr_prompt := Some (ge_prompt oldest), gr_at := Some (ge_at oldest)\<rparr>, [ev]))"

definition gate_resetSummary :: "gate_registry \<Rightarrow> gate_registry" where
  "gate_resetSummary g = g\<lparr>gr_state := GIdle, gr_at := None, gr_prompt := None\<rparr>"

fun gate_lapse_all :: "string list \<Rightarrow> gate_registry \<Rightarrow> gate_registry \<times> gate_event list" where
  "gate_lapse_all [] g = (g, [])"
| "gate_lapse_all (i # is) g =
     (case gate_resolve i DLapsed (Some ''stale gate cleared'') g of
        (g1, es) \<Rightarrow> (case gate_lapse_all is g1 of (g2, es') \<Rightarrow> (g2, es @ es')))"

definition gate_clearStale :: "gate_registry \<Rightarrow> gate_registry \<times> gate_event list" where
  "gate_clearStale g = (case gate_lapse_all (gate_pendingIds g) g of (g', es) \<Rightarrow> (gate_resetSummary g', es))"

definition gate_lapseRestoredSummary :: "gate_registry \<Rightarrow> gate_registry" where
  "gate_lapseRestoredSummary g = g\<lparr>gr_state := GLapsed, gr_prompt := None, gr_at := None\<rparr>"

subsection \<open>The summary follows the live map\<close>

datatype gate_op = Register string string int int | ResolveGate string gate_decision "string option" | ClearStale
  | ResetSummary | LapseRestoredSummary

fun gate_step :: "gate_registry \<Rightarrow> gate_op \<Rightarrow> gate_registry" where
  "gate_step g (Register i p t1 t2) = gate_register i p t1 t2 g"
| "gate_step g (ResolveGate i d r) = fst (gate_resolve i d r g)"
| "gate_step g ClearStale = fst (gate_clearStale g)"
| "gate_step g ResetSummary = gate_resetSummary g"
| "gate_step g LapseRestoredSummary = gate_lapseRestoredSummary g"

fun gate_events :: "gate_registry \<Rightarrow> gate_op \<Rightarrow> gate_event list" where
  "gate_events g (Register i p t1 t2) = []"
| "gate_events g (ResolveGate i d r) = snd (gate_resolve i d r g)"
| "gate_events g ClearStale = snd (gate_clearStale g)"
| "gate_events g _ = []"

text \<open>
  An id is not registered again while it waits, the clock does not run between the two readings, and the
  summary is reset or lapsed on its own only while no gate waits (as the comment of \<open>resetSummary\<close> assumes; a
  respawn that breaks it is in \<open>SessionTurns\<close>).
\<close>

fun gate_ok :: "gate_registry \<Rightarrow> gate_op \<Rightarrow> bool" where
  "gate_ok g (Register i p t1 t2) \<longleftrightarrow> \<not> jm_has (gr_pending g) i \<and> t1 = t2"
| "gate_ok g ResetSummary \<longleftrightarrow> gate_pendingIds g = []"
| "gate_ok g LapseRestoredSummary \<longleftrightarrow> gate_pendingIds g = []"
| "gate_ok g _ \<longleftrightarrow> True"

text \<open>What the registry stands for: the waiting gates in order of arrival, and the last outcome.\<close>

type_synonym gate_view = "(string \<times> string \<times> int) list \<times> gate_state"

fun view_step :: "gate_view \<Rightarrow> gate_op \<Rightarrow> gate_view" where
  "view_step (es, last_outcome) (Register i p t1 t2) = (es @ [(i, p, t1)], last_outcome)"
| "view_step (es, last_outcome) (ResolveGate i d r) =
     (if i \<in> fst ` set es then (filter (\<lambda>e. fst e \<noteq> i) es, state_of_decision d) else (es, last_outcome))"
| "view_step (es, last_outcome) ClearStale = ([], GIdle)"
| "view_step (es, last_outcome) ResetSummary = (es, GIdle)"
| "view_step (es, last_outcome) LapseRestoredSummary = (es, GLapsed)"

definition gate_inv :: "gate_registry \<Rightarrow> bool" where
  "gate_inv g \<longleftrightarrow> jm_wf (gr_pending g)
     \<and> (case gr_pending g of
          [] \<Rightarrow> gr_state g \<noteq> GWaiting \<and> gr_prompt g = None \<and> gr_at g = None
        | (_, e) # _ \<Rightarrow> gr_state g = GWaiting \<and> gr_prompt g = Some (ge_prompt e) \<and> gr_at g = Some (ge_at e))"

lemma gate_inv_new: "gate_inv new_gates"
  by (simp add: gate_inv_def new_gates_def)

lemma gate_inv_register:
  assumes "gate_inv g" and "\<not> jm_has (gr_pending g) i"
  shows "gate_inv (gate_register i p t t g)"
proof -
  have "jm_wf (jm_set i \<lparr>ge_prompt = p, ge_at = t\<rparr> (gr_pending g))"
    using assms(1) by (auto simp: gate_inv_def intro: jm.wf_put)
  then show ?thesis using assms
    by (cases "gr_pending g") (auto simp: gate_inv_def gate_register_def Let_def jm_size_def jm_set_def jm_has_def
        split: if_splits)
qed

lemma gate_inv_resolve: "gate_inv g \<Longrightarrow> gate_inv (fst (gate_resolve i d r g))"
proof -
  assume inv: "gate_inv g"
  have wf: "jm_wf (jm_delete i (gr_pending g))" using inv by (auto simp: gate_inv_def intro: jm.wf_delete)
  have waiting: "gr_state g = GWaiting" if "gr_pending g \<noteq> []"
    using inv that by (auto simp: gate_inv_def split: list.splits)
  show ?thesis
  proof (cases "jm_get (gr_pending g) i")
    case (Some e)
    then have "gr_pending g \<noteq> []" by (auto simp: jm_get_def)
    with Some wf waiting show ?thesis
      by (cases d) (auto simp: gate_resolve_def gate_inv_def Let_def split: list.splits)
  qed (simp add: gate_resolve_def inv)
qed

lemma gate_lapse_all_props:
  "gate_inv g \<Longrightarrow> gate_inv (fst (gate_lapse_all is g))
    \<and> jm_keys (gr_pending (fst (gate_lapse_all is g))) = filter (\<lambda>k. k \<notin> set is) (jm_keys (gr_pending g))"
proof (induction "is" arbitrary: g)
  case (Cons i "is")
  let ?g = "fst (gate_resolve i DLapsed (Some ''stale gate cleared'') g)"
  have keys: "jm_keys (gr_pending ?g) = filter (\<lambda>k. k \<noteq> i) (jm_keys (gr_pending g))"
  proof (cases "jm_get (gr_pending g) i")
    case None
    then have "i \<notin> set (jm_keys (gr_pending g))" using jm.get_in_keys by fastforce
    then have "filter (\<lambda>k. k \<noteq> i) (jm_keys (gr_pending g)) = jm_keys (gr_pending g)" by (auto intro!: filter_True)
    with None show ?thesis by (simp add: gate_resolve_def)
  next
    case (Some e)
    then have "gr_pending ?g = jm_delete i (gr_pending g)"
      by (auto simp: gate_resolve_def Let_def split: list.splits)
    then show ?thesis by (simp add: jm.keys_delete)
  qed
  have "gate_inv ?g" using Cons.prems by (rule gate_inv_resolve)
  from Cons.IH [OF this] keys show ?case by (auto simp: split_beta intro: arg_cong2 [where f = filter])
qed simp

lemma gate_clearStale_props:
  assumes "gate_inv g"
  shows "gate_inv (fst (gate_clearStale g)) \<and> gr_pending (fst (gate_clearStale g)) = [] \<and> gr_state (fst (gate_clearStale g)) = GIdle"
proof -
  let ?g = "fst (gate_lapse_all (gate_pendingIds g) g)"
  have "jm_keys (gr_pending ?g) = []"
    using gate_lapse_all_props [OF assms, of "gate_pendingIds g"] by (simp add: gate_pendingIds_def)
  then have "gr_pending ?g = []" by (simp add: jm_keys_def)
  then show ?thesis by (simp add: gate_clearStale_def split_beta gate_resetSummary_def gate_inv_def)
qed

lemma gate_inv_summary:
  "gate_inv g \<Longrightarrow> gate_pendingIds g = [] \<Longrightarrow> gate_inv (gate_resetSummary g) \<and> gate_inv (gate_lapseRestoredSummary g)"
  by (simp add: gate_inv_def gate_resetSummary_def gate_lapseRestoredSummary_def gate_pendingIds_def jm_keys_def)

lemma gate_inv_step: "gate_inv g \<Longrightarrow> gate_ok g op \<Longrightarrow> gate_inv (gate_step g op)"
  by (cases op) (auto simp: gate_inv_register gate_inv_resolve gate_clearStale_props gate_inv_summary)

text \<open>The registry shows the view.\<close>

definition shows_view :: "gate_registry \<Rightarrow> gate_view \<Rightarrow> bool" where
  "shows_view g v \<longleftrightarrow> gate_inv g \<and> gate_entries g = fst v \<and> (fst v = [] \<longrightarrow> gr_state g = snd v)"

lemma gate_entries_ids: "fst ` set (gate_entries g) = set (jm_keys (gr_pending g))"
  by (force simp: gate_entries_def jm_keys_def)

lemma gate_entries_register:
  "\<not> jm_has (gr_pending g) i \<Longrightarrow> gate_entries (gate_register i p t1 t2 g) = gate_entries g @ [(i, p, t1)]"
proof -
  have "\<not> jm_has m i \<Longrightarrow> jm_set i v m = m @ [(i, v)]" for m and v :: gate_entry
    by (induction m) (auto simp: jm_has_def jm_set_def jm_keys_def)
  then show "\<not> jm_has (gr_pending g) i \<Longrightarrow> ?thesis" by (simp add: gate_entries_def gate_register_def Let_def)
qed

lemma gate_entries_delete: "gr_pending g' = jm_delete i (gr_pending g) \<Longrightarrow> gate_entries g' = filter (\<lambda>e. fst e \<noteq> i) (gate_entries g)"
proof -
  have "map (\<lambda>(gateId, e). (gateId, ge_prompt e, ge_at e)) (jm_delete i m)
      = filter (\<lambda>e. fst e \<noteq> i) (map (\<lambda>(gateId, e). (gateId, ge_prompt e, ge_at e)) m)" for m
    by (induction m) (auto simp: jm_delete_def)
  then show "gr_pending g' = jm_delete i (gr_pending g) \<Longrightarrow> ?thesis" by (simp add: gate_entries_def)
qed

lemma shows_resolve:
  assumes "shows_view g v"
  shows "shows_view (fst (gate_resolve i d r g)) (view_step v (ResolveGate i d r))"
proof -
  obtain es lo where v: "v = (es, lo)" by fastforce
  have es: "gate_entries g = es" "gate_inv g" using assms by (simp_all add: shows_view_def v)
  show ?thesis
  proof (cases "jm_get (gr_pending g) i")
    case None
    then have "i \<notin> fst ` set es" using jm.get_in_keys [of "gr_pending g" i] gate_entries_ids [of g] es by auto
    with None assms show ?thesis by (simp add: v gate_resolve_def)
  next
    case (Some e)
    then have i: "i \<in> fst ` set es" using jm.get_in_keys [of "gr_pending g" i] gate_entries_ids [of g] es by auto
    have p: "gr_pending (fst (gate_resolve i d r g)) = jm_delete i (gr_pending g)"
      using Some by (auto simp: gate_resolve_def Let_def split: list.split)
    have "gr_state (fst (gate_resolve i d r g)) = state_of_decision d" if "jm_delete i (gr_pending g) = []"
      using Some that by (simp add: gate_resolve_def Let_def)
    moreover have "jm_delete i (gr_pending g) = []" if "filter (\<lambda>e. fst e \<noteq> i) es = []"
      using that gate_entries_delete [OF p] p es(1) by (simp add: gate_entries_def)
    ultimately show ?thesis
      using i gate_entries_delete [OF p] es gate_inv_resolve [OF es(2), of i d r] by (auto simp: shows_view_def v)
  qed
qed

lemma shows_step:
  assumes "shows_view g v" and "gate_ok g op"
  shows "shows_view (gate_step g op) (view_step v op)"
proof (cases op)
  case (Register i p t1 t2)
  with assms show ?thesis
    using gate_inv_step [of g op] by (cases v) (auto simp: shows_view_def gate_entries_register)
next
  case (ResolveGate i d r)
  then show ?thesis using shows_resolve [OF assms(1)] by simp
next
  case ClearStale
  have "gate_inv g" using assms(1) by (simp add: shows_view_def)
  from gate_clearStale_props [OF this] show ?thesis by (cases v) (simp add: shows_view_def ClearStale gate_entries_def)
next
  case ResetSummary
  with assms show ?thesis using gate_inv_step [of g op]
    by (cases v) (simp add: shows_view_def gate_resetSummary_def gate_entries_def)
next
  case LapseRestoredSummary
  with assms show ?thesis using gate_inv_step [of g op]
    by (cases v) (simp add: shows_view_def gate_lapseRestoredSummary_def gate_entries_def)
qed

fun gate_run :: "gate_registry \<Rightarrow> gate_op list \<Rightarrow> gate_registry option" where
  "gate_run g [] = Some g"
| "gate_run g (op # ops) = (if gate_ok g op then gate_run (gate_step g op) ops else None)"

lemma shows_run: "shows_view g v \<Longrightarrow> gate_run g ops = Some g' \<Longrightarrow> shows_view g' (foldl view_step v ops)"
proof (induction ops arbitrary: g v)
  case (Cons op ops)
  then show ?case using shows_step [of g v op] by (simp split: if_splits)
qed simp

text \<open>
  C22: As long as a gate id is not reused while it waits, the two clock readings of a registration agree, and the
  summary is reset or lapsed on its own only while no gate waits, the summary always shows the live
  map: the map holds the waiting gates in order of arrival; while there is one the state is \<open>waiting\<close> and the prompt and
  the time shown are those of the oldest; when none waits the state is the last outcome (the decision of the
  gate resolved last, idle after a sweep or a reset, lapsed after a restart), without prompt and time. The
  attention badge is cleared exactly by the resolution that leaves no gate waiting.
\<close>

theorem gate_summary_mirrors_oldest:
  assumes "gate_run new_gates ops = Some g"
  shows "gate_entries g = fst (foldl view_step ([], GIdle) ops)
    \<and> (case foldl view_step ([], GIdle) ops of
        ([], last_outcome) \<Rightarrow> gr_state g = last_outcome \<and> gr_state g \<noteq> GWaiting \<and> gr_prompt g = None \<and> gr_at g = None
      | ((i, p, t) # _, _) \<Rightarrow> gr_state g = GWaiting \<and> gr_prompt g = Some p \<and> gr_at g = Some t)
    \<and> (ClearReviewGateAttention \<in> set (snd (gate_resolve i d r g)) \<longleftrightarrow> gate_pendingIds g = [i])"
proof -
  have "shows_view new_gates ([], GIdle)"
    by (simp add: shows_view_def gate_inv_new gate_entries_def) (simp add: new_gates_def)
  from shows_run [OF this assms] have v: "shows_view g (foldl view_step ([], GIdle) ops)" .
  then have inv: "gate_inv g" by (simp add: shows_view_def)
  have "ClearReviewGateAttention \<in> set (snd (gate_resolve i d r g))
      \<longleftrightarrow> jm_get (gr_pending g) i \<noteq> None \<and> jm_keys (jm_delete i (gr_pending g)) = []"
    by (auto simp: gate_resolve_def Let_def jm_keys_def split: option.splits list.splits)
  also have "\<dots> \<longleftrightarrow> i \<in> set (jm_keys (gr_pending g)) \<and> (\<forall>k \<in> set (jm_keys (gr_pending g)). k = i)"
    unfolding jm.get_in_keys jm.keys_delete filter_empty_conv by simp
  also have "\<dots> \<longleftrightarrow> jm_keys (gr_pending g) = [i]"
  proof -
    have "distinct (jm_keys (gr_pending g))" using inv by (simp add: gate_inv_def jm.wf_keys)
    then show ?thesis by (cases "jm_keys (gr_pending g)" rule: remdups_adj.cases) auto
  qed
  finally have badge: "ClearReviewGateAttention \<in> set (snd (gate_resolve i d r g)) \<longleftrightarrow> gate_pendingIds g = [i]"
    by (simp add: gate_pendingIds_def)
  obtain es lo where f: "foldl view_step ([], GIdle) ops = (es, lo)" by fastforce
  with v have "gate_entries g = es" "es = [] \<longrightarrow> gr_state g = lo" by (simp_all add: shows_view_def)
  with badge inv f show ?thesis
    by (cases "gr_pending g") (auto simp: gate_inv_def gate_entries_def split: prod.splits)
qed

theorem gate_summary_mirrors_oldest_witness:
  "\<exists>g. gate_run new_gates [Register ''a'' ''p'' 1 1, Register ''b'' ''q'' 2 2, ResolveGate ''a'' DApproved None] = Some g
    \<and> gr_state g = GWaiting \<and> gr_prompt g = Some ''q'' \<and> gr_at g = Some 2"
proof -
  let ?ops = "[Register ''a'' ''p'' 1 1, Register ''b'' ''q'' 2 2, ResolveGate ''a'' DApproved None]"
  obtain g where run: "gate_run new_gates ?ops = Some g" 
    by (simp add: new_gates_def gate_register_def gate_resolve_def Let_def jm_size_def jm_has_def jm_set_def
        jm_delete_def jm_get_def)
  from gate_summary_mirrors_oldest [OF run] have "gr_state g = GWaiting \<and> gr_prompt g = Some ''q'' \<and> gr_at g = Some 2" by simp
  with run show ?thesis by blast
qed

end
