(* ===== verification/MessageQueue.thy ===== *)
theory MessageQueue
  imports Prelude
begin

section \<open>Messages between sessions\<close>

text \<open>
  \<open>src/services/session-message-queue.ts\<close>: the bounded queue of messages waiting for their target
  session to be idle, and the framing of a message's text.
  A pass over the queue (\<open>run\<close>) awaits the callbacks \<open>check\<close> and \<open>deliver\<close>; between the awaits other
  calls may come. The model's steps are the synchronous stretches: the start of a pass, the
  answer of \<open>check\<close>, the answer of \<open>deliver\<close>. The callbacks' answers are inputs, message ids
  (\<open>randomUUID\<close>) are arguments that are not in use yet, and \<open>fin\<close> is the clock reading of \<open>finish\<close>.
\<close>

subsection \<open>Queue\<close>

datatype message_status = MQueued | MDelivered | MExpired | MRefused

record queued_message =
  qm_fromSessionId :: nat
  qm_fromLabel :: codepoints
  qm_target :: nat
  qm_text :: codepoints
  qm_status :: message_status
  qm_reason :: "string option"
  qm_createdAt :: int
  qm_expiresAt :: int
  qm_finishedAt :: "int option"

datatype readiness = TReady | TWait | TRefuse string | TThrew string
datatype deliver_outcome = DelivOk | DelivFail string bool | DelivThrew string

definition MAX_QUEUED_PER_TARGET :: nat where "MAX_QUEUED_PER_TARGET = 8"
definition MAX_MESSAGE_TTL_MS :: int where "MAX_MESSAGE_TTL_MS = 60 * 60000"
definition FINISHED_RETAIN_MS :: int where "FINISHED_RETAIN_MS = 60 * 60000"
definition FINISHED_RETAIN_MAX :: nat where "FINISHED_RETAIN_MAX = 500"

type_synonym message_map = "(string, queued_message) jsmap"

text \<open>A running pass: the head it is checking or delivering, and the heads still to come. \<open>Settling\<close>: the
  body of \<open>run\<close> is over and the callback that clears \<open>inflight\<close> has not run yet.\<close>

datatype pass_phase = Checking string | Delivering string | Settling

record message_queue =
  mq_messages :: message_map
  mq_timer :: bool
  mq_pass :: "(pass_phase \<times> string list) option"

definition new_queue :: message_queue where
  "new_queue = \<lparr>mq_messages = [], mq_timer = False, mq_pass = None\<rparr>"

definition is_queued :: "queued_message \<Rightarrow> bool" where
  "is_queued m \<longleftrightarrow> qm_status m = MQueued"

definition queuedFor :: "nat \<Rightarrow> message_map \<Rightarrow> queued_message list" where
  "queuedFor target ms = filter (\<lambda>m. qm_status m = MQueued \<and> qm_target m = target) (jm_values ms)"

text \<open>\<open>finish\<close>: the message is updated in place (a final status, once).\<close>

definition mq_finish :: "string \<Rightarrow> message_status \<Rightarrow> string option \<Rightarrow> int \<Rightarrow> message_map \<Rightarrow> message_map" where
  "mq_finish i status reason now ms =
     map (\<lambda>(j, m). if j = i then (j, m\<lparr>qm_status := status, qm_reason := (case reason of None \<Rightarrow> qm_reason m | Some r \<Rightarrow> Some r),
        qm_finishedAt := Some now\<rparr>) else (j, m)) ms"

definition mq_prune :: "int \<Rightarrow> message_map \<Rightarrow> message_map" where
  "mq_prune now ms =
     (let finished = filter (\<lambda>(_, m). qm_status m \<noteq> MQueued) ms;
          old = (\<lambda>(_, m). now - (case qm_finishedAt m of Some t \<Rightarrow> t | None \<Rightarrow> now) > FINISHED_RETAIN_MS);
          gone = map fst (filter old finished);
          ms1 = filter (\<lambda>(i, _). i \<notin> set gone) ms;
          left = filter (\<lambda>(i, _). jm_has ms1 i) finished;
          surplus = map fst (take (length left - FINISHED_RETAIN_MAX) left)
      in filter (\<lambda>(i, _). i \<notin> set surplus) ms1)"

text \<open>The loop of \<open>run\<close>: expire what ran out, and collect the oldest queued message per target.\<close>

fun scan_loop :: "int \<Rightarrow> (string \<Rightarrow> int) \<Rightarrow> (string \<times> queued_message) list \<Rightarrow> message_map \<times> (nat, string) jsmap
    \<Rightarrow> message_map \<times> (nat, string) jsmap" where
  "scan_loop now fin [] (ms, heads) = (ms, heads)"
| "scan_loop now fin ((i, m) # rest) (ms, heads) =
     scan_loop now fin rest
       (if qm_status m \<noteq> MQueued then (ms, heads)
        else if now \<ge> qm_expiresAt m
        then (mq_finish i MExpired (Some ''the target did not become idle in time'') (fin i) ms, heads)
        else if \<not> jm_has heads (qm_target m) then (ms, jm_set (qm_target m) i heads)
        else (ms, heads))"

definition end_pass :: "message_queue \<Rightarrow> message_queue" where
  "end_pass q = q\<lparr>mq_pass := Some (Settling, []),
     mq_timer := (if list_ex is_queued (jm_values (mq_messages q)) then mq_timer q else False)\<rparr>"

definition next_head :: "string list \<Rightarrow> message_queue \<Rightarrow> message_queue" where
  "next_head hs q = (case hs of [] \<Rightarrow> end_pass q | h # hs' \<Rightarrow> q\<lparr>mq_pass := Some (Checking h, hs')\<rparr>)"

definition run_start :: "int \<Rightarrow> (string \<Rightarrow> int) \<Rightarrow> message_queue \<Rightarrow> message_queue" where
  "run_start now fin q =
     (let ms0 = mq_prune now (mq_messages q) in
      case scan_loop now fin ms0 (ms0, []) of (ms1, heads) \<Rightarrow>
        next_head (jm_values heads) (q\<lparr>mq_messages := ms1\<rparr>))"

definition mq_tick :: "int \<Rightarrow> (string \<Rightarrow> int) \<Rightarrow> message_queue \<Rightarrow> message_queue" where
  "mq_tick now fin q = (if mq_pass q = None then run_start now fin q else q)"

definition mq_enqueue :: "string \<Rightarrow> nat \<Rightarrow> codepoints \<Rightarrow> nat \<Rightarrow> codepoints \<Rightarrow> int \<Rightarrow> int \<Rightarrow> int \<Rightarrow> (string \<Rightarrow> int)
    \<Rightarrow> message_queue \<Rightarrow> queued_message option \<times> message_queue" where
  "mq_enqueue i fromSession label target body ttlMs createdAt now fin q =
     (if length (queuedFor target (mq_messages q)) \<ge> MAX_QUEUED_PER_TARGET then (None, q)
      else
        let m = \<lparr>qm_fromSessionId = fromSession, qm_fromLabel = label, qm_target = target, qm_text = body,
                 qm_status = MQueued, qm_reason = None, qm_createdAt = createdAt,
                 qm_expiresAt = createdAt + min (max ttlMs 1000) MAX_MESSAGE_TTL_MS, qm_finishedAt = None\<rparr>
        in (Some m, mq_tick now fin (q\<lparr>mq_messages := jm_set i m (mq_messages q), mq_timer := True\<rparr>)))"

text \<open>\<open>attempt\<close>, cut at its two awaits.\<close>

definition on_check :: "readiness \<Rightarrow> (string \<Rightarrow> int) \<Rightarrow> message_queue \<Rightarrow> message_queue" where
  "on_check r fin q =
     (case mq_pass q of
        Some (Checking i, hs) \<Rightarrow>
          (case r of
             TThrew msg \<Rightarrow> next_head hs (q\<lparr>mq_messages := mq_finish i MRefused (Some msg) (fin i) (mq_messages q)\<rparr>)
           | TWait \<Rightarrow> next_head hs q
           | TRefuse msg \<Rightarrow> next_head hs (q\<lparr>mq_messages := mq_finish i MRefused (Some msg) (fin i) (mq_messages q)\<rparr>)
           | TReady \<Rightarrow> q\<lparr>mq_pass := Some (Delivering i, hs)\<rparr>)
      | _ \<Rightarrow> q)"

definition on_deliver :: "deliver_outcome \<Rightarrow> (string \<Rightarrow> int) \<Rightarrow> message_queue \<Rightarrow> message_queue" where
  "on_deliver d fin q =
     (case mq_pass q of
        Some (Delivering i, hs) \<Rightarrow>
          (case jm_get (mq_messages q) i of
             None \<Rightarrow> next_head hs q
           | Some m \<Rightarrow>
               if qm_status m \<noteq> MQueued then next_head hs q
               else (case d of
                   DelivOk \<Rightarrow> next_head hs (q\<lparr>mq_messages := mq_finish i MDelivered None (fin i) (mq_messages q)\<rparr>)
                 | DelivFail msg retry \<Rightarrow>
                     if retry then next_head hs q
                     else next_head hs (q\<lparr>mq_messages := mq_finish i MRefused (Some msg) (fin i) (mq_messages q)\<rparr>)
                 | DelivThrew msg \<Rightarrow>
                     next_head hs (q\<lparr>mq_messages := mq_finish i MRefused (Some msg) (fin i) (mq_messages q)\<rparr>)))
      | _ \<Rightarrow> q)"

definition on_settled :: "message_queue \<Rightarrow> message_queue" where
  "on_settled q = (case mq_pass q of Some (Settling, _) \<Rightarrow> q\<lparr>mq_pass := None\<rparr> | _ \<Rightarrow> q)"

definition mq_stop :: "message_queue \<Rightarrow> message_queue" where
  "mq_stop q = q\<lparr>mq_timer := False\<rparr>"

datatype mq_input =
    Enqueue string nat codepoints nat codepoints int int int "string \<Rightarrow> int"
  | MqTick int "string \<Rightarrow> int" | CheckAnswer readiness "string \<Rightarrow> int" | DeliverAnswer deliver_outcome "string \<Rightarrow> int"
  | PassSettled | Stop

text \<open>A message id comes from \<open>randomUUID\<close>: one that is in use does not occur.\<close>

fun mq_step :: "message_queue \<Rightarrow> mq_input \<Rightarrow> message_queue" where
  "mq_step q (Enqueue i f l t b ttl c now fin) =
     (if jm_has (mq_messages q) i then q else snd (mq_enqueue i f l t b ttl c now fin q))"
| "mq_step q (MqTick now fin) = (if mq_timer q then mq_tick now fin q else q)"
| "mq_step q (CheckAnswer r fin) = on_check r fin q"
| "mq_step q (DeliverAnswer d fin) = on_deliver d fin q"
| "mq_step q PassSettled = on_settled q"
| "mq_step q Stop = mq_stop q"

subsection \<open>Invariant\<close>

text \<open>\<open>oldest_for\<close>: the message is queued and nothing before it in the map waits for the same target.\<close>

definition oldest_for :: "string \<Rightarrow> message_map \<Rightarrow> bool" where
  "oldest_for i ms \<longleftrightarrow> (\<exists>pre m post. ms = pre @ (i, m) # post \<and> is_queued m
     \<and> (\<forall>(_, m') \<in> set pre. is_queued m' \<longrightarrow> qm_target m' \<noteq> qm_target m))"

fun phase_ids :: "pass_phase \<Rightarrow> string list" where
  "phase_ids (Checking i) = [i]"
| "phase_ids (Delivering i) = [i]"
| "phase_ids Settling = []"

definition pass_ids :: "message_queue \<Rightarrow> string list" where
  "pass_ids q = (case mq_pass q of None \<Rightarrow> [] | Some (p, hs) \<Rightarrow> phase_ids p @ hs)"

definition ttl_ok :: "queued_message \<Rightarrow> bool" where
  "ttl_ok m \<longleftrightarrow> 1000 \<le> qm_expiresAt m - qm_createdAt m \<and> qm_expiresAt m - qm_createdAt m \<le> MAX_MESSAGE_TTL_MS"

definition mq_inv :: "message_queue \<Rightarrow> bool" where
  "mq_inv q \<longleftrightarrow> jm_wf (mq_messages q)
     \<and> (\<forall>t. length (queuedFor t (mq_messages q)) \<le> MAX_QUEUED_PER_TARGET)
     \<and> (\<forall>(_, m) \<in> set (mq_messages q). ttl_ok m)
     \<and> distinct (pass_ids q) \<and> (\<forall>i \<in> set (pass_ids q). oldest_for i (mq_messages q))
     \<and> (list_ex is_queued (jm_values (mq_messages q)) \<longrightarrow> mq_timer q)"

definition msgs_ok :: "message_map \<Rightarrow> bool" where
  "msgs_ok ms \<longleftrightarrow> jm_wf ms \<and> (\<forall>t. length (queuedFor t ms) \<le> MAX_QUEUED_PER_TARGET) \<and> (\<forall>(_, m) \<in> set ms. ttl_ok m)"

lemma mq_inv_alt: "mq_inv q \<longleftrightarrow> msgs_ok (mq_messages q) \<and> distinct (pass_ids q)
    \<and> (\<forall>i \<in> set (pass_ids q). oldest_for i (mq_messages q))
    \<and> (list_ex is_queued (jm_values (mq_messages q)) \<longrightarrow> mq_timer q)"
  by (auto simp: mq_inv_def msgs_ok_def)

lemma keys_finish [simp]: "map fst (mq_finish i s r now ms) = map fst ms"
  by (induction ms) (auto simp: mq_finish_def)

lemma finish_append: "mq_finish i s r now (xs @ ys) = mq_finish i s r now xs @ mq_finish i s r now ys"
  by (simp add: mq_finish_def)

lemma finish_absent: "i \<notin> fst ` set ms \<Longrightarrow> mq_finish i s r now ms = ms"
  by (induction ms) (auto simp: mq_finish_def)

lemma finish_one: "mq_finish i s r now [(i, m)] = [(i, m\<lparr>qm_status := s,
    qm_reason := (case r of None \<Rightarrow> qm_reason m | Some r \<Rightarrow> Some r), qm_finishedAt := Some now\<rparr>)]"
  by (simp add: mq_finish_def)

lemma queuedFor_Cons: "queuedFor t ((i, m) # ms) =
    (if qm_status m = MQueued \<and> qm_target m = t then m # queuedFor t ms else queuedFor t ms)"
  by (simp add: queuedFor_def jm_values_def)

lemma queuedFor_finish: "s \<noteq> MQueued \<Longrightarrow> length (queuedFor t (mq_finish i s r now ms)) \<le> length (queuedFor t ms)"
proof (induction ms)
  case (Cons x ms)
  obtain j m where x: "x = (j, m)" by fastforce
  show ?case
  proof (cases "j = i")
    case True
    then have "mq_finish i s r now (x # ms) = (i, m\<lparr>qm_status := s, qm_reason := (case r of None \<Rightarrow> qm_reason m | Some r \<Rightarrow> Some r),
        qm_finishedAt := Some now\<rparr>) # mq_finish i s r now ms" by (simp add: mq_finish_def x)
    with Cons show ?thesis by (simp add: queuedFor_Cons x)
  next
    case False
    then have "mq_finish i s r now (x # ms) = x # mq_finish i s r now ms" by (simp add: mq_finish_def x)
    with Cons show ?thesis by (simp add: queuedFor_Cons x)
  qed
qed (simp add: mq_finish_def)

lemma msgs_ok_finish: "msgs_ok ms \<Longrightarrow> s \<noteq> MQueued \<Longrightarrow> msgs_ok (mq_finish i s r now ms)"
proof -
  assume ok: "msgs_ok ms" and s: "s \<noteq> MQueued"
  have "length (queuedFor t (mq_finish i s r now ms)) \<le> MAX_QUEUED_PER_TARGET" for t
    using queuedFor_finish [OF s, of t i r now ms] ok by (auto simp: msgs_ok_def intro: order_trans)
  moreover have "\<forall>(_, m) \<in> set (mq_finish i s r now ms). ttl_ok m"
    using ok by (auto simp: msgs_ok_def mq_finish_def ttl_ok_def split: if_splits)
  ultimately show ?thesis using ok by (simp add: msgs_ok_def jm_wf_def)
qed

lemma ex_queued_finish: "s \<noteq> MQueued \<Longrightarrow> list_ex is_queued (jm_values (mq_finish i s r now ms)) \<Longrightarrow> list_ex is_queued (jm_values ms)"
  by (auto simp: list_ex_iff jm_values_def mq_finish_def is_queued_def split: if_splits intro: rev_image_eqI)

lemma oldest_finish:
  assumes "oldest_for j ms" and "j \<noteq> i" and "s \<noteq> MQueued"
  shows "oldest_for j (mq_finish i s r now ms)"
proof -
  obtain pre m post where ms: "ms = pre @ (j, m) # post" "is_queued m"
    and p: "\<forall>(_, m') \<in> set pre. is_queued m' \<longrightarrow> qm_target m' \<noteq> qm_target m"
    using assms(1) by (auto simp: oldest_for_def)
  have "mq_finish i s r now ms = mq_finish i s r now pre @ (j, m) # mq_finish i s r now post"
    using assms(2) ms(1) by (simp add: mq_finish_def)
  moreover have "\<forall>(_, m') \<in> set (mq_finish i s r now pre). is_queued m' \<longrightarrow> qm_target m' \<noteq> qm_target m"
    using p assms(3) by (auto simp: mq_finish_def is_queued_def split: if_splits)
  ultimately show ?thesis using ms(2) unfolding oldest_for_def by blast
qed

text \<open>Pruning removes finished messages only.\<close>

lemma prune_filter: "\<exists>P. mq_prune now ms = filter P ms \<and> (jm_wf ms \<longrightarrow> (\<forall>(i, m) \<in> set ms. is_queued m \<longrightarrow> P (i, m)))"
proof -
  define finished where "finished = filter (\<lambda>(_, m). qm_status m \<noteq> MQueued) ms"
  define gone where "gone = map fst (filter (\<lambda>(_, m). now - (case qm_finishedAt m of Some t \<Rightarrow> t | None \<Rightarrow> now) > FINISHED_RETAIN_MS) finished)"
  define left where "left = filter (\<lambda>(i, _). jm_has (filter (\<lambda>(i, _). i \<notin> set gone) ms) i) finished"
  define surplus where "surplus = map fst (take (length left - FINISHED_RETAIN_MAX) left)"
  have g: "mq_prune now ms = filter (\<lambda>(i, _). i \<notin> set surplus) (filter (\<lambda>(i, _). i \<notin> set gone) ms)"
    by (simp only: mq_prune_def Let_def surplus_def left_def gone_def finished_def)
  have sub: "set gone \<subseteq> fst ` set finished" "set surplus \<subseteq> fst ` set finished"
    by (auto simp: gone_def surplus_def left_def dest!: in_set_takeD)
  have "i \<notin> fst ` set finished" if "jm_wf ms" "(i, m) \<in> set ms" "is_queued m" for i m
    using that by (auto simp: finished_def jm_wf_def is_queued_def dest: eq_key_imp_eq_value)
  moreover have "mq_prune now ms = filter (\<lambda>(i, m). i \<notin> set gone \<and> i \<notin> set surplus) ms"
    by (simp add: g split_def)
  ultimately show ?thesis using sub by (intro exI [of _ "\<lambda>(i, m). i \<notin> set gone \<and> i \<notin> set surplus"]) blast
qed

lemma msgs_ok_filter: "msgs_ok ms \<Longrightarrow> msgs_ok (filter P ms)"
proof -
  have "length (queuedFor t (filter P ms)) \<le> length (queuedFor t ms)" for t
    by (induction ms) (auto simp: queuedFor_def jm_values_def)
  then show "msgs_ok ms \<Longrightarrow> msgs_ok (filter P ms)"
    by (auto simp: msgs_ok_def jm_wf_filter intro: order_trans)
qed

subsection \<open>The scan\<close>

definition live_at :: "int \<Rightarrow> queued_message \<Rightarrow> bool" where
  "live_at now m \<longleftrightarrow> is_queued m \<and> now < qm_expiresAt m"

definition expire :: "int \<Rightarrow> (string \<Rightarrow> int) \<Rightarrow> string \<times> queued_message \<Rightarrow> string \<times> queued_message" where
  "expire now fin x = (case x of (i, m) \<Rightarrow> if is_queued m \<and> now \<ge> qm_expiresAt m
     then (i, m\<lparr>qm_status := MExpired, qm_reason := Some ''the target did not become idle in time'', qm_finishedAt := Some (fin i)\<rparr>)
     else (i, m))"

fun heads_of :: "int \<Rightarrow> (string \<times> queued_message) list \<Rightarrow> (nat, string) jsmap \<Rightarrow> (nat, string) jsmap" where
  "heads_of now [] heads = heads"
| "heads_of now ((i, m) # rest) heads =
     heads_of now rest (if live_at now m \<and> \<not> jm_has heads (qm_target m) then jm_set (qm_target m) i heads else heads)"

lemma fst_expire [simp]: "fst (expire now fin x) = fst x"
  by (simp add: expire_def split: prod.splits)

lemma snd_expire: "qm_target (snd (expire now fin x)) = qm_target (snd x)" "ttl_ok (snd (expire now fin x)) = ttl_ok (snd x)"
  "is_queued (snd (expire now fin x)) = live_at now (snd x)"
  by (auto simp: expire_def live_at_def is_queued_def ttl_ok_def split: prod.splits)

lemma scan_loop_spec:
  "jm_wf (pre @ rest) \<Longrightarrow> scan_loop now fin rest (map (expire now fin) pre @ rest, heads)
    = (map (expire now fin) (pre @ rest), heads_of now rest heads)"
proof (induction rest arbitrary: pre heads)
  case (Cons x rest)
  obtain i m where x: "x = (i, m)" by fastforce
  have notin: "i \<notin> fst ` set pre" "i \<notin> fst ` set rest" using Cons.prems x by (auto simp: jm_wf_def)
  then have "i \<notin> fst ` set (map (expire now fin) pre)" by (simp add: image_image)
  then have fin: "mq_finish i s r t (map (expire now fin) pre @ (i, m) # rest) =
      map (expire now fin) pre @ mq_finish i s r t [(i, m)] @ rest" for s r t
    using finish_append [of i s r t _ "[(i, m)] @ rest"] finish_append [of i s r t "[(i, m)]" rest]
      finish_absent [of i "map (expire now fin) pre"] finish_absent [of i rest] notin(2) by simp
  have step: "scan_loop now fin (x # rest) (map (expire now fin) pre @ x # rest, heads)
      = scan_loop now fin rest (map (expire now fin) (pre @ [x]) @ rest,
          if live_at now m \<and> \<not> jm_has heads (qm_target m) then jm_set (qm_target m) i heads else heads)"
    by (auto simp: x fin finish_one expire_def live_at_def is_queued_def)
  show ?case using Cons.IH [of "pre @ [x]"] Cons.prems by (simp only: step) (simp add: x)
qed simp

lemma values_set: "i \<in> set (jm_values (jm_set k v m)) \<Longrightarrow> i \<in> set (jm_values m) \<or> i = v"
  by (induction m) (auto simp: jm_set_def jm_values_def split: if_splits)

lemma heads_of_oldest:
  "i \<in> set (jm_values (heads_of now rest heads)) \<Longrightarrow> jm_wf heads
    \<Longrightarrow> (\<forall>(_, m') \<in> set pre. live_at now m' \<longrightarrow> jm_has heads (qm_target m'))
    \<Longrightarrow> i \<in> set (jm_values heads) \<or> (\<exists>mid m post. rest = mid @ (i, m) # post \<and> live_at now m
      \<and> (\<forall>(_, m') \<in> set (pre @ mid). live_at now m' \<longrightarrow> qm_target m' \<noteq> qm_target m))"
proof (induction rest arbitrary: heads pre)
  case (Cons x rest)
  obtain j m where x: "x = (j, m)" by fastforce
  let ?new = "live_at now m \<and> \<not> jm_has heads (qm_target m)"
  let ?h = "if ?new then jm_set (qm_target m) j heads else heads"
  have has: "jm_has ?h t \<longleftrightarrow> jm_has heads t \<or> ?new \<and> t = qm_target m" for t
    by (auto simp: jm_has_get jm.get_put)
  have wf: "jm_wf ?h" using Cons.prems(2) by (simp add: jm.wf_put)
  have "\<forall>(_, m') \<in> set (pre @ [x]). live_at now m' \<longrightarrow> jm_has ?h (qm_target m')"
    using Cons.prems(3) has x by auto
  from Cons.IH [OF _ wf this] Cons.prems(1) consider
      "i \<in> set (jm_values ?h)"
    | mid m1 post where "rest = mid @ (i, m1) # post" "live_at now m1"
      "\<forall>(_, m') \<in> set ((pre @ [x]) @ mid). live_at now m' \<longrightarrow> qm_target m' \<noteq> qm_target m1"
    by (auto simp: x)
  then show ?case
  proof cases
    case 1
    then consider "i \<in> set (jm_values heads)" | "?new" "i = j"
      using values_set [of i "qm_target m" j heads] by (auto split: if_splits)
    then show ?thesis
    proof cases
      case 2
      then have "\<forall>(_, m') \<in> set pre. live_at now m' \<longrightarrow> qm_target m' \<noteq> qm_target m"
        using Cons.prems(3) by fastforce
      with 2 x show ?thesis by (intro disjI2 exI [of _ "[]"]) auto
    qed simp
  next
    case (2 mid m1 post)
    then show ?thesis by (intro disjI2 exI [of _ "x # mid"] exI [of _ m1] exI [of _ post]) auto
  qed
qed simp

lemma heads_of_distinct:
  "distinct (jm_values heads) \<Longrightarrow> jm_wf heads \<Longrightarrow> distinct (map fst rest)
    \<Longrightarrow> set (jm_values heads) \<inter> fst ` set rest = {} \<Longrightarrow> distinct (jm_values (heads_of now rest heads))"
proof (induction rest arbitrary: heads)
  case (Cons x rest)
  obtain j m where x: "x = (j, m)" by fastforce
  have new: "jm_values (jm_set (qm_target m) j heads) = jm_values heads @ [j]" if "\<not> jm_has heads (qm_target m)"
    using that by (induction heads) (auto simp: jm_values_def jm_has_def jm_set_def)
  have fresh: "j \<notin> fst ` set rest" "distinct (map fst rest)" "j \<notin> set (jm_values heads)"
    "set (jm_values heads) \<inter> fst ` set rest = {}" using Cons.prems by (simp_all add: x)
  show ?case
  proof (cases "live_at now m \<and> \<not> jm_has heads (qm_target m)")
    case True
    have "distinct (jm_values (heads_of now rest (jm_set (qm_target m) j heads)))"
      using True Cons.prems(1,2) fresh by (intro Cons.IH) (simp_all add: new jm.wf_put)
    with True show ?thesis by (simp add: x)
  next
    case False
    have "distinct (jm_values (heads_of now rest heads))"
      using Cons.prems(1,2) fresh by (intro Cons.IH)
    with False show ?thesis by (simp add: x del: de_Morgan_conj)
  qed
qed simp

lemma queuedFor_expire: "length (queuedFor t (map (expire now fin) ms)) \<le> length (queuedFor t ms)"
proof (induction ms)
  case (Cons x ms)
  obtain i m where x: "x = (i, m)" by fastforce
  from Cons show ?case by (cases "is_queued m \<and> now \<ge> qm_expiresAt m")
    (auto simp: x expire_def queuedFor_Cons is_queued_def)
qed simp

lemma msgs_ok_expire: "msgs_ok ms \<Longrightarrow> msgs_ok (map (expire now fin) ms)"
proof -
  assume ok: "msgs_ok ms"
  have "length (queuedFor t (map (expire now fin) ms)) \<le> MAX_QUEUED_PER_TARGET" for t
    using queuedFor_expire [of t now fin ms] ok by (auto simp: msgs_ok_def intro: order_trans)
  moreover have "\<forall>x \<in> set (map (expire now fin) ms). ttl_ok (snd x)" using ok by (auto simp: msgs_ok_def snd_expire)
  moreover have "jm_wf (map (expire now fin) ms)" using ok by (simp add: msgs_ok_def jm_wf_def comp_def)
  ultimately show ?thesis by (auto simp: msgs_ok_def split_beta)
qed

lemma expire_oldest:
  assumes "ms = pre @ (i, m) # post" and "live_at now m"
    and "\<forall>(_, m') \<in> set pre. live_at now m' \<longrightarrow> qm_target m' \<noteq> qm_target m"
  shows "oldest_for i (map (expire now fin) ms)"
proof -
  have "expire now fin (i, m) = (i, m)" using assms(2) by (simp add: expire_def live_at_def)
  moreover have "\<forall>x \<in> set (map (expire now fin) pre). is_queued (snd x) \<longrightarrow> qm_target (snd x) \<noteq> qm_target m"
    using assms(3) by (auto simp: snd_expire)
  ultimately show ?thesis using assms(1,2) unfolding oldest_for_def live_at_def
    by (intro exI [of _ "map (expire now fin) pre"] exI [of _ m] exI [of _ "map (expire now fin) post"]) auto
qed

lemma inv_next_head:
  assumes "msgs_ok (mq_messages q)" and "distinct hs" and "\<forall>i \<in> set hs. oldest_for i (mq_messages q)"
    and "list_ex is_queued (jm_values (mq_messages q)) \<longrightarrow> mq_timer q"
  shows "mq_inv (next_head hs q)"
  using assms by (cases hs) (auto simp: mq_inv_alt next_head_def end_pass_def pass_ids_def)

lemma inv_run_start:
  assumes "msgs_ok (mq_messages q)" and "list_ex is_queued (jm_values (mq_messages q)) \<longrightarrow> mq_timer q"
  shows "mq_inv (run_start now fin q)"
proof -
  let ?ms = "mq_prune now (mq_messages q)"
  obtain P where P: "?ms = filter P (mq_messages q)" using prune_filter by blast
  have ok: "msgs_ok ?ms" unfolding P using assms(1) by (rule msgs_ok_filter)
  then have wf: "jm_wf ?ms" by (simp add: msgs_ok_def)
  have scan: "scan_loop now fin ?ms (?ms, []) = (map (expire now fin) ?ms, heads_of now ?ms [])"
    using scan_loop_spec [of "[]" ?ms now fin "[]"] wf by simp
  have "oldest_for i (map (expire now fin) ?ms)" if i: "i \<in> set (jm_values (heads_of now ?ms []))" for i
  proof -
    obtain mid m post where "?ms = mid @ (i, m) # post" "live_at now m"
      "\<forall>(_, m') \<in> set mid. live_at now m' \<longrightarrow> qm_target m' \<noteq> qm_target m"
      using heads_of_oldest [OF i, of "[]"] by (auto simp: jm_values_def)
    then show ?thesis by (rule expire_oldest)
  qed
  moreover have "distinct (jm_values (heads_of now ?ms []))"
    using wf by (intro heads_of_distinct) (simp_all add: jm_values_def jm_wf_def)
  moreover have "list_ex is_queued (jm_values (map (expire now fin) ?ms)) \<longrightarrow> mq_timer q"
    using assms(2) by (fastforce simp: list_ex_iff jm_values_def P snd_expire live_at_def)
  ultimately show ?thesis
    unfolding run_start_def Let_def scan prod.case using msgs_ok_expire [OF ok]
    by (intro inv_next_head) simp_all
qed

lemma oldest_append: "oldest_for i ms \<Longrightarrow> oldest_for i (ms @ xs)"
  unfolding oldest_for_def by fastforce

lemma set_fresh: "\<not> jm_has ms i \<Longrightarrow> jm_set i m ms = ms @ [(i, m)]"
  by (induction ms) (auto simp: jm_has_def jm_set_def)

lemma inv_enqueue:
  assumes inv: "mq_inv q" and new: "\<not> jm_has (mq_messages q) i"
  shows "mq_inv (snd (mq_enqueue i f l t b ttl c now fin q))"
proof (cases "length (queuedFor t (mq_messages q)) \<ge> MAX_QUEUED_PER_TARGET")
  case True
  then show ?thesis using inv by (simp add: mq_enqueue_def)
next
  case False
  define m where "m = \<lparr>qm_fromSessionId = f, qm_fromLabel = l, qm_target = t, qm_text = b,
     qm_status = MQueued, qm_reason = None, qm_createdAt = c,
     qm_expiresAt = c + min (max ttl 1000) MAX_MESSAGE_TTL_MS, qm_finishedAt = None\<rparr>"
  let ?q = "q\<lparr>mq_messages := jm_set i m (mq_messages q), mq_timer := True\<rparr>"
  note set = set_fresh [OF new, of m]
  have "queuedFor t' (mq_messages q @ [(i, m)]) = queuedFor t' (mq_messages q) @ (if t' = t then [m] else [])" for t'
    by (auto simp: queuedFor_def jm_values_def m_def)
  moreover have "ttl_ok m" by (simp add: ttl_ok_def m_def MAX_MESSAGE_TTL_MS_def min_def max_def)
  ultimately have ok: "msgs_ok (mq_messages ?q)"
    using inv False new by (auto simp: mq_inv_alt msgs_ok_def set jm_wf_def jm_has_def)
  have "mq_inv (mq_tick now fin ?q)"
  proof (cases "mq_pass q")
    case None
    then show ?thesis using ok by (simp add: mq_tick_def inv_run_start)
  next
    case (Some a)
    then show ?thesis using ok inv set oldest_append by (auto simp: mq_tick_def mq_inv_alt pass_ids_def)
  qed
  then show ?thesis using False by (simp add: mq_enqueue_def Let_def m_def)
qed

lemma inv_after:
  assumes "mq_inv q" and "mq_pass q = Some (p, hs)"
  shows "mq_inv (next_head hs q)"
    and "s \<noteq> MQueued \<Longrightarrow> phase_ids p = [i] \<Longrightarrow> mq_inv (next_head hs (q\<lparr>mq_messages := mq_finish i s r t (mq_messages q)\<rparr>))"
proof -
  show "mq_inv (next_head hs q)"
    using assms by (intro inv_next_head) (auto simp: mq_inv_alt pass_ids_def)
  assume s: "s \<noteq> MQueued" and p: "phase_ids p = [i]"
  have "i \<notin> set hs" using assms p by (simp add: mq_inv_alt pass_ids_def)
  then show "mq_inv (next_head hs (q\<lparr>mq_messages := mq_finish i s r t (mq_messages q)\<rparr>))"
    using assms s ex_queued_finish [OF s]
    by (intro inv_next_head) (auto simp: mq_inv_alt pass_ids_def msgs_ok_finish intro!: oldest_finish)
qed

lemma mq_inv_step: "mq_inv q \<Longrightarrow> i \<noteq> Stop \<Longrightarrow> mq_inv (mq_step q i)"
proof (cases i)
  case (CheckAnswer r fin)
  assume inv: "mq_inv q"
  have "mq_inv (q\<lparr>mq_pass := Some (Delivering j, hs)\<rparr>)" if "mq_pass q = Some (Checking j, hs)" for j hs
    using inv that by (simp add: mq_inv_alt pass_ids_def)
  with CheckAnswer inv inv_after [OF inv] show ?thesis
    by (auto simp: on_check_def split: option.splits pass_phase.splits readiness.splits)
next
  case (DeliverAnswer d fin)
  assume inv: "mq_inv q"
  with DeliverAnswer inv_after [OF inv] show ?thesis
    by (auto simp: on_deliver_def split: option.splits pass_phase.splits deliver_outcome.splits)
next
  case (MqTick now fin)
  assume inv: "mq_inv q"
  then have "mq_inv (run_start now fin q)" by (intro inv_run_start) (simp_all add: mq_inv_alt)
  with MqTick inv show ?thesis by (simp add: mq_tick_def)
next
  case PassSettled
  assume inv: "mq_inv q"
  have "mq_inv (q\<lparr>mq_pass := None\<rparr>)" using inv by (simp add: mq_inv_alt pass_ids_def)
  with PassSettled inv show ?thesis by (simp add: on_settled_def split: option.splits pass_phase.splits)
qed (auto simp: inv_enqueue)

interpretation message_machine: step_machine mq_step "\<lambda>i. i \<noteq> Stop" mq_inv
  by unfold_locales (rule mq_inv_step)

subsection \<open>What the queue promises\<close>

text \<open>
  Bounds of the message queue. After any sequence of sends, timer ticks and answers of the
  callbacks, at most eight messages wait for one target, every message's time to live is between
  one second and one hour, each message the running pass still has to try is the oldest one queued
  for its target (delivery is first in, first out per target), and while any message waits the
  timer is armed.
\<close>

theorem message_queue_bounds:
  assumes "list_all (\<lambda>i. i \<noteq> Stop) inputs"
  shows "let q = foldl mq_step new_queue inputs in
     (\<forall>t. length (queuedFor t (mq_messages q)) \<le> MAX_QUEUED_PER_TARGET)
   \<and> (\<forall>i m. jm_get (mq_messages q) i = Some m \<longrightarrow> ttl_ok m)
   \<and> (\<forall>i \<in> set (pass_ids q). oldest_for i (mq_messages q))
   \<and> (list_ex is_queued (jm_values (mq_messages q)) \<longrightarrow> mq_timer q)"
proof -
  have "mq_inv new_queue" by (simp add: mq_inv_def new_queue_def queuedFor_def jm_values_def pass_ids_def)
  then have "mq_inv (foldl mq_step new_queue inputs)" using assms by (rule message_machine.inv_run)
  then show ?thesis by (auto simp: Let_def mq_inv_def jm_get_def dest!: map_of_SomeD)
qed

text \<open>Two messages to session 7 at the same moment: the first is being checked, the second waits.\<close>

definition two_sends :: "mq_input list" where
  "two_sends = [Enqueue ''a'' 1 [] 7 [] 5000 0 0 (\<lambda>_. 0), Enqueue ''b'' 1 [] 7 [] 0 0 0 (\<lambda>_. 0)]"

theorem message_queue_bounds_witness:
  "oldest_for ''a'' (mq_messages (foldl mq_step new_queue two_sends)) \<and> mq_timer (foldl mq_step new_queue two_sends)"
proof -
  have ok: "list_all (\<lambda>i. i \<noteq> Stop) two_sends" by (simp add: two_sends_def)
  have run: "pass_ids (foldl mq_step new_queue two_sends) = [''a'']"
    "list_ex is_queued (jm_values (mq_messages (foldl mq_step new_queue two_sends)))"
    by code_simp+
  show ?thesis using message_queue_bounds [OF ok] run by (simp add: Let_def)
qed

text \<open>A message that left \<open>queued\<close> is not touched again.\<close>

lemma get_finish: "jm_get (mq_finish j s r now ms) i =
    (if j = i then map_option (\<lambda>m. m\<lparr>qm_status := s, qm_reason := (case r of None \<Rightarrow> qm_reason m | Some r \<Rightarrow> Some r),
        qm_finishedAt := Some now\<rparr>) (jm_get ms i) else jm_get ms i)"
proof (induction ms)
  case (Cons x ms)
  obtain k m where x: "x = (k, m)" by fastforce
  have "mq_finish j s r now (x # ms) = mq_finish j s r now [x] @ mq_finish j s r now ms"
    using finish_append [of j s r now "[x]" ms] by simp
  then show ?case using Cons finish_one [of j s r now m] finish_absent [of j "[x]" s r now]
    by (cases "k = j"; cases "k = i") (simp_all add: x jm_get_def)
qed (simp add: mq_finish_def)

lemma get_expire: "jm_get (map (expire now fin) ms) i = map_option (\<lambda>m. snd (expire now fin (i, m))) (jm_get ms i)"
  by (induction ms) (auto simp: jm_get_def expire_def)

lemma messages_next_head [simp]: "mq_messages (next_head hs q) = mq_messages q"
  by (simp add: next_head_def end_pass_def split: list.splits)

lemma run_start_messages:
  assumes "jm_wf (mq_messages q)"
  shows "mq_messages (run_start now fin q) = map (expire now fin) (mq_prune now (mq_messages q))"
proof -
  obtain P where P: "mq_prune now (mq_messages q) = filter P (mq_messages q)" using prune_filter by blast
  then have "jm_wf (mq_prune now (mq_messages q))" using assms by (simp add: jm_wf_filter)
  then show ?thesis using scan_loop_spec [of "[]" "mq_prune now (mq_messages q)" now fin "[]"]
    by (simp add: run_start_def Let_def)
qed

lemma run_start_settled:
  assumes "jm_wf (mq_messages q)" and "jm_get (mq_messages q) i = Some m" and "\<not> is_queued m"
  shows "jm_get (mq_messages (run_start now fin q)) i \<in> {None, Some m}"
proof -
  obtain P where P: "mq_prune now (mq_messages q) = filter P (mq_messages q)" using prune_filter by blast
  show ?thesis using assms by (simp add: run_start_messages get_expire P jm_get_filter expire_def)
qed

lemma pass_queued: "mq_inv q \<Longrightarrow> i \<in> set (pass_ids q) \<Longrightarrow> \<exists>m. jm_get (mq_messages q) i = Some m \<and> is_queued m"
  by (fastforce simp: mq_inv_alt msgs_ok_def oldest_for_def jm_get_def jm_wf_def)

lemma settled_step:
  assumes inv: "mq_inv q" and m: "jm_get (mq_messages q) i = Some m" "\<not> is_queued m"
  shows "jm_get (mq_messages (mq_step q inp)) i \<in> {None, Some m}"
proof -
  have wf: "jm_wf (mq_messages q)" using inv by (simp add: mq_inv_def)
  have tick: "jm_get (mq_messages (mq_tick now fin q')) i \<in> {None, Some m}"
    if "jm_get (mq_messages q') i = Some m" "jm_wf (mq_messages q')" for now fin q'
    using run_start_settled [OF that(2,1) m(2)] that(1) by (simp add: mq_tick_def)
  have busy: "i \<notin> set (pass_ids q)" using pass_queued [OF inv] m by fastforce
  show ?thesis
  proof (cases inp)
    case (Enqueue j f l t b ttl c now fin)
    show ?thesis
    proof (cases "jm_has (mq_messages q) j \<or> length (queuedFor t (mq_messages q)) \<ge> MAX_QUEUED_PER_TARGET")
      case False
      then have "j \<noteq> i" using m(1) by (auto simp: jm_has_get)
      then have "jm_get (mq_messages (mq_tick now fin (q\<lparr>mq_messages := jm_set j m' (mq_messages q), mq_timer := True\<rparr>))) i
          \<in> {None, Some m}" for m'
        using m(1) wf by (intro tick) (auto simp: jm.get_put jm.wf_put)
      with Enqueue False show ?thesis by (simp add: mq_enqueue_def Let_def)
    qed (use Enqueue m(1) in \<open>auto simp: mq_enqueue_def\<close>)
  next
    case (CheckAnswer r fin)
    then show ?thesis using m(1) busy
      by (auto simp: on_check_def get_finish pass_ids_def split: option.splits pass_phase.splits readiness.splits)
  next
    case (DeliverAnswer d fin)
    then show ?thesis using m(1) busy
      by (auto simp: on_deliver_def get_finish pass_ids_def split: option.splits pass_phase.splits deliver_outcome.splits)
  qed (use m(1) wf tick [of q] in \<open>auto simp: on_settled_def mq_stop_def split: option.splits pass_phase.splits\<close>)
qed

text \<open>
  C23: A message settles once. Take any reachable state of the queue in which a message has left
  \<open>queued\<close> (it was delivered, it expired or it was refused): whatever comes next, the message
  keeps that status, that reason and that finishing time, until \<open>prune\<close> drops it.
\<close>

theorem message_settles_once:
  assumes "list_all (\<lambda>i. i \<noteq> Stop) inputs" and "jm_get (mq_messages (foldl mq_step new_queue inputs)) i = Some m"
    and "qm_status m \<noteq> MQueued"
  shows "jm_get (mq_messages (mq_step (foldl mq_step new_queue inputs) inp)) i \<in> {None, Some m}"
proof -
  have "mq_inv new_queue" by (simp add: mq_inv_def new_queue_def queuedFor_def jm_values_def pass_ids_def)
  then have "mq_inv (foldl mq_step new_queue inputs)" using assms(1) by (rule message_machine.inv_run)
  then show ?thesis using assms(2,3) by (intro settled_step) (simp_all add: is_queued_def)
qed

definition sent_and_refused :: "mq_input list" where
  "sent_and_refused = two_sends @ [CheckAnswer (TRefuse ''gone'') (\<lambda>_. 3)]"

theorem message_settles_once_witness:
  "jm_get (mq_messages (mq_step (foldl mq_step new_queue sent_and_refused) (DeliverAnswer DelivOk (\<lambda>_. 9)))) ''a''
    \<in> {None, Some \<lparr>qm_fromSessionId = 1, qm_fromLabel = [], qm_target = 7, qm_text = [], qm_status = MRefused,
        qm_reason = Some ''gone'', qm_createdAt = 0, qm_expiresAt = 5000, qm_finishedAt = Some 3\<rparr>}"
proof (rule message_settles_once)
  show "list_all (\<lambda>i. i \<noteq> Stop) sent_and_refused" by (simp add: sent_and_refused_def two_sends_def)
  show "jm_get (mq_messages (foldl mq_step new_queue sent_and_refused)) ''a'' =
     Some \<lparr>qm_fromSessionId = 1, qm_fromLabel = [], qm_target = 7, qm_text = [], qm_status = MRefused,
        qm_reason = Some ''gone'', qm_createdAt = 0, qm_expiresAt = 5000, qm_finishedAt = Some 3\<rparr>"
    by code_simp
qed simp

text \<open>The start of a pass ends every message that ran out of time. While a pass waits for an answer
  no other starts, so a \<open>check\<close> that never answers keeps overdue messages queued, whatever the timer does.\<close>

lemma pass_expires_overdue:
  assumes "jm_wf (mq_messages q)" and "jm_get (mq_messages (run_start now fin q)) i = Some m" and "is_queued m"
  shows "now < qm_expiresAt m"
proof -
  obtain m0 where m0: "m = snd (expire now fin (i, m0))" using assms by (auto simp: run_start_messages get_expire)
  then have "live_at now m0" using assms(3) snd_expire(3) [of now fin "(i, m0)"] by simp
  with m0 show ?thesis by (simp add: expire_def live_at_def)
qed

lemma hung_pass_blocks_expiry:
  assumes "mq_pass q \<noteq> None"
  shows "foldl mq_step q (map (\<lambda>now. MqTick now (\<lambda>_. now)) clock) = q"
  using assms by (induction clock) (auto simp: mq_tick_def)

end
