(* ===== verification/TerminalText.thy ===== *)
theory TerminalText
  imports Prelude
begin

section \<open>Text read from and typed into a terminal\<close>

text \<open>
  \<open>src/services/terminal-text.ts\<close> (raw scrollback to one readable line) and \<open>sanitizePromptText\<close> of
  \<open>src/services/hook-adapters/shared.ts\<close> (what may be typed into a TUI). A string is the list of its
  UTF-16 code units, which is what the regular expressions (no \<open>u\<close> flag) step over; \<open>code_points\<close> is
  \<open>Array.from(s)\<close>. Each global \<open>replace\<close> is one left-to-right pass, and each pattern's match is written
  out, greedy repetition and backtracking included.
\<close>

type_synonym jsstring = "nat list"

subsection \<open>String operations of the language\<close>

definition js_space :: "nat \<Rightarrow> bool" where
  "js_space c \<longleftrightarrow> 9 \<le> c \<and> c \<le> 13 \<or> c = 32 \<or> c = 160 \<or> c = 5760 \<or> 8192 \<le> c \<and> c \<le> 8202
     \<or> c = 8232 \<or> c = 8233 \<or> c = 8239 \<or> c = 8287 \<or> c = 12288 \<or> c = 65279"

fun js_split :: "nat \<Rightarrow> jsstring \<Rightarrow> jsstring list" where
  "js_split sep [] = [[]]"
| "js_split sep (c # s) = (if c = sep then [] # js_split sep s
     else case js_split sep s of [] \<Rightarrow> [[c]] | l # ls \<Rightarrow> (c # l) # ls)"

fun js_join :: "jsstring \<Rightarrow> jsstring list \<Rightarrow> jsstring" where
  "js_join sep [] = []"
| "js_join sep [s] = s"
| "js_join sep (s # t # ss) = s @ sep @ js_join sep (t # ss)"

definition js_trim :: "jsstring \<Rightarrow> jsstring" where
  "js_trim s = rev (dropWhile js_space (rev (dropWhile js_space s)))"

text \<open>\<open>s.replace(/\s+/g, " ")\<close>; \<open>b\<close> says that the run of white space being read has its space already.\<close>

fun squeeze :: "bool \<Rightarrow> jsstring \<Rightarrow> jsstring" where
  "squeeze b [] = []"
| "squeeze b (c # s) = (if js_space c then (if b then squeeze True s else 32 # squeeze True s) else c # squeeze False s)"

text \<open>\<open>toLowerCase\<close> of one code unit below 256; no other unit folds to a character the modelled code looks for.\<close>

definition lower_unit :: "nat \<Rightarrow> nat" where
  "lower_unit c = (if 65 \<le> c \<and> c \<le> 90 \<or> 192 \<le> c \<and> c \<le> 222 \<and> c \<noteq> 215 then c + 32 else c)"

definition hi_surrogate :: "nat \<Rightarrow> bool" where "hi_surrogate c \<longleftrightarrow> 55296 \<le> c \<and> c < 56320"
definition lo_surrogate :: "nat \<Rightarrow> bool" where "lo_surrogate c \<longleftrightarrow> 56320 \<le> c \<and> c < 57344"

fun code_points :: "jsstring \<Rightarrow> jsstring list" where
  "code_points [] = []"
| "code_points [c] = [[c]]"
| "code_points (c # d # s) = (if hi_surrogate c \<and> lo_surrogate d then [c, d] # code_points s
     else [c] # code_points (d # s))"

subsection \<open>Terminal escapes\<close>

text \<open>\<open>OSC_SEQUENCE\<close>: after \<open>ESC ]\<close> the repetition takes everything that is not BEL. If a BEL follows
  the match ends there; otherwise it backtracks to the last \<open>ESC \\<close> of the string.\<close>

fun after_last_st :: "jsstring \<Rightarrow> jsstring option" where
  "after_last_st [] = None"
| "after_last_st (c # s) = (case after_last_st s of Some r \<Rightarrow> Some r
     | None \<Rightarrow> if c = 27 \<and> s \<noteq> [] \<and> hd s = 92 then Some (tl s) else None)"

definition osc_end :: "jsstring \<Rightarrow> jsstring option" where
  "osc_end s = (if 7 \<in> set s then Some (tl (dropWhile (\<lambda>c. c \<noteq> 7) s)) else after_last_st s)"

lemma after_last_st_length: "after_last_st s = Some r \<Longrightarrow> length r \<le> length s"
  by (induction s arbitrary: r) (fastforce split: option.splits if_splits)+

lemma osc_end_length: "osc_end s = Some r \<Longrightarrow> length r \<le> length s"
  using length_dropWhile_le [of "\<lambda>c. c \<noteq> 7" s] by (auto simp: osc_end_def after_last_st_length split: if_splits)

function strip_osc :: "jsstring \<Rightarrow> jsstring" where
  "strip_osc [] = []"
| "strip_osc (c # s) = (if c = 27 \<and> s \<noteq> [] \<and> hd s = 93
     then (case osc_end (tl s) of Some r \<Rightarrow> strip_osc r | None \<Rightarrow> c # strip_osc s)
     else c # strip_osc s)"
  by pat_completeness auto
termination
  by (relation "measure length") (auto dest!: osc_end_length simp: less_Suc_eq_le)

text \<open>\<open>ANSI_ESCAPE_SEQUENCE\<close>: \<open>ESC [\<close>, parameters, one letter.\<close>

definition csi_param :: "nat \<Rightarrow> bool" where "csi_param c \<longleftrightarrow> 48 \<le> c \<and> c \<le> 57 \<or> c = 59 \<or> c = 63"
definition ascii_letter :: "nat \<Rightarrow> bool" where "ascii_letter c \<longleftrightarrow> 65 \<le> c \<and> c \<le> 90 \<or> 97 \<le> c \<and> c \<le> 122"

definition csi_end :: "jsstring \<Rightarrow> jsstring option" where
  "csi_end s = (case dropWhile csi_param s of [] \<Rightarrow> None | c # r \<Rightarrow> if ascii_letter c then Some r else None)"

lemma csi_end_length: "csi_end s = Some r \<Longrightarrow> length r \<le> length s"
  using length_dropWhile_le [of csi_param s] by (auto simp: csi_end_def split: list.splits if_splits)

function strip_csi :: "jsstring \<Rightarrow> jsstring" where
  "strip_csi [] = []"
| "strip_csi (c # s) = (if c = 27 \<and> s \<noteq> [] \<and> hd s = 91
     then (case csi_end (tl s) of Some r \<Rightarrow> strip_csi r | None \<Rightarrow> c # strip_csi s)
     else c # strip_csi s)"
  by pat_completeness auto
termination
  by (relation "measure length") (auto dest!: csi_end_length simp: less_Suc_eq_le)

fun strip_lone :: "jsstring \<Rightarrow> jsstring" where
  "strip_lone (c # d # s) = (if c = 27 \<and> d \<noteq> 91 \<and> d \<noteq> 93 then strip_lone s else c # strip_lone (d # s))"
| "strip_lone s = s"

definition stray_control :: "nat \<Rightarrow> bool" where
  "stray_control c \<longleftrightarrow> c \<le> 8 \<or> c = 11 \<or> c = 12 \<or> 14 \<le> c \<and> c \<le> 31"

definition stripTerminalEscapes :: "jsstring \<Rightarrow> jsstring" where
  "stripTerminalEscapes s = filter (\<lambda>c. \<not> stray_control c) (strip_lone (strip_csi (strip_osc s)))"

subsection \<open>One readable line\<close>

text \<open>The segment after the last carriage return, one trailing return dropped first.\<close>

definition visible_part :: "jsstring \<Rightarrow> jsstring" where
  "visible_part l = (let line = if l \<noteq> [] \<and> last l = 13 then butlast l else l in js_trim (last (js_split 13 line)))"

definition lastMeaningfulLine :: "jsstring \<Rightarrow> bool \<Rightarrow> jsstring option" where
  "lastMeaningfulLine s truncated =
     (let ls = js_split 10 (stripTerminalEscapes s); ls' = if truncated then tl ls else ls
      in find (\<lambda>v. v \<noteq> []) (map visible_part (rev ls')))"

definition collapseAndTruncate :: "jsstring \<Rightarrow> nat \<Rightarrow> jsstring" where
  "collapseAndTruncate s maxChars =
     (let normalized = js_trim (squeeze False s); cps = code_points normalized
      in if length cps \<le> maxChars then normalized else concat (take maxChars cps) @ [8230])"

subsection \<open>Text typed into a TUI\<close>

text \<open>The first \<open>replace\<close>: \<open>\r\n?\<close> and the Unicode line separators become a line feed.\<close>

fun norm_breaks :: "jsstring \<Rightarrow> jsstring" where
  "norm_breaks [] = []"
| "norm_breaks [c] = [if c = 13 \<or> c = 133 \<or> c = 8232 \<or> c = 8233 then 10 else c]"
| "norm_breaks (c # d # s) =
     (if c = 13 \<and> d = 10 then 10 # norm_breaks s
      else (if c = 13 \<or> c = 133 \<or> c = 8232 \<or> c = 8233 then 10 else c) # norm_breaks (d # s))"

definition unsafe_unit :: "nat \<Rightarrow> bool" where
  "unsafe_unit c \<longleftrightarrow> c \<le> 8 \<or> 11 \<le> c \<and> c \<le> 31 \<or> 127 \<le> c \<and> c \<le> 159 \<or> c = 8206 \<or> c = 8207
     \<or> 8234 \<le> c \<and> c \<le> 8238 \<or> 8294 \<le> c \<and> c \<le> 8297"

definition sanitizePromptText :: "jsstring \<Rightarrow> jsstring" where
  "sanitizePromptText s = filter (\<lambda>c. \<not> unsafe_unit c) (norm_breaks s)"

text \<open>A unit that starts a line in some terminal or viewer.\<close>

definition line_break :: "nat \<Rightarrow> bool" where
  "line_break c \<longleftrightarrow> c = 10 \<or> c = 11 \<or> c = 12 \<or> c = 13 \<or> c = 133 \<or> c = 8232 \<or> c = 8233"

subsection \<open>Splitting, joining, trimming\<close>

lemmas text_eval = lastMeaningfulLine_def stripTerminalEscapes_def visible_part_def js_trim_def osc_end_def csi_end_def
  csi_param_def ascii_letter_def stray_control_def js_space_def

lemma split_not_Nil [simp]: "js_split sep s \<noteq> []"
  by (cases s) (auto split: list.splits)

lemma join_split: "js_join [sep] (js_split sep s) = s"
proof (induction s)
  case (Cons c s)
  obtain l ls where l: "js_split sep s = l # ls" by (cases "js_split sep s") auto
  with Cons show ?case by (cases ls) auto
qed simp

lemma split_append: "js_split sep (a @ sep # b) = js_split sep a @ js_split sep b"
  by (induction a) (auto split: list.splits)

lemma split_whole: "sep \<notin> set s \<Longrightarrow> js_split sep s = [s]"
  by (induction s) auto

lemma split_parts: "l \<in> set (js_split sep s) \<Longrightarrow> sep \<notin> set l \<and> set l \<subseteq> set s"
  by (induction s arbitrary: l) (fastforce split: list.splits if_splits)+

lemma split_join: "ls \<noteq> [] \<Longrightarrow> (\<And>l. l \<in> set ls \<Longrightarrow> sep \<notin> set l) \<Longrightarrow> js_split sep (js_join [sep] ls) = ls"
proof (induction "[sep]" ls rule: js_join.induct)
  case (3 s t ss)
  then show ?case by (simp add: split_append split_whole)
qed (auto simp: split_whole)

lemma set_join: "set (js_join sep ls) \<subseteq> set sep \<union> (\<Union>l \<in> set ls. set l)"
  by (induction sep ls rule: js_join.induct) auto

lemma trim_set: "set (js_trim s) \<subseteq> set s"
  by (auto simp: js_trim_def dest!: set_dropWhileD)

lemma trim_ends:
  assumes "js_trim s \<noteq> []"
  shows "\<not> js_space (hd (js_trim s)) \<and> \<not> js_space (last (js_trim s))"
proof -
  let ?d = "dropWhile js_space s" and ?e = "dropWhile js_space (rev (dropWhile js_space s))"
  have ne: "?e \<noteq> []" using assms by (simp only: js_trim_def rev_is_Nil_conv not_False_eq_True)
  then have "?d \<noteq> []" by (metis dropWhile.simps(1) rev.simps(1))
  note ne = ne this
  obtain w where w: "rev ?d = w @ ?e" by (metis takeWhile_dropWhile_id)
  then have "?d = rev ?e @ rev w" by (metis rev_append rev_rev_ident)
  then have "hd (rev ?e) = hd ?d" using ne(1) by (metis hd_append2 rev_is_Nil_conv)
  moreover have "\<not> js_space (hd ?e)" "\<not> js_space (hd ?d)" using hd_dropWhile ne by blast+
  ultimately show ?thesis unfolding js_trim_def last_rev by simp
qed

subsection \<open>The last line is readable\<close>

lemma strip_clean: "c \<in> set (stripTerminalEscapes s) \<Longrightarrow> 32 \<le> c \<or> c = 9 \<or> c = 10 \<or> c = 13"
  by (auto simp: stripTerminalEscapes_def stray_control_def)

lemma visible_part_clean:
  assumes "c \<in> set (visible_part l)" and "\<And>c. c \<in> set l \<Longrightarrow> 32 \<le> c \<or> c = 9 \<or> c = 13"
  shows "32 \<le> c \<or> c = 9"
proof -
  let ?line = "if l \<noteq> [] \<and> last l = 13 then butlast l else l"
  have "last (js_split 13 ?line) \<in> set (js_split 13 ?line)" by (rule last_in_set) simp
  then have "13 \<notin> set (last (js_split 13 ?line)) \<and> set (last (js_split 13 ?line)) \<subseteq> set ?line" by (rule split_parts)
  moreover have "set ?line \<subseteq> set l" by (auto dest: in_set_butlastD)
  ultimately show ?thesis using assms trim_set [of "last (js_split 13 ?line)"]
    unfolding visible_part_def Let_def by blast
qed

lemma find_rev_split: "find P (map f (rev xs)) = Some v \<Longrightarrow>
    \<exists>pre x post. xs = pre @ x # post \<and> v = f x \<and> P v \<and> (\<forall>y \<in> set post. \<not> P (f y))"
proof (induction xs rule: rev_induct)
  case (snoc x xs)
  show ?case
  proof (cases "P (f x)")
    case True
    then show ?thesis using snoc.prems by (intro exI [of _ xs] exI [of _ x] exI [of _ "[]"]) simp
  next
    case False
    then obtain pre z post where "xs = pre @ z # post" "v = f z" "P v" "\<forall>y \<in> set post. \<not> P (f y)"
      using snoc by auto
    with False show ?thesis by (intro exI [of _ pre] exI [of _ z] exI [of _ "post @ [x]"]) auto
  qed
qed simp

text \<open>
  The last meaningful line of a terminal. Whatever bytes the scrollback holds, a line that
  \<open>lastMeaningfulLine\<close> returns is not empty, starts and ends in a visible character, holds no
  control character but a tab (no escape, line feed or carriage return), and is the visible part
  of a line after which only lines with nothing visible come.
\<close>

theorem lastMeaningfulLine_readable:
  assumes "lastMeaningfulLine s truncated = Some v"
  shows "v \<noteq> [] \<and> \<not> js_space (hd v) \<and> \<not> js_space (last v) \<and> list_all (\<lambda>c. 32 \<le> c \<or> c = 9) v
    \<and> (\<exists>pre l post. js_split 10 (stripTerminalEscapes s) = pre @ l # post \<and> v = visible_part l
        \<and> list_all (\<lambda>l'. visible_part l' = []) post \<and> (truncated \<longrightarrow> pre \<noteq> []))"
proof -
  let ?ls = "js_split 10 (stripTerminalEscapes s)"
  obtain pre l post where l: "(if truncated then tl ?ls else ?ls) = pre @ l # post" "v = visible_part l" "v \<noteq> []"
    "\<forall>y \<in> set post. \<not> visible_part y \<noteq> []"
    using assms find_rev_split [of "\<lambda>v. v \<noteq> []" visible_part] by (force simp: lastMeaningfulLine_def Let_def)
  obtain pre' where pre': "?ls = pre' @ l # post" "truncated \<longrightarrow> pre' \<noteq> []"
  proof (cases truncated)
    case True
    then have "?ls = (hd ?ls # pre) @ l # post" using l(1) list.collapse [OF split_not_Nil, of 10 "stripTerminalEscapes s"] by simp
    then show ?thesis by (rule that) simp
  qed (use l(1) that [of pre] in simp)
  then have "l \<in> set ?ls" by simp
  then have "c \<in> set l \<Longrightarrow> 32 \<le> c \<or> c = 9 \<or> c = 13" for c using split_parts strip_clean by fastforce
  then have "list_all (\<lambda>c. 32 \<le> c \<or> c = 9) v" using visible_part_clean l(2) by (auto simp: list_all_iff)
  moreover have "\<not> js_space (hd v) \<and> \<not> js_space (last v)"
    using l(2,3) trim_ends unfolding visible_part_def Let_def by blast
  moreover have "list_all (\<lambda>l'. visible_part l' = []) post" using l(4) by (simp add: list_all_iff)
  ultimately show ?thesis using pre' l(2,3) by blast
qed

theorem lastMeaningfulLine_readable_witness:
  "[68::nat, 75] \<noteq> [] \<and> \<not> js_space (hd [68, 75]) \<and> list_all (\<lambda>c. 32 \<le> c \<or> c = 9) [68::nat, 75]"
proof -
  have "lastMeaningfulLine [27, 91, 51, 49, 109, 66, 13, 68, 75, 13, 10] False = Some [68, 75]"
    by (simp add: text_eval)
  from lastMeaningfulLine_readable [OF this] show ?thesis by simp
qed

text \<open>Two titles set with \<open>ESC \\<close>-terminated sequences, and the line between them is gone: the
  repetition of \<open>OSC_SEQUENCE\<close> runs over the first terminator to the last one.\<close>

lemma osc_swallows_the_text_between:
  "lastMeaningfulLine ([27, 93, 48, 59, 97, 27, 92] @ [70, 97, 105, 108, 101, 100, 10] @ [27, 93, 48, 59, 98, 27, 92]) False = None"
  by (simp add: text_eval)

subsection \<open>Truncation\<close>

lemma concat_code_points: "concat (code_points s) = s"
  by (induction s rule: code_points.induct) auto

lemma code_point_shape: "p \<in> set (code_points s) \<Longrightarrow> length (code_points p) = 1"
  by (induction s rule: code_points.induct) (auto split: if_splits)

lemma length_code_points_Cons: "length (code_points (c # s)) \<le> Suc (length (code_points s))"
proof (cases s)
  case (Cons d t)
  then show ?thesis by (cases t) (auto simp: hi_surrogate_def lo_surrogate_def)
qed simp

lemma length_code_points_append: "length (code_points (a @ b)) \<le> length (code_points a) + length (code_points b)"
proof (induction a rule: code_points.induct)
  case (2 c)
  then show ?case using length_code_points_Cons [of c b] by simp
qed auto

lemma length_code_points_concat: "(\<And>p. p \<in> set ps \<Longrightarrow> length (code_points p) = 1) \<Longrightarrow> length (code_points (concat ps)) \<le> length ps"
proof (induction ps)
  case (Cons p ps)
  then show ?case using length_code_points_append [of p "concat ps"] by fastforce
qed simp

lemma cut_between_pairs:
  "concat (take n (code_points s)) \<noteq> [] \<Longrightarrow> concat (drop n (code_points s)) \<noteq> []
    \<Longrightarrow> \<not> (hi_surrogate (last (concat (take n (code_points s)))) \<and> lo_surrogate (hd (concat (drop n (code_points s)))))"
proof (induction s arbitrary: n rule: code_points.induct)
  case (3 c d s)
  show ?case
  proof (cases n)
    case (Suc k)
    show ?thesis
    proof (cases "hi_surrogate c \<and> lo_surrogate d")
      case True
      then have "\<not> hi_surrogate d" by (auto simp: hi_surrogate_def lo_surrogate_def)
      then show ?thesis using True Suc 3 by (cases "concat (take k (code_points s)) = []") (auto simp del: concat_eq_Nil_conv)
    next
      case False
      show ?thesis
      proof (cases "concat (take k (code_points (d # s))) = []")
        case True
        then have "concat (drop k (code_points (d # s))) = d # s"
          using concat_code_points [of "d # s"] append_take_drop_id [of k "code_points (d # s)"] concat_append by (metis append_Nil)
        with True False Suc show ?thesis by auto
      next
        case other: False
        have "code_points (c # d # s) = [c] # code_points (d # s)" using False by auto
        then show ?thesis using False Suc 3 other by (auto simp del: concat_eq_Nil_conv code_points.simps)
      qed
    qed
  qed (use 3 in simp)
qed (auto simp: take_Cons' split: if_splits)

lemma collapse_length: "length (code_points (collapseAndTruncate s n)) \<le> Suc n"
proof -
  let ?cps = "code_points (js_trim (squeeze False s))"
  have "length (code_points (concat (take n ?cps))) \<le> n"
    using length_code_points_concat [of "take n ?cps"] code_point_shape by (fastforce dest: in_set_takeD)
  then show ?thesis using length_code_points_append [of "concat (take n ?cps)" "[8230]"]
    by (auto simp: collapseAndTruncate_def Let_def)
qed

text \<open>
  Truncation by code points. \<open>collapseAndTruncate\<close> returns at most \<open>maxChars\<close> code points, plus
  the ellipsis when something was cut; what it keeps is a prefix of the collapsed and trimmed text,
  everything when it fits, and the cut never falls inside a surrogate pair.
\<close>

lemma collapse_cuts_code_points:
  fixes s :: jsstring
  defines "normalized \<equiv> js_trim (squeeze False s)"
  shows "\<exists>kept rest. normalized = kept @ rest \<and> length (code_points kept) \<le> n
    \<and> collapseAndTruncate s n = (if length (code_points normalized) \<le> n then normalized else kept @ [8230])
    \<and> \<not> (kept \<noteq> [] \<and> rest \<noteq> [] \<and> hi_surrogate (last kept) \<and> lo_surrogate (hd rest))"
proof -
  let ?cps = "code_points normalized"
  have "normalized = concat (take n ?cps) @ concat (drop n ?cps)"
    using concat_code_points [of normalized] append_take_drop_id [of n ?cps] concat_append by metis
  moreover have "length (code_points (concat (take n ?cps))) \<le> n"
    using length_code_points_concat [of "take n ?cps"] code_point_shape by (fastforce dest: in_set_takeD)
  ultimately show ?thesis using cut_between_pairs [of n normalized]
    by (intro exI [of _ "concat (take n ?cps)"] exI [of _ "concat (drop n ?cps)"])
      (auto simp: collapseAndTruncate_def Let_def normalized_def simp del: concat_eq_Nil_conv)
qed

subsection \<open>Sanitised text\<close>

lemma norm_breaks_units: "c \<in> set (norm_breaks s) \<Longrightarrow> c \<noteq> 13 \<and> c \<noteq> 133 \<and> c \<noteq> 8232 \<and> c \<noteq> 8233"
  by (induction s rule: norm_breaks.induct) (auto split: if_splits)

lemma sanitize_units: "c \<in> set (sanitizePromptText s) \<Longrightarrow> \<not> unsafe_unit c \<and> (line_break c \<longrightarrow> c = 10)"
  using norm_breaks_units [of c s] by (auto simp: sanitizePromptText_def line_break_def unsafe_unit_def)

end
