(* ===== verification/MessageFrame.thy ===== *)
theory MessageFrame
  imports TerminalText
begin

section \<open>The text typed for a message\<close>

text \<open>
  \<open>provenanceLabel\<close> and \<open>frameMessage\<close> of \<open>src/services/session-message-queue.ts\<close>: the header, the
  quoted body and the end line that are typed into the target session. \<open>JSON.stringify\<close> of a string
  is written out (short escapes, \<open>\u00xx\<close>, lone surrogates).
\<close>

subsection \<open>Numbers and JSON strings\<close>

fun show_nat :: "nat \<Rightarrow> jsstring" where
  "show_nat n = (if n < 10 then [48 + n] else show_nat (n div 10) @ [48 + n mod 10])"

declare show_nat.simps [simp del]

definition hex_digit :: "nat \<Rightarrow> nat" where
  "hex_digit n = (if n < 10 then 48 + n else 87 + n)"

definition hex4 :: "nat \<Rightarrow> jsstring" where
  "hex4 n = [hex_digit (n div 4096 mod 16), hex_digit (n div 256 mod 16), hex_digit (n div 16 mod 16), hex_digit (n mod 16)]"

text \<open>The escape of one code point (a surrogate pair stands for itself).\<close>

definition json_escape :: "jsstring \<Rightarrow> jsstring" where
  "json_escape p = (case p of
     [c] \<Rightarrow> (if c = 34 then [92, 34] else if c = 92 then [92, 92] else if c = 8 then [92, 98] else if c = 9 then [92, 116]
       else if c = 10 then [92, 110] else if c = 12 then [92, 102] else if c = 13 then [92, 114]
       else if c < 32 \<or> hi_surrogate c \<or> lo_surrogate c then [92, 117] @ hex4 c else [c])
   | _ \<Rightarrow> p)"

definition json_string :: "jsstring \<Rightarrow> jsstring" where
  "json_string s = [34] @ concat (map json_escape (code_points s)) @ [34]"

subsection \<open>Label and frame\<close>

definition provenanceLabel :: "jsstring \<Rightarrow> jsstring" where
  "provenanceLabel projectName =
     (let clean = js_trim (squeeze False (sanitizePromptText projectName));
          cut = concat (take 80 (code_points clean))
      in lit ''project '' @ json_string (if cut = [] then [63] else cut))"

definition frame_from :: "nat \<Rightarrow> jsstring \<Rightarrow> jsstring" where
  "frame_from sid label = lit ''session '' @ show_nat sid @ (if label \<noteq> [] then lit '' ('' @ label @ lit '')'' else [])"

definition frameMessage :: "nat \<Rightarrow> jsstring \<Rightarrow> jsstring \<Rightarrow> jsstring" where
  "frameMessage sid label body =
     lit ''Message from '' @ frame_from sid label @ lit '':'' @ [10]
     @ js_join [10] (map (\<lambda>line. lit ''> '' @ line) (js_split 10 (sanitizePromptText body))) @ [10]
     @ lit ''(end of message from session '' @ show_nat sid @ lit '')''"

subsection \<open>Every line of the body is quoted\<close>

lemma show_nat_digits: "c \<in> set (show_nat n) \<Longrightarrow> 48 \<le> c \<and> c \<le> 57"
proof (induction n rule: show_nat.induct)
  case (1 n)
  show ?case
  proof (cases "n < 10")
    case True
    then show ?thesis using 1 by (subst (asm) show_nat.simps) auto
  next
    case False
    then have "c \<in> set (show_nat (n div 10)) \<or> c = 48 + n mod 10"
      using 1(2) show_nat.simps [of n] by auto
    then show ?thesis using 1(1) False by auto
  qed
qed

text \<open>Units that neither break a line nor act as a control.\<close>

definition plain :: "nat \<Rightarrow> bool" where
  "plain c \<longleftrightarrow> \<not> unsafe_unit c \<and> \<not> line_break c"

lemma plain_ascii: "32 \<le> c \<Longrightarrow> c \<le> 126 \<Longrightarrow> plain c"
  by (simp add: plain_def unsafe_unit_def line_break_def)

lemma hex_digit_plain: "n < 16 \<Longrightarrow> plain (hex_digit n)"
  by (rule plain_ascii) (auto simp: hex_digit_def)

lemma hex4_plain: "c \<in> set (hex4 n) \<Longrightarrow> plain c"
  by (auto simp: hex4_def intro!: hex_digit_plain)

lemma surrogate_plain: "hi_surrogate c \<or> lo_surrogate c \<Longrightarrow> plain c"
  by (auto simp: hi_surrogate_def lo_surrogate_def plain_def unsafe_unit_def line_break_def)

lemma code_point_cases: "p \<in> set (code_points s) \<Longrightarrow> (\<exists>c \<in> set s. p = [c]) \<or> (\<exists>c d. p = [c, d] \<and> hi_surrogate c \<and> lo_surrogate d)"
  by (induction s rule: code_points.induct) (auto split: if_splits)

lemma json_escape_plain: "plain d \<or> d = 9 \<or> d = 10 \<Longrightarrow> c \<in> set (json_escape [d]) \<Longrightarrow> plain c"
  using hex4_plain by (auto simp: json_escape_def intro: plain_ascii split: if_splits)

lemma json_string_plain:
  assumes "\<And>d. d \<in> set s \<Longrightarrow> plain d \<or> d = 9 \<or> d = 10" and "c \<in> set (json_string s)"
  shows "plain c"
proof (cases "c = 34")
  case False
  then obtain p where p: "p \<in> set (code_points s)" "c \<in> set (json_escape p)" using assms(2) by (auto simp: json_string_def)
  from code_point_cases [OF p(1)] show ?thesis
  proof
    assume "\<exists>d \<in> set s. p = [d]"
    then show ?thesis using p(2) assms(1) json_escape_plain by blast
  next
    assume "\<exists>d e. p = [d, e] \<and> hi_surrogate d \<and> lo_surrogate e"
    then show ?thesis using p(2) surrogate_plain by (auto simp: json_escape_def)
  qed
qed (simp add: plain_ascii)

lemma squeeze_set: "set (squeeze b s) \<subseteq> insert 32 (set s)"
  by (induction b s rule: squeeze.induct) auto

lemma plain_lit: "list_all (\<lambda>x. 32 \<le> (of_char x :: nat) \<and> (of_char x :: nat) \<le> 126) w \<Longrightarrow> c \<in> set (lit w) \<Longrightarrow> plain c"
  by (auto simp: lit_def list_all_iff intro: plain_ascii)

lemma show_nat_plain: "c \<in> set (show_nat n) \<Longrightarrow> plain c"
  using show_nat_digits [of c n] by (intro plain_ascii) auto

lemma provenanceLabel_plain:
  assumes "c \<in> set (provenanceLabel name)"
  shows "plain c"
proof -
  let ?clean = "js_trim (squeeze False (sanitizePromptText name))"
  let ?cut = "concat (take 80 (code_points ?clean))"
  have units: "plain d \<or> d = 9 \<or> d = 10" if "d \<in> set ?clean" for d
    using that trim_set squeeze_set sanitize_units [of d name] plain_ascii [of 32] by (fastforce simp: plain_def)
  have "set ?cut \<subseteq> set ?clean"
    using concat_code_points [of ?clean] append_take_drop_id [of 80 "code_points ?clean"] by (metis concat_append set_append Un_upper1)
  then have "plain d \<or> d = 9 \<or> d = 10" if "d \<in> set (if ?cut = [] then [63] else ?cut)" for d
    using that units plain_ascii [of 63] by (auto split: if_splits)
  then show ?thesis using assms json_string_plain plain_lit [of "''project ''" c] by (auto simp: provenanceLabel_def Let_def)
qed

text \<open>
  C24: A message cannot forge its frame. For every sender and every text, the typed text has these
  lines and no others: the header, the lines of the sanitised text each after \<open>"> "\<close>, and the
  end line; and no unit of it is a control, a bidi mark or a line break other than the line feed
  between those lines. So whatever the body contains, only the first and the last line start
  without the quote.
\<close>

theorem frame_cannot_be_forged:
  fixes sid :: nat and project body :: jsstring
  defines "typed \<equiv> frameMessage sid (provenanceLabel project) body"
  shows "js_split 10 typed =
      [lit ''Message from '' @ frame_from sid (provenanceLabel project) @ lit '':'']
      @ map (\<lambda>line. lit ''> '' @ line) (js_split 10 (sanitizePromptText body))
      @ [lit ''(end of message from session '' @ show_nat sid @ lit '')'']
    \<and> list_all (\<lambda>c. \<not> unsafe_unit c \<and> (line_break c \<longleftrightarrow> c = 10)) typed"
proof -
  let ?h = "lit ''Message from '' @ frame_from sid (provenanceLabel project) @ lit '':''"
  let ?b = "map (\<lambda>line. lit ''> '' @ line) (js_split 10 (sanitizePromptText body))"
  let ?e = "lit ''(end of message from session '' @ show_nat sid @ lit '')''"
  have typed: "typed = ?h @ 10 # js_join [10] ?b @ 10 # ?e" by (simp add: typed_def frameMessage_def)
  have h: "c \<in> set ?h \<Longrightarrow> plain c" and e: "c \<in> set ?e \<Longrightarrow> plain c" for c
    using provenanceLabel_plain [of c project] show_nat_plain [of c sid] plain_lit [of "''Message from ''" c]
      plain_lit [of "'':''" c] plain_lit [of "''session ''" c] plain_lit [of "'' (''" c] plain_lit [of "'')''" c]
      plain_lit [of "''(end of message from session ''" c]
    by (simp_all add: frame_from_def split: if_splits) blast+
  have b: "l \<in> set ?b \<Longrightarrow> c \<in> set l \<Longrightarrow> plain c" for l c
    using split_parts [of _ 10 "sanitizePromptText body"] sanitize_units [of c body] plain_lit [of "''> ''" c]
    by (fastforce simp: plain_def)
  have newline: "line_break 10" "\<not> unsafe_unit 10" by (simp_all add: line_break_def unsafe_unit_def)
  then have nl: "\<not> plain 10" by (simp add: plain_def)
  have "10 \<notin> set ?h" "10 \<notin> set ?e" "\<And>l. l \<in> set ?b \<Longrightarrow> 10 \<notin> set l" using h e b nl by blast+
  moreover have "?b \<noteq> []" by simp
  ultimately have "js_split 10 typed = [?h] @ ?b @ [?e]"
    using split_join [of ?b 10] unfolding typed split_append
    by (simp only: split_whole not_False_eq_True if_True)
  moreover have "c \<in> set (js_join [10] ?b) \<Longrightarrow> plain c \<or> c = 10" for c
    using b set_join [of "[10]" ?b] unfolding set_simps by blast
  then have "plain c \<or> c = 10" if "c \<in> set typed" for c
    using that h [of c] e [of c] unfolding typed set_append set_simps Un_iff insert_iff by blast
  then have "list_all (\<lambda>c. \<not> unsafe_unit c \<and> (line_break c \<longleftrightarrow> c = 10)) typed"
    using newline unfolding list_all_iff plain_def by blast
  ultimately show ?thesis by blast
qed

end
