(* ===== verification/SessionStatus.thy ===== *)
theory SessionStatus
  imports Attention TerminalText GateRegistry MessageFrame
begin

section \<open>The derived status of a session\<close>

text \<open>
  \<open>src/services/session-status.ts\<close>, the unions of \<open>src/shared/types.ts\<close> it derives, and
  \<open>src/services/background-tasks.ts\<close>. \<open>status_info\<close> is the part of \<open>SessionInfo\<close> the derivation reads;
  \<open>partial_info\<close> is the same record as it arrives, any field of which may be \<open>undefined\<close> (an older agent
  does not send the newer ones). A gate's state is the one of \<open>GateRegistry\<close>, an attention kind the one
  of \<open>Attention\<close>.
\<close>

subsection \<open>Statuses and severities\<close>

datatype session_status =
    SExited | SSuspended | AwaitingPermission | AwaitingPlan | AwaitingReviewGate | AwaitingPromote
  | AwaitingQuestion | AwaitingElicitation | SApiError | SToolFailure | SFinished | NeedsInput
  | SCompacting | SSubagent | SBackground | SWorking | SIdle

datatype session_severity = Gone | Failed | Blocked | Done | Waiting | Busy | Dormant

fun SEVERITY_BY_STATUS :: "session_status \<Rightarrow> session_severity" where
  "SEVERITY_BY_STATUS SExited = Gone"
| "SEVERITY_BY_STATUS SSuspended = Dormant"
| "SEVERITY_BY_STATUS AwaitingPermission = Blocked"
| "SEVERITY_BY_STATUS AwaitingPlan = Blocked"
| "SEVERITY_BY_STATUS AwaitingReviewGate = Blocked"
| "SEVERITY_BY_STATUS AwaitingPromote = Blocked"
| "SEVERITY_BY_STATUS AwaitingQuestion = Blocked"
| "SEVERITY_BY_STATUS AwaitingElicitation = Blocked"
| "SEVERITY_BY_STATUS SApiError = Failed"
| "SEVERITY_BY_STATUS SToolFailure = Failed"
| "SEVERITY_BY_STATUS SFinished = Done"
| "SEVERITY_BY_STATUS NeedsInput = Waiting"
| "SEVERITY_BY_STATUS SCompacting = Busy"
| "SEVERITY_BY_STATUS SSubagent = Busy"
| "SEVERITY_BY_STATUS SBackground = Busy"
| "SEVERITY_BY_STATUS SWorking = Busy"
| "SEVERITY_BY_STATUS SIdle = Dormant"

text \<open>The keys of the table, in the order they are written.\<close>

definition SESSION_STATUSES :: "session_status list" where
  "SESSION_STATUSES = [SExited, SSuspended, AwaitingPermission, AwaitingPlan, AwaitingReviewGate, AwaitingPromote,
     AwaitingQuestion, AwaitingElicitation, SApiError, SToolFailure, SFinished, NeedsInput,
     SCompacting, SSubagent, SBackground, SWorking, SIdle]"

text \<open>\<open>[...new Set(xs)]\<close>: the first occurrence of each value, in order.\<close>

definition js_unique :: "'a list \<Rightarrow> 'a list" where
  "js_unique xs = rev (remdups (rev xs))"

definition SESSION_SEVERITIES :: "session_severity list" where
  "SESSION_SEVERITIES = js_unique (map SEVERITY_BY_STATUS SESSION_STATUSES)"

definition ATTENTION_SEVERITIES :: "session_severity set" where
  "ATTENTION_SEVERITIES = {Failed, Blocked, Done, Waiting}"

record derived_status =
  ds_status :: session_status
  ds_severity :: session_severity
  ds_detail :: "jsstring option"
  ds_attentionRequired :: bool

definition STATUS_DETAIL_MAX_CHARS :: nat where "STATUS_DETAIL_MAX_CHARS = 48"
definition LONG_DETAIL_MAX_CHARS :: nat where "LONG_DETAIL_MAX_CHARS = 200"
definition LONG_DETAIL_STATUSES :: "session_status set" where "LONG_DETAIL_STATUSES = {AwaitingReviewGate, AwaitingPromote}"

definition truncateDetail :: "session_status \<Rightarrow> jsstring option \<Rightarrow> jsstring option" where
  "truncateDetail status detail = (case detail of None \<Rightarrow> None | Some d \<Rightarrow>
     Some (collapseAndTruncate d (if status \<in> LONG_DETAIL_STATUSES then LONG_DETAIL_MAX_CHARS else STATUS_DETAIL_MAX_CHARS)))"

definition make_status :: "session_status \<Rightarrow> jsstring option \<Rightarrow> derived_status" where
  "make_status status detail = \<lparr>ds_status = status, ds_severity = SEVERITY_BY_STATUS status,
     ds_detail = truncateDetail status detail,
     ds_attentionRequired = (SEVERITY_BY_STATUS status \<in> ATTENTION_SEVERITIES)\<rparr>"

definition show_int :: "int \<Rightarrow> jsstring" where
  "show_int i = (if i < 0 then 45 # show_nat (nat (- i)) else show_nat (nat i))"

text \<open>An empty reason is falsy and counts as none.\<close>

definition formatExitedDetail :: "jsstring option \<Rightarrow> int option \<Rightarrow> jsstring option" where
  "formatExitedDetail endedReason exitCode =
     (let reason = (case endedReason of Some [] \<Rightarrow> None | r \<Rightarrow> r) in
      case (reason, exitCode) of
        (Some r, Some c) \<Rightarrow> Some (r @ lit '' (exit code '' @ show_int c @ lit '')'')
      | (Some r, None) \<Rightarrow> Some r
      | (None, Some c) \<Rightarrow> Some (lit ''exit code '' @ show_int c)
      | (None, None) \<Rightarrow> None)"

subsection \<open>Outstanding background tasks\<close>

text \<open>The \<open>status\<close> of a reported task is whatever JSON the agent sent; \<open>toLowerCase\<close> is a parameter
  \<open>lower\<close> (Unicode case mapping).\<close>

definition TERMINAL_STATUSES :: "jsstring set" where
  "TERMINAL_STATUSES = {lit ''completed'', lit ''failed'', lit ''stopped'', lit ''killed'', lit ''cancelled'', lit ''canceled'',
     lit ''error'', lit ''timed_out'', lit ''succeeded'', lit ''done''}"

text \<open>\<open>None\<close>: the field is missing or not a string.\<close>

type_synonym background_task = "jsstring option"

definition isBackgroundTaskOutstanding :: "(jsstring \<Rightarrow> jsstring) \<Rightarrow> background_task \<Rightarrow> bool" where
  "isBackgroundTaskOutstanding lower t = (case t of None \<Rightarrow> True | Some s \<Rightarrow> lower (js_trim s) \<notin> TERMINAL_STATUSES)"

definition filterOutstandingBackgroundTasks :: "(jsstring \<Rightarrow> jsstring) \<Rightarrow> background_task list \<Rightarrow> background_task list" where
  "filterOutstandingBackgroundTasks lower ts = filter (isBackgroundTaskOutstanding lower) ts"

subsection \<open>Derivation\<close>

datatype activity = Working | Idle
datatype pending_state = NotPending | Pending
datatype promote_state = PIdle | PPending | PAccepted | PDeclined
datatype error_state = NoError | EApiError | EToolFailure
datatype compact_state = NotCompacting | Compacting
datatype db_status = Active | Killed | DbExited

record status_info =
  si_activity :: activity
  si_attention :: bool
  si_attentionKind :: "attention_signal_kind option"
  si_permissionState :: pending_state
  si_planState :: pending_state
  si_gateState :: gate_state
  si_gatePrompt :: "jsstring option"
  si_promoteState :: promote_state
  si_promoteSummary :: "jsstring option"
  si_elicitationState :: pending_state
  si_elicitationServer :: "jsstring option"
  si_questionState :: pending_state
  si_questionHeader :: "jsstring option"
  si_errorState :: error_state
  si_errorDetail :: "jsstring option"
  si_endedReason :: "jsstring option"
  si_exitCode :: "int option"
  si_compactState :: compact_state
  si_subagentCount :: int
  si_lastTurnEndedAt :: "int option"
  si_outstandingBackgroundTasks :: "background_task list"

record partial_info =
  pi_activity :: "activity option"
  pi_attention :: "bool option"
  pi_attentionKind :: "attention_signal_kind option"
  pi_permissionState :: "pending_state option"
  pi_planState :: "pending_state option"
  pi_gateState :: "gate_state option"
  pi_gatePrompt :: "jsstring option"
  pi_promoteState :: "promote_state option"
  pi_promoteSummary :: "jsstring option"
  pi_elicitationState :: "pending_state option"
  pi_elicitationServer :: "jsstring option"
  pi_questionState :: "pending_state option"
  pi_questionHeader :: "jsstring option"
  pi_errorState :: "error_state option"
  pi_errorDetail :: "jsstring option"
  pi_endedReason :: "jsstring option"
  pi_exitCode :: "int option"
  pi_compactState :: "compact_state option"
  pi_subagentCount :: "int option"
  pi_lastTurnEndedAt :: "int option"
  pi_outstandingBackgroundTasks :: "background_task list option"

text \<open>\<open>v ?? d\<close>, and \<open>info?.f ?? d\<close> on an info that may be absent.\<close>

definition coalesce :: "'a option \<Rightarrow> 'a \<Rightarrow> 'a" where
  "coalesce v d = (case v of Some x \<Rightarrow> x | None \<Rightarrow> d)"

definition defaultDeriveStatusInfo :: "partial_info option \<Rightarrow> status_info" where
  "defaultDeriveStatusInfo info =
    \<lparr>si_activity = coalesce (Option.bind info pi_activity) Idle,
     si_attention = coalesce (Option.bind info pi_attention) False,
     si_attentionKind = Option.bind info pi_attentionKind,
     si_permissionState = coalesce (Option.bind info pi_permissionState) NotPending,
     si_planState = coalesce (Option.bind info pi_planState) NotPending,
     si_gateState = coalesce (Option.bind info pi_gateState) GIdle,
     si_gatePrompt = Option.bind info pi_gatePrompt,
     si_promoteState = coalesce (Option.bind info pi_promoteState) PIdle,
     si_promoteSummary = Option.bind info pi_promoteSummary,
     si_elicitationState = coalesce (Option.bind info pi_elicitationState) NotPending,
     si_elicitationServer = Option.bind info pi_elicitationServer,
     si_questionState = coalesce (Option.bind info pi_questionState) NotPending,
     si_questionHeader = Option.bind info pi_questionHeader,
     si_errorState = coalesce (Option.bind info pi_errorState) NoError,
     si_errorDetail = Option.bind info pi_errorDetail,
     si_endedReason = Option.bind info pi_endedReason,
     si_exitCode = Option.bind info pi_exitCode,
     si_compactState = coalesce (Option.bind info pi_compactState) NotCompacting,
     si_subagentCount = coalesce (Option.bind info pi_subagentCount) 0,
     si_lastTurnEndedAt = Option.bind info pi_lastTurnEndedAt,
     si_outstandingBackgroundTasks = coalesce (Option.bind info pi_outstandingBackgroundTasks) []\<rparr>"

record status_input =
  in_dbStatus :: db_status
  in_hostReachable :: "bool option"
  in_hostRefusedStatus :: "int option"
  in_hostBusy :: "bool option"
  in_info :: status_info

text \<open>The name of a signal kind, as the source spells it.\<close>

fun kind_name :: "attention_signal_kind \<Rightarrow> string" where
  "kind_name Bell = ''bell''"
| "kind_name Notification = ''notification''"
| "kind_name TitleIdle = ''titleIdle''"
| "kind_name AltScreenExit = ''altScreenExit''"
| "kind_name Silence = ''silence''"
| "kind_name HookNotification = ''hookNotification''"
| "kind_name Attention.ReviewGate = ''reviewGate''"
| "kind_name AgentIdle = ''agentIdle''"
| "kind_name PromoteRequest = ''promoteRequest''"
| "kind_name PermissionRequest = ''permissionRequest''"
| "kind_name PlanReady = ''planReady''"
| "kind_name Elicitation = ''elicitation''"
| "kind_name Question = ''question''"
| "kind_name ToolFailure = ''toolFailure''"
| "kind_name ApiError = ''apiError''"

definition suspended_detail :: "status_input \<Rightarrow> jsstring" where
  "suspended_detail inp =
     (if in_hostBusy inp = Some True then lit ''host busy '' @ [8212] @ lit '' may still be running''
      else case in_hostRefusedStatus inp of
        None \<Rightarrow> lit ''host unreachable '' @ [8212] @ lit '' may still be running''
      | Some c \<Rightarrow> lit ''host rejected the request (HTTP '' @ show_int c @ lit '')'')"

definition deriveSessionStatus :: "status_input \<Rightarrow> derived_status" where
  "deriveSessionStatus inp =
    (let info = in_info inp; outstanding = length (si_outstandingBackgroundTasks info) in
     if in_dbStatus inp = Killed \<or> in_dbStatus inp = DbExited
     then make_status SExited (formatExitedDetail (si_endedReason info) (si_exitCode info))
     else if in_hostReachable inp = Some False then make_status SSuspended (Some (suspended_detail inp))
     else if si_permissionState info = Pending then make_status AwaitingPermission None
     else if si_planState info = Pending then make_status AwaitingPlan None
     else if si_gateState info = GWaiting then make_status AwaitingReviewGate (si_gatePrompt info)
     else if si_promoteState info = PPending then make_status AwaitingPromote (si_promoteSummary info)
     else if si_questionState info = Pending then make_status AwaitingQuestion (si_questionHeader info)
     else if si_elicitationState info = Pending then make_status AwaitingElicitation (si_elicitationServer info)
     else if si_errorState info = EApiError then make_status SApiError (si_errorDetail info)
     else if si_errorState info = EToolFailure \<and> si_activity info \<noteq> Working then make_status SToolFailure (si_errorDetail info)
     else if si_lastTurnEndedAt info \<noteq> None \<and> outstanding = 0 then make_status SFinished None
     else if si_attention info then make_status NeedsInput (map_option (\<lambda>k. lit (kind_name k)) (si_attentionKind info))
     else if si_compactState info = Compacting then make_status SCompacting None
     else if si_subagentCount info > 0 then make_status SSubagent (Some (show_int (si_subagentCount info) @ lit '' running''))
     else if outstanding > 0 then make_status SBackground (Some (show_nat outstanding @ lit '' task'' @ (if outstanding = 1 then [] else lit ''s'')))
     else if si_activity info = Working then make_status SWorking None
     else make_status SIdle None)"

subsection \<open>Precedence\<close>

text \<open>The specification: when each status applies, independent of the others.\<close>

fun applies :: "status_input \<Rightarrow> session_status \<Rightarrow> bool" where
  "applies inp SExited = (in_dbStatus inp \<noteq> Active)"
| "applies inp SSuspended = (in_hostReachable inp = Some False)"
| "applies inp AwaitingPermission = (si_permissionState (in_info inp) = Pending)"
| "applies inp AwaitingPlan = (si_planState (in_info inp) = Pending)"
| "applies inp AwaitingReviewGate = (si_gateState (in_info inp) = GWaiting)"
| "applies inp AwaitingPromote = (si_promoteState (in_info inp) = PPending)"
| "applies inp AwaitingQuestion = (si_questionState (in_info inp) = Pending)"
| "applies inp AwaitingElicitation = (si_elicitationState (in_info inp) = Pending)"
| "applies inp SApiError = (si_errorState (in_info inp) = EApiError)"
| "applies inp SToolFailure = (si_errorState (in_info inp) = EToolFailure \<and> si_activity (in_info inp) = Idle)"
| "applies inp SFinished = (si_lastTurnEndedAt (in_info inp) \<noteq> None \<and> si_outstandingBackgroundTasks (in_info inp) = [])"
| "applies inp NeedsInput = si_attention (in_info inp)"
| "applies inp SCompacting = (si_compactState (in_info inp) = Compacting)"
| "applies inp SSubagent = (0 < si_subagentCount (in_info inp))"
| "applies inp SBackground = (si_outstandingBackgroundTasks (in_info inp) \<noteq> [])"
| "applies inp SWorking = (si_activity (in_info inp) = Working)"
| "applies inp SIdle = True"

definition awaiting :: "session_status set" where
  "awaiting = {s. SEVERITY_BY_STATUS s = Blocked}"

lemma status_make [simp]: "ds_status (make_status s d) = s" "ds_severity (make_status s d) = SEVERITY_BY_STATUS s"
  "ds_detail (make_status s d) = truncateDetail s d"
  "ds_attentionRequired (make_status s d) = (SEVERITY_BY_STATUS s \<in> ATTENTION_SEVERITIES)"
  by (simp_all add: make_status_def)

definition made :: "derived_status \<Rightarrow> bool" where
  "made x \<longleftrightarrow> (\<exists>d. x = make_status (ds_status x) d)"

lemma made_intros: "made (make_status s d)" "made x \<Longrightarrow> made y \<Longrightarrow> made (if b then x else y)"
  by (auto simp: made_def)

lemma madeD: "made x \<Longrightarrow> \<exists>d. ds_severity x = SEVERITY_BY_STATUS (ds_status x)
    \<and> ds_attentionRequired x = (ds_severity x \<in> ATTENTION_SEVERITIES) \<and> ds_detail x = truncateDetail (ds_status x) d"
  unfolding made_def by (metis status_make)

lemma derive_is_made: "made (deriveSessionStatus inp)"
  unfolding deriveSessionStatus_def Let_def by (intro made_intros)

lemma not_working: "(a \<noteq> Working) = (a = Idle)" "(d = Killed \<or> d = DbExited) = (d \<noteq> Active)"
  by (cases a, auto) (cases d, auto)

lemma derive_first: "find (applies inp) SESSION_STATUSES = Some (ds_status (deriveSessionStatus inp))"
  by (simp add: deriveSessionStatus_def Let_def SESSION_STATUSES_def not_working)

lemma truncate_bound: "case truncateDetail s d of None \<Rightarrow> True | Some t \<Rightarrow>
    length (code_points t) \<le> (if s = AwaitingReviewGate \<or> s = AwaitingPromote then 201 else 49)"
proof (cases d)
  case (Some x)
  show ?thesis using collapse_length [of x LONG_DETAIL_MAX_CHARS] collapse_length [of x STATUS_DETAIL_MAX_CHARS]
    by (cases "s \<in> LONG_DETAIL_STATUSES")
      (auto simp: Some truncateDetail_def LONG_DETAIL_STATUSES_def LONG_DETAIL_MAX_CHARS_def STATUS_DETAIL_MAX_CHARS_def)
qed (simp add: truncateDetail_def)

lemma awaiting_list: "awaiting = set [AwaitingPermission, AwaitingPlan, AwaitingReviewGate, AwaitingPromote, AwaitingQuestion, AwaitingElicitation]"
proof -
  have "s \<in> awaiting \<longleftrightarrow> s \<in> set [AwaitingPermission, AwaitingPlan, AwaitingReviewGate, AwaitingPromote, AwaitingQuestion, AwaitingElicitation]" for s
    by (cases s) (simp_all add: awaiting_def)
  then show ?thesis by blast
qed

lemma find_append: "find P (xs @ ys) = (case find P xs of Some x \<Rightarrow> Some x | None \<Rightarrow> find P ys)"
  by (induction xs) auto

lemma find_SomeD: "find P xs = Some x \<Longrightarrow> x \<in> set xs \<and> P x"
  by (induction xs) (auto split: if_splits)

text \<open>In a list of alternatives, one of a middle block is found iff none before the block and one of it holds.\<close>

lemma find_in_block:
  assumes "find P (xs @ ys @ zs) = Some x" and "set ys \<inter> (set xs \<union> set zs) = {}"
  shows "x \<in> set ys \<longleftrightarrow> (\<forall>y \<in> set xs. \<not> P y) \<and> (\<exists>y. y \<in> set ys \<and> P y)"
proof (cases "find P xs")
  case None
  then have xs: "\<forall>y \<in> set xs. \<not> P y" by (auto simp: find_None_iff)
  show ?thesis
  proof (cases "find P ys")
    case ys: None
    then have "x \<in> set zs" using assms(1) None by (auto simp: find_append dest: find_SomeD)
    then show ?thesis using assms(2) ys by (auto simp: find_None_iff)
  next
    case (Some y)
    then have "x = y" using assms(1) None by (simp add: find_append)
    then show ?thesis using find_SomeD [OF Some] xs by blast
  qed
next
  case (Some y)
  then have "x = y" using assms(1) by (simp add: find_append)
  then show ?thesis using find_SomeD [OF Some] assms(2) by blast
qed

text \<open>
  One precedence for session statuses. The derived status is the first status, in the declared
  order of the union, whose own condition holds; its severity and attention flag are those of the
  table, and its detail is at most 48 code points and an ellipsis (200 for a gate prompt or a
  promote summary). In particular a session of a reachable host that is not over shows as
  blocked exactly when some prompt waits for a human decision: no error, no finished turn and no
  activity hides it.
\<close>

theorem status_precedence:
  fixes inp :: status_input
  defines "d \<equiv> deriveSessionStatus inp"
  shows "find (applies inp) SESSION_STATUSES = Some (ds_status d)
    \<and> ds_severity d = SEVERITY_BY_STATUS (ds_status d)
    \<and> ds_attentionRequired d = (ds_severity d \<in> {Failed, Blocked, Done, Waiting})
    \<and> (ds_severity d = Blocked) = (in_dbStatus inp = Active \<and> in_hostReachable inp \<noteq> Some False \<and> (\<exists>s. s \<in> awaiting \<and> applies inp s))
    \<and> (case ds_detail d of None \<Rightarrow> True | Some t \<Rightarrow>
         length (code_points t) \<le> (if ds_status d = AwaitingReviewGate \<or> ds_status d = AwaitingPromote then 201 else 49))"
proof -
  obtain dt where "ds_severity d = SEVERITY_BY_STATUS (ds_status d)"
    "ds_attentionRequired d = (ds_severity d \<in> ATTENTION_SEVERITIES)" and dt: "ds_detail d = truncateDetail (ds_status d) dt"
    using madeD [OF derive_is_made [of inp]] unfolding d_def by blast
  moreover have "case ds_detail d of None \<Rightarrow> True | Some t \<Rightarrow>
      length (code_points t) \<le> (if ds_status d = AwaitingReviewGate \<or> ds_status d = AwaitingPromote then 201 else 49)"
    unfolding dt by (rule truncate_bound)
  moreover have "(ds_status d \<in> awaiting) =
      (in_dbStatus inp = Active \<and> in_hostReachable inp \<noteq> Some False \<and> (\<exists>s. s \<in> awaiting \<and> applies inp s))"
  proof -
    let ?aw = "[AwaitingPermission, AwaitingPlan, AwaitingReviewGate, AwaitingPromote, AwaitingQuestion, AwaitingElicitation]"
    have "find (applies inp) ([SExited, SSuspended] @ ?aw @ drop 8 SESSION_STATUSES) = Some (ds_status d)"
      using derive_first [of inp] by (simp add: SESSION_STATUSES_def d_def)
    from find_in_block [OF this] show ?thesis unfolding awaiting_list by (simp add: SESSION_STATUSES_def)
  qed
  ultimately show ?thesis using derive_first [of inp]
    by (auto simp: d_def awaiting_def ATTENTION_SEVERITIES_def)
qed

text \<open>Without any information from a host a live session reads as idle.\<close>

lemma default_is_idle: "deriveSessionStatus \<lparr>in_dbStatus = Active, in_hostReachable = None, in_hostRefusedStatus = None,
    in_hostBusy = None, in_info = defaultDeriveStatusInfo None\<rparr> = make_status SIdle None"
  by (simp add: deriveSessionStatus_def defaultDeriveStatusInfo_def coalesce_def)

end
