(* ===== verification/SessionLive.thy ===== *)
theory SessionLive
  imports SessionStatus
begin

section \<open>Which host a session lives on, and what it reports\<close>

text \<open>
  \<open>src/services/session-live-info.ts\<close>: resolving the host of a session (one row at a time, and a batch
  of ids by chunked queries), classifying what the host answered, and the repair of a row that was
  wrongly marked exited. The two tables are lists of rows in table order; a query is a filter or a
  join over them. A host's client is a parameter: its answer is an input.
\<close>

record project_row =
  pj_id :: int
  pj_hostId :: string

record session_row =
  sr_id :: int
  sr_projectId :: int
  sr_hostId :: "string option"
  sr_status :: db_status
  sr_createdAt :: int

definition LOCAL_HOST_ID :: string where "LOCAL_HOST_ID = ''local''"

subsection \<open>Host of a session\<close>

definition resolveProjectHostId :: "project_row list \<Rightarrow> int \<Rightarrow> string" where
  "resolveProjectHostId projects pid = (case filter (\<lambda>p. pj_id p = pid) projects of [] \<Rightarrow> LOCAL_HOST_ID | p # _ \<Rightarrow> pj_hostId p)"

definition resolveSessionHostId :: "project_row list \<Rightarrow> session_row \<Rightarrow> string" where
  "resolveSessionHostId projects row =
     (case sr_hostId row of Some h \<Rightarrow> h | None \<Rightarrow> resolveProjectHostId projects (sr_projectId row))"

definition resolveTaskWorkerHost :: "project_row list \<Rightarrow> session_row list \<Rightarrow> int option \<Rightarrow> int \<Rightarrow> project_row option \<Rightarrow> string" where
  "resolveTaskWorkerHost projects sessions sessionId projectId project =
     (let fallback = (case project of Some p \<Rightarrow> pj_hostId p | None \<Rightarrow> resolveProjectHostId projects projectId) in
      case sessionId of None \<Rightarrow> fallback
      | Some sid \<Rightarrow> (case filter (\<lambda>s. sr_id s = sid) sessions of [] \<Rightarrow> fallback | row # _ \<Rightarrow> resolveSessionHostId projects row))"

definition SESSION_HOST_LOOKUP_CHUNK_SIZE :: nat where "SESSION_HOST_LOOKUP_CHUNK_SIZE = 500"

text \<open>One query: the sessions of the chunk, left-joined with their projects.\<close>

definition joined_row :: "project_row list \<Rightarrow> session_row \<Rightarrow> (int \<times> string option) list" where
  "joined_row projects s =
     (let ps = filter (\<lambda>p. pj_id p = sr_projectId s) projects;
          joined = (if ps = [] then [None] else map (\<lambda>p. Some (pj_hostId p)) ps)
      in map (\<lambda>ph. (sr_id s, case sr_hostId s of Some h \<Rightarrow> Some h | None \<Rightarrow> ph)) joined)"

definition host_rows :: "project_row list \<Rightarrow> session_row list \<Rightarrow> int list \<Rightarrow> (int \<times> string option) list" where
  "host_rows projects sessions chunk = concat (map (joined_row projects) (filter (\<lambda>s. sr_id s \<in> set chunk) sessions))"

definition put_owners :: "(int \<times> string option) list \<Rightarrow> (int, string) jsmap \<Rightarrow> (int, string) jsmap" where
  "put_owners rows owners = foldl (\<lambda>m (sid, h). jm_set sid (coalesce h LOCAL_HOST_ID) m) owners rows"

function owners_loop :: "project_row list \<Rightarrow> session_row list \<Rightarrow> nat \<Rightarrow> int list \<Rightarrow> (int, string) jsmap \<Rightarrow> (int, string) jsmap" where
  "owners_loop projects sessions i uniqueIds owners =
     (if i < length uniqueIds
      then owners_loop projects sessions (i + SESSION_HOST_LOOKUP_CHUNK_SIZE) uniqueIds
        (put_owners (host_rows projects sessions (take SESSION_HOST_LOOKUP_CHUNK_SIZE (drop i uniqueIds))) owners)
      else owners)"
  by pat_completeness auto
termination
  by (relation "measure (\<lambda>(_, _, i, ids, _). length ids - i)") (auto simp: SESSION_HOST_LOOKUP_CHUNK_SIZE_def)

declare owners_loop.simps [simp del]

definition resolveSessionHostIds :: "project_row list \<Rightarrow> session_row list \<Rightarrow> int list \<Rightarrow> (int, string) jsmap" where
  "resolveSessionHostIds projects sessions sessionIds = owners_loop projects sessions 0 (js_unique sessionIds) []"

subsection \<open>What the host answered\<close>

datatype host_answer = Answered "partial_info option" | HostBusy | HostRequestError int | HostOtherError
datatype read_failure = FUnreachable | FRefused | FBusy

record live_read =
  lr_info :: "partial_info option"
  lr_hostReachable :: bool
  lr_failure :: "read_failure option"
  lr_hostRefusedStatus :: "int option"
  lr_hostBusy :: "bool option"

definition read_outcome :: "partial_info option \<Rightarrow> read_failure option \<Rightarrow> host_answer \<Rightarrow> live_read" where
  "read_outcome info failure err =
     \<lparr>lr_info = info, lr_hostReachable = (failure = None), lr_failure = failure,
      lr_hostRefusedStatus = (case (failure, err) of (Some FRefused, HostRequestError c) \<Rightarrow> Some c | _ \<Rightarrow> None),
      lr_hostBusy = (if failure = Some FBusy then Some True else None)\<rparr>"

definition readSessionLiveInfo :: "host_answer \<Rightarrow> live_read" where
  "readSessionLiveInfo ans = (case ans of
     Answered info \<Rightarrow> read_outcome info None ans
   | HostBusy \<Rightarrow> read_outcome None (Some FBusy) ans
   | HostRequestError _ \<Rightarrow> read_outcome None (Some FRefused) ans
   | HostOtherError \<Rightarrow> read_outcome None (Some FUnreachable) ans)"

text \<open>\<open>withLiveStatus\<close> into \<open>withLiveInfo\<close>: the status of the row. The fields the derivation reads get the
  same defaults in \<open>buildLiveInfo\<close> as in \<open>defaultDeriveStatusInfo\<close>.\<close>

definition withLiveStatus :: "session_row \<Rightarrow> host_answer \<Rightarrow> derived_status" where
  "withLiveStatus row ans =
     (let r = readSessionLiveInfo ans in
      deriveSessionStatus \<lparr>in_dbStatus = sr_status row, in_hostReachable = Some (lr_hostReachable r),
        in_hostRefusedStatus = lr_hostRefusedStatus r, in_hostBusy = lr_hostBusy r,
        in_info = defaultDeriveStatusInfo (lr_info r)\<rparr>)"

subsection \<open>Repair of a row wrongly marked exited\<close>

datatype liveness = Alive | Dead | UnknownLiveness

record repair_state =
  rp_repaired :: "(int, int) jsmap"
  rp_sessions :: "session_row list"

text \<open>Up to the await: \<open>Some b\<close> returns \<open>b\<close> at once, \<open>None\<close> probes the host.\<close>

definition repair_begin :: "session_row \<Rightarrow> session_status \<Rightarrow> repair_state \<Rightarrow> bool option" where
  "repair_begin session derived st =
     (if derived \<noteq> SExited then Some False
      else if sr_status session \<noteq> DbExited \<or> jm_get (rp_repaired st) (sr_id session) = Some (sr_createdAt session) then Some True
      else None)"

text \<open>After it: \<open>None\<close> is a probe that threw or a host that does not know the session.\<close>

definition repair_end :: "session_row \<Rightarrow> liveness option \<Rightarrow> repair_state \<Rightarrow> repair_state" where
  "repair_end session live st =
     (if live \<noteq> Some Alive then st
      else st\<lparr>rp_repaired := jm_set (sr_id session) (sr_createdAt session) (rp_repaired st),
              rp_sessions := map (\<lambda>r. if sr_id r = sr_id session \<and> sr_status r = DbExited then r\<lparr>sr_status := Active\<rparr> else r) (rp_sessions st)\<rparr>)"

definition repairExited :: "session_row \<Rightarrow> session_status \<Rightarrow> liveness option \<Rightarrow> repair_state \<Rightarrow> bool \<times> repair_state" where
  "repairExited session derived live st =
     (case repair_begin session derived st of Some b \<Rightarrow> (b, st) | None \<Rightarrow> (True, repair_end session live st))"

subsection \<open>A batch resolves as its rows do\<close>

definition keyed :: "('a \<Rightarrow> int) \<Rightarrow> 'a list \<Rightarrow> bool" where
  "keyed key rows \<longleftrightarrow> distinct (map key rows)"

lemma keyed_filter:
  assumes "keyed key rows"
  shows "filter (\<lambda>r. key r = k) rows = [] \<or> (\<exists>r \<in> set rows. key r = k \<and> filter (\<lambda>r. key r = k) rows = [r])"
  using assms
proof (induction rows)
  case (Cons a rows)
  have "\<forall>x \<in> set rows. key x \<noteq> key a" using Cons.prems unfolding keyed_def by (metis distinct.simps(2) image_eqI list.simps(9) set_map)
  then have "filter (\<lambda>r. key r = k) rows = []" if "key a = k" using that by (simp add: filter_empty_conv)
  moreover have "keyed key rows" using Cons.prems by (simp add: keyed_def)
  ultimately show ?case using Cons.IH by (cases "key a = k") auto
qed simp

text \<open>A joined row of a session carries what \<open>resolveSessionHostId\<close> answers for it.\<close>

lemma host_rows_keyed:
  assumes "keyed pj_id projects"
  shows "map (\<lambda>(sid, h). (sid, coalesce h LOCAL_HOST_ID)) (host_rows projects sessions chunk)
    = map (\<lambda>s. (sr_id s, resolveSessionHostId projects s)) (filter (\<lambda>s. sr_id s \<in> set chunk) sessions)"
proof -
  have one: "map (\<lambda>(sid, h). (sid, coalesce h LOCAL_HOST_ID)) (joined_row projects s) = [(sr_id s, resolveSessionHostId projects s)]" for s
    using keyed_filter [OF assms, of "sr_projectId s"]
    by (auto simp: joined_row_def resolveSessionHostId_def resolveProjectHostId_def coalesce_def split: option.splits)
  show ?thesis unfolding host_rows_def by (induction sessions) (simp_all add: one)
qed

lemma put_owners_map: "put_owners rows owners = foldl (\<lambda>m (k, v). jm_set k v m) owners (map (\<lambda>(sid, h). (sid, coalesce h LOCAL_HOST_ID)) rows)"
  unfolding put_owners_def by (induction rows arbitrary: owners) auto

lemma get_put_all:
  assumes "distinct (map fst kvs)"
  shows "jm_get (foldl (\<lambda>m (k, v). jm_set k v m) m kvs) k = (case map_of kvs k of Some v \<Rightarrow> Some v | None \<Rightarrow> jm_get m k)"
  using assms
proof (induction kvs arbitrary: m)
  case (Cons kv kvs)
  obtain k' v where kv: "kv = (k', v)" by fastforce
  have "map_of kvs k' = None" using Cons.prems kv by (simp add: map_of_eq_None_iff)
  with Cons show ?case by (auto simp: kv jm.get_put split: option.splits)
qed simp

text \<open>The reference: look the row up and resolve it alone.\<close>

definition owner_of :: "project_row list \<Rightarrow> session_row list \<Rightarrow> int \<Rightarrow> string option" where
  "owner_of projects sessions sid = map_option (resolveSessionHostId projects) (find (\<lambda>s. sr_id s = sid) sessions)"

lemma map_of_rows: "map_of (map (\<lambda>s. (sr_id s, f s)) rows) sid = map_option f (find (\<lambda>s. sr_id s = sid) rows)"
  by (induction rows) auto

lemma find_filter: "find P (filter Q xs) = find (\<lambda>x. Q x \<and> P x) xs"
  by (induction xs) auto

lemma find_key_chunk: "find (\<lambda>s. sr_id s \<in> A \<and> sr_id s = sid) xs = (if sid \<in> A then find (\<lambda>s. sr_id s = sid) xs else None)"
  by (induction xs) auto

lemma get_chunk:
  assumes "keyed pj_id projects" and "keyed sr_id sessions"
  shows "jm_get (put_owners (host_rows projects sessions chunk) owners) sid =
    (if sid \<in> set chunk \<and> owner_of projects sessions sid \<noteq> None then owner_of projects sessions sid else jm_get owners sid)"
proof -
  let ?rows = "filter (\<lambda>s. sr_id s \<in> set chunk) sessions"
  have d: "distinct (map fst (map (\<lambda>s. (sr_id s, resolveSessionHostId projects s)) ?rows))"
    using assms(2) by (simp add: keyed_def comp_def distinct_map_filter)
  show ?thesis
    unfolding put_owners_map host_rows_keyed [OF assms(1)] get_put_all [OF d] map_of_rows find_filter find_key_chunk
    by (auto simp: owner_of_def split: option.splits)
qed

lemma owners_loop_get:
  assumes "keyed pj_id projects" and "keyed sr_id sessions"
  shows "jm_get (owners_loop projects sessions i ids owners) sid =
    (if sid \<in> set (drop i ids) \<and> owner_of projects sessions sid \<noteq> None then owner_of projects sessions sid else jm_get owners sid)"
  using assms
proof (induction projects sessions i ids owners rule: owners_loop.induct)
  case (1 projects sessions i ids owners)
  show ?case
  proof (cases "i < length ids")
    case True
    let ?n = SESSION_HOST_LOOKUP_CHUNK_SIZE
    have "set (drop i ids) = set (take ?n (drop i ids)) \<union> set (drop (i + ?n) ids)"
      using append_take_drop_id [of ?n "drop i ids"] by (metis add.commute drop_drop set_append)
    then show ?thesis using 1(1) [OF True] 1(2,3) get_chunk [OF 1(2,3), of "take ?n (drop i ids)" owners sid]
      by (subst owners_loop.simps) (auto simp: True)
  qed (subst owners_loop.simps, simp)
qed

lemma set_js_unique [simp]: "set (js_unique xs) = set xs"
  by (simp add: js_unique_def)

text \<open>
  Looking up many sessions' hosts equals looking up each. With the primary keys of both tables
  unique, the map the chunked queries build holds, for every requested id that has a row, the
  host that resolving that row alone gives (its own host, else its project's, else the local one),
  and nothing for any other id; the chunk size and repeated ids make no difference.
\<close>

theorem batch_host_lookup_agrees:
  assumes "keyed pj_id projects" and "keyed sr_id sessions"
  shows "jm_get (resolveSessionHostIds projects sessions sessionIds) sid =
    (if sid \<in> set sessionIds then map_option (resolveSessionHostId projects) (find (\<lambda>s. sr_id s = sid) sessions) else None)"
  using owners_loop_get [OF assms, of 0 "js_unique sessionIds" "[]" sid]
  by (auto simp: resolveSessionHostIds_def owner_of_def)

definition demo_projects :: "project_row list" where
  "demo_projects = [\<lparr>pj_id = 1, pj_hostId = ''mac''\<rparr>]"

definition demo_sessions :: "session_row list" where
  "demo_sessions = [\<lparr>sr_id = 7, sr_projectId = 1, sr_hostId = None, sr_status = Active, sr_createdAt = 0\<rparr>,
     \<lparr>sr_id = 8, sr_projectId = 1, sr_hostId = Some ''pi'', sr_status = Active, sr_createdAt = 0\<rparr>,
     \<lparr>sr_id = 9, sr_projectId = 2, sr_hostId = None, sr_status = DbExited, sr_createdAt = 5\<rparr>]"

theorem batch_host_lookup_agrees_witness:
  "map (jm_get (resolveSessionHostIds demo_projects demo_sessions [9, 7, 8, 7, 4])) [7, 8, 9, 4]
    = [Some ''mac'', Some ''pi'', Some ''local'', None]"
proof -
  have "keyed pj_id demo_projects" "keyed sr_id demo_sessions" by (simp_all add: keyed_def demo_projects_def demo_sessions_def)
  note look = batch_host_lookup_agrees [OF this]
  show ?thesis
    unfolding list.map look by (simp add: demo_projects_def demo_sessions_def resolveSessionHostId_def resolveProjectHostId_def LOCAL_HOST_ID_def)
qed

subsection \<open>Answers and repairs\<close>

text \<open>A session that is not over is suspended exactly when its host did not answer the read.\<close>

lemma suspended_iff_no_answer:
  assumes "sr_status row = Active"
  shows "ds_status (withLiveStatus row ans) = SSuspended \<longleftrightarrow> (\<forall>info. ans \<noteq> Answered info)"
proof -
  let ?r = "readSessionLiveInfo ans"
  let ?inp = "\<lparr>in_dbStatus = sr_status row, in_hostReachable = Some (lr_hostReachable ?r),
        in_hostRefusedStatus = lr_hostRefusedStatus ?r, in_hostBusy = lr_hostBusy ?r, in_info = defaultDeriveStatusInfo (lr_info ?r)\<rparr>"
  have "lr_hostReachable ?r \<longleftrightarrow> (\<exists>info. ans = Answered info)"
    by (cases ans) (simp_all add: readSessionLiveInfo_def read_outcome_def)
  moreover have "find (applies ?inp) ([SExited] @ [SSuspended] @ drop 2 SESSION_STATUSES) = Some (ds_status (withLiveStatus row ans))"
    using derive_first [of ?inp] by (simp add: withLiveStatus_def Let_def SESSION_STATUSES_def)
  from find_in_block [OF this] have "ds_status (withLiveStatus row ans) = SSuspended \<longleftrightarrow> \<not> lr_hostReachable ?r"
    using assms by (simp add: SESSION_STATUSES_def)
  ultimately show ?thesis by blast
qed

text \<open>A repair changes only the status of the one row, only from exited to active, and only on an
  affirmative answer; afterwards the same session is not probed again.\<close>

lemma repair_changes_one_row:
  assumes "rp_sessions st ! k \<noteq> rp_sessions (snd (repairExited session derived live st)) ! k" and "k < length (rp_sessions st)"
  shows "live = Some Alive \<and> sr_id (rp_sessions st ! k) = sr_id session \<and> sr_status (rp_sessions st ! k) = DbExited
    \<and> rp_sessions (snd (repairExited session derived live st)) ! k = (rp_sessions st ! k)\<lparr>sr_status := Active\<rparr>"
  using assms by (auto simp: repairExited_def repair_end_def split: option.splits if_splits)

lemma repaired_once:
  assumes "repair_begin session derived st = None" and "live = Some Alive"
  shows "repair_begin session derived (snd (repairExited session derived live st)) = Some True"
  using assms by (auto simp: repairExited_def repair_begin_def repair_end_def jm.get_put split: if_splits)

end
