(* ===== verification/HostAgents.thy ===== *)
theory HostAgents
  imports SessionLive
begin

section \<open>The agent protocol of a remote host\<close>

text \<open>
  \<open>src/shared/agent-protocol.ts\<close> (what an agent can be asked to do) and \<open>src/services/host-agents.ts\<close> (the
  cache of what each host advertised, its refresh and the gates that read it). A refresh awaits four
  answers of the host one after the other; between them the host may be invalidated or marked stale,
  so the model's steps are the stretches between the awaits. The host's client is a parameter: its
  answers are inputs. Each reading of the clock is an argument.
\<close>

subsection \<open>Protocol registry\<close>

record protocol_info =
  pi_protocolVersion :: int
  pi_operations :: "string list"
  pi_launchOptions :: "string list"

definition PROTOCOL_VERSION :: int where "PROTOCOL_VERSION = 1"
definition SUPPORTED_PROTOCOL_RANGE :: "int \<times> int" where "SUPPORTED_PROTOCOL_RANGE = (1, 1)"

definition AGENT_OPERATIONS :: "string list" where
  "AGENT_OPERATIONS = [''sessions'', ''session-control'', ''session-transcript'', ''git'', ''git-worktrees'', ''project-files'',
     ''project-discovery'', ''skills'', ''agent-rules'', ''dock'', ''previews'', ''browser'', ''browser-targets'',
     ''browser-endpoints'', ''uploads'', ''updates'', ''capacity'', ''capabilities'', ''agent-detect'', ''setup'', ''scaffold'',
     ''bundle-sync'', ''terminal-palette'', ''channel-requests'', ''channel-streams'']"

definition AGENT_LAUNCH_OPTIONS :: "string list" where
  "AGENT_LAUNCH_OPTIONS = [''skipPermissions'', ''initialPrompt'', ''seedPrompt'', ''projectId'', ''env'', ''briefingOverride'',
     ''workflowConventionsText'', ''projectSkill'', ''projectReviewerAgent'', ''injectAgentGuide'', ''injectProjectBriefing'',
     ''injectMullionBundle'', ''model'', ''smallModel'', ''taskId'', ''githubAuth'', ''gitIdentity'', ''browserTarget'']"

definition localProtocolInfo :: protocol_info where
  "localProtocolInfo = \<lparr>pi_protocolVersion = PROTOCOL_VERSION, pi_operations = AGENT_OPERATIONS, pi_launchOptions = AGENT_LAUNCH_OPTIONS\<rparr>"

definition LATE_OPERATIONS :: "string set" where
  "LATE_OPERATIONS = {''agent-detect'', ''capabilities'', ''updates'', ''channel-requests'', ''channel-streams'',
     ''browser-targets'', ''browser-endpoints''}"

definition LEGACY_BASELINE :: protocol_info where
  "LEGACY_BASELINE = \<lparr>pi_protocolVersion = 0, pi_operations = filter (\<lambda>op. op \<notin> LATE_OPERATIONS) AGENT_OPERATIONS,
     pi_launchOptions = [''skipPermissions'', ''initialPrompt'', ''seedPrompt'', ''projectId'', ''env'']\<rparr>"

definition isProtocolCompatible :: "int \<Rightarrow> bool" where
  "isProtocolCompatible v \<longleftrightarrow> v \<ge> fst SUPPORTED_PROTOCOL_RANGE \<and> v \<le> snd SUPPORTED_PROTOCOL_RANGE"

subsection \<open>Tracker\<close>

record host_protocol = protocol_info +
  hp_legacy :: bool

definition with_legacy :: "protocol_info \<Rightarrow> bool \<Rightarrow> host_protocol" where
  "with_legacy p legacy = \<lparr>pi_protocolVersion = pi_protocolVersion p, pi_operations = pi_operations p,
     pi_launchOptions = pi_launchOptions p, hp_legacy = legacy\<rparr>"

definition LEGACY_PROTOCOL :: host_protocol where "LEGACY_PROTOCOL = with_legacy LEGACY_BASELINE True"

record host_agent_entry =
  ae_agents :: "string list option"
  ae_capabilities :: "string list option"
  ae_mullionVersion :: "string option"
  ae_projectsRoots :: "string list option"
  ae_protocol :: "host_protocol option"
  ae_protocolStale :: bool
  ae_checkedAt :: int

record detected_agent =
  da_command :: string
  da_kind :: string
  da_available :: bool

definition availableAgentBins :: "detected_agent list \<Rightarrow> string list" where
  "availableAgentBins detected = map da_command (filter (\<lambda>a. da_kind a = ''agent'' \<and> da_available a) detected)"

definition PROTOCOL_READ_FAILURE_TTL_MS :: int where "PROTOCOL_READ_FAILURE_TTL_MS = 60000"

text \<open>The phases of a refresh: what has been read so far, and the previous readings taken when the phase began.\<close>

datatype read_phase =
    RAgents
  | RCaps "string list option" "string list option"
  | RConfig "string list option" "string list option" "string list option"
  | RProto "string list option" "string list option" "string option" "string list option" "host_protocol option" bool

record agent_read =
  rd_epoch :: int
  rd_phase :: read_phase

text \<open>\<open>refreshing\<close> and \<open>inflight\<close> have the same keys: the hosts of \<open>at_reads\<close>.\<close>

record agent_tracker =
  at_entries :: "(string, host_agent_entry) jsmap"
  at_epochs :: "(string, int) jsmap"
  at_failures :: "(string, int) jsmap"
  at_reads :: "(string, agent_read) jsmap"
  at_ensuring :: "(string, unit) jsmap"

definition new_tracker :: agent_tracker where
  "new_tracker = \<lparr>at_entries = [], at_epochs = [], at_failures = [], at_reads = [], at_ensuring = []\<rparr>"

definition at_epoch :: "string \<Rightarrow> agent_tracker \<Rightarrow> int" where
  "at_epoch hostId t = coalesce (jm_get (at_epochs t) hostId) 0"

definition at_record :: "string \<Rightarrow> host_agent_entry \<Rightarrow> int \<Rightarrow> agent_tracker \<Rightarrow> agent_tracker" where
  "at_record hostId entry now t =
     t\<lparr>at_failures := (if ae_protocol entry \<noteq> None then jm_delete hostId (at_failures t) else at_failures t),
       at_entries := jm_set hostId (entry\<lparr>ae_checkedAt := now\<rparr>) (at_entries t)\<rparr>"

definition recordProtocolReadFailure :: "string \<Rightarrow> int \<Rightarrow> agent_tracker \<Rightarrow> agent_tracker" where
  "recordProtocolReadFailure hostId now t = t\<lparr>at_failures := jm_set hostId now (at_failures t)\<rparr>"

definition clearProtocolReadFailure :: "string \<Rightarrow> agent_tracker \<Rightarrow> agent_tracker" where
  "clearProtocolReadFailure hostId t = t\<lparr>at_failures := jm_delete hostId (at_failures t)\<rparr>"

definition hasRecentProtocolReadFailure :: "string \<Rightarrow> int \<Rightarrow> int \<Rightarrow> agent_tracker \<Rightarrow> bool" where
  "hasRecentProtocolReadFailure hostId ttlMs now t =
     (case jm_get (at_failures t) hostId of None \<Rightarrow> False | Some failedAt \<Rightarrow> now - failedAt < ttlMs)"

definition isStale :: "string \<Rightarrow> int \<Rightarrow> int \<Rightarrow> agent_tracker \<Rightarrow> bool" where
  "isStale hostId ttlMs now t = (case jm_get (at_entries t) hostId of None \<Rightarrow> True | Some e \<Rightarrow> now - ae_checkedAt e \<ge> ttlMs)"

definition at_pruneMissing :: "string set \<Rightarrow> agent_tracker \<Rightarrow> agent_tracker" where
  "at_pruneMissing currentIds t =
     t\<lparr>at_entries := filter (\<lambda>(k, _). k = LOCAL_HOST_ID \<or> k \<in> currentIds) (at_entries t),
       at_failures := filter (\<lambda>(k, _). k = LOCAL_HOST_ID \<or> k \<in> currentIds) (at_failures t)\<rparr>"

definition markProtocolStale :: "string \<Rightarrow> agent_tracker \<Rightarrow> agent_tracker" where
  "markProtocolStale hostId t =
     (let t1 = t\<lparr>at_failures := jm_delete hostId (at_failures t)\<rparr> in
      case jm_get (at_entries t1) hostId of None \<Rightarrow> t1
      | Some e \<Rightarrow> t1\<lparr>at_entries := jm_set hostId (e\<lparr>ae_protocolStale := True, ae_checkedAt := 0\<rparr>) (at_entries t1)\<rparr>)"

definition at_invalidateHost :: "string \<Rightarrow> agent_tracker \<Rightarrow> agent_tracker" where
  "at_invalidateHost hostId t =
     t\<lparr>at_epochs := jm_set hostId (at_epoch hostId t + 1) (at_epochs t),
       at_entries := jm_delete hostId (at_entries t),
       at_failures := jm_delete hostId (at_failures t)\<rparr>"

subsection \<open>Refresh\<close>

text \<open>An answer of the host: a value, the 404 of an agent without the route, or another failure.\<close>

datatype 'v answer = AOk 'v | A404 | AErr

definition refreshRemoteHostAgents :: "string \<Rightarrow> agent_tracker \<Rightarrow> agent_tracker" where
  "refreshRemoteHostAgents hostId t =
     (if jm_has (at_reads t) hostId then t
      else t\<lparr>at_reads := jm_set hostId \<lparr>rd_epoch = at_epoch hostId t, rd_phase = RAgents\<rparr> (at_reads t)\<rparr>)"

definition end_read :: "string \<Rightarrow> agent_tracker \<Rightarrow> agent_tracker" where
  "end_read hostId t = t\<lparr>at_reads := jm_delete hostId (at_reads t)\<rparr>"

definition set_phase :: "string \<Rightarrow> read_phase \<Rightarrow> agent_tracker \<Rightarrow> agent_tracker" where
  "set_phase hostId p t = (case jm_get (at_reads t) hostId of None \<Rightarrow> t
     | Some r \<Rightarrow> t\<lparr>at_reads := jm_set hostId (r\<lparr>rd_phase := p\<rparr>) (at_reads t)\<rparr>)"

definition on_agents :: "string \<Rightarrow> detected_agent list answer \<Rightarrow> agent_tracker \<Rightarrow> agent_tracker" where
  "on_agents hostId a t =
     (let prev = Option.bind (jm_get (at_entries t) hostId) ae_capabilities in
      case a of AErr \<Rightarrow> end_read hostId t
      | A404 \<Rightarrow> set_phase hostId (RCaps None prev) t
      | AOk detected \<Rightarrow> set_phase hostId (RCaps (Some (availableAgentBins detected)) prev) t)"

definition on_caps :: "string \<Rightarrow> string list answer \<Rightarrow> string list option \<Rightarrow> string list option \<Rightarrow> agent_tracker \<Rightarrow> agent_tracker" where
  "on_caps hostId a agents prev t =
     (let caps = (case a of AOk c \<Rightarrow> Some c | A404 \<Rightarrow> None | AErr \<Rightarrow> prev);
          roots = Option.bind (jm_get (at_entries t) hostId) ae_projectsRoots
      in set_phase hostId (RConfig agents caps roots) t)"

text \<open>The answer of \<open>resolveConfig\<close>: the version, and the roots when they are an array.\<close>

definition on_config :: "string \<Rightarrow> (string option \<times> string list option) answer \<Rightarrow> string list option \<Rightarrow> string list option
    \<Rightarrow> string list option \<Rightarrow> agent_tracker \<Rightarrow> agent_tracker" where
  "on_config hostId a agents caps roots0 t =
     (let version = (case a of AOk (v, _) \<Rightarrow> v | _ \<Rightarrow> None);
          roots = (case a of AOk (_, Some r) \<Rightarrow> Some r | _ \<Rightarrow> roots0);
          e = jm_get (at_entries t) hostId
      in set_phase hostId (RProto agents caps version roots (Option.bind e ae_protocol)
           (case e of None \<Rightarrow> False | Some e \<Rightarrow> ae_protocolStale e)) t)"

definition on_protocol :: "string \<Rightarrow> protocol_info answer \<Rightarrow> int \<Rightarrow> string list option \<Rightarrow> string list option \<Rightarrow> string option
    \<Rightarrow> string list option \<Rightarrow> host_protocol option \<Rightarrow> bool \<Rightarrow> int \<Rightarrow> agent_tracker \<Rightarrow> agent_tracker" where
  "on_protocol hostId a epoch agents caps version roots protocol0 stale0 now t =
     (let protocol = (case a of AOk p \<Rightarrow> Some (with_legacy p False) | A404 \<Rightarrow> Some LEGACY_PROTOCOL | AErr \<Rightarrow> protocol0);
          stale = (case a of AErr \<Rightarrow> stale0 | _ \<Rightarrow> False)
      in end_read hostId
          (if at_epoch hostId t \<noteq> epoch then t
           else at_record hostId \<lparr>ae_agents = agents, ae_capabilities = caps, ae_mullionVersion = version,
             ae_projectsRoots = roots, ae_protocol = protocol, ae_protocolStale = stale, ae_checkedAt = now\<rparr> now t))"

datatype host_reply =
    ReplyAgents "detected_agent list answer" | ReplyCaps "string list answer"
  | ReplyConfig "(string option \<times> string list option) answer" | ReplyProto "protocol_info answer" int

definition readRemoteHostAgents :: "string \<Rightarrow> host_reply \<Rightarrow> agent_tracker \<Rightarrow> agent_tracker" where
  "readRemoteHostAgents hostId reply t =
     (case jm_get (at_reads t) hostId of None \<Rightarrow> t
      | Some r \<Rightarrow>
          (case (rd_phase r, reply) of
             (RAgents, ReplyAgents a) \<Rightarrow> on_agents hostId a t
           | (RCaps agents prev, ReplyCaps a) \<Rightarrow> on_caps hostId a agents prev t
           | (RConfig agents caps roots, ReplyConfig a) \<Rightarrow> on_config hostId a agents caps roots t
           | (RProto agents caps version roots p s, ReplyProto a now) \<Rightarrow>
               on_protocol hostId a (rd_epoch r) agents caps version roots p s now t
           | _ \<Rightarrow> t))"

definition refreshHostProtocolSoon :: "string \<Rightarrow> agent_tracker \<Rightarrow> agent_tracker" where
  "refreshHostProtocolSoon hostId t = refreshRemoteHostAgents hostId (markProtocolStale hostId t)"

subsection \<open>Gates\<close>

definition hostProtocol :: "agent_tracker option \<Rightarrow> string \<Rightarrow> host_protocol option" where
  "hostProtocol tr hostId = Option.bind tr (\<lambda>t. Option.bind (jm_get (at_entries t) hostId) ae_protocol)"

definition effectiveProtocol :: "agent_tracker option \<Rightarrow> string \<Rightarrow> host_protocol" where
  "effectiveProtocol tr hostId = coalesce (hostProtocol tr hostId) LEGACY_PROTOCOL"

definition hostSupports :: "agent_tracker option \<Rightarrow> string \<Rightarrow> string \<Rightarrow> bool" where
  "hostSupports tr hostId op =
     (if hostId = LOCAL_HOST_ID then op \<in> set (pi_operations localProtocolInfo) else op \<in> set (pi_operations (effectiveProtocol tr hostId)))"

definition hostLaunchOptions :: "agent_tracker option \<Rightarrow> string \<Rightarrow> string list" where
  "hostLaunchOptions tr hostId =
     (if hostId = LOCAL_HOST_ID then pi_launchOptions localProtocolInfo else pi_launchOptions (effectiveProtocol tr hostId))"

definition UPDATE_HINT :: jsstring where
  "UPDATE_HINT = lit ''update this host'' @ [39] @ lit ''s Mullion from Settings '' @ [8594] @ lit '' Hosts (the host'' @ [39] @ lit ''s Update action)''"

datatype operation_gate = GateOk | Unsupported "string list" jsstring

definition unsupportedOperation :: "string \<Rightarrow> string \<Rightarrow> operation_gate" where
  "unsupportedOperation hostId op = Unsupported [op]
     (lit ''host '' @ lit hostId @ lit '' does not support '' @ lit op @ [32, 8212, 32] @ UPDATE_HINT)"

definition requireOperation :: "agent_tracker option \<Rightarrow> string \<Rightarrow> string \<Rightarrow> operation_gate" where
  "requireOperation tr hostId op =
     (if hostId = LOCAL_HOST_ID \<or> tr = None then GateOk
      else let protocol = effectiveProtocol tr hostId in
        if op \<noteq> ''updates'' \<and> \<not> hp_legacy protocol \<and> \<not> isProtocolCompatible (pi_protocolVersion protocol)
        then Unsupported [op] (lit ''host '' @ lit hostId @ lit '' speaks an incompatible agent protocol (v''
               @ show_int (pi_protocolVersion protocol) @ lit '')'' @ [32, 8212, 32] @ UPDATE_HINT)
        else if op \<in> set (pi_operations protocol) then GateOk else unsupportedOperation hostId op)"

definition requireLaunchOptions :: "agent_tracker option \<Rightarrow> string \<Rightarrow> string list \<Rightarrow> operation_gate" where
  "requireLaunchOptions tr hostId required =
     (if required = [] \<or> hostId = LOCAL_HOST_ID \<or> tr = None then GateOk
      else let protocol = effectiveProtocol tr hostId;
               missing = filter (\<lambda>opt. opt \<notin> set (pi_launchOptions protocol)) required
        in if missing = [] then GateOk
           else Unsupported missing (lit ''host '' @ lit hostId @ lit '' does not support the launch option''
             @ (if length missing > 1 then lit ''s'' else []) @ [32] @ js_join (lit '', '') (map lit missing) @ [32, 8212, 32] @ UPDATE_HINT))"

text \<open>\<open>ensureHostProtocol\<close> up to its await. \<open>Some p\<close>: it resolves at once. Otherwise the read already
  shared by other gates is awaited, or one is started (unless a refresh of the host is in flight).\<close>

definition ensure_begin :: "string \<Rightarrow> agent_tracker option \<Rightarrow> host_protocol option \<times> agent_tracker option" where
  "ensure_begin hostId tr =
     (if hostId = LOCAL_HOST_ID then (Some (with_legacy localProtocolInfo False), tr)
      else case hostProtocol tr hostId of
        Some known \<Rightarrow> (Some known, tr)
      | None \<Rightarrow> (case tr of
            None \<Rightarrow> (Some LEGACY_PROTOCOL, tr)
          | Some t \<Rightarrow> if jm_has (at_ensuring t) hostId then (None, tr)
              else (None, Some ((refreshRemoteHostAgents hostId t)\<lparr>at_ensuring := jm_set hostId () (at_ensuring t)\<rparr>))))"

text \<open>After the race of the read with the timeout, whichever ended it.\<close>

definition ensure_end :: "string \<Rightarrow> int \<Rightarrow> agent_tracker \<Rightarrow> host_protocol \<times> agent_tracker" where
  "ensure_end hostId now t =
     (let result = hostProtocol (Some t) hostId;
          t1 = (if result = None then recordProtocolReadFailure hostId now t else t)
      in (coalesce result LEGACY_PROTOCOL, t1\<lparr>at_ensuring := jm_delete hostId (at_ensuring t1)\<rparr>))"

record host_row =
  hr_id :: string
  hr_drained :: bool
  hr_platform :: "string option"

text \<open>\<open>couldSatisfyTarget\<close>: the target's host and platform; \<open>lower\<close> is \<open>toLowerCase\<close> and \<open>reported\<close> the platform of the
  capacity reading.\<close>

definition couldSatisfyTarget :: "(string \<Rightarrow> string) \<Rightarrow> (string \<Rightarrow> string option) \<Rightarrow> host_row
    \<Rightarrow> (string option \<times> string option) option \<Rightarrow> bool" where
  "couldSatisfyTarget lower reported h target =
     (case target of None \<Rightarrow> False
      | Some (thost, tplat) \<Rightarrow>
          if thost \<noteq> None \<and> Some (hr_id h) \<noteq> thost then False
          else (case tplat of None \<Rightarrow> thost \<noteq> None
            | Some want \<Rightarrow>
                let platform = (case hr_platform h of Some p \<Rightarrow> Some p | None \<Rightarrow> reported (hr_id h)) in
                (platform = None \<or> platform = Some [] \<or> map_option lower platform = Some (lower want))))"

definition protocols_to_read :: "(string \<Rightarrow> string) \<Rightarrow> (string \<Rightarrow> string option) \<Rightarrow> (string \<Rightarrow> bool) \<Rightarrow> int \<Rightarrow> host_row list
    \<Rightarrow> (string option \<times> string option) option \<Rightarrow> agent_tracker \<Rightarrow> string list" where
  "protocols_to_read lower reported offline now rows target t =
     map hr_id (filter (\<lambda>h. hr_id h \<noteq> LOCAL_HOST_ID \<and> \<not> hr_drained h \<and> \<not> offline (hr_id h)
       \<and> \<not> (\<not> couldSatisfyTarget lower reported h target
            \<and> hasRecentProtocolReadFailure (hr_id h) PROTOCOL_READ_FAILURE_TTL_MS now t)) rows)"

definition protocolStatus :: "host_protocol option \<Rightarrow> (int option \<times> bool \<times> string list \<times> string list \<times> bool) option" where
  "protocolStatus protocol = map_option (\<lambda>p.
     (if hp_legacy p then None else Some (pi_protocolVersion p),
      \<not> hp_legacy p \<and> \<not> isProtocolCompatible (pi_protocolVersion p),
      filter (\<lambda>op. op \<notin> set (pi_operations p)) (pi_operations localProtocolInfo),
      filter (\<lambda>opt. opt \<notin> set (pi_launchOptions p)) (pi_launchOptions localProtocolInfo),
      hp_legacy p)) protocol"

subsection \<open>The tracker as a machine\<close>

datatype tracker_input =
    BeginRead string | Reply string host_reply | ClientThrew string | MarkStale string | InvalidateAgents string
  | PruneAgents "string set" | ProtocolFailure string int | OnlineAgain string | EnsureBegin string | EnsureEnd string int

fun tracker_step :: "agent_tracker \<Rightarrow> tracker_input \<Rightarrow> agent_tracker" where
  "tracker_step t (BeginRead h) = refreshRemoteHostAgents h t"
| "tracker_step t (Reply h r) = readRemoteHostAgents h r t"
| "tracker_step t (ClientThrew h) = end_read h t"
| "tracker_step t (MarkStale h) = refreshHostProtocolSoon h t"
| "tracker_step t (InvalidateAgents h) = at_invalidateHost h t"
| "tracker_step t (PruneAgents ids) = at_pruneMissing ids t"
| "tracker_step t (ProtocolFailure h now) = recordProtocolReadFailure h now t"
| "tracker_step t (OnlineAgain h) = clearProtocolReadFailure h t"
| "tracker_step t (EnsureBegin h) = the (snd (ensure_begin h (Some t)))"
| "tracker_step t (EnsureEnd h now) = snd (ensure_end h now t)"

text \<open>Inputs that may begin a read of the host.\<close>

fun begins_read :: "string \<Rightarrow> tracker_input \<Rightarrow> bool" where
  "begins_read h (BeginRead h') = (h' = h)"
| "begins_read h (MarkStale h') = (h' = h)"
| "begins_read h (EnsureBegin h') = (h' = h)"
| "begins_read h _ = False"

text \<open>The epoch a read took is never ahead of the host's.\<close>

definition agents_inv :: "agent_tracker \<Rightarrow> bool" where
  "agents_inv t \<longleftrightarrow> jm_wf (at_entries t) \<and> jm_wf (at_failures t) \<and> (\<forall>h r. jm_get (at_reads t) h = Some r \<longrightarrow> rd_epoch r \<le> at_epoch h t)"

definition abandoned :: "string \<Rightarrow> agent_tracker \<Rightarrow> bool" where
  "abandoned h t \<longleftrightarrow> jm_get (at_entries t) h = None
     \<and> (case jm_get (at_reads t) h of None \<Rightarrow> True | Some r \<Rightarrow> rd_epoch r < at_epoch h t)"

lemmas tracker_ops = refreshRemoteHostAgents_def end_read_def set_phase_def on_agents_def on_caps_def on_config_def
  on_protocol_def at_record_def readRemoteHostAgents_def at_invalidateHost_def at_pruneMissing_def
  recordProtocolReadFailure_def clearProtocolReadFailure_def ensure_begin_def ensure_end_def Let_def

text \<open>Every operation but the record of a finished read leaves the entries of other hosts and the epochs alone.\<close>

lemma set_phase_simps [simp]: "at_entries (set_phase h p t) = at_entries t" "at_epochs (set_phase h p t) = at_epochs t"
  "at_failures (set_phase h p t) = at_failures t"
  "jm_get (at_reads (set_phase h p t)) h' = (if h' = h then map_option (rd_phase_update (\<lambda>_. p)) (jm_get (at_reads t) h) else jm_get (at_reads t) h')"
  by (auto simp: set_phase_def jm.get_put split: option.splits)

lemma end_read_simps [simp]: "at_entries (end_read h t) = at_entries t" "at_epochs (end_read h t) = at_epochs t"
  "at_failures (end_read h t) = at_failures t"
  "jm_get (at_reads (end_read h t)) h' = (if h' = h then None else jm_get (at_reads t) h')"
  by (simp_all add: end_read_def jm.get_delete)

lemma at_record_simps [simp]: "at_epochs (at_record h e now t) = at_epochs t" "at_reads (at_record h e now t) = at_reads t"
  "at_entries (at_record h e now t) = jm_set h (e\<lparr>ae_checkedAt := now\<rparr>) (at_entries t)"
  by (simp_all add: at_record_def)

text \<open>What a reply may do: advance or end the read, and record only at the epoch the read began in.\<close>

definition reply_effect :: "string \<Rightarrow> agent_tracker \<Rightarrow> agent_tracker \<Rightarrow> bool" where
  "reply_effect h t t' \<longleftrightarrow> at_epochs t' = at_epochs t
     \<and> (\<forall>h' r'. jm_get (at_reads t') h' = Some r' \<longrightarrow> (\<exists>r. jm_get (at_reads t) h' = Some r \<and> rd_epoch r' = rd_epoch r))
     \<and> (at_entries t' = at_entries t
        \<or> (\<exists>e r. at_entries t' = jm_set h e (at_entries t) \<and> jm_get (at_reads t) h = Some r \<and> rd_epoch r = at_epoch h t))
     \<and> (at_failures t' = at_failures t \<or> at_failures t' = jm_delete h (at_failures t))"

lemma effect_set_phase: "reply_effect h t (set_phase h p t)"
  by (auto simp: reply_effect_def)

lemma effect_end_read: "reply_effect h t (end_read h t)"
  by (auto simp: reply_effect_def split: if_splits)

lemma effect_protocol:
  assumes "jm_get (at_reads t) h = Some r"
  shows "reply_effect h t (on_protocol h a (rd_epoch r) ag ca ve ro p s now t)"
proof (cases "at_epoch h t = rd_epoch r")
  case True
  then show ?thesis using assms by (auto simp: reply_effect_def on_protocol_def Let_def at_record_def split: if_splits)
next
  case False
  then show ?thesis using effect_end_read by (simp add: on_protocol_def Let_def)
qed

lemma reply_has_effect: "reply_effect h t (readRemoteHostAgents h reply t)"
proof (cases "jm_get (at_reads t) h")
  case None
  then show ?thesis by (auto simp: readRemoteHostAgents_def reply_effect_def)
next
  case (Some r)
  have "reply_effect h t t" by (auto simp: reply_effect_def)
  then show ?thesis using Some effect_protocol [OF Some]
    by (auto simp: readRemoteHostAgents_def on_agents_def on_caps_def on_config_def Let_def effect_set_phase effect_end_read
        split: read_phase.splits host_reply.splits answer.splits)
qed

lemma refresh_simps [simp]: "at_entries (refreshRemoteHostAgents h t) = at_entries t" "at_epochs (refreshRemoteHostAgents h t) = at_epochs t"
  "at_failures (refreshRemoteHostAgents h t) = at_failures t"
  by (simp_all add: refreshRemoteHostAgents_def)

lemma reads_refresh: "jm_get (at_reads (refreshRemoteHostAgents h t)) h' = Some r \<Longrightarrow>
    jm_get (at_reads t) h' = Some r \<or> h' = h \<and> rd_epoch r = at_epoch h t"
  by (auto simp: refreshRemoteHostAgents_def jm.get_put split: if_splits)

lemma reads_refresh_other: "h' \<noteq> h \<Longrightarrow> jm_get (at_reads (refreshRemoteHostAgents h t)) h' = jm_get (at_reads t) h'"
  by (simp add: refreshRemoteHostAgents_def jm.get_put)

lemma stale_simps [simp]: "at_epochs (markProtocolStale h t) = at_epochs t" "at_reads (markProtocolStale h t) = at_reads t"
  "jm_get (at_entries (markProtocolStale h t)) h' = None \<longleftrightarrow> jm_get (at_entries t) h' = None"
  by (auto simp: markProtocolStale_def Let_def jm.get_put split: option.splits)

lemma stale_wf: "jm_wf (at_entries t) \<Longrightarrow> jm_wf (at_entries (markProtocolStale h t))"
  "jm_wf (at_failures t) \<Longrightarrow> jm_wf (at_failures (markProtocolStale h t))"
  by (simp_all add: markProtocolStale_def Let_def jm.wf_put jm.wf_delete split: option.splits)

lemma ensure_begin_cases: "the (snd (ensure_begin h (Some t))) = t
    \<or> the (snd (ensure_begin h (Some t))) = (refreshRemoteHostAgents h t)\<lparr>at_ensuring := jm_set h () (at_ensuring t)\<rparr>"
  by (auto simp: ensure_begin_def split: option.splits)

lemma ensure_end_simps [simp]: "at_entries (snd (ensure_end h now t)) = at_entries t" "at_epochs (snd (ensure_end h now t)) = at_epochs t"
  "at_reads (snd (ensure_end h now t)) = at_reads t"
  "jm_wf (at_failures t) \<Longrightarrow> jm_wf (at_failures (snd (ensure_end h now t)))"
  by (simp_all add: ensure_end_def Let_def recordProtocolReadFailure_def jm.wf_put)

lemma epoch_invalidate: "at_epoch h' (at_invalidateHost h t) = at_epoch h' t + (if h' = h then 1 else 0)"
  by (simp add: at_invalidateHost_def at_epoch_def jm.get_put coalesce_def)

lemma inv_refresh: "agents_inv t \<Longrightarrow> agents_inv (refreshRemoteHostAgents h t)"
  unfolding agents_inv_def using reads_refresh [of h t] by (fastforce simp: at_epoch_def)

lemma inv_effect:
  assumes "agents_inv t" and "reply_effect h t t'"
  shows "agents_inv t'"
proof -
  have "jm_wf (at_entries t')" "jm_wf (at_failures t')"
    using assms by (auto simp: agents_inv_def reply_effect_def jm.wf_put jm.wf_delete)
  moreover have "rd_epoch r' \<le> at_epoch h' t'" if r': "jm_get (at_reads t') h' = Some r'" for h' r'
  proof -
    obtain r where "jm_get (at_reads t) h' = Some r" "rd_epoch r' = rd_epoch r" using assms(2) r' unfolding reply_effect_def by blast
    then show ?thesis using assms by (simp add: agents_inv_def reply_effect_def at_epoch_def)
  qed
  ultimately show ?thesis by (simp add: agents_inv_def)
qed

lemma agents_inv_step: "agents_inv t \<Longrightarrow> agents_inv (tracker_step t i)"
proof (cases i)
  case (MarkStale h)
  assume "agents_inv t"
  then have "agents_inv (markProtocolStale h t)" by (simp add: agents_inv_def stale_wf at_epoch_def)
  then show ?thesis by (simp add: MarkStale refreshHostProtocolSoon_def inv_refresh)
next
  case (InvalidateAgents h)
  assume inv: "agents_inv t"
  have same: "at_reads (at_invalidateHost h t) = at_reads t" by (simp add: at_invalidateHost_def)
  have "rd_epoch r \<le> at_epoch h' (at_invalidateHost h t)" if "jm_get (at_reads t) h' = Some r" for h' r
    using that inv by (auto simp: agents_inv_def epoch_invalidate add_increasing2)
  moreover have "jm_wf (at_entries (at_invalidateHost h t))" "jm_wf (at_failures (at_invalidateHost h t))"
    using inv by (simp_all add: agents_inv_def at_invalidateHost_def jm.wf_delete)
  ultimately show ?thesis by (simp add: InvalidateAgents agents_inv_def same)
next
  case (EnsureBegin h)
  assume "agents_inv t"
  then show ?thesis using ensure_begin_cases [of h t] inv_refresh [of t h] by (auto simp: EnsureBegin agents_inv_def at_epoch_def)
next
  case (BeginRead h)
  assume "agents_inv t"
  then show ?thesis by (simp add: BeginRead inv_refresh)
next
  case (Reply h r)
  assume "agents_inv t"
  then have "agents_inv (readRemoteHostAgents h r t)" using reply_has_effect by (rule inv_effect)
  then show ?thesis by (simp add: Reply)
qed (auto simp: agents_inv_def at_epoch_def
    at_pruneMissing_def jm_wf_filter recordProtocolReadFailure_def clearProtocolReadFailure_def jm.wf_put jm.wf_delete)

interpretation agent_machine: step_machine tracker_step "\<lambda>_. True" agents_inv
  by unfold_locales (rule agents_inv_step)


subsection \<open>A read of the old agent is not recorded\<close>

lemma abandoned_invalidate: "agents_inv t \<Longrightarrow> abandoned h (at_invalidateHost h t)"
  by (auto simp: abandoned_def agents_inv_def epoch_invalidate split: option.splits)
    (auto simp: at_invalidateHost_def jm.get_delete)

lemma abandoned_effect:
  assumes "reply_effect h' t t'" and "abandoned h t"
  shows "abandoned h t'"
proof -
  have epoch: "at_epoch h t' = at_epoch h t" using assms(1) by (simp add: reply_effect_def at_epoch_def)
  have "jm_get (at_entries t') h = None"
    using assms by (auto simp: reply_effect_def abandoned_def jm.get_put split: option.splits)
  moreover have "rd_epoch r' < at_epoch h t'" if r': "jm_get (at_reads t') h = Some r'" for r'
  proof -
    obtain r where "jm_get (at_reads t) h = Some r" "rd_epoch r' = rd_epoch r" using assms(1) r' unfolding reply_effect_def by blast
    then show ?thesis using assms(2) epoch by (simp add: abandoned_def)
  qed
  ultimately show ?thesis by (simp add: abandoned_def split: option.splits)
qed

lemma abandoned_step:
  assumes "abandoned h t" and "\<not> begins_read h i" and wf: "agents_inv t"
  shows "abandoned h (tracker_step t i)"
proof (cases i)
  case (EnsureBegin h')
  then have "h' \<noteq> h" using assms(2) by simp
  then show ?thesis using ensure_begin_cases [of h' t] assms(1) reads_refresh_other [of h h' t]
    by (auto simp: EnsureBegin abandoned_def at_epoch_def split: option.splits)
next
  case (InvalidateAgents h')
  have "at_reads (at_invalidateHost h' t) = at_reads t" "jm_get (at_entries (at_invalidateHost h' t)) h = None"
    using assms(1) by (simp_all add: at_invalidateHost_def abandoned_def jm.get_delete)
  then show ?thesis using assms(1)
    by (auto simp: InvalidateAgents abandoned_def epoch_invalidate split: option.splits)
next
  case (PruneAgents ids)
  then show ?thesis using assms(1) wf
    by (auto simp: abandoned_def at_pruneMissing_def agents_inv_def jm_get_filter at_epoch_def split: option.splits)
qed (use assms abandoned_effect [OF reply_has_effect] abandoned_effect [OF effect_end_read] in
    \<open>auto simp: abandoned_def at_epoch_def refreshHostProtocolSoon_def reads_refresh_other
      recordProtocolReadFailure_def clearProtocolReadFailure_def split: option.splits\<close>)

text \<open>
  A list read from the old agent is never recorded. Start from any reachable state of the
  tracker, with a refresh of the host possibly under way. Once the host is invalidated (its address or
  token changed), then as long as no new refresh of that host is begun, whatever answers still
  arrive, whatever times out and whatever happens to other hosts, the tracker holds no entry for
  it: the answers of the old agent are dropped.
\<close>

theorem invalidated_read_not_recorded:
  assumes "list_all (\<lambda>i. \<not> begins_read h i) later"
  shows "jm_get (at_entries (foldl tracker_step (at_invalidateHost h (foldl tracker_step new_tracker earlier)) later)) h = None"
proof -
  let ?t = "foldl tracker_step new_tracker earlier"
  have "agents_inv new_tracker" by (simp add: agents_inv_def new_tracker_def)
  then have inv: "agents_inv ?t" by (rule agent_machine.inv_run) (simp add: list_all_iff)
  then have "agents_inv (tracker_step ?t (InvalidateAgents h))" by (rule agents_inv_step)
  then have "abandoned h (at_invalidateHost h ?t) \<and> agents_inv (at_invalidateHost h ?t)"
    using abandoned_invalidate [OF inv] by simp
  with assms have "abandoned h (foldl tracker_step (at_invalidateHost h ?t) later)"
    by (induction later arbitrary: rule: rev_induct) (auto intro!: abandoned_step agent_machine.inv_run [of _ "xs" for xs] simp: list_all_iff)
  then show ?thesis by (simp add: abandoned_def)
qed

text \<open>A refresh is under way when the host's token is changed; its last answer arrives afterwards.\<close>

definition read_in_flight :: "tracker_input list" where
  "read_in_flight = [BeginRead ''mac'', Reply ''mac'' (ReplyAgents A404), Reply ''mac'' (ReplyCaps A404), Reply ''mac'' (ReplyConfig AErr)]"

theorem invalidated_read_not_recorded_witness:
  "jm_get (at_entries (foldl tracker_step (at_invalidateHost ''mac'' (foldl tracker_step new_tracker read_in_flight))
     [Reply ''mac'' (ReplyProto (AOk localProtocolInfo) 5)])) ''mac'' = None"
  by (rule invalidated_read_not_recorded) simp

text \<open>Without the invalidation the same answer is recorded.\<close>

lemma read_recorded: "map_option ae_protocol (jm_get (at_entries (foldl tracker_step (foldl tracker_step new_tracker read_in_flight)
    [Reply ''mac'' (ReplyProto (AOk localProtocolInfo) 5)])) ''mac'') = Some (Some (with_legacy localProtocolInfo False))"
  by (simp add: read_in_flight_def new_tracker_def tracker_ops jm_get_def jm_set_def jm_delete_def jm_has_def at_epoch_def coalesce_def)

text \<open>Marking a host's protocol stale does not have this protection: it keeps the epoch, and the refresh
  that is under way keeps another from starting. The answer of the previous build is then recorded
  as fresh, and the mark is lost.\<close>

lemma stale_mark_lost_to_a_running_read:
  "map_option (\<lambda>e. (ae_protocolStale e, ae_checkedAt e)) (jm_get (at_entries (foldl tracker_step new_tracker
     (read_in_flight @ [MarkStale ''mac'', Reply ''mac'' (ReplyProto (AOk localProtocolInfo) 5)]))) ''mac'') = Some (False, 5)
   \<and> at_reads (foldl tracker_step new_tracker (read_in_flight @ [MarkStale ''mac'', Reply ''mac'' (ReplyProto (AOk localProtocolInfo) 5)])) = []"
  by (simp add: read_in_flight_def new_tracker_def tracker_ops refreshHostProtocolSoon_def markProtocolStale_def
      jm_get_def jm_set_def jm_delete_def jm_has_def at_epoch_def coalesce_def)

text \<open>A host whose protocol has not been read passes a gate only for what every agent had from the start.\<close>

lemma unread_host_gate:
  assumes "hostId \<noteq> LOCAL_HOST_ID" and "hostProtocol (Some t) hostId = None"
  shows "requireOperation (Some t) hostId op = GateOk \<longleftrightarrow> op \<in> set AGENT_OPERATIONS \<and> op \<notin> LATE_OPERATIONS"
  using assms by (simp add: requireOperation_def effectiveProtocol_def coalesce_def Let_def LEGACY_PROTOCOL_def with_legacy_def
      LEGACY_BASELINE_def unsupportedOperation_def)

end
