(* ===== verification/Hosts.thy ===== *)
theory Hosts
  imports HostAgents Complex_Main
begin

section \<open>Remote hosts: health, capacity and the sweep\<close>

text \<open>
  \<open>src/services/host-heartbeat.ts\<close> and \<open>src/services/host-capacity.ts\<close>. The trackers are maps by host id; the
  agent cache is the one of \<open>HostAgents\<close>. A sweep pings all hosts at once and
  awaits their answers, so the poller is a machine whose steps are the synchronous stretches: the start
  of a sweep, one host's probe answer, one host's capacity answer. Each reading of the clock is an argument.
\<close>

subsection \<open>Health tracker\<close>

datatype health_status = HPending | HOnline | HDegraded | HOffline

record heartbeat_entry =
  he_status :: health_status
  he_missed :: nat
  he_lastSeenAt :: "int option"
  he_lastCheckedAt :: int
  he_busy :: "nat option"

record host_health =
  hh_status :: health_status
  hh_lastSeenAt :: "int option"
  hh_lastCheckedAt :: "int option"
  hh_reason :: "string option"

definition OFFLINE_AFTER_MISSED :: nat where "OFFLINE_AFTER_MISSED = 3"
definition DEGRADED_AFTER_BUSY :: nat where "DEGRADED_AFTER_BUSY = 3"
definition CHANNEL_SATURATED_REASON :: string where "CHANNEL_SATURATED_REASON = ''channel saturated''"

type_synonym heartbeats = "(string, heartbeat_entry) jsmap"

definition getHealth :: "string \<Rightarrow> heartbeats \<Rightarrow> host_health" where
  "getHealth hostId st =
     (if hostId = LOCAL_HOST_ID then \<lparr>hh_status = HOnline, hh_lastSeenAt = None, hh_lastCheckedAt = None, hh_reason = None\<rparr>
      else case jm_get st hostId of
        None \<Rightarrow> \<lparr>hh_status = HPending, hh_lastSeenAt = None, hh_lastCheckedAt = None, hh_reason = None\<rparr>
      | Some e \<Rightarrow> \<lparr>hh_status = he_status e, hh_lastSeenAt = he_lastSeenAt e, hh_lastCheckedAt = Some (he_lastCheckedAt e),
          hh_reason = (if coalesce (he_busy e) 0 \<ge> DEGRADED_AFTER_BUSY then Some CHANNEL_SATURATED_REASON else None)\<rparr>)"

definition prev_missed :: "string \<Rightarrow> heartbeats \<Rightarrow> nat" where
  "prev_missed hostId st = (case jm_get st hostId of None \<Rightarrow> 0 | Some e \<Rightarrow> he_missed e)"

definition prev_seen :: "string \<Rightarrow> heartbeats \<Rightarrow> int option" where
  "prev_seen hostId st = (case jm_get st hostId of None \<Rightarrow> None | Some e \<Rightarrow> he_lastSeenAt e)"

definition recordSuccess :: "int \<Rightarrow> int \<Rightarrow> string \<Rightarrow> heartbeats \<Rightarrow> bool \<times> heartbeats" where
  "recordSuccess seen checked hostId st =
     (prev_missed hostId st \<ge> 2,
      jm_set hostId \<lparr>he_status = HOnline, he_missed = 0, he_lastSeenAt = Some seen, he_lastCheckedAt = checked, he_busy = None\<rparr> st)"

definition recordBusy :: "int \<Rightarrow> string \<Rightarrow> heartbeats \<Rightarrow> bool \<times> heartbeats" where
  "recordBusy now hostId st =
     (let prev = jm_get st hostId;
          busy = (case prev of None \<Rightarrow> 0 | Some e \<Rightarrow> coalesce (he_busy e) 0) + 1;
          saturated = (busy \<ge> DEGRADED_AFTER_BUSY);
          prev_status = map_option he_status prev
      in (saturated, jm_set hostId
           \<lparr>he_status = (if saturated \<and> prev_status \<noteq> Some HOffline then HDegraded else coalesce prev_status HPending),
            he_missed = prev_missed hostId st, he_lastSeenAt = prev_seen hostId st, he_lastCheckedAt = now, he_busy = Some busy\<rparr> st))"

definition hb_recordFailure :: "int \<Rightarrow> string \<Rightarrow> heartbeats \<Rightarrow> heartbeats" where
  "hb_recordFailure now hostId st =
     (let missed = prev_missed hostId st + 1
      in jm_set hostId \<lparr>he_status = (if missed \<ge> OFFLINE_AFTER_MISSED then HOffline else HDegraded), he_missed = missed,
           he_lastSeenAt = prev_seen hostId st, he_lastCheckedAt = now, he_busy = None\<rparr> st)"

definition markOffline :: "int \<Rightarrow> string \<Rightarrow> heartbeats \<Rightarrow> heartbeats" where
  "markOffline now hostId st =
     jm_set hostId \<lparr>he_status = HOffline, he_missed = OFFLINE_AFTER_MISSED, he_lastSeenAt = prev_seen hostId st,
       he_lastCheckedAt = now, he_busy = None\<rparr> st"

definition pruneMissing :: "string set \<Rightarrow> (string, 'v) jsmap \<Rightarrow> (string, 'v) jsmap" where
  "pruneMissing currentIds st = filter (\<lambda>(k, _). k \<in> currentIds) st"

definition hb_invalidateHost :: "string \<Rightarrow> heartbeats \<Rightarrow> heartbeats" where
  "hb_invalidateHost hostId st = jm_delete hostId st"

subsection \<open>Capacity tracker\<close>

record host_capacity =
  hc_platform :: string
  hc_logicalCores :: int
  hc_loadAverage1m :: rat
  hc_totalBytes :: int
  hc_freeBytes :: int
  hc_tracked :: nat
  hc_alive :: nat

text \<open>\<open>measureHostCapacity\<close>: the readings of \<open>os\<close> and the list of sessions (their \<open>alive\<close> flags) are arguments.\<close>

definition measureHostCapacity :: "bool list option \<Rightarrow> string \<Rightarrow> int \<Rightarrow> rat list \<Rightarrow> int \<Rightarrow> int \<Rightarrow> host_capacity" where
  "measureHostCapacity pty platform parallelism loadavg totalmem freemem =
     (let sessions = coalesce pty [] in
      \<lparr>hc_platform = platform, hc_logicalCores = parallelism,
       hc_loadAverage1m = (case loadavg of [] \<Rightarrow> 0 | l # _ \<Rightarrow> l),
       hc_totalBytes = totalmem, hc_freeBytes = freemem,
       hc_tracked = length sessions, hc_alive = length (filter (\<lambda>a. a) sessions)\<rparr>)"

type_synonym capacities = "(string, host_capacity \<times> int) jsmap"

definition capacity_record :: "string \<Rightarrow> host_capacity \<Rightarrow> int \<Rightarrow> capacities \<Rightarrow> capacities" where
  "capacity_record hostId capacity sampledAt st = jm_set hostId (capacity, sampledAt) st"

definition capacity_invalidateHost :: "string \<Rightarrow> capacities \<Rightarrow> capacities" where
  "capacity_invalidateHost hostId st = jm_delete hostId st"

subsection \<open>Sweep\<close>

datatype probe_answer = ProbeOk | ProbeBusy | ProbeDown | ProbeThrew

text \<open>The capacity poll: no route (\<open>null\<close>), a failure, or a report with its \<open>sampledAt\<close> parsed (\<open>None\<close>: not finite).\<close>

datatype capacity_answer = NoCapacityRoute | CapacityThrew | CapacityReport host_capacity "int option"

record sweep_host_row =
  sw_id :: string
  sw_baseUrl :: "string option"
  sw_channelUp :: bool
  sw_hasMachineIdentity :: bool

text \<open>A host's turn in a sweep: waiting for its probe (with \<open>wasPending\<close>), or for its capacity.\<close>

datatype turn = Probing bool | Polling bool bool

record heartbeat =
  hb_tracker :: heartbeats
  hb_capacity :: capacities
  hb_agents :: agent_tracker
  hb_turns :: "(string, turn) jsmap"
  hb_recovered :: "string list"
  hb_cameOnline :: "string list"
  hb_inFlight :: bool
  hb_timer :: "int option"

datatype hb_out = RefreshAgents string | HostOnline string | HostRecovered string

definition new_heartbeat :: heartbeat where
  "new_heartbeat = \<lparr>hb_tracker = [], hb_capacity = [], hb_agents = new_tracker, hb_turns = [], hb_recovered = [],
     hb_cameOnline = [], hb_inFlight = False, hb_timer = None\<rparr>"

text \<open>When the last turn ends: the callbacks, those for hosts that came online first.\<close>

definition finish_sweep :: "heartbeat \<Rightarrow> heartbeat \<times> hb_out list" where
  "finish_sweep s =
     (if hb_inFlight s \<and> hb_turns s = []
      then (s\<lparr>hb_inFlight := False, hb_recovered := [], hb_cameOnline := []\<rparr>,
            map HostOnline (hb_cameOnline s) @ map HostRecovered (hb_recovered s))
      else (s, []))"

definition end_turn :: "string \<Rightarrow> bool \<Rightarrow> bool \<Rightarrow> heartbeat \<Rightarrow> heartbeat \<times> hb_out list" where
  "end_turn hostId recovered cameOnline s =
     finish_sweep (s\<lparr>hb_turns := jm_delete hostId (hb_turns s),
       hb_recovered := hb_recovered s @ (if recovered then [hostId] else []),
       hb_cameOnline := hb_cameOnline s @ (if cameOnline then [hostId] else [])\<rparr>)"

definition swept :: "heartbeats \<Rightarrow> sweep_host_row list \<Rightarrow> sweep_host_row list" where
  "swept tracker rows = filter (\<lambda>h. sw_baseUrl h \<noteq> None \<or> sw_channelUp h
     \<or> sw_hasMachineIdentity h \<and> hh_status (getHealth (sw_id h) tracker) \<noteq> HPending) rows"

definition sweep :: "sweep_host_row list \<Rightarrow> heartbeat \<Rightarrow> heartbeat \<times> hb_out list" where
  "sweep rows s =
     (let allHosts = filter (\<lambda>h. sw_id h \<noteq> LOCAL_HOST_ID) rows;
          ids = set (map sw_id allHosts);
          s1 = s\<lparr>hb_tracker := pruneMissing ids (hb_tracker s), hb_capacity := pruneMissing ids (hb_capacity s),
                 hb_agents := at_pruneMissing ids (hb_agents s)\<rparr>
      in finish_sweep (s1\<lparr>hb_turns := map (\<lambda>h. (sw_id h, Probing (hh_status (getHealth (sw_id h) (hb_tracker s1)) = HPending)))
           (swept (hb_tracker s1) allHosts)\<rparr>))"

definition runSweep :: "sweep_host_row list \<Rightarrow> heartbeat \<Rightarrow> heartbeat \<times> hb_out list" where
  "runSweep rows s = (if hb_inFlight s then (s, []) else sweep rows (s\<lparr>hb_inFlight := True\<rparr>))"

text \<open>\<open>sweepHost\<close> after the probe: the verdict, and for a host that answered the staleness of its agent list.\<close>

definition on_probe :: "string \<Rightarrow> probe_answer \<Rightarrow> int \<Rightarrow> int \<Rightarrow> int \<Rightarrow> int \<Rightarrow> heartbeat \<Rightarrow> heartbeat \<times> hb_out list" where
  "on_probe hostId a seen checked ttlMs now s =
     (case jm_get (hb_turns s) hostId of
        Some (Probing wasPending) \<Rightarrow>
          (case a of
             ProbeBusy \<Rightarrow> end_turn hostId False False (s\<lparr>hb_tracker := snd (recordBusy checked hostId (hb_tracker s))\<rparr>)
           | ProbeOk \<Rightarrow>
               (case recordSuccess seen checked hostId (hb_tracker s) of (recovered, tracker) \<Rightarrow>
                  let cameOnline = (wasPending \<or> recovered);
                      agents = clearProtocolReadFailure hostId (hb_agents s);
                      refresh = (\<not> cameOnline \<and> isStale hostId ttlMs now agents)
                  in (s\<lparr>hb_tracker := tracker, hb_agents := (if refresh then refreshRemoteHostAgents hostId agents else agents),
                        hb_turns := jm_set hostId (Polling recovered cameOnline) (hb_turns s)\<rparr>,
                      if refresh then [RefreshAgents hostId] else []))
           | _ \<Rightarrow> end_turn hostId False False (s\<lparr>hb_tracker := hb_recordFailure checked hostId (hb_tracker s)\<rparr>))
      | _ \<Rightarrow> (s, []))"

definition on_capacity :: "string \<Rightarrow> capacity_answer \<Rightarrow> int \<Rightarrow> heartbeat \<Rightarrow> heartbeat \<times> hb_out list" where
  "on_capacity hostId a now s =
     (case jm_get (hb_turns s) hostId of
        Some (Polling recovered cameOnline) \<Rightarrow>
          end_turn hostId recovered cameOnline (case a of
              CapacityReport report sampledAt \<Rightarrow> s\<lparr>hb_capacity := capacity_record hostId report (coalesce sampledAt now) (hb_capacity s)\<rparr>
            | _ \<Rightarrow> s)
      | _ \<Rightarrow> (s, []))"

definition arm :: "int \<Rightarrow> sweep_host_row list \<Rightarrow> heartbeat \<Rightarrow> heartbeat \<times> hb_out list" where
  "arm intervalSeconds rows s =
     (let s1 = s\<lparr>hb_timer := None\<rparr> in
      if intervalSeconds \<le> 0
      then (s1\<lparr>hb_tracker := pruneMissing {} (hb_tracker s1), hb_capacity := pruneMissing {} (hb_capacity s1)\<rparr>, [])
      else case runSweep rows s1 of (s2, out) \<Rightarrow> (s2\<lparr>hb_timer := Some (intervalSeconds * 1000)\<rparr>, out))"

datatype hb_input =
    SweepTick "sweep_host_row list" | ProbeAnswer string probe_answer int int int int | CapacityAnswer string capacity_answer int
  | Arm int "sweep_host_row list" | Deregistered string int | HostPatched string

fun hb_step :: "heartbeat \<Rightarrow> hb_input \<Rightarrow> heartbeat \<times> hb_out list" where
  "hb_step s (SweepTick rows) = (if hb_timer s = None then (s, []) else runSweep rows s)"
| "hb_step s (ProbeAnswer h a seen checked ttlMs now) = on_probe h a seen checked ttlMs now s"
| "hb_step s (CapacityAnswer h a now) = on_capacity h a now s"
| "hb_step s (Arm secs rows) = arm secs rows s"
| "hb_step s (Deregistered h now) = (s\<lparr>hb_tracker := markOffline now h (hb_tracker s)\<rparr>, [])"
| "hb_step s (HostPatched h) = (s\<lparr>hb_tracker := hb_invalidateHost h (hb_tracker s), hb_capacity := capacity_invalidateHost h (hb_capacity s),
     hb_agents := at_invalidateHost h (hb_agents s)\<rparr>, [])"

subsection \<open>The verdict from the history\<close>

text \<open>What happens to one host, newest first, and the specification of its verdict.\<close>

datatype observation = ObsOk int | ObsBusy | ObsMiss | ObsOff

fun misses :: "observation list \<Rightarrow> nat" where
  "misses [] = 0"
| "misses (ObsOk _ # _) = 0"
| "misses (ObsOff # _) = 3"
| "misses (ObsMiss # r) = Suc (misses r)"
| "misses (ObsBusy # r) = misses r"

fun busy_run :: "observation list \<Rightarrow> nat" where
  "busy_run (ObsBusy # r) = Suc (busy_run r)"
| "busy_run _ = 0"

fun last_ok :: "observation list \<Rightarrow> int option" where
  "last_ok [] = None"
| "last_ok (ObsOk t # _) = Some t"
| "last_ok (_ # r) = last_ok r"

definition verdict :: "observation list \<Rightarrow> health_status" where
  "verdict hist = (if misses hist \<ge> 3 then HOffline else if misses hist \<ge> 1 \<or> busy_run hist \<ge> 3 then HDegraded
     else if last_ok hist \<noteq> None then HOnline else HPending)"

text \<open>The operations of the tracker, and what each is to one host: \<open>None\<close> forgets it.\<close>

datatype hb_op = OpOk int int string | OpBusy int string | OpMiss int string | OpOff int string | OpForget string | OpPrune "string set"

fun hb_op_step :: "heartbeats \<Rightarrow> hb_op \<Rightarrow> heartbeats" where
  "hb_op_step st (OpOk seen checked h) = snd (recordSuccess seen checked h st)"
| "hb_op_step st (OpBusy now h) = snd (recordBusy now h st)"
| "hb_op_step st (OpMiss now h) = hb_recordFailure now h st"
| "hb_op_step st (OpOff now h) = markOffline now h st"
| "hb_op_step st (OpForget h) = hb_invalidateHost h st"
| "hb_op_step st (OpPrune ids) = pruneMissing ids st"

fun hist_step :: "string \<Rightarrow> observation list \<Rightarrow> hb_op \<Rightarrow> observation list" where
  "hist_step h hist (OpOk seen _ h') = (if h' = h then ObsOk seen # hist else hist)"
| "hist_step h hist (OpBusy _ h') = (if h' = h then ObsBusy # hist else hist)"
| "hist_step h hist (OpMiss _ h') = (if h' = h then ObsMiss # hist else hist)"
| "hist_step h hist (OpOff _ h') = (if h' = h then ObsOff # hist else hist)"
| "hist_step h hist (OpForget h') = (if h' = h then [] else hist)"
| "hist_step h hist (OpPrune ids) = (if h \<in> ids then hist else [])"

definition agrees :: "string \<Rightarrow> heartbeats \<Rightarrow> observation list \<Rightarrow> bool" where
  "agrees h st hist \<longleftrightarrow> jm_wf st \<and> (case jm_get st h of None \<Rightarrow> hist = []
     | Some e \<Rightarrow> he_missed e = misses hist \<and> coalesce (he_busy e) 0 = busy_run hist \<and> he_lastSeenAt e = last_ok hist
         \<and> he_status e = verdict hist \<and> hist \<noteq> [])"

lemma agrees_prev:
  assumes "agrees h st hist"
  shows "prev_missed h st = misses hist" "prev_seen h st = last_ok hist"
    "(case jm_get st h of None \<Rightarrow> 0 | Some e \<Rightarrow> coalesce (he_busy e) 0) = busy_run hist"
    "coalesce (map_option he_status (jm_get st h)) HPending = verdict hist"
  using assms by (auto simp: agrees_def prev_missed_def prev_seen_def verdict_def coalesce_def split: option.splits)

lemma agrees_set:
  assumes "agrees h st hist"
  shows "agrees h (jm_set h e st) (x # hist) = (he_missed e = misses (x # hist) \<and> coalesce (he_busy e) 0 = busy_run (x # hist)
    \<and> he_lastSeenAt e = last_ok (x # hist) \<and> he_status e = verdict (x # hist))"
    and "h' \<noteq> h \<Longrightarrow> agrees h (jm_set h' e st) hist"
  using assms by (auto simp: agrees_def jm.get_put jm.wf_put split: option.splits)

lemma agrees_busy:
  assumes "agrees h st hist"
  shows "agrees h (snd (recordBusy now h st)) (ObsBusy # hist)"
proof -
  have "map_option he_status (jm_get st h) = Some HOffline \<longleftrightarrow> verdict hist = HOffline"
    using assms by (auto simp: agrees_def verdict_def split: option.splits)
  then show ?thesis
    unfolding recordBusy_def Let_def snd_conv agrees_set(1) [OF assms] agrees_prev [OF assms]
    by (auto simp: coalesce_def verdict_def DEGRADED_AFTER_BUSY_def)
qed

lemma agrees_step:
  assumes "agrees h st hist"
  shows "agrees h (hb_op_step st op) (hist_step h hist op)"
proof (cases op)
  case (OpOk seen checked h')
  then show ?thesis using assms agrees_set [OF assms] by (auto simp: recordSuccess_def verdict_def coalesce_def)
next
  case (OpBusy now h')
  then show ?thesis using agrees_busy [OF assms] agrees_set(2) [OF assms] by (auto simp: recordBusy_def Let_def)
next
  case (OpMiss now h')
  then show ?thesis using assms agrees_set [OF assms] agrees_prev [OF assms]
    by (auto simp: hb_recordFailure_def Let_def verdict_def coalesce_def OFFLINE_AFTER_MISSED_def)
next
  case (OpOff now h')
  then show ?thesis using assms agrees_set [OF assms] agrees_prev [OF assms]
    by (auto simp: markOffline_def verdict_def coalesce_def OFFLINE_AFTER_MISSED_def)
next
  case (OpForget h')
  then show ?thesis using assms by (auto simp: agrees_def hb_invalidateHost_def jm.get_delete jm.wf_delete)
next
  case (OpPrune ids)
  then show ?thesis using assms by (auto simp: agrees_def pruneMissing_def jm_get_filter jm_wf_filter split: option.splits)
qed

subsection \<open>The poller drives the tracker by its operations\<close>

definition probe_op :: "string \<Rightarrow> probe_answer \<Rightarrow> int \<Rightarrow> int \<Rightarrow> hb_op" where
  "probe_op h a seen checked = (case a of ProbeOk \<Rightarrow> OpOk seen checked h | ProbeBusy \<Rightarrow> OpBusy checked h | _ \<Rightarrow> OpMiss checked h)"

definition prune_op :: "sweep_host_row list \<Rightarrow> hb_op" where
  "prune_op rows = OpPrune (set (map sw_id (filter (\<lambda>h. sw_id h \<noteq> LOCAL_HOST_ID) rows)))"

definition is_probing :: "string \<Rightarrow> heartbeat \<Rightarrow> bool" where
  "is_probing h s = (case jm_get (hb_turns s) h of Some (Probing _) \<Rightarrow> True | _ \<Rightarrow> False)"

fun ops_of :: "heartbeat \<Rightarrow> hb_input \<Rightarrow> hb_op list" where
  "ops_of s (SweepTick rows) = (if hb_timer s \<noteq> None \<and> \<not> hb_inFlight s then [prune_op rows] else [])"
| "ops_of s (ProbeAnswer h a seen checked _ _) = (if is_probing h s then [probe_op h a seen checked] else [])"
| "ops_of s (CapacityAnswer _ _ _) = []"
| "ops_of s (Arm secs rows) = (if secs \<le> 0 then [OpPrune {}] else if hb_inFlight s then [] else [prune_op rows])"
| "ops_of s (Deregistered h now) = [OpOff now h]"
| "ops_of s (HostPatched h) = [OpForget h]"

lemma tracker_finish [simp]: "hb_tracker (fst (finish_sweep s)) = hb_tracker s"
  by (simp add: finish_sweep_def)

lemma tracker_end_turn [simp]: "hb_tracker (fst (end_turn h r c s)) = hb_tracker s"
  by (simp add: end_turn_def)

lemma tracker_runSweep: "hb_tracker (fst (runSweep rows s)) = (if hb_inFlight s then hb_tracker s else hb_op_step (hb_tracker s) (prune_op rows))"
  by (simp add: runSweep_def sweep_def Let_def prune_op_def)

lemma tracker_of_step: "hb_tracker (fst (hb_step s i)) = foldl hb_op_step (hb_tracker s) (ops_of s i)"
proof (cases i)
  case (ProbeAnswer h a seen checked ttl now)
  then show ?thesis
    by (auto simp: on_probe_def is_probing_def probe_op_def recordSuccess_def Let_def split: option.splits turn.splits probe_answer.splits)
next
  case (CapacityAnswer h a now)
  then show ?thesis by (simp add: on_capacity_def split: option.splits turn.splits capacity_answer.splits)
next
  case (Arm secs rows)
  then show ?thesis using tracker_runSweep [of rows "s\<lparr>hb_timer := None\<rparr>"]
    by (auto simp: arm_def Let_def split: prod.splits)
qed (simp_all add: tracker_runSweep)

fun hb_run :: "heartbeat \<Rightarrow> hb_input list \<Rightarrow> heartbeat \<times> hb_op list" where
  "hb_run s [] = (s, [])"
| "hb_run s (i # is) = (case hb_run (fst (hb_step s i)) is of (s', ops) \<Rightarrow> (s', ops_of s i @ ops))"

lemma tracker_of_run: "hb_tracker (fst (hb_run s is)) = foldl hb_op_step (hb_tracker s) (snd (hb_run s is))"
  by (induction "is" arbitrary: s) (simp_all add: tracker_of_step case_prod_beta)

text \<open>
  A host's health is what its history says. However probes, capacity answers, deregistrations,
  edits and re-armings of the poller interleave, a remote host's status is offline exactly when
  at least three pings were missed since the last contact (or it signed off), degraded
  when one was or when the last three found its channel saturated, online after a contact and
  pending before; the saturation reason shows exactly in a run of three, the last contact is the
  time of the last successful ping, and a success reports a recovery exactly after two misses.
\<close>

theorem heartbeat_verdict:
  fixes inputs :: "hb_input list" and h :: string
  assumes "h \<noteq> LOCAL_HOST_ID"
  defines "r \<equiv> hb_run new_heartbeat inputs"
  defines "hist \<equiv> foldl (hist_step h) [] (snd r)"
  shows "hh_status (getHealth h (hb_tracker (fst r))) = verdict hist
    \<and> (hh_reason (getHealth h (hb_tracker (fst r))) \<noteq> None) = (busy_run hist \<ge> 3)
    \<and> hh_lastSeenAt (getHealth h (hb_tracker (fst r))) = last_ok hist
    \<and> fst (recordSuccess seen checked h (hb_tracker (fst r))) = (misses hist \<ge> 2)"
proof -
  have "agrees h (foldl hb_op_step st ops) (foldl (hist_step h) hist0 ops)" if "agrees h st hist0" for st hist0 ops
    using that by (induction ops arbitrary: st hist0) (auto intro: agrees_step)
  moreover have "agrees h [] []" by (simp add: agrees_def)
  ultimately have "agrees h (foldl hb_op_step [] (snd r)) hist" unfolding hist_def by blast
  then have ag: "agrees h (hb_tracker (fst r)) hist"
    using tracker_of_run [of new_heartbeat inputs] by (simp add: r_def new_heartbeat_def)
  have "fst (recordSuccess seen checked h (hb_tracker (fst r))) = (misses hist \<ge> 2)"
    using agrees_prev(1) [OF ag] by (simp add: recordSuccess_def)
  then show ?thesis using ag assms(1)
    by (auto simp: agrees_def getHealth_def verdict_def DEGRADED_AFTER_BUSY_def split: option.splits)
qed

text \<open>Two missed pings and a contact: the host is online, and the contact was a recovery.\<close>

definition mac_row :: sweep_host_row where
  "mac_row = \<lparr>sw_id = ''mac'', sw_baseUrl = Some ''u'', sw_channelUp = False, sw_hasMachineIdentity = False\<rparr>"

definition two_misses :: "hb_input list" where
  "two_misses = [Arm 30 [mac_row], ProbeAnswer ''mac'' ProbeDown 0 1 0 0, SweepTick [mac_row], ProbeAnswer ''mac'' ProbeThrew 0 2 0 0]"

lemma two_misses_history: "foldl (hist_step ''mac'') [] (snd (hb_run new_heartbeat two_misses)) = [ObsMiss, ObsMiss]"
  by code_simp

theorem heartbeat_verdict_witness:
  "hh_status (getHealth ''mac'' (hb_tracker (fst (hb_run new_heartbeat two_misses)))) = HDegraded
   \<and> fst (recordSuccess 5 5 ''mac'' (hb_tracker (fst (hb_run new_heartbeat two_misses))))"
  using heartbeat_verdict [of "''mac''" two_misses 5 5] two_misses_history by (simp add: LOCAL_HOST_ID_def verdict_def)

text \<open>Switching the heartbeat off forgets the verdicts, but not the pings under way: an answer that arrives
  afterwards sets a verdict that nothing will ever check again.\<close>

lemma stale_verdict_after_disarm:
  "hh_status (getHealth ''mac'' (hb_tracker (fst (hb_run new_heartbeat [Arm 30 [mac_row], Arm 0 [], ProbeAnswer ''mac'' ProbeOk 1 1 0 0])))) = HOnline
   \<and> hb_timer (fst (hb_run new_heartbeat [Arm 30 [mac_row], Arm 0 [], ProbeAnswer ''mac'' ProbeOk 1 1 0 0])) = None"
  by code_simp

end
