(* ===== verification/TaskDeps.thy ===== *)
theory TaskDeps
  imports MessageFrame "HOL-Library.Sublist"
begin

section \<open>Tasks: lifecycle and dependencies\<close>

text \<open>
  \<open>src/services/task-state.ts\<close> (the lifecycle table and the announcement of a transition) and
  \<open>src/services/task-dependencies.ts\<close> (whether an issue's open blockers allow a claim). The \<open>blockedBy\<close>
  column holds JSON text; it is represented by what \<open>JSON.parse\<close> makes of it, \<open>Garbage\<close> when it throws,
  so that \<open>JSON.stringify\<close> of a value is that value. GitHub's answer (\<open>listBlockedByIssues\<close>) is a parameter.
\<close>

subsection \<open>Lifecycle\<close>

datatype task_status = Backlog | Ready | Claimed | InProgress | Reviewing | TaskDone | TaskFailed

definition TASK_STATUSES :: "task_status list" where
  "TASK_STATUSES = [Backlog, Ready, Claimed, InProgress, Reviewing, TaskDone, TaskFailed]"

definition ACTIVE_TASK_STATUSES :: "task_status list" where
  "ACTIVE_TASK_STATUSES = [Claimed, InProgress, Reviewing]"

definition CONCURRENCY_CAPPED_STATUSES :: "task_status list" where
  "CONCURRENCY_CAPPED_STATUSES = [InProgress]"

fun TASK_TRANSITIONS :: "task_status \<Rightarrow> task_status list" where
  "TASK_TRANSITIONS Backlog = [Ready, TaskFailed]"
| "TASK_TRANSITIONS Ready = [Claimed, Backlog, TaskFailed]"
| "TASK_TRANSITIONS Claimed = [InProgress, Reviewing, TaskFailed]"
| "TASK_TRANSITIONS InProgress = [Reviewing, TaskFailed]"
| "TASK_TRANSITIONS Reviewing = [TaskDone, InProgress, TaskFailed]"
| "TASK_TRANSITIONS TaskDone = []"
| "TASK_TRANSITIONS TaskFailed = [Backlog, Ready]"

definition canTransition :: "task_status \<Rightarrow> task_status \<Rightarrow> bool" where
  "canTransition from to \<longleftrightarrow> to \<in> set (TASK_TRANSITIONS from)"

record transition_params =
  tp_taskId :: int
  tp_projectId :: int
  tp_from :: task_status
  tp_to :: task_status
  tp_via :: string

text \<open>The announcement: the log line, the broadcast, then every listener. A listener is called with the
  parameters and may throw; \<open>throws\<close> says which do.\<close>

datatype announcement = LogTransition transition_params | BroadcastTransition int int task_status task_status int
  | ListenerCalled nat | ListenerThrew nat

definition call_listener :: "(nat \<Rightarrow> bool) \<Rightarrow> nat \<Rightarrow> announcement list" where
  "call_listener throws l = ListenerCalled l # (if throws l then [ListenerThrew l] else [])"

definition recordTaskTransition :: "(nat \<Rightarrow> bool) \<Rightarrow> nat list \<Rightarrow> int \<Rightarrow> transition_params \<Rightarrow> announcement list" where
  "recordTaskTransition throws listeners now p =
     [LogTransition p, BroadcastTransition (tp_taskId p) (tp_projectId p) (tp_from p) (tp_to p) now]
     @ concat (map (call_listener throws) listeners)"

lemma every_listener_called: "[a \<leftarrow> recordTaskTransition throws ls now p. \<exists>l. a = ListenerCalled l] = map ListenerCalled ls"
  by (induction ls) (auto simp: recordTaskTransition_def call_listener_def)

text \<open>A task's life along legal transitions, from its creation in the backlog.\<close>

inductive lifecycle :: "task_status list \<Rightarrow> bool" where
  created: "lifecycle [Backlog]"
| moves: "lifecycle (p @ [x]) \<Longrightarrow> canTransition x y \<Longrightarrow> lifecycle (p @ [x, y])"

fun needs :: "task_status \<Rightarrow> task_status list" where
  "needs Ready = [Ready]"
| "needs Claimed = [Ready, Claimed]"
| "needs InProgress = [Ready, Claimed]"
| "needs Reviewing = [Ready, Claimed, Reviewing]"
| "needs TaskDone = [Ready, Claimed, Reviewing, TaskDone]"
| "needs _ = []"

lemma needs_step:
  assumes "subseq (needs x) (p @ [x])" and "canTransition x y"
  shows "subseq (needs y) (p @ [x, y])"
proof -
  have keep: "subseq zs (p @ [x]) \<Longrightarrow> subseq zs (p @ [x, y])" for zs
    using list_emb_append_mono [of "(=)" zs "p @ [x]" "[]" "[y]"] by simp
  have add: "subseq zs (p @ [x]) \<Longrightarrow> subseq (zs @ [y]) (p @ [x, y])" for zs
    using list_emb_append_mono [of "(=)" zs "p @ [x]" "[y]" "[y]"] by simp
  have shrink: "subseq [Ready, Claimed, Reviewing] (p @ [x]) \<Longrightarrow> subseq [Ready, Claimed] (p @ [x])"
    using subseq_order.order_trans [of "[Ready, Claimed]" "[Ready, Claimed, Reviewing]"] by simp
  show ?thesis
    using assms keep [of "[Ready, Claimed]"] shrink add [of "[]"] add [of "needs x"] add [of "[Ready, Claimed]"]
    by (cases x; cases y) (auto simp: canTransition_def)
qed

lemma lifecycle_needs: "lifecycle p \<Longrightarrow> p \<noteq> [] \<and> subseq (needs (last p)) p"
proof (induction rule: lifecycle.induct)
  case (moves p x y)
  then show ?case using needs_step [of x p y] by simp
qed simp

text \<open>Along legal transitions a task reaches \<open>done\<close> only after it was ready, then claimed, then in review, in
  this order; and \<open>done\<close> is final. (The table is advisory: some writers of the status do not consult it.)\<close>

lemma done_only_after_review:
  assumes "lifecycle p" and "last p = TaskDone"
  shows "subseq [Ready, Claimed, Reviewing, TaskDone] p \<and> \<not> canTransition (last p) next_status"
  using lifecycle_needs [OF assms(1)] assms(2) by (simp add: canTransition_def)

subsection \<open>Stored blockers\<close>

record stored_blocker =
  sb_owner :: string
  sb_repo :: string
  sb_number :: int
  sb_title :: string
  sb_htmlUrl :: "string option"

datatype dependency_gate = DgClear | DgBlocked | DgUnresolved

text \<open>What the text of the column parses to.\<close>

datatype json_text = Parsed json | Garbage

definition js_field :: "(string \<times> json) list \<Rightarrow> string \<Rightarrow> json option" where
  "js_field o_fields k = map_of o_fields k"

definition str_field :: "(string \<times> json) list \<Rightarrow> string \<Rightarrow> string option" where
  "str_field fs k = (case js_field fs k of Some (JStr s) \<Rightarrow> Some s | _ \<Rightarrow> None)"

definition num_field :: "(string \<times> json) list \<Rightarrow> string \<Rightarrow> int option" where
  "num_field fs k = (case js_field fs k of Some (JNum n) \<Rightarrow> Some n | _ \<Rightarrow> None)"

text \<open>\<open>isStoredBlocker\<close>, with the value it lets through. An array is an object too, without these fields.\<close>

definition isStoredBlocker :: "json \<Rightarrow> bool" where
  "isStoredBlocker v = (case v of
     JObj fs \<Rightarrow> str_field fs ''owner'' \<noteq> None \<and> str_field fs ''repo'' \<noteq> None \<and> num_field fs ''number'' \<noteq> None
       \<and> str_field fs ''title'' \<noteq> None \<and> (js_field fs ''htmlUrl'' = Some JNull \<or> str_field fs ''htmlUrl'' \<noteq> None)
   | _ \<Rightarrow> False)"

definition blocker_of :: "json \<Rightarrow> stored_blocker" where
  "blocker_of v = (case v of
     JObj fs \<Rightarrow> \<lparr>sb_owner = the (str_field fs ''owner''), sb_repo = the (str_field fs ''repo''), sb_number = the (num_field fs ''number''),
       sb_title = the (str_field fs ''title''), sb_htmlUrl = str_field fs ''htmlUrl''\<rparr>
   | _ \<Rightarrow> \<lparr>sb_owner = [], sb_repo = [], sb_number = 0, sb_title = [], sb_htmlUrl = None\<rparr>)"

definition parseBlockedBy :: "json_text option \<Rightarrow> stored_blocker list option" where
  "parseBlockedBy col = (case col of
     Some (Parsed (JArr vs)) \<Rightarrow> if list_all isStoredBlocker vs then Some (map blocker_of vs) else None
   | _ \<Rightarrow> None)"

definition blocker_json :: "stored_blocker \<Rightarrow> json" where
  "blocker_json b = JObj [(''owner'', JStr (sb_owner b)), (''repo'', JStr (sb_repo b)), (''number'', JNum (sb_number b)),
     (''title'', JStr (sb_title b)), (''htmlUrl'', case sb_htmlUrl b of None \<Rightarrow> JNull | Some u \<Rightarrow> JStr u)]"

definition stringify_blockers :: "stored_blocker list \<Rightarrow> json_text" where
  "stringify_blockers bs = Parsed (JArr (map blocker_json bs))"

record task_row =
  tr_id :: int
  tr_issueNumber :: "int option"
  tr_dependencyCount :: "nat option"
  tr_blockedBy :: "json_text option"
  tr_blockedByCheckedAt :: "int option"

definition dependencyGate :: "task_row \<Rightarrow> dependency_gate" where
  "dependencyGate row =
     (if tr_issueNumber row = None then DgClear
      else case tr_dependencyCount row of
        None \<Rightarrow> DgUnresolved
      | Some 0 \<Rightarrow> DgClear
      | Some _ \<Rightarrow> (case parseBlockedBy (tr_blockedBy row) of
            None \<Rightarrow> DgUnresolved
          | Some bs \<Rightarrow> if bs \<noteq> [] then DgBlocked else DgClear))"

subsection \<open>Refreshing them\<close>

record issue_ref =
  ir_open :: bool
  ir_blocker :: stored_blocker

datatype refresh_outcome = RefreshOk | RefreshShortfall | RefreshError

definition ascii :: "jsstring \<Rightarrow> string" where
  "ascii s = map char_of s"

definition hidden_blocker :: "string \<Rightarrow> string \<Rightarrow> nat \<Rightarrow> stored_blocker" where
  "hidden_blocker owner repo hidden = \<lparr>sb_owner = owner, sb_repo = repo, sb_number = 0,
     sb_title = ascii (show_nat hidden) @ '' blocker(s) not visible to this token'', sb_htmlUrl = None\<rparr>"

definition update_task :: "int \<Rightarrow> (task_row \<Rightarrow> task_row) \<Rightarrow> task_row list \<Rightarrow> task_row list" where
  "update_task i f rows = map (\<lambda>r. if tr_id r = i then f r else r) rows"

text \<open>\<open>answer\<close>: the issues GitHub lists, \<open>None\<close> when the request (or a later step) throws before the write. A failing
  stamp write leaves the rows alone (\<open>stampFails\<close>). \<open>True\<close> in the result: the board is told.\<close>

definition refreshTaskBlockers :: "int \<Rightarrow> string \<Rightarrow> string \<Rightarrow> nat option \<Rightarrow> bool \<Rightarrow> bool \<Rightarrow> issue_ref list option \<Rightarrow> int
    \<Rightarrow> task_row list \<Rightarrow> refresh_outcome \<times> bool \<times> task_row list" where
  "refreshTaskBlockers taskId owner repo dependencyCount stampOnFailure stampFails answer now rows =
     (case answer of
        None \<Rightarrow> (RefreshError, False,
          if stampOnFailure \<and> \<not> stampFails then update_task taskId (\<lambda>r. r\<lparr>tr_blockedByCheckedAt := Some now\<rparr>) rows else rows)
      | Some results \<Rightarrow>
          let expected = (case dependencyCount of None \<Rightarrow> 0 | Some n \<Rightarrow> n);
              openBlockers = map ir_blocker (filter ir_open results);
              shortfall = (length results < expected);
              blockers = (if shortfall then hidden_blocker owner repo (expected - length results) # openBlockers else openBlockers)
          in (if shortfall then RefreshShortfall else RefreshOk, True,
              update_task taskId (\<lambda>r. r\<lparr>tr_dependencyCount := Some (length blockers), tr_blockedBy := Some (stringify_blockers blockers),
                tr_blockedByCheckedAt := (if \<not> shortfall then Some now else tr_blockedByCheckedAt r)\<rparr>) rows))"

lemma nth_update_task [simp]: "k < length rows \<Longrightarrow> update_task i f rows ! k = (if tr_id (rows ! k) = i then f (rows ! k) else rows ! k)"
  by (simp add: update_task_def)

lemma gate_stamp [simp]: "dependencyGate (r\<lparr>tr_blockedByCheckedAt := t\<rparr>) = dependencyGate r"
  by (simp add: dependencyGate_def split: option.splits nat.splits)

lemma blocker_roundtrip: "isStoredBlocker (blocker_json b)" "blocker_of (blocker_json b) = b"
  by (auto simp: isStoredBlocker_def blocker_json_def blocker_of_def str_field_def num_field_def js_field_def split: option.splits)

lemma parse_stringify: "parseBlockedBy (Some (stringify_blockers bs)) = Some bs"
  by (simp add: parseBlockedBy_def stringify_blockers_def list_all_iff blocker_roundtrip map_idI)

text \<open>
  The gate after a refresh. For a task of a GitHub issue, once GitHub answered, the gate is clear
  exactly when every listed blocker is closed and as many were visible as GitHub counts, and
  blocked otherwise, never unresolved, and it does not depend on the count or blockers
  stored before; the check time is stamped exactly on a complete answer. When the request failed,
  the gate is what it was. Tasks of other ids are not touched.
\<close>

theorem gate_after_refresh:
  fixes rows :: "task_row list" and answer :: "issue_ref list option" and i now :: int and owner repo :: string
    and count :: "nat option" and stampOnFailure stampFails :: bool
  assumes "k < length rows" and "tr_issueNumber (rows ! k) \<noteq> None"
  defines "res \<equiv> refreshTaskBlockers i owner repo count stampOnFailure stampFails answer now rows"
  defines "row' \<equiv> snd (snd res) ! k"
  shows "(tr_id (rows ! k) \<noteq> i \<longrightarrow> row' = rows ! k)
    \<and> (tr_id (rows ! k) = i \<longrightarrow> (case answer of
          None \<Rightarrow> dependencyGate row' = dependencyGate (rows ! k) \<and> fst res = RefreshError
        | Some results \<Rightarrow>
            let complete = (case count of None \<Rightarrow> 0 | Some n \<Rightarrow> n) \<le> length results in
            dependencyGate row' = (if complete \<and> list_all (\<lambda>r. \<not> ir_open r) results then DgClear else DgBlocked)
            \<and> tr_blockedByCheckedAt row' = (if complete then Some now else tr_blockedByCheckedAt (rows ! k))
            \<and> fst res = (if complete then RefreshOk else RefreshShortfall)))"
proof (cases answer)
  case None
  then show ?thesis using assms(1) by (auto simp: res_def row'_def refreshTaskBlockers_def)
next
  case (Some results)
  have "filter ir_open results = [] \<longleftrightarrow> list_all (\<lambda>r. \<not> ir_open r) results" by (auto simp: list_all_iff filter_empty_conv)
  then show ?thesis using assms(1,2) Some
    by (auto simp: res_def row'_def refreshTaskBlockers_def dependencyGate_def parse_stringify Let_def
        split: nat.splits)
qed

definition blocked_row :: task_row where
  "blocked_row = \<lparr>tr_id = 4, tr_issueNumber = Some 12, tr_dependencyCount = Some 0, tr_blockedBy = None, tr_blockedByCheckedAt = None\<rparr>"

definition open_issue :: issue_ref where
  "open_issue = \<lparr>ir_open = True, ir_blocker = \<lparr>sb_owner = ''o'', sb_repo = ''r'', sb_number = 3, sb_title = ''t'', sb_htmlUrl = Some ''u''\<rparr>\<rparr>"

text \<open>A blocker added to an issue whose stored count was zero.\<close>

theorem gate_after_refresh_witness:
  "dependencyGate blocked_row = DgClear
   \<and> dependencyGate (snd (snd (refreshTaskBlockers 4 ''o'' ''r'' (Some 0) False False (Some [open_issue]) 7 [blocked_row])) ! 0) = DgBlocked"
  using gate_after_refresh [of 0 "[blocked_row]" 4 "''o''" "''r''" "Some 0" False False "Some [open_issue]" 7]
  by (simp add: blocked_row_def open_issue_def dependencyGate_def)

end
