(* ===== verification/TaskDispatch.thy ===== *)
theory TaskDispatch
  imports TaskDeps "HOL-Library.Product_Lexorder"
begin

section \<open>The task dispatcher\<close>

text \<open>
  \<open>src/services/task-dispatch.ts\<close>: which queued tasks are tried, in which order, with which backoff, and the
  guard that coalesces triggers; with the database steps of \<open>src/services/task-claim.ts\<close> it relies on (the
  enqueue, the reservation of a slot, the release, the holds, the give-up). A sweep awaits one
  \<open>dispatchClaimedTask\<close> after the other; the outcome of each, and the rows as they are then, are inputs, since
  everything else may run in between. Each reading of the clock and of the configuration is an argument.
\<close>

subsection \<open>Rows\<close>

record dispatch_task = task_row +
  dt_boardOrder :: int
  dt_status :: task_status
  dt_sessionId :: "int option"
  dt_archived :: bool
  dt_queuedAt :: "int option"
  dt_claimedAt :: "int option"
  dt_startedAt :: "int option"
  dt_branchName :: "string option"
  dt_worktreePath :: "string option"
  dt_failureReason :: "jsstring option"
  dt_dispatchFailingSince :: "int option"
  dt_dispatchHeld :: bool
  dt_placementRequirement :: "string option"

definition row_of :: "int \<Rightarrow> dispatch_task list \<Rightarrow> dispatch_task option" where
  "row_of i rows = find (\<lambda>r. tr_id r = i) rows"

text \<open>\<open>update(tasks).set(f).where(id = i and P)\<close>, with the number of changed rows.\<close>

definition update_where :: "int \<Rightarrow> (dispatch_task \<Rightarrow> bool) \<Rightarrow> (dispatch_task \<Rightarrow> dispatch_task) \<Rightarrow> dispatch_task list \<Rightarrow> nat \<times> dispatch_task list" where
  "update_where i P f rows = (length (filter (\<lambda>r. tr_id r = i \<and> P r) rows), map (\<lambda>r. if tr_id r = i \<and> P r then f r else r) rows)"

definition in_flight :: "dispatch_task list \<Rightarrow> nat" where
  "in_flight rows = length (filter (\<lambda>r. dt_status r \<in> set CONCURRENCY_CAPPED_STATUSES) rows)"

subsection \<open>Steps of a claim\<close>

datatype enqueue_outcome = EnqOk | EnqArchived | EnqNotReady "task_status option"

text \<open>The transaction of \<open>enqueueTask\<close>; the resolved agent, the quota check and the model fields are decided before it.\<close>

definition enqueue_reserve :: "int \<Rightarrow> int \<Rightarrow> string \<Rightarrow> string \<Rightarrow> dispatch_task list \<Rightarrow> enqueue_outcome \<times> dispatch_task list" where
  "enqueue_reserve i now branch path rows =
     (case row_of i rows of
        None \<Rightarrow> (EnqNotReady None, rows)
      | Some current \<Rightarrow>
          if dt_archived current then (EnqArchived, rows)
          else if dt_status current \<noteq> Ready then (EnqNotReady (Some (dt_status current)), rows)
          else (EnqOk, snd (update_where i (\<lambda>r. dt_status r = Ready \<and> \<not> dt_archived r)
            (\<lambda>r. r\<lparr>dt_status := Claimed, dt_queuedAt := Some now, dt_worktreePath := Some path, dt_branchName := Some branch,
               dt_failureReason := None, dt_dispatchFailingSince := None, dt_dispatchHeld := False\<rparr>) rows)))"

datatype reservation = Reserved | NotReserved | Capped

definition dispatch_reserve :: "nat \<Rightarrow> int \<Rightarrow> int \<Rightarrow> int \<Rightarrow> dispatch_task list \<Rightarrow> reservation \<times> dispatch_task list" where
  "dispatch_reserve maxConcurrent i t1 t2 rows =
     (case row_of i rows of
        None \<Rightarrow> (NotReserved, rows)
      | Some current \<Rightarrow>
          if dt_status current \<noteq> Claimed \<or> dt_sessionId current \<noteq> None then (NotReserved, rows)
          else if in_flight rows \<ge> maxConcurrent then (Capped, rows)
          else (Reserved, snd (update_where i (\<lambda>r. dt_status r = Claimed)
            (\<lambda>r. r\<lparr>dt_status := InProgress, dt_claimedAt := Some t1, dt_startedAt := Some t2\<rparr>) rows)))"

definition dispatch_release :: "int \<Rightarrow> jsstring \<Rightarrow> int option \<Rightarrow> int \<Rightarrow> string option \<Rightarrow> dispatch_task list \<Rightarrow> bool \<times> dispatch_task list" where
  "dispatch_release i reason failingSince now requirement rows =
     (case update_where i (\<lambda>r. dt_status r = InProgress \<and> dt_sessionId r = None)
        (\<lambda>r. r\<lparr>dt_status := Claimed, dt_claimedAt := None, dt_startedAt := None, dt_failureReason := Some reason,
           dt_dispatchFailingSince := Some (case failingSince of Some t \<Rightarrow> t | None \<Rightarrow> now), dt_dispatchHeld := False,
           dt_placementRequirement := requirement\<rparr>) rows of (n, rows') \<Rightarrow> (n > 0, rows'))"

definition holdClaim :: "dispatch_task \<Rightarrow> int option \<Rightarrow> jsstring \<Rightarrow> string option \<Rightarrow> int \<Rightarrow> dispatch_task list \<Rightarrow> bool \<times> dispatch_task list" where
  "holdClaim task failingSince detail requirement now rows =
     (if dt_failureReason task \<noteq> Some detail \<or> failingSince = None \<or> \<not> dt_dispatchHeld task
      then (case update_where (tr_id task) (\<lambda>r. dt_status r = Claimed)
          (\<lambda>r. r\<lparr>dt_failureReason := Some detail, dt_placementRequirement := requirement,
             dt_dispatchFailingSince := Some (case failingSince of Some t \<Rightarrow> t | None \<Rightarrow> now), dt_dispatchHeld := True\<rparr>) rows
        of (n, rows') \<Rightarrow> (n > 0, rows'))
      else (False, rows))"

text \<open>\<open>failQueuedTask\<close>; \<open>extra\<close> is the additional patch, \<open>projectExists\<close> whether the task's project row is found.\<close>

definition failQueuedTask :: "bool \<Rightarrow> int \<Rightarrow> jsstring \<Rightarrow> (dispatch_task \<Rightarrow> dispatch_task) \<Rightarrow> dispatch_task list \<Rightarrow> bool \<times> dispatch_task list" where
  "failQueuedTask projectExists i detail extra rows =
     (if row_of i rows = None \<or> \<not> projectExists then (False, rows)
      else case update_where i (\<lambda>r. dt_status r = Claimed)
          (\<lambda>r. extra (r\<lparr>dt_status := TaskFailed, dt_failureReason := Some detail, dt_dispatchFailingSince := None, dt_dispatchHeld := False\<rparr>)) rows
        of (n, rows') \<Rightarrow> (n > 0, rows'))"

definition BLOCKED_HOLD_PREFIX :: jsstring where "BLOCKED_HOLD_PREFIX = lit ''Waiting for ''"
definition BLOCKED_HOLD_RECHECK_MS :: int where "BLOCKED_HOLD_RECHECK_MS = 5 * 60 * 1000"

definition blockedHoldDetail :: "json_text option \<Rightarrow> jsstring" where
  "blockedHoldDetail blockedBy =
     (let blockers = (case parseBlockedBy blockedBy of None \<Rightarrow> [] | Some bs \<Rightarrow> bs);
          names = map (\<lambda>b. if sb_number b > 0 then lit ''#'' @ show_nat (nat (sb_number b)) else lit (sb_title b)) blockers
      in BLOCKED_HOLD_PREFIX @ js_join (lit '', '') names @ lit '' to close'')"

text \<open>\<open>blockedHold\<close>: \<open>refreshed\<close> is the row read back after a refresh that could be made (its repository and token
  resolved, nothing thrown). \<open>Some detail\<close>: the task is held.\<close>

definition blocked_recheck :: "int \<Rightarrow> dispatch_task \<Rightarrow> bool" where
  "blocked_recheck now task =
     (let gate = dependencyGate (task_row.truncate task);
          stale = (case tr_blockedByCheckedAt task of None \<Rightarrow> True | Some t \<Rightarrow> now - t \<ge> BLOCKED_HOLD_RECHECK_MS)
      in gate \<noteq> DgClear \<and> (gate = DgUnresolved \<or> stale) \<and> tr_issueNumber task \<noteq> None)"

definition blockedHold :: "int \<Rightarrow> dispatch_task option \<Rightarrow> dispatch_task \<Rightarrow> dispatch_task list \<Rightarrow> jsstring option \<times> dispatch_task list" where
  "blockedHold now refreshed task rows =
     (let recheck = blocked_recheck now task;
          current = (if recheck then (case refreshed of Some r \<Rightarrow> r | None \<Rightarrow> task) else task);
          gate = dependencyGate (task_row.truncate current)
      in if recheck \<and> gate = DgUnresolved then (None, rows)
         else if gate = DgBlocked
         then let detail = blockedHoldDetail (tr_blockedBy current) in
           (Some detail, if dt_failureReason task \<noteq> Some detail
              then snd (update_where (tr_id task) (\<lambda>r. dt_status r = Claimed) (\<lambda>r. r\<lparr>dt_failureReason := Some detail\<rparr>) rows) else rows)
         else (None, case dt_failureReason task of
             Some reason \<Rightarrow> if take (length BLOCKED_HOLD_PREFIX) reason = BLOCKED_HOLD_PREFIX
               then snd (update_where (tr_id task) (\<lambda>r. dt_status r = Claimed) (\<lambda>r. r\<lparr>dt_failureReason := None\<rparr>) rows) else rows
           | None \<Rightarrow> rows))"

subsection \<open>Backoff\<close>

definition DISPATCH_RETRY_TTL_MS :: int where "DISPATCH_RETRY_TTL_MS = 5 * 60 * 1000"
definition DISPATCH_RETRY_MAX_TTL_MS :: int where "DISPATCH_RETRY_MAX_TTL_MS = 60 * 60 * 1000"
definition DISPATCH_GIVE_UP_AFTER_MS :: int where "DISPATCH_GIVE_UP_AFTER_MS = 6 * 60 * 60 * 1000"
definition DISPATCH_BACKOFF_MAX_ENTRIES :: nat where "DISPATCH_BACKOFF_MAX_ENTRIES = 500"

type_synonym backoff = "(int, int \<times> nat) jsmap"

definition dispatchBackoffMs :: "nat \<Rightarrow> int" where
  "dispatchBackoffMs attempts = min (DISPATCH_RETRY_TTL_MS * 2 ^ (attempts - 1)) DISPATCH_RETRY_MAX_TTL_MS"

definition isBackedOff :: "int \<Rightarrow> int \<Rightarrow> backoff \<Rightarrow> bool" where
  "isBackedOff i now b = (case jm_get b i of None \<Rightarrow> False | Some (nextAttemptAt, _) \<Rightarrow> nextAttemptAt > now)"

definition recordDispatchFailure :: "int \<Rightarrow> int \<Rightarrow> backoff \<Rightarrow> backoff" where
  "recordDispatchFailure i now b =
     (let attempts = (case jm_get b i of None \<Rightarrow> 0 | Some (_, n) \<Rightarrow> n) + 1;
          b1 = (if \<not> jm_has b i \<and> jm_size b \<ge> DISPATCH_BACKOFF_MAX_ENTRIES then jm_delete_oldest b else b)
      in jm_set i (now + dispatchBackoffMs attempts, attempts) b1)"

definition clearDispatchBackoff :: "int \<Rightarrow> backoff \<Rightarrow> backoff" where
  "clearDispatchBackoff i b = jm_delete i b"

definition give_up_detail :: "dispatch_task \<Rightarrow> jsstring" where
  "give_up_detail row =
     (if dt_dispatchHeld row
      then lit ''gave up after 6h waiting for a host that matches the task'' @ [39] @ lit ''s Platform:/Host: requirement to become eligible''
      else lit ''gave up after 6h of failed dispatch attempts '' @ [8212] @ lit '' last: ''
        @ (case dt_failureReason row of None \<Rightarrow> lit ''unknown'' | Some r \<Rightarrow> r))"

definition giveUpIfOverdue :: "bool \<Rightarrow> int \<Rightarrow> int \<Rightarrow> dispatch_task list \<Rightarrow> bool \<times> dispatch_task list" where
  "giveUpIfOverdue projectExists i now rows =
     (case row_of i rows of
        None \<Rightarrow> (False, rows)
      | Some row \<Rightarrow>
          (case dt_dispatchFailingSince row of
             None \<Rightarrow> (False, rows)
           | Some since \<Rightarrow>
               if dt_status row \<noteq> Claimed \<or> now - since < DISPATCH_GIVE_UP_AFTER_MS then (False, rows)
               else failQueuedTask projectExists i (give_up_detail row)
                 (if dt_dispatchHeld row then (\<lambda>r. r\<lparr>dt_worktreePath := None, dt_branchName := None\<rparr>) else (\<lambda>r. r)) rows))"

subsection \<open>Sweeps\<close>

datatype dispatch_outcome = DispOk | DispCap | DispRefused | DispNotQueued | DispBlockedHeld | DispPlacementHeld | DispFailed

text \<open>A sweep under way: its limit and clock reading, the task being dispatched, the tasks after it.\<close>

record sweep_state =
  ss_max :: nat
  ss_now :: int
  ss_task :: int
  ss_rest :: "int list"

record dispatcher =
  dp_rows :: "dispatch_task list"
  dp_backoff :: backoff
  dp_inFlight :: bool
  dp_pending :: bool
  dp_sweep :: "sweep_state option"

definition queued_ids :: "dispatch_task list \<Rightarrow> int list" where
  "queued_ids rows = map tr_id (sort_key (\<lambda>r. (dt_boardOrder r, tr_id r)) (filter (\<lambda>r. dt_status r = Claimed) rows))"

text \<open>The loop of \<open>runOneSweep\<close> up to its next await: the task to dispatch and what is left, or \<open>None\<close> at its end.\<close>

fun sweep_next :: "nat \<Rightarrow> int \<Rightarrow> dispatch_task list \<Rightarrow> backoff \<Rightarrow> int list \<Rightarrow> (int \<times> int list) option" where
  "sweep_next mx now rows b [] = None"
| "sweep_next mx now rows b (i # is) =
     (if isBackedOff i now b then sweep_next mx now rows b is
      else if in_flight rows \<ge> mx then None
      else Some (i, is))"

text \<open>The \<open>do\<close>-\<open>while\<close> of \<open>dispatchQueuedTasks\<close>: \<open>continue_sweep\<close> goes on with a queue, \<open>next_pass\<close> is the end of a pass. A pass
  that dispatches nothing ends without an await, so a pending trigger starts the next pass at once.\<close>

datatype sweep_out = PassStarted

definition continue_sweep :: "nat \<Rightarrow> int \<Rightarrow> int list \<Rightarrow> dispatcher \<Rightarrow> dispatcher option" where
  "continue_sweep mx now is d =
     (case sweep_next mx now (dp_rows d) (dp_backoff d) is of
        Some (i, rest) \<Rightarrow> Some (d\<lparr>dp_sweep := Some \<lparr>ss_max = mx, ss_now = now, ss_task = i, ss_rest = rest\<rparr>\<rparr>)
      | None \<Rightarrow> None)"

definition start_pass :: "nat \<Rightarrow> int \<Rightarrow> dispatcher \<Rightarrow> dispatcher" where
  "start_pass mx now d =
     (let d1 = d\<lparr>dp_pending := False, dp_sweep := None\<rparr> in
      case continue_sweep mx now (queued_ids (dp_rows d1)) d1 of
        Some d2 \<Rightarrow> d2
      | None \<Rightarrow> d1\<lparr>dp_inFlight := False\<rparr>)"

definition next_pass :: "nat \<Rightarrow> int \<Rightarrow> dispatcher \<Rightarrow> dispatcher \<times> sweep_out list" where
  "next_pass mx now d = (if dp_pending d then (start_pass mx now d, [PassStarted])
     else (d\<lparr>dp_inFlight := False, dp_sweep := None\<rparr>, []))"

definition dispatchQueuedTasks :: "nat \<Rightarrow> int \<Rightarrow> dispatcher \<Rightarrow> dispatcher \<times> sweep_out list" where
  "dispatchQueuedTasks mx now d =
     (if dp_inFlight d then (d\<lparr>dp_pending := True\<rparr>, [])
      else (start_pass mx now (d\<lparr>dp_inFlight := True\<rparr>), [PassStarted]))"

text \<open>After the await: what the outcome does to the backoff and the rows, and whether the pass goes on.\<close>

definition on_outcome :: "bool \<Rightarrow> dispatch_outcome \<Rightarrow> int \<Rightarrow> int \<Rightarrow> dispatcher \<Rightarrow> bool \<times> dispatcher" where
  "on_outcome projectExists out i now d = (case out of
     DispOk \<Rightarrow> (True, d\<lparr>dp_backoff := clearDispatchBackoff i (dp_backoff d)\<rparr>)
   | DispCap \<Rightarrow> (False, d)
   | DispRefused \<Rightarrow> (True, d)
   | DispNotQueued \<Rightarrow> (True, d)
   | DispBlockedHeld \<Rightarrow> (True, d)
   | DispPlacementHeld \<Rightarrow> (True, d\<lparr>dp_rows := snd (giveUpIfOverdue projectExists i now (dp_rows d))\<rparr>)
   | DispFailed \<Rightarrow> (case giveUpIfOverdue projectExists i now (dp_rows d) of (gaveUp, rows) \<Rightarrow>
       (True, d\<lparr>dp_rows := rows, dp_backoff := (if gaveUp then clearDispatchBackoff i (dp_backoff d) else recordDispatchFailure i now (dp_backoff d))\<rparr>)))"

text \<open>The awaited dispatch ends: with an outcome, or by throwing (the \<open>finally\<close> clears the flag and nothing else). \<open>rows\<close> is
  the table as it is then; \<open>mx\<close> and \<open>now\<close> are what the next pass would read.\<close>

definition on_dispatched :: "bool \<Rightarrow> dispatch_outcome option \<Rightarrow> dispatch_task list \<Rightarrow> nat \<Rightarrow> int \<Rightarrow> dispatcher \<Rightarrow> dispatcher \<times> sweep_out list" where
  "on_dispatched projectExists out rows mx now d =
     (case dp_sweep d of
        None \<Rightarrow> (d, [])
      | Some s \<Rightarrow>
          let d0 = d\<lparr>dp_rows := rows\<rparr> in
          (case out of
             None \<Rightarrow> (d0\<lparr>dp_inFlight := False, dp_sweep := None\<rparr>, [])
           | Some o1 \<Rightarrow>
               (case on_outcome projectExists o1 (ss_task s) (ss_now s) d0 of (goes_on, d1) \<Rightarrow>
                  (case (if goes_on then continue_sweep (ss_max s) (ss_now s) (ss_rest s) d1 else None) of
                     Some d2 \<Rightarrow> (d2, [])
                   | None \<Rightarrow> next_pass mx now d1))))"

datatype dispatch_input =
    Trigger nat int
  | Dispatched bool "dispatch_outcome option" "dispatch_task list" nat int
  | RowsChanged "dispatch_task list"

fun dispatch_step :: "dispatcher \<Rightarrow> dispatch_input \<Rightarrow> dispatcher \<times> sweep_out list" where
  "dispatch_step d (Trigger mx now) = dispatchQueuedTasks mx now d"
| "dispatch_step d (Dispatched p out rows mx now) = on_dispatched p out rows mx now d"
| "dispatch_step d (RowsChanged rows) = (d\<lparr>dp_rows := rows\<rparr>, [])"

text \<open>The listener of \<open>recordTaskTransition\<close>: which transitions schedule a sweep.\<close>

definition triggers_sweep :: "task_status \<Rightarrow> task_status \<Rightarrow> bool" where
  "triggers_sweep from to \<longleftrightarrow> to = Claimed \<or> from = InProgress"

subsection \<open>No trigger is lost\<close>

fun dispatch_run :: "dispatcher \<Rightarrow> dispatch_input list \<Rightarrow> dispatcher \<times> sweep_out list" where
  "dispatch_run d [] = (d, [])"
| "dispatch_run d (i # is) = (case dispatch_step d i of (d1, out1) \<Rightarrow> (case dispatch_run d1 is of (d2, out2) \<Rightarrow> (d2, out1 @ out2)))"

fun throws :: "dispatch_input \<Rightarrow> bool" where
  "throws (Dispatched _ None _ _ _) = True"
| "throws _ = False"

lemma outcome_flags [simp]: "dp_pending (snd (on_outcome p out i now d)) = dp_pending d" "dp_inFlight (snd (on_outcome p out i now d)) = dp_inFlight d"
  by (simp_all add: on_outcome_def split: dispatch_outcome.splits prod.splits)

lemma continue_flags: "continue_sweep mx now is d = Some d' \<Longrightarrow> dp_pending d' = dp_pending d \<and> dp_inFlight d' = dp_inFlight d"
  by (auto simp: continue_sweep_def split: option.splits)

lemma pending_kept_dispatched:
  assumes "dp_inFlight d \<and> dp_pending d" and "out \<noteq> None"
  shows "PassStarted \<in> set (snd (on_dispatched p out rows mx now d))
    \<or> dp_inFlight (fst (on_dispatched p out rows mx now d)) \<and> dp_pending (fst (on_dispatched p out rows mx now d))"
proof (cases "dp_sweep d")
  case None
  then show ?thesis using assms(1) by (simp add: on_dispatched_def)
next
  case (Some s)
  obtain o1 where o1: "out = Some o1" using assms(2) by blast
  obtain goes_on d1 where d1: "on_outcome p o1 (ss_task s) (ss_now s) (d\<lparr>dp_rows := rows\<rparr>) = (goes_on, d1)" by fastforce
  have flags: "dp_pending d1" "dp_inFlight d1" using outcome_flags [of p o1 "ss_task s" "ss_now s" "d\<lparr>dp_rows := rows\<rparr>"] d1 assms(1) by simp_all
  show ?thesis
  proof (cases "if goes_on then continue_sweep (ss_max s) (ss_now s) (ss_rest s) d1 else None")
    case None
    then show ?thesis using flags by (simp add: on_dispatched_def Some o1 d1 next_pass_def)
  next
    case cont: (Some d2)
    then have "continue_sweep (ss_max s) (ss_now s) (ss_rest s) d1 = Some d2" by (simp split: if_splits)
    then show ?thesis using flags cont continue_flags by (simp add: on_dispatched_def Some o1 d1)
  qed
qed

lemma pending_kept:
  assumes "dp_inFlight d \<and> dp_pending d" and "\<not> throws i"
  shows "PassStarted \<in> set (snd (dispatch_step d i)) \<or> dp_inFlight (fst (dispatch_step d i)) \<and> dp_pending (fst (dispatch_step d i))"
proof (cases i)
  case (Dispatched p out rows mx now)
  then show ?thesis using pending_kept_dispatched [OF assms(1)] assms(2) by (cases out) auto
qed (use assms(1) in \<open>simp_all add: dispatchQueuedTasks_def\<close>)

lemma pending_started:
  assumes "dp_inFlight d \<and> dp_pending d" and "list_all (\<lambda>i. \<not> throws i) is" and "\<not> dp_inFlight (fst (dispatch_run d is))"
  shows "PassStarted \<in> set (snd (dispatch_run d is))"
  using assms
proof (induction "is" arbitrary: d)
  case (Cons i "is")
  obtain d1 out1 where step: "dispatch_step d i = (d1, out1)" by fastforce
  have "\<not> throws i" "list_all (\<lambda>i. \<not> throws i) is" using Cons.prems(2) by simp_all
  then have "PassStarted \<in> set out1 \<or> dp_inFlight d1 \<and> dp_pending d1" using pending_kept [OF Cons.prems(1)] step by fastforce
  then show ?case
  proof
    assume "dp_inFlight d1 \<and> dp_pending d1"
    moreover have "\<not> dp_inFlight (fst (dispatch_run d1 is))" using Cons.prems(3) step by (simp split: prod.splits)
    ultimately have "PassStarted \<in> set (snd (dispatch_run d1 is))" using Cons.IH \<open>list_all (\<lambda>i. \<not> throws i) is\<close> by blast
    then show ?thesis using step by (auto split: prod.splits)
  qed (use step in \<open>auto split: prod.splits\<close>)
qed simp

text \<open>
  C25: No trigger is lost. Whatever state the dispatcher is in when a trigger arrives (a task joined the
  queue, a slot freed, the poll ticked), and whatever happens after it as long as no dispatch throws,
  by the time the dispatcher is idle again a pass over the queue has started at or after that
  trigger, so one that reads the table as the trigger left it.
\<close>

theorem no_trigger_lost:
  assumes "list_all (\<lambda>i. \<not> throws i) later" and "\<not> dp_inFlight (fst (dispatch_run d (Trigger mx now # later)))"
  shows "PassStarted \<in> set (snd (dispatch_run d (Trigger mx now # later)))"
proof (cases "dp_inFlight d")
  case True
  let ?d = "d\<lparr>dp_pending := True\<rparr>"
  have step: "dispatch_step d (Trigger mx now) = (?d, [])" using True by (simp add: dispatchQueuedTasks_def)
  then have "\<not> dp_inFlight (fst (dispatch_run ?d later))" using assms(2) by (simp split: prod.splits)
  then have "PassStarted \<in> set (snd (dispatch_run ?d later))" using assms(1) True by (intro pending_started) simp_all
  then show ?thesis using step by (simp split: prod.splits)
next
  case False
  then show ?thesis by (simp add: dispatchQueuedTasks_def split: prod.splits)
qed

definition queued_task :: "int \<Rightarrow> dispatch_task" where
  "queued_task i = \<lparr>tr_id = i, tr_issueNumber = None, tr_dependencyCount = None, tr_blockedBy = None, tr_blockedByCheckedAt = None,
     dt_boardOrder = 0, dt_status = Claimed, dt_sessionId = None, dt_archived = False, dt_queuedAt = None, dt_claimedAt = None,
     dt_startedAt = None, dt_branchName = None, dt_worktreePath = None, dt_failureReason = None, dt_dispatchFailingSince = None,
     dt_dispatchHeld = False, dt_placementRequirement = None\<rparr>"

text \<open>Task 1 is being dispatched when task 2 joins the queue; the dispatch ends, and the second pass finds task 2.\<close>

definition mid_dispatch :: dispatcher where
  "mid_dispatch = \<lparr>dp_rows = [queued_task 1], dp_backoff = [], dp_inFlight = True, dp_pending = False,
     dp_sweep = Some \<lparr>ss_max = 3, ss_now = 0, ss_task = 1, ss_rest = []\<rparr>\<rparr>"

definition running :: "int \<Rightarrow> dispatch_task" where "running i = (queued_task i)\<lparr>dt_status := InProgress, dt_sessionId := Some i\<rparr>"

definition second_pass :: "dispatch_input list" where
  "second_pass = [Dispatched True (Some DispOk) [running 1, queued_task 2] 3 9, Dispatched True (Some DispOk) [running 1, running 2] 3 9]"

theorem no_trigger_lost_witness: "PassStarted \<in> set (snd (dispatch_run mid_dispatch (Trigger 3 5 # second_pass)))"
proof (rule no_trigger_lost)
  show "list_all (\<lambda>i. \<not> throws i) second_pass" by (simp add: second_pass_def)
  show "\<not> dp_inFlight (fst (dispatch_run mid_dispatch (Trigger 3 5 # second_pass)))" by code_simp
qed

text \<open>When a dispatch throws, a trigger that arrived during the pass is dropped.\<close>

lemma trigger_lost_to_a_throw:
  "dispatch_run mid_dispatch [Trigger 3 5, Dispatched True None [queued_task 2] 3 9]
    = (mid_dispatch\<lparr>dp_rows := [queued_task 2], dp_inFlight := False, dp_pending := True, dp_sweep := None\<rparr>, [])"
  by (simp add: mid_dispatch_def dispatchQueuedTasks_def on_dispatched_def)

subsection \<open>Slots and backoff\<close>

lemma row_of_unique:
  assumes "distinct (map tr_id rows)" and "row_of i rows = Some r"
  shows "\<exists>pre post. rows = pre @ r # post \<and> tr_id r = i \<and> (\<forall>x \<in> set pre \<union> set post. tr_id x \<noteq> i)"
  using assms
proof (induction rows)
  case (Cons x rows)
  show ?case
  proof (cases "tr_id x = i")
    case True
    then have "r = x" "\<forall>y \<in> set rows. tr_id y \<noteq> i" using Cons.prems by (auto simp: row_of_def image_iff)
    then show ?thesis using True by (intro exI [of _ "[]"] exI [of _ rows]) simp
  next
    case False
    then obtain pre post where "rows = pre @ r # post" "tr_id r = i" "\<forall>x \<in> set pre \<union> set post. tr_id x \<noteq> i"
      using Cons by (auto simp: row_of_def)
    with False show ?thesis by (intro exI [of _ "x # pre"] exI [of _ post]) simp
  qed
qed (simp add: row_of_def)

lemma update_unique:
  assumes "rows = pre @ r # post" and "tr_id r = i" and "\<forall>x \<in> set pre \<union> set post. tr_id x \<noteq> i" and "P r"
  shows "snd (update_where i P f rows) = pre @ f r # post"
proof -
  have "map (\<lambda>r. if tr_id r = i \<and> P r then f r else r) xs = xs" if "\<forall>x \<in> set xs. tr_id x \<noteq> i" for xs
    using that by (induction xs) auto
  with assms show ?thesis by (simp add: update_where_def)
qed

text \<open>
  The concurrency cap. With task ids unique, the reservation of a worker slot succeeds exactly for a
  queued task without a session while fewer than the limit are in progress; it then raises the
  number in progress by one, to at most the limit, and touches no other row. Otherwise it
  changes nothing. So however many sweeps and claims race, dispatching never runs more workers
  than the limit allows.
\<close>

theorem reservation_respects_cap:
  fixes rows :: "dispatch_task list"
  assumes "distinct (map tr_id rows)"
  shows "(fst (dispatch_reserve mx i t1 t2 rows) = Reserved \<longleftrightarrow>
        (\<exists>r. row_of i rows = Some r \<and> dt_status r = Claimed \<and> dt_sessionId r = None) \<and> in_flight rows < mx)
    \<and> (fst (dispatch_reserve mx i t1 t2 rows) = Reserved \<longrightarrow>
        in_flight (snd (dispatch_reserve mx i t1 t2 rows)) = Suc (in_flight rows)
        \<and> in_flight (snd (dispatch_reserve mx i t1 t2 rows)) \<le> mx
        \<and> [r \<leftarrow> snd (dispatch_reserve mx i t1 t2 rows). tr_id r \<noteq> i] = [r \<leftarrow> rows. tr_id r \<noteq> i])
    \<and> (fst (dispatch_reserve mx i t1 t2 rows) \<noteq> Reserved \<longrightarrow> snd (dispatch_reserve mx i t1 t2 rows) = rows)"
proof (cases "(\<exists>r. row_of i rows = Some r \<and> dt_status r = Claimed \<and> dt_sessionId r = None) \<and> in_flight rows < mx")
  case True
  then obtain r where r: "row_of i rows = Some r" "dt_status r = Claimed" "dt_sessionId r = None" and room: "in_flight rows < mx" by blast
  obtain pre post where split: "rows = pre @ r # post" "tr_id r = i" "\<forall>x \<in> set pre \<union> set post. tr_id x \<noteq> i"
    using row_of_unique [OF assms r(1)] by blast
  let ?r = "r\<lparr>dt_status := InProgress, dt_claimedAt := Some t1, dt_startedAt := Some t2\<rparr>"
  have res: "dispatch_reserve mx i t1 t2 rows = (Reserved, pre @ ?r # post)"
    using r room update_unique [OF split, of "\<lambda>r. dt_status r = Claimed"] by (simp add: dispatch_reserve_def)
  have "in_flight (pre @ ?r # post) = Suc (in_flight rows)"
    using r(2) by (simp add: split(1) in_flight_def CONCURRENCY_CAPPED_STATUSES_def)
  then show ?thesis using True room res split by simp
next
  case False
  then show ?thesis by (auto simp: dispatch_reserve_def split: option.splits)
qed

theorem reservation_respects_cap_witness:
  "fst (dispatch_reserve 2 2 5 5 [running 1, queued_task 2]) = Reserved
   \<and> in_flight (snd (dispatch_reserve 2 2 5 5 [running 1, queued_task 2])) = 2"
  using reservation_respects_cap [of "[running 1, queued_task 2]" 2 2 5 5]
  by (simp add: running_def queued_task_def row_of_def in_flight_def CONCURRENCY_CAPPED_STATUSES_def)

text \<open>The ledger stays bounded, and a failure backs the task off for at least five minutes and at most an hour.\<close>

lemma backoff_bounded:
  assumes "jm_wf b" and "jm_size b \<le> DISPATCH_BACKOFF_MAX_ENTRIES"
  shows "jm_wf (recordDispatchFailure i now b) \<and> jm_size (recordDispatchFailure i now b) \<le> DISPATCH_BACKOFF_MAX_ENTRIES"
proof (cases "\<not> jm_has b i \<and> jm_size b \<ge> DISPATCH_BACKOFF_MAX_ENTRIES")
  case True
  have "DISPATCH_BACKOFF_MAX_ENTRIES > 0" by (simp add: DISPATCH_BACKOFF_MAX_ENTRIES_def)
  then have "Suc (jm_size (jm_delete_oldest b)) \<le> DISPATCH_BACKOFF_MAX_ENTRIES"
    using size_delete_oldest [OF assms(1)] assms(2) True by simp
  then have "jm_size (jm_set i v (jm_delete_oldest b)) \<le> DISPATCH_BACKOFF_MAX_ENTRIES" for v
    using jm_size_set_le [of i v "jm_delete_oldest b"] by simp
  then show ?thesis using True assms(1) by (simp add: recordDispatchFailure_def Let_def jm.wf_put jm_wf_delete_oldest)
next
  case False
  have "jm_size (jm_set i v b) \<le> DISPATCH_BACKOFF_MAX_ENTRIES" for v
    using False jm_size_set_le [of i v b] jm_size_set_present [of b i v] assms(2) by (auto simp: jm_has_get)
  then show ?thesis using False assms(1) by (auto simp: recordDispatchFailure_def Let_def jm.wf_put)
qed

lemma backoff_window:
  "isBackedOff i t (recordDispatchFailure i now b) \<longrightarrow> t < now + DISPATCH_RETRY_MAX_TTL_MS"
  "t < now + DISPATCH_RETRY_TTL_MS \<longrightarrow> isBackedOff i t (recordDispatchFailure i now b)"
proof -
  obtain n where n: "isBackedOff i t (recordDispatchFailure i now b) \<longleftrightarrow> t < now + dispatchBackoffMs n"
    by (simp add: isBackedOff_def recordDispatchFailure_def Let_def jm.get_put)
  have "(1::int) \<le> 2 ^ (n - 1)" by simp
  then have "DISPATCH_RETRY_TTL_MS \<le> dispatchBackoffMs n"
    by (simp add: dispatchBackoffMs_def DISPATCH_RETRY_TTL_MS_def DISPATCH_RETRY_MAX_TTL_MS_def)
  moreover have "dispatchBackoffMs n \<le> DISPATCH_RETRY_MAX_TTL_MS" by (simp add: dispatchBackoffMs_def)
  ultimately show "isBackedOff i t (recordDispatchFailure i now b) \<longrightarrow> t < now + DISPATCH_RETRY_MAX_TTL_MS"
    "t < now + DISPATCH_RETRY_TTL_MS \<longrightarrow> isBackedOff i t (recordDispatchFailure i now b)"
    by (simp_all add: n)
qed

end
