(* ===== verification/Placement.thy ===== *)
theory Placement
  imports Hosts TaskDeps "HOL-Library.List_Lexorder" "HOL-Library.Product_Lexorder" "HOL-Library.Multiset"
begin

section \<open>Placement: which host a new session runs on\<close>

text \<open>
  \<open>src/services/placement.ts\<close>: the policy \<open>chooseHost\<close> over a set of candidates, the assembly of the
  candidates from the trackers of \<open>Hosts\<close> and \<open>HostAgents\<close>, the decision of an automatic project with
  its steering flags, and placement on a target the caller named. The code asserts that a capacity is not
  null where it has filtered for it; \<open>None\<close> of a policy function is the \<open>TypeError\<close> a wrong assertion would
  raise. Loads are exact rationals (every finite double is one); what rounds or prints a number is the
  argument \<open>nf\<close>: the division of doubles, and the texts of \<open>${x}\<close> and \<open>x.toFixed(2)\<close>. Logging is the list
  of \<open>place_log\<close> entries. Columns holding JSON are what their text parses to (\<open>json_text\<close>; blank text is
  \<open>Garbage\<close>, which is read the same way).
\<close>

subsection \<open>Candidates, context and decision\<close>

record num_fns =
  nf_div :: "rat \<Rightarrow> rat \<Rightarrow> rat"
  nf_text :: "rat \<Rightarrow> jsstring"
  nf_fixed2 :: "rat \<Rightarrow> jsstring"

datatype host_role = RoleMain | RoleWorker | RoleBurst

record placement_candidate =
  pc_hostId :: string
  pc_isLocal :: bool
  pc_online :: bool
  pc_drained :: bool
  pc_capacity :: "host_capacity option"
  pc_projectCwd :: "string option"
  pc_needsCheckout :: bool
  pc_noProjectsRoots :: bool
  pc_platform :: "string option"
  pc_role :: "host_role option"
  pc_agents :: "string list option"
  pc_capabilities :: "string list option"
  pc_mullionVersion :: "string option"
  pc_protocol :: "host_protocol option"

datatype required_agent = NoAgent | OneAgent string | Agents "string list"

record placement_context =
  px_pinnedHostId :: string
  px_unattended :: bool
  px_localCapacity :: "host_capacity option"
  px_allowBurst :: bool
  px_platforms :: "string list"
  px_requiredAgent :: required_agent
  px_requiredCapabilities :: "string list"
  px_requiredLaunchOptions :: "string list"
  px_requiredOperations :: "string list"
  px_primaryVersion :: "string option"

record considered_host =
  ch_hostId :: string
  ch_loadAverage1m :: rat
  ch_logicalCores :: int
  ch_loadPerCore :: rat
  ch_chosen :: bool

record placement_refusal =
  rf_detail :: jsstring
  rf_transient :: bool
  rf_unreadable :: bool

record placement_decision =
  pd_hostId :: string
  pd_reason :: jsstring
  pd_considered :: "considered_host list"
  pd_excluded :: "(string \<times> jsstring) list"
  pd_fellBack :: bool
  pd_needsCheckout :: bool
  pd_refusal :: "placement_refusal option"

subsection \<open>Columns of a project\<close>

definition PLACEMENT_PLATFORMS :: "string list" where "PLACEMENT_PLATFORMS = [''darwin'', ''linux'', ''win32'']"
definition PLACEMENT_CAPABILITIES :: "string list" where "PLACEMENT_CAPABILITIES = [''xcode'', ''android-emulator'']"

definition blank :: "string \<Rightarrow> bool" where "blank s \<longleftrightarrow> js_trim (lit s) = []"

fun put_cwds :: "(string \<times> json) list \<Rightarrow> (string, string) jsmap \<Rightarrow> (string, string) jsmap" where
  "put_cwds [] out = out"
| "put_cwds ((hostId, v) # es) out =
     (case v of JStr cwd \<Rightarrow> put_cwds es (if blank cwd then out else jm_set hostId cwd out) | _ \<Rightarrow> put_cwds es out)"

definition parseHostCwds :: "json_text option \<Rightarrow> (string, string) jsmap" where
  "parseHostCwds raw = (case raw of Some (Parsed (JObj es)) \<Rightarrow> put_cwds es [] | _ \<Rightarrow> [])"

definition serializeHostCwds :: "(string, string) jsmap option \<Rightarrow> json_text option" where
  "serializeHostCwds m = (case m of None \<Rightarrow> None
     | Some es \<Rightarrow> let entries = filter (\<lambda>(_, cwd). \<not> blank cwd) es in
         if entries = [] then None else Some (Parsed (JObj (map (\<lambda>(h, cwd). (h, JStr cwd)) entries))))"

record placement_constraints =
  cs_platform :: "string list"
  cs_allowBurst :: bool
  cs_capabilities :: "string list"

definition includes_str :: "json list \<Rightarrow> string \<Rightarrow> bool" where
  "includes_str vs s \<longleftrightarrow> JStr s \<in> set vs"

definition listed :: "string list \<Rightarrow> json option \<Rightarrow> string list" where
  "listed vocabulary v = (case v of Some (JArr vs) \<Rightarrow> filter (includes_str vs) vocabulary | _ \<Rightarrow> [])"

definition parsePlacementConstraints :: "json_text option \<Rightarrow> placement_constraints" where
  "parsePlacementConstraints raw = (case raw of
     Some (Parsed (JObj fs)) \<Rightarrow> \<lparr>cs_platform = listed PLACEMENT_PLATFORMS (js_field fs ''platform''),
       cs_allowBurst = (js_field fs ''allowBurst'' = Some (JBool True)),
       cs_capabilities = listed PLACEMENT_CAPABILITIES (js_field fs ''capabilities'')\<rparr>
   | _ \<Rightarrow> \<lparr>cs_platform = [], cs_allowBurst = False, cs_capabilities = []\<rparr>)"

text \<open>The input's fields may be absent or \<open>null\<close> (\<open>None\<close>).\<close>

record constraints_input =
  ci_platform :: "string list option"
  ci_allowBurst :: "bool option"
  ci_capabilities :: "string list option"

definition serializePlacementConstraints :: "constraints_input option \<Rightarrow> json_text option" where
  "serializePlacementConstraints inp = (case inp of None \<Rightarrow> None
     | Some i \<Rightarrow>
         let platform = filter (\<lambda>p. p \<in> set (coalesce (ci_platform i) [])) PLACEMENT_PLATFORMS;
             allowBurst = (ci_allowBurst i = Some True);
             capabilities = filter (\<lambda>c. c \<in> set (coalesce (ci_capabilities i) [])) PLACEMENT_CAPABILITIES
         in if platform = [] \<and> \<not> allowBurst \<and> capabilities = [] then None
            else Some (Parsed (JObj [(''platform'', JArr (map JStr platform)), (''allowBurst'', JBool allowBurst),
              (''capabilities'', JArr (map JStr capabilities))])))"

subsection \<open>Flags in words\<close>

definition describePlatformFlag :: "string list \<Rightarrow> jsstring" where
  "describePlatformFlag platforms = lit ''project allows only '' @ js_join (lit '' or '') (map lit platforms) @ lit '' hosts''"

definition describeCapabilityFlag :: "string list \<Rightarrow> jsstring" where
  "describeCapabilityFlag capabilities = lit ''project requires '' @ js_join (lit '' and '') (map lit capabilities)"

definition describeFlags :: "string list \<Rightarrow> string list \<Rightarrow> jsstring" where
  "describeFlags platforms capabilities = js_join (lit ''; '')
     ((if platforms \<noteq> [] then [describePlatformFlag platforms] else [])
      @ (if capabilities \<noteq> [] then [describeCapabilityFlag capabilities] else []))"

definition toLowerCase :: "string \<Rightarrow> string" where
  "toLowerCase s = map (\<lambda>c. char_of (lower_unit (of_char c))) s"

datatype flag_state = FlagOk | FlagUnknown | FlagForbidden

definition platformFlagState :: "string option \<Rightarrow> string list \<Rightarrow> flag_state" where
  "platformFlagState platform allowed =
     (if allowed = [] then FlagOk
      else let reported = toLowerCase (coalesce platform []) in
        if reported = [] then FlagUnknown else if reported \<in> set allowed then FlagOk else FlagForbidden)"

subsection \<open>Versions\<close>

text \<open>\<open>Number(piece)\<close> on a piece without sign and point: white space is trimmed, the empty piece is 0;
  decimal digits with an exponent, or a radix prefix. \<open>None\<close> is \<open>NaN\<close>. Integers are exact.\<close>

definition digit_value :: "nat \<Rightarrow> nat \<Rightarrow> nat option" where
  "digit_value radix c =
     (let v = (if 48 \<le> c \<and> c \<le> 57 then c - 48 else if 97 \<le> c \<and> c \<le> 122 then c - 87
               else if 65 \<le> c \<and> c \<le> 90 then c - 55 else radix)
      in if v < radix then Some v else None)"

fun digits :: "nat \<Rightarrow> jsstring \<Rightarrow> nat \<Rightarrow> nat option" where
  "digits radix [] acc = Some acc"
| "digits radix (c # s) acc = (case digit_value radix c of None \<Rightarrow> None | Some d \<Rightarrow> digits radix s (acc * radix + d))"

definition digits1 :: "nat \<Rightarrow> jsstring \<Rightarrow> nat option" where
  "digits1 radix s = (if s = [] then None else digits radix s 0)"

definition is_e :: "nat \<Rightarrow> bool" where "is_e c \<longleftrightarrow> c = 69 \<or> c = 101"

definition js_Number :: "jsstring \<Rightarrow> nat option" where
  "js_Number piece =
     (let t = js_trim piece; rest = drop 2 t in
      if t = [] then Some 0
      else if take 2 t = [48, 120] \<or> take 2 t = [48, 88] then digits1 16 rest
      else if take 2 t = [48, 111] \<or> take 2 t = [48, 79] then digits1 8 rest
      else if take 2 t = [48, 98] \<or> take 2 t = [48, 66] then digits1 2 rest
      else let mantissa = takeWhile (\<lambda>c. \<not> is_e c) t; expo = dropWhile (\<lambda>c. \<not> is_e c) t in
        case digits1 10 mantissa of None \<Rightarrow> None
        | Some m \<Rightarrow> (case expo of [] \<Rightarrow> Some m | _ # ds \<Rightarrow> map_option (\<lambda>e. m * 10 ^ e) (digits1 10 ds)))"

definition parse_version :: "string \<Rightarrow> nat option list" where
  "parse_version v =
     (let w = lit v; w' = (case w of c # s \<Rightarrow> if c = 118 then s else w | [] \<Rightarrow> [])
      in map js_Number (js_split 46 (takeWhile (\<lambda>c. c \<noteq> 45 \<and> c \<noteq> 43) w')))"

fun older_loop :: "nat list \<Rightarrow> nat list \<Rightarrow> bool" where
  "older_loop [] [] = False"
| "older_loop (a # as) [] = (if a \<noteq> 0 then False else older_loop as [])"
| "older_loop [] (b # bs) = (if b \<noteq> 0 then True else older_loop [] bs)"
| "older_loop (a # as) (b # bs) = (if a \<noteq> b then a < b else older_loop as bs)"

definition isOlderVersion :: "string \<Rightarrow> string \<Rightarrow> bool" where
  "isOlderVersion a b =
     (case (those (parse_version a), those (parse_version b)) of (Some pa, Some pb) \<Rightarrow> older_loop pa pb | _ \<Rightarrow> False)"

subsection \<open>Eligibility\<close>

definition requiredAgents :: "placement_context \<Rightarrow> string list" where
  "requiredAgents x = (case px_requiredAgent x of NoAgent \<Rightarrow> [] | OneAgent a \<Rightarrow> [a] | Agents as \<Rightarrow> as)"

definition missingAgent :: "placement_candidate \<Rightarrow> placement_context \<Rightarrow> string option" where
  "missingAgent c x = (case pc_agents c of None \<Rightarrow> None | Some has \<Rightarrow> find (\<lambda>bin. bin \<notin> set has) (requiredAgents x))"

definition missingCapability :: "placement_candidate \<Rightarrow> placement_context \<Rightarrow> string option" where
  "missingCapability c x =
     (case pc_capabilities c of None \<Rightarrow> None | Some has \<Rightarrow> find (\<lambda>cap. cap \<notin> set has) (px_requiredCapabilities x))"

definition unsupportedBy :: "placement_candidate \<Rightarrow> placement_context \<Rightarrow> jsstring option" where
  "unsupportedBy c x = (case pc_protocol c of None \<Rightarrow> None
     | Some p \<Rightarrow>
         if \<not> hp_legacy p \<and> \<not> isProtocolCompatible (pi_protocolVersion p)
         then Some (lit ''this primary'' @ [39] @ lit ''s agent protocol (host speaks v'' @ show_int (pi_protocolVersion p) @ lit '')'')
         else let lackingOperations = filter (\<lambda>op. op \<notin> set (pi_operations p)) (px_requiredOperations x);
                  lackingOptions = filter (\<lambda>opt. opt \<notin> set (pi_launchOptions p)) (px_requiredLaunchOptions x);
                  parts = map (\<lambda>op. lit ''the '' @ lit op @ lit '' operation'') lackingOperations
                    @ map (\<lambda>opt. lit ''the '' @ lit opt @ lit '' launch option'') lackingOptions
              in if parts = [] then None else Some (js_join (lit '', '') parts))"

definition UNSUPPORTED_PREFIX :: jsstring where "UNSUPPORTED_PREFIX = lit ''host does not support ''"

definition capacityOf :: "placement_candidate \<Rightarrow> placement_context \<Rightarrow> host_capacity option" where
  "capacityOf c x = (if pc_isLocal c then px_localCapacity x else pc_capacity c)"

definition exclusionReason :: "placement_candidate \<Rightarrow> placement_context \<Rightarrow> jsstring option" where
  "exclusionReason c x =
     (let platformState = platformFlagState (pc_platform c) (px_platforms x) in
      if pc_role c = Some RoleBurst \<and> \<not> px_allowBurst x then Some (lit ''burst host (only an explicit target uses it)'')
      else if platformState = FlagForbidden then Some (describePlatformFlag (px_platforms x))
      else if platformState = FlagUnknown
      then Some (describePlatformFlag (px_platforms x) @ lit '' (this host has not reported its platform)'')
      else if \<not> pc_online c then Some (lit ''offline'')
      else if pc_drained c then Some (lit ''parked'')
      else if capacityOf c x = None then Some (lit ''no capacity reported'')
      else if pc_projectCwd c = None \<and> \<not> pc_needsCheckout c
      then Some (if pc_noProjectsRoots c
        then lit ''the project has no path on this host and the host reports no projects roots to clone into''
        else lit ''the project has no path on this host'')
      else case missingAgent c x of Some missing \<Rightarrow> Some (lit ''no '' @ lit missing @ lit '' CLI on this host'')
      | None \<Rightarrow> (case missingCapability c x of Some lacking \<Rightarrow> Some (lit ''host lacks capability: '' @ lit lacking)
        | None \<Rightarrow> map_option (\<lambda>u. UNSUPPORTED_PREFIX @ u @ lit '' (update the host)'') (unsupportedBy c x)))"

subsection \<open>The policy\<close>

definition loadPerCore :: "num_fns \<Rightarrow> host_capacity \<Rightarrow> rat" where
  "loadPerCore nf cap = (if hc_logicalCores cap \<le> 0 then hc_loadAverage1m cap
     else nf_div nf (hc_loadAverage1m cap) (of_int (hc_logicalCores cap)))"

text \<open>\<open>candidate.hostId < best.hostId\<close> compares code units.\<close>

definition isBetter :: "placement_candidate \<Rightarrow> rat \<Rightarrow> placement_candidate \<Rightarrow> rat \<Rightarrow> bool" where
  "isBetter c load best bestLoad =
     (if load < bestLoad then True
      else if load > bestLoad then False
      else if pc_needsCheckout c \<noteq> pc_needsCheckout best then \<not> pc_needsCheckout c
      else lit (pc_hostId c) < lit (pc_hostId best))"

definition consider_host :: "num_fns \<Rightarrow> placement_context \<Rightarrow> placement_candidate \<Rightarrow> considered_host option" where
  "consider_host nf x c = map_option (\<lambda>cap. \<lparr>ch_hostId = pc_hostId c, ch_loadAverage1m = hc_loadAverage1m cap,
     ch_logicalCores = hc_logicalCores cap, ch_loadPerCore = loadPerCore nf cap, ch_chosen = False\<rparr>) (capacityOf c x)"

definition markChosen :: "string \<Rightarrow> considered_host list \<Rightarrow> considered_host list" where
  "markChosen hostId hs = map (\<lambda>e. if ch_hostId e = hostId then e\<lparr>ch_chosen := True\<rparr> else e) hs"

fun best_loop :: "num_fns \<Rightarrow> placement_context \<Rightarrow> placement_candidate list \<Rightarrow> placement_candidate \<Rightarrow> rat
    \<Rightarrow> (placement_candidate \<times> rat) option" where
  "best_loop nf x [] best bestLoad = Some (best, bestLoad)"
| "best_loop nf x (c # cs) best bestLoad =
     (case capacityOf c x of None \<Rightarrow> None
      | Some cap \<Rightarrow> let load = loadPerCore nf cap in
          if isBetter c load best bestLoad then best_loop nf x cs c load else best_loop nf x cs best bestLoad)"

definition eligible_hosts :: "placement_candidate list \<Rightarrow> placement_context \<Rightarrow> placement_candidate list" where
  "eligible_hosts cs x = filter (\<lambda>c. exclusionReason c x = None) cs"

fun excluded_hosts :: "placement_candidate list \<Rightarrow> placement_context \<Rightarrow> (string \<times> jsstring) list" where
  "excluded_hosts [] x = []"
| "excluded_hosts (c # cs) x = (case exclusionReason c x of
     Some r \<Rightarrow> (pc_hostId c, r) # excluded_hosts cs x | None \<Rightarrow> excluded_hosts cs x)"

text \<open>The part after \<open>eligible\<close> is known to be nonempty, in the order of the code.\<close>

definition decide_least :: "num_fns \<Rightarrow> placement_context \<Rightarrow> placement_candidate list \<Rightarrow> considered_host list
    \<Rightarrow> (string \<times> jsstring) list \<Rightarrow> placement_decision option" where
  "decide_least nf x eligible considered excl =
     (case eligible of [] \<Rightarrow> None
      | b0 # cs \<Rightarrow>
          Option.bind (capacityOf b0 x) (\<lambda>cap0.
          Option.bind (best_loop nf x cs b0 (loadPerCore nf cap0)) (\<lambda>(best, bestLoad).
          map_option (\<lambda>bestCapacity. \<lparr>pd_hostId = pc_hostId best,
            pd_reason = lit ''least loaded: '' @ lit (pc_hostId best) @ lit '' at '' @ nf_text nf (hc_loadAverage1m bestCapacity)
              @ lit '' load on '' @ show_int (hc_logicalCores bestCapacity) @ lit '' cores ('' @ nf_fixed2 nf bestLoad @ lit '' per core)'',
            pd_considered = markChosen (pc_hostId best) considered, pd_excluded = excl, pd_fellBack = False,
            pd_needsCheckout = pc_needsCheckout best, pd_refusal = None\<rparr>) (capacityOf best x))))"

definition decideHost :: "num_fns \<Rightarrow> placement_candidate list \<Rightarrow> placement_context \<Rightarrow> placement_decision option" where
  "decideHost nf cs x =
     (let excl = excluded_hosts cs x; eligible = eligible_hosts cs x in
      if eligible = [] then Some \<lparr>pd_hostId = px_pinnedHostId x,
        pd_reason = lit ''no eligible host '' @ [8212] @ lit '' fell back to the project'' @ [39] @ lit ''s host '' @ lit (px_pinnedHostId x),
        pd_considered = [], pd_excluded = excl, pd_fellBack = True, pd_needsCheckout = False, pd_refusal = None\<rparr>
      else case those (map (consider_host nf x) eligible) of None \<Rightarrow> None
      | Some considered \<Rightarrow>
          (case (if \<not> px_unattended x \<and> px_pinnedHostId x = LOCAL_HOST_ID then find pc_isLocal eligible else None) of
             Some local \<Rightarrow> Some \<lparr>pd_hostId = pc_hostId local,
               pd_reason = lit ''local host preferred for an interactive session (terminal latency): '' @ lit (pc_hostId local),
               pd_considered = markChosen (pc_hostId local) considered, pd_excluded = excl, pd_fellBack = False,
               pd_needsCheckout = pc_needsCheckout local, pd_refusal = None\<rparr>
           | None \<Rightarrow> decide_least nf x eligible considered excl))"

definition starts_with :: "jsstring \<Rightarrow> jsstring \<Rightarrow> bool" where
  "starts_with p s \<longleftrightarrow> take (length p) s = p"

definition placement_notes :: "placement_candidate list \<Rightarrow> placement_context \<Rightarrow> placement_decision \<Rightarrow> jsstring list" where
  "placement_notes cs x d =
     (let chosen = find (\<lambda>c. pc_hostId c = pd_hostId d) cs in
      (case chosen of Some c \<Rightarrow> if pd_fellBack d then []
          else (if requiredAgents x \<noteq> [] \<and> pc_agents c = None then [lit ''agent list unknown''] else [])
             @ (if px_requiredCapabilities x \<noteq> [] \<and> pc_capabilities c = None then [lit ''capabilities unknown''] else [])
        | None \<Rightarrow> [])
      @ (case Option.bind chosen pc_mullionVersion of
           Some v \<Rightarrow> (case px_primaryVersion x of
               Some pv \<Rightarrow> if v \<noteq> [] \<and> pv \<noteq> [] \<and> isOlderVersion v pv
                 then [lit ''agent v'' @ lit v @ lit '', older than the primary''] else []
             | None \<Rightarrow> [])
         | None \<Rightarrow> [])
      @ map (\<lambda>(h, r). lit ''skipped '' @ lit h @ lit '': '' @ r) (filter (\<lambda>(h, r). starts_with UNSUPPORTED_PREFIX r) (pd_excluded d)))"

definition chooseHost :: "num_fns \<Rightarrow> placement_candidate list \<Rightarrow> placement_context \<Rightarrow> placement_decision option" where
  "chooseHost nf cs x = map_option (\<lambda>d.
     let notes = placement_notes cs x d in
     if notes = [] then d
     else d\<lparr>pd_reason := pd_reason d @ lit '' ('' @ js_join (lit ''; '') notes @ lit '')''\<rparr>) (decideHost nf cs x)"

subsection \<open>Collecting the candidates\<close>

record placement_project =
  pp_hostId :: string
  pp_auto :: bool
  pp_cwd :: "string option"
  pp_hostCwds :: "json_text option"
  pp_placementConstraints :: "json_text option"

definition PROJECT_PATH_UNKNOWN :: string where "PROJECT_PATH_UNKNOWN = []"

definition projectCwdOnHost :: "placement_project \<Rightarrow> string \<Rightarrow> (string, string) jsmap \<Rightarrow> string option" where
  "projectCwdOnHost project hostId hostCwds =
     (if hostId = pp_hostId project then Some (coalesce (pp_cwd project) PROJECT_PATH_UNKNOWN) else jm_get hostCwds hostId)"

text \<open>\<open>projectCwd\<close>, \<open>needsCheckout\<close> and \<open>noProjectsRoots\<close>; \<open>roots\<close> is \<open>hostProjectsRoots\<close> for the host.\<close>

definition checkoutFields :: "placement_project \<Rightarrow> string \<Rightarrow> (string, string) jsmap \<Rightarrow> bool \<Rightarrow> string list option
    \<Rightarrow> string option \<times> bool \<times> bool" where
  "checkoutFields project hostId hostCwds isGit roots =
     (let projectCwd = projectCwdOnHost project hostId hostCwds in
      if projectCwd \<noteq> None \<or> \<not> isGit then (projectCwd, False, False)
      else if roots = Some [] then (projectCwd, False, True)
      else (projectCwd, True, False))"

record placement_host_row =
  ph_id :: string
  ph_drained :: bool
  ph_role :: host_role
  ph_platform :: "string option"

text \<open>What the placement reads: the three trackers (each may be missing on a bare instance), the primary's own
  projects roots (\<open>None\<close>: reading them threw) and version, and the cached normalized
  origin of a project.\<close>

record fleet =
  fl_heartbeats :: "heartbeats option"
  fl_capacities :: "capacities option"
  fl_agents :: "agent_tracker option"
  fl_localRoots :: "string list option"
  fl_appVersion :: string
  fl_origin :: "string \<Rightarrow> string \<Rightarrow> string option"

definition agent_entry :: "fleet \<Rightarrow> string \<Rightarrow> host_agent_entry option" where
  "agent_entry f hostId = Option.bind (fl_agents f) (\<lambda>t. jm_get (at_entries t) hostId)"

definition fleet_capacity :: "fleet \<Rightarrow> string \<Rightarrow> host_capacity option" where
  "fleet_capacity f hostId = map_option fst (Option.bind (fl_capacities f) (\<lambda>t. jm_get t hostId))"

definition hostProjectsRoots :: "fleet \<Rightarrow> string \<Rightarrow> string list option" where
  "hostProjectsRoots f hostId =
     (if hostId = LOCAL_HOST_ID then fl_localRoots f else Option.bind (agent_entry f hostId) ae_projectsRoots)"

definition candidate_of :: "fleet \<Rightarrow> placement_project \<Rightarrow> host_capacity \<Rightarrow> (string, string) jsmap \<Rightarrow> bool
    \<Rightarrow> placement_host_row \<Rightarrow> placement_candidate" where
  "candidate_of f project localCapacity hostCwds isGit host =
     (let isLocal = (ph_id host = LOCAL_HOST_ID) in
      case checkoutFields project (ph_id host) hostCwds isGit (hostProjectsRoots f (ph_id host)) of
        (cwd, clone, noRoots) \<Rightarrow>
          \<lparr>pc_hostId = ph_id host, pc_isLocal = isLocal,
           pc_online = (case fl_heartbeats f of None \<Rightarrow> False | Some t \<Rightarrow> hh_status (getHealth (ph_id host) t) = HOnline),
           pc_drained = ph_drained host,
           pc_capacity = (if isLocal then None else fleet_capacity f (ph_id host)),
           pc_projectCwd = cwd, pc_needsCheckout = clone, pc_noProjectsRoots = noRoots,
           pc_platform = (if isLocal then Some (hc_platform localCapacity)
             else case ph_platform host of Some p \<Rightarrow> Some p | None \<Rightarrow> map_option hc_platform (fleet_capacity f (ph_id host))),
           pc_role = Some (ph_role host),
           pc_agents = Option.bind (agent_entry f (ph_id host)) ae_agents,
           pc_capabilities = Option.bind (agent_entry f (ph_id host)) ae_capabilities,
           pc_mullionVersion = (if isLocal then Some (fl_appVersion f) else Option.bind (agent_entry f (ph_id host)) ae_mullionVersion),
           pc_protocol = Some (if isLocal then with_legacy localProtocolInfo False else effectiveProtocol (fl_agents f) (ph_id host))\<rparr>)"

text \<open>\<open>None\<close>: reading the hosts or measuring the local capacity threw.\<close>

type_synonym collected = "host_capacity \<times> placement_candidate list"

definition collectCandidates :: "fleet \<Rightarrow> (host_capacity \<times> placement_host_row list) option \<Rightarrow> placement_project \<Rightarrow> collected option" where
  "collectCandidates f readings project = map_option (\<lambda>(localCapacity, hosts).
     (localCapacity,
      let isGit = (case pp_cwd project of None \<Rightarrow> False | Some cwd \<Rightarrow> fl_origin f (pp_hostId project) cwd \<noteq> None)
      in map (candidate_of f project localCapacity (parseHostCwds (pp_hostCwds project)) isGit) hosts)) readings"

subsection \<open>The decision for a project\<close>

datatype place_log = LogPinned | LogUnevaluated bool | LogChose placement_decision | LogTargetChose placement_decision | LogTargetUnread

record launch_needs =
  ln_requiredAgent :: required_agent
  ln_requiredLaunchOptions :: "string list"
  ln_requiredOperations :: "string list"

text \<open>A \<open>Set\<close> of reasons keeps the first occurrence of each.\<close>

definition flag_reasons :: "placement_context \<Rightarrow> host_capacity \<Rightarrow> placement_candidate \<Rightarrow> jsstring list" where
  "flag_reasons x localCapacity c =
     (let capacity = (if pc_isLocal c then Some localCapacity else pc_capacity c) in
      (if platformFlagState (pc_platform c) (px_platforms x) = FlagUnknown
       then [lit ''a host that has not reported its platform yet may match once it is online''] else [])
      @ (if \<not> pc_online c then [lit ''a matching host is offline'']
         else if pc_drained c then [lit ''a matching host is parked/drained'']
         else if capacity = None then [lit ''a matching host has no capacity reading yet''] else [])
      @ (if pc_projectCwd c = None \<and> \<not> pc_needsCheckout c then [lit ''the project has no checkout on a matching host''] else [])
      @ (case missingAgent c x of Some bin \<Rightarrow> [lit ''a matching host has no '' @ lit bin @ lit '' CLI''] | None \<Rightarrow> [])
      @ (case missingCapability c x of Some l \<Rightarrow> [lit ''a matching host lacks '' @ lit l] | None \<Rightarrow> [])
      @ (if unsupportedBy c x \<noteq> None
         then [lit ''a matching host'' @ [39] @ lit ''s agent does not support what this launch needs (update it)''] else []))"

definition could_run :: "placement_context \<Rightarrow> placement_candidate \<Rightarrow> bool" where
  "could_run x c \<longleftrightarrow> (pc_projectCwd c \<noteq> None \<or> pc_needsCheckout c) \<and> missingAgent c x = None \<and> missingCapability c x = None
     \<and> unsupportedBy c x = None"

definition refuseForFlags :: "placement_decision \<Rightarrow> collected \<Rightarrow> placement_context \<Rightarrow> placement_decision" where
  "refuseForFlags d col x =
     (let flag = describeFlags (px_platforms x) (px_requiredCapabilities x);
          byPlatform = filter (\<lambda>c. platformFlagState (pc_platform c) (px_platforms x) \<noteq> FlagForbidden) (snd col);
          passing = filter (\<lambda>c. pc_role c \<noteq> Some RoleBurst \<or> px_allowBurst x) byPlatform;
          why = js_unique (concat (map (flag_reasons x (fst col)) passing)
            @ (if length passing < length byPlatform
               then [lit ''a matching host is a burst host (this project does not allow burst hosts)''] else [])
            @ (if byPlatform = [] then [lit ''no host reports a matching platform''] else []));
          detail = lit ''no eligible host satisfies this project'' @ [39] @ lit ''s placement flags ('' @ flag @ lit ''; ''
            @ js_join (lit ''; '') why @ lit '')''
      in d\<lparr>pd_reason := detail @ lit '' '' @ [8212] @ lit '' not placed'',
           pd_refusal := Some \<lparr>rf_detail = detail, rf_transient = list_ex (could_run x) passing, rf_unreadable = False\<rparr>\<rparr>)"

definition decide_context :: "fleet \<Rightarrow> placement_project \<Rightarrow> bool \<Rightarrow> launch_needs \<Rightarrow> host_capacity \<Rightarrow> placement_context" where
  "decide_context f project unattended launch localCapacity =
     (let constraints = parsePlacementConstraints (pp_placementConstraints project) in
      \<lparr>px_pinnedHostId = pp_hostId project, px_unattended = unattended, px_localCapacity = Some localCapacity,
       px_allowBurst = cs_allowBurst constraints, px_platforms = cs_platform constraints,
       px_requiredAgent = ln_requiredAgent launch, px_requiredCapabilities = cs_capabilities constraints,
       px_requiredLaunchOptions = ln_requiredLaunchOptions launch, px_requiredOperations = ln_requiredOperations launch,
       px_primaryVersion = Some (fl_appVersion f)\<rparr>)"

definition decide_placement :: "num_fns \<Rightarrow> fleet \<Rightarrow> (host_capacity \<times> placement_host_row list) option \<Rightarrow> placement_project \<Rightarrow> bool \<Rightarrow> bool
    \<Rightarrow> launch_needs \<Rightarrow> (placement_decision \<times> place_log list) option" where
  "decide_placement nf f readings project unattended announce launch =
     (let constraints = parsePlacementConstraints (pp_placementConstraints project);
          flags = (cs_platform constraints \<noteq> [] \<or> cs_capabilities constraints \<noteq> [])
      in if \<not> pp_auto project then
           Some (\<lparr>pd_hostId = pp_hostId project,
             pd_reason = lit ''pinned to the project'' @ [39] @ lit ''s host '' @ lit (pp_hostId project),
             pd_considered = [], pd_excluded = [], pd_fellBack = False, pd_needsCheckout = False, pd_refusal = None\<rparr>,
             if announce then [LogPinned] else [])
         else case collectCandidates f readings project of
           None \<Rightarrow> Some (\<lparr>pd_hostId = pp_hostId project,
             pd_reason = lit ''placement could not be evaluated '' @ [8212] @ lit '' fell back to the project'' @ [39] @ lit ''s host ''
               @ lit (pp_hostId project),
             pd_considered = [], pd_excluded = [], pd_fellBack = True, pd_needsCheckout = False,
             pd_refusal = (if flags then Some \<lparr>rf_detail = describeFlags (cs_platform constraints) (cs_capabilities constraints)
                 @ lit '', but the hosts could not be checked just now'', rf_transient = True, rf_unreadable = True\<rparr> else None)\<rparr>,
             [LogUnevaluated (\<not> announce)])
         | Some col \<Rightarrow>
             let x = decide_context f project unattended launch (fst col) in
             map_option (\<lambda>d0. let d = (if pd_fellBack d0 \<and> flags then refuseForFlags d0 col x else d0)
               in (d, if announce then [LogChose d] else [])) (chooseHost nf (snd col) x))"

definition resolvePlacement :: "num_fns \<Rightarrow> fleet \<Rightarrow> (host_capacity \<times> placement_host_row list) option \<Rightarrow> placement_project \<Rightarrow> bool
    \<Rightarrow> launch_needs \<Rightarrow> (placement_decision \<times> place_log list) option" where
  "resolvePlacement nf f readings project unattended launch = decide_placement nf f readings project unattended True launch"

definition previewPlacement :: "num_fns \<Rightarrow> fleet \<Rightarrow> (host_capacity \<times> placement_host_row list) option \<Rightarrow> placement_project \<Rightarrow> bool option
    \<Rightarrow> launch_needs \<Rightarrow> (placement_decision \<times> place_log list) option" where
  "previewPlacement nf f readings project unattended launch = decide_placement nf f readings project (coalesce unattended False) False launch"

subsection \<open>A target the caller named\<close>

datatype placement_target = TargetHost string "string option" | TargetPlatform string

fun target_platform :: "placement_target \<Rightarrow> string option" where
  "target_platform (TargetHost _ p) = p"
| "target_platform (TargetPlatform p) = Some p"

fun target_host :: "placement_target \<Rightarrow> string option" where
  "target_host (TargetHost h _) = Some h"
| "target_host (TargetPlatform _) = None"

fun describeTarget :: "placement_target \<Rightarrow> jsstring" where
  "describeTarget (TargetPlatform p) = lit ''platform '' @ lit p"
| "describeTarget (TargetHost h None) = lit ''host '' @ lit h"
| "describeTarget (TargetHost h (Some p)) = lit ''host '' @ lit h @ lit '' (platform '' @ lit p @ lit '')''"

datatype target_result = Placed placement_decision | Refused jsstring bool bool

definition match_reasons :: "host_capacity option \<Rightarrow> placement_candidate \<Rightarrow> jsstring list" where
  "match_reasons localCapacity c =
     (if \<not> pc_online c then [lit ''a matching host is offline'']
      else if pc_drained c then [lit ''a matching host is parked/drained'']
      else if (if pc_isLocal c then localCapacity else pc_capacity c) = None then [lit ''a matching host has no capacity reading yet'']
      else [])
     @ (if pc_projectCwd c = None \<and> \<not> pc_needsCheckout c then [lit ''the project has no checkout on a matching host''] else [])"

definition refusalReasons :: "placement_candidate list \<Rightarrow> host_capacity option \<Rightarrow> placement_candidate list \<Rightarrow> string option
    \<Rightarrow> string option \<Rightarrow> jsstring list" where
  "refusalReasons matching localCapacity all wantedPlatform wantedHost =
     (let why = js_unique (concat (map (match_reasons localCapacity) matching)) in
      if matching \<noteq> [] then why
      else let named = Option.bind wantedHost (\<lambda>h. find (\<lambda>c. pc_hostId c = h) all);
               reported = Option.bind named pc_platform;
               more = (if wantedHost \<noteq> None \<and> named = None then [lit ''no such host'']
                 else case wantedPlatform of None \<Rightarrow> []
                   | Some p \<Rightarrow>
                       if wantedHost \<noteq> None then
                         [if coalesce reported [] = []
                          then lit ''the named host has not reported its platform yet, so it cannot be confirmed as '' @ lit p
                          else lit ''the named host reports platform '' @ lit (coalesce reported []) @ lit '', not '' @ lit p]
                       else (lit ''no host has reported platform '' @ lit p)
                         # (if list_ex (\<lambda>c. coalesce (pc_platform c) [] = []) all
                            then [lit ''a host that has not reported its platform yet may match once it is online''] else []))
           in if more = [] then [lit ''no matching host is available''] else more)"

definition matches_target :: "placement_target \<Rightarrow> placement_candidate \<Rightarrow> bool" where
  "matches_target target c \<longleftrightarrow> (case target_host target of None \<Rightarrow> True | Some h \<Rightarrow> pc_hostId c = h)
     \<and> (case target_platform target of None \<Rightarrow> True | Some p \<Rightarrow> toLowerCase (coalesce (pc_platform c) []) = toLowerCase p)"

definition might_match :: "placement_target \<Rightarrow> placement_candidate \<Rightarrow> bool" where
  "might_match target c \<longleftrightarrow> (case target_host target of None \<Rightarrow> True | Some h \<Rightarrow> pc_hostId c = h)
     \<and> (case target_platform target of None \<Rightarrow> True
        | Some p \<Rightarrow> toLowerCase (coalesce (pc_platform c) []) = toLowerCase p \<or> coalesce (pc_platform c) [] = [])"

definition need_reasons :: "placement_context \<Rightarrow> placement_candidate \<Rightarrow> jsstring list" where
  "need_reasons x c =
     (case missingAgent c x of Some bin \<Rightarrow> [lit ''a matching host has no '' @ lit bin @ lit '' CLI''] | None \<Rightarrow> [])
     @ (case missingCapability c x of Some l \<Rightarrow> [lit ''a matching host lacks '' @ lit l] | None \<Rightarrow> [])
     @ (case unsupportedBy c x of Some u \<Rightarrow> [lit (pc_hostId c) @ lit '' does not support '' @ u @ lit '' (update the host)''] | None \<Rightarrow> [])"

definition target_refusal :: "placement_target \<Rightarrow> bool \<Rightarrow> bool \<Rightarrow> jsstring list \<Rightarrow> target_result" where
  "target_refusal target transient unreadable why = Refused (lit ''no eligible host matches '' @ describeTarget target
     @ (if why \<noteq> [] then lit '' ('' @ js_join (lit ''; '') why @ lit '')'' else [])) transient unreadable"

definition target_context :: "fleet \<Rightarrow> placement_project \<Rightarrow> bool \<Rightarrow> launch_needs \<Rightarrow> host_capacity \<Rightarrow> placement_context" where
  "target_context f project unattended launch localCapacity =
     (decide_context f project unattended launch localCapacity)\<lparr>px_allowBurst := True, px_platforms := []\<rparr>"

definition resolveTargetHost :: "num_fns \<Rightarrow> fleet \<Rightarrow> (host_capacity \<times> placement_host_row list) option \<Rightarrow> placement_project
    \<Rightarrow> placement_target \<Rightarrow> bool \<Rightarrow> jsstring option \<Rightarrow> bool \<Rightarrow> launch_needs \<Rightarrow> (target_result \<times> place_log list) option" where
  "resolveTargetHost nf f readings project target unattended requestedBy checkProjectFlags launch =
     (case collectCandidates f readings project of
        None \<Rightarrow> Some (target_refusal target True True [lit ''the host list could not be read''], [LogTargetUnread])
      | Some (localCapacity, candidates) \<Rightarrow>
          let constraints = parsePlacementConstraints (pp_placementConstraints project);
              flagPlatforms = (if checkProjectFlags then cs_platform constraints else []);
              targeted = filter (matches_target target) candidates;
              matching = filter (\<lambda>c. platformFlagState (pc_platform c) flagPlatforms = FlagOk) targeted;
              x = target_context f project unattended launch localCapacity
          in map_option (\<lambda>d.
               if pd_fellBack d then
                 let mightMatch = list_ex (\<lambda>c. could_run x c \<and> platformFlagState (pc_platform c) flagPlatforms \<noteq> FlagForbidden
                       \<and> might_match target c) candidates;
                     why = refusalReasons matching (Some localCapacity) candidates (map_option toLowerCase (target_platform target)) (target_host target)
                       @ concat (map (need_reasons x) matching)
                       @ (if length targeted > length matching then [describePlatformFlag flagPlatforms] else [])
                 in (target_refusal target mightMatch False (js_unique why), [])
               else let d' = d\<lparr>pd_reason := lit ''placed on '' @ describeTarget target @ lit '' at ''
                      @ coalesce requestedBy (lit ''the caller'' @ [39] @ lit ''s request'') @ [32, 8212, 32] @ pd_reason d\<rparr>
                 in (Placed d', [LogTargetChose d'])) (chooseHost nf matching x))"

subsection \<open>What a host must offer\<close>

text \<open>The contract of eligibility, independent of the order in which the code looks for a reason to exclude.
  What a host has not reported (agents, capabilities, protocol) does not count against it.\<close>

definition covers :: "'a list option \<Rightarrow> 'a list \<Rightarrow> bool" where
  "covers known required \<longleftrightarrow> (case known of None \<Rightarrow> True | Some has \<Rightarrow> set required \<subseteq> set has)"

definition protocol_serves :: "placement_context \<Rightarrow> host_protocol \<Rightarrow> bool" where
  "protocol_serves x p \<longleftrightarrow> (hp_legacy p \<or> isProtocolCompatible (pi_protocolVersion p))
     \<and> set (px_requiredOperations x) \<subseteq> set (pi_operations p) \<and> set (px_requiredLaunchOptions x) \<subseteq> set (pi_launchOptions p)"

definition can_serve :: "placement_context \<Rightarrow> placement_candidate \<Rightarrow> bool" where
  "can_serve x c \<longleftrightarrow> (pc_projectCwd c \<noteq> None \<or> pc_needsCheckout c) \<and> covers (pc_agents c) (requiredAgents x)
     \<and> covers (pc_capabilities c) (px_requiredCapabilities x)
     \<and> (case pc_protocol c of None \<Rightarrow> True | Some p \<Rightarrow> protocol_serves x p)"

definition platform_allowed :: "string list \<Rightarrow> placement_candidate \<Rightarrow> bool" where
  "platform_allowed allowed c \<longleftrightarrow> allowed = [] \<or> coalesce (pc_platform c) [] \<noteq> [] \<and> toLowerCase (coalesce (pc_platform c) []) \<in> set allowed"

definition suits :: "placement_context \<Rightarrow> placement_candidate \<Rightarrow> bool" where
  "suits x c \<longleftrightarrow> pc_online c \<and> \<not> pc_drained c \<and> capacityOf c x \<noteq> None \<and> (pc_role c = Some RoleBurst \<longrightarrow> px_allowBurst x)
     \<and> platform_allowed (px_platforms x) c \<and> can_serve x c"

lemma find_None_subset: "find (\<lambda>a. a \<notin> S) xs = None \<longleftrightarrow> set xs \<subseteq> S"
  by (auto simp: find_None_iff)

lemma missing_covers:
  "missingAgent c x = None \<longleftrightarrow> covers (pc_agents c) (requiredAgents x)"
  "missingCapability c x = None \<longleftrightarrow> covers (pc_capabilities c) (px_requiredCapabilities x)"
  by (simp_all add: missingAgent_def missingCapability_def covers_def find_None_subset split: option.splits)

lemma unsupported_serves:
  "unsupportedBy c x = None \<longleftrightarrow> (case pc_protocol c of None \<Rightarrow> True | Some p \<Rightarrow> protocol_serves x p)"
  by (auto simp: unsupportedBy_def protocol_serves_def Let_def filter_empty_conv split: option.splits)

lemma could_run_can_serve: "could_run x c \<longleftrightarrow> can_serve x c"
  by (simp add: could_run_def can_serve_def missing_covers unsupported_serves)

lemma lower_Nil [simp]: "toLowerCase s = [] \<longleftrightarrow> s = []"
  by (simp add: toLowerCase_def)

lemma flag_ok_allowed: "platformFlagState (pc_platform c) allowed = FlagOk \<longleftrightarrow> platform_allowed allowed c"
  by (auto simp: platformFlagState_def platform_allowed_def Let_def)

lemma exclusion_iff_suits: "exclusionReason c x = None \<longleftrightarrow> suits x c"
proof -
  have flag: "platform_allowed (px_platforms x) c \<longleftrightarrow> platformFlagState (pc_platform c) (px_platforms x) \<noteq> FlagForbidden
      \<and> platformFlagState (pc_platform c) (px_platforms x) \<noteq> FlagUnknown"
    unfolding flag_ok_allowed [symmetric] by (cases "platformFlagState (pc_platform c) (px_platforms x)") auto
  show ?thesis
    by (auto simp: exclusionReason_def suits_def could_run_can_serve [symmetric] could_run_def flag Let_def
        split: option.splits)
qed

lemma eligible_suits: "eligible_hosts cs x = filter (suits x) cs"
  by (simp add: eligible_hosts_def exclusion_iff_suits)

lemma excluded_unsuited: "map fst (excluded_hosts cs x) = map pc_hostId (filter (\<lambda>c. \<not> suits x c) cs)"
  by (induction cs) (auto simp: exclusion_iff_suits [symmetric] split: option.splits)

subsection \<open>The policy is total and picks the minimum\<close>

lemma those_map_Some: "list_all (\<lambda>c. g c \<noteq> None) cs \<Longrightarrow> those (map g cs) = Some (map (the \<circ> g) cs)"
  by (induction cs) auto

text \<open>What the least-loaded rule minimises: the load per core, then whether a clone is needed, then the id.\<close>

definition place_key :: "num_fns \<Rightarrow> placement_context \<Rightarrow> placement_candidate \<Rightarrow> rat \<times> bool \<times> nat list" where
  "place_key nf x c = (loadPerCore nf (the (capacityOf c x)), pc_needsCheckout c, lit (pc_hostId c))"

lemma better_key:
  assumes "capacityOf c x = Some a" and "capacityOf b x = Some a'"
  shows "isBetter c (loadPerCore nf a) b (loadPerCore nf a') \<longleftrightarrow> place_key nf x c < place_key nf x b"
  using assms by (auto simp: isBetter_def place_key_def less_prod_def)

lemma best_loop_min:
  assumes "capacityOf b x = Some a" and "list_all (\<lambda>c. capacityOf c x \<noteq> None) cs"
  shows "\<exists>m. best_loop nf x cs b (loadPerCore nf a) = Some (m, loadPerCore nf (the (capacityOf m x))) \<and> m \<in> set (b # cs)
    \<and> (\<forall>c \<in> set (b # cs). place_key nf x m \<le> place_key nf x c)"
  using assms
proof (induction cs arbitrary: b a)
  case (Cons c cs)
  then obtain a' where c: "capacityOf c x = Some a'" by auto
  show ?case
  proof (cases "place_key nf x c < place_key nf x b")
    case True
    moreover obtain m where "best_loop nf x cs c (loadPerCore nf a') = Some (m, loadPerCore nf (the (capacityOf m x)))"
      "m \<in> set (c # cs)" "\<forall>d \<in> set (c # cs). place_key nf x m \<le> place_key nf x d"
      using Cons.IH [OF c] Cons.prems(2) by auto
    ultimately show ?thesis using c Cons.prems(1) by (auto simp: better_key intro!: exI [of _ m])
  next
    case False
    moreover obtain m where "best_loop nf x cs b (loadPerCore nf a) = Some (m, loadPerCore nf (the (capacityOf m x)))"
      "m \<in> set (b # cs)" "\<forall>d \<in> set (b # cs). place_key nf x m \<le> place_key nf x d"
      using Cons.IH [OF Cons.prems(1)] Cons.prems(2) by auto
    ultimately show ?thesis using c Cons.prems(1) by (auto simp: better_key intro!: exI [of _ m])
  qed
qed auto

lemma suits_capacity: "suits x c \<Longrightarrow> \<exists>a. capacityOf c x = Some a"
  by (auto simp: suits_def)

lemma consider_all:
  "those (map (consider_host nf x) (filter (suits x) cs)) = Some (map (the \<circ> consider_host nf x) (filter (suits x) cs))"
  by (rule those_map_Some) (auto simp: list_all_iff consider_host_def dest: suits_capacity)

lemma considered_ids: "map ch_hostId (map (the \<circ> consider_host nf x) (filter (suits x) cs)) = map pc_hostId (filter (suits x) cs)"
  by (auto simp: consider_host_def dest: suits_capacity)

lemma considered_unmarked: "e \<in> set (map (the \<circ> consider_host nf x) (filter (suits x) cs)) \<Longrightarrow> \<not> ch_chosen e"
  by (auto simp: consider_host_def dest: suits_capacity)

lemma mark_ids [simp]: "map ch_hostId (markChosen h hs) = map ch_hostId hs"
  by (simp add: markChosen_def)

text \<open>Which candidate a decision is for: the local one for a human at a local project, else the minimum.\<close>

definition picks :: "num_fns \<Rightarrow> placement_context \<Rightarrow> placement_candidate list \<Rightarrow> placement_candidate \<Rightarrow> bool" where
  "picks nf x es m \<longleftrightarrow> (case (if \<not> px_unattended x \<and> px_pinnedHostId x = LOCAL_HOST_ID then find pc_isLocal es else None) of
       Some l \<Rightarrow> m = l
     | None \<Rightarrow> m \<in> set es \<and> (\<forall>c \<in> set es. place_key nf x m \<le> place_key nf x c))"

lemma picks_member: "picks nf x es m \<Longrightarrow> m \<in> set es"
  by (auto simp: picks_def find_Some_iff split: if_splits option.splits)

lemma decide_least_spec:
  assumes "filter (suits x) cs \<noteq> []"
  shows "\<exists>m d. decide_least nf x (filter (suits x) cs) hs excl = Some d \<and> pd_hostId d = pc_hostId m
    \<and> pd_considered d = markChosen (pc_hostId m) hs \<and> pd_excluded d = excl \<and> \<not> pd_fellBack d \<and> pd_refusal d = None
    \<and> pd_needsCheckout d = pc_needsCheckout m \<and> m \<in> set (filter (suits x) cs)
    \<and> (\<forall>c \<in> set (filter (suits x) cs). place_key nf x m \<le> place_key nf x c)"
proof -
  obtain b bs where es: "filter (suits x) cs = b # bs" using assms by (cases "filter (suits x) cs") auto
  have all: "list_all (\<lambda>c. capacityOf c x \<noteq> None) (b # bs)"
    unfolding es [symmetric] by (auto simp: list_all_iff dest: suits_capacity)
  then obtain a where a: "capacityOf b x = Some a" by auto
  obtain m where m: "best_loop nf x bs b (loadPerCore nf a) = Some (m, loadPerCore nf (the (capacityOf m x)))" "m \<in> set (b # bs)"
    "\<forall>c \<in> set (b # bs). place_key nf x m \<le> place_key nf x c"
    using best_loop_min [OF a, of bs nf] all by auto
  moreover obtain a' where "capacityOf m x = Some a'" using m(2) all by (fastforce simp: list_all_iff)
  ultimately show ?thesis unfolding es using a by (auto simp: decide_least_def intro!: exI [of _ m])
qed

lemma chooseHost_spec:
  "if filter (suits x) cs = [] then \<exists>d. chooseHost nf cs x = Some d \<and> pd_hostId d = px_pinnedHostId x \<and> pd_considered d = []
      \<and> pd_excluded d = excluded_hosts cs x \<and> pd_fellBack d \<and> pd_refusal d = None \<and> \<not> pd_needsCheckout d
   else \<exists>m d. chooseHost nf cs x = Some d \<and> picks nf x (filter (suits x) cs) m \<and> pd_hostId d = pc_hostId m
      \<and> pd_considered d = markChosen (pc_hostId m) (map (the \<circ> consider_host nf x) (filter (suits x) cs))
      \<and> pd_excluded d = excluded_hosts cs x \<and> \<not> pd_fellBack d \<and> pd_refusal d = None \<and> pd_needsCheckout d = pc_needsCheckout m"
proof (cases "filter (suits x) cs = []")
  case True
  then show ?thesis by (simp add: chooseHost_def decideHost_def eligible_suits Let_def)
next
  case False
  let ?local = "if \<not> px_unattended x \<and> px_pinnedHostId x = LOCAL_HOST_ID then find pc_isLocal (filter (suits x) cs) else None"
  show ?thesis
  proof (cases ?local)
    case None
    with decide_least_spec [OF False, of nf "map (the \<circ> consider_host nf x) (filter (suits x) cs)" "excluded_hosts cs x"] False
    show ?thesis unfolding chooseHost_def decideHost_def eligible_suits Let_def consider_all picks_def None option.case
      by fastforce
  next
    case (Some l)
    then show ?thesis using False unfolding chooseHost_def decideHost_def eligible_suits Let_def consider_all picks_def Some option.case
      by auto
  qed
qed

text \<open>
  placement never fails a spawn. The policy always answers; it falls back to the project's own host exactly
  when no candidate suits the session, and otherwise names a candidate that does (online, not parked, measured,
  with the project, the required tools and protocol, on an allowed platform, a burst host only where allowed).
  Every other candidate is listed with a reason, the suitable ones are listed with their load, and exactly the
  entries of the chosen host are marked.
\<close>

theorem placement_never_fails:
  "\<exists>d. chooseHost nf cs x = Some d
    \<and> (if filter (suits x) cs = [] then pd_fellBack d \<and> pd_hostId d = px_pinnedHostId x
       else \<not> pd_fellBack d \<and> pd_hostId d \<in> pc_hostId ` set (filter (suits x) cs))
    \<and> map ch_hostId (pd_considered d) = map pc_hostId (filter (suits x) cs)
    \<and> map fst (pd_excluded d) = map pc_hostId (filter (\<lambda>c. \<not> suits x c) cs)
    \<and> list_all (\<lambda>e. ch_chosen e = (ch_hostId e = pd_hostId d)) (pd_considered d)"
proof (cases "filter (suits x) cs = []")
  case True
  then show ?thesis using chooseHost_spec [of x cs nf] by (auto simp: excluded_unsuited)
next
  case False
  then obtain m d where d: "chooseHost nf cs x = Some d" "picks nf x (filter (suits x) cs) m" "pd_hostId d = pc_hostId m"
      "pd_considered d = markChosen (pc_hostId m) (map (the \<circ> consider_host nf x) (filter (suits x) cs))"
      "pd_excluded d = excluded_hosts cs x" "\<not> pd_fellBack d"
    using chooseHost_spec [of x cs nf] by auto
  have "map ch_hostId (pd_considered d) = map pc_hostId (filter (suits x) cs)"
    by (simp only: d(4) mark_ids considered_ids)
  moreover have "list_all (\<lambda>e. ch_chosen e = (ch_hostId e = pd_hostId d)) (pd_considered d)"
    unfolding d(3,4) markChosen_def using considered_unmarked by (fastforce simp: list_all_iff)
  ultimately show ?thesis using d picks_member [OF d(2)] False by (auto simp: excluded_unsuited)
qed

subsection \<open>The order of the candidates does not matter\<close>

lemma lit_inj: "lit a = lit b \<Longrightarrow> a = b"
  by (auto simp: lit_def inj_on_def dest!: map_injective)

lemma find_unique:
  assumes "mset xs = mset ys" and "\<And>a b. a \<in> set xs \<Longrightarrow> b \<in> set xs \<Longrightarrow> P a \<Longrightarrow> P b \<Longrightarrow> a = b"
  shows "find P xs = find P ys"
proof -
  have set: "set xs = set ys" using assms(1) by (rule mset_eq_setD)
  show ?thesis
  proof (cases "find P xs")
    case None
    then have "find P ys = None" using set by (simp add: find_None_iff)
    with None show ?thesis by simp
  next
    case (Some a)
    then have a: "a \<in> set xs" "P a" by (auto simp: find_Some_iff)
    then obtain b where "find P ys = Some b" using set by (cases "find P ys") (auto simp: find_None_iff)
    then have "b \<in> set ys" "P b" by (auto simp: find_Some_iff)
    then show ?thesis using assms(2) [OF a(1)] a(2) set Some \<open>find P ys = Some b\<close> by auto
  qed
qed

lemma picks_unique:
  assumes "mset es = mset es'" and "inj_on pc_hostId (set es)" and "\<And>c. c \<in> set es \<Longrightarrow> pc_isLocal c \<longleftrightarrow> pc_hostId c = LOCAL_HOST_ID"
    and "picks nf x es m" and "picks nf x es' m'"
  shows "m = m'"
proof -
  have set: "set es = set es'" using assms(1) by (rule mset_eq_setD)
  have "find pc_isLocal es = find pc_isLocal es'"
    by (rule find_unique [OF assms(1)]) (use assms(2,3) in \<open>auto simp: inj_on_def\<close>)
  with assms(4,5) set have "m = m' \<or> m \<in> set es \<and> m' \<in> set es \<and> place_key nf x m = place_key nf x m'"
    by (auto simp: picks_def intro: order_antisym split: option.splits if_splits)
  then show ?thesis using assms(2) by (auto simp: place_key_def dest!: lit_inj dest: inj_onD)
qed

text \<open>
  C26: the least loaded host wins, whatever order the trackers answered in. For an unattended session the chosen
  host has the least load per core among the suitable ones (ties: no clone needed, then the smaller id), and the
  decision for any session depends on the set of candidates only.
\<close>

theorem least_loaded_in_any_order:
  assumes "distinct (map pc_hostId cs)" and "list_all (\<lambda>c. pc_isLocal c = (pc_hostId c = LOCAL_HOST_ID)) cs"
    and "mset cs' = mset cs"
  shows "map_option (\<lambda>d. (pd_hostId d, pd_fellBack d, pd_needsCheckout d)) (chooseHost nf cs' x)
      = map_option (\<lambda>d. (pd_hostId d, pd_fellBack d, pd_needsCheckout d)) (chooseHost nf cs x)
    \<and> (px_unattended x \<and> filter (suits x) cs \<noteq> [] \<longrightarrow>
        (\<exists>m d. chooseHost nf cs x = Some d \<and> pd_hostId d = pc_hostId m \<and> m \<in> set cs \<and> suits x m
          \<and> (\<forall>c \<in> set cs. suits x c \<longrightarrow> place_key nf x m \<le> place_key nf x c)))"
proof -
  let ?es = "filter (suits x) cs" and ?es' = "filter (suits x) cs'"
  have mset: "mset ?es = mset ?es'" using assms(3) by (simp add: mset_filter)
  have nil: "?es = [] \<longleftrightarrow> ?es' = []" using mset by (metis mset_zero_iff)
  have inj: "inj_on pc_hostId (set ?es)" using assms(1) by (auto simp: distinct_map inj_on_def)
  have loc: "\<And>c. c \<in> set ?es \<Longrightarrow> pc_isLocal c \<longleftrightarrow> pc_hostId c = LOCAL_HOST_ID" using assms(2) by (auto simp: list_all_iff)
  show ?thesis
  proof (cases "?es = []")
    case True
    then show ?thesis using chooseHost_spec [of x cs nf] chooseHost_spec [of x cs' nf] nil by auto
  next
    case False
    obtain m d where d: "chooseHost nf cs x = Some d" "picks nf x ?es m" "pd_hostId d = pc_hostId m" "\<not> pd_fellBack d"
        "pd_needsCheckout d = pc_needsCheckout m" using chooseHost_spec [of x cs nf] False by auto
    obtain m' d' where d': "chooseHost nf cs' x = Some d'" "picks nf x ?es' m'" "pd_hostId d' = pc_hostId m'" "\<not> pd_fellBack d'"
        "pd_needsCheckout d' = pc_needsCheckout m'" using chooseHost_spec [of x cs' nf] False nil by auto
    have "m = m'" by (rule picks_unique [OF mset inj loc d(2) d'(2)])
    moreover have "px_unattended x \<Longrightarrow> m \<in> set cs \<and> suits x m \<and> (\<forall>c \<in> set cs. suits x c \<longrightarrow> place_key nf x m \<le> place_key nf x c)"
      using d(2) by (auto simp: picks_def)
    ultimately show ?thesis using d d' by auto
  qed
qed

text \<open>Two remote hosts, one with half the load per core of the other.\<close>

definition demo_numbers :: num_fns where
  "demo_numbers = \<lparr>nf_div = (/), nf_text = (\<lambda>_. []), nf_fixed2 = (\<lambda>_. [])\<rparr>"

definition demo_capacity :: "rat \<Rightarrow> host_capacity" where
  "demo_capacity load = \<lparr>hc_platform = ''linux'', hc_logicalCores = 4, hc_loadAverage1m = load, hc_totalBytes = 1, hc_freeBytes = 1,
     hc_tracked = 0, hc_alive = 0\<rparr>"

definition demo_candidate :: "string \<Rightarrow> rat \<Rightarrow> placement_candidate" where
  "demo_candidate h load = \<lparr>pc_hostId = h, pc_isLocal = False, pc_online = True, pc_drained = False, pc_capacity = Some (demo_capacity load),
     pc_projectCwd = Some ''/p'', pc_needsCheckout = False, pc_noProjectsRoots = False, pc_platform = Some ''linux'', pc_role = None,
     pc_agents = None, pc_capabilities = None, pc_mullionVersion = None, pc_protocol = None\<rparr>"

definition demo_context :: placement_context where
  "demo_context = \<lparr>px_pinnedHostId = LOCAL_HOST_ID, px_unattended = True, px_localCapacity = None, px_allowBurst = False, px_platforms = [],
     px_requiredAgent = NoAgent, px_requiredCapabilities = [], px_requiredLaunchOptions = [], px_requiredOperations = [],
     px_primaryVersion = None\<rparr>"

lemma demo_suits: "suits demo_context (demo_candidate h load)"
  by (simp add: suits_def can_serve_def covers_def platform_allowed_def capacityOf_def demo_context_def demo_candidate_def
      requiredAgents_def)

theorem least_loaded_in_any_order_witness:
  "\<exists>d. chooseHost demo_numbers [demo_candidate ''b'' 1, demo_candidate ''a'' 2] demo_context = Some d \<and> pd_hostId d = ''b''
    \<and> map_option pd_hostId (chooseHost demo_numbers [demo_candidate ''a'' 2, demo_candidate ''b'' 1] demo_context) = Some ''b''"
proof -
  let ?cs = "[demo_candidate ''b'' 1, demo_candidate ''a'' 2]" and ?cs' = "[demo_candidate ''a'' 2, demo_candidate ''b'' 1]"
  have *: "distinct (map pc_hostId ?cs)" "list_all (\<lambda>c. pc_isLocal c = (pc_hostId c = LOCAL_HOST_ID)) ?cs" "mset ?cs' = mset ?cs"
    by (simp_all add: demo_candidate_def LOCAL_HOST_ID_def add_mset_commute)
  have key: "place_key demo_numbers demo_context (demo_candidate h l) = (l / 4, False, lit h)" for h l
    by (simp add: place_key_def capacityOf_def demo_candidate_def demo_capacity_def loadPerCore_def demo_numbers_def)
  from least_loaded_in_any_order [OF *, of demo_numbers demo_context]
  obtain m d where "chooseHost demo_numbers ?cs demo_context = Some d" "pd_hostId d = pc_hostId m" "m \<in> set ?cs"
      "\<forall>c \<in> set ?cs. place_key demo_numbers demo_context m \<le> place_key demo_numbers demo_context c"
    by (auto simp: demo_suits) (auto simp: demo_context_def)
  moreover from this have "m = demo_candidate ''b'' 1" by (auto simp: key)
  ultimately show ?thesis using least_loaded_in_any_order [OF *, of demo_numbers demo_context]
    by (auto simp: demo_candidate_def)
qed

subsection \<open>Steering flags and targets are never overridden\<close>

text \<open>
  a project's steering flags are never overridden. On an automatic project with a platform or capability flag
  the decision always exists and either carries a refusal or names a collected host that suits the session under
  those flags: the silent fallback to the project's own host is only taken with a refusal.
\<close>

theorem flags_never_overridden:
  assumes "pp_auto project"
    and "cs_platform (parsePlacementConstraints (pp_placementConstraints project)) \<noteq> []
      \<or> cs_capabilities (parsePlacementConstraints (pp_placementConstraints project)) \<noteq> []"
  shows "\<exists>d logs. decide_placement nf f readings project unattended announce launch = Some (d, logs)
    \<and> (pd_refusal d \<noteq> None \<longleftrightarrow> pd_fellBack d)
    \<and> (pd_refusal d = None \<longrightarrow> (\<exists>col c. collectCandidates f readings project = Some col \<and> c \<in> set (snd col) \<and> pc_hostId c = pd_hostId d
        \<and> suits (decide_context f project unattended launch (fst col)) c))"
proof (cases "collectCandidates f readings project")
  case None
  then show ?thesis using assms by (auto simp: decide_placement_def Let_def)
next
  case (Some col)
  let ?x = "decide_context f project unattended launch (fst col)"
  obtain d where d: "chooseHost nf (snd col) ?x = Some d"
      "if filter (suits ?x) (snd col) = [] then pd_fellBack d
       else \<not> pd_fellBack d \<and> pd_refusal d = None \<and> (\<exists>m. picks nf ?x (filter (suits ?x) (snd col)) m \<and> pd_hostId d = pc_hostId m)"
    using chooseHost_spec [of ?x "snd col" nf] by (auto split: if_splits)
  show ?thesis
  proof (cases "pd_fellBack d")
    case True
    then show ?thesis using assms Some d(1) by (auto simp: decide_placement_def refuseForFlags_def Let_def)
  next
    case False
    then obtain m where "picks nf ?x (filter (suits ?x) (snd col)) m" "pd_hostId d = pc_hostId m" "pd_refusal d = None"
      using d(2) by (auto split: if_splits)
    with picks_member [OF this(1)] show ?thesis using assms Some d(1) False
      by (auto simp: decide_placement_def Let_def intro!: bexI [of _ m])
  qed
qed

definition demo_project :: placement_project where
  "demo_project = \<lparr>pp_hostId = LOCAL_HOST_ID, pp_auto = True, pp_cwd = Some ''/p'', pp_hostCwds = None,
     pp_placementConstraints = Some (Parsed (JObj [(''platform'', JArr [JStr ''darwin''])]))\<rparr>"

definition demo_fleet :: fleet where
  "demo_fleet = \<lparr>fl_heartbeats = Some [], fl_capacities = Some [], fl_agents = None, fl_localRoots = Some [], fl_appVersion = ''1.2.3'',
     fl_origin = (\<lambda>_ _. None)\<rparr>"

definition demo_launch :: launch_needs where
  "demo_launch = \<lparr>ln_requiredAgent = NoAgent, ln_requiredLaunchOptions = [], ln_requiredOperations = []\<rparr>"

theorem flags_never_overridden_witness:
  "\<exists>d logs. decide_placement demo_numbers demo_fleet None demo_project True True demo_launch = Some (d, logs) \<and> pd_refusal d \<noteq> None"
proof -
  have "cs_platform (parsePlacementConstraints (pp_placementConstraints demo_project)) \<noteq> []"
    by (simp add: demo_project_def parsePlacementConstraints_def listed_def js_field_def PLACEMENT_PLATFORMS_def includes_str_def)
  moreover have "pp_auto demo_project" by (simp add: demo_project_def)
  ultimately show ?thesis
    using flags_never_overridden [of demo_project demo_numbers demo_fleet None True True demo_launch]
    by (auto simp: collectCandidates_def)
qed

definition flag_platforms :: "placement_project \<Rightarrow> bool \<Rightarrow> string list" where
  "flag_platforms project checkProjectFlags =
     (if checkProjectFlags then cs_platform (parsePlacementConstraints (pp_placementConstraints project)) else [])"

text \<open>What a targeted placement decides, in terms of the contract.\<close>

lemma resolveTargetHost_spec:
  fixes unattended checkProjectFlags and launch :: launch_needs
  assumes "collectCandidates f readings project = Some (lc, cs)"
  defines "x \<equiv> target_context f project unattended launch lc" and "ps \<equiv> flag_platforms project checkProjectFlags"
  shows "\<exists>r logs. resolveTargetHost nf f readings project target unattended requestedBy checkProjectFlags launch = Some (r, logs)
    \<and> (if filter (\<lambda>c. matches_target target c \<and> platform_allowed ps c \<and> suits x c) cs = []
       then \<exists>detail. r = Refused detail (list_ex (\<lambda>c. can_serve x c \<and> platformFlagState (pc_platform c) ps \<noteq> FlagForbidden
         \<and> might_match target c) cs) False
       else \<exists>d c. r = Placed d \<and> c \<in> set cs \<and> pc_hostId c = pd_hostId d \<and> matches_target target c \<and> platform_allowed ps c \<and> suits x c)"
proof -
  let ?matching = "filter (\<lambda>c. platformFlagState (pc_platform c) ps = FlagOk) (filter (matches_target target) cs)"
  have es: "filter (suits x) ?matching = filter (\<lambda>c. matches_target target c \<and> platform_allowed ps c \<and> suits x c) cs"
    by (simp add: flag_ok_allowed conj_ac)
  obtain d where d: "chooseHost nf ?matching x = Some d" "if filter (suits x) ?matching = [] then pd_fellBack d
      else \<not> pd_fellBack d \<and> (\<exists>m. picks nf x (filter (suits x) ?matching) m \<and> pd_hostId d = pc_hostId m)"
    using chooseHost_spec [of x ?matching nf] by (auto split: if_splits)
  show ?thesis
  proof (cases "pd_fellBack d")
    case True
    with d(2) have nil: "filter (\<lambda>c. matches_target target c \<and> platform_allowed ps c \<and> suits x c) cs = []"
      unfolding es by (auto split: if_splits)
    obtain why where "resolveTargetHost nf f readings project target unattended requestedBy checkProjectFlags launch
        = Some (target_refusal target (list_ex (\<lambda>c. could_run x c \<and> platformFlagState (pc_platform c) ps \<noteq> FlagForbidden
            \<and> might_match target c) cs) False why, [])"
      using assms(1) d(1) True unfolding x_def ps_def flag_platforms_def by (simp add: resolveTargetHost_def Let_def)
    then show ?thesis unfolding if_P [OF nil] by (simp add: target_refusal_def could_run_can_serve)
  next
    case False
    with d(2) obtain m where m: "picks nf x (filter (suits x) ?matching) m" "pd_hostId d = pc_hostId m" by (auto split: if_splits)
    from picks_member [OF this(1)] have "m \<in> set (filter (\<lambda>c. matches_target target c \<and> platform_allowed ps c \<and> suits x c) cs)"
      unfolding es .
    moreover obtain reason where "resolveTargetHost nf f readings project target unattended requestedBy checkProjectFlags launch
        = Some (Placed (d\<lparr>pd_reason := reason\<rparr>), [LogTargetChose (d\<lparr>pd_reason := reason\<rparr>)])"
      using assms(1) d(1) False unfolding x_def ps_def flag_platforms_def by (simp add: resolveTargetHost_def Let_def)
    ultimately show ?thesis using m(2) by (auto simp: filter_empty_conv intro!: exI [of _ m])
  qed
qed

text \<open>
  a named target is a hard requirement. The answer always exists; a placement is on a collected host that is the
  named host, reports the named platform, is on a platform the project allows (when its flags are checked) and suits
  the session; anything else is a refusal, and it is given exactly when no such host was collected.
\<close>

theorem target_is_met_or_refused:
  "\<exists>r logs. resolveTargetHost nf f readings project target unattended requestedBy checkProjectFlags launch = Some (r, logs)
    \<and> (case collectCandidates f readings project of
         None \<Rightarrow> \<exists>detail. r = Refused detail True True
       | Some (lc, cs) \<Rightarrow>
           let fit = filter (\<lambda>c. matches_target target c \<and> platform_allowed (flag_platforms project checkProjectFlags) c
                 \<and> suits (target_context f project unattended launch lc) c) cs
           in case r of Placed d \<Rightarrow> pd_hostId d \<in> pc_hostId ` set fit
              | Refused detail transient unreadable \<Rightarrow> fit = [] \<and> \<not> unreadable)"
proof (cases "collectCandidates f readings project")
  case None
  then show ?thesis by (simp add: resolveTargetHost_def target_refusal_def)
next
  case (Some col)
  obtain lc cs where col: "col = (lc, cs)" by fastforce
  from resolveTargetHost_spec [OF Some [unfolded col], of nf target unattended requestedBy checkProjectFlags launch]
  show ?thesis unfolding Some col option.case prod.case
    by (auto simp: Let_def split: if_splits; force)
qed

subsection \<open>When waiting cannot help\<close>

text \<open>What waiting can change of a candidate: it comes online, is unparked, reports a capacity, or reports its platform
  for the first time.\<close>

definition waited :: "placement_candidate \<Rightarrow> placement_candidate \<Rightarrow> bool" where
  "waited c c' \<longleftrightarrow> c' = c\<lparr>pc_online := pc_online c', pc_drained := pc_drained c', pc_capacity := pc_capacity c',
     pc_platform := (if coalesce (pc_platform c) [] = [] then pc_platform c' else pc_platform c)\<rparr>"

lemma waited_fields:
  assumes "waited c c'"
  shows "pc_hostId c' = pc_hostId c" "can_serve x c' = can_serve x c"
    "coalesce (pc_platform c) [] \<noteq> [] \<Longrightarrow> pc_platform c' = pc_platform c"
proof -
  define a b d e where "a = pc_online c'" and "b = pc_drained c'" and "d = pc_capacity c'"
    and "e = (if coalesce (pc_platform c) [] = [] then pc_platform c' else pc_platform c)"
  have "c' = c\<lparr>pc_online := a, pc_drained := b, pc_capacity := d, pc_platform := e\<rparr>"
    using assms unfolding waited_def a_def b_def d_def e_def .
  then show "pc_hostId c' = pc_hostId c" "can_serve x c' = can_serve x c"
    by (simp_all add: can_serve_def)
  show "coalesce (pc_platform c) [] \<noteq> [] \<Longrightarrow> pc_platform c' = pc_platform c"
    using \<open>c' = _\<close> arg_cong [OF \<open>c' = _\<close>, of pc_platform] by (simp add: e_def)
qed

lemma matches_might: "matches_target target c \<Longrightarrow> might_match target c"
  by (auto simp: matches_target_def might_match_def split: option.splits)

lemma can_serve_context: "can_serve (target_context f project u launch lc) c = can_serve (target_context f' project u' launch lc') c"
  by (simp add: can_serve_def target_context_def decide_context_def requiredAgents_def protocol_serves_def Let_def split: option.splits)

text \<open>
  a refusal that is not transient is final. If a target is refused with \<open>transient\<close> false, then no later reading of
  the fleet in which the same hosts came online, were unparked, reported a capacity or reported a platform they had not
  reported before turns the answer into a placement, or into a transient refusal.
\<close>

theorem final_refusal_is_final:
  assumes "collectCandidates f readings project = Some col" and "collectCandidates f' readings' project = Some col'"
    and "list_all2 waited (snd col) (snd col')"
    and "resolveTargetHost nf f readings project target unattended requestedBy checkProjectFlags launch = Some (Refused detail False unreadable, logs)"
  shows "\<exists>detail' logs'. resolveTargetHost nf f' readings' project target unattended requestedBy checkProjectFlags launch
    = Some (Refused detail' False False, logs')"
proof -
  let ?ps = "flag_platforms project checkProjectFlags"
  obtain lc cs lc' cs' where col: "col = (lc, cs)" "col' = (lc', cs')" by fastforce
  let ?x = "target_context f project unattended launch lc" and ?x' = "target_context f' project unattended launch lc'"
  let ?hope = "\<lambda>x c. can_serve x c \<and> platformFlagState (pc_platform c) ?ps \<noteq> FlagForbidden \<and> might_match target c"
  have none: "\<not> list_ex (?hope ?x) cs"
    using resolveTargetHost_spec [OF assms(1) [unfolded col], of nf target unattended requestedBy checkProjectFlags launch] assms(4)
    by (auto split: if_splits)
  have hopeless: "\<not> ?hope ?x' c'" if c': "c' \<in> set cs'" for c'
  proof -
    obtain i where i: "i < length cs'" "c' = cs' ! i" using c' by (auto simp: in_set_conv_nth)
    then have c: "cs ! i \<in> set cs" "waited (cs ! i) c'" using assms(3) col by (auto simp: list_all2_conv_all_nth)
    define c where "c = cs ! i"
    note c = c [folded c_def]
    then have "\<not> ?hope ?x c" using none by (auto simp: list_ex_iff)
    moreover have "?hope ?x c" if "?hope ?x' c'"
      using that waited_fields [OF c(2)] can_serve_context [of f' project unattended launch lc' _ f unattended lc]
      by (cases "coalesce (pc_platform c) [] = []") (auto simp: might_match_def platformFlagState_def Let_def split: option.splits if_splits)
    ultimately show ?thesis by blast
  qed
  have "\<not> (matches_target target c' \<and> platform_allowed ?ps c' \<and> suits ?x' c')" if "c' \<in> set cs'" for c'
    using hopeless [OF that] matches_might [of target c'] by (auto simp: suits_def flag_ok_allowed [symmetric])
  then have "filter (\<lambda>c. matches_target target c \<and> platform_allowed ?ps c \<and> suits ?x' c) cs' = []" by (auto simp: filter_empty_conv)
  moreover have "\<not> list_ex (?hope ?x') cs'" using hopeless by (auto simp: list_ex_iff)
  ultimately show ?thesis
    using resolveTargetHost_spec [OF assms(2) [unfolded col], of nf target unattended requestedBy checkProjectFlags launch] by auto
qed

theorem final_refusal_is_final_witness:
  "\<exists>detail' logs'. resolveTargetHost demo_numbers demo_fleet (Some (demo_capacity 2, [])) demo_project (TargetHost ''gone'' None) True None True
    demo_launch = Some (Refused detail' False False, logs')"
proof -
  have c: "collectCandidates demo_fleet (Some (demo_capacity l, [])) demo_project = Some (demo_capacity l, [])" for l
    by (simp add: collectCandidates_def)
  from resolveTargetHost_spec [OF c [of 1], of demo_numbers "TargetHost ''gone'' None" True None True demo_launch]
  obtain detail logs where "resolveTargetHost demo_numbers demo_fleet (Some (demo_capacity 1, [])) demo_project (TargetHost ''gone'' None) True None True
      demo_launch = Some (Refused detail False False, logs)" by auto
  from final_refusal_is_final [OF c c _ this] show ?thesis by simp
qed

subsection \<open>The columns round-trip\<close>

lemma cwds_kept: "list_all (\<lambda>(_, cwd). \<not> blank cwd) es \<Longrightarrow>
  put_cwds (map (\<lambda>(h, cwd). (h, JStr cwd)) es) out = foldl (\<lambda>m (h, cwd). jm_set h cwd m) out es"
  by (induction es arbitrary: out) auto

text \<open>
  A project's placement columns survive being stored. Reading back the serialized per-host path map gives every host
  its path except the blank ones, and reading back serialized steering flags gives exactly the known platforms and
  capabilities that were asked for and the burst switch; what is malformed reads as no paths and no flags.
\<close>

theorem placement_columns_roundtrip:
  assumes "jm_wf m"
  shows "jm_get (parseHostCwds (serializeHostCwds (Some m))) h
      = (case jm_get m h of Some cwd \<Rightarrow> if blank cwd then None else Some cwd | None \<Rightarrow> None)
    \<and> parsePlacementConstraints (serializePlacementConstraints (Some i))
      = \<lparr>cs_platform = filter (\<lambda>p. p \<in> set (coalesce (ci_platform i) [])) PLACEMENT_PLATFORMS,
         cs_allowBurst = (ci_allowBurst i = Some True),
         cs_capabilities = filter (\<lambda>c. c \<in> set (coalesce (ci_capabilities i) [])) PLACEMENT_CAPABILITIES\<rparr>
    \<and> parseHostCwds (Some Garbage) = [] \<and> parsePlacementConstraints (Some Garbage) = parsePlacementConstraints None"
proof (intro conjI)
  let ?es = "filter (\<lambda>(_, cwd). \<not> blank cwd) m"
  have wf: "jm_wf ?es" using assms by (rule jm_wf_filter)
  have "parseHostCwds (serializeHostCwds (Some m)) = foldl (\<lambda>m (h, cwd). jm_set h cwd m) [] ?es"
    using cwds_kept [of ?es "[]"] by (simp add: parseHostCwds_def serializeHostCwds_def Let_def list_all_iff)
  then show "jm_get (parseHostCwds (serializeHostCwds (Some m))) h
      = (case jm_get m h of Some cwd \<Rightarrow> if blank cwd then None else Some cwd | None \<Rightarrow> None)"
    using get_put_all [OF wf [unfolded jm_wf_def], of "[]" h] jm_get_filter [OF assms, of "\<lambda>(_, cwd). \<not> blank cwd" h]
    by (simp add: jm_get_def split: option.splits)
  have known: "filter (includes_str (map JStr (filter P vs))) vs = filter P vs" for P and vs :: "string list"
    by (rule filter_cong) (auto simp: includes_str_def)
  show "parsePlacementConstraints (serializePlacementConstraints (Some i))
      = \<lparr>cs_platform = filter (\<lambda>p. p \<in> set (coalesce (ci_platform i) [])) PLACEMENT_PLATFORMS,
         cs_allowBurst = (ci_allowBurst i = Some True),
         cs_capabilities = filter (\<lambda>c. c \<in> set (coalesce (ci_capabilities i) [])) PLACEMENT_CAPABILITIES\<rparr>"
    by (auto simp: parsePlacementConstraints_def serializePlacementConstraints_def Let_def js_field_def listed_def known)
qed (simp_all add: parseHostCwds_def parsePlacementConstraints_def)

theorem placement_columns_roundtrip_witness:
  "jm_get (parseHostCwds (serializeHostCwds (Some [(''mac'', ''/p''), (''pi'', '' '')]))) ''mac'' = Some ''/p''"
  using placement_columns_roundtrip [of "[(''mac'', ''/p''), (''pi'', '' '')]" "''mac''"
      "\<lparr>ci_platform = None, ci_allowBurst = None, ci_capabilities = None\<rparr>"]
  by (simp add: jm_wf_def jm_get_def blank_def lit_def js_trim_def js_space_def)

subsection \<open>Two answers that say more, or less, than they should\<close>

definition demo_row :: "string option \<Rightarrow> placement_host_row" where
  "demo_row platform = \<lparr>ph_id = ''m7'', ph_drained = False, ph_role = RoleWorker, ph_platform = platform\<rparr>"

text \<open>The refusal of a target carries the id of every matching host whose protocol lacks something the launch needs, also of
  hosts the caller of a platform target did not name.\<close>

lemma sublist_inside: "sublist r u \<Longrightarrow> sublist r (a @ u @ b)"
  unfolding sublist_def by (metis append.assoc)

lemma sublist_join: "r \<in> set ls \<Longrightarrow> sublist r (js_join sep ls)"
proof (induction sep ls rule: js_join.induct)
  case (3 sep s t ss)
  then show ?case using sublist_inside [of r s "[]" "sep @ js_join sep (t # ss)"] sublist_inside [of r _ "s @ sep" "[]"] by auto
qed auto

lemma need_reason_names_host:
  "unsupportedBy c x = Some u \<Longrightarrow> \<exists>tail. lit (pc_hostId c) @ tail \<in> set (need_reasons x c)"
  by (auto simp: need_reasons_def)

lemma refusal_names_hosts:
  assumes "collectCandidates f readings project = Some (lc, cs)" and "c \<in> set cs" and "matches_target target c"
    and "platform_allowed (flag_platforms project checkProjectFlags) c"
    and "unsupportedBy c (target_context f project unattended launch lc) = Some u"
    and "resolveTargetHost nf f readings project target unattended requestedBy checkProjectFlags launch = Some (Refused detail transient unreadable, logs)"
  shows "sublist (lit (pc_hostId c)) detail"
proof -
  let ?x = "target_context f project unattended launch lc"
  let ?matching = "filter (\<lambda>c. platformFlagState (pc_platform c) (flag_platforms project checkProjectFlags) = FlagOk)
      (filter (matches_target target) cs)"
  have c: "c \<in> set ?matching" using assms(2-4) by (simp add: flag_ok_allowed)
  let ?why = "refusalReasons ?matching (Some lc) cs (map_option toLowerCase (target_platform target)) (target_host target)
      @ concat (map (need_reasons ?x) ?matching)
      @ (if length (filter (matches_target target) cs) > length ?matching
         then [describePlatformFlag (flag_platforms project checkProjectFlags)] else [])"
  obtain d where d: "chooseHost nf ?matching ?x = Some d" using chooseHost_spec [of ?x ?matching nf] by (auto split: if_splits)
  have "pd_fellBack d" using assms(1,6) d unfolding flag_platforms_def
    by (cases "pd_fellBack d") (simp_all add: resolveTargetHost_def Let_def del: filter_filter)
  then have "\<exists>t. target_refusal target t False (js_unique ?why) = Refused detail transient unreadable"
    using assms(1,6) d unfolding flag_platforms_def by (auto simp add: resolveTargetHost_def Let_def simp del: filter_filter)
  then obtain t where d: "Refused detail transient unreadable = target_refusal target t False (js_unique ?why)" by metis
  obtain tail where "lit (pc_hostId c) @ tail \<in> set (need_reasons ?x c)" using need_reason_names_host [OF assms(5)] by blast
  with c have r: "lit (pc_hostId c) @ tail \<in> set (js_unique ?why)" by auto
  from sublist_order.order.trans [OF sublist_append_rightI sublist_join [OF r]]
  have "sublist (lit (pc_hostId c)) (js_join (lit ''; '') (js_unique ?why))" .
  note join = sublist_inside [OF this, of "lit ''no eligible host matches '' @ describeTarget target @ lit '' (''" "lit '')''"]
  have "js_unique ?why \<noteq> []" using r by (metis empty_iff list.set(1))
  then have "detail = (lit ''no eligible host matches '' @ describeTarget target @ lit '' ('')
      @ js_join (lit ''; '') (js_unique ?why) @ lit '')''"
    using d unfolding target_refusal_def by (simp only: if_True target_result.inject simp_thms append.assoc)
  with join show ?thesis by (simp only:)
qed

text \<open>A platform target the project's own flag rules out is still reported as transient while some host has not reported
  its platform, although whatever that host reports, the target and the flag cannot both be met.\<close>

lemma hold_without_prospect:
  assumes "collectCandidates f readings project = Some (lc, cs)" and "target_platform target = Some p"
    and "flag_platforms project True = ps" and "ps \<noteq> []" and "toLowerCase p \<notin> set ps"
    and "c \<in> set cs" and "pc_platform c = None" and "can_serve (target_context f project unattended launch lc) c" and "target_host target = None"
  shows "\<exists>detail logs. resolveTargetHost nf f readings project target unattended requestedBy True launch = Some (Refused detail True False, logs)
    \<and> (\<forall>c'. \<not> (matches_target target c' \<and> platform_allowed ps c'))"
proof -
  have never: "\<not> (matches_target target c' \<and> platform_allowed ps c')" for c'
    using assms(2,4,5) by (auto simp: matches_target_def platform_allowed_def)
  then have nil: "filter (\<lambda>c. matches_target target c \<and> platform_allowed (flag_platforms project True) c
      \<and> suits (target_context f project unattended launch lc) c) cs = []" using assms(3) by (auto simp: filter_empty_conv)
  have "platformFlagState (pc_platform c) (flag_platforms project True) = FlagUnknown"
    using assms(3,4,7) by (simp add: platformFlagState_def coalesce_def toLowerCase_def)
  moreover have "might_match target c" using assms(2,7,9) by (simp add: might_match_def coalesce_def)
  ultimately have "list_ex (\<lambda>c. can_serve (target_context f project unattended launch lc) c
      \<and> platformFlagState (pc_platform c) (flag_platforms project True) \<noteq> FlagForbidden \<and> might_match target c) cs"
    using assms(6,8) by (auto simp: list_ex_iff)
  then show ?thesis
    using resolveTargetHost_spec [OF assms(1), of nf target unattended requestedBy True launch] never unfolding if_P [OF nil] by auto
qed

end
