(* ===== verification/Guards.thy ===== *)
theory Guards
  imports MessageFrame "HOL-Library.Sublist"
begin

section \<open>Guards: addresses the server may connect to, paths it may touch\<close>

text \<open>
  \<open>src/services/url-guard.ts\<close> (which IP addresses a policy allows), \<open>src/services/pinned-connect.ts\<close> (the lookup that
  validates every resolved address before a socket is opened, and the search for a block in a chain of errors) and
  \<open>src/services/safe-path.ts\<close> (paths that must stay below a root). The URL parser, the resolver and \<open>realpathSync\<close> are
  arguments. Paths are POSIX paths; \<open>path.resolve\<close>, \<open>path.join\<close> and \<open>path.dirname\<close> are written out on their segments,
  and \<open>process.cwd()\<close>, which is absolute, is the argument \<open>cwd\<close>.
\<close>

subsection \<open>IPv4 literals\<close>

type_synonym octets = "nat \<times> nat \<times> nat \<times> nat"

record url_policy =
  up_allowLoopback :: bool
  up_allowPrivate :: bool

definition dec3 :: "jsstring \<Rightarrow> bool" where
  "dec3 s \<longleftrightarrow> s \<noteq> [] \<and> length s \<le> 3 \<and> list_all (\<lambda>c. 48 \<le> c \<and> c \<le> 57) s"

fun dec_value :: "jsstring \<Rightarrow> nat \<Rightarrow> nat" where
  "dec_value [] acc = acc"
| "dec_value (c # s) acc = dec_value s (acc * 10 + (c - 48))"

text \<open>\<open>IPV4_LITERAL\<close>: four groups of one to three digits.\<close>

definition dotted_quad :: "jsstring \<Rightarrow> bool" where
  "dotted_quad s \<longleftrightarrow> length (js_split 46 s) = 4 \<and> list_all dec3 (js_split 46 s)"

definition ipv4Octets :: "jsstring \<Rightarrow> octets option" where
  "ipv4Octets hostname =
     (if \<not> dotted_quad hostname then None
      else case map (\<lambda>g. dec_value g 0) (js_split 46 hostname) of
        [a, b, c, d] \<Rightarrow> if list_ex (\<lambda>v. v > 255) [a, b, c, d] then None else Some (a, b, c, d)
      | _ \<Rightarrow> None)"

definition isLinkLocalOrSharedNatIPv4 :: "octets \<Rightarrow> bool" where
  "isLinkLocalOrSharedNatIPv4 os = (case os of (a, b, _, _) \<Rightarrow> a = 169 \<and> b = 254 \<or> a = 100 \<and> b \<ge> 64 \<and> b \<le> 127)"

definition isLoopbackIPv4 :: "octets \<Rightarrow> bool" where
  "isLoopbackIPv4 os = (case os of (a, _, _, _) \<Rightarrow> a = 127)"

definition isPrivateIPv4 :: "octets \<Rightarrow> bool" where
  "isPrivateIPv4 os = (case os of (a, b, _, _) \<Rightarrow> a = 10 \<or> a = 172 \<and> b \<ge> 16 \<and> b \<le> 31 \<or> a = 192 \<and> b = 168 \<or> a = 0)"

definition isBlockedIPv4 :: "octets \<Rightarrow> url_policy \<Rightarrow> bool" where
  "isBlockedIPv4 os policy \<longleftrightarrow> isLinkLocalOrSharedNatIPv4 os \<or> \<not> up_allowLoopback policy \<and> isLoopbackIPv4 os
     \<or> \<not> up_allowPrivate policy \<and> isPrivateIPv4 os"

subsection \<open>IPv6 literals\<close>

definition is_hex :: "nat \<Rightarrow> bool" where
  "is_hex c \<longleftrightarrow> 48 \<le> c \<and> c \<le> 57 \<or> 97 \<le> c \<and> c \<le> 102"

text \<open>The patterns are applied to lower-cased addresses.\<close>

definition ipv6_link_local :: "jsstring \<Rightarrow> bool" where
  "ipv6_link_local s = (case s of a # b # c # d # e # _ \<Rightarrow> a = 102 \<and> b = 101 \<and> c \<in> {56, 57, 97, 98} \<and> is_hex d \<and> e = 58 | _ \<Rightarrow> False)"

definition ipv6_unique_local :: "jsstring \<Rightarrow> bool" where
  "ipv6_unique_local s = (case s of a # b # c # d # e # _ \<Rightarrow> a = 102 \<and> b \<in> {99, 100} \<and> is_hex c \<and> is_hex d \<and> e = 58 | _ \<Rightarrow> False)"

definition IPV6_IMDS_FORMS :: "jsstring list" where
  "IPV6_IMDS_FORMS = [lit ''fd00:ec2::254'', lit ''fd00:ec2:0:0:0:0:0:254'', lit ''fd00:ec2:0000:0000:0000:0000:0000:0254'']"

definition hex_group :: "jsstring \<Rightarrow> bool" where
  "hex_group g \<longleftrightarrow> g \<noteq> [] \<and> length g \<le> 4 \<and> list_all is_hex g"

fun hex_value :: "jsstring \<Rightarrow> nat \<Rightarrow> nat" where
  "hex_value [] acc = acc"
| "hex_value (c # s) acc = hex_value s (acc * 16 + (if c \<le> 57 then c - 48 else c - 87))"

definition embedded_hex :: "jsstring \<Rightarrow> jsstring \<Rightarrow> octets option" where
  "embedded_hex x y =
     (if hex_group x \<and> hex_group y
      then let g1 = hex_value x 0; g2 = hex_value y 0 in Some (g1 div 256 mod 256, g1 mod 256, g2 div 256 mod 256, g2 mod 256)
      else None)"

definition ipv6EmbeddedIPv4Octets :: "jsstring \<Rightarrow> octets option" where
  "ipv6EmbeddedIPv4Octets addr =
     (if take 2 addr \<noteq> [58, 58] then None
      else let rest = drop 2 addr; inner = drop 5 rest in
        if take 5 rest = lit ''ffff:'' \<and> dotted_quad inner then ipv4Octets inner
        else if dotted_quad rest then ipv4Octets rest
        else case js_split 58 rest of
          [x, y] \<Rightarrow> embedded_hex x y
        | [p, x, y] \<Rightarrow> if p = lit ''ffff'' then embedded_hex x y else None
        | _ \<Rightarrow> None)"

definition isBlockedIPv6Address :: "jsstring \<Rightarrow> url_policy \<Rightarrow> bool" where
  "isBlockedIPv6Address address policy =
     (let addr = takeWhile (\<lambda>c. c \<noteq> 37) (map lower_unit address) in
      ipv6_link_local addr \<or> addr \<in> set IPV6_IMDS_FORMS
      \<or> \<not> up_allowLoopback policy \<and> (addr = lit ''::1'' \<or> addr = lit ''::'')
      \<or> \<not> up_allowPrivate policy \<and> ipv6_unique_local addr
      \<or> (case ipv6EmbeddedIPv4Octets addr of Some os \<Rightarrow> isBlockedIPv4 os policy | None \<Rightarrow> False))"

definition isBlockedIPv6 :: "jsstring \<Rightarrow> url_policy \<Rightarrow> bool" where
  "isBlockedIPv6 hostname policy =
     (if hostname \<noteq> [] \<and> hd hostname = 91 \<and> last hostname = 93 then isBlockedIPv6Address (butlast (tl hostname)) policy else False)"

definition isAllowedIpAddress :: "jsstring \<Rightarrow> url_policy \<Rightarrow> bool" where
  "isAllowedIpAddress address policy =
     (case ipv4Octets address of Some os \<Rightarrow> \<not> isBlockedIPv4 os policy | None \<Rightarrow> \<not> isBlockedIPv6Address address policy)"

text \<open>\<open>parse_url\<close> is \<open>new URL\<close>: the protocol and the hostname, \<open>None\<close> where it throws.\<close>

definition isAllowedHttpUrl :: "(jsstring \<Rightarrow> (jsstring \<times> jsstring) option) \<Rightarrow> jsstring \<Rightarrow> url_policy \<Rightarrow> bool" where
  "isAllowedHttpUrl parse_url url policy =
     (case parse_url url of None \<Rightarrow> False
      | Some (protocol, hostname) \<Rightarrow>
          (protocol = lit ''http:'' \<or> protocol = lit ''https:'')
          \<and> \<not> (case ipv4Octets hostname of Some os \<Rightarrow> isBlockedIPv4 os policy | None \<Rightarrow> False)
          \<and> \<not> isBlockedIPv6 hostname policy)"

subsection \<open>The pinned lookup\<close>

datatype resolver_answer = ResolverError | Addresses "(jsstring \<times> nat) list"
datatype lookup_result = LookupFailed | LookupEmpty | SsrfBlocked jsstring jsstring | LookupAll "(jsstring \<times> nat) list" | LookupOne jsstring nat

definition createPinnedLookup :: "url_policy \<Rightarrow> jsstring \<Rightarrow> bool \<Rightarrow> resolver_answer \<Rightarrow> lookup_result" where
  "createPinnedLookup policy hostname all answer =
     (case answer of ResolverError \<Rightarrow> LookupFailed
      | Addresses [] \<Rightarrow> LookupEmpty
      | Addresses ((address, family) # rest) \<Rightarrow>
          (case find (\<lambda>(a, _). \<not> isAllowedIpAddress a policy) ((address, family) # rest) of
             Some (bad, _) \<Rightarrow> SsrfBlocked hostname bad
           | None \<Rightarrow> if all then LookupAll ((address, family) # rest) else LookupOne address family))"

text \<open>\<open>assertAllowedUrl\<close>: \<open>None\<close> is returning, \<open>Some\<close> the error's hostname and address.\<close>

definition assertAllowedUrl :: "(jsstring \<Rightarrow> (jsstring \<times> jsstring) option) \<Rightarrow> jsstring \<Rightarrow> url_policy \<Rightarrow> (jsstring \<times> jsstring) option" where
  "assertAllowedUrl parse_url value policy =
     (if isAllowedHttpUrl parse_url value policy then None
      else let hostname = (case parse_url value of Some (_, h) \<Rightarrow> h | None \<Rightarrow> value) in Some (hostname, hostname))"

text \<open>Errors are objects in a store, since a \<open>cause\<close> chain can be cyclic. A value that is not an object is \<open>EPrim\<close>;
  \<open>eo_errors\<close> is the array of an \<open>AggregateError\<close>, \<open>eo_cause\<close> is \<open>None\<close> where it is \<open>undefined\<close>.\<close>

datatype err_val = EPrim | ERef nat

record err_obj =
  eo_block :: bool
  eo_errors :: "err_val list"
  eo_cause :: "err_val option"

function findSsrfBlock :: "(nat \<Rightarrow> err_obj) \<Rightarrow> err_val \<Rightarrow> nat \<Rightarrow> nat option"
  and find_nested :: "(nat \<Rightarrow> err_obj) \<Rightarrow> err_val list \<Rightarrow> nat \<Rightarrow> nat option" where
  "findSsrfBlock st v depth =
     (case v of EPrim \<Rightarrow> None
      | ERef r \<Rightarrow>
          if depth > 5 then None
          else if eo_block (st r) then Some r
          else case find_nested st (eo_errors (st r)) (depth + 1) of
            Some found \<Rightarrow> Some found
          | None \<Rightarrow> (case eo_cause (st r) of None \<Rightarrow> None | Some c \<Rightarrow> findSsrfBlock st c (depth + 1)))"
| "find_nested st [] depth = None"
| "find_nested st (v # vs) depth =
     (case findSsrfBlock st v depth of Some found \<Rightarrow> Some found | None \<Rightarrow> find_nested st vs depth)"
  by pat_completeness auto
termination
  by (relation "measures [\<lambda>x. case x of Inl (_, _, d) \<Rightarrow> 7 - d | Inr (_, _, d) \<Rightarrow> 7 - d,
      \<lambda>x. case x of Inl _ \<Rightarrow> 0 | Inr (_, vs, _) \<Rightarrow> Suc (length vs)]") auto

declare findSsrfBlock.simps [simp del]

subsection \<open>Paths\<close>

definition norm_step :: "jsstring list \<Rightarrow> jsstring \<Rightarrow> jsstring list" where
  "norm_step acc s = (if s = [] \<or> s = [46] then acc else if s = [46, 46] then butlast acc else acc @ [s])"

text \<open>The segments of a normalized absolute path, and the path with given segments.\<close>

definition normalize :: "jsstring \<Rightarrow> jsstring list" where
  "normalize p = foldl norm_step [] (js_split 47 p)"

definition abs_path :: "jsstring list \<Rightarrow> jsstring" where
  "abs_path ss = 47 # js_join [47] ss"

text \<open>\<open>path.resolve(...args)\<close> reads its arguments from the right up to the first absolute one.\<close>

fun resolve_from :: "jsstring \<Rightarrow> jsstring list \<Rightarrow> jsstring \<Rightarrow> jsstring" where
  "resolve_from cwd [] acc = cwd @ 47 # acc"
| "resolve_from cwd (p # ps) acc =
     (if p = [] then resolve_from cwd ps acc else if hd p = 47 then p @ 47 # acc else resolve_from cwd ps (p @ 47 # acc))"

definition resolve_segments :: "jsstring \<Rightarrow> jsstring list \<Rightarrow> jsstring list" where
  "resolve_segments cwd args = normalize (resolve_from cwd (rev args) [])"

definition path_resolve :: "jsstring \<Rightarrow> jsstring list \<Rightarrow> jsstring" where
  "path_resolve cwd args = abs_path (resolve_segments cwd args)"

definition path_dirname :: "jsstring \<Rightarrow> jsstring" where
  "path_dirname p = abs_path (butlast (normalize p))"

datatype path_error = PathEscapeError jsstring jsstring

definition check_within :: "jsstring \<Rightarrow> jsstring \<Rightarrow> jsstring \<Rightarrow> path_error + jsstring" where
  "check_within resolvedRoot target shown =
     (if target \<noteq> resolvedRoot \<and> take (length (resolvedRoot @ [47])) target \<noteq> resolvedRoot @ [47]
      then Inl (PathEscapeError resolvedRoot shown) else Inr target)"

definition resolveWithin :: "jsstring \<Rightarrow> jsstring \<Rightarrow> jsstring \<Rightarrow> path_error + jsstring" where
  "resolveWithin cwd root relPath =
     (let resolvedRoot = path_resolve cwd [root] in check_within resolvedRoot (path_resolve cwd [resolvedRoot, relPath]) relPath)"

definition resolveSymlinkTargetWithin :: "jsstring \<Rightarrow> jsstring \<Rightarrow> jsstring \<Rightarrow> jsstring \<Rightarrow> path_error + jsstring" where
  "resolveSymlinkTargetWithin cwd root symlinkRelPath target =
     (let resolvedRoot = path_resolve cwd [root];
          symlinkDir = path_dirname (path_resolve cwd [resolvedRoot, symlinkRelPath])
      in check_within resolvedRoot (path_resolve cwd [symlinkDir, target]) target)"

text \<open>\<open>realpathSync\<close> finds the real path, fails with \<open>ENOENT\<close>, or fails otherwise. The path given is absolute.\<close>

datatype real_answer = RealPath jsstring | NoEntry | OtherErrno string

definition path_join :: "jsstring \<Rightarrow> jsstring list \<Rightarrow> jsstring" where
  "path_join real ss = abs_path (normalize (js_join [47] (real # ss)))"

fun real_loop :: "(jsstring \<Rightarrow> real_answer) \<Rightarrow> jsstring \<Rightarrow> jsstring list \<Rightarrow> string + jsstring" where
  "real_loop realpathSync real [] = Inr real"
| "real_loop realpathSync real (s # ss) =
     (case realpathSync (path_join real [s]) of
        RealPath r \<Rightarrow> real_loop realpathSync r ss
      | NoEntry \<Rightarrow> Inr (path_join real (s # ss))
      | OtherErrno e \<Rightarrow> Inl e)"

definition realpathExistingPrefix :: "(jsstring \<Rightarrow> real_answer) \<Rightarrow> jsstring \<Rightarrow> string + jsstring" where
  "realpathExistingPrefix realpathSync absPath =
     real_loop realpathSync [47] (filter (\<lambda>s. s \<noteq> []) (js_split 47 (drop 1 absPath)))"

subsection \<open>The search for a block ends on every error graph\<close>

definition links :: "err_obj \<Rightarrow> err_val list" where
  "links e = eo_errors e @ (case eo_cause e of None \<Rightarrow> [] | Some c \<Rightarrow> [c])"

fun reach :: "(nat \<Rightarrow> err_obj) \<Rightarrow> nat \<Rightarrow> err_val \<Rightarrow> nat \<Rightarrow> bool" where
  "reach st 0 v r \<longleftrightarrow> v = ERef r"
| "reach st (Suc n) v r \<longleftrightarrow> (\<exists>q u. v = ERef q \<and> u \<in> set (links (st q)) \<and> reach st n u r)"

lemma find_nested_None: "find_nested st vs d = None \<longleftrightarrow> list_all (\<lambda>v. findSsrfBlock st v d = None) vs"
  by (induction vs) (auto split: option.splits)

lemma find_step:
  assumes "d \<le> 5" and "\<not> eo_block (st q)"
  shows "findSsrfBlock st (ERef q) d = None \<longleftrightarrow> (\<forall>u \<in> set (links (st q)). findSsrfBlock st u (Suc d) = None)"
  using assms find_nested_None [of st "eo_errors (st q)" "Suc d"]
  by (auto simp: findSsrfBlock.simps [of st "ERef q"] links_def list_all_iff split: option.splits)

lemma find_iff_reach:
  "d + k = 6 \<Longrightarrow> findSsrfBlock st v d = None \<longleftrightarrow> \<not> (\<exists>n r. n < k \<and> reach st n v r \<and> eo_block (st r))"
proof (induction k arbitrary: d v)
  case 0
  then show ?case by (simp add: findSsrfBlock.simps split: err_val.split)
next
  case (Suc k)
  show ?case
  proof (cases v)
    case EPrim
    have "\<not> reach st n EPrim r" for n r by (cases n) auto
    then show ?thesis using EPrim by (simp add: findSsrfBlock.simps)
  next
    case (ERef q)
    show ?thesis
    proof (cases "eo_block (st q)")
      case True
      then have "findSsrfBlock st v d = Some q" using ERef Suc.prems by (simp add: findSsrfBlock.simps)
      moreover have "reach st 0 v q" using ERef by simp
      ultimately show ?thesis using True by auto
    next
      case False
      have "findSsrfBlock st v d = None \<longleftrightarrow> (\<forall>u \<in> set (links (st q)). \<not> (\<exists>n r. n < k \<and> reach st n u r \<and> eo_block (st r)))"
        using find_step [of d st q] False Suc.IH [of "Suc d"] Suc.prems ERef by simp
      moreover have "(\<exists>n r. n < Suc k \<and> reach st n v r \<and> eo_block (st r))
          \<longleftrightarrow> (\<exists>u \<in> set (links (st q)). \<exists>n r. n < k \<and> reach st n u r \<and> eo_block (st r))"
        (is "?lhs \<longleftrightarrow> ?rhs")
      proof
        assume ?lhs
        then obtain n r where "n < Suc k" "reach st n v r" "eo_block (st r)" by blast
        then show ?rhs using ERef False by (cases n) auto
      next
        assume ?rhs
        then obtain u n r where "u \<in> set (links (st q))" "n < k" "reach st n u r" "eo_block (st r)" by blast
        then have "Suc n < Suc k \<and> reach st (Suc n) v r \<and> eo_block (st r)" using ERef by auto
        then show ?lhs by blast
      qed
      ultimately show ?thesis by blast
    qed
  qed
qed

lemma find_returns_block: "findSsrfBlock st v d = Some r \<Longrightarrow> eo_block (st r)"
  and nested_returns_block: "find_nested st vs d = Some r \<Longrightarrow> eo_block (st r)"
proof (induction st v d and st vs d rule: findSsrfBlock_find_nested.induct)
  case (1 st v depth)
  from 1(3) show ?case using 1(1,2) by (subst (asm) findSsrfBlock.simps) (auto split: err_val.splits if_splits option.splits)
qed (auto split: option.splits)

text \<open>
  C29: looking for a blocked connection in an error ends on every error, whatever its \<open>cause\<close> and \<open>errors\<close> refer to,
  cycles included: it finds a block exactly when one can be reached over at most five links, and what it returns is one.
\<close>

theorem ssrf_search_ends:
  "(findSsrfBlock st v 0 \<noteq> None \<longleftrightarrow> (\<exists>n r. n \<le> 5 \<and> reach st n v r \<and> eo_block (st r)))
    \<and> (case findSsrfBlock st v 0 of None \<Rightarrow> True | Some r \<Rightarrow> eo_block (st r))"
  using find_iff_reach [of 0 6 st v] by (auto simp: less_Suc_eq_le [symmetric] dest: find_returns_block split: option.splits)

subsection \<open>The address guard is a table of networks\<close>

definition octets_of :: "32 word \<Rightarrow> octets" where
  "octets_of a = (unat a div 16777216, unat a div 65536 mod 256, unat a div 256 mod 256, unat a mod 256)"

definition dotted :: "32 word \<Rightarrow> jsstring" where
  "dotted a = (case octets_of a of (p, q, r, s) \<Rightarrow> js_join [46] [show_nat p, show_nat q, show_nat r, show_nat s])"

fun show_hex :: "nat \<Rightarrow> jsstring" where
  "show_hex n = (if n < 16 then [hex_digit n] else show_hex (n div 16) @ [hex_digit (n mod 16)])"

declare show_hex.simps [simp del]

definition hex_pair :: "32 word \<Rightarrow> jsstring" where
  "hex_pair a = show_hex (unat a div 65536) @ 58 # show_hex (unat a mod 65536)"

text \<open>The spellings of an IPv4 address: plain, and embedded in IPv6 (mapped or compatible, dotted or as two groups).\<close>

definition address_forms :: "32 word \<Rightarrow> jsstring list" where
  "address_forms a = [dotted a, lit ''::ffff:'' @ dotted a, lit ''::'' @ dotted a, lit ''::ffff:'' @ hex_pair a, lit ''::'' @ hex_pair a]"

definition in_net :: "32 word \<Rightarrow> 32 word \<times> nat \<Rightarrow> bool" where
  "in_net a n = (case n of (net, len) \<Rightarrow> drop_bit (32 - len) a = drop_bit (32 - len) net)"

definition blocked_nets :: "url_policy \<Rightarrow> (32 word \<times> nat) list" where
  "blocked_nets policy = [(0xA9FE0000, 16), (0x64400000, 10)]
     @ (if up_allowLoopback policy then [] else [(0x7F000000, 8)])
     @ (if up_allowPrivate policy then [] else [(0x0A000000, 8), (0xAC100000, 12), (0xC0A80000, 16), (0, 8)])"

lemma in_net_unat: "in_net a (net, len) \<longleftrightarrow> unat a div 2 ^ (32 - len) = unat net div 2 ^ (32 - len)"
  unfolding in_net_def prod.case word_unat_eq_iff unat_drop_bit_eq by (simp add: drop_bit_eq_div)

lemma div_is:
  assumes "0 < (k::nat)"
  shows "y div k = c \<longleftrightarrow> k * c \<le> y \<and> y \<le> k * c + (k - 1)"
proof -
  have "y = k * (y div k) + y mod k" "y mod k < k" using assms by simp_all
  then show ?thesis using assms div_nat_eqI [of k c y] by (metis Suc_pred' add_Suc_right add_le_cancel_left le_add1 less_Suc_eq_le mult_Suc_right add.commute)
qed

lemma octet_range:
  assumes "r < (256::nat)" and "lo \<le> hi" and "hi < 256"
  shows "q = k \<and> lo \<le> r \<and> r \<le> hi \<longleftrightarrow> 256 * k + lo \<le> 256 * q + r \<and> 256 * q + r \<le> 256 * k + hi"
  using assms by (cases q k rule: linorder_cases) auto

lemma blocked_iff_table: "isBlockedIPv4 (octets_of a) policy \<longleftrightarrow> list_ex (in_net a) (blocked_nets policy)"
proof -
  define y where "y = unat a div 65536"
  define q r where "q = y div 256" and "r = y mod 256"
  have y: "y = 256 * q + r" "r < 256" by (simp_all add: q_def r_def)
  have octets: "octets_of a = (q, r, unat a div 256 mod 256, unat a mod 256)"
    by (simp add: octets_of_def q_def r_def y_def div_mult2_eq [symmetric])
  have nets: "unat a div 4194304 = y div 64" "unat a div 1048576 = y div 16" "unat a div 16777216 = q"
    by (simp_all add: y_def q_def div_mult2_eq [symmetric])
  have "q = 169 \<and> r = 254 \<longleftrightarrow> y = 43518" using octet_range [OF y(2), of 254 254 q 169] y(1) by auto
  moreover have "q = 100 \<and> 64 \<le> r \<and> r \<le> 127 \<longleftrightarrow> y div 64 = 401"
    using octet_range [OF y(2), of 64 127 q 100] div_is [of 64 y 401] y(1) by simp
  moreover have "q = 172 \<and> 16 \<le> r \<and> r \<le> 31 \<longleftrightarrow> y div 16 = 2753"
    using octet_range [OF y(2), of 16 31 q 172] div_is [of 16 y 2753] y(1) by simp
  moreover have "q = 192 \<and> r = 168 \<longleftrightarrow> y = 49320" using octet_range [OF y(2), of 168 168 q 192] y(1) by auto
  ultimately show ?thesis
    by (auto simp: isBlockedIPv4_def isLinkLocalOrSharedNatIPv4_def isLoopbackIPv4_def isPrivateIPv4_def octets
        blocked_nets_def in_net_unat nets y_def [symmetric])
qed

lemma digits_of_show:
  "list_all (\<lambda>c. 48 \<le> c \<and> c \<le> 57) (show_nat n)"
  using show_nat_digits by (auto simp: list_all_iff)

lemma show_nat_not_Nil [simp]: "show_nat n \<noteq> []"
  by (subst show_nat.simps) simp

lemma show_nat_short: "n < 256 \<Longrightarrow> length (show_nat n) \<le> 3"
proof -
  have one: "length (show_nat m) = 1" if "m < 10" for m using that by (subst show_nat.simps) simp
  have two: "length (show_nat m) \<le> 2" if "m < 100" for m using that one [of "m div 10"] by (subst show_nat.simps) auto
  assume "n < 256"
  then show ?thesis using two [of "n div 10"] by (subst show_nat.simps) auto
qed

lemma dec_value_append: "dec_value (s @ [c]) acc = dec_value s acc * 10 + (c - 48)"
  by (induction s arbitrary: acc) auto

lemma dec_value_show [simp]: "dec_value (show_nat n) 0 = n"
proof (induction n rule: show_nat.induct)
  case (1 n)
  then show ?case by (subst show_nat.simps) (auto simp: dec_value_append)
qed

lemma unat_word32: "unat (a :: 32 word) < 4294967296"
proof -
  have "unat a < 2 ^ LENGTH(32)" by (rule unsigned_less)
  then show ?thesis by simp
qed

lemma octets_bound: "octets_of a = (p, q, r, s) \<Longrightarrow> p < 256 \<and> q < 256 \<and> r < 256 \<and> s < 256"
proof -
  have "unat a < 4294967296" by (rule unat_word32)
  then show "octets_of a = (p, q, r, s) \<Longrightarrow> ?thesis" by (auto simp: octets_of_def div_less_iff_less_mult)
qed

lemma split_dotted: "js_split 46 (dotted a) = (case octets_of a of (p, q, r, s) \<Rightarrow> [show_nat p, show_nat q, show_nat r, show_nat s])"
proof -
  obtain p q r s where o: "octets_of a = (p, q, r, s)" by (cases "octets_of a")
  have "46 \<notin> set (show_nat n)" for n using show_nat_digits [of 46 n] by auto
  then show ?thesis unfolding dotted_def o prod.case by (intro split_join) auto
qed

lemma dotted_octets: "dotted_quad (dotted a)" "ipv4Octets (dotted a) = Some (octets_of a)"
proof -
  obtain p q r s where o: "octets_of a = (p, q, r, s)" by (cases "octets_of a")
  have b: "p < 256" "q < 256" "r < 256" "s < 256" using octets_bound [OF o] by auto
  then show quad: "dotted_quad (dotted a)"
    by (simp add: dotted_quad_def split_dotted o dec3_def digits_of_show show_nat_short)
  show "ipv4Octets (dotted a) = Some (octets_of a)" using b by (simp add: ipv4Octets_def quad split_dotted o)
qed

lemma dotted_units: "c \<in> set (dotted a) \<Longrightarrow> c = 46 \<or> 48 \<le> c \<and> c \<le> 57"
  using set_join [of "[46]"] show_nat_digits by (fastforce simp: dotted_def split: prod.splits)

lemma dotted_hd: "\<exists>c s. dotted a = c # s \<and> 48 \<le> c \<and> c \<le> 57"
proof -
  obtain p q r s where o: "octets_of a = (p, q, r, s)" by (cases "octets_of a")
  obtain c t where "show_nat p = c # t" by (cases "show_nat p") auto
  moreover from this have "48 \<le> c \<and> c \<le> 57" using show_nat_digits [of c p] by auto
  ultimately show ?thesis by (simp add: dotted_def o)
qed

subsection \<open>Hexadecimal groups\<close>

lemma hex_digit_unit: "n < 16 \<Longrightarrow> is_hex (hex_digit n) \<and> (if hex_digit n \<le> 57 then hex_digit n - 48 else hex_digit n - 87) = n"
  by (auto simp: hex_digit_def is_hex_def)

lemma show_hex_units: "list_all is_hex (show_hex n)"
proof (induction n rule: show_hex.induct)
  case (1 n)
  then show ?case using hex_digit_unit [of n] hex_digit_unit [of "n mod 16"] by (subst show_hex.simps) auto
qed

lemma show_hex_not_Nil [simp]: "show_hex n \<noteq> []"
  by (subst show_hex.simps) simp

lemma show_hex_short: "n < 65536 \<Longrightarrow> length (show_hex n) \<le> 4"
proof -
  have one: "length (show_hex m) = 1" if "m < 16" for m using that by (subst show_hex.simps) simp
  have two: "length (show_hex m) \<le> 2" if "m < 256" for m using that one [of "m div 16"] by (subst show_hex.simps) auto
  have three: "length (show_hex m) \<le> 3" if "m < 4096" for m using that two [of "m div 16"] by (subst show_hex.simps) auto
  assume "n < 65536"
  then show ?thesis using three [of "n div 16"] by (subst show_hex.simps) auto
qed

lemma hex_value_append: "hex_value (s @ [c]) acc = hex_value s acc * 16 + (if c \<le> 57 then c - 48 else c - 87)"
  by (induction s arbitrary: acc) auto

lemma hex_value_show [simp]: "hex_value (show_hex n) 0 = n"
proof (induction n rule: show_hex.induct)
  case (1 n)
  show ?case
  proof (cases "n < 16")
    case True
    then show ?thesis using hex_digit_unit [of n] by (subst show_hex.simps) simp
  next
    case False
    then show ?thesis using 1 hex_digit_unit [of "n mod 16"]
      by (subst show_hex.simps) (simp add: hex_value_append del: hex_value.simps)
  qed
qed

lemma embedded_pair: "embedded_hex (show_hex (unat a div 65536)) (show_hex (unat (a :: 32 word) mod 65536)) = Some (octets_of a)"
proof -
  have "unat a < 4294967296" by (rule unat_word32)
  then have "unat a div 65536 < 65536" by (simp add: div_less_iff_less_mult)
  moreover have "unat a mod 65536 div 256 = unat a div 256 mod 256" using mod_mult2_eq' [of "unat a" 256 256] by simp
  moreover have "unat a mod 65536 mod 256 = unat a mod 256" by (simp add: mod_mod_cancel)
  ultimately show ?thesis
    by (simp add: embedded_hex_def hex_group_def show_hex_short show_hex_units octets_of_def div_mult2_eq [symmetric])
qed

lemma hex_units: "is_hex c \<Longrightarrow> c \<noteq> 46 \<and> c \<noteq> 58 \<and> c \<noteq> 37 \<and> lower_unit c = c"
  by (auto simp: is_hex_def lower_unit_def)

lemma show_hex_no: "46 \<notin> set (show_hex n)" "58 \<notin> set (show_hex n)"
  using show_hex_units [of n] hex_units by (auto simp: list_all_iff)

lemma split_pair: "js_split 58 (hex_pair a) = [show_hex (unat a div 65536), show_hex (unat a mod 65536)]"
  by (simp add: hex_pair_def split_append split_whole show_hex_no)

lemma no_dot_no_quad: "46 \<notin> set s \<Longrightarrow> \<not> dotted_quad s"
  by (simp add: dotted_quad_def split_whole)

lemma colon_no_quad: "58 \<in> set s \<Longrightarrow> \<not> dotted_quad s"
proof
  assume "58 \<in> set s" and "dotted_quad s"
  have "58 \<in> set (js_join [46] (js_split 46 s))" using \<open>58 \<in> set s\<close> by (simp add: join_split)
  then obtain l where "l \<in> set (js_split 46 s)" "58 \<in> set l" using set_join [of "[46]" "js_split 46 s"] by auto
  then show False using \<open>dotted_quad s\<close> by (fastforce simp: dotted_quad_def dec3_def list_all_iff)
qed

lemma pair_no_quad: "\<not> dotted_quad (hex_pair a)" "\<not> dotted_quad (lit ''ffff:'' @ hex_pair a)"
  by (rule colon_no_quad; simp add: hex_pair_def)+

lemma lit_mapped: "lit ''::ffff:'' = [58, 58, 102, 102, 102, 102, 58]" "lit ''ffff:'' = [102, 102, 102, 102, 58]"
  "lit ''::'' = [58, 58]" "lit ''ffff'' = [102, 102, 102, 102]" "lit ''::1'' = [58, 58, 49]"
  by (simp_all add: lit_def)

text \<open>The four embedded spellings are all read as the address they embed.\<close>

lemma embedded_forms:
  "ipv6EmbeddedIPv4Octets (lit ''::ffff:'' @ dotted a) = Some (octets_of a)"
  "ipv6EmbeddedIPv4Octets (lit ''::'' @ dotted a) = Some (octets_of a)"
  "ipv6EmbeddedIPv4Octets (lit ''::ffff:'' @ hex_pair a) = Some (octets_of a)"
  "ipv6EmbeddedIPv4Octets (lit ''::'' @ hex_pair a) = Some (octets_of a)"
proof -
  obtain c s where d: "dotted a = c # s" "48 \<le> c" "c \<le> 57" using dotted_hd [of a] by blast
  show "ipv6EmbeddedIPv4Octets (lit ''::ffff:'' @ dotted a) = Some (octets_of a)"
    by (simp add: ipv6EmbeddedIPv4Octets_def lit_mapped dotted_octets)
  show "ipv6EmbeddedIPv4Octets (lit ''::'' @ dotted a) = Some (octets_of a)"
    using d dotted_octets [of a] by (auto simp: ipv6EmbeddedIPv4Octets_def lit_mapped Let_def)
  have mapped: "js_split 58 (lit ''ffff:'' @ hex_pair a) = [lit ''ffff'', show_hex (unat a div 65536), show_hex (unat a mod 65536)]"
    by (simp add: lit_mapped split_pair)
  show "ipv6EmbeddedIPv4Octets (lit ''::ffff:'' @ hex_pair a) = Some (octets_of a)"
    using mapped pair_no_quad [of a] by (simp add: ipv6EmbeddedIPv4Octets_def lit_mapped embedded_pair)
  have "\<not> (take 5 (hex_pair a) = lit ''ffff:'' \<and> dotted_quad (drop 5 (hex_pair a)))"
  proof -
    have "46 \<notin> set (hex_pair a)" by (simp add: hex_pair_def show_hex_no)
    then show ?thesis using no_dot_no_quad [of "drop 5 (hex_pair a)"] in_set_dropD by fast
  qed
  then show "ipv6EmbeddedIPv4Octets (lit ''::'' @ hex_pair a) = Some (octets_of a)"
    using pair_no_quad [of a] by (auto simp: ipv6EmbeddedIPv4Octets_def lit_mapped split_pair embedded_pair Let_def)
qed

lemma plain_units_kept:
  assumes "list_all (\<lambda>c. c \<noteq> 37 \<and> lower_unit c = c) s"
  shows "takeWhile (\<lambda>c. c \<noteq> 37) (map lower_unit s) = s"
  using assms by (induction s) auto

lemma form_units:
  assumes "s \<in> set (address_forms a)"
  shows "list_all (\<lambda>c. c \<noteq> 37 \<and> lower_unit c = c) s"
proof -
  have "c \<noteq> 37 \<and> lower_unit c = c" if "c \<in> set (dotted a)" for c
    using dotted_units [OF that] by (auto simp: lower_unit_def)
  then have d: "list_all (\<lambda>c. c \<noteq> 37 \<and> lower_unit c = c) (dotted a)" by (simp add: list_all_iff)
  have "c \<noteq> 37 \<and> lower_unit c = c" if "is_hex c \<or> c = 58" for c
    using that by (auto simp: is_hex_def lower_unit_def)
  then have h: "list_all (\<lambda>c. c \<noteq> 37 \<and> lower_unit c = c) (hex_pair a)"
    using show_hex_units by (fastforce simp: hex_pair_def list_all_iff)
  have "lower_unit 58 = 58" "lower_unit 102 = 102" by (simp_all add: lower_unit_def)
  with d h show ?thesis using assms by (auto simp: address_forms_def lit_mapped)
qed

lemma long_forms: "2 \<le> length (dotted a)" "2 \<le> length (hex_pair a)"
proof -
  show "2 \<le> length (dotted a)" by (simp add: dotted_def split: prod.splits)
  show "2 \<le> length (hex_pair a)" by (cases "show_hex (unat a div 65536)") (auto simp: hex_pair_def)
qed

text \<open>An address that begins with two colons and is long enough is only classified by what it embeds.\<close>

lemma colons_only_embedded:
  assumes "addr = 58 # 58 # s" and "length s \<ge> 2" and "takeWhile (\<lambda>c. c \<noteq> 37) (map lower_unit address) = addr"
  shows "isBlockedIPv6Address address policy = (case ipv6EmbeddedIPv4Octets addr of Some os \<Rightarrow> isBlockedIPv4 os policy | None \<Rightarrow> False)"
proof -
  have "addr \<notin> set IPV6_IMDS_FORMS" "addr \<noteq> lit ''::1''" "addr \<noteq> lit ''::''" "\<not> ipv6_link_local addr" "\<not> ipv6_unique_local addr"
    using assms(1,2) by (auto simp: IPV6_IMDS_FORMS_def lit_def ipv6_link_local_def ipv6_unique_local_def split: list.splits)
  then show ?thesis using assms(3) by (simp add: isBlockedIPv6Address_def Let_def)
qed

text \<open>
  Only these spellings are read. The guard classifies what a parsed URL and the resolver hand it, which are
  compressed; the same mapped loopback address written out in eight groups is classified as nothing and allowed.
\<close>

lemma uncompressed_form_passes: "isAllowedIpAddress (lit ''0:0:0:0:0:ffff:7f00:1'') policy"
proof -
  have "ipv4Octets (lit ''0:0:0:0:0:ffff:7f00:1'') = None" by code_simp
  moreover have "ipv6EmbeddedIPv4Octets (lit ''0:0:0:0:0:ffff:7f00:1'') = None" by code_simp
  moreover have "takeWhile (\<lambda>c. c \<noteq> 37) (map lower_unit (lit ''0:0:0:0:0:ffff:7f00:1'')) = lit ''0:0:0:0:0:ffff:7f00:1''" by code_simp
  moreover have "\<not> ipv6_link_local (lit ''0:0:0:0:0:ffff:7f00:1'')" by code_simp
  moreover have "lit ''0:0:0:0:0:ffff:7f00:1'' \<notin> set IPV6_IMDS_FORMS" by code_simp
  moreover have "lit ''0:0:0:0:0:ffff:7f00:1'' \<noteq> lit ''::1'' \<and> lit ''0:0:0:0:0:ffff:7f00:1'' \<noteq> lit ''::''" by code_simp
  moreover have "\<not> ipv6_unique_local (lit ''0:0:0:0:0:ffff:7f00:1'')" by code_simp
  ultimately show ?thesis by (simp add: isAllowedIpAddress_def isBlockedIPv6Address_def Let_def)
qed

text \<open>
  C27: In the five spellings the guard reads, it is its table of networks. An IPv4 address written as a dotted
  quad, or embedded in IPv6 behind \<open>::ffff:\<close> or \<open>::\<close>, there as a dotted quad or as two hexadecimal
  groups without leading zeros, is allowed exactly when it is in none of the networks the policy blocks: link-local and
  shared address space always, loopback and private networks unless the policy allows them. Other spellings are not
  covered.
\<close>

theorem guard_is_the_network_table:
  "list_all (\<lambda>s. isAllowedIpAddress s policy = (\<not> list_ex (in_net a) (blocked_nets policy))) (address_forms a)"
proof -
  have v6: "isAllowedIpAddress s policy = (\<not> list_ex (in_net a) (blocked_nets policy))"
    if s: "s \<in> set (tl (address_forms a))" for s
  proof -
    have form: "s \<in> set (address_forms a)" using s by (simp add: address_forms_def)
    obtain t where t: "s = 58 # 58 # t" using s by (auto simp: address_forms_def lit_mapped)
    have "length t \<ge> 2" using s t long_forms [of a] by (auto simp: address_forms_def lit_mapped)
    from colons_only_embedded [OF t this plain_units_kept [OF form_units [OF form]], of policy]
    have "isBlockedIPv6Address s policy = isBlockedIPv4 (octets_of a) policy"
      using s embedded_forms [of a] by (auto simp: address_forms_def)
    moreover have "ipv4Octets s = None" using colon_no_quad [of s] t by (simp add: ipv4Octets_def)
    ultimately show ?thesis by (simp add: isAllowedIpAddress_def blocked_iff_table)
  qed
  moreover have "isAllowedIpAddress (dotted a) policy = (\<not> list_ex (in_net a) (blocked_nets policy))"
    by (simp add: isAllowedIpAddress_def dotted_octets blocked_iff_table)
  ultimately show ?thesis by (simp add: address_forms_def)
qed

lemma pinned_lookup_only_allowed:
  "case createPinnedLookup policy hostname all answer of
     LookupAll as \<Rightarrow> list_all (\<lambda>(a, _). isAllowedIpAddress a policy) as
   | LookupOne a _ \<Rightarrow> isAllowedIpAddress a policy
   | SsrfBlocked _ a \<Rightarrow> \<not> isAllowedIpAddress a policy
   | _ \<Rightarrow> True"
proof (cases answer)
  case (Addresses as)
  have found: "find P xs = Some x \<Longrightarrow> P x" for P and xs :: "(jsstring \<times> nat) list" and x by (auto simp: find_Some_iff)
  show ?thesis
  proof (cases as)
    case (Cons entry rest)
    let ?bad = "find (\<lambda>(a, _). \<not> isAllowedIpAddress a policy) as"
    obtain address family where entry: "entry = (address, family)" by fastforce
    show ?thesis
    proof (cases ?bad)
      case None
      then have "list_all (\<lambda>(a, _). isAllowedIpAddress a policy) as" by (auto simp: find_None_iff list_all_iff)
      with None show ?thesis unfolding Addresses Cons entry by (simp add: createPinnedLookup_def)
    next
      case (Some bad)
      with found [OF Some] show ?thesis unfolding Addresses Cons entry
        by (cases bad) (simp add: createPinnedLookup_def split: if_splits)
    qed
  qed (simp add: createPinnedLookup_def Addresses)
qed (simp add: createPinnedLookup_def)

subsection \<open>Resolved paths stay below their root\<close>

definition plain_segment :: "jsstring \<Rightarrow> bool" where
  "plain_segment s \<longleftrightarrow> s \<noteq> [] \<and> s \<noteq> [46] \<and> s \<noteq> [46, 46] \<and> 47 \<notin> set s"

lemma plain_Nil [simp]: "\<not> plain_segment []"
  by (simp add: plain_segment_def)

lemma norm_step_plain: "list_all plain_segment acc \<Longrightarrow> 47 \<notin> set s \<Longrightarrow> list_all plain_segment (norm_step acc s)"
  by (auto simp: norm_step_def plain_segment_def list_all_iff dest: in_set_butlastD)

lemma normalize_plain: "list_all plain_segment (normalize p)"
proof -
  have "list_all plain_segment (foldl norm_step acc ss)" if "list_all plain_segment acc" "\<And>s. s \<in> set ss \<Longrightarrow> 47 \<notin> set s" for acc ss
    using that by (induction ss arbitrary: acc) (simp_all add: norm_step_plain)
  from this [of "[]" "js_split 47 p"] show ?thesis using split_parts by (auto simp: normalize_def)
qed

lemma plain_no_slash: "list_all plain_segment ss \<Longrightarrow> l \<in> set ss \<Longrightarrow> 47 \<notin> set l"
  by (auto simp: list_all_iff plain_segment_def)

lemma split_abs_path:
  assumes "list_all plain_segment ss" and "ss \<noteq> []"
  shows "js_split 47 (abs_path ss) = [] # ss"
  using assms split_join [of ss 47] plain_no_slash by (auto simp: abs_path_def)

lemma abs_path_inj:
  assumes "list_all plain_segment rs" and "list_all plain_segment ts" and "abs_path rs = abs_path ts"
  shows "rs = ts"
proof -
  have nonempty: "abs_path ss \<noteq> abs_path []" if "list_all plain_segment ss" "ss \<noteq> []" for ss
    using that split_abs_path [OF that] by (auto simp: abs_path_def)
  show ?thesis using assms split_abs_path nonempty by (metis list.inject)
qed

lemma join_append: "us \<noteq> [] \<Longrightarrow> rs \<noteq> [] \<Longrightarrow> js_join [47] (rs @ us) = js_join [47] rs @ 47 # js_join [47] us"
proof (induction rs)
  case (Cons r rs)
  then show ?case by (cases rs; cases us) auto
qed simp

text \<open>The test \<open>startsWith(root + sep)\<close> is the prefix test on segments, except below \<open>/\<close>, where it never holds.\<close>

lemma starts_with_root:
  assumes "list_all plain_segment rs" and "list_all plain_segment ts"
  shows "take (length (abs_path rs @ [47])) (abs_path ts) = abs_path rs @ [47] \<longleftrightarrow> rs \<noteq> [] \<and> strict_prefix rs ts"
proof
  assume "take (length (abs_path rs @ [47])) (abs_path ts) = abs_path rs @ [47]"
  then obtain x where x: "abs_path ts = abs_path rs @ 47 # x" by (metis append.assoc append_Cons append_Nil append_take_drop_id)
  have ts: "ts \<noteq> []" using x by (auto simp: abs_path_def)
  have split: "js_split 47 (abs_path ts) = js_split 47 (abs_path rs) @ js_split 47 x" by (simp add: x split_append)
  show "rs \<noteq> [] \<and> strict_prefix rs ts"
  proof (cases "rs = []")
    case True
    then have "[] # ts = [] # [] # js_split 47 x" using split split_abs_path [OF assms(2) ts] by (simp add: abs_path_def)
    then show ?thesis using assms(2) by (auto simp: plain_segment_def)
  next
    case False
    then have "ts = rs @ js_split 47 x" using split split_abs_path [OF assms(2) ts] split_abs_path [OF assms(1)] by simp
    then show ?thesis using False by (auto simp: strict_prefix_def)
  qed
next
  assume "rs \<noteq> [] \<and> strict_prefix rs ts"
  then obtain u us where "ts = rs @ u # us" "rs \<noteq> []" by (auto elim: strict_prefixE')
  then show "take (length (abs_path rs @ [47])) (abs_path ts) = abs_path rs @ [47]"
    by (simp add: abs_path_def join_append)
qed

lemma check_within_segments:
  assumes "list_all plain_segment rs" and "list_all plain_segment ts"
  shows "check_within (abs_path rs) (abs_path ts) shown =
    (if (if rs = [] then ts = [] else prefix rs ts) then Inr (abs_path ts) else Inl (PathEscapeError (abs_path rs) shown))"
proof -
  have "abs_path ts = abs_path rs \<longleftrightarrow> ts = rs" using abs_path_inj [OF assms] by auto
  then show ?thesis using starts_with_root [OF assms] by (auto simp: check_within_def strict_prefix_def)
qed

lemma resolve_segments_plain: "list_all plain_segment (resolve_segments cwd args)"
  by (simp add: resolve_segments_def normalize_plain)

text \<open>
  C28: a path handed out never leaves its root. A resolved path, and a symbolic link's resolved target, is the root
  followed by plain segments (no empty segment, no \<open>.\<close>, no \<open>..\<close>, no separator) or the error; the error comes exactly
  when the normalized path does not begin with the root's segments, or the root is \<open>/\<close> and the path is not.
\<close>

theorem paths_stay_below_root:
  fixes cwd root
  defines "rs \<equiv> resolve_segments cwd [root]"
  shows "resolveWithin cwd root rel =
      (let ts = resolve_segments cwd [abs_path rs, rel] in
       if (if rs = [] then ts = [] else prefix rs ts) then Inr (abs_path ts) else Inl (PathEscapeError (abs_path rs) rel))
    \<and> resolveSymlinkTargetWithin cwd root link target =
      (let ts = resolve_segments cwd [path_dirname (path_resolve cwd [abs_path rs, link]), target] in
       if (if rs = [] then ts = [] else prefix rs ts) then Inr (abs_path ts) else Inl (PathEscapeError (abs_path rs) target))
    \<and> list_all plain_segment rs \<and> (\<forall>args. list_all plain_segment (resolve_segments cwd args))"
  using check_within_segments [OF resolve_segments_plain resolve_segments_plain]
  by (simp add: resolveWithin_def resolveSymlinkTargetWithin_def path_resolve_def Let_def rs_def resolve_segments_plain)

text \<open>A plain relative path resolves to itself below the root.\<close>

lemma normalize_abs: "list_all plain_segment ss \<Longrightarrow> normalize (abs_path ss) = ss"
proof -
  have "foldl norm_step acc ss = acc @ ss" if "list_all plain_segment ss" for acc ss
    using that by (induction ss arbitrary: acc) (auto simp: norm_step_def plain_segment_def)
  then show "list_all plain_segment ss \<Longrightarrow> normalize (abs_path ss) = ss"
    by (cases "ss = []") (simp_all add: normalize_def split_abs_path norm_step_def, simp add: abs_path_def norm_step_def)
qed

text \<open>
  A segment that \<open>realpathSync\<close> does not find is taken for a path still to be created, and the rest is appended as written.
  A dangling symbolic link is reported the same way, so it is not resolved: the path returned lies below the link's parent
  although writing to it goes where the link points.
\<close>

lemma unresolved_link_kept:
  assumes "list_all plain_segment [d, link, f]"
    and "realpathSync (abs_path [d]) = RealPath (abs_path [d])" and "realpathSync (abs_path [d, link]) = NoEntry"
  shows "realpathExistingPrefix realpathSync (abs_path [d, link, f]) = Inr (abs_path [d, link, f])"
proof -
  have segs: "filter (\<lambda>s. s \<noteq> []) (js_split 47 (drop 1 (abs_path [d, link, f]))) = [d, link, f]"
    using split_abs_path [OF assms(1)] assms(1) by (simp add: abs_path_def plain_segment_def)
  have j1: "path_join [47] [d] = abs_path [d]" using normalize_abs [of "[d]"] assms(1)
    by (simp add: path_join_def abs_path_def normalize_def norm_step_def)
  have join: "js_join [47] (abs_path [d] # us) = abs_path (d # us)" if "us \<noteq> []" for us
    using that by (cases us) (auto simp: abs_path_def)
  have "path_join (abs_path [d]) [link] = abs_path [d, link]" "path_join (abs_path [d]) [link, f] = abs_path [d, link, f]"
    using join [of "[link]"] join [of "[link, f]"] normalize_abs assms(1) by (simp_all add: path_join_def)
  then show ?thesis using assms(2,3) unfolding realpathExistingPrefix_def segs by (simp add: j1)
qed

end
