(* ===== verification/TerminalModes.thy ===== *)
theory TerminalModes
  imports Attention TerminalText
begin

section \<open>What a session reads off its terminal's byte stream\<close>

text \<open>
  The byte scanners of \<open>src/services/attention-detect.ts\<close>, the mode tracker of
  \<open>src/services/terminal-mode-tracker.ts\<close> and the part of \<open>Session.onData\<close> of
  \<open>src/services/pty-manager.ts\<close> that drives both and feeds the attention machine of \<open>Attention\<close>.
  Output arrives as reads of arbitrary length, so a sequence may be cut anywhere; two carries keep an
  unfinished prefix for the next read. A string is the list of its UTF-16 code units.
  The regular expressions are written out as the matches they find. No match of a mode switch holds an
  escape beyond its first unit, so trying every position finds the matches of \<open>matchAll\<close>.
\<close>

subsection \<open>OSC sequences, titles and bells\<close>

definition digit_unit :: "nat \<Rightarrow> bool" where "digit_unit c \<longleftrightarrow> 48 \<le> c \<and> c \<le> 57"

text \<open>The lazy payload up to the first BEL or \<open>ESC \\<close>, and what follows the terminator.\<close>

fun osc_body :: "jsstring \<Rightarrow> (jsstring \<times> jsstring) option" where
  "osc_body [] = None"
| "osc_body (c # s) = (if c = 7 then Some ([], s)
     else if c = 27 \<and> s \<noteq> [] \<and> hd s = 92 then Some ([], tl s)
     else map_option (\<lambda>(p, r). (c # p, r)) (osc_body s))"

text \<open>\<open>OSC_SEQUENCE\<close> after its \<open>ESC ]\<close>: code, payload and the rest of the text.\<close>

definition osc_at :: "jsstring \<Rightarrow> ((jsstring \<times> jsstring) \<times> jsstring) option" where
  "osc_at s = (let code = takeWhile digit_unit s in case dropWhile digit_unit s of
       [] \<Rightarrow> None
     | c # r \<Rightarrow> if c = 59 \<and> code \<noteq> [] then map_option (\<lambda>(p, r'). ((code, p), r')) (osc_body r) else None)"

lemma osc_body_length: "osc_body s = Some (p, r) \<Longrightarrow> length r < length s"
  by (induction s arbitrary: p r) (fastforce split: if_splits)+

lemma osc_at_length: "osc_at s = Some (m, r) \<Longrightarrow> length r < length s"
  using length_dropWhile_le [of digit_unit s]
  by (fastforce simp: osc_at_def Let_def dest: osc_body_length split: list.splits if_splits)

text \<open>The matches of a chunk, and the chunk with every match replaced by nothing.\<close>

function osc_split :: "jsstring \<Rightarrow> (jsstring \<times> jsstring) list \<times> jsstring" where
  "osc_split [] = ([], [])"
| "osc_split (c # s) = (if c = 27 \<and> s \<noteq> [] \<and> hd s = 93 then (case osc_at (tl s) of
         Some (m, r) \<Rightarrow> (let (ms, t) = osc_split r in (m # ms, t))
       | None \<Rightarrow> (let (ms, t) = osc_split s in (ms, c # t)))
     else (let (ms, t) = osc_split s in (ms, c # t)))"
  by pat_completeness auto
termination
  by (relation "measure length") (auto dest!: osc_at_length)

record attention_signal =
  sg_bell :: bool
  sg_notification :: bool
  titleChange :: "jsstring option"

definition last_of :: "'a list \<Rightarrow> 'a option" where
  "last_of xs = (if xs = [] then None else Some (last xs))"

definition detectAttentionSignals :: "jsstring \<Rightarrow> attention_signal" where
  "detectAttentionSignals chunk = (let (ms, rest) = osc_split chunk in
     \<lparr>sg_bell = (7 \<in> set rest),
      sg_notification = list_ex (\<lambda>(code, _). code = lit ''9'' \<or> code = lit ''777'') ms,
      titleChange = last_of (map snd (filter (\<lambda>(code, _). code = lit ''0'' \<or> code = lit ''2'') ms))\<rparr>)"

datatype title_activity = Act_working | Act_idle

fun has_word :: "jsstring \<Rightarrow> jsstring \<Rightarrow> bool" where
  "has_word w [] \<longleftrightarrow> w = []"
| "has_word w (c # s) \<longleftrightarrow> take (length w) (c # s) = w \<or> has_word w s"

definition WORKING_TITLE_PATTERN :: "jsstring list" where
  "WORKING_TITLE_PATTERN = [lit ''working'', lit ''thinking'', lit ''processing'', lit ''generating'', lit ''running'',
     lit ''compiling'', lit ''...'', [8230]]"

definition IDLE_TITLE_PATTERN :: "jsstring list" where
  "IDLE_TITLE_PATTERN = [lit ''waiting'', lit ''idle'', lit ''prompt'', lit ''done'', lit ''ready'']"

definition title_matches :: "jsstring list \<Rightarrow> jsstring \<Rightarrow> bool" where
  "title_matches pats title \<longleftrightarrow> list_ex (\<lambda>w. has_word w (map lower_unit title)) pats"

definition classifyActivityFromTitle :: "jsstring option \<Rightarrow> title_activity option" where
  "classifyActivityFromTitle title = (case title of
       None \<Rightarrow> None
     | Some t \<Rightarrow> if title_matches IDLE_TITLE_PATTERN t then Some Act_idle
         else if title_matches WORKING_TITLE_PATTERN t then Some Act_working else None)"

subsection \<open>The announced working directory\<close>

text \<open>\<open>OSC_CWD_SEQUENCE\<close>: the payloads of the matches, left to right.\<close>

function cwd_payloads :: "jsstring \<Rightarrow> jsstring list" where
  "cwd_payloads [] = []"
| "cwd_payloads (c # s) = (if c = 27 \<and> take 3 s = [93, 55, 59] then (case osc_body (drop 3 s) of
         Some (p, r) \<Rightarrow> p # cwd_payloads r
       | None \<Rightarrow> cwd_payloads s)
     else cwd_payloads s)"
  by pat_completeness auto
termination
  by (relation "measure length") (auto dest!: osc_body_length)

definition hex_digit_value :: "nat \<Rightarrow> nat option" where
  "hex_digit_value c = (if 48 \<le> c \<and> c \<le> 57 then Some (c - 48) else if 65 \<le> c \<and> c \<le> 70 then Some (c - 55)
     else if 97 \<le> c \<and> c \<le> 102 then Some (c - 87) else None)"

text \<open>One \<open>%XX\<close> at the head of the text: its byte and the rest.\<close>

definition percent_byte :: "jsstring \<Rightarrow> (nat \<times> jsstring) option" where
  "percent_byte s = (case s of
       p # a # b # r \<Rightarrow> (if p = 37 then (case (hex_digit_value a, hex_digit_value b) of
           (Some x, Some y) \<Rightarrow> Some (16 * x + y, r) | _ \<Rightarrow> None) else None)
     | _ \<Rightarrow> None)"

text \<open>The continuation bytes of a UTF-8 sequence, six bits each.\<close>

fun continuation :: "nat \<Rightarrow> nat \<Rightarrow> jsstring \<Rightarrow> (nat \<times> jsstring) option" where
  "continuation 0 acc s = Some (acc, s)"
| "continuation (Suc k) acc s = (case percent_byte s of
     Some (b, r) \<Rightarrow> if 128 \<le> b \<and> b < 192 then continuation k (acc * 64 + (b - 128)) r else None
   | None \<Rightarrow> None)"

definition utf16 :: "nat \<Rightarrow> jsstring" where
  "utf16 v = (if v < 65536 then [v] else [55296 + (v - 65536) div 1024, 56320 + (v - 65536) mod 1024])"

text \<open>One escape of \<open>decodeURIComponent\<close>: overlong forms, surrogates and values above the last code point throw.\<close>

definition percent_char :: "jsstring \<Rightarrow> (jsstring \<times> jsstring) option" where
  "percent_char s = (case percent_byte s of
       None \<Rightarrow> None
     | Some (b, r) \<Rightarrow>
         if b < 128 then Some ([b], r)
         else if 192 \<le> b \<and> b < 224 then (case continuation 1 (b - 192) r of
             Some (v, r') \<Rightarrow> if 128 \<le> v then Some (utf16 v, r') else None | None \<Rightarrow> None)
         else if 224 \<le> b \<and> b < 240 then (case continuation 2 (b - 224) r of
             Some (v, r') \<Rightarrow> if 2048 \<le> v \<and> \<not> (55296 \<le> v \<and> v < 57344) then Some (utf16 v, r') else None | None \<Rightarrow> None)
         else if 240 \<le> b \<and> b < 248 then (case continuation 3 (b - 240) r of
             Some (v, r') \<Rightarrow> if 65536 \<le> v \<and> v < 1114112 then Some (utf16 v, r') else None | None \<Rightarrow> None)
         else None)"

lemma percent_byte_length: "percent_byte s = Some (b, r) \<Longrightarrow> length r < length s"
  by (auto simp: percent_byte_def split: list.splits if_splits option.splits)

lemma continuation_length: "continuation k acc s = Some (v, r) \<Longrightarrow> length r \<le> length s"
  by (induction k acc s rule: continuation.induct) (fastforce dest: percent_byte_length split: option.splits if_splits)+

lemma percent_char_length: "percent_char s = Some (u, r) \<Longrightarrow> length r < length s"
  by (fastforce simp: percent_char_def dest: percent_byte_length continuation_length split: option.splits if_splits)

text \<open>\<open>decodeURIComponent\<close>; \<open>None\<close> is the \<open>URIError\<close> it throws.\<close>

function decodeURIComponent :: "jsstring \<Rightarrow> jsstring option" where
  "decodeURIComponent [] = Some []"
| "decodeURIComponent (c # s) = (if c = 37 then (case percent_char (c # s) of
         Some (u, r) \<Rightarrow> map_option (\<lambda>t. u @ t) (decodeURIComponent r) | None \<Rightarrow> None)
     else map_option (\<lambda>t. c # t) (decodeURIComponent s))"
  by pat_completeness auto
termination
  by (relation "measure length") (auto dest!: percent_char_length)

definition strip_scheme :: "jsstring \<Rightarrow> jsstring" where
  "strip_scheme p = (if take 7 p = lit ''file://'' then dropWhile (\<lambda>c. c \<noteq> 47) (drop 7 p) else p)"

text \<open>
  The directory one payload announces. \<open>platform_path\<close> is \<open>msysToWindowsPath\<close> on Windows (it rests on
  \<open>path.win32.normalize\<close>) and the identity on every other host.
\<close>

definition announced_cwd :: "(jsstring \<Rightarrow> jsstring) \<Rightarrow> jsstring \<Rightarrow> jsstring option" where
  "announced_cwd platform_path payload = (let w = strip_scheme payload in
     if w \<noteq> [] \<and> hd w = 47 then map_option platform_path (decodeURIComponent w) else None)"

definition detectCwdChange :: "(jsstring \<Rightarrow> jsstring) \<Rightarrow> jsstring \<Rightarrow> jsstring option" where
  "detectCwdChange platform_path chunk =
     last_of (List.map_filter (announced_cwd platform_path) (cwd_payloads chunk))"

fun last_osc_tail :: "jsstring \<Rightarrow> jsstring option" where
  "last_osc_tail [] = None"
| "last_osc_tail (c # s) = (case last_osc_tail s of Some t \<Rightarrow> Some t
     | None \<Rightarrow> if c = 27 \<and> s \<noteq> [] \<and> hd s = 93 then Some (c # s) else None)"

fun osc_terminated :: "jsstring \<Rightarrow> bool" where
  "osc_terminated [] \<longleftrightarrow> False"
| "osc_terminated (c # s) \<longleftrightarrow> c = 7 \<or> c = 27 \<and> s \<noteq> [] \<and> hd s = 92 \<or> osc_terminated s"

definition carryPartialOsc :: "jsstring \<Rightarrow> jsstring" where
  "carryPartialOsc chunk = (case last_osc_tail chunk of
       None \<Rightarrow> if chunk \<noteq> [] \<and> last chunk = 27 then [27] else []
     | Some t \<Rightarrow> if osc_terminated (drop 2 t) then [] else t)"

subsection \<open>Mode switches\<close>

text \<open>
  \<open>ESC [ ? code h\<close> or \<open>l\<close>, after the escape: the code and whether it sets. The alternatives of each
  pattern are digit strings followed by a letter, so only the whole run of digits can match.
\<close>

definition switch_letter :: "jsstring \<Rightarrow> bool option" where
  "switch_letter s = (case s of c # _ \<Rightarrow> if c = 104 then Some True else if c = 108 then Some False else None | [] \<Rightarrow> None)"

definition mode_match :: "jsstring list \<Rightarrow> jsstring \<Rightarrow> (jsstring \<times> bool) option" where
  "mode_match codes s = (case s of
       a # b # r \<Rightarrow> (let code = takeWhile digit_unit r in
         if a = 91 \<and> b = 63 \<and> code \<in> set codes
         then map_option (\<lambda>on. (code, on)) (switch_letter (dropWhile digit_unit r)) else None)
     | _ \<Rightarrow> None)"

text \<open>The matches from position \<open>i\<close> on, each with the index after its last unit.\<close>

fun mode_matches :: "jsstring list \<Rightarrow> nat \<Rightarrow> jsstring \<Rightarrow> ((jsstring \<times> bool) \<times> nat) list" where
  "mode_matches codes i [] = []"
| "mode_matches codes i (c # s) =
     (case if c = 27 then mode_match codes s else None of
        Some (code, on) \<Rightarrow> ((code, on), i + 4 + length code) # mode_matches codes (Suc i) s
      | None \<Rightarrow> mode_matches codes (Suc i) s)"

definition ALT_SCREEN_CODES :: "jsstring list" where
  "ALT_SCREEN_CODES = [lit ''1049'', lit ''1047'', lit ''47'']"

definition MOUSE_CODES :: "jsstring list" where
  "MOUSE_CODES = [lit ''9'', lit ''1000'', lit ''1002'', lit ''1003'', lit ''1005'', lit ''1006'', lit ''1015'', lit ''1016'']"

definition BRACKETED_PASTE_CODES :: "jsstring list" where
  "BRACKETED_PASTE_CODES = [lit ''2004'']"

text \<open>The last switch of a chunk: whether it enters the alternate screen, and where it ends.\<close>

definition detectAltScreenSwitch :: "jsstring \<Rightarrow> (bool \<times> nat) option" where
  "detectAltScreenSwitch chunk = map_option (\<lambda>((_, on), e). (on, e)) (last_of (mode_matches ALT_SCREEN_CODES 0 chunk))"

datatype mouse_protocol = MP_NONE | MP_X10 | MP_VT200 | MP_DRAG | MP_ANY
datatype mouse_encoding = ME_DEFAULT | ME_SGR | ME_SGR_PIXELS

record mouse_tracking =
  mt_protocol :: mouse_protocol
  mt_encoding :: mouse_encoding

definition INITIAL_MOUSE_TRACKING_STATE :: mouse_tracking where
  "INITIAL_MOUSE_TRACKING_STATE = \<lparr>mt_protocol = MP_NONE, mt_encoding = ME_DEFAULT\<rparr>"

definition MOUSE_PROTOCOL_BY_CODE :: "jsstring \<Rightarrow> mouse_protocol option" where
  "MOUSE_PROTOCOL_BY_CODE code = map_of [(lit ''9'', MP_X10), (lit ''1000'', MP_VT200), (lit ''1002'', MP_DRAG),
     (lit ''1003'', MP_ANY)] code"

definition MOUSE_ENCODING_BY_CODE :: "jsstring \<Rightarrow> mouse_encoding option" where
  "MOUSE_ENCODING_BY_CODE code = map_of [(lit ''1006'', ME_SGR), (lit ''1016'', ME_SGR_PIXELS)] code"

definition mouse_change :: "mouse_tracking \<Rightarrow> jsstring \<times> bool \<Rightarrow> mouse_tracking" where
  "mouse_change st = (\<lambda>(code, on). case MOUSE_PROTOCOL_BY_CODE code of
       Some p \<Rightarrow> st\<lparr>mt_protocol := if on then p else MP_NONE\<rparr>
     | None \<Rightarrow> (case MOUSE_ENCODING_BY_CODE code of
         Some e \<Rightarrow> st\<lparr>mt_encoding := if on then e else ME_DEFAULT\<rparr>
       | None \<Rightarrow> if \<not> on then st\<lparr>mt_encoding := ME_DEFAULT\<rparr> else st))"

definition applyMouseModeChanges :: "jsstring \<Rightarrow> mouse_tracking \<Rightarrow> mouse_tracking" where
  "applyMouseModeChanges chunk prev = foldl mouse_change prev (map fst (mode_matches MOUSE_CODES 0 chunk))"

definition detectBracketedPaste :: "jsstring \<Rightarrow> bool option" where
  "detectBracketedPaste chunk = map_option (\<lambda>((_, on), _). on) (last_of (mode_matches BRACKETED_PASTE_CODES 0 chunk))"

fun last_esc_tail :: "jsstring \<Rightarrow> jsstring" where
  "last_esc_tail [] = []"
| "last_esc_tail (c # s) = (if last_esc_tail s \<noteq> [] then last_esc_tail s else if c = 27 then c # s else [])"

text \<open>\<open>PARTIAL_ESCAPE_TAIL\<close> after the escape.\<close>

definition partial_tail :: "jsstring \<Rightarrow> bool" where
  "partial_tail t \<longleftrightarrow> (case t of
       [] \<Rightarrow> True
     | [a] \<Rightarrow> a = 91
     | a # b # ds \<Rightarrow> a = 91 \<and> b = 63 \<and> length ds \<le> 4 \<and> list_all digit_unit ds)"

definition carryPartialEscape :: "jsstring \<Rightarrow> jsstring" where
  "carryPartialEscape chunk = (let tail = last_esc_tail chunk in
     if tail \<noteq> [] \<and> partial_tail (tl tail) then tail else [])"

subsection \<open>The mode tracker\<close>

record mode_tracker =
  inAltScreen :: bool
  mouseTracking :: mouse_tracking
  bracketedPaste :: bool
  detectCarry :: jsstring
  cwdDetectCarry :: jsstring

definition new_modes :: mode_tracker where
  "new_modes = \<lparr>inAltScreen = False, mouseTracking = INITIAL_MOUSE_TRACKING_STATE, bracketedPaste = False,
     detectCarry = [], cwdDetectCarry = []\<rparr>"

definition carriesEmpty :: "mode_tracker \<Rightarrow> bool" where
  "carriesEmpty t \<longleftrightarrow> detectCarry t = [] \<and> cwdDetectCarry t = []"

definition detectChunk :: "jsstring \<Rightarrow> mode_tracker \<Rightarrow> jsstring" where
  "detectChunk data t = detectCarry t @ data"

record alt_screen_result =
  as_alt :: bool
  as_endIndex :: nat
  as_flipped :: bool
  as_exited :: bool

definition applyAltScreen :: "jsstring \<Rightarrow> mode_tracker \<Rightarrow> alt_screen_result option \<times> mode_tracker" where
  "applyAltScreen chunk t = (case detectAltScreenSwitch chunk of
       None \<Rightarrow> (None, t)
     | Some (now_alt, e) \<Rightarrow> (let flipped = (now_alt \<noteq> inAltScreen t); exited = (flipped \<and> inAltScreen t \<and> \<not> now_alt) in
         (Some \<lparr>as_alt = now_alt, as_endIndex = e, as_flipped = flipped, as_exited = exited\<rparr>,
          if flipped then t\<lparr>inAltScreen := now_alt\<rparr> else t)))"

definition applyInputModes :: "jsstring \<Rightarrow> mode_tracker \<Rightarrow> mode_tracker" where
  "applyInputModes chunk t =
     (let t1 = t\<lparr>mouseTracking := applyMouseModeChanges chunk (mouseTracking t)\<rparr>;
          t2 = (case detectBracketedPaste chunk of None \<Rightarrow> t1 | Some b \<Rightarrow> t1\<lparr>bracketedPaste := b\<rparr>)
      in t2\<lparr>detectCarry := carryPartialEscape chunk\<rparr>)"

definition detectCwd :: "(jsstring \<Rightarrow> jsstring) \<Rightarrow> jsstring \<Rightarrow> mode_tracker \<Rightarrow> jsstring option \<times> mode_tracker" where
  "detectCwd platform_path data t = (let chunk = cwdDetectCarry t @ data in
     (detectCwdChange platform_path chunk, t\<lparr>cwdDetectCarry := carryPartialOsc chunk\<rparr>))"

definition clearDetectCarry :: "mode_tracker \<Rightarrow> mode_tracker" where
  "clearDetectCarry t = t\<lparr>detectCarry := []\<rparr>"

definition clearCwdDetectCarry :: "mode_tracker \<Rightarrow> mode_tracker" where
  "clearCwdDetectCarry t = t\<lparr>cwdDetectCarry := []\<rparr>"

definition MOUSE_PROTOCOL_ENABLE :: "mouse_protocol \<Rightarrow> jsstring" where
  "MOUSE_PROTOCOL_ENABLE p = (case p of MP_NONE \<Rightarrow> [] | MP_X10 \<Rightarrow> 27 # lit ''[?9h'' | MP_VT200 \<Rightarrow> 27 # lit ''[?1000h''
     | MP_DRAG \<Rightarrow> 27 # lit ''[?1002h'' | MP_ANY \<Rightarrow> 27 # lit ''[?1003h'')"

definition MOUSE_ENCODING_ENABLE :: "mouse_encoding \<Rightarrow> jsstring" where
  "MOUSE_ENCODING_ENABLE e = (case e of ME_DEFAULT \<Rightarrow> [] | ME_SGR \<Rightarrow> 27 # lit ''[?1006h''
     | ME_SGR_PIXELS \<Rightarrow> 27 # lit ''[?1016h'')"

definition buildPreamble :: "mode_tracker \<Rightarrow> jsstring" where
  "buildPreamble t = (27 # (if inAltScreen t then lit ''[?1049h'' else lit ''[?1049l''))
     @ MOUSE_PROTOCOL_ENABLE (mt_protocol (mouseTracking t))
     @ MOUSE_ENCODING_ENABLE (mt_encoding (mouseTracking t))
     @ (if bracketedPaste t then 27 # lit ''[?2004h'' else [])"

text \<open>
  The persisted modes. A state file is not trusted: a field of the wrong type is \<open>None\<close>, and the mouse
  fields are whatever strings the file holds.
\<close>

record stored_modes =
  sm_inAltScreen :: "bool option"
  sm_mouse :: "(string option \<times> string option) option"
  sm_bracketedPaste :: "bool option"

fun protocol_name :: "mouse_protocol \<Rightarrow> string" where
  "protocol_name MP_NONE = ''NONE''"
| "protocol_name MP_X10 = ''X10''"
| "protocol_name MP_VT200 = ''VT200''"
| "protocol_name MP_DRAG = ''DRAG''"
| "protocol_name MP_ANY = ''ANY''"

fun encoding_name :: "mouse_encoding \<Rightarrow> string" where
  "encoding_name ME_DEFAULT = ''DEFAULT''"
| "encoding_name ME_SGR = ''SGR''"
| "encoding_name ME_SGR_PIXELS = ''SGR_PIXELS''"

definition valid_protocol :: "string option \<Rightarrow> mouse_protocol option" where
  "valid_protocol s = find (\<lambda>p. s = Some (protocol_name p)) [MP_NONE, MP_X10, MP_VT200, MP_DRAG, MP_ANY]"

definition valid_encoding :: "string option \<Rightarrow> mouse_encoding option" where
  "valid_encoding s = find (\<lambda>e. s = Some (encoding_name e)) [ME_DEFAULT, ME_SGR, ME_SGR_PIXELS]"

definition snapshot :: "mode_tracker \<Rightarrow> stored_modes" where
  "snapshot t = \<lparr>sm_inAltScreen = Some (inAltScreen t),
     sm_mouse = Some (Some (protocol_name (mt_protocol (mouseTracking t))), Some (encoding_name (mt_encoding (mouseTracking t)))),
     sm_bracketedPaste = Some (bracketedPaste t)\<rparr>"

definition restore :: "stored_modes option \<Rightarrow> mode_tracker \<Rightarrow> mode_tracker" where
  "restore stored t = (case stored of None \<Rightarrow> t | Some s \<Rightarrow>
     (let t1 = (case sm_inAltScreen s of None \<Rightarrow> t | Some alt \<Rightarrow>
        (let (p, e) = (case sm_mouse s of Some pe \<Rightarrow> pe | None \<Rightarrow> (Some ''NONE'', Some ''DEFAULT''));
             t0 = t\<lparr>inAltScreen := alt\<rparr>
         in (case (valid_protocol p, valid_encoding e) of
               (Some vp, Some ve) \<Rightarrow> t0\<lparr>mouseTracking := \<lparr>mt_protocol = vp, mt_encoding = ve\<rparr>\<rparr>
             | _ \<Rightarrow> t0)))
      in if sm_bracketedPaste s = None then t1 else t1\<lparr>bracketedPaste := False\<rparr>))"

subsection \<open>One read of the terminal\<close>

text \<open>\<open>Buffer.byteLength(s, "utf8")\<close>; a lone surrogate is written as the replacement character.\<close>

definition utf8_length :: "jsstring \<Rightarrow> nat" where
  "utf8_length s = sum_list (map (\<lambda>cp. case cp of
       [c] \<Rightarrow> if c < 128 then 1 else if c < 2048 then 2 else 3 | _ \<Rightarrow> 4) (code_points s))"

definition STREAK_GAP_MS :: int where "STREAK_GAP_MS = 4000"

record pty_session =
  ps_modes :: mode_tracker
  liveCwd :: "jsstring option"
  lastTitle :: "jsstring option"
  lastTitleActivity :: "title_activity option"
  ps_tracker :: attention_tracker
  lastActivityAt :: "int option"
  activityStreakStart :: "int option"
  altScreenExitedAtBytes :: "int option"

text \<open>What a read sends out: events, and titles handed to the debouncer of title events.\<close>

datatype pty_effect = Fx_event notification_event | Fx_title jsstring

definition NO_ATTENTION_SIGNALS :: attention_signal where
  "NO_ATTENTION_SIGNALS = \<lparr>sg_bell = False, sg_notification = False, titleChange = None\<rparr>"

text \<open>A read that cannot hold a sequence skips the detectors.\<close>

definition plainChunk :: "jsstring \<Rightarrow> mode_tracker \<Rightarrow> bool" where
  "plainChunk data t \<longleftrightarrow> carriesEmpty t \<and> 27 \<notin> set data \<and> 7 \<notin> set data"

text \<open>
  The detectors' part of \<open>onData\<close>. \<open>pushed\<close> is \<open>pushedToScrollback\<close>, \<open>pushedTotal\<close> is
  \<open>totalBytesEverPushed()\<close> after the push. The result says whether the alternate screen was left.
\<close>

definition track_modes :: "(jsstring \<Rightarrow> jsstring) \<Rightarrow> jsstring \<Rightarrow> bool \<Rightarrow> int \<Rightarrow> pty_session
    \<Rightarrow> bool \<times> pty_effect list \<times> pty_session" where
  "track_modes platform_path data pushed pushedTotal s =
     (let chunk = detectChunk data (ps_modes s);
          carry_length = length (detectCarry (ps_modes s));
          (sw, m1) = applyAltScreen chunk (ps_modes s);
          exited = (case sw of Some r \<Rightarrow> as_flipped r \<and> as_exited r | None \<Rightarrow> False);
          mark = (case sw of
              Some r \<Rightarrow> if exited then Some (if pushed
                  then pushedTotal - (int (utf8_length data) - int (utf8_length (take (as_endIndex r - carry_length) data)))
                  else pushedTotal)
                else altScreenExitedAtBytes s
            | None \<Rightarrow> altScreenExitedAtBytes s);
          fx = (case sw of
              Some r \<Rightarrow> if as_flipped r then [Fx_event (''status_change'',
                  [(''screen'', JStr (if as_alt r then ''alt'' else ''primary''))])] else []
            | None \<Rightarrow> []);
          (cwd, m2) = detectCwd platform_path data (applyInputModes chunk m1)
      in (exited, fx, s\<lparr>ps_modes := m2, altScreenExitedAtBytes := mark,
            liveCwd := (case cwd of Some c \<Rightarrow> Some c | None \<Rightarrow> liveCwd s)\<rparr>))"

definition track_title :: "attention_signal \<Rightarrow> pty_session \<Rightarrow> bool \<times> pty_effect list \<times> pty_session" where
  "track_title sg s = (case titleChange sg of
       None \<Rightarrow> (False, [], s)
     | Some title \<Rightarrow>
         if lastTitle s \<noteq> Some title then
           (let act = classifyActivityFromTitle (Some title) in
            (lastTitleActivity s = Some Act_working \<and> act = Some Act_idle, [Fx_title title],
             s\<lparr>lastTitleActivity := (case act of None \<Rightarrow> lastTitleActivity s | Some a \<Rightarrow> Some a), lastTitle := Some title\<rparr>))
         else (False, [], s))"

text \<open>The strongest candidate of the read.\<close>

definition candidateKind :: "bool \<Rightarrow> bool \<Rightarrow> attention_signal \<Rightarrow> attention_signal_kind option" where
  "candidateKind altScreenExited titleWentIdle sg =
     (if altScreenExited then Some AltScreenExit else if titleWentIdle then Some TitleIdle
      else if sg_notification sg then Some Notification else if sg_bell sg then Some Bell else None)"

definition feed_attention :: "attention_signal_kind option \<Rightarrow> bool \<Rightarrow> int \<Rightarrow> attention_tracker
    \<Rightarrow> attention_tracker \<times> notification_event list" where
  "feed_attention candidate suppressing now t =
     (let fed = (\<lambda>i. let (t', evs) = applyAttentionTransition (advanceAttention (at_state t) i) None t
                 in (cancelDeferred ApiError (cancelDeferred ToolFailure t'), evs))
      in case candidate of
           Some k \<Rightarrow> fed (In_signal k now)
         | None \<Rightarrow> if suppressing then (t, []) else fed (In_output now))"

text \<open>\<open>suppressing\<close> is \<open>redrawNudge.suppressingOutput\<close>.\<close>

definition onData :: "(jsstring \<Rightarrow> jsstring) \<Rightarrow> jsstring \<Rightarrow> bool \<Rightarrow> int \<Rightarrow> int \<Rightarrow> pty_session
    \<Rightarrow> pty_session \<times> pty_effect list" where
  "onData platform_path data suppressing pushedTotal now s =
     (let plain = plainChunk data (ps_modes s);
          (exited, fx1, s1) = (if plain then (False, [], s)
            else track_modes platform_path data (data \<noteq> [] \<and> \<not> suppressing) pushedTotal s);
          s2 = s1\<lparr>activityStreakStart := (case lastActivityAt s1 of
                 Some prev \<Rightarrow> if now - prev \<ge> STREAK_GAP_MS then Some now else activityStreakStart s1
               | None \<Rightarrow> Some now), lastActivityAt := Some now\<rparr>;
          sg = (if plain then NO_ATTENTION_SIGNALS else detectAttentionSignals data);
          (idle, fx2, s3) = track_title sg s2;
          (t', evs) = feed_attention (candidateKind exited idle sg) suppressing now (ps_tracker s3)
      in (s3\<lparr>ps_tracker := t'\<rparr>, fx1 @ fx2 @ map Fx_event evs))"

subsection \<open>The position of a read boundary does not matter\<close>

fun switches :: "jsstring list \<Rightarrow> jsstring \<Rightarrow> (jsstring \<times> bool) list" where
  "switches codes [] = []"
| "switches codes (c # s) = (case if c = 27 then mode_match codes s else None of
     Some m \<Rightarrow> m # switches codes s | None \<Rightarrow> switches codes s)"

lemma switches_of_matches: "map fst (mode_matches codes i s) = switches codes s"
  by (induction s arbitrary: i) (auto split: option.splits)

definition short_codes :: "jsstring list \<Rightarrow> bool" where
  "short_codes codes \<longleftrightarrow> (\<forall>d \<in> set codes. length d \<le> 4)"

lemma code_lists [simp]: "short_codes ALT_SCREEN_CODES" "short_codes MOUSE_CODES" "short_codes BRACKETED_PASTE_CODES"
  by (simp_all add: short_codes_def ALT_SCREEN_CODES_def MOUSE_CODES_def BRACKETED_PASTE_CODES_def)

text \<open>A match never reads past the next escape.\<close>

lemma digit_not_esc: "digit_unit c \<Longrightarrow> c \<noteq> 27"
  by (auto simp: digit_unit_def)

lemma digits_before_esc:
  "takeWhile digit_unit (takeWhile (\<lambda>c. c \<noteq> 27) s) = takeWhile digit_unit s"
  "dropWhile digit_unit (takeWhile (\<lambda>c. c \<noteq> 27) s) = takeWhile (\<lambda>c. c \<noteq> 27) (dropWhile digit_unit s)"
  by (induction s) (auto dest: digit_not_esc)

lemma switch_letter_before_esc: "switch_letter (takeWhile (\<lambda>c. c \<noteq> 27) s) = switch_letter s"
  by (cases s) (auto simp: switch_letter_def)

lemma mode_match_before_esc: "mode_match codes (takeWhile (\<lambda>c. c \<noteq> 27) s) = mode_match codes s"
  by (auto simp: mode_match_def digits_before_esc switch_letter_before_esc Let_def split: list.split)

lemma all_digits: "list_all digit_unit r \<Longrightarrow> takeWhile digit_unit (r @ s) = r @ takeWhile digit_unit s
    \<and> dropWhile digit_unit (r @ s) = dropWhile digit_unit s"
  by (induction r) auto

lemma mode_match_append_esc: "27 \<in> set s \<Longrightarrow> mode_match codes (s @ d) = mode_match codes s"
  using mode_match_before_esc [of codes "s @ d"] mode_match_before_esc [of codes s] takeWhile_append1 [of 27 s "\<lambda>c. c \<noteq> 27" d]
  by simp

lemma only_digits: "\<forall>c \<in> set r. digit_unit c \<Longrightarrow> takeWhile digit_unit r = r"
  "\<forall>c \<in> set r. digit_unit c \<Longrightarrow> dropWhile digit_unit r = []"
  by simp_all

lemma partial_no_match: "partial_tail s \<Longrightarrow> mode_match codes s = None"
  by (auto simp: partial_tail_def mode_match_def switch_letter_def list_all_iff only_digits split: list.splits)

lemma settled_match:
  assumes "short_codes codes" and "\<not> partial_tail s"
  shows "mode_match codes (s @ d) = mode_match codes s"
proof (cases "\<exists>r. s = 91 # 63 # r")
  case True
  then obtain r where r: "s = 91 # 63 # r" by blast
  show ?thesis
  proof (cases "list_all digit_unit r")
    case True
    then have "4 < length r" using assms(2) by (simp add: r partial_tail_def)
    moreover note digits = all_digits [OF True, of d] all_digits [OF True, of "[]"]
    moreover have "length code \<le> 4" if "code \<in> set codes" for code
      using assms(1) that by (simp add: short_codes_def)
    ultimately have "r \<notin> set codes" "r @ takeWhile digit_unit d \<notin> set codes"
      by fastforce+
    then show ?thesis using digits by (simp add: r mode_match_def only_digits)
  next
    case False
    then obtain x where "x \<in> set r" "\<not> digit_unit x" by (auto simp: list_all_iff)
    then have "takeWhile digit_unit (r @ d) = takeWhile digit_unit r" "dropWhile digit_unit (r @ d) = dropWhile digit_unit r @ d"
      "dropWhile digit_unit r \<noteq> []"
      by (auto simp: dropWhile_eq_Nil_conv)
    then show ?thesis
      by (cases "dropWhile digit_unit r") (simp_all add: r mode_match_def switch_letter_def Let_def)
  qed
next
  case False
  with assms(2) show ?thesis
    by (auto simp: partial_tail_def mode_match_def Let_def split: list.splits)
qed

lemma switches_plain: "27 \<notin> set s \<Longrightarrow> switches codes (s @ d) = switches codes d"
  by (induction s) auto

lemma last_esc_tail_plain: "27 \<notin> set s \<Longrightarrow> last_esc_tail s = []"
  by (induction s) auto

lemma last_esc_tail_esc: "27 \<in> set s \<Longrightarrow> last_esc_tail s \<noteq> []"
  by (induction s) auto

text \<open>Scanning one read after the other finds the switches of the whole text.\<close>

lemma switches_carry:
  assumes "short_codes codes"
  shows "switches codes (c @ d) = switches codes c @ switches codes (carryPartialEscape c @ d)"
proof (induction c)
  case (Cons x s)
  consider "x \<noteq> 27" | "x = 27" "27 \<in> set s" | "x = 27" "27 \<notin> set s" by blast
  then show ?case
  proof cases
    case 1
    with Cons show ?thesis by (simp add: carryPartialEscape_def)
  next
    case 2
    with Cons show ?thesis
      by (simp add: carryPartialEscape_def last_esc_tail_esc mode_match_append_esc split: option.split)
  next
    case 3
    then have "last_esc_tail s = []" "switches codes (s @ d) = switches codes d" "switches codes s = []"
      using switches_plain [of s codes d] switches_plain [of s codes "[]"] by (simp_all add: last_esc_tail_plain)
    with 3 show ?thesis
      using settled_match [OF assms, of s d] partial_no_match [of s codes]
      by (auto simp: carryPartialEscape_def split: option.splits)
  qed
qed (simp add: carryPartialEscape_def)

lemma last_esc_tail_append: "last_esc_tail (c @ d) = (if 27 \<in> set d then last_esc_tail d
    else if last_esc_tail c = [] then [] else last_esc_tail c @ d)"
  by (induction c) (auto simp: last_esc_tail_esc last_esc_tail_plain)

lemma last_esc_tail_hd: "last_esc_tail c \<noteq> [] \<Longrightarrow> last_esc_tail c = 27 # tl (last_esc_tail c) \<and> 27 \<notin> set (tl (last_esc_tail c))"
proof (induction c)
  case (Cons x s)
  then show ?case by (cases "27 \<in> set s") (auto simp: last_esc_tail_esc last_esc_tail_plain split: if_splits)
qed simp

lemma partial_prefix: "partial_tail (s @ d) \<Longrightarrow> partial_tail s"
  by (auto simp: partial_tail_def split: list.splits)

lemma carry_carry: "carryPartialEscape (carryPartialEscape c @ d) = carryPartialEscape (c @ d)"
proof (cases "last_esc_tail c = []")
  case False
  obtain t where t: "last_esc_tail c = 27 # t" "27 \<notin> set t"
    using last_esc_tail_hd [OF False] by metis
  then have "last_esc_tail (27 # t) = 27 # t" by (simp add: last_esc_tail_plain)
  with t show ?thesis
    by (auto simp: carryPartialEscape_def last_esc_tail_append last_esc_tail_plain Let_def dest: partial_prefix)
qed (simp add: carryPartialEscape_def last_esc_tail_append last_esc_tail_plain)

lemma carry_plain: "27 \<notin> set c \<Longrightarrow> carryPartialEscape c = []"
  by (simp add: carryPartialEscape_def last_esc_tail_plain)

text \<open>The modes a read leaves depend on the carry and the text alone.\<close>

definition modes_view :: "mode_tracker \<Rightarrow> bool \<times> mouse_tracking \<times> bool \<times> jsstring" where
  "modes_view t = (inAltScreen t, mouseTracking t, bracketedPaste t, detectCarry t)"

definition flip :: "bool \<Rightarrow> jsstring \<times> bool \<Rightarrow> bool" where "flip b m = snd m"

definition scan :: "bool \<times> mouse_tracking \<times> bool \<times> jsstring \<Rightarrow> jsstring \<Rightarrow> bool \<times> mouse_tracking \<times> bool \<times> jsstring" where
  "scan = (\<lambda>(alt, mouse, paste, carry) data.
     (foldl flip alt (switches ALT_SCREEN_CODES (carry @ data)), foldl mouse_change mouse (switches MOUSE_CODES (carry @ data)),
      foldl flip paste (switches BRACKETED_PASTE_CODES (carry @ data)), carryPartialEscape (carry @ data)))"

lemma foldl_flip: "foldl flip b ms = (case last_of ms of None \<Rightarrow> b | Some m \<Rightarrow> snd m)"
  by (induction ms rule: rev_induct) (simp_all add: flip_def last_of_def)

lemma last_of_map: "last_of (map f xs) = map_option f (last_of xs)"
  by (simp add: last_of_def last_map)

lemma foldl_switches: "foldl flip b (switches codes s)
    = (case last_of (mode_matches codes 0 s) of None \<Rightarrow> b | Some (m, e) \<Rightarrow> snd m)"
  by (auto simp: foldl_flip switches_of_matches [of codes 0, symmetric] last_of_map split: option.split)

lemma view_applyAltScreen: "modes_view (snd (applyAltScreen chunk t))
    = (foldl flip (inAltScreen t) (switches ALT_SCREEN_CODES chunk), mouseTracking t, bracketedPaste t, detectCarry t)"
  by (auto simp: applyAltScreen_def detectAltScreenSwitch_def foldl_switches modes_view_def Let_def split: option.split)

lemma view_applyInputModes: "modes_view (applyInputModes chunk t)
    = (inAltScreen t, foldl mouse_change (mouseTracking t) (switches MOUSE_CODES chunk),
       foldl flip (bracketedPaste t) (switches BRACKETED_PASTE_CODES chunk), carryPartialEscape chunk)"
  by (auto simp: applyInputModes_def applyMouseModeChanges_def detectBracketedPaste_def foldl_switches
      modes_view_def Let_def switches_of_matches split: option.split)

lemma view_detectCwd: "modes_view (snd (detectCwd pp data t)) = modes_view t"
  by (simp add: detectCwd_def modes_view_def Let_def)

lemma view_track_modes:
  "modes_view (ps_modes (snd (snd (track_modes pp data pushed tot s)))) = scan (modes_view (ps_modes s)) data"
proof -
  let ?c = "detectChunk data (ps_modes s)"
  obtain sw m1 where m1: "applyAltScreen ?c (ps_modes s) = (sw, m1)" by fastforce
  have v1: "inAltScreen m1 = foldl flip (inAltScreen (ps_modes s)) (switches ALT_SCREEN_CODES ?c)"
    "mouseTracking m1 = mouseTracking (ps_modes s)" "bracketedPaste m1 = bracketedPaste (ps_modes s)"
    using view_applyAltScreen [of ?c "ps_modes s"] by (simp_all add: m1 modes_view_def)
  obtain cwd m2 where m2: "detectCwd pp data (applyInputModes ?c m1) = (cwd, m2)" by fastforce
  have v2: "modes_view m2 = modes_view (applyInputModes ?c m1)"
    using view_detectCwd [of pp data "applyInputModes ?c m1"] by (simp add: m2)
  have "modes_view (ps_modes (snd (snd (track_modes pp data pushed tot s)))) = modes_view m2"
    by (simp add: track_modes_def Let_def m1 m2)
  then show ?thesis
    by (simp add: v2 view_applyInputModes v1 scan_def modes_view_def [of "ps_modes s"] detectChunk_def)
qed

lemma modes_track_title: "ps_modes (snd (snd (track_title sg s))) = ps_modes s"
  by (simp add: track_title_def Let_def split: option.split)

lemma scan_plain: "27 \<notin> set data \<Longrightarrow> scan (alt, mouse, paste, []) data = (alt, mouse, paste, [])"
  using switches_plain [of data _ "[]"] by (simp add: scan_def carry_plain)

text \<open>What one read does to the session, the detectors' fast path included.\<close>

lemma onData_modes: "ps_modes (fst (onData pp data q tot now s)) = (if plainChunk data (ps_modes s) then ps_modes s
    else ps_modes (snd (snd (track_modes pp data (data \<noteq> [] \<and> \<not> q) tot s))))"
  by (simp add: onData_def Let_def case_prod_beta modes_track_title)

lemma onData_view: "modes_view (ps_modes (fst (onData pp data q tot now s))) = scan (modes_view (ps_modes s)) data"
proof (cases "plainChunk data (ps_modes s)")
  case True
  then have "modes_view (ps_modes s) = (inAltScreen (ps_modes s), mouseTracking (ps_modes s), bracketedPaste (ps_modes s), [])"
    and "27 \<notin> set data"
    by (auto simp: plainChunk_def carriesEmpty_def modes_view_def)
  with True show ?thesis by (simp add: onData_modes scan_plain)
qed (simp add: onData_modes view_track_modes)

lemma scan_scan: "scan (scan (alt, mouse, paste, []) c) d = scan (alt, mouse, paste, []) (c @ d)"
  by (simp add: scan_def switches_carry [of _ c d] carry_carry)

text \<open>A run of reads.\<close>

record terminal_read =
  rd_data :: jsstring
  rd_suppressing :: bool
  rd_pushed :: int
  rd_now :: int

definition read_terminal :: "(jsstring \<Rightarrow> jsstring) \<Rightarrow> pty_session \<Rightarrow> terminal_read \<Rightarrow> pty_session" where
  "read_terminal pp s r = fst (onData pp (rd_data r) (rd_suppressing r) (rd_pushed r) (rd_now r) s)"

definition attached :: "pty_session \<Rightarrow> pty_session" where
  "attached s = s\<lparr>ps_modes := clearCwdDetectCarry (clearDetectCarry (ps_modes s))\<rparr>"

lemma run_view: "modes_view (ps_modes (foldl (read_terminal pp) (attached s) rs))
    = scan (modes_view (ps_modes (attached s))) (concat (map rd_data rs))"
proof (induction rs rule: rev_induct)
  case Nil
  show ?case by (simp add: scan_plain [of "[]", simplified] modes_view_def attached_def clearDetectCarry_def clearCwdDetectCarry_def)
next
  case (snoc r rs)
  obtain alt mouse paste where v: "modes_view (ps_modes (attached s)) = (alt, mouse, paste, [])"
    by (simp add: modes_view_def attached_def clearDetectCarry_def clearCwdDetectCarry_def)
  from snoc show ?case by (simp add: read_terminal_def onData_view v scan_scan)
qed

text \<open>
  C30: The tracked terminal modes do not depend on where the reads cut the program's output. For every
  session whose client has just attached (its carries are dropped then) and every run of reads, the
  alternate screen, the mouse protocol and encoding, bracketed paste and the prefix kept for the next
  read are those of one read holding the whole output, whether or not repaints were being suppressed.
\<close>

theorem modes_ignore_read_boundaries:
  "modes_view (ps_modes (foldl (read_terminal pp) (attached s) rs))
     = modes_view (ps_modes (fst (onData pp (concat (map rd_data rs)) q tot now (attached s))))"
  by (simp add: run_view onData_view)

lemma code_values:
  "ALT_SCREEN_CODES = [[49, 48, 52, 57], [49, 48, 52, 55], [52, 55]]"
  "MOUSE_CODES = [[57], [49, 48, 48, 48], [49, 48, 48, 50], [49, 48, 48, 51], [49, 48, 48, 53], [49, 48, 48, 54],
     [49, 48, 49, 53], [49, 48, 49, 54]]"
  "BRACKETED_PASTE_CODES = [[50, 48, 48, 52]]"
  by (simp_all add: ALT_SCREEN_CODES_def MOUSE_CODES_def BRACKETED_PASTE_CODES_def lit_def)

lemmas switch_simps = scan_def lit_def mode_match_def switch_letter_def digit_unit_def code_values flip_def
  mouse_change_def MOUSE_PROTOCOL_BY_CODE_def MOUSE_ENCODING_BY_CODE_def carryPartialEscape_def partial_tail_def

lemma scan_alt: "scan (a, m, b, []) (27 # (if on then lit ''[?1049h'' else lit ''[?1049l'')) = (on, m, b, [])"
  by (cases on) (simp_all add: switch_simps)

lemma scan_protocol: "scan (a, \<lparr>mt_protocol = MP_NONE, mt_encoding = e\<rparr>, b, []) (MOUSE_PROTOCOL_ENABLE p)
    = (a, \<lparr>mt_protocol = p, mt_encoding = e\<rparr>, b, [])"
  by (cases p) (simp_all add: MOUSE_PROTOCOL_ENABLE_def switch_simps)

lemma scan_encoding: "scan (a, \<lparr>mt_protocol = p, mt_encoding = ME_DEFAULT\<rparr>, b, []) (MOUSE_ENCODING_ENABLE e)
    = (a, \<lparr>mt_protocol = p, mt_encoding = e\<rparr>, b, [])"
  by (cases e) (simp_all add: MOUSE_ENCODING_ENABLE_def switch_simps)

lemma scan_paste: "scan (a, m, False, []) (if on then 27 # lit ''[?2004h'' else []) = (a, m, on, [])"
  by (cases on) (simp_all add: switch_simps)

lemma scan_preamble: "scan (False, INITIAL_MOUSE_TRACKING_STATE, False, []) (buildPreamble t)
    = (inAltScreen t, mouseTracking t, bracketedPaste t, [])"
  by (simp only: buildPreamble_def scan_scan [symmetric] scan_alt INITIAL_MOUSE_TRACKING_STATE_def scan_protocol
      scan_encoding scan_paste) simp

text \<open>
  C31: A client that attaches lands in the modes the session tracks: the replay preamble, read by a
  fresh tracker in any number of pieces, sets exactly the alternate screen, mouse and paste modes it was
  built from and leaves no unfinished sequence.
\<close>

theorem preamble_restores_modes:
  "modes_view (ps_modes (fst (onData pp (buildPreamble t) q tot now (s\<lparr>ps_modes := new_modes\<rparr>))))
     = (inAltScreen t, mouseTracking t, bracketedPaste t, [])"
proof -
  have "modes_view new_modes = (False, INITIAL_MOUSE_TRACKING_STATE, False, [])"
    by (simp add: modes_view_def new_modes_def)
  then show ?thesis by (simp add: onData_view scan_preamble)
qed

subsection \<open>Working directories cut between reads\<close>

definition cwd_scan :: "(jsstring \<Rightarrow> jsstring) \<Rightarrow> jsstring option \<times> jsstring \<Rightarrow> jsstring \<Rightarrow> jsstring option \<times> jsstring" where
  "cwd_scan pp = (\<lambda>(cwd, carry) data.
     (case detectCwdChange pp (carry @ data) of Some c \<Rightarrow> Some c | None \<Rightarrow> cwd, carryPartialOsc (carry @ data)))"

definition cwd_view :: "pty_session \<Rightarrow> jsstring option \<times> jsstring" where
  "cwd_view s = (liveCwd s, cwdDetectCarry (ps_modes s))"

lemma cwd_payloads_plain: "27 \<notin> set s \<Longrightarrow> cwd_payloads s = []"
  by (induction s) auto

lemma last_osc_tail_plain: "27 \<notin> set s \<Longrightarrow> last_osc_tail s = None"
  by (induction s) auto

lemma cwd_scan_plain: "27 \<notin> set data \<Longrightarrow> cwd_scan pp (cwd, []) data = (cwd, [])"
  by (cases data rule: rev_cases)
  (auto simp: cwd_scan_def detectCwdChange_def cwd_payloads_plain last_osc_tail_plain carryPartialOsc_def
      last_of_def map_filter_simps)

lemma carry_kept: "cwdDetectCarry (snd (applyAltScreen chunk t)) = cwdDetectCarry t"
  "cwdDetectCarry (applyInputModes chunk t) = cwdDetectCarry t"
  by (auto simp: applyAltScreen_def applyInputModes_def Let_def split: option.split)

lemma cwd_track_modes: "cwd_view (snd (snd (track_modes pp data pushed tot s))) = cwd_scan pp (cwd_view s) data"
proof -
  let ?c = "detectChunk data (ps_modes s)"
  obtain sw m1 where m1: "applyAltScreen ?c (ps_modes s) = (sw, m1)" by fastforce
  have "cwdDetectCarry m1 = cwdDetectCarry (ps_modes s)"
    using carry_kept(1) [of ?c "ps_modes s"] by (simp add: m1)
  then show ?thesis
    by (simp add: track_modes_def Let_def m1 cwd_view_def cwd_scan_def detectCwd_def carry_kept)
qed

lemma cwd_track_title: "liveCwd (snd (snd (track_title sg s))) = liveCwd s"
  by (simp add: track_title_def Let_def split: option.split)

lemma onData_cwd: "cwd_view (fst (onData pp data q tot now s)) = cwd_scan pp (cwd_view s) data"
proof (cases "plainChunk data (ps_modes s)")
  case True
  then have "cwd_view s = (liveCwd s, [])" "27 \<notin> set data"
    by (simp_all add: plainChunk_def carriesEmpty_def cwd_view_def)
  with True show ?thesis
    by (simp add: cwd_scan_plain onData_def Let_def case_prod_beta modes_track_title cwd_track_title cwd_view_def)
next
  case False
  have "cwd_view (fst (onData pp data q tot now s)) = cwd_view (snd (snd (track_modes pp data (data \<noteq> [] \<and> \<not> q) tot s)))"
    using False by (simp add: onData_def Let_def case_prod_beta modes_track_title cwd_track_title cwd_view_def)
  then show ?thesis by (simp only: cwd_track_modes)
qed


definition unfinished :: "jsstring \<Rightarrow> bool" where
  "unfinished y \<longleftrightarrow> 7 \<notin> set y \<and> 27 \<notin> set (butlast y)"

lemma unfinished_Cons: "unfinished (c # y) \<longleftrightarrow> c \<noteq> 7 \<and> (y = [] \<or> c \<noteq> 27) \<and> unfinished y"
  by (auto simp: unfinished_def)


lemma unfinished_open: "unfinished y \<Longrightarrow> \<not> osc_terminated y"
  by (induction y) (auto simp: unfinished_Cons)

lemma unfinished_payloads: "unfinished y \<Longrightarrow> cwd_payloads y = []"
  by (induction y) (auto simp: unfinished_Cons)

lemma unfinished_osc: "unfinished y \<Longrightarrow> last_osc_tail y = None"
  by (induction y) (auto simp: unfinished_Cons)

lemmas unfinished_scans = unfinished_open unfinished_payloads unfinished_osc





lemma osc_body_whole: "7 \<notin> set p \<Longrightarrow> 27 \<notin> set p \<Longrightarrow>
    osc_body (p @ (if st then [27, 92] else [7])) = Some (p, [])"
  by (induction p) auto







definition read_of :: "jsstring \<Rightarrow> terminal_read" where
  "read_of data = \<lparr>rd_data = data, rd_suppressing = False, rd_pushed = 0, rd_now = 0\<rparr>"


text \<open>
  The exception: an announcement is lost when a read ends right after the escape that starts it and the same read
  holds a finished OSC sequence, for instance the title of a prompt: the carry looks no further than
  the last \<open>ESC ]\<close>, finds it terminated and drops the escape behind it.
\<close>

theorem announcement_after_title_is_lost:
  "liveCwd (foldl (read_terminal pp) (attached s)
     [read_of (27 # lit '']0;t'' @ [7, 27]), read_of (lit '']7;file:///b'' @ [7])]) = liveCwd s"
proof -
  have "cwd_view (attached s) = (liveCwd s, [])"
    by (simp add: cwd_view_def attached_def clearCwdDetectCarry_def)
  then have "cwd_view (foldl (read_terminal pp) (attached s)
     [read_of (27 # lit '']0;t'' @ [7, 27]), read_of (lit '']7;file:///b'' @ [7])]) = (liveCwd s, [])"
    by (simp add: read_terminal_def onData_cwd cwd_scan_def detectCwdChange_def read_of_def lit_def carryPartialOsc_def
        last_of_def map_filter_simps)
  then show ?thesis by (simp add: cwd_view_def)
qed

text \<open>A stored mouse mode is restored only when xterm knows it; bracketed paste never is.\<close>

lemma restore_snapshot: "restore (Some (snapshot t)) new_modes
    = new_modes\<lparr>inAltScreen := inAltScreen t, mouseTracking := mouseTracking t\<rparr>"
proof -
  obtain p e where "mouseTracking t = \<lparr>mt_protocol = p, mt_encoding = e\<rparr>" by (cases "mouseTracking t")
  then show ?thesis
    by (cases p; cases e) (simp_all add: restore_def snapshot_def valid_protocol_def valid_encoding_def new_modes_def)
qed

text \<open>The bell that ends an OSC sequence is not a bell: a prompt that sets its title asks for nobody.\<close>

lemma title_is_no_bell:
  assumes "7 \<notin> set p" and "27 \<notin> set p"
  shows "detectAttentionSignals (27 # 93 # 48 # 59 # p @ [7])
    = \<lparr>sg_bell = False, sg_notification = False, titleChange = Some p\<rparr>"
  using osc_body_whole [OF assms, of False]
  by (simp add: detectAttentionSignals_def osc_at_def digit_unit_def lit_def last_of_def del: osc_body.simps)

end
