(* ===== verification/PullRequests.thy ===== *)
theory PullRequests
  imports TerminalText
begin

section \<open>Pull requests: phase, review summary and change detection\<close>

text \<open>
  \<open>src/services/github-pr-phase.ts\<close> (what a pull request needs next, and what changed between two polls),
  \<open>src/services/review-summary.ts\<close> (the one place a review status is computed),
  \<open>pushPrChanges\<close> of \<open>src/services/github-pr-poller.ts\<close> (the baseline the polls are compared with) and
  \<open>derivePrEvents\<close> of \<open>src/services/pr-session-events.ts\<close>. What GitHub answers enters as records; an
  enumeration of the API is a datatype where the code enumerates it and a string where it does not.
  \<open>Date.parse\<close> is an argument (\<open>None\<close> is \<open>NaN\<close>).
\<close>

subsection \<open>The phase\<close>

datatype review_decision = RD_approved | RD_changes_requested | RD_review_required
datatype pr_mergeable = MG_mergeable | MG_conflicting | MG_unknown
datatype ci_status = CI_success | CI_failure | CI_in_progress

datatype pr_phase = PH_draft | PH_conflicts | PH_ci_failing | PH_changes_requested | PH_review_pending | PH_reviewed
  | PH_threads_unresolved | PH_behind | PH_ci_pending | PH_ready_to_merge | PH_unknown

record pr_reviewer =
  rv_login :: jsstring
  rv_state :: jsstring
  rv_recovered :: bool

text \<open>\<open>unresolvedThreads\<close> may be omitted (\<open>None\<close>), null (\<open>Some None\<close>) or a count; \<open>ciFetched\<close> and \<open>behindBy\<close> may be omitted.\<close>

record pr_phase_input =
  pi_reviewStateKnown :: bool
  pi_isDraft :: bool
  pi_mergeable :: "pr_mergeable option"
  pi_mergeStateStatus :: "jsstring option"
  pi_reviewDecision :: "review_decision option"
  pi_requestedReviewers :: "jsstring list"
  pi_reviewers :: "pr_reviewer list"
  pi_hasCommentedReview :: bool
  pi_unresolvedThreads :: "int option option"
  pi_ciStatus :: "ci_status option"
  pi_ciFetched :: "bool option"
  pi_behindBy :: "int option"

definition APPROVED :: jsstring where "APPROVED = lit ''APPROVED''"
definition CHANGES_REQUESTED :: jsstring where "CHANGES_REQUESTED = lit ''CHANGES_REQUESTED''"
definition COMMENTED :: jsstring where "COMMENTED = lit ''COMMENTED''"

definition waiting_phase :: "pr_phase_input \<Rightarrow> pr_phase" where
  "waiting_phase pr = (if pi_hasCommentedReview pr \<and> \<not> list_ex (\<lambda>r. rv_state r = APPROVED) (pi_reviewers pr)
     then PH_reviewed else PH_review_pending)"

definition asks_changes :: "pr_phase_input \<Rightarrow> bool" where
  "asks_changes pr \<longleftrightarrow> pi_reviewDecision pr = Some RD_changes_requested
     \<or> (pi_reviewDecision pr = None \<and> list_ex (\<lambda>r. rv_state r = CHANGES_REQUESTED) (pi_reviewers pr))
     \<or> list_ex (\<lambda>r. rv_recovered r \<and> rv_state r = CHANGES_REQUESTED) (pi_reviewers pr)"

text \<open>\<open>pr.unresolvedThreads ?? 0\<close>\<close>

definition open_threads :: "pr_phase_input \<Rightarrow> int" where
  "open_threads pr = (case pi_unresolvedThreads pr of Some (Some n) \<Rightarrow> n | _ \<Rightarrow> 0)"

definition merge_state :: "pr_phase_input \<Rightarrow> jsstring option" where
  "merge_state pr = (if pi_mergeStateStatus pr = Some (lit ''BEHIND'') \<and> pi_behindBy pr = Some 0
     then (if pi_unresolvedThreads pr = Some None \<or> open_threads pr > 0 then Some (lit ''BLOCKED'') else Some (lit ''CLEAN''))
     else pi_mergeStateStatus pr)"

text \<open>The branch of a blocked pull request; \<open>None\<close> falls through to the checks after it.\<close>

definition blocked_phase :: "pr_phase_input \<Rightarrow> pr_phase option" where
  "blocked_phase pr = (if pi_unresolvedThreads pr = Some None then Some PH_unknown
     else if open_threads pr = 0 then Some (waiting_phase pr)
     else if pi_ciFetched pr \<noteq> Some False then Some PH_threads_unresolved else None)"

definition derivePrPhase :: "pr_phase_input \<Rightarrow> pr_phase" where
  "derivePrPhase pr =
     (if pi_isDraft pr then PH_draft
      else if \<not> pi_reviewStateKnown pr then
        (if pi_ciStatus pr = Some CI_failure then PH_ci_failing
         else if pi_ciStatus pr = Some CI_in_progress then PH_ci_pending else PH_unknown)
      else if pi_mergeable pr = Some MG_conflicting then PH_conflicts
      else if pi_ciStatus pr = Some CI_failure then PH_ci_failing
      else if asks_changes pr then PH_changes_requested
      else if pi_reviewDecision pr = Some RD_review_required then waiting_phase pr
      else if pi_reviewDecision pr = None \<and> pi_requestedReviewers pr \<noteq> [] then waiting_phase pr
      else if merge_state pr = Some (lit ''BEHIND'') \<and> pi_ciStatus pr \<noteq> Some CI_in_progress then PH_behind
      else (case if merge_state pr = Some (lit ''BLOCKED'') \<and> pi_ciStatus pr \<noteq> Some CI_in_progress
                 then blocked_phase pr else None of
          Some ph \<Rightarrow> ph
        | None \<Rightarrow>
            if pi_ciStatus pr = Some CI_in_progress then PH_ci_pending
            else if pi_ciFetched pr = Some False \<and> merge_state pr \<noteq> Some (lit ''CLEAN'') then PH_unknown
            else PH_ready_to_merge))"

subsection \<open>The review summary\<close>

record gql_review =
  gq_author :: "(jsstring \<times> jsstring option) option"
  gq_state :: jsstring
  gq_body :: "jsstring option"
  gq_submittedAt :: "jsstring option"
  gq_commit :: "jsstring option"

text \<open>A page of nodes may hold nulls.\<close>

type_synonym gql_nodes = "gql_review option list"

definition present :: "gql_nodes \<Rightarrow> gql_review list" where
  "present ns = List.map_filter (\<lambda>n. n) ns"

definition author_login :: "gql_review option \<Rightarrow> jsstring option" where
  "author_login n = (case n of None \<Rightarrow> None | Some r \<Rightarrow> map_option fst (gq_author r))"

definition recoveredReviews :: "gql_nodes \<Rightarrow> gql_nodes \<Rightarrow> gql_review list" where
  "recoveredReviews opinionated latest = (let seen = map author_login opinionated in
     filter (\<lambda>r. gq_author r \<noteq> None \<and> author_login (Some r) \<notin> set seen
        \<and> (gq_state r = APPROVED \<or> gq_state r = CHANGES_REQUESTED)) (present latest))"

definition standingReviews :: "gql_nodes \<Rightarrow> gql_nodes \<Rightarrow> gql_review list" where
  "standingReviews opinionated latest = present opinionated @ recoveredReviews opinionated latest"

definition reviewersOf :: "gql_review list \<Rightarrow> pr_reviewer list" where
  "reviewersOf nodes = List.map_filter (\<lambda>r. map_option
     (\<lambda>(login, _). \<lparr>rv_login = login, rv_state = gq_state r, rv_recovered = False\<rparr>) (gq_author r)) nodes"

definition standingReviewers :: "gql_nodes \<Rightarrow> gql_nodes \<Rightarrow> pr_reviewer list" where
  "standingReviewers opinionated latest = reviewersOf (present opinionated)
     @ map (\<lambda>r. r\<lparr>rv_recovered := True\<rparr>) (reviewersOf (recoveredReviews opinionated latest))"

definition MAX_BODY_CHARS :: nat where "MAX_BODY_CHARS = 4000"

definition clip :: "jsstring \<Rightarrow> jsstring" where
  "clip text = (if length text > MAX_BODY_CHARS then take MAX_BODY_CHARS text @ [8230] else text)"

record review_entry =
  en_author :: jsstring
  en_isBot :: bool
  en_state :: jsstring
  en_body :: jsstring
  en_submittedAt :: "jsstring option"
  en_reviewedSha :: jsstring
  en_stale :: bool

datatype relay_kind = RK_none | RK_requested | RK_landed

record relay_review =
  rr_state :: relay_kind
  rr_runId :: "jsstring option"
  rr_dispatchedAt :: "jsstring option"
  rr_landedChecked :: "bool option"
  rr_author :: "jsstring option"
  rr_verdict :: "jsstring option"
  rr_body :: "jsstring option"
  rr_bodyTruncated :: "bool option"
  rr_htmlUrl :: "jsstring option"

record summary_relay =
  sr_state :: relay_kind
  sr_reviewer :: "jsstring option"
  sr_url :: "jsstring option"

definition relayOf :: "relay_review option \<Rightarrow> summary_relay option" where
  "relayOf relay = (case relay of None \<Rightarrow> None | Some r \<Rightarrow> if rr_state r = RK_none then None
     else Some \<lparr>sr_state = rr_state r, sr_reviewer = rr_author r, sr_url = rr_htmlUrl r\<rparr>)"

datatype summary_decision = SD_decision review_decision | SD_commented

record review_summary =
  su_decision :: "summary_decision option"
  su_approved :: "jsstring list"
  su_changesRequested :: "jsstring list"
  su_changesRequestedStale :: "jsstring list"
  su_commented :: "jsstring list"
  su_requested :: "jsstring list"
  su_relay :: "summary_relay option"
  su_unresolvedThreads :: "int option"
  su_latest :: "review_entry list"

record summary_input =
  si_reviewDecision :: "review_decision option"
  si_reviews :: gql_nodes
  si_opinionated :: gql_nodes
  si_requestedReviewers :: "jsstring list"
  si_unresolvedThreads :: "int option"
  si_headSha :: jsstring
  si_relayReview :: "relay_review option"

definition is_stale :: "jsstring \<Rightarrow> jsstring \<Rightarrow> bool" where
  "is_stale sha headSha \<longleftrightarrow> sha \<noteq> [] \<and> headSha \<noteq> [] \<and> sha \<noteq> headSha"

definition commit_sha :: "gql_review \<Rightarrow> jsstring" where
  "commit_sha r = (case gq_commit r of None \<Rightarrow> [] | Some sha \<Rightarrow> sha)"

text \<open>The authors of the reviews in one state, in order; a review without an author is skipped.\<close>

definition authors_with :: "jsstring \<Rightarrow> gql_review list \<Rightarrow> jsstring list" where
  "authors_with st rs = List.map_filter (\<lambda>r. if gq_state r = st then map_option fst (gq_author r) else None) rs"

text \<open>The second loop: the entry one review leaves among the candidates, if any.\<close>

definition candidate_entry :: "summary_input \<Rightarrow> gql_review \<Rightarrow> review_entry option" where
  "candidate_entry input r = (case gq_author r of
       None \<Rightarrow> None
     | Some (login, typename) \<Rightarrow>
         if gq_state r \<noteq> COMMENTED \<and> gq_state r \<noteq> APPROVED \<and> gq_state r \<noteq> CHANGES_REQUESTED then None
         else (let body = clip (js_trim (case gq_body r of None \<Rightarrow> [] | Some b \<Rightarrow> b));
                   unresolved = (case si_unresolvedThreads input of None \<Rightarrow> 0 | Some n \<Rightarrow> n)
               in if body = [] \<and> \<not> (gq_state r \<noteq> APPROVED \<and> unresolved > 0) then None
                  else Some \<lparr>en_author = login, en_isBot = (typename = Some (lit ''Bot'')), en_state = gq_state r,
                    en_body = body, en_submittedAt = gq_submittedAt r, en_reviewedSha = commit_sha r,
                    en_stale = is_stale (commit_sha r) (si_headSha input)\<rparr>))"

text \<open>
  \<open>newestFirst\<close>: a date that does not parse compares equal. \<open>sort_with\<close> is \<open>Array.sort\<close>, stable; with a
  comparison that is not transitive (dates that do not parse) the language leaves the order open.
\<close>

definition newestFirst :: "(jsstring \<Rightarrow> int option) \<Rightarrow> review_entry \<Rightarrow> review_entry \<Rightarrow> int" where
  "newestFirst dateParse a b = (case (dateParse (case en_submittedAt b of None \<Rightarrow> [] | Some d \<Rightarrow> d),
       dateParse (case en_submittedAt a of None \<Rightarrow> [] | Some d \<Rightarrow> d)) of
     (Some tb, Some ta) \<Rightarrow> tb - ta | _ \<Rightarrow> 0)"

fun insert_with :: "('a \<Rightarrow> 'a \<Rightarrow> int) \<Rightarrow> 'a \<Rightarrow> 'a list \<Rightarrow> 'a list" where
  "insert_with cmp x [] = [x]"
| "insert_with cmp x (y # ys) = (if cmp x y < 0 then x # y # ys else y # insert_with cmp x ys)"

definition sort_with :: "('a \<Rightarrow> 'a \<Rightarrow> int) \<Rightarrow> 'a list \<Rightarrow> 'a list" where
  "sort_with cmp xs = foldl (\<lambda>acc x. insert_with cmp x acc) [] xs"

definition option_list :: "'a option \<Rightarrow> 'a list" where
  "option_list x = (case x of None \<Rightarrow> [] | Some y \<Rightarrow> [y])"

definition latest_entries :: "(jsstring \<Rightarrow> int option) \<Rightarrow> review_entry list \<Rightarrow> review_entry list" where
  "latest_entries dateParse candidates = (let sorted = sort_with (newestFirst dateParse) candidates in
     sort_with (newestFirst dateParse)
       (option_list (find (\<lambda>c. \<not> en_isBot c) sorted) @ option_list (find en_isBot sorted)))"

definition summary_decision_of :: "summary_input \<Rightarrow> jsstring list \<Rightarrow> jsstring list \<Rightarrow> jsstring list
    \<Rightarrow> summary_decision option" where
  "summary_decision_of input approved changesRequested commented = (case si_reviewDecision input of
       Some d \<Rightarrow> Some (SD_decision d)
     | None \<Rightarrow> if changesRequested \<noteq> [] then Some (SD_decision RD_changes_requested)
         else if approved \<noteq> [] then Some (SD_decision RD_approved)
         else if commented \<noteq> [] then Some SD_commented
         else if si_requestedReviewers input \<noteq> [] then Some (SD_decision RD_review_required) else None)"

definition buildReviewSummary :: "(jsstring \<Rightarrow> int option) \<Rightarrow> summary_input \<Rightarrow> review_summary" where
  "buildReviewSummary dateParse input =
     (let standing = standingReviews (si_opinionated input) (si_reviews input);
          approved = authors_with APPROVED standing;
          changesRequested = authors_with CHANGES_REQUESTED standing;
          stale = authors_with CHANGES_REQUESTED (filter (\<lambda>r. is_stale (commit_sha r) (si_headSha input)) standing);
          commented = filter (\<lambda>l. l \<notin> set approved \<and> l \<notin> set changesRequested)
            (authors_with COMMENTED (present (si_reviews input)));
          candidates = List.map_filter (candidate_entry input) (present (si_reviews input))
      in \<lparr>su_decision = summary_decision_of input approved changesRequested commented,
          su_approved = approved, su_changesRequested = changesRequested, su_changesRequestedStale = stale,
          su_commented = commented, su_requested = si_requestedReviewers input,
          su_relay = relayOf (si_relayReview input), su_unresolvedThreads = si_unresolvedThreads input,
          su_latest = latest_entries dateParse candidates\<rparr>)"

definition withRelay :: "review_summary \<Rightarrow> relay_review option \<Rightarrow> review_summary" where
  "withRelay summary relayReview = summary\<lparr>su_relay := relayOf relayReview\<rparr>"

subsection \<open>Snapshots and what changed between two polls\<close>

record pr_snapshot =
  sn_number :: int
  sn_headSha :: jsstring
  sn_isDraft :: bool
  sn_ciStatus :: "ci_status option"
  sn_reviewDecision :: "review_decision option"
  sn_mergeable :: "pr_mergeable option"
  sn_unresolvedThreads :: "int option"
  sn_commentCount :: "int option"
  sn_prPhase :: pr_phase
  sn_relayState :: "relay_kind option"
  sn_relayVerdict :: "jsstring option"

text \<open>A polled pull request: the fields the snapshot copies, its relay state and its metadata.\<close>

record polled_pr =
  pp_snapshot :: pr_snapshot
  pp_relayReview :: "relay_review option"
  pp_headBranch :: jsstring
  pp_title :: jsstring
  pp_htmlUrl :: jsstring

definition snapshotPr :: "polled_pr \<Rightarrow> pr_snapshot" where
  "snapshotPr pr = (pp_snapshot pr)\<lparr>
     sn_mergeable := (if sn_mergeable (pp_snapshot pr) = Some MG_unknown then None else sn_mergeable (pp_snapshot pr)),
     sn_relayState := map_option rr_state (pp_relayReview pr),
     sn_relayVerdict := Option.bind (pp_relayReview pr) rr_verdict\<rparr>"

datatype pr_change = Opened int pr_snapshot | Updated int pr_snapshot pr_snapshot | Closed int pr_snapshot

fun ch_number :: "pr_change \<Rightarrow> int" where
  "ch_number (Opened n _) = n"
| "ch_number (Updated n _ _) = n"
| "ch_number (Closed n _) = n"

text \<open>The first loop over the sorted list, then the second over the sorted old numbers that were not seen.\<close>

definition change_of :: "(int, pr_snapshot) jsmap \<Rightarrow> pr_snapshot \<Rightarrow> pr_change option" where
  "change_of prev after = (case jm_get prev (sn_number after) of
       None \<Rightarrow> Some (Opened (sn_number after) after)
     | Some before \<Rightarrow> if before \<noteq> after then Some (Updated (sn_number after) before after) else None)"

definition diffPrSnapshots :: "(int, pr_snapshot) jsmap \<Rightarrow> pr_snapshot list \<Rightarrow> pr_change list" where
  "diffPrSnapshots prev nxt =
     List.map_filter (change_of prev) (sort_key sn_number nxt)
     @ map (\<lambda>(n, before). Closed n before) (filter (\<lambda>(n, _). n \<notin> set (map sn_number nxt)) (sort_key fst prev))"

subsection \<open>The poller's baseline\<close>

record pr_meta =
  me_number :: int
  me_headBranch :: jsstring
  me_title :: jsstring
  me_htmlUrl :: jsstring

record pr_poller =
  lastSnapshots :: "(jsstring, (int, pr_snapshot) jsmap) jsmap"
  lastPrMeta :: "(jsstring, (int, pr_meta) jsmap) jsmap"
  nudged :: "nat list"

text \<open>\<open>new Map(entries)\<close>\<close>

definition jm_of :: "('k \<times> 'v) list \<Rightarrow> ('k, 'v) jsmap" where
  "jm_of es = foldl (\<lambda>m (k, v). jm_set k v m) [] es"

definition metaOf :: "polled_pr list \<Rightarrow> (int, pr_meta) jsmap" where
  "metaOf prs = jm_of (map (\<lambda>p. (sn_number (pp_snapshot p), \<lparr>me_number = sn_number (pp_snapshot p),
     me_headBranch = pp_headBranch p, me_title = pp_title p, me_htmlUrl = pp_htmlUrl p\<rparr>)) prs)"

definition snapshot_map :: "pr_snapshot list \<Rightarrow> (int, pr_snapshot) jsmap" where
  "snapshot_map nxt = jm_of (map (\<lambda>p. (sn_number p, p)) nxt)"

text \<open>\<open>pushSync\<close> is one push: the projects and the changed numbers. \<open>projectIds = None\<close> is a project's own sweep.\<close>

type_synonym pr_push = "nat list \<times> int list"

definition pushPrChanges :: "jsstring \<Rightarrow> polled_pr list \<Rightarrow> nat list option \<Rightarrow> nat option \<Rightarrow> pr_poller
    \<Rightarrow> pr_change list \<times> pr_push list \<times> pr_poller" where
  "pushPrChanges repoKey prs projectIds sweepProjectId st =
     (let nxt = map snapshotPr prs; prev = jm_get (lastSnapshots st) repoKey in
      case projectIds of
        None \<Rightarrow>
          (let st1 = (if prev = None then st\<lparr>lastSnapshots := jm_set repoKey (snapshot_map nxt) (lastSnapshots st),
                 lastPrMeta := jm_set repoKey (metaOf prs) (lastPrMeta st)\<rparr> else st)
           in case sweepProjectId of
                Some p \<Rightarrow> if p \<notin> set (nudged st1) then ([], [([p], [])], st1\<lparr>nudged := nudged st1 @ [p]\<rparr>) else ([], [], st1)
              | None \<Rightarrow> ([], [], st1))
      | Some ids \<Rightarrow>
          (let prevMeta = (case jm_get (lastPrMeta st) repoKey of None \<Rightarrow> [] | Some m \<Rightarrow> m);
               st1 = st\<lparr>lastSnapshots := jm_set repoKey (snapshot_map nxt) (lastSnapshots st),
                 lastPrMeta := jm_set repoKey (jm_of (prevMeta @ metaOf prs)) (lastPrMeta st)\<rparr>
           in case prev of
                None \<Rightarrow> ([], [(ids, [])], st1)
              | Some m \<Rightarrow> (let changes = diffPrSnapshots m nxt in
                  if changes = [] then ([], [], st1) else (changes, [(ids, map ch_number changes)], st1))))"

definition pruneClosedMeta :: "(int, pr_meta) jsmap option \<Rightarrow> pr_change list \<Rightarrow> (int, pr_meta) jsmap option" where
  "pruneClosedMeta metas changes = map_option (\<lambda>m. foldl (\<lambda>m c. case c of Closed n _ \<Rightarrow> jm_delete n m | _ \<Rightarrow> m) m changes) metas"

subsection \<open>The events of one change\<close>

datatype pr_event = Pr_merged | Pr_ci_failed | Pr_ci_passed | Pr_conflicts | Pr_review_submitted review_decision
  | Pr_new_comments int "int option"

text \<open>Every payload also carries the number, title and URL of the metadata.\<close>

definition derivePrEvents :: "pr_change \<Rightarrow> pr_meta \<Rightarrow> bool \<Rightarrow> (pr_event \<times> pr_meta) list" where
  "derivePrEvents change m merged = map (\<lambda>e. (e, m)) (case change of
       Closed _ _ \<Rightarrow> if merged then [Pr_merged] else []
     | Opened _ _ \<Rightarrow> []
     | Updated _ before after \<Rightarrow>
         (if sn_ciStatus after = Some CI_failure \<and> sn_ciStatus before \<noteq> Some CI_failure then [Pr_ci_failed]
          else if sn_ciStatus after = Some CI_success
              \<and> (sn_ciStatus before = Some CI_failure \<or> sn_ciStatus before = Some CI_in_progress) then [Pr_ci_passed]
          else [])
         @ (if sn_mergeable after = Some MG_conflicting \<and> sn_mergeable before \<noteq> Some MG_conflicting then [Pr_conflicts] else [])
         @ (case (sn_commentCount before, sn_commentCount after, sn_unresolvedThreads before, sn_unresolvedThreads after) of
              (Some cb, Some ca, Some tb, Some ta) \<Rightarrow>
                (case sn_reviewDecision after of
                   Some d \<Rightarrow> if sn_reviewDecision after \<noteq> sn_reviewDecision before
                       \<and> (d = RD_approved \<or> d = RD_changes_requested) then [Pr_review_submitted d] else []
                 | None \<Rightarrow> [])
                @ (if ca - cb > 0 \<or> ta - tb > 0 then [Pr_new_comments (max (ca - cb) 0) (Some ta)] else [])
            | _ \<Rightarrow> []))"

text \<open>The sessions on a branch: those whose hook said so, then those whose checkout is on it (\<open>branchOf\<close>, the probe).\<close>

record project_session =
  psn_id :: jsstring
  psn_cwd :: jsstring
  psn_liveBranch :: "jsstring option"

definition sessionIdsOnBranch :: "project_session list \<Rightarrow> jsstring \<Rightarrow> (project_session \<Rightarrow> jsstring option) \<Rightarrow> jsstring list" where
  "sessionIdsOnBranch ss headBranch branchOf = (let hit = (\<lambda>s. psn_liveBranch s = Some headBranch) in
     map psn_id (filter hit ss @ filter (\<lambda>s. branchOf s = Some headBranch) (filter (\<lambda>s. \<not> hit s) ss)))"

subsection \<open>When a pull request is ready\<close>

lemma waiting_not_ready: "waiting_phase pr \<noteq> PH_ready_to_merge"
  by (simp add: waiting_phase_def)

text \<open>The complete condition of \<open>ready_to_merge\<close>.\<close>

definition nothing_left :: "pr_phase_input \<Rightarrow> bool" where
  "nothing_left pr \<longleftrightarrow> pi_reviewStateKnown pr \<and> \<not> pi_isDraft pr \<and> pi_mergeable pr \<noteq> Some MG_conflicting
     \<and> pi_ciStatus pr \<noteq> Some CI_failure \<and> pi_ciStatus pr \<noteq> Some CI_in_progress
     \<and> \<not> asks_changes pr \<and> pi_reviewDecision pr \<noteq> Some RD_review_required
     \<and> (pi_reviewDecision pr = None \<longrightarrow> pi_requestedReviewers pr = [])
     \<and> merge_state pr \<noteq> Some (lit ''BEHIND'') \<and> merge_state pr \<noteq> Some (lit ''BLOCKED'')
     \<and> (pi_ciFetched pr = Some False \<longrightarrow> merge_state pr = Some (lit ''CLEAN''))"

lemma lit_states: "lit ''CLEAN'' \<noteq> lit ''BEHIND''" "lit ''CLEAN'' \<noteq> lit ''BLOCKED''" "lit ''BEHIND'' \<noteq> lit ''BLOCKED''"
  by (simp_all add: lit_def)

lemma ready_iff: "derivePrPhase pr = PH_ready_to_merge \<longleftrightarrow> nothing_left pr"
  using waiting_not_ready [of pr] lit_states
  by (auto simp: derivePrPhase_def nothing_left_def blocked_phase_def split: if_splits option.splits)

lemma map_filter_Nil_iff: "List.map_filter f xs = [] \<longleftrightarrow> list_all (\<lambda>x. f x = None) xs"
  by (induction xs) (auto simp: List.map_filter_simps split: option.splits)

lemma map_filter_append: "List.map_filter f (xs @ ys) = List.map_filter f xs @ List.map_filter f ys"
  by (simp add: List.map_filter_def)

lemma reviewers_authors: "list_ex (\<lambda>r. rv_state r = st) (reviewersOf rs) \<longleftrightarrow> authors_with st rs \<noteq> []"
  by (induction rs) (auto simp: reviewersOf_def authors_with_def List.map_filter_simps split: option.splits)

lemma recovered_flagged: "list_ex (\<lambda>r. rv_recovered r \<and> rv_state r = st) (map (\<lambda>r. r\<lparr>rv_recovered := True\<rparr>) rs)
    \<longleftrightarrow> list_ex (\<lambda>r. rv_state r = st) rs"
  by (induction rs) auto

lemma flagged_states: "list_ex (\<lambda>r. rv_state r = st) (map (\<lambda>r. r\<lparr>rv_recovered := True\<rparr>) rs)
    \<longleftrightarrow> list_ex (\<lambda>r. rv_state r = st) rs"
  by (induction rs) auto

lemma authors_with_append: "authors_with st (rs @ rs') = authors_with st rs @ authors_with st rs'"
  by (simp add: authors_with_def map_filter_append)

lemma standing_changes: "list_ex (\<lambda>r. rv_state r = st) (standingReviewers op la)
    \<longleftrightarrow> authors_with st (standingReviews op la) \<noteq> []"
  by (simp only: standingReviewers_def standingReviews_def list_ex_append flagged_states reviewers_authors
      authors_with_append append_is_Nil_conv de_Morgan_conj)

lemma recovered_has_author: "r \<in> set (recoveredReviews op la) \<Longrightarrow> gq_author r \<noteq> None"
  by (auto simp: recoveredReviews_def Let_def)

lemma authors_with_Nil: "authors_with st rs = [] \<Longrightarrow> r \<in> set rs \<Longrightarrow> gq_author r \<noteq> None \<Longrightarrow> gq_state r \<noteq> st"
  by (auto simp: authors_with_def map_filter_Nil_iff list_all_iff split: if_splits)

text \<open>
  A pull request is called ready only when its review summary agrees. When the phase is computed
  from the standing reviewers of the same GitHub answer the summary is built from, a ready phase means
  that the summary decides neither for changes nor for a missing review, that no review recovered for an
  author GitHub left out (a bot) asks for changes, whatever GitHub's own decision says, and that nobody
  asks for changes at all unless GitHub approved over it.
\<close>

theorem ready_agrees_with_summary:
  assumes "derivePrPhase pr = PH_ready_to_merge"
    and "pi_reviewers pr = standingReviewers (si_opinionated input) (si_reviews input)"
    and "pi_reviewDecision pr = si_reviewDecision input" and "pi_requestedReviewers pr = si_requestedReviewers input"
  shows "su_decision (buildReviewSummary dateParse input)
      \<notin> {Some (SD_decision RD_changes_requested), Some (SD_decision RD_review_required)}
    \<and> CHANGES_REQUESTED \<notin> gq_state ` set (recoveredReviews (si_opinionated input) (si_reviews input))
    \<and> (if si_reviewDecision input = Some RD_approved then True
       else su_changesRequested (buildReviewSummary dateParse input) = [])"
proof -
  have left: "nothing_left pr" using assms(1) by (simp add: ready_iff)
  then have asks: "\<not> asks_changes pr" by (simp add: nothing_left_def)
  have "\<not> list_ex (\<lambda>r. rv_state r = CHANGES_REQUESTED) (reviewersOf (recoveredReviews (si_opinionated input) (si_reviews input)))"
    using asks recovered_flagged by (auto simp: asks_changes_def assms(2) standingReviewers_def)
  then have "CHANGES_REQUESTED \<notin> gq_state ` set (recoveredReviews (si_opinionated input) (si_reviews input))"
    using authors_with_Nil recovered_has_author by (fastforce simp: reviewers_authors)
  moreover have "pi_reviewDecision pr = None \<or> pi_reviewDecision pr = Some RD_approved"
    using left by (cases "pi_reviewDecision pr"; cases "the (pi_reviewDecision pr)")
      (auto simp: nothing_left_def asks_changes_def)
  moreover have "authors_with CHANGES_REQUESTED (standingReviews (si_opinionated input) (si_reviews input)) = []"
    if "pi_reviewDecision pr = None"
    using asks that by (auto simp: asks_changes_def assms(2) standing_changes)
  ultimately show ?thesis
    using left assms(3,4) by (auto simp: buildReviewSummary_def summary_decision_of_def nothing_left_def Let_def)
qed

definition demo_review :: "jsstring \<Rightarrow> jsstring \<Rightarrow> jsstring \<Rightarrow> gql_review" where
  "demo_review login typename st = \<lparr>gq_author = Some (login, Some typename), gq_state = st, gq_body = None,
     gq_submittedAt = None, gq_commit = None\<rparr>"

definition demo_input :: summary_input where
  "demo_input = \<lparr>si_reviewDecision = None, si_reviews = [Some (demo_review (lit ''ann'') (lit ''User'') COMMENTED),
     None, Some (demo_review (lit ''bot'') (lit ''Bot'') APPROVED)], si_opinionated = [None],
     si_requestedReviewers = [], si_unresolvedThreads = Some 0, si_headSha = lit ''f00'', si_relayReview = None\<rparr>"

definition demo_pr :: pr_phase_input where
  "demo_pr = \<lparr>pi_reviewStateKnown = True, pi_isDraft = False, pi_mergeable = Some MG_mergeable,
     pi_mergeStateStatus = Some (lit ''CLEAN''), pi_reviewDecision = None, pi_requestedReviewers = [],
     pi_reviewers = standingReviewers (si_opinionated demo_input) (si_reviews demo_input), pi_hasCommentedReview = True,
     pi_unresolvedThreads = Some (Some 0), pi_ciStatus = Some CI_success, pi_ciFetched = Some True, pi_behindBy = None\<rparr>"

lemma review_states: "APPROVED \<noteq> CHANGES_REQUESTED" "COMMENTED \<noteq> CHANGES_REQUESTED" "APPROVED \<noteq> COMMENTED"
  by (simp_all add: APPROVED_def CHANGES_REQUESTED_def COMMENTED_def lit_def)

theorem ready_agrees_with_summary_witness:
  "su_decision (buildReviewSummary (\<lambda>_. None) demo_input)
      \<notin> {Some (SD_decision RD_changes_requested), Some (SD_decision RD_review_required)}"
proof -
  have "authors_with CHANGES_REQUESTED (standingReviews (si_opinionated demo_input) (si_reviews demo_input)) = []"
    using review_states
    by (simp add: authors_with_def standingReviews_def present_def recoveredReviews_def demo_input_def demo_review_def
        List.map_filter_simps author_login_def)
  then have "\<not> list_ex (\<lambda>r. rv_state r = CHANGES_REQUESTED) (pi_reviewers demo_pr)"
    using standing_changes by (simp add: demo_pr_def)
  then have "\<not> asks_changes demo_pr" by (auto simp: asks_changes_def list_ex_iff demo_pr_def)
  then have "nothing_left demo_pr"
    using lit_states by (simp add: nothing_left_def demo_pr_def merge_state_def)
  then show ?thesis
    using ready_agrees_with_summary [of demo_pr demo_input "\<lambda>_. None"] by (simp add: ready_iff demo_pr_def demo_input_def)
qed

subsection \<open>A client that follows the changes\<close>

fun apply_change :: "(int \<Rightarrow> pr_snapshot option) \<Rightarrow> pr_change \<Rightarrow> int \<Rightarrow> pr_snapshot option" where
  "apply_change m (Opened n s) = m(n := Some s)"
| "apply_change m (Updated n _ s) = m(n := Some s)"
| "apply_change m (Closed n _) = m(n := None)"

definition replay :: "(int \<Rightarrow> pr_snapshot option) \<Rightarrow> pr_change list \<Rightarrow> int \<Rightarrow> pr_snapshot option" where
  "replay m cs = foldl apply_change m cs"

definition numbered :: "pr_snapshot list \<Rightarrow> (int \<times> pr_snapshot) list" where
  "numbered xs = map (\<lambda>s. (sn_number s, s)) xs"

lemma keys_numbered: "map fst (numbered xs) = map sn_number xs"
  by (simp add: numbered_def comp_def)

lemma numbered_None: "map_of (numbered xs) n = None \<longleftrightarrow> n \<notin> set (map sn_number xs)"
  by (force simp: map_of_eq_None_iff numbered_def)

lemma numbered_Some: "distinct (map sn_number xs) \<Longrightarrow> s \<in> set xs \<Longrightarrow> map_of (numbered xs) (sn_number s) = Some s"
  by (rule map_of_is_SomeI) (simp_all only: keys_numbered, simp add: numbered_def)

lemma jm_of_get: "jm_get (jm_of es) = map_of (rev es)"
proof -
  have "jm_get (foldl (\<lambda>m (k, v). jm_set k v m) m0 es) = jm_get m0 ++ map_of (rev es)" for m0 :: "('a, 'b) jsmap"
    by (induction es arbitrary: m0) (auto simp: fun_eq_iff jm.get_put map_add_def split: option.splits)
  from this [of "[]"] show ?thesis by (simp add: jm_of_def fun_eq_iff map_add_def split: option.split)
qed

lemma jm_of_wf: "jm_wf (jm_of es)"
proof -
  have "jm_wf m0 \<Longrightarrow> jm_wf (foldl (\<lambda>m (k, v). jm_set k v m) m0 es)" for m0 :: "('a, 'b) jsmap"
    by (induction es arbitrary: m0) (auto intro: jm.wf_put)
  then show ?thesis by (simp add: jm_of_def)
qed

lemma map_of_set: "distinct (map fst es) \<Longrightarrow> distinct (map fst es') \<Longrightarrow> set es = set es' \<Longrightarrow> map_of es = map_of es'"
  by (rule map_of_eqI) (auto simp: map_of_eq_Some_iff image_iff) 

lemma baseline_get: "distinct (map sn_number xs) \<Longrightarrow> jm_get (snapshot_map xs) = map_of (numbered xs)"
  by (simp add: snapshot_map_def jm_of_get numbered_def [symmetric] map_of_set keys_numbered rev_map [symmetric])

lemma replay_present:
  assumes "distinct (map sn_number xs)" and "\<forall>s \<in> set xs. m (sn_number s) = jm_get prev (sn_number s)"
  shows "replay m (List.map_filter (change_of prev) xs) = m ++ map_of (numbered xs)"
  using assms
proof (induction xs arbitrary: m)
  case (Cons x xs)
  let ?m = "m(sn_number x := Some x)"
  have "replay m (List.map_filter (change_of prev) (x # xs)) = replay ?m (List.map_filter (change_of prev) xs)"
    using Cons.prems(2)
    by (auto simp: List.map_filter_simps change_of_def replay_def fun_upd_idem split: option.split)
  also have "\<dots> = ?m ++ map_of (numbered xs)"
    using Cons.prems by (intro Cons.IH) (auto simp: image_iff)
  also have "\<dots> = m ++ map_of (numbered (x # xs))"
    using Cons.prems(1)
    by (fastforce simp: fun_eq_iff map_add_def numbered_def split: option.split dest: map_of_SomeD)
  finally show ?case .
qed (simp add: replay_def List.map_filter_simps numbered_def)

lemma replay_closed: "replay m (map (\<lambda>(n, b). Closed n b) ys) = (\<lambda>n. if n \<in> fst ` set ys then None else m n)"
  by (induction ys arbitrary: m) (auto simp: replay_def fun_eq_iff)

lemma replay_append: "replay m (cs @ ds) = replay (replay m cs) ds"
  by (simp add: replay_def)

lemma jm_get_dom: "jm_get m k \<noteq> None \<longleftrightarrow> k \<in> fst ` set m"
  by (simp add: jm_get_def map_of_eq_None_iff)

text \<open>Applying the differences to the old baseline gives the new one.\<close>

lemma diff_replays:
  assumes "distinct (map sn_number nxt)"
  shows "replay (jm_get prev) (diffPrSnapshots prev nxt) = jm_get (snapshot_map nxt)"
proof -
  let ?s = "sort_key sn_number nxt"
  let ?gone = "filter (\<lambda>(n, _). n \<notin> set (map sn_number nxt)) (sort_key fst prev)"
  have d: "distinct (map sn_number ?s)"
    using assms by (simp add: distinct_map)
  have all: "replay (jm_get prev) (diffPrSnapshots prev nxt)
      = (\<lambda>n. if n \<in> fst ` set ?gone then None else (jm_get prev ++ map_of (numbered ?s)) n)"
    using replay_present [OF d, of "jm_get prev" prev]
    by (simp add: diffPrSnapshots_def replay_append replay_closed)
  have same: "map_of (numbered ?s) = map_of (numbered nxt)"
    by (rule map_of_set) (simp_all only: keys_numbered d assms, simp add: numbered_def)
  have point: "(if n \<in> fst ` set ?gone then None else (jm_get prev ++ map_of (numbered nxt)) n) = map_of (numbered nxt) n" for n
  proof (cases "n \<in> set (map sn_number nxt)")
    case True
    then obtain s where "map_of (numbered nxt) n = Some s" using numbered_None [of nxt n] by fastforce
    with True show ?thesis by (auto simp: map_add_def)
  next
    case False
    then have "map_of (numbered nxt) n = None" by (simp only: numbered_None not_False_eq_True)
    moreover have "jm_get prev n = None" if "n \<notin> fst ` set ?gone"
      using that False jm_get_dom [of prev n] by force
    ultimately show ?thesis by (simp add: map_add_def)
  qed
  show ?thesis unfolding baseline_get [OF assms] all same by (rule ext, rule point)
qed

lemma map_filter_changes: "map ch_number (List.map_filter (change_of prev) xs)
    = map sn_number (filter (\<lambda>s. jm_get prev (sn_number s) \<noteq> Some s) xs)"
  by (induction xs) (auto simp: List.map_filter_simps change_of_def split: option.splits)

text \<open>Every number appears once, and only when its snapshot differs.\<close>

lemma diff_exact:
  assumes "distinct (map sn_number nxt)" and "jm_wf prev"
  shows "distinct (map ch_number (diffPrSnapshots prev nxt))"
    and "set (map ch_number (diffPrSnapshots prev nxt)) = {n. jm_get prev n \<noteq> jm_get (snapshot_map nxt) n}"
proof -
  let ?gone = "filter (\<lambda>(n, _). n \<notin> set (map sn_number nxt)) (sort_key fst prev)"
  let ?new = "filter (\<lambda>s. jm_get prev (sn_number s) \<noteq> Some s) (sort_key sn_number nxt)"
  have nums: "map ch_number (diffPrSnapshots prev nxt) = map sn_number ?new @ map fst ?gone"
    by (simp add: diffPrSnapshots_def map_filter_changes comp_def case_prod_beta)
  have "distinct (map fst ?gone)" "distinct (map sn_number ?new)"
    using assms by (auto simp: distinct_map jm_wf_def inj_on_def)
  then show "distinct (map ch_number (diffPrSnapshots prev nxt))" by (auto simp: nums)
  have "n \<in> set (map sn_number ?new @ map fst ?gone) \<longleftrightarrow> jm_get prev n \<noteq> map_of (numbered nxt) n" for n
  proof (cases "n \<in> set (map sn_number nxt)")
    case True
    then obtain s where s: "s \<in> set nxt" "sn_number s = n" by auto
    then have "map_of (numbered nxt) n = Some s" using numbered_Some [OF assms(1)] by blast
    moreover have "s' = s" if "s' \<in> set nxt" "sn_number s' = n" for s'
      using numbered_Some [OF assms(1) that(1)] that(2) \<open>map_of (numbered nxt) n = Some s\<close> by simp
    ultimately have "n \<in> set (map sn_number ?new) \<longleftrightarrow> jm_get prev n \<noteq> map_of (numbered nxt) n" using s by force
    moreover have "n \<notin> set (map fst ?gone)" using True by force
    ultimately show ?thesis by (simp only: set_append Un_iff simp_thms)
  next
    case False
    then have "map_of (numbered nxt) n = None" by (simp only: numbered_None not_False_eq_True)
    with False show ?thesis using jm_get_dom [of prev n] by force
  qed
  then show "set (map ch_number (diffPrSnapshots prev nxt)) = {n. jm_get prev n \<noteq> jm_get (snapshot_map nxt) n}"
    by (auto simp: nums baseline_get [OF assms(1)])
qed

text \<open>One call of the poller's comparison, for any repository, and the baseline a repository has.\<close>

record poll_call =
  pk_repo :: jsstring
  pk_prs :: "polled_pr list"
  pk_projectIds :: "nat list option"
  pk_sweep :: "nat option"

definition poll :: "pr_poller \<Rightarrow> poll_call \<Rightarrow> pr_change list \<times> pr_push list \<times> pr_poller" where
  "poll st c = pushPrChanges (pk_repo c) (pk_prs c) (pk_projectIds c) (pk_sweep c) st"

definition new_poller :: pr_poller where
  "new_poller = \<lparr>lastSnapshots = [], lastPrMeta = [], nudged = []\<rparr>"

definition baseline :: "pr_poller \<Rightarrow> jsstring \<Rightarrow> int \<Rightarrow> pr_snapshot option" where
  "baseline st k = (case jm_get (lastSnapshots st) k of None \<Rightarrow> (\<lambda>_. None) | Some m \<Rightarrow> jm_get m)"

text \<open>A client reads the list once, when the repository is first polled, and then applies the changes.\<close>

definition follow :: "jsstring \<Rightarrow> pr_poller \<times> (int \<Rightarrow> pr_snapshot option) \<Rightarrow> poll_call
    \<Rightarrow> pr_poller \<times> (int \<Rightarrow> pr_snapshot option)" where
  "follow k = (\<lambda>(st, client) c. let (changes, _, st') = poll st c in
     (st', if pk_repo c \<noteq> k then client
           else if jm_get (lastSnapshots st) k = None then baseline st' k
           else replay client changes))"

lemma snapshot_numbers: "map sn_number (map snapshotPr prs) = map (\<lambda>p. sn_number (pp_snapshot p)) prs"
  by (simp add: snapshotPr_def)

lemma other_repo: "pk_repo c \<noteq> k \<Longrightarrow> baseline (snd (snd (poll st c))) k = baseline st k"
  by (auto simp: poll_def pushPrChanges_def baseline_def jm.get_put Let_def split: option.split)

lemma poll_changes:
  assumes "jm_get (lastSnapshots st) (pk_repo c) = Some m" and "distinct (map (\<lambda>p. sn_number (pp_snapshot p)) (pk_prs c))"
  shows "replay (jm_get m) (fst (poll st c)) = baseline (snd (snd (poll st c))) (pk_repo c)"
proof (cases "pk_projectIds c")
  case None
  with assms(1) show ?thesis
    by (auto simp: poll_def pushPrChanges_def baseline_def Let_def replay_def split: option.split)
next
  case (Some ids)
  have "replay (jm_get m) (diffPrSnapshots m (map snapshotPr (pk_prs c))) = jm_get (snapshot_map (map snapshotPr (pk_prs c)))"
    using assms(2) by (intro diff_replays) (simp only: snapshot_numbers)
  with Some assms(1) show ?thesis
    by (auto simp: poll_def pushPrChanges_def baseline_def jm.get_put Let_def)
qed

text \<open>
  The changes the poller reports rebuild the pull request list. Over any sequence of polls and
  sweeps of any repositories, in which no answer lists a number twice, a client that takes the list once
  and then only applies the reported changes holds, after every call, exactly the snapshots the poller
  compares the next answer with: nothing changes silently, a sweep without an audience hides nothing
  from the next poll, and a repository's changes never leak into another's.
\<close>

theorem poller_changes_rebuild_list:
  assumes "list_all (\<lambda>c. distinct (map (\<lambda>p. sn_number (pp_snapshot p)) (pk_prs c))) calls"
  shows "snd (foldl (follow k) (new_poller, \<lambda>_. None) calls) = baseline (fst (foldl (follow k) (new_poller, \<lambda>_. None) calls)) k"
  using assms
proof (induction calls rule: rev_induct)
  case Nil
  show ?case by (simp add: baseline_def new_poller_def)
next
  case (snoc c calls)
  obtain st client where run: "foldl (follow k) (new_poller, \<lambda>_. None) calls = (st, client)" by fastforce
  with snoc have client: "client = baseline st k" by simp
  obtain changes pushes st' where p: "poll st c = (changes, pushes, st')" by (cases "poll st c")
  have "replay client changes = baseline st' k" if "pk_repo c = k" "jm_get (lastSnapshots st) k \<noteq> None"
    using poll_changes [of st c] that snoc.prems by (auto simp: client baseline_def p)
  moreover have "client = baseline st' k" if "pk_repo c \<noteq> k"
    using other_repo [OF that, of st] by (simp add: client p)
  moreover have "follow k (st, client) c = (st', if pk_repo c \<noteq> k then client
      else if jm_get (lastSnapshots st) k = None then baseline st' k else replay client changes)"
    by (simp add: follow_def p)
  ultimately show ?case by (auto simp: run)
qed

definition demo_polled :: "int \<Rightarrow> polled_pr" where
  "demo_polled n = \<lparr>pp_snapshot = \<lparr>sn_number = n, sn_headSha = lit ''f00'', sn_isDraft = False, sn_ciStatus = None,
     sn_reviewDecision = None, sn_mergeable = Some MG_unknown, sn_unresolvedThreads = None, sn_commentCount = None,
     sn_prPhase = PH_unknown, sn_relayState = None, sn_relayVerdict = None\<rparr>, pp_relayReview = None,
     pp_headBranch = lit ''b'', pp_title = lit ''t'', pp_htmlUrl = lit ''u''\<rparr>"

theorem poller_changes_rebuild_list_witness:
  "snd (foldl (follow (lit ''a/b'')) (new_poller, \<lambda>_. None)
      [\<lparr>pk_repo = lit ''a/b'', pk_prs = [demo_polled 1, demo_polled 2], pk_projectIds = None, pk_sweep = Some 7\<rparr>,
       \<lparr>pk_repo = lit ''a/b'', pk_prs = [demo_polled 3, demo_polled 2], pk_projectIds = Some [7], pk_sweep = None\<rparr>]) 3 \<noteq> None"
proof -
  let ?calls = "[\<lparr>pk_repo = lit ''a/b'', pk_prs = [demo_polled 1, demo_polled 2], pk_projectIds = None, pk_sweep = Some 7\<rparr>,
       \<lparr>pk_repo = lit ''a/b'', pk_prs = [demo_polled 3, demo_polled 2], pk_projectIds = Some [7], pk_sweep = None\<rparr>]"
  have "list_all (\<lambda>c. distinct (map (\<lambda>p. sn_number (pp_snapshot p)) (pk_prs c))) ?calls"
    by (simp add: demo_polled_def)
  note rebuilt = poller_changes_rebuild_list [OF this, of "lit ''a/b''"]
  have "baseline (fst (foldl (follow (lit ''a/b'')) (new_poller, \<lambda>_. None) ?calls)) (lit ''a/b'') 3 \<noteq> None"
    by (simp add: follow_def poll_def pushPrChanges_def new_poller_def baseline_def jm.get_put Let_def case_prod_beta
        snapshot_map_def jm_of_def demo_polled_def snapshotPr_def)
  then show ?thesis by (simp only: rebuilt not_False_eq_True)
qed

text \<open>A notification of failing checks needs a poll that saw them not failing before.\<close>

lemma ci_failed_is_a_transition: "(Pr_ci_failed, m) \<in> set (derivePrEvents c m merged) \<Longrightarrow>
    \<exists>n before after. c = Updated n before after \<and> sn_ciStatus before \<noteq> Some CI_failure \<and> sn_ciStatus after = Some CI_failure"
  by (auto simp: derivePrEvents_def split: pr_change.splits if_splits option.splits)

end
