(* ===== verification/ReviewRelay.thy ===== *)
theory ReviewRelay
  imports PullRequests MessageFrame
begin

section \<open>The review relay's state of a pull request\<close>

text \<open>
  \<open>src/services/relay-review-state.ts\<close>: which commit the last review covered, whether a requested review
  landed, the memo of that answer, its recovery from ledger markers after a restart, and the annotation of
  the pull request list. What GitHub answers enters as lists, or as \<open>Inl\<close> the error message of a failed
  read. \<open>Date.parse\<close> is an argument (\<open>None\<close> is \<open>NaN\<close>, every comparison with which is false). An awaited
  lookup is two operations on the memo, its begin and its end, so other calls may run between them.
\<close>

record pr_review =
  rw_author :: jsstring
  rw_authorIsBot :: bool
  rw_state :: jsstring
  rw_commitId :: jsstring
  rw_submittedAt :: "jsstring option"
  rw_body :: "jsstring option"
  rw_bodyTruncated :: bool
  rw_htmlUrl :: "jsstring option"

record review_marker =
  mk_oid :: jsstring
  mk_id :: nat
  mk_startedAt :: jsstring
  mk_completedAt :: jsstring

definition LANDED_REVIEW_STATES :: "jsstring set" where
  "LANDED_REVIEW_STATES = {APPROVED, CHANGES_REQUESTED, COMMENTED}"

text \<open>\<open>toLowerCase\<close> of a login.\<close>

definition lower_login :: "jsstring \<Rightarrow> jsstring" where "lower_login s = map lower_unit s"

definition isReviewerLogin :: "jsstring \<Rightarrow> jsstring \<Rightarrow> bool" where
  "isReviewerLogin author botLogin \<longleftrightarrow> botLogin = [] \<or> lower_login author = lower_login botLogin"

definition reviewerStandingVerdict :: "pr_review list \<Rightarrow> jsstring \<Rightarrow> (jsstring \<times> jsstring) option" where
  "reviewerStandingVerdict reviews botLogin = (if botLogin = [] then None
     else (let decisive = filter (\<lambda>r. rw_authorIsBot r \<and> isReviewerLogin (rw_author r) botLogin
             \<and> (rw_state r = APPROVED \<or> rw_state r = CHANGES_REQUESTED)) reviews
           in if decisive = [] then None else Some (rw_state (last decisive), rw_commitId (last decisive))))"

definition MARKER_PAIRING_SLACK_MS :: int where "MARKER_PAIRING_SLACK_MS = 60000"
definition MARKER_MAX_RUN_MS :: int where "MARKER_MAX_RUN_MS = 90 * 60000"

definition markerCoversTime :: "(jsstring \<Rightarrow> int option) \<Rightarrow> review_marker \<Rightarrow> int option \<Rightarrow> bool" where
  "markerCoversTime dateParse m at_ms = (case (dateParse (mk_startedAt m), dateParse (mk_completedAt m), at_ms) of
       (Some from_ms, Some completed, Some t) \<Rightarrow>
         t \<ge> from_ms \<and> t \<le> min (completed + MARKER_PAIRING_SLACK_MS) (from_ms + MARKER_MAX_RUN_MS)
     | _ \<Rightarrow> False)"

text \<open>\<open>r.submittedAt\<close> when it is truthy: neither null nor empty.\<close>

definition submitted :: "pr_review \<Rightarrow> jsstring option" where
  "submitted r = (case rw_submittedAt r of None \<Rightarrow> None | Some d \<Rightarrow> if d = [] then None else Some d)"

definition landed_review :: "jsstring \<Rightarrow> pr_review \<Rightarrow> bool" where
  "landed_review botLogin r \<longleftrightarrow> rw_authorIsBot r \<and> isReviewerLogin (rw_author r) botLogin \<and> rw_state r \<in> LANDED_REVIEW_STATES"

text \<open>\<open>.sort((a, b) => a.id - b.id).at(-1)\<close>\<close>

definition newest_marker :: "review_marker list \<Rightarrow> review_marker option" where
  "newest_marker ms = (if ms = [] then None else Some (last (sort_key mk_id ms)))"

datatype base_error = Ledger_unreadable jsstring | Commit_unreadable jsstring jsstring

text \<open>The first rule: the commit of the newest marker paired with a landed review.\<close>

definition paired_markers :: "(jsstring \<Rightarrow> int option) \<Rightarrow> pr_review list \<Rightarrow> review_marker list \<Rightarrow> review_marker list" where
  "paired_markers dateParse landed ms = (let times = map dateParse (List.map_filter submitted landed) in
     filter (\<lambda>m. list_ex (markerCoversTime dateParse m) times) ms)"

text \<open>The second rule: the last landed review's commit, unless it is newer than the review.\<close>

definition commit_rule :: "(jsstring \<Rightarrow> int option) \<Rightarrow> (jsstring \<Rightarrow> jsstring + jsstring) \<Rightarrow> pr_review list
    \<Rightarrow> jsstring \<times> base_error list" where
  "commit_rule dateParse committedAt landed = (if landed = [] then ([], [])
     else let r = last landed in
       if rw_commitId r = [] then ([], []) else (case submitted r of
           None \<Rightarrow> ([], [])
         | Some d \<Rightarrow> (case committedAt (rw_commitId r) of
               Inl e \<Rightarrow> ([], [Commit_unreadable (rw_commitId r) e])
             | Inr c \<Rightarrow> (case (dateParse c, dateParse d) of
                   (Some committed, Some sub) \<Rightarrow> (if committed \<le> sub then rw_commitId r else [], [])
                 | _ \<Rightarrow> ([], [])))))"

text \<open>
  The base of the next review round and what was reported to \<open>onError\<close>. \<open>markers\<close> is \<open>None\<close> when there is
  no token to read the ledger with.
\<close>

definition resolveReviewedCommit :: "(jsstring \<Rightarrow> int option) \<Rightarrow> pr_review list \<Rightarrow> jsstring
    \<Rightarrow> (jsstring + review_marker list) option \<Rightarrow> (jsstring \<Rightarrow> jsstring + jsstring) \<Rightarrow> jsstring \<times> base_error list" where
  "resolveReviewedCommit dateParse reviews botLogin markers committedAt =
     (let landed = filter (landed_review botLogin) reviews in
      case markers of
        None \<Rightarrow> commit_rule dateParse committedAt landed
      | Some (Inl e) \<Rightarrow> (let (base, errs) = commit_rule dateParse committedAt landed in (base, Ledger_unreadable e # errs))
      | Some (Inr ms) \<Rightarrow> (case newest_marker (paired_markers dateParse landed ms) of
            Some m \<Rightarrow> (mk_oid m, [])
          | None \<Rightarrow> commit_rule dateParse committedAt landed))"

subsection \<open>Did the requested review land?\<close>

record landed_info =
  li_author :: jsstring
  li_state :: jsstring
  li_commitId :: jsstring
  li_submittedAt :: jsstring
  li_body :: "jsstring option"
  li_bodyTruncated :: bool
  li_htmlUrl :: "jsstring option"

datatype landed_answer = Unchecked | Checked "landed_info option"

datatype landed_warning = Ignoring_bots "jsstring list" | Lookup_failed jsstring

definition since_dispatch :: "(jsstring \<Rightarrow> int option) \<Rightarrow> int \<Rightarrow> pr_review \<Rightarrow> bool" where
  "since_dispatch dateParse dispatchedAt r = (case submitted r of None \<Rightarrow> False
     | Some d \<Rightarrow> (case dateParse d of None \<Rightarrow> False | Some t \<Rightarrow> t \<ge> dispatchedAt - 60000))"

text \<open>\<open>[...new Set(xs)]\<close>\<close>

definition js_set :: "'a list \<Rightarrow> 'a list" where "js_set xs = rev (remdups (rev xs))"

definition findLandedReview :: "(jsstring \<Rightarrow> int option) \<Rightarrow> jsstring \<Rightarrow> jsstring + pr_review list \<Rightarrow> int option
    \<Rightarrow> landed_answer \<times> landed_warning list" where
  "findLandedReview dateParse botLogin answer record = (case record of
       None \<Rightarrow> (Unchecked, [])
     | Some dispatchedAt \<Rightarrow> (case answer of
           Inl e \<Rightarrow> (Unchecked, [Lookup_failed e])
         | Inr reviews \<Rightarrow>
             (let mine = filter (\<lambda>r. landed_review botLogin r \<and> since_dispatch dateParse dispatchedAt r) reviews;
                  ignored = filter (\<lambda>r. rw_authorIsBot r \<and> \<not> isReviewerLogin (rw_author r) botLogin
                     \<and> rw_state r \<in> LANDED_REVIEW_STATES \<and> since_dispatch dateParse dispatchedAt r) reviews
              in if mine = [] then (Checked None, if ignored = [] then [] else [Ignoring_bots (js_set (map rw_author ignored))])
                 else (let r = last mine in (Checked (Some \<lparr>li_author = rw_author r, li_state = rw_state r,
                    li_commitId = rw_commitId r, li_submittedAt = (case submitted r of Some d \<Rightarrow> d | None \<Rightarrow> []),
                    li_body = rw_body r, li_bodyTruncated = rw_bodyTruncated r, li_htmlUrl = rw_htmlUrl r\<rparr>), [])))))"

subsection \<open>The memo of that answer\<close>

definition LANDED_MEMO_TTL_MS :: int where "LANDED_MEMO_TTL_MS = 10000"
definition MAX_LANDED_MEMO_ENTRIES :: nat where "MAX_LANDED_MEMO_ENTRIES = 500"
definition LANDED_RECHECK_MS :: int where "LANDED_RECHECK_MS = 10 * 60000"
definition STALE_RUN_MS :: int where "STALE_RUN_MS = 24 * 60 * 60000"

record landed_entry =
  le_landed :: landed_answer
  le_at :: int
  le_ttl :: int

type_synonym landed_memo = "(jsstring, landed_entry) jsmap"

fun isLanded :: "landed_answer \<Rightarrow> bool" where
  "isLanded (Checked (Some _)) = True"
| "isLanded _ = False"

text \<open>Deletes entries in the given order until the map is within its cap: the loop deletes before it looks.\<close>

fun evict_oldest :: "nat \<Rightarrow> (jsstring \<times> landed_entry) list \<Rightarrow> landed_memo \<Rightarrow> landed_memo" where
  "evict_oldest cap [] memo = memo"
| "evict_oldest cap ((k, _) # es) memo = (let memo' = jm_delete k memo in
     if jm_size memo' \<le> cap then memo' else evict_oldest cap es memo')"

definition pruneLandedMemo :: "landed_memo \<Rightarrow> int \<Rightarrow> nat \<Rightarrow> landed_memo" where
  "pruneLandedMemo memo now cap = (if jm_size memo \<le> cap then memo
     else (let swept = filter (\<lambda>(_, e). \<not> now - le_at e \<ge> le_ttl e) memo in
       if jm_size swept \<le> cap then swept else evict_oldest cap (sort_key (\<lambda>(_, e). le_at e) swept) swept))"

text \<open>The memo's part of \<open>getRelayReviewState\<close>: a fresh entry is served, and is not stamped again.\<close>

definition memo_lookup :: "jsstring \<Rightarrow> int \<Rightarrow> landed_memo \<Rightarrow> landed_answer option" where
  "memo_lookup key now memo = (case jm_get memo key of
       Some e \<Rightarrow> if now - le_at e < le_ttl e then Some (le_landed e) else None
     | None \<Rightarrow> None)"

text \<open>The end of the awaited lookup that began at \<open>now\<close>, for a run dispatched at \<open>dispatchedAt\<close>.\<close>

definition landed_ttl :: "int \<Rightarrow> int \<Rightarrow> landed_answer \<Rightarrow> int" where
  "landed_ttl now dispatchedAt landed = (if isLanded landed \<or> now - dispatchedAt > STALE_RUN_MS
     then LANDED_RECHECK_MS else LANDED_MEMO_TTL_MS)"

definition memo_store :: "jsstring \<Rightarrow> int \<Rightarrow> int \<Rightarrow> landed_answer \<Rightarrow> landed_memo \<Rightarrow> landed_memo" where
  "memo_store key now dispatchedAt landed memo = pruneLandedMemo
     (jm_set key \<lparr>le_landed = landed, le_at = now, le_ttl = landed_ttl now dispatchedAt landed\<rparr> memo)
     now MAX_LANDED_MEMO_ENTRIES"

definition none_state :: relay_review where
  "none_state = \<lparr>rr_state = RK_none, rr_runId = None, rr_dispatchedAt = None, rr_landedChecked = None, rr_author = None,
     rr_verdict = None, rr_body = None, rr_bodyTruncated = None, rr_htmlUrl = None\<rparr>"

record review_run =
  rn_runId :: jsstring
  rn_dispatchedAt :: int

text \<open>The state of a run, once the landed answer is there (\<open>None\<close>: there is no token to ask with). \<open>isoOf\<close> formats a date.\<close>

definition requested_state :: "(int \<Rightarrow> jsstring) \<Rightarrow> review_run \<Rightarrow> relay_review" where
  "requested_state isoOf run = none_state\<lparr>rr_state := RK_requested, rr_runId := Some (rn_runId run),
     rr_dispatchedAt := Some (isoOf (rn_dispatchedAt run))\<rparr>"

definition run_state :: "(int \<Rightarrow> jsstring) \<Rightarrow> review_run \<Rightarrow> landed_answer option \<Rightarrow> relay_review" where
  "run_state isoOf run answer = (let base = requested_state isoOf run in case answer of
       None \<Rightarrow> base\<lparr>rr_landedChecked := Some False\<rparr>
     | Some Unchecked \<Rightarrow> base\<lparr>rr_landedChecked := Some False\<rparr>
     | Some (Checked None) \<Rightarrow> base\<lparr>rr_landedChecked := Some True\<rparr>
     | Some (Checked (Some l)) \<Rightarrow> base\<lparr>rr_state := RK_landed, rr_landedChecked := Some True, rr_author := Some (li_author l),
         rr_verdict := Some (li_state l), rr_body := li_body l,
         rr_bodyTruncated := (if li_bodyTruncated l then Some True else None), rr_htmlUrl := li_htmlUrl l\<rparr>)"

subsection \<open>Recovery from the ledger\<close>

text \<open>
  The reviews newest first, each with the newest marker that covers it; the first pair is the landed run.
  \<open>answers\<close> is what the review read and the marker reads returned, \<open>Inl\<close> when one of them threw.
\<close>

definition landed_pair :: "(jsstring \<Rightarrow> int option) \<Rightarrow> jsstring \<Rightarrow> pr_review list \<Rightarrow> review_marker list
    \<Rightarrow> (pr_review \<times> review_marker) option" where
  "landed_pair dateParse botLogin reviews markers =
     (let landed = filter (\<lambda>r. landed_review botLogin r \<and> submitted r \<noteq> None) reviews in
      case List.map_filter (\<lambda>r. map_option (\<lambda>m. (r, m))
          (newest_marker (filter (\<lambda>m. markerCoversTime dateParse m (Option.bind (submitted r) dateParse)) markers)))
          (rev landed) of
        [] \<Rightarrow> None
      | p # _ \<Rightarrow> Some p)"

definition readLandedFromMarker :: "(jsstring \<Rightarrow> int option) \<Rightarrow> jsstring
    \<Rightarrow> jsstring + (pr_review list \<times> review_marker list) \<Rightarrow> relay_review option" where
  "readLandedFromMarker dateParse botLogin answers = (case answers of
       Inl _ \<Rightarrow> None
     | Inr (reviews, markers) \<Rightarrow> map_option (\<lambda>(r, m). none_state\<lparr>rr_state := RK_landed,
          rr_runId := Some (lit ''marker-'' @ show_nat (mk_id m)), rr_dispatchedAt := Some (mk_startedAt m),
          rr_landedChecked := Some True, rr_author := Some (rw_author r), rr_verdict := Some (rw_state r),
          rr_body := rw_body r, rr_bodyTruncated := (if rw_bodyTruncated r then Some True else None),
          rr_htmlUrl := rw_htmlUrl r\<rparr>) (landed_pair dateParse botLogin reviews markers))"

text \<open>
  The memo of recoveries: a key names an entry, an entry is an object that outlives its eviction while its
  read is pending.
\<close>

record rehydrate_entry =
  re_at :: int
  re_state :: "relay_review option"
  re_pending :: bool

record rehydrate_memo =
  rh_memo :: "(jsstring, nat) jsmap"
  rh_entries :: "(nat, rehydrate_entry) jsmap"
  rh_fresh :: nat

datatype rehydrate_answer = Joins nat | Serves "relay_review option" | Reads nat

definition REHYDRATE_HIT_TTL_MS :: int where "REHYDRATE_HIT_TTL_MS = LANDED_RECHECK_MS"
definition REHYDRATE_MISS_TTL_MS :: int where "REHYDRATE_MISS_TTL_MS = 60000"

definition start_read :: "jsstring \<Rightarrow> int \<Rightarrow> rehydrate_memo \<Rightarrow> rehydrate_answer \<times> rehydrate_memo" where
  "start_read key now st = (let memo = jm_set key (rh_fresh st) (rh_memo st) in
     (Reads (rh_fresh st), st\<lparr>rh_memo := if jm_size memo > MAX_LANDED_MEMO_ENTRIES then jm_delete_oldest memo else memo,
        rh_entries := jm_set (rh_fresh st) \<lparr>re_at = now, re_state = None, re_pending = True\<rparr> (rh_entries st),
        rh_fresh := rh_fresh st + 1\<rparr>))"

definition rehydrateLandedFromMarker :: "jsstring \<Rightarrow> jsstring \<Rightarrow> jsstring \<Rightarrow> int \<Rightarrow> rehydrate_memo
    \<Rightarrow> rehydrate_answer \<times> rehydrate_memo" where
  "rehydrateLandedFromMarker botLogin ledgerName key now st =
     (if botLogin = [] \<or> ledgerName = [] then (Serves None, st)
      else case Option.bind (jm_get (rh_memo st) key) (\<lambda>i. map_option (Pair i) (jm_get (rh_entries st) i)) of
        None \<Rightarrow> start_read key now st
      | Some (i, e) \<Rightarrow>
          if re_pending e then (Joins i, st)
          else if now - re_at e < (if re_state e \<noteq> None then REHYDRATE_HIT_TTL_MS else REHYDRATE_MISS_TTL_MS)
          then (Serves (re_state e), st)
          else start_read key now st)"

text \<open>The read of entry \<open>i\<close> settles.\<close>

definition rehydrate_settled :: "nat \<Rightarrow> relay_review option \<Rightarrow> int \<Rightarrow> rehydrate_memo \<Rightarrow> rehydrate_memo" where
  "rehydrate_settled i state now st = st\<lparr>rh_entries :=
     jm_set i \<lparr>re_at = now, re_state = state, re_pending = False\<rparr> (rh_entries st)\<rparr>"

subsection \<open>The annotated list\<close>

record listed_pr =
  lp_number :: int
  lp_reviewers :: "jsstring list"
  lp_relayReview :: "relay_review option"
  lp_reviewSummary :: "review_summary option"

definition bareLogin :: "jsstring \<Rightarrow> jsstring" where
  "bareLogin login = (let l = lower_login login in
     if length l \<ge> 5 \<and> drop (length l - 5) l = lit ''[bot]'' then take (length l - 5) l else l)"

definition is_candidate :: "jsstring \<Rightarrow> (int \<Rightarrow> review_run option) \<Rightarrow> listed_pr \<Rightarrow> bool" where
  "is_candidate botLogin runOf pr \<longleftrightarrow> runOf (lp_number pr) \<noteq> None
     \<or> (bareLogin botLogin \<noteq> [] \<and> list_ex (\<lambda>r. bareLogin r = bareLogin botLogin) (lp_reviewers pr))"

text \<open>\<open>stateOf\<close> is what \<open>getRelayReviewState\<close> answers for a number; the list drops the review's text.\<close>

definition annotateRelayReviewState :: "jsstring \<Rightarrow> (int \<Rightarrow> review_run option) \<Rightarrow> (int \<Rightarrow> relay_review)
    \<Rightarrow> listed_pr list \<Rightarrow> listed_pr list" where
  "annotateRelayReviewState botLogin runOf stateOf prs =
     (if \<not> list_ex (is_candidate botLogin runOf) prs then prs
      else map (\<lambda>pr. if \<not> is_candidate botLogin runOf pr then pr
        else (let state = stateOf (lp_number pr);
                  relay = (if rr_state state = RK_none then None
                    else Some (state\<lparr>rr_body := None, rr_bodyTruncated := None\<rparr>))
              in pr\<lparr>lp_relayReview := relay,
                   lp_reviewSummary := map_option (\<lambda>su. withRelay su relay) (lp_reviewSummary pr)\<rparr>)) prs)"

definition overlay_pr :: "(int \<Rightarrow> jsstring) \<Rightarrow> (int \<Rightarrow> review_run option) \<Rightarrow> listed_pr \<Rightarrow> listed_pr" where
  "overlay_pr isoOf runOf pr = (case runOf (lp_number pr) of
       None \<Rightarrow> pr
     | Some run \<Rightarrow>
         if Option.bind (lp_relayReview pr) rr_runId = Some (rn_runId run) then pr
         else (let relay = Some ((requested_state isoOf run)\<lparr>rr_landedChecked := Some False\<rparr>)
               in pr\<lparr>lp_relayReview := relay,
                    lp_reviewSummary := map_option (\<lambda>su. withRelay su relay) (lp_reviewSummary pr)\<rparr>))"

definition overlayRelayRuns :: "(int \<Rightarrow> jsstring) \<Rightarrow> (int \<Rightarrow> review_run option) \<Rightarrow> listed_pr list \<Rightarrow> listed_pr list" where
  "overlayRelayRuns isoOf runOf prs = map (overlay_pr isoOf runOf) prs"

subsection \<open>The base is a commit that was reviewed\<close>

lemma newest_marker_Some:
  assumes "newest_marker ms = Some m"
  shows "m \<in> set ms" and "\<forall>m' \<in> set ms. mk_id m' \<le> mk_id m"
proof -
  have m: "ms \<noteq> []" "m = last (sort_key mk_id ms)"
    using assms by (auto simp: newest_marker_def split: if_splits)
  have ne: "sort_key mk_id ms \<noteq> []" using m(1) by (metis set_sort set_empty)
  then show "m \<in> set ms" using m(2) last_in_set [OF ne] by simp
  have "sorted (map mk_id (sort_key mk_id ms))" by simp
  moreover obtain ys where "sort_key mk_id ms = ys @ [m]" using ne m(2) by (metis append_butlast_last_id)
  ultimately have "\<forall>m' \<in> set (sort_key mk_id ms). mk_id m' \<le> mk_id m"
    by (auto simp: sorted_append)
  then show "\<forall>m' \<in> set ms. mk_id m' \<le> mk_id m" by simp
qed

lemma newest_marker_None: "newest_marker ms = None \<longleftrightarrow> ms = []"
  by (simp add: newest_marker_def)

lemma set_map_filter: "set (List.map_filter f xs) = {y. \<exists>x \<in> set xs. f x = Some y}"
  by (induction xs) (auto simp: List.map_filter_simps split: option.splits)

definition pairs_review :: "(jsstring \<Rightarrow> int option) \<Rightarrow> review_marker \<Rightarrow> pr_review \<Rightarrow> bool" where
  "pairs_review dateParse m r \<longleftrightarrow> markerCoversTime dateParse m (Option.bind (submitted r) dateParse)"

lemma covers_time: "pairs_review dateParse m r \<longleftrightarrow> (\<exists>d. submitted r = Some d \<and> markerCoversTime dateParse m (dateParse d))"
  by (cases "submitted r") (auto simp: pairs_review_def markerCoversTime_def split: option.splits)

text \<open>The contract of a pairing: the review was submitted while the run was open, with a minute's slack and no later than ninety minutes in.\<close>

definition reviewed_during :: "(jsstring \<Rightarrow> int option) \<Rightarrow> review_marker \<Rightarrow> pr_review \<Rightarrow> bool" where
  "reviewed_during dateParse m r \<longleftrightarrow> (\<exists>t from_ms completed. Option.bind (submitted r) dateParse = Some t
     \<and> dateParse (mk_startedAt m) = Some from_ms \<and> dateParse (mk_completedAt m) = Some completed
     \<and> from_ms \<le> t \<and> t \<le> completed + 60000 \<and> t \<le> from_ms + 5400000)"

lemma covers_during: "pairs_review dateParse m r \<Longrightarrow> reviewed_during dateParse m r"
  by (cases "dateParse (mk_startedAt m)"; cases "dateParse (mk_completedAt m)"; cases "Option.bind (submitted r) dateParse")
    (simp_all add: pairs_review_def markerCoversTime_def reviewed_during_def MARKER_PAIRING_SLACK_MS_def MARKER_MAX_RUN_MS_def)

lemma paired_iff: "m \<in> set (paired_markers dateParse landed ms) \<longleftrightarrow> m \<in> set ms \<and> (\<exists>r \<in> set landed. pairs_review dateParse m r)"
  by (auto simp: paired_markers_def list_ex_iff set_map_filter covers_time Let_def)

lemma commit_rule_base:
  assumes "fst (commit_rule dateParse committedAt landed) = base" and "base \<noteq> []"
  shows "\<exists>r c d. landed \<noteq> [] \<and> r = last landed \<and> rw_commitId r = base \<and> committedAt base = Inr c
    \<and> submitted r = Some d \<and> dateParse c \<noteq> None \<and> dateParse d \<noteq> None \<and> the (dateParse c) \<le> the (dateParse d)"
  using assms by (auto simp: commit_rule_def Let_def split: if_splits option.splits sum.splits)

text \<open>
  The base of the next review round is never newer than what was reviewed. When the rule names a
  commit, either a ledger marker on that commit was open while a landed review by the reviewer was
  submitted, at most a minute after it closed and at most ninety minutes after it began, and no paired
  marker is newer; or no marker is paired, and it is the commit of the reviewer's last landed review,
  committed no later than the review.
\<close>

theorem reviewed_base_is_covered:
  assumes "fst (resolveReviewedCommit dateParse reviews botLogin markers committedAt) = base" and "base \<noteq> []"
  shows "(\<exists>ms m r. markers = Some (Inr ms) \<and> m \<in> set ms \<and> mk_oid m = base
        \<and> r \<in> set reviews \<and> landed_review botLogin r \<and> reviewed_during dateParse m r
        \<and> (\<forall>m' \<in> set (paired_markers dateParse (filter (landed_review botLogin) reviews) ms). mk_id m' \<le> mk_id m))
    \<or> (\<exists>r c d. r \<in> set reviews \<and> landed_review botLogin r \<and> rw_commitId r = base \<and> committedAt base = Inr c
        \<and> submitted r = Some d \<and> dateParse c \<noteq> None \<and> dateParse d \<noteq> None \<and> the (dateParse c) \<le> the (dateParse d)
        \<and> (\<forall>ms. markers = Some (Inr ms) \<longrightarrow> paired_markers dateParse (filter (landed_review botLogin) reviews) ms = []))"
proof -
  let ?landed = "filter (landed_review botLogin) reviews"
  let ?rule = "fst (commit_rule dateParse committedAt ?landed)"
  consider ms m where "markers = Some (Inr ms)" "newest_marker (paired_markers dateParse ?landed ms) = Some m" "mk_oid m = base"
    | "?rule = base" "\<forall>ms. markers = Some (Inr ms) \<longrightarrow> paired_markers dateParse ?landed ms = []"
    using assms(1) by (fastforce simp: resolveReviewedCommit_def newest_marker_None case_prod_beta Let_def
        split: option.splits sum.splits)
  then show ?thesis
  proof cases
    case (1 ms m)
    note top = newest_marker_Some [OF 1(2)]
    from top(1) obtain r where "m \<in> set ms" "r \<in> set ?landed" "pairs_review dateParse m r"
      by (auto simp only: paired_iff)
    with 1 top(2) covers_during [of dateParse m r] show ?thesis by auto
  next
    case 2
    obtain r c d where "?landed \<noteq> []" "r = last ?landed" "rw_commitId r = base" "committedAt base = Inr c"
      "submitted r = Some d" "dateParse c \<noteq> None" "dateParse d \<noteq> None" "the (dateParse c) \<le> the (dateParse d)"
      using commit_rule_base [OF 2(1) assms(2)] by blast
    moreover from this have "r \<in> set ?landed" using last_in_set by blast
    ultimately show ?thesis using 2(2) by auto
  qed
qed

text \<open>\<open>Date.parse\<close> of a number of seconds written as one unit each, enough for a witness.\<close>

definition demo_date :: "jsstring \<Rightarrow> int option" where
  "demo_date s = (if s = [] then None else Some (1000 * int (hd s)))"

definition bot_review :: "nat \<Rightarrow> pr_review" where
  "bot_review t = \<lparr>rw_author = lit ''hermes[bot]'', rw_authorIsBot = True, rw_state = APPROVED, rw_commitId = lit ''c2'',
     rw_submittedAt = Some [t], rw_body = None, rw_bodyTruncated = False, rw_htmlUrl = None\<rparr>"

definition demo_marker :: review_marker where
  "demo_marker = \<lparr>mk_oid = lit ''c1'', mk_id = 7, mk_startedAt = [10], mk_completedAt = [90]\<rparr>"

theorem reviewed_base_is_covered_witness:
  "fst (resolveReviewedCommit demo_date [bot_review 100] (lit ''Hermes[bot]'') (Some (Inr [demo_marker])) (\<lambda>_. Inl []))
     = lit ''c1'' \<and> pairs_review demo_date demo_marker (bot_review 100)"
proof -
  have landed: "landed_review (lit ''Hermes[bot]'') (bot_review 100)"
    by (simp add: landed_review_def bot_review_def isReviewerLogin_def lower_login_def lower_unit_def lit_def
        LANDED_REVIEW_STATES_def)
  have cov: "pairs_review demo_date demo_marker (bot_review 100)"
    by (simp add: pairs_review_def markerCoversTime_def demo_marker_def bot_review_def submitted_def demo_date_def
        MARKER_PAIRING_SLACK_MS_def MARKER_MAX_RUN_MS_def)
  have "List.map_filter submitted [bot_review 100] = [[100]]"
    by (simp add: List.map_filter_simps submitted_def bot_review_def)
  then have "paired_markers demo_date [bot_review 100] [demo_marker] = [demo_marker]"
    using cov by (simp add: paired_markers_def pairs_review_def submitted_def bot_review_def)
  then have base: "fst (resolveReviewedCommit demo_date [bot_review 100] (lit ''Hermes[bot]'') (Some (Inr [demo_marker])) (\<lambda>_. Inl []))
      = lit ''c1''"
    using landed by (simp add: resolveReviewedCommit_def newest_marker_def) (simp add: demo_marker_def)
  show ?thesis
    using reviewed_base_is_covered [OF base] base cov by (simp add: lit_def)
qed

text \<open>
  What is recovered after a restart agrees with that rule: a recovered run is a paired marker, so the rule
  answers with a marker at least as new.
\<close>

lemma landed_pair_Some:
  assumes "landed_pair dateParse botLogin reviews ms = Some (r, m)"
  shows "r \<in> set reviews" "landed_review botLogin r" "m \<in> set ms" "pairs_review dateParse m r"
proof -
  let ?landed = "filter (\<lambda>r. landed_review botLogin r \<and> submitted r \<noteq> None) reviews"
  let ?pick = "\<lambda>r. map_option (Pair r) (newest_marker (filter (\<lambda>m. markerCoversTime dateParse m (Option.bind (submitted r) dateParse)) ms))"
  have "(r, m) \<in> set (List.map_filter ?pick (rev ?landed))"
    using assms by (auto simp: landed_pair_def Let_def split: list.splits)
  then have "r \<in> set ?landed" "newest_marker (filter (\<lambda>m. markerCoversTime dateParse m (Option.bind (submitted r) dateParse)) ms) = Some m"
    by (auto simp: set_map_filter)
  moreover from newest_marker_Some(1) [OF this(2)] have "m \<in> set ms" "pairs_review dateParse m r"
    by (auto simp: pairs_review_def)
  ultimately show "r \<in> set reviews" "landed_review botLogin r" "m \<in> set ms" "pairs_review dateParse m r" by auto
qed

lemma recovered_marker_is_paired:
  assumes "landed_pair dateParse botLogin reviews ms = Some (r, m)"
  obtains m' where "m' \<in> set ms" "mk_id m \<le> mk_id m'"
    "resolveReviewedCommit dateParse reviews botLogin (Some (Inr ms)) committedAt = (mk_oid m', [])"
proof -
  let ?paired = "paired_markers dateParse (filter (landed_review botLogin) reviews) ms"
  have m: "m \<in> set ?paired" using landed_pair_Some [OF assms] by (auto simp: paired_iff)
  then obtain m' where m': "newest_marker ?paired = Some m'" using newest_marker_None [of ?paired] by fastforce
  show ?thesis
    using that [of m'] newest_marker_Some [OF m'] m m' by (auto simp: resolveReviewedCommit_def paired_iff)
qed

subsection \<open>The memos are fresh and bounded\<close>

record landed_lookup =
  ll_key :: jsstring
  ll_begun :: int
  ll_dispatched :: int
  ll_answer :: landed_answer

definition store_lookup :: "landed_memo \<Rightarrow> landed_lookup \<Rightarrow> landed_memo" where
  "store_lookup memo l = memo_store (ll_key l) (ll_begun l) (ll_dispatched l) (ll_answer l) memo"

definition entry_of :: "landed_lookup \<Rightarrow> landed_entry" where
  "entry_of l = \<lparr>le_landed = ll_answer l, le_at = ll_begun l, le_ttl = landed_ttl (ll_begun l) (ll_dispatched l) (ll_answer l)\<rparr>"

lemma jm_delete_sub: "set (jm_delete k m) \<subseteq> set m"
  by (auto simp: jm_delete_def AList.delete_eq)

lemma evict_sub: "set (evict_oldest cap es memo) \<subseteq> set memo"
proof (induction cap es memo rule: evict_oldest.induct)
  case (2 cap k e es memo)
  then show ?case using jm_delete_sub [of k memo] by (auto simp: Let_def)
qed simp

text \<open>Evicting over all keys always ends within the cap.\<close>

lemma evict_size: "jm_size memo > cap \<Longrightarrow> fst ` set memo \<subseteq> fst ` set es \<Longrightarrow> jm_size (evict_oldest cap es memo) \<le> cap"
proof (induction cap es memo rule: evict_oldest.induct)
  case (2 cap k e es memo)
  have "fst ` set (jm_delete k memo) \<subseteq> fst ` set es"
    using 2(3) by (auto simp: jm_delete_def AList.delete_eq)
  then show ?case using 2 by (auto simp: Let_def)
qed (simp add: jm_size_def)

lemma prune_size: "jm_size (pruneLandedMemo memo now cap) \<le> cap"
proof -
  let ?swept = "filter (\<lambda>(_, e). \<not> now - le_at e \<ge> le_ttl e) memo"
  have "jm_size (evict_oldest cap (sort_key (\<lambda>(_, e). le_at e) ?swept) ?swept) \<le> cap" if "jm_size ?swept > cap"
    using that by (rule evict_size) simp
  then show ?thesis by (simp add: pruneLandedMemo_def Let_def not_le)
qed

lemma prune_sub: "set (pruneLandedMemo memo now cap) \<subseteq> set memo"
proof -
  let ?swept = "filter (\<lambda>(_, e). \<not> now - le_at e \<ge> le_ttl e) memo"
  have "set (evict_oldest cap (sort_key (\<lambda>(_, e). le_at e) ?swept) ?swept) \<subseteq> set memo"
    using evict_sub [of cap _ ?swept] by auto
  then show ?thesis by (simp add: pruneLandedMemo_def Let_def) 
qed

lemma jm_set_sub: "set (jm_set k v m) \<subseteq> insert (k, v) (set m)"
  unfolding jm_set_def by (induction m) auto

lemma memo_from_lookups: "set (foldl store_lookup [] ls) \<subseteq> (\<lambda>l. (ll_key l, entry_of l)) ` set ls"
proof (induction ls rule: rev_induct)
  case (snoc l ls)
  have "set (store_lookup memo l) \<subseteq> insert (ll_key l, entry_of l) (set memo)" for memo
    unfolding store_lookup_def memo_store_def entry_of_def using prune_sub jm_set_sub by (rule order_trans)
  with snoc show ?case by (fastforce simp: image_iff)
qed simp

text \<open>
  The memo of landed reviews serves only fresh answers and stays bounded. After any sequence of
  lookups ending in any order, whatever began or ended between, it holds at most 500 entries, and an
  answer it serves at any time is that of a lookup for the same pull request and run that began less than
  its lifetime ago: ten minutes for a landed review or a run older than a day, ten seconds for anything
  else. A read never prolongs an entry, so polling cannot keep an old answer alive.
\<close>

theorem landed_memo_fresh_and_bounded:
  "jm_size (foldl store_lookup [] ls) \<le> MAX_LANDED_MEMO_ENTRIES
   \<and> (case memo_lookup key now (foldl store_lookup [] ls) of
       None \<Rightarrow> True
     | Some a \<Rightarrow> \<exists>l. l \<in> set ls \<and> ll_key l = key \<and> ll_answer l = a
         \<and> now - ll_begun l < (if isLanded a \<or> ll_begun l - ll_dispatched l > 86400000 then 600000 else 10000))"
proof
  show "jm_size (foldl store_lookup [] ls) \<le> MAX_LANDED_MEMO_ENTRIES"
    by (cases ls rule: rev_cases)
      (simp_all add: store_lookup_def memo_store_def prune_size jm_size_def [of "[]"])
  show "case memo_lookup key now (foldl store_lookup [] ls) of
       None \<Rightarrow> True
     | Some a \<Rightarrow> \<exists>l. l \<in> set ls \<and> ll_key l = key \<and> ll_answer l = a
         \<and> now - ll_begun l < (if isLanded a \<or> ll_begun l - ll_dispatched l > 86400000 then 600000 else 10000)"
  proof (cases "memo_lookup key now (foldl store_lookup [] ls)")
    case (Some a)
    then obtain e where e: "jm_get (foldl store_lookup [] ls) key = Some e" "now - le_at e < le_ttl e" "a = le_landed e"
      by (auto simp: memo_lookup_def split: option.splits if_splits)
    then have "(key, e) \<in> set (foldl store_lookup [] ls)" by (simp add: jm_get_def map_of_SomeD)
    then obtain l where "l \<in> set ls" "ll_key l = key" "e = entry_of l" using memo_from_lookups by blast
    with e Some show ?thesis
      by (auto simp: entry_of_def landed_ttl_def STALE_RUN_MS_def LANDED_RECHECK_MS_def LANDED_MEMO_TTL_MS_def)
  qed simp
qed

text \<open>The memo of recoveries is bounded too, and an entry in it with a read under way is joined, not read again.\<close>

definition rehydrate_ok :: "rehydrate_memo \<Rightarrow> bool" where
  "rehydrate_ok st \<longleftrightarrow> jm_wf (rh_memo st) \<and> jm_size (rh_memo st) \<le> MAX_LANDED_MEMO_ENTRIES"

lemma rehydrate_ok_call:
  assumes "rehydrate_ok st"
  shows "rehydrate_ok (snd (rehydrateLandedFromMarker botLogin ledger key now st))"
proof -
  let ?m = "jm_set key (rh_fresh st) (rh_memo st)"
  have wf: "jm_wf (rh_memo st)" and size: "jm_size (rh_memo st) \<le> MAX_LANDED_MEMO_ENTRIES"
    using assms by (simp_all add: rehydrate_ok_def)
  have wf': "jm_wf ?m" using wf by (rule jm.wf_put)
  have le: "jm_size ?m \<le> Suc MAX_LANDED_MEMO_ENTRIES"
    using jm.size_put_le [of key "rh_fresh st" "rh_memo st"] size by (simp add: jm_size_keys)
  have "jm_size (jm_delete_oldest ?m) \<le> MAX_LANDED_MEMO_ENTRIES \<and> jm_wf (jm_delete_oldest ?m)"
    if "jm_size ?m > MAX_LANDED_MEMO_ENTRIES"
  proof (cases ?m)
    case (Cons kv m)
    then have "jm_oldest ?m = Some (fst kv)" "fst kv \<in> set (jm_keys ?m)"
      by (auto simp: jm_oldest_def jm_keys_def split: prod.split)
    then show ?thesis
      using jm.size_delete_present [OF wf', of "fst kv"] le jm.wf_delete [OF wf']
      by (simp add: jm_delete_oldest_def jm_size_keys)
  qed (use that in \<open>simp add: jm_size_def\<close>)
  then have "rehydrate_ok (snd (start_read key now st))"
    using wf' by (simp add: start_read_def rehydrate_ok_def Let_def not_less)
  with assms show ?thesis
    by (auto simp: rehydrateLandedFromMarker_def split: option.split prod.split)
qed

lemma pending_read_is_joined:
  assumes "botLogin \<noteq> []" and "ledger \<noteq> []" and "jm_get (rh_memo st) key = Some i"
    and "jm_get (rh_entries st) i = Some e" and "re_pending e"
  shows "rehydrateLandedFromMarker botLogin ledger key now st = (Joins i, st)"
  using assms by (simp add: rehydrateLandedFromMarker_def)

text \<open>The overlay shows every run the index knows, touches no other request and settles in one step.\<close>

lemma overlay_shows_run: "runOf (lp_number pr) = Some run \<Longrightarrow>
    Option.bind (lp_relayReview (overlay_pr isoOf runOf pr)) rr_runId = Some (rn_runId run)"
  by (auto simp: overlay_pr_def requested_state_def none_state_def Let_def)

lemma overlay_idempotent: "overlayRelayRuns isoOf runOf (overlayRelayRuns isoOf runOf prs) = overlayRelayRuns isoOf runOf prs"
proof -
  have "overlay_pr isoOf runOf (overlay_pr isoOf runOf pr) = overlay_pr isoOf runOf pr" for pr
  proof (cases "runOf (lp_number pr)")
    case (Some run)
    have "lp_number (overlay_pr isoOf runOf pr) = lp_number pr"
      by (simp add: overlay_pr_def Let_def split: option.split)
    with Some overlay_shows_run [of runOf pr run isoOf] show ?thesis by (subst overlay_pr_def) simp
  qed (simp add: overlay_pr_def)
  then show ?thesis by (simp add: overlayRelayRuns_def)
qed

end
