(* ===== verification/Wire.thy ===== *)
theory Wire
  imports TerminalText Complex_Main
begin

section \<open>Untyped values\<close>

text \<open>
  What \<open>JSON.parse\<close> gives for a text the program did not write: numbers of any kind and strings of UTF-16 code
  units, with the reads of fields and elements the services make on a value of unknown shape. A field that
  is absent, or read off a value that is no object, is \<open>None\<close> (\<open>undefined\<close>).
\<close>

datatype js_number = Finite rat | Not_finite

datatype wire = WNull | WBool bool | WNum js_number | WStr jsstring | WArr "wire list" | WObj "(jsstring \<times> wire) list"

fun wire_field :: "wire \<Rightarrow> string \<Rightarrow> wire option" where
  "wire_field (WObj kvs) k = map_of (rev kvs) (lit k)"
| "wire_field _ k = None"

text \<open>\<open>typeof v === "string"\<close> and \<open>Array.isArray(v)\<close>, with the value they narrow to.\<close>

definition wire_string :: "wire option \<Rightarrow> jsstring option" where
  "wire_string w = (case w of Some (WStr s) \<Rightarrow> Some s | _ \<Rightarrow> None)"

definition wire_array :: "wire option \<Rightarrow> wire list" where
  "wire_array w = (case w of Some (WArr ws) \<Rightarrow> ws | _ \<Rightarrow> [])"

text \<open>A field that is a non-empty string.\<close>

definition wire_text :: "wire \<Rightarrow> string \<Rightarrow> jsstring option" where
  "wire_text w k = (case wire_string (wire_field w k) of Some s \<Rightarrow> if s = [] then None else Some s | None \<Rightarrow> None)"

definition js_trim_end :: "jsstring \<Rightarrow> jsstring" where
  "js_trim_end s = rev (dropWhile js_space (rev s))"

definition replace_unit :: "nat \<Rightarrow> jsstring \<Rightarrow> jsstring \<Rightarrow> jsstring" where
  "replace_unit c r s = concat (map (\<lambda>d. if d = c then r else [d]) s)"

text \<open>The line terminators of a regular expression: what \<open>.\<close> does not match and \<open>^\<close> begins after.\<close>

definition line_end :: "nat \<Rightarrow> bool" where
  "line_end c \<longleftrightarrow> c = 10 \<or> c = 13 \<or> c = 8232 \<or> c = 8233"

fun begins_with :: "jsstring \<Rightarrow> jsstring \<Rightarrow> bool" where
  "begins_with [] s = True"
| "begins_with (p # ps) [] = False"
| "begins_with (p # ps) (c # s) = (p = c \<and> begins_with ps s)"

lemma begins_with_iff: "begins_with p s \<longleftrightarrow> (\<exists>r. s = p @ r)"
  by (induction p s rule: begins_with.induct) auto

lemma begins_with_append [simp]: "begins_with p (p @ s)"
  by (auto simp: begins_with_iff)

end
