(* ===== verification/EventStore.thy ===== *)
theory EventStore
  imports SessionLive Wire
begin

section \<open>The persisted event history\<close>

text \<open>
  \<open>src/services/event-history.ts\<close> (the rules over the \<open>session_events\<close> table) and the writer of
  \<open>src/services/event-store.ts\<close> that fills it. The table is the list of its rows in insertion order with
  the id the next row gets (\<open>AUTOINCREMENT\<close>); its unique index on session, sequence number, time and kind
  and its foreign key are the two checks of an insert. The owner of a session is looked up by the query
  of \<open>SessionLive\<close>. \<open>JSON.stringify\<close> and \<open>JSON.parse\<close> of a payload are arguments (\<open>None\<close>: it throws).
\<close>

record event_row =
  er_id :: int
  er_sessionId :: "int option"
  er_seq :: int
  er_kind :: string
  er_ts :: int
  er_payload :: "string option"

record event_table =
  et_rows :: "event_row list"
  et_next :: int

record notification =
  ne_sessionId :: int
  ne_seq :: int
  ne_kind :: string
  ne_ts :: int
  ne_payload :: "json option"

subsection \<open>Inserting\<close>

definition same_event :: "notification \<Rightarrow> event_row \<Rightarrow> bool" where
  "same_event e r \<longleftrightarrow> er_sessionId r = Some (ne_sessionId e) \<and> er_seq r = ne_seq e \<and> er_ts r = ne_ts e \<and> er_kind r = ne_kind e"

definition insert_event :: "(json \<Rightarrow> string) \<Rightarrow> event_table \<Rightarrow> notification \<Rightarrow> event_table" where
  "insert_event stringify t e = (if list_ex (same_event e) (et_rows t) then t
     else t\<lparr>et_rows := et_rows t @ [\<lparr>er_id = et_next t, er_sessionId = Some (ne_sessionId e), er_seq = ne_seq e,
         er_kind = ne_kind e, er_ts = ne_ts e,
         er_payload = Some (stringify (case ne_payload e of None \<Rightarrow> JObj [] | Some p \<Rightarrow> p))\<rparr>],
       et_next := et_next t + 1\<rparr>)"

text \<open>One statement for the whole batch: it throws (\<open>None\<close>) as a whole, when the database does or when a session is gone.\<close>

definition insertSessionEvents :: "(json \<Rightarrow> string) \<Rightarrow> bool \<Rightarrow> session_row list \<Rightarrow> notification list \<Rightarrow> event_table
    \<Rightarrow> event_table option" where
  "insertSessionEvents stringify down sessions events t =
     (if events = [] then Some t
      else if down \<or> \<not> list_all (\<lambda>e. ne_sessionId e \<in> sr_id ` set sessions) events then None
      else Some (foldl (insert_event stringify) t events))"

subsection \<open>Querying\<close>

record event_filter =
  ef_sessionId :: "int option"
  ef_kind :: "string option"
  ef_since :: "int option"
  ef_until :: "int option"
  ef_cursor :: "int option"

text \<open>A limit is any JavaScript number (\<open>js_number\<close>).\<close>

definition DEFAULT_QUERY_LIMIT :: nat where "DEFAULT_QUERY_LIMIT = 100"
definition MAX_QUERY_LIMIT :: nat where "MAX_QUERY_LIMIT = 500"

definition query_limit :: "js_number option \<Rightarrow> nat" where
  "query_limit raw = (case raw of
       Some (Finite q) \<Rightarrow> if q > 0 then min (nat \<lfloor>q\<rfloor>) MAX_QUERY_LIMIT else DEFAULT_QUERY_LIMIT
     | _ \<Rightarrow> DEFAULT_QUERY_LIMIT)"

definition row_matches :: "event_filter \<Rightarrow> event_row \<Rightarrow> bool" where
  "row_matches f r \<longleftrightarrow>
     (case ef_sessionId f of None \<Rightarrow> True | Some s \<Rightarrow> er_sessionId r = Some s)
     \<and> (case ef_kind f of None \<Rightarrow> True | Some k \<Rightarrow> er_kind r = k)
     \<and> (case ef_since f of None \<Rightarrow> True | Some t \<Rightarrow> er_ts r \<ge> t)
     \<and> (case ef_until f of None \<Rightarrow> True | Some t \<Rightarrow> er_ts r \<le> t)
     \<and> (case ef_cursor f of None \<Rightarrow> True | Some c \<Rightarrow> er_id r < c)"

fun parsePayload :: "(string \<Rightarrow> json option) \<Rightarrow> string option \<Rightarrow> json option" where
  "parsePayload parse None = None"
| "parsePayload parse (Some raw) = (case parse raw of
     Some (JObj o') \<Rightarrow> Some (JObj o') | Some (JArr xs) \<Rightarrow> Some (JArr xs) | _ \<Rightarrow> None)"

record stored_event =
  se_id :: int
  se_sessionId :: "int option"
  se_seq :: int
  se_kind :: string
  se_ts :: int
  se_payload :: "json option"

definition stored :: "(string \<Rightarrow> json option) \<Rightarrow> event_row \<Rightarrow> stored_event" where
  "stored parse r = \<lparr>se_id = er_id r, se_sessionId = er_sessionId r, se_seq = er_seq r, se_kind = er_kind r,
     se_ts = er_ts r, se_payload = parsePayload parse (er_payload r)\<rparr>"

text \<open>
  \<open>ORDER BY id DESC LIMIT limit + 1\<close>; a row more than the limit says that there is a next page. With a
  limit of 0 the last row of the empty page is \<open>undefined\<close> and reading its id throws: \<open>None\<close>.
\<close>

definition newest_rows :: "event_filter \<Rightarrow> event_row list \<Rightarrow> event_row list" where
  "newest_rows f rows = rev (sort_key er_id (filter (row_matches f) rows))"

definition querySessionEvents :: "(string \<Rightarrow> json option) \<Rightarrow> event_row list \<Rightarrow> event_filter \<Rightarrow> js_number option
    \<Rightarrow> (stored_event list \<times> int option) option" where
  "querySessionEvents parse rows f rawLimit =
     (let limit = query_limit rawLimit;
          found = take (limit + 1) (newest_rows f rows);
          hasMore = length found > limit;
          page = (if hasMore then take limit found else found)
      in if hasMore \<and> page = [] then None
         else Some (map (stored parse) page, if hasMore then Some (er_id (last page)) else None))"

subsection \<open>Retention\<close>

text \<open>
  The setting is any JavaScript number: for a \<open>NaN\<close> or infinite one no row is below the threshold (the database
  reads \<open>NaN\<close> as null).
\<close>

definition sweepOldSessionEvents :: "int \<Rightarrow> js_number \<Rightarrow> event_table \<Rightarrow> int \<times> event_table" where
  "sweepOldSessionEvents now retentionDays t = (case retentionDays of
       Not_finite \<Rightarrow> (0, t)
     | Finite days \<Rightarrow>
        if days \<le> 0 then (0, t)
        else let threshold = of_int now - days * 24 * 60 * 60 * 1000;
                 kept = filter (\<lambda>r. \<not> of_int (er_ts r) < threshold) (et_rows t)
             in (int (length (et_rows t)) - int (length kept), t\<lparr>et_rows := kept\<rparr>))"

text \<open>One session: the id of its \<open>cap\<close>-th newest row, and the deletion of everything older.\<close>

definition session_rows :: "int \<Rightarrow> event_row list \<Rightarrow> event_row list" where
  "session_rows sid rows = rev (sort_key er_id (filter (\<lambda>r. er_sessionId r = Some sid) rows))"

definition cutoff_id :: "nat \<Rightarrow> int \<Rightarrow> event_row list \<Rightarrow> int option" where
  "cutoff_id cap sid rows = (case drop (cap - 1) (session_rows sid rows) of [] \<Rightarrow> None | r # _ \<Rightarrow> Some (er_id r))"

definition cap_session :: "nat \<Rightarrow> int \<Rightarrow> event_row list \<Rightarrow> event_row list" where
  "cap_session cap sid rows = (case cutoff_id cap sid rows of
       None \<Rightarrow> rows
     | Some c \<Rightarrow> filter (\<lambda>r. \<not> (er_sessionId r = Some sid \<and> er_id r < c)) rows)"

text \<open>\<open>SELECT DISTINCT session_id\<close> of the rows that have one; the setting is any JavaScript number.\<close>

definition session_ids :: "event_row list \<Rightarrow> int list" where
  "session_ids rows = remdups (List.map_filter er_sessionId rows)"

definition retention_cap :: "js_number \<Rightarrow> nat" where
  "retention_cap n = (case n of Not_finite \<Rightarrow> 0 | Finite q \<Rightarrow> if q > 0 then nat \<lfloor>q\<rfloor> else 0)"

definition sweepSessionEventCap :: "js_number \<Rightarrow> event_table \<Rightarrow> int \<times> event_table" where
  "sweepSessionEventCap maxPerSession t =
     (let cap = retention_cap maxPerSession in
      if cap = 0 then (0, t)
      else let kept = foldl (\<lambda>rows sid. cap_session cap sid rows) (et_rows t) (session_ids (et_rows t))
           in (int (length (et_rows t)) - int (length kept), t\<lparr>et_rows := kept\<rparr>))"

text \<open>One tick of the retention timer: the two settings, each off at 0 or below.\<close>

definition retention_tick :: "int \<Rightarrow> rat \<Rightarrow> rat \<Rightarrow> event_table \<Rightarrow> event_table" where
  "retention_tick now eventRetentionDays eventRetentionPerSession t =
     (let t1 = (if eventRetentionDays > 0 then snd (sweepOldSessionEvents now (Finite eventRetentionDays) t) else t)
      in if eventRetentionPerSession > 0 then snd (sweepSessionEventCap (Finite eventRetentionPerSession) t1) else t1)"

subsection \<open>The writer\<close>

definition EVENT_FLUSH_DEBOUNCE_MS :: int where "EVENT_FLUSH_DEBOUNCE_MS = 5000"
definition EVENT_FLUSH_CEILING_MS :: int where "EVENT_FLUSH_CEILING_MS = 30000"

text \<open>A buffered event and the host that reported it, \<open>None\<close> for this process. A timer is its due time.\<close>

type_synonym buffered_event = "notification \<times> string option"

record event_writer =
  ew_buffer :: "buffered_event list"
  ew_debounce :: "int option"
  ew_ceiling :: "int option"

definition remote_ids :: "buffered_event list \<Rightarrow> int list" where
  "remote_ids batch = js_unique (map (\<lambda>(e, _). ne_sessionId e) (filter (\<lambda>(_, h). h \<noteq> None) batch))"

text \<open>The owners, in lookups of \<open>OWNERSHIP_LOOKUP_CHUNK_SIZE\<close> ids each: the same query and size as in \<open>SessionLive\<close>.\<close>

definition ownerBySessionId :: "project_row list \<Rightarrow> session_row list \<Rightarrow> int list \<Rightarrow> (int, string) jsmap" where
  "ownerBySessionId projects sessions ids = owners_loop projects sessions 0 ids []"

definition owned :: "(int, string) jsmap \<Rightarrow> buffered_event \<Rightarrow> bool" where
  "owned owners = (\<lambda>(e, h). h = None \<or> jm_get owners (ne_sessionId e) = h)"

definition filterHostOwnership :: "project_row list \<Rightarrow> session_row list \<Rightarrow> buffered_event list \<Rightarrow> notification list" where
  "filterHostOwnership projects sessions batch = (let ids = remote_ids batch in
     if ids = [] then map fst batch
     else map fst (filter (owned (ownerBySessionId projects sessions ids)) batch))"

text \<open>
  What a flush depends on: the setting as read (\<open>None\<close>: the read threw), whether the ownership query
  threw, whether the insert of the batch fails at the database, and whether that of a single row does.
\<close>

record flush_env =
  fe_persistence :: "bool option"
  fe_ownershipThrows :: bool
  fe_batchFails :: bool
  fe_rowFails :: "notification \<Rightarrow> bool"

definition verified_events :: "flush_env \<Rightarrow> project_row list \<Rightarrow> session_row list \<Rightarrow> buffered_event list \<Rightarrow> notification list" where
  "verified_events env projects sessions batch =
     (if fe_ownershipThrows env then map fst (filter (\<lambda>(_, h). h = None) batch)
      else filterHostOwnership projects sessions batch)"

definition retry_row :: "(json \<Rightarrow> string) \<Rightarrow> flush_env \<Rightarrow> session_row list \<Rightarrow> event_table \<Rightarrow> notification \<Rightarrow> event_table" where
  "retry_row stringify env sessions t e =
     (case insertSessionEvents stringify (fe_rowFails env e) sessions [e] t of Some t' \<Rightarrow> t' | None \<Rightarrow> t)"

definition persist_batch :: "(json \<Rightarrow> string) \<Rightarrow> flush_env \<Rightarrow> session_row list \<Rightarrow> notification list \<Rightarrow> event_table \<Rightarrow> event_table" where
  "persist_batch stringify env sessions events t =
     (case insertSessionEvents stringify (fe_batchFails env) sessions events t of
        Some t' \<Rightarrow> t'
      | None \<Rightarrow> foldl (retry_row stringify env sessions) t events)"

definition clearFlushTimers :: "event_writer \<Rightarrow> event_writer" where
  "clearFlushTimers w = w\<lparr>ew_debounce := None, ew_ceiling := None\<rparr>"

definition flushEvents :: "(json \<Rightarrow> string) \<Rightarrow> flush_env \<Rightarrow> project_row list \<Rightarrow> session_row list
    \<Rightarrow> event_writer \<times> event_table \<Rightarrow> event_writer \<times> event_table" where
  "flushEvents stringify env projects sessions = (\<lambda>(w, t).
     (let w1 = clearFlushTimers w; batch = ew_buffer w in
      if batch = [] then (w1, t)
      else (w1\<lparr>ew_buffer := []\<rparr>,
        if fe_persistence env \<noteq> Some True then t
        else persist_batch stringify env sessions (verified_events env projects sessions batch) t)))"

definition pushEvent :: "int \<Rightarrow> notification \<Rightarrow> string option \<Rightarrow> event_writer \<Rightarrow> event_writer" where
  "pushEvent now e sourceHostId w =
     (let dirty = (ew_debounce w \<noteq> None \<or> ew_ceiling w \<noteq> None) in
      w\<lparr>ew_buffer := ew_buffer w @ [(e, sourceHostId)], ew_debounce := Some (now + EVENT_FLUSH_DEBOUNCE_MS),
        ew_ceiling := (if dirty then ew_ceiling w else Some (now + EVENT_FLUSH_CEILING_MS))\<rparr>)"

text \<open>\<open>publishVerifiedRemoteEvent\<close>: whether a remote event reaches the live listeners.\<close>

definition publishVerifiedRemoteEvent :: "nat \<Rightarrow> bool \<Rightarrow> project_row list \<Rightarrow> session_row list \<Rightarrow> notification \<Rightarrow> string \<Rightarrow> bool" where
  "publishVerifiedRemoteEvent listeners throws projects sessions e sourceHostId \<longleftrightarrow>
     listeners \<noteq> 0 \<and> \<not> throws \<and> length (filterHostOwnership projects sessions [(e, Some sourceHostId)]) = 1"

subsection \<open>Paging through the history\<close>

definition ordered_ids :: "event_row list \<Rightarrow> bool" where
  "ordered_ids rows \<longleftrightarrow> sorted_wrt (<) (map er_id rows)"

lemma ordered_filter: "ordered_ids rows \<Longrightarrow> ordered_ids (filter P rows)"
  by (auto simp: ordered_ids_def sorted_wrt_map sorted_wrt_filter)

lemma ordered_sort: "ordered_ids rows \<Longrightarrow> sort_key er_id rows = rows"
  by (rule sort_key_id_if_sorted) (auto simp: ordered_ids_def strict_sorted_imp_sorted)

lemma newest_is_rev: "ordered_ids rows \<Longrightarrow> newest_rows f rows = rev (filter (row_matches f) rows)"
  by (simp add: newest_rows_def ordered_sort ordered_filter)

definition descending :: "event_row list \<Rightarrow> bool" where
  "descending rows \<longleftrightarrow> sorted_wrt (\<lambda>r r'. er_id r' < er_id r) rows"

lemma descending_rev: "ordered_ids rows \<Longrightarrow> descending (rev rows)"
  by (simp add: descending_def ordered_ids_def sorted_wrt_rev sorted_wrt_map)

lemma newest_descending: "ordered_ids rows \<Longrightarrow> descending (newest_rows f rows)"
  by (simp add: newest_is_rev descending_rev ordered_filter)

lemma older_than_nth:
  assumes "descending rs" and "k < length rs"
  shows "filter (\<lambda>r. er_id r < er_id (rs ! k)) rs = drop (Suc k) rs"
proof -
  have s: "sorted_wrt (\<lambda>r r'. er_id r' < er_id r) rs" using assms(1) by (simp add: descending_def)
  have old: "er_id r < er_id (rs ! k)" if mem: "r \<in> set (drop (Suc k) rs)" for r
  proof -
    obtain j where "j < length (drop (Suc k) rs)" "r = drop (Suc k) rs ! j"
      using mem unfolding in_set_conv_nth by blast
    then have "j < length rs - Suc k" "r = rs ! (Suc k + j)" by simp_all
    then show ?thesis using sorted_wrt_nth_less [OF s, of k "Suc k + j"] by simp
  qed
  have new: "\<not> er_id r < er_id (rs ! k)" if mem: "r \<in> set (take (Suc k) rs)" for r
  proof -
    obtain j where "j < Suc k" "j < length rs" "r = rs ! j"
      using mem by (auto simp: in_set_conv_nth)
    then show ?thesis using sorted_wrt_nth_less [OF s, of j k] assms(2) by (cases "j = k") auto
  qed
  have "filter (\<lambda>r. er_id r < er_id (rs ! k)) (take (Suc k) rs @ drop (Suc k) rs) = drop (Suc k) rs"
    using old new by (simp add: filter_empty_conv filter_id_conv del: append_take_drop_id)
  then show ?thesis by simp
qed

text \<open>A client that asks for page after page, each query against the table as it is by then.\<close>

fun walk :: "(string \<Rightarrow> json option) \<Rightarrow> (nat \<Rightarrow> event_row list) \<Rightarrow> js_number option \<Rightarrow> event_filter \<Rightarrow> nat \<Rightarrow> nat
    \<Rightarrow> stored_event list \<times> bool" where
  "walk parse tab bound f i 0 = ([], False)"
| "walk parse tab bound f i (Suc n) = (case querySessionEvents parse (tab i) f bound of
     None \<Rightarrow> ([], False)
   | Some (evs, None) \<Rightarrow> (evs, True)
   | Some (evs, Some c) \<Rightarrow> (let (rest, finished) = walk parse tab bound (f\<lparr>ef_cursor := Some c\<rparr>) (Suc i) n in (evs @ rest, finished)))"

text \<open>The table a walk began with, and later rows with higher ids.\<close>

definition grows :: "(nat \<Rightarrow> event_row list) \<Rightarrow> event_row list \<Rightarrow> bool" where
  "grows tab rows \<longleftrightarrow> tab 0 = rows \<and> (\<forall>i. ordered_ids (tab i) \<and> (\<exists>later. tab i = rows @ later))"

definition pinned :: "event_row list \<Rightarrow> event_filter \<Rightarrow> nat \<Rightarrow> bool" where
  "pinned rows f i \<longleftrightarrow> i = 0 \<or> (\<exists>r \<in> set rows. ef_cursor f = Some (er_id r))"

lemma pinned_rows:
  assumes "grows tab rows" and "pinned rows f i"
  shows "newest_rows f (tab i) = newest_rows f rows"
proof (cases "i = 0")
  case False
  then obtain r where r: "r \<in> set rows" "ef_cursor f = Some (er_id r)" using assms(2) by (auto simp: pinned_def)
  obtain later where t: "tab i = rows @ later" "ordered_ids (rows @ later)"
    using assms(1) unfolding grows_def by metis
  have "\<not> row_matches f x" if "x \<in> set later" for x
    using t(2) r that by (fastforce simp: ordered_ids_def sorted_wrt_append row_matches_def)
  then have "filter (row_matches f) (tab i) = filter (row_matches f) rows" by (simp add: t filter_empty_conv)
  then show ?thesis by (simp add: newest_rows_def)
qed (use assms(1) in \<open>simp add: grows_def\<close>)

lemma next_page:
  assumes "ordered_ids rows" and "k < length (newest_rows f rows)"
  shows "newest_rows (f\<lparr>ef_cursor := Some (er_id (newest_rows f rows ! k))\<rparr>) rows = drop (Suc k) (newest_rows f rows)"
proof -
  let ?x = "newest_rows f rows ! k"
  have "?x \<in> set (newest_rows f rows)" using assms(2) by simp
  then have "row_matches f ?x" by (simp add: newest_rows_def)
  then have "row_matches (f\<lparr>ef_cursor := Some (er_id ?x)\<rparr>) = (\<lambda>r. row_matches f r \<and> er_id r < er_id ?x)"
    by (auto simp: row_matches_def fun_eq_iff split: option.splits)
  then have "newest_rows (f\<lparr>ef_cursor := Some (er_id ?x)\<rparr>) rows = filter (\<lambda>r. er_id r < er_id ?x) (newest_rows f rows)"
    by (simp add: newest_is_rev [OF assms(1)] rev_filter [symmetric])
  then show ?thesis using older_than_nth [OF newest_descending [OF assms(1)] assms(2)] by simp
qed

lemma walk_pinned:
  assumes "grows tab rows" and "query_limit bound > 0"
  shows "pinned rows f i \<Longrightarrow> length (newest_rows f rows) < n
    \<Longrightarrow> walk parse tab bound f i n = (map (stored parse) (newest_rows f rows), True)"
proof (induction n arbitrary: f i)
  case (Suc n)
  let ?M = "newest_rows f rows" and ?L = "query_limit bound"
  have ord: "ordered_ids rows" using assms(1) unfolding grows_def by metis
  note same = pinned_rows [OF assms(1) Suc.prems(1)]
  show ?case
  proof (cases "length ?M \<le> ?L")
    case True
    then show ?thesis by (simp add: querySessionEvents_def same Let_def)
  next
    case False
    let ?c = "er_id (?M ! (?L - 1))"
    have "last (take ?L ?M) = ?M ! (?L - 1)" using False assms(2) by (subst last_conv_nth) (auto simp: min_def)
    then have q: "querySessionEvents parse (tab i) f bound = Some (map (stored parse) (take ?L ?M), Some ?c)"
      using False assms(2) by (auto simp: querySessionEvents_def same Let_def min_def)
    have k: "?L - 1 < length ?M" using False assms(2) by simp
    have drop: "newest_rows (f\<lparr>ef_cursor := Some ?c\<rparr>) rows = drop ?L ?M"
      using next_page [OF ord k] assms(2) by simp
    have "?M ! (?L - 1) \<in> set rows" using nth_mem [OF k] by (simp add: newest_rows_def)
    then have pin: "pinned rows (f\<lparr>ef_cursor := Some ?c\<rparr>) (Suc i)" by (auto simp: pinned_def)
    have "length (drop ?L ?M) < n" using Suc.prems(2) assms(2) False by simp
    then have "length (newest_rows (f\<lparr>ef_cursor := Some ?c\<rparr>) rows) < n" by (simp only: drop)
    from Suc.IH [OF pin this] have "walk parse tab bound (f\<lparr>ef_cursor := Some ?c\<rparr>) (Suc i) n = (map (stored parse) (drop ?L ?M), True)"
      by (simp only: drop)
    then show ?thesis by (simp add: q map_append [symmetric] del: map_append)
  qed
qed simp

text \<open>
  C35: Paging through the history misses and repeats nothing. A client that follows \<open>nextCursor\<close> from any
  filter to the end, with any limit of at least one row, while new events are inserted between its
  requests, receives exactly the rows that matched when it began, newest first, each once, and the
  walk ends after at most one request more than there are such rows.
\<close>

theorem pages_cover_the_history:
  assumes "grows tab rows" and "query_limit bound > 0" and "length (newest_rows f rows) < n"
  shows "walk parse tab bound f 0 n = (map (stored parse) (rev (filter (row_matches f) rows)), True)"
proof -
  have "ordered_ids rows" using assms(1) unfolding grows_def by metis
  then show ?thesis using walk_pinned [OF assms(1,2), of f 0 n parse] assms(3) by (simp add: newest_is_rev pinned_def)
qed

definition demo_event_row :: "int \<Rightarrow> event_row" where
  "demo_event_row i = \<lparr>er_id = i, er_sessionId = Some (i mod 2), er_seq = i, er_kind = ''bell'', er_ts = 10 - i, er_payload = None\<rparr>"

definition no_filter :: event_filter where
  "no_filter = \<lparr>ef_sessionId = None, ef_kind = None, ef_since = None, ef_until = None, ef_cursor = None\<rparr>"

theorem pages_cover_the_history_witness:
  "walk (\<lambda>_. None) (\<lambda>i. map demo_event_row [1, 2, 3] @ (if i = 0 then [] else [demo_event_row 4])) (Some (Finite (3/2)))
     (no_filter\<lparr>ef_sessionId := Some 1\<rparr>) 0 4 = (map (stored (\<lambda>_. None)) (map demo_event_row [3, 1]), True)"
proof -
  have "grows (\<lambda>i. map demo_event_row [1, 2, 3] @ (if i = 0 then [] else [demo_event_row 4])) (map demo_event_row [1, 2, 3])"
    by (auto simp: grows_def ordered_ids_def demo_event_row_def)
  moreover have "query_limit (Some (Finite (3/2))) > 0" by (simp add: query_limit_def MAX_QUERY_LIMIT_def)
  moreover have "filter (row_matches (no_filter\<lparr>ef_sessionId := Some 1\<rparr>)) (map demo_event_row [1, 2, 3]) = map demo_event_row [1, 3]"
    by (simp add: row_matches_def no_filter_def demo_event_row_def)
  moreover from this have "length (newest_rows (no_filter\<lparr>ef_sessionId := Some 1\<rparr>) (map demo_event_row [1, 2, 3])) < 4"
    by (simp add: newest_rows_def)
  ultimately show ?thesis
    using pages_cover_the_history [of _ "map demo_event_row [1, 2, 3]" "Some (Finite (3/2))" "no_filter\<lparr>ef_sessionId := Some 1\<rparr>" 4]
    by fastforce
qed

text \<open>A positive limit below one is not clamped to a page: it throws as soon as a row matches.\<close>

theorem fractional_limit_throws:
  "0 < q \<Longrightarrow> q < 1 \<Longrightarrow> querySessionEvents parse [demo_event_row 1] no_filter (Some (Finite q)) = None"
  by (simp add: querySessionEvents_def query_limit_def newest_rows_def row_matches_def no_filter_def floor_eq_iff
      Let_def floor_unique [of 0 q])

subsection \<open>What the retention keeps\<close>

text \<open>The rows of the same session with a higher id: its newer events.\<close>

definition newer :: "event_row list \<Rightarrow> event_row \<Rightarrow> nat" where
  "newer rows r = length (filter (\<lambda>r'. er_sessionId r' = er_sessionId r \<and> er_id r' > er_id r) rows)"

definition keeps :: "nat \<Rightarrow> event_row list \<Rightarrow> event_row \<Rightarrow> bool" where
  "keeps cap rows r \<longleftrightarrow> er_sessionId r = None \<or> newer rows r < cap"

lemma newer_in_session:
  assumes "ordered_ids rows" and "er_sessionId r = Some sid"
  shows "newer rows r = length (filter (\<lambda>r'. er_id r' > er_id r) (session_rows sid rows))"
proof -
  have "session_rows sid rows = rev (filter (\<lambda>r. er_sessionId r = Some sid) rows)"
    by (simp add: session_rows_def ordered_sort ordered_filter assms(1))
  then show ?thesis
    by (simp add: newer_def assms(2) rev_filter [symmetric] conj_commute)
qed

lemma newer_than_nth:
  assumes "descending rs" and "k < length rs"
  shows "length (filter (\<lambda>r. er_id r > er_id (rs ! k)) rs) = k"
proof -
  have s: "sorted_wrt (\<lambda>r r'. er_id r' < er_id r) rs" using assms(1) by (simp add: descending_def)
  have new: "er_id r > er_id (rs ! k)" if mem: "r \<in> set (take k rs)" for r
  proof -
    obtain j where "j < k" "r = rs ! j" using mem by (auto simp: in_set_conv_nth)
    then show ?thesis using sorted_wrt_nth_less [OF s, of j k] assms(2) by simp
  qed
  have old: "\<not> er_id r > er_id (rs ! k)" if mem: "r \<in> set (drop k rs)" for r
  proof -
    obtain j where "j < length (drop k rs)" "r = drop k rs ! j" using mem unfolding in_set_conv_nth by blast
    then have j: "k + j < length rs" "r = rs ! (k + j)" using assms(2) by simp_all
    then show ?thesis using sorted_wrt_nth_less [OF s, of k "k + j"] by (cases "j = 0") auto
  qed
  have "filter (\<lambda>r. er_id r > er_id (rs ! k)) (take k rs @ drop k rs) = take k rs"
    using old new by (simp add: filter_empty_conv filter_id_conv del: append_take_drop_id)
  then show ?thesis using assms(2) by simp
qed

lemma session_descending: "ordered_ids rows \<Longrightarrow> descending (session_rows sid rows)"
  by (simp add: session_rows_def ordered_sort ordered_filter descending_rev)

lemma session_member: "r \<in> set (session_rows sid rows) \<longleftrightarrow> r \<in> set rows \<and> er_sessionId r = Some sid"
  by (simp add: session_rows_def)

lemma cap_one_session:
  assumes "ordered_ids rows" and "0 < cap"
  shows "cap_session cap sid rows = filter (\<lambda>r. er_sessionId r = Some sid \<longrightarrow> newer rows r < cap) rows"
proof -
  let ?S = "session_rows sid rows"
  have pos: "newer rows r = k" if "r = ?S ! k" "k < length ?S" for r k
    using newer_in_session [OF assms(1), of r sid] newer_than_nth [OF session_descending [OF assms(1)] that(2)]
      that session_member [of r sid rows] by simp
  have old: "er_id r < er_id (?S ! (cap - 1)) \<longleftrightarrow> cap \<le> newer rows r" if "r \<in> set ?S" and long: "cap \<le> length ?S" for r
  proof -
    obtain k where k: "k < length ?S" "r = ?S ! k" using \<open>r \<in> set ?S\<close> by (auto simp: in_set_conv_nth)
    have s: "sorted_wrt (\<lambda>r r'. er_id r' < er_id r) ?S" using session_descending [OF assms(1)] by (simp add: descending_def)
    have c: "cap - 1 < length ?S" using long assms(2) by simp
    have "er_id r < er_id (?S ! (cap - 1)) \<longleftrightarrow> cap - 1 < k"
    proof (cases "cap - 1" k rule: linorder_cases)
      case less
      then show ?thesis using sorted_wrt_nth_less [OF s less k(1)] k(2) by simp
    next
      case greater
      then show ?thesis using sorted_wrt_nth_less [OF s greater c] k(2) by simp
    qed (use k(2) in simp)
    then show ?thesis using pos [OF k(2,1)] assms(2) by auto
  qed
  show ?thesis
  proof (cases "cap \<le> length ?S")
    case True
    then have "drop (cap - 1) ?S = ?S ! (cap - 1) # drop cap ?S"
      using Cons_nth_drop_Suc [of "cap - 1" ?S] assms(2) by simp
    then have "cutoff_id cap sid rows = Some (er_id (?S ! (cap - 1)))" by (simp add: cutoff_id_def)
    then show ?thesis
      using old True session_member [of _ sid rows] by (auto simp: cap_session_def not_le intro!: filter_cong)
  next
    case False
    then have "cap_session cap sid rows = rows" using assms(2) by (simp add: cap_session_def cutoff_id_def)
    moreover have "newer rows r < cap" if mem: "r \<in> set rows" "er_sessionId r = Some sid" for r
    proof -
      obtain k where "k < length ?S" "r = ?S ! k" using mem session_member [of r sid rows] by (auto simp: in_set_conv_nth)
      then show ?thesis using pos [of r k] False by simp
    qed
    ultimately show ?thesis by (simp add: filter_id_conv)
  qed
qed

lemma newer_unaffected:
  "(\<And>r'. r' \<in> set rows \<Longrightarrow> er_sessionId r' = er_sessionId r \<Longrightarrow> P r') \<Longrightarrow> newer (filter P rows) r = newer rows r"
  unfolding newer_def filter_filter by (intro arg_cong [where f = length] filter_cong) auto

lemma cap_sessions:
  assumes "ordered_ids rows" and "0 < cap"
  shows "distinct sids \<Longrightarrow> foldl (\<lambda>rs sid. cap_session cap sid rs) rows sids
    = filter (\<lambda>r. er_sessionId r \<in> Some ` set sids \<longrightarrow> newer rows r < cap) rows"
proof (induction sids rule: rev_induct)
  case (snoc sid sids)
  let ?P = "\<lambda>r. er_sessionId r \<in> Some ` set sids \<longrightarrow> newer rows r < cap"
  have "sid \<notin> set sids" using snoc.prems by simp
  then have same: "newer (filter ?P rows) r = newer rows r" if "er_sessionId r = Some sid" for r
    using that by (intro newer_unaffected) auto
  have "foldl (\<lambda>rs sid. cap_session cap sid rs) rows (sids @ [sid]) = cap_session cap sid (filter ?P rows)"
    using snoc by simp
  also have "\<dots> = filter (\<lambda>r. er_sessionId r = Some sid \<longrightarrow> newer (filter ?P rows) r < cap) (filter ?P rows)"
    by (intro cap_one_session ordered_filter assms)
  also have "\<dots> = filter (\<lambda>r. er_sessionId r \<in> Some ` set (sids @ [sid]) \<longrightarrow> newer rows r < cap) rows"
    using same by (auto simp: filter_filter intro!: filter_cong)
  finally show ?case .
qed simp

lemma session_ids_member: "sid \<in> set (session_ids rows) \<longleftrightarrow> (\<exists>r\<in>set rows. er_sessionId r = Some sid)"
  by (induction rows) (auto simp: session_ids_def List.map_filter_simps split: option.splits)

text \<open>
  The cap keeps exactly the newest events of every session. For a table whose ids grow, the sweep keeps
  a row when it belongs to no session or when fewer than the cap of its session's rows are newer, and
  deletes every other; a setting that is not a positive whole amount, \<open>NaN\<close> included, deletes
  nothing, and the number it returns is the number of rows gone.
\<close>

theorem cap_keeps_the_newest:
  assumes "ordered_ids (et_rows t)"
  shows "et_rows (snd (sweepSessionEventCap n t))
      = (if retention_cap n = 0 then et_rows t else filter (keeps (retention_cap n) (et_rows t)) (et_rows t))
    \<and> fst (sweepSessionEventCap n t) = int (length (et_rows t)) - int (length (et_rows (snd (sweepSessionEventCap n t))))"
proof (cases "retention_cap n = 0")
  case False
  let ?rows = "et_rows t"
  have ids: "er_sessionId r \<in> Some ` set (session_ids ?rows) \<longleftrightarrow> er_sessionId r \<noteq> None" if "r \<in> set ?rows" for r
    using that session_ids_member [of _ ?rows] by (cases "er_sessionId r") auto
  have "foldl (\<lambda>rs sid. cap_session (retention_cap n) sid rs) ?rows (session_ids ?rows)
      = filter (\<lambda>r. er_sessionId r \<in> Some ` set (session_ids ?rows) \<longrightarrow> newer ?rows r < retention_cap n) ?rows"
    using False by (intro cap_sessions assms) (simp_all add: session_ids_def)
  also have "\<dots> = filter (keeps (retention_cap n) ?rows) ?rows"
    by (intro filter_cong) (auto simp: ids keeps_def)
  finally show ?thesis using False by (simp add: sweepSessionEventCap_def Let_def)
qed (simp add: sweepSessionEventCap_def)

definition demo_table :: event_table where
  "demo_table = \<lparr>et_rows = [demo_event_row 1, demo_event_row 2, demo_event_row 3], et_next = 4\<rparr>"

theorem cap_keeps_the_newest_witness:
  "et_rows (snd (sweepSessionEventCap (Finite (3/2)) demo_table)) = [demo_event_row 2, demo_event_row 3]"
proof -
  have "ordered_ids (et_rows demo_table)" by (simp add: ordered_ids_def demo_table_def demo_event_row_def)
  from cap_keeps_the_newest [OF this, of "Finite (3/2)"] show ?thesis
    by (simp add: retention_cap_def keeps_def newer_def demo_table_def demo_event_row_def)
qed

subsection \<open>What a flush persists\<close>

lemma insert_event_rows:
  "r \<in> set (et_rows (insert_event stringify t e)) \<Longrightarrow> r \<in> set (et_rows t) \<or> same_event e r"
  by (auto simp: insert_event_def same_event_def split: if_splits)

lemma insert_event_present: "list_ex (same_event e) (et_rows (insert_event stringify t e))"
  by (simp add: insert_event_def same_event_def)

lemma insert_event_monotone: "list_ex P (et_rows t) \<Longrightarrow> list_ex P (et_rows (insert_event stringify t e))"
  by (simp add: insert_event_def)

lemma insert_events_rows:
  "r \<in> set (et_rows (foldl (insert_event stringify) t es)) \<Longrightarrow> r \<in> set (et_rows t) \<or> (\<exists>e \<in> set es. same_event e r)"
  by (induction es arbitrary: t) (auto dest: insert_event_rows)

lemma insert_events_monotone: "list_ex P (et_rows t) \<Longrightarrow> list_ex P (et_rows (foldl (insert_event stringify) t es))"
  by (induction es arbitrary: t) (auto simp: insert_event_monotone)

lemma insert_events_present:
  "e \<in> set es \<Longrightarrow> list_ex (same_event e) (et_rows (foldl (insert_event stringify) t es))"
  by (induction es arbitrary: t) (auto simp: insert_event_present insert_events_monotone)

text \<open>The statement as a whole: which rows it may add, what it keeps, and what it has written when it returns.\<close>

lemma insert_rows:
  assumes "insertSessionEvents stringify down sessions es t = Some t'" and "r \<in> set (et_rows t')" and "r \<notin> set (et_rows t)"
  shows "\<exists>e \<in> set es. same_event e r \<and> ne_sessionId e \<in> sr_id ` set sessions"
  using assms by (auto simp: insertSessionEvents_def list_all_iff split: if_splits dest!: insert_events_rows)

lemma insert_keeps:
  assumes "insertSessionEvents stringify down sessions es t = Some t'" and "list_ex P (et_rows t)"
  shows "list_ex P (et_rows t')"
  using assms by (auto simp: insertSessionEvents_def insert_events_monotone split: if_splits)

lemma insert_writes:
  assumes "insertSessionEvents stringify down sessions es t = Some t'" and "e \<in> set es"
  shows "list_ex (same_event e) (et_rows t')"
  using assms by (auto simp: insertSessionEvents_def insert_events_present split: if_splits)

lemma retry_rows:
  "r \<in> set (et_rows (foldl (retry_row stringify env sessions) t es)) \<Longrightarrow> r \<notin> set (et_rows t)
    \<Longrightarrow> \<exists>e \<in> set es. same_event e r \<and> ne_sessionId e \<in> sr_id ` set sessions"
proof (induction es arbitrary: t)
  case (Cons e es)
  show ?case
  proof (cases "r \<in> set (et_rows (retry_row stringify env sessions t e))")
    case True
    then show ?thesis using Cons.prems(2) insert_rows [of stringify _ sessions "[e]" t]
      by (fastforce simp: retry_row_def split: option.splits)
  next
    case False
    then show ?thesis using Cons.IH [of "retry_row stringify env sessions t e"] Cons.prems by auto
  qed
qed simp

lemma retry_keeps: "list_ex P (et_rows t) \<Longrightarrow> list_ex P (et_rows (foldl (retry_row stringify env sessions) t es))"
  by (induction es arbitrary: t) (auto simp: retry_row_def dest: insert_keeps split: option.splits)

lemma retry_writes:
  assumes "ne_sessionId e \<in> sr_id ` set sessions" and "\<not> fe_rowFails env e"
  shows "e \<in> set es \<Longrightarrow> list_ex (same_event e) (et_rows (foldl (retry_row stringify env sessions) t es))"
proof (induction es arbitrary: t)
  case (Cons a es)
  have "list_ex (same_event e) (et_rows (retry_row stringify env sessions t e))"
    using assms by (simp add: retry_row_def insertSessionEvents_def insert_event_present)
  then show ?case using Cons retry_keeps by fastforce
qed simp

lemma persist_rows:
  assumes "r \<in> set (et_rows (persist_batch stringify env sessions es t))" and "r \<notin> set (et_rows t)"
  shows "\<exists>e \<in> set es. same_event e r \<and> ne_sessionId e \<in> sr_id ` set sessions"
  using assms retry_rows [of r stringify env sessions t es] insert_rows [of stringify "fe_batchFails env" sessions es t]
  by (auto simp: persist_batch_def split: option.splits)

lemma persist_writes:
  assumes "ne_sessionId e \<in> sr_id ` set sessions" and "\<not> fe_rowFails env e" and "e \<in> set es"
  shows "list_ex (same_event e) (et_rows (persist_batch stringify env sessions es t))"
  using retry_writes [OF assms] insert_writes [OF _ assms(3)] by (auto simp: persist_batch_def split: option.splits)

text \<open>The reporting host is this process, or the one the session's row resolves to.\<close>

lemma ownership_filter:
  assumes "keyed pj_id projects" and "keyed sr_id sessions"
  shows "filterHostOwnership projects sessions batch
    = map fst (filter (\<lambda>(e, h). h = None \<or> h = owner_of projects sessions (ne_sessionId e)) batch)"
proof -
  have get: "jm_get (ownerBySessionId projects sessions (remote_ids batch)) (ne_sessionId e) = owner_of projects sessions (ne_sessionId e)"
    if "(e, Some h) \<in> set batch" for e h
    using that by (force simp: ownerBySessionId_def owners_loop_get [OF assms] remote_ids_def)
  have "owned (ownerBySessionId projects sessions (remote_ids batch)) p
      = (case p of (e, h) \<Rightarrow> h = None \<or> h = owner_of projects sessions (ne_sessionId e))" if mem: "p \<in> set batch" for p
  proof (cases p)
    case (Pair e h)
    show ?thesis
    proof (cases h)
      case (Some host)
      have "jm_get (ownerBySessionId projects sessions (remote_ids batch)) (ne_sessionId e) = owner_of projects sessions (ne_sessionId e)"
        using mem unfolding Pair Some by (rule get)
      then show ?thesis unfolding Pair Some owned_def by auto
    qed (simp add: Pair owned_def)
  qed
  then have "filter (owned (ownerBySessionId projects sessions (remote_ids batch))) batch
      = filter (\<lambda>(e, h). h = None \<or> h = owner_of projects sessions (ne_sessionId e)) batch"
    by (intro filter_cong) auto
  moreover have "filter (\<lambda>(e, h). h = None \<or> h = owner_of projects sessions (ne_sessionId e)) batch = batch" if "remote_ids batch = []"
    using that by (auto simp: remote_ids_def filter_id_conv filter_empty_conv js_unique_def)
  ultimately show ?thesis by (simp add: filterHostOwnership_def Let_def)
qed


lemma flush_table:
  "snd (flushEvents stringify env projects sessions (w, t)) =
    (if ew_buffer w = [] \<or> fe_persistence env \<noteq> Some True then t
     else persist_batch stringify env sessions (verified_events env projects sessions (ew_buffer w)) t)"
  by (simp add: flushEvents_def Let_def)

text \<open>
  C33: A host can only add to the history of its own sessions. Every row a flush adds stems from an
  event of the buffer whose session exists, and which this process saw itself or the very host
  reported on which that session lives; and nothing is added unless the setting was read and is on, whatever the
  queries and inserts do (throw included).
\<close>

theorem flush_persists_only_owned:
  assumes "keyed pj_id projects" and "keyed sr_id sessions"
    and "r \<in> set (et_rows (snd (flushEvents stringify env projects sessions (w, t))))" and "r \<notin> set (et_rows t)"
  shows "fe_persistence env = Some True \<and> (\<exists>(e, h) \<in> set (ew_buffer w). same_event e r
      \<and> ne_sessionId e \<in> sr_id ` set sessions \<and> (h = None \<or> h = owner_of projects sessions (ne_sessionId e)))"
proof -
  have on: "fe_persistence env = Some True"
    and new: "r \<in> set (et_rows (persist_batch stringify env sessions (verified_events env projects sessions (ew_buffer w)) t))"
    using assms(3,4) by (auto simp: flush_table split: if_splits)
  from persist_rows [OF new assms(4)] obtain e
    where e: "e \<in> set (verified_events env projects sessions (ew_buffer w))" "same_event e r" "ne_sessionId e \<in> sr_id ` set sessions"
    by blast
  from e(1) obtain h where "(e, h) \<in> set (ew_buffer w)" "h = None \<or> h = owner_of projects sessions (ne_sessionId e)"
    unfolding verified_events_def ownership_filter [OF assms(1,2)] by (auto split: if_splits)
  then show ?thesis using on e by blast
qed

text \<open>
  C34: A failing batch costs only the rows that cannot be written. With persistence on, an event whose
  session exists and which may be written alone is in the table after the flush, even when
  the insert of the whole batch throws because of another row, and, for an event this process saw itself,
  even when the ownership query throws.
\<close>

theorem failed_batch_spares_good_rows:
  assumes "keyed pj_id projects" and "keyed sr_id sessions" and "fe_persistence env = Some True"
    and "(e, h) \<in> set (ew_buffer w)" and "h = None \<or> (\<not> fe_ownershipThrows env \<and> h = owner_of projects sessions (ne_sessionId e))"
    and "ne_sessionId e \<in> sr_id ` set sessions" and "\<not> fe_rowFails env e"
  shows "list_ex (same_event e) (et_rows (snd (flushEvents stringify env projects sessions (w, t))))"
proof -
  have "e \<in> set (verified_events env projects sessions (ew_buffer w))"
    using assms(4,5) unfolding verified_events_def ownership_filter [OF assms(1,2)] by force
  moreover have "ew_buffer w \<noteq> []" using assms(4) by auto
  ultimately show ?thesis using assms(3) persist_writes [OF assms(6,7)] by (simp add: flush_table)
qed

definition demo_note :: "int \<Rightarrow> notification" where
  "demo_note s = \<lparr>ne_sessionId = s, ne_seq = 1, ne_kind = ''bell'', ne_ts = 5, ne_payload = None\<rparr>"

text \<open>Session 7 lives on \<open>mac\<close>, session 8 on \<open>pi\<close>; session 4 is gone, so the insert of the batch throws.\<close>

definition demo_writer :: event_writer where
  "demo_writer = \<lparr>ew_buffer = [(demo_note 7, Some ''mac''), (demo_note 8, Some ''mac''), (demo_note 4, None)],
     ew_debounce = Some 0, ew_ceiling = Some 0\<rparr>"

definition demo_flush_env :: flush_env where
  "demo_flush_env = \<lparr>fe_persistence = Some True, fe_ownershipThrows = False, fe_batchFails = False, fe_rowFails = (\<lambda>_. False)\<rparr>"

lemma demo_keyed: "keyed pj_id demo_projects" "keyed sr_id demo_sessions"
  by (simp_all add: keyed_def demo_projects_def demo_sessions_def)

theorem flush_persists_only_owned_witness:
  "\<not> list_ex (same_event (demo_note 8))
     (et_rows (snd (flushEvents (\<lambda>_. []) demo_flush_env demo_projects demo_sessions (demo_writer, \<lparr>et_rows = [], et_next = 1\<rparr>))))"
  using flush_persists_only_owned [OF demo_keyed, of _ "\<lambda>_. []" demo_flush_env demo_writer "\<lparr>et_rows = [], et_next = 1\<rparr>"]
  by (fastforce simp: list_ex_iff demo_writer_def demo_note_def same_event_def owner_of_def demo_sessions_def
      resolveSessionHostId_def demo_projects_def)

theorem failed_batch_spares_good_rows_witness:
  "list_ex (same_event (demo_note 7))
     (et_rows (snd (flushEvents (\<lambda>_. []) demo_flush_env demo_projects demo_sessions (demo_writer, \<lparr>et_rows = [], et_next = 1\<rparr>))))"
  by (rule failed_batch_spares_good_rows [OF demo_keyed, where h = "Some ''mac''"])
    (simp_all add: demo_flush_env_def demo_writer_def demo_note_def owner_of_def demo_sessions_def
      resolveSessionHostId_def resolveProjectHostId_def demo_projects_def)

end
