(* ===== verification/ReviewFindings.thy ===== *)
theory ReviewFindings
  imports Wire
begin

section \<open>What a reviewing agent wrote\<close>

text \<open>
  The findings file of a review (\<open>src/services/task-prompt.ts\<close>, from \<open>ReviewFinding\<close> to
  \<open>renderReviewFindingsMarkdown\<close>), the issue's review focus (\<open>src/services/task-review-focus.ts\<close>) and the
  reading back of a rendered round (\<open>openRefsOfRenderedRound\<close> of \<open>src/services/task-reconciler.ts\<close>). The file is
  written by a language model, so every field may be missing or of the wrong kind. Texts are lists of UTF-16
  code units; regular expressions are written out as the matches they find. \<open>JSON.parse\<close>, \<open>Number\<close> of a
  string and the printing of a number are the fields of \<open>js_env\<close>.
\<close>

record js_env =
  je_parse :: "jsstring \<Rightarrow> wire option"
  je_number :: "jsstring \<Rightarrow> js_number"
  je_show :: "nat \<Rightarrow> jsstring"

definition em_dash :: jsstring where "em_dash = [8212]"
definition ellipsis :: jsstring where "ellipsis = [8230]"

subsection \<open>The parsed review\<close>

datatype finding_side = SideLeft | SideRight
datatype finding_severity = SevCritical | SevWarning | SevSuggestion

record review_finding =
  rf_path :: jsstring
  rf_line :: nat
  rf_side :: finding_side
  rf_severity :: "finding_severity option"
  rf_body :: jsstring

datatype review_verdict = VApproved | VSuggestions | VChanges

fun verdict_word :: "review_verdict \<Rightarrow> string" where
  "verdict_word VApproved = ''approved''"
| "verdict_word VSuggestions = ''approved-with-suggestions''"
| "verdict_word VChanges = ''changes-requested''"

definition isApprovingVerdict :: "string option \<Rightarrow> bool" where
  "isApprovingVerdict v \<longleftrightarrow> v = Some ''approved'' \<or> v = Some ''approved-with-suggestions'' \<or> v = Some ''clean''"

datatype disposition_status = DsAddressed | DsStillOpen | DsReBroken

record review_disposition =
  rd_ref :: jsstring
  rd_status :: disposition_status
  rd_evidence :: jsstring

datatype scope_status = ScMet | ScPartial | ScMissing | ScDeviated

record scope_check =
  sc_item :: jsstring
  sc_status :: scope_status
  sc_evidence :: jsstring

datatype focus_status = FcClear | FcFinding | FcNotChecked

record focus_check =
  fc_item :: jsstring
  fc_status :: focus_status
  fc_evidence :: jsstring

record parsed_review =
  pv_verdict :: review_verdict
  pv_summary :: jsstring
  pv_findings :: "review_finding list"
  pv_verified :: "jsstring list"
  pv_notes :: "jsstring list"
  pv_looksGood :: "jsstring list"
  pv_previous :: "review_disposition list"
  pv_scope :: "scope_check list"
  pv_focus :: "focus_check list"
  pv_structured :: bool

subsection \<open>Normalizing the parts\<close>

fun normalizeSeverity :: "jsstring option \<Rightarrow> finding_severity option" where
  "normalizeSeverity None = None"
| "normalizeSeverity (Some s) =
     (if s \<in> {lit ''critical'', lit ''blocker'', lit ''major''} then Some SevCritical
      else if s \<in> {lit ''warning'', lit ''minor''} then Some SevWarning
      else if s \<in> {lit ''suggestion'', lit ''nit''} then Some SevSuggestion else None)"

text \<open>A line is a positive integer, given as a number or as a string that converts to one.\<close>

definition finding_line :: "js_env \<Rightarrow> wire option \<Rightarrow> nat option" where
  "finding_line env w =
     (let n = (case w of Some (WStr s) \<Rightarrow> Some (je_number env s) | Some (WNum x) \<Rightarrow> Some x | _ \<Rightarrow> None)
      in case n of
        Some (Finite q) \<Rightarrow> (case quotient_of q of (i, d) \<Rightarrow> if d = 1 \<and> i > 0 then Some (nat i) else None)
      | _ \<Rightarrow> None)"

definition normalizeReviewFinding :: "js_env \<Rightarrow> wire \<Rightarrow> review_finding option" where
  "normalizeReviewFinding env f =
     (case (wire_text f ''path'', wire_text f ''body'', finding_line env (wire_field f ''line'')) of
        (Some path, Some body, Some line) \<Rightarrow> Some \<lparr>rf_path = path, rf_line = line,
          rf_side = (if wire_string (wire_field f ''side'') = Some (lit ''LEFT'') then SideLeft else SideRight),
          rf_severity = normalizeSeverity (wire_string (wire_field f ''severity'')), rf_body = body\<rparr>
      | _ \<Rightarrow> None)"

definition evidence_of :: "wire \<Rightarrow> jsstring" where
  "evidence_of w = (case wire_string (wire_field w ''evidence'') of Some s \<Rightarrow> s | None \<Rightarrow> [])"

definition disposition_of :: "jsstring option \<Rightarrow> disposition_status option" where
  "disposition_of s = (if s = Some (lit ''addressed'') then Some DsAddressed
     else if s = Some (lit ''still-open'') then Some DsStillOpen
     else if s = Some (lit ''re-broken'') then Some DsReBroken else None)"

definition normalizeDisposition :: "wire \<Rightarrow> review_disposition option" where
  "normalizeDisposition d = (case (wire_text d ''ref'', disposition_of (wire_string (wire_field d ''status''))) of
       (Some r, Some status) \<Rightarrow> Some \<lparr>rd_ref = r, rd_status = status, rd_evidence = evidence_of d\<rparr>
     | _ \<Rightarrow> None)"

definition normalizeDispositions :: "wire option \<Rightarrow> review_disposition list" where
  "normalizeDispositions raw = List.map_filter normalizeDisposition (wire_array raw)"

text \<open>\<open>DECLARED_DECISION_RE\<close>: one of the four words with its colon, in any case, at the start or after an opening character.\<close>

definition decision_word :: "jsstring \<Rightarrow> bool" where
  "decision_word s \<longleftrightarrow> list_ex (\<lambda>w. map lower_unit (take (length w) s) = w)
     [lit ''decision:'', lit ''skipped:'', lit ''deferred:'', lit ''not run locally:'']"

definition opens_word :: "nat \<Rightarrow> bool" where
  "opens_word c \<longleftrightarrow> js_space c \<or> c = 34 \<or> c = 39 \<or> c = 96 \<or> c = 40"

fun cites_decision :: "bool \<Rightarrow> jsstring \<Rightarrow> bool" where
  "cites_decision opened [] = False"
| "cites_decision opened (c # s) = ((opened \<and> decision_word (c # s)) \<or> cites_decision (opens_word c) s)"

definition scope_of :: "jsstring option \<Rightarrow> scope_status option" where
  "scope_of s = (if s = Some (lit ''met'') then Some ScMet else if s = Some (lit ''partial'') then Some ScPartial
     else if s = Some (lit ''missing'') then Some ScMissing else if s = Some (lit ''deviated'') then Some ScDeviated else None)"

definition normalizeScopeCheck :: "wire \<Rightarrow> scope_check option" where
  "normalizeScopeCheck c = (case (wire_text c ''item'', scope_of (wire_string (wire_field c ''status''))) of
       (Some item, Some status) \<Rightarrow>
         (let evidence = evidence_of c in
          if status = ScDeviated \<and> \<not> cites_decision True evidence
          then Some \<lparr>sc_item = item, sc_status = ScMissing,
            sc_evidence = lit ''Reported as deviated without citing a declared decision.''
              @ (if evidence = [] then [] else lit '' '' @ evidence)\<rparr>
          else Some \<lparr>sc_item = item, sc_status = status, sc_evidence = evidence\<rparr>)
     | _ \<Rightarrow> None)"

definition normalizeScope :: "wire option \<Rightarrow> scope_check list" where
  "normalizeScope raw = List.map_filter normalizeScopeCheck (wire_array raw)"

definition focus_of :: "jsstring option \<Rightarrow> focus_status option" where
  "focus_of s = (if s = Some (lit ''clear'') then Some FcClear else if s = Some (lit ''finding'') then Some FcFinding
     else if s = Some (lit ''not-checked'') then Some FcNotChecked else None)"

definition normalizeFocusCheck :: "wire \<Rightarrow> focus_check option" where
  "normalizeFocusCheck c = (case (wire_text c ''item'', focus_of (wire_string (wire_field c ''status''))) of
       (Some item, Some status) \<Rightarrow> Some \<lparr>fc_item = item, fc_status = status, fc_evidence = evidence_of c\<rparr>
     | _ \<Rightarrow> None)"

definition normalizeFocus :: "wire option \<Rightarrow> focus_check list" where
  "normalizeFocus raw = List.map_filter normalizeFocusCheck (wire_array raw)"

definition normalizeStringArray :: "wire option \<Rightarrow> jsstring list" where
  "normalizeStringArray raw = List.map_filter (\<lambda>w. case w of WStr s \<Rightarrow> if s = [] then None else Some s | _ \<Rightarrow> None) (wire_array raw)"

definition FOCUS_NOTE_PREFIX :: jsstring where "FOCUS_NOTE_PREFIX = lit ''**Review focus NOT CHECKED:**''"

definition with_evidence :: "jsstring \<Rightarrow> jsstring \<Rightarrow> jsstring" where
  "with_evidence sep e = (if e = [] then [] else sep @ e)"

definition focusNotes :: "focus_check list \<Rightarrow> nat \<Rightarrow> jsstring list" where
  "focusNotes focus findingCount =
     map (\<lambda>c. FOCUS_NOTE_PREFIX @ lit '' '' @ fc_item c @ with_evidence (lit '' '' @ em_dash @ lit '' '') (fc_evidence c))
       (filter (\<lambda>c. fc_status c = FcNotChecked) focus)
     @ (if findingCount = 0 \<and> list_ex (\<lambda>c. fc_status c = FcFinding) focus
        then [lit ''A review focus item is reported as `finding`, but no finding was filed for it '' @ em_dash
          @ lit '' the focus entry is not acted on without one.''] else [])"

subsection \<open>The verdict\<close>

definition scope_blocks :: "scope_check \<Rightarrow> bool" where
  "scope_blocks c \<longleftrightarrow> sc_status c = ScMissing \<or> sc_status c = ScPartial
     \<or> sc_status c = ScDeviated \<and> \<not> cites_decision True (sc_evidence c)"

definition deriveVerdict :: "review_finding list \<Rightarrow> review_disposition list \<Rightarrow> scope_check list \<Rightarrow> review_verdict \<Rightarrow> review_verdict" where
  "deriveVerdict findings previous scope claimed =
     (if list_ex (\<lambda>d. rd_status d \<noteq> DsAddressed) previous then VChanges
      else if list_ex scope_blocks scope then VChanges
      else if findings = [] then (if claimed = VChanges then VChanges else VApproved)
      else if list_ex (\<lambda>f. rf_severity f \<noteq> Some SevSuggestion) findings then VChanges else VSuggestions)"

text \<open>\<open>CLAIMED_VERDICTS\<close>, with \<open>clean\<close> read as approved.\<close>

definition claimed_verdict :: "wire option \<Rightarrow> review_verdict option" where
  "claimed_verdict w = (case wire_string w of
       Some s \<Rightarrow> if s = lit ''clean'' \<or> s = lit ''approved'' then Some VApproved
         else if s = lit ''approved-with-suggestions'' then Some VSuggestions
         else if s = lit ''changes-requested'' then Some VChanges else None
     | None \<Rightarrow> None)"

definition freeform_review :: "jsstring \<Rightarrow> parsed_review" where
  "freeform_review trimmed = \<lparr>pv_verdict = VChanges, pv_summary = trimmed, pv_findings = [], pv_verified = [], pv_notes = [],
     pv_looksGood = [], pv_previous = [], pv_scope = [], pv_focus = [], pv_structured = False\<rparr>"

definition structured_review :: "js_env \<Rightarrow> bool \<Rightarrow> wire \<Rightarrow> review_verdict \<Rightarrow> jsstring \<Rightarrow> parsed_review" where
  "structured_review env ignorePrevious obj claimed summary =
     (let findings = List.map_filter (normalizeReviewFinding env) (wire_array (wire_field obj ''findings''));
          previous = (if ignorePrevious then [] else normalizeDispositions (wire_field obj ''previous''));
          scope = normalizeScope (wire_field obj ''scope'');
          verdict = deriveVerdict findings previous scope claimed;
          focus = normalizeFocus (wire_field obj ''focus'');
          notes = focusNotes focus (length findings) @ normalizeStringArray (wire_field obj ''notes'')
      in \<lparr>pv_verdict = verdict, pv_summary = summary, pv_findings = findings,
          pv_verified = normalizeStringArray (wire_field obj ''verified''),
          pv_notes = (if verdict \<noteq> claimed
            then notes @ [lit ''Reviewer wrote \"'' @ lit (verdict_word claimed) @ lit ''\"; its findings make this \"''
              @ lit (verdict_word verdict) @ lit ''\".''] else notes),
          pv_looksGood = normalizeStringArray (wire_field obj ''looksGood''),
          pv_previous = previous, pv_scope = scope, pv_focus = focus, pv_structured = True\<rparr>)"

definition parseReviewFindings :: "js_env \<Rightarrow> bool \<Rightarrow> jsstring \<Rightarrow> parsed_review" where
  "parseReviewFindings env ignorePrevious raw =
     (let trimmed = js_trim raw in
      case je_parse env trimmed of
        None \<Rightarrow> freeform_review trimmed
      | Some obj \<Rightarrow> (case (claimed_verdict (wire_field obj ''verdict''), wire_string (wire_field obj ''summary'')) of
            (Some claimed, Some summary) \<Rightarrow> structured_review env ignorePrevious obj claimed summary
          | _ \<Rightarrow> freeform_review trimmed))"

subsection \<open>Rendering\<close>

text \<open>\<open>neutraliseDecisionLine\<close>: a zero-width space after an at sign that a name follows, then the five characters escaped.\<close>

definition name_unit :: "nat \<Rightarrow> bool" where
  "name_unit c \<longleftrightarrow> 97 \<le> c \<and> c \<le> 122 \<or> 65 \<le> c \<and> c \<le> 90 \<or> 48 \<le> c \<and> c \<le> 57 \<or> c = 95 \<or> c = 47 \<or> c = 45"

fun break_mentions :: "jsstring \<Rightarrow> jsstring" where
  "break_mentions [] = []"
| "break_mentions (c # s) = (if c = 64 \<and> s \<noteq> [] \<and> name_unit (hd s) then c # 8203 # break_mentions s else c # break_mentions s)"

definition neutraliseDecisionLine :: "jsstring \<Rightarrow> jsstring" where
  "neutraliseDecisionLine line = replace_unit 93 (lit [CHR 0x5C, CHR 0x5D]) (replace_unit 91 (lit [CHR 0x5C, CHR 0x5B])
     (replace_unit 62 (lit ''&gt;'') (replace_unit 60 (lit ''&lt;'') (replace_unit 38 (lit ''&amp;'') (break_mentions line)))))"

definition dashed :: jsstring where "dashed = lit '' '' @ em_dash @ lit '' ''"

fun severityPrefix :: "finding_severity option \<Rightarrow> jsstring" where
  "severityPrefix None = []"
| "severityPrefix (Some SevCritical) = lit ''[critical] ''"
| "severityPrefix (Some SevWarning) = lit ''[warning] ''"
| "severityPrefix (Some SevSuggestion) = lit ''[suggestion] ''"

datatype finding_section = SecCritical | SecWarnings | SecSuggestions

fun findingSection :: "finding_severity option \<Rightarrow> finding_section" where
  "findingSection (Some SevCritical) = SecCritical"
| "findingSection (Some SevSuggestion) = SecSuggestions"
| "findingSection _ = SecWarnings"

definition finding_bullet :: "js_env \<Rightarrow> review_finding \<Rightarrow> jsstring" where
  "finding_bullet env f = lit ''- '' @ severityPrefix (rf_severity f) @ lit ''**'' @ rf_path f @ lit '':'' @ je_show env (rf_line f)
     @ lit ''**'' @ dashed @ rf_body f"

datatype render_mode = RmComment | RmReviewBody | RmWorkerPrompt

definition renderFindingsSection :: "js_env \<Rightarrow> string \<Rightarrow> review_finding list \<Rightarrow> render_mode \<Rightarrow> jsstring list" where
  "renderFindingsSection env heading items mode =
     (if items = [] then [lit ''### '' @ lit heading, lit ''- None'', []]
      else [lit ''### '' @ lit heading]
        @ (if mode = RmReviewBody then [lit ''- '' @ je_show env (length items) @ lit '' finding(s) anchored inline below'']
           else map (finding_bullet env) items)
        @ [[]])"

fun scope_word :: "scope_status \<Rightarrow> string" where
  "scope_word ScMet = ''met''"
| "scope_word ScPartial = ''partial''"
| "scope_word ScMissing = ''missing''"
| "scope_word ScDeviated = ''deviated''"

fun focus_word :: "focus_status \<Rightarrow> string" where
  "focus_word FcClear = ''clear''"
| "focus_word FcFinding = ''finding''"
| "focus_word FcNotChecked = ''not-checked''"

fun disposition_word :: "disposition_status \<Rightarrow> string" where
  "disposition_word DsAddressed = ''addressed''"
| "disposition_word DsStillOpen = ''still-open''"
| "disposition_word DsReBroken = ''re-broken''"

text \<open>One line per checked item, with its status, as both the scope and the focus section have them.\<close>

definition check_line :: "string \<Rightarrow> jsstring \<Rightarrow> jsstring \<Rightarrow> jsstring" where
  "check_line status item evidence = lit ''- **'' @ lit status @ lit ''**'' @ dashed @ neutraliseDecisionLine item
     @ with_evidence (lit '': '') (if evidence = [] then [] else neutraliseDecisionLine evidence)"

definition renderScopeSection :: "scope_check list \<Rightarrow> jsstring list" where
  "renderScopeSection scope = (if scope = [] then []
     else [lit ''### Scope check''] @ map (\<lambda>c. check_line (scope_word (sc_status c)) (sc_item c) (sc_evidence c)) scope @ [[]])"

definition renderFocusSection :: "focus_check list \<Rightarrow> jsstring list" where
  "renderFocusSection focus = (if focus = [] then []
     else [lit ''### Review focus''] @ map (\<lambda>c. check_line (focus_word (fc_status c)) (fc_item c) (fc_evidence c)) focus @ [[]])"

definition renderTextSection :: "string \<Rightarrow> jsstring list \<Rightarrow> bool \<Rightarrow> jsstring list" where
  "renderTextSection heading items omitIfEmpty =
     (if items = [] then (if omitIfEmpty then [] else [lit ''### '' @ lit heading, lit ''- None'', []])
      else [lit ''### '' @ lit heading] @ map (\<lambda>s. lit ''- '' @ s) items @ [[]])"

definition MAX_STRUCTURED_SUMMARY_LENGTH :: nat where "MAX_STRUCTURED_SUMMARY_LENGTH = 300"

definition earlier_line :: "review_disposition \<Rightarrow> jsstring" where
  "earlier_line d = lit ''- **'' @ rd_ref d @ lit ''**'' @ dashed @ lit (disposition_word (rd_status d))
     @ with_evidence (lit '': '') (rd_evidence d)"

fun verdict_label :: "review_verdict \<Rightarrow> string" where
  "verdict_label VApproved = ''approved''"
| "verdict_label VSuggestions = ''approved with suggestions''"
| "verdict_label VChanges = ''changes requested''"

definition worker_lines :: "js_env \<Rightarrow> parsed_review \<Rightarrow> jsstring list" where
  "worker_lines env pv =
     [pv_summary pv, []]
     @ map (finding_bullet env) (pv_findings pv)
     @ map (\<lambda>d. lit ''- **'' @ rd_ref d @ lit ''** is still '' @ lit (if rd_status d = DsReBroken then ''broken'' else ''open'')
         @ with_evidence (lit '': '') (rd_evidence d)) (filter (\<lambda>d. rd_status d \<noteq> DsAddressed) (pv_previous pv))
     @ map (\<lambda>c. lit ''- Scope item '' @ lit (if sc_status c = ScPartial then ''only partly done'' else ''not done'') @ lit '': **''
         @ sc_item c @ lit ''**'' @ with_evidence dashed (sc_evidence c))
         (filter (\<lambda>c. sc_status c = ScMissing \<or> sc_status c = ScPartial) (pv_scope pv))
     @ map (\<lambda>n. lit ''- '' @ n) (pv_notes pv)"

definition has_other_structure :: "parsed_review \<Rightarrow> bool" where
  "has_other_structure pv \<longleftrightarrow> pv_findings pv \<noteq> [] \<or> pv_verified pv \<noteq> [] \<or> pv_notes pv \<noteq> [] \<or> pv_looksGood pv \<noteq> []
     \<or> pv_scope pv \<noteq> [] \<or> pv_focus pv \<noteq> [] \<or> pv_previous pv \<noteq> []"

definition earlier_lines :: "parsed_review \<Rightarrow> jsstring list" where
  "earlier_lines pv = (if pv_previous pv \<noteq> [] then [lit ''### Earlier findings''] @ map earlier_line (pv_previous pv) @ [[]] else [])"

definition section_lines :: "js_env \<Rightarrow> parsed_review \<Rightarrow> render_mode \<Rightarrow> jsstring list" where
  "section_lines env pv mode =
     (let part = (\<lambda>s. filter (\<lambda>f. findingSection (rf_severity f) = s) (pv_findings pv)) in
      renderFindingsSection env ''Critical'' (part SecCritical) mode
      @ renderFindingsSection env ''Warnings'' (part SecWarnings) mode
      @ renderFindingsSection env ''Suggestions'' (part SecSuggestions) mode
      @ renderTextSection ''Verified'' (pv_verified pv) True
      @ renderTextSection ''Notes'' (map (\<lambda>n. if begins_with FOCUS_NOTE_PREFIX n then neutraliseDecisionLine n else n) (pv_notes pv)) True
      @ renderScopeSection (pv_scope pv) @ renderFocusSection (pv_focus pv)
      @ renderTextSection ''Looks Good'' (pv_looksGood pv) False)"

definition verdict_line :: "parsed_review \<Rightarrow> jsstring" where
  "verdict_line pv = lit ''**Verdict:** '' @ lit (verdict_label (pv_verdict pv)) @ with_evidence dashed (pv_summary pv)"

definition renderReviewFindingsMarkdown :: "js_env \<Rightarrow> parsed_review \<Rightarrow> render_mode \<Rightarrow> jsstring" where
  "renderReviewFindingsMarkdown env pv mode =
     (if \<not> pv_structured pv then pv_summary pv
      else if mode = RmWorkerPrompt then js_trim_end (js_join [10] (worker_lines env pv))
      else if length (pv_summary pv) > MAX_STRUCTURED_SUMMARY_LENGTH \<and> \<not> has_other_structure pv then pv_summary pv
      else js_trim_end (js_join [10] ([verdict_line pv, []] @ earlier_lines pv @ section_lines env pv mode)))"

subsection \<open>Reading a rendered round back\<close>

text \<open>
  \<open>split(/\n\n(?=## Round )/)\<close>, and the match of \<open>^- \*\*(.+?)\*\* \<close>\<dots>\<open>(?:still-open|re-broken)\<close> in each line: the shortest
  non-empty text after which the line goes on with the closing stars and one of the two words.
\<close>

definition round_start :: jsstring where "round_start = lit ''## Round ''"

fun split_rounds :: "jsstring \<Rightarrow> jsstring list" where
  "split_rounds [] = [[]]"
| "split_rounds (c # s) = (if c = 10 \<and> s \<noteq> [] \<and> hd s = 10 \<and> begins_with round_start (tl s) then [] # split_rounds (tl s)
     else case split_rounds s of [] \<Rightarrow> [[c]] | b # bs \<Rightarrow> (c # b) # bs)"

fun re_lines :: "jsstring \<Rightarrow> jsstring list" where
  "re_lines [] = [[]]"
| "re_lines (c # s) = (if line_end c then [] # re_lines s
     else case re_lines s of [] \<Rightarrow> [[c]] | l # ls \<Rightarrow> (c # l) # ls)"

definition open_tail :: "jsstring \<Rightarrow> bool" where
  "open_tail s \<longleftrightarrow> begins_with (lit ''**'' @ dashed @ lit ''still-open'') s \<or> begins_with (lit ''**'' @ dashed @ lit ''re-broken'') s"

fun ref_before :: "jsstring \<Rightarrow> jsstring option" where
  "ref_before [] = None"
| "ref_before (c # s) = (if open_tail s then Some [c] else map_option (\<lambda>r. c # r) (ref_before s))"

definition open_ref :: "jsstring \<Rightarrow> jsstring option" where
  "open_ref line = (if begins_with (lit ''- **'') line then ref_before (drop 4 line) else None)"

definition openRefsOfRenderedRound :: "jsstring option \<Rightarrow> jsstring list" where
  "openRefsOfRenderedRound block = (case block of None \<Rightarrow> [] | Some b \<Rightarrow> List.map_filter open_ref (re_lines b))"

text \<open>The references the last round of a task's stored reviews left open.\<close>

definition previous_open_refs :: "jsstring option \<Rightarrow> jsstring list" where
  "previous_open_refs reviewFindings = openRefsOfRenderedRound (map_option (\<lambda>s. last (split_rounds s)) reviewFindings)"

subsection \<open>The issue's review focus\<close>

definition MAX_FOCUS_ITEMS :: nat where "MAX_FOCUS_ITEMS = 12"
definition MAX_FOCUS_ITEM_LENGTH :: nat where "MAX_FOCUS_ITEM_LENGTH = 300"

definition blank_unit :: "nat \<Rightarrow> bool" where "blank_unit c \<longleftrightarrow> c = 32 \<or> c = 9"

text \<open>The text after the first \<open>-->\<close>, and one pass that removes every closed comment.\<close>

fun after_comment :: "jsstring \<Rightarrow> jsstring option" where
  "after_comment [] = None"
| "after_comment (c # s) = (if begins_with (lit ''-->'') (c # s) then Some (drop 3 (c # s)) else after_comment s)"

lemma after_comment_length: "after_comment s = Some r \<Longrightarrow> length r < length s"
  by (induction s) (auto simp: less_Suc_eq split: if_splits)

function drop_comments :: "jsstring \<Rightarrow> jsstring" where
  "drop_comments [] = []"
| "drop_comments (c # s) = (if begins_with (lit ''<!--'') (c # s)
     then (case after_comment (drop 4 (c # s)) of Some r \<Rightarrow> drop_comments r | None \<Rightarrow> c # drop_comments s)
     else c # drop_comments s)"
  by pat_completeness auto
termination
  by (relation "measure length") (auto dest!: after_comment_length)

lemma drop_comments_length: "length (drop_comments s) \<le> length s"
proof (induction s rule: drop_comments.induct)
  case (2 c s)
  then show ?case by (fastforce dest: after_comment_length split: option.splits)
qed simp

lemma drop_comments_shorter: "drop_comments s \<noteq> s \<Longrightarrow> length (drop_comments s) < length s"
proof (induction s rule: drop_comments.induct)
  case (2 c s)
  show ?case
  proof (cases "begins_with (lit ''<!--'') (c # s)")
    case True
    show ?thesis
    proof (cases "after_comment (drop 4 (c # s))")
      case (Some r)
      then show ?thesis using True after_comment_length [OF Some] drop_comments_length [of r] by simp
    qed (use 2 True in auto)
  qed (use 2 in auto)
qed simp

fun before_open_comment :: "jsstring \<Rightarrow> jsstring" where
  "before_open_comment [] = []"
| "before_open_comment (c # s) = (if begins_with (lit ''<!--'') (c # s) then [] else c # before_open_comment s)"

function stripHtmlComments :: "jsstring \<Rightarrow> jsstring" where
  "stripHtmlComments text = (let cur = drop_comments text in
     if cur \<noteq> text then stripHtmlComments cur else before_open_comment cur)"
  by pat_completeness auto
termination
  by (relation "measure length") (auto intro: drop_comments_shorter)

declare stripHtmlComments.simps [simp del]

text \<open>\<open>split(/\r?\n/)\<close>: every line but the last loses one carriage return.\<close>

definition crlf_lines :: "jsstring \<Rightarrow> jsstring list" where
  "crlf_lines s = (let ls = js_split 10 s in
     map (\<lambda>l. if l \<noteq> [] \<and> last l = 13 then butlast l else l) (butlast ls) @ [last ls])"

definition focus_heading :: "jsstring \<Rightarrow> bool" where
  "focus_heading l \<longleftrightarrow> take 2 l = lit ''##''
     \<and> (let r = drop 2 l; w = dropWhile blank_unit r; t = drop 12 w in
        r \<noteq> w \<and> map lower_unit (take 12 w) = lit ''review focus''
        \<and> dropWhile blank_unit (dropWhile (\<lambda>c. c = 35) (dropWhile blank_unit t)) = [])"

definition next_heading :: "jsstring \<Rightarrow> bool" where
  "next_heading l \<longleftrightarrow> (case l of c # d # s \<Rightarrow> c = 35 \<and> (blank_unit d \<or> d = 35 \<and> s \<noteq> [] \<and> blank_unit (hd s)) | _ \<Rightarrow> False)"

definition unindented :: "jsstring \<Rightarrow> jsstring option" where
  "unindented l = (if length (takeWhile blank_unit l) \<le> 3 then Some (dropWhile blank_unit l) else None)"

definition fence :: "jsstring \<Rightarrow> bool" where
  "fence l \<longleftrightarrow> (case unindented l of Some r \<Rightarrow> take 3 r = [96, 96, 96] \<or> take 3 r = [126, 126, 126] | None \<Rightarrow> False)"

definition digit_char :: "nat \<Rightarrow> bool" where "digit_char c \<longleftrightarrow> 48 \<le> c \<and> c \<le> 57"

text \<open>What follows the marker of a bullet: \<open>-\<close>, \<open>*\<close>, \<open>+\<close>, or digits with a point or a parenthesis.\<close>

definition after_marker :: "jsstring \<Rightarrow> jsstring option" where
  "after_marker r = (case r of [] \<Rightarrow> None
     | c # s \<Rightarrow> if c = 45 \<or> c = 42 \<or> c = 43 then Some s
         else if digit_char c then (case dropWhile digit_char r of [] \<Rightarrow> None | d # t \<Rightarrow> if d = 46 \<or> d = 41 then Some t else None)
         else None)"

definition bullet_text :: "jsstring \<Rightarrow> jsstring option" where
  "bullet_text l = (case unindented l of None \<Rightarrow> None
     | Some r \<Rightarrow> (case after_marker r of None \<Rightarrow> None
        | Some t \<Rightarrow> let b = dropWhile blank_unit t in
            if b \<noteq> t \<and> \<not> list_ex line_end b then Some (js_trim b) else None))"

definition cut_item :: "jsstring \<Rightarrow> jsstring" where
  "cut_item t = (if length t > MAX_FOCUS_ITEM_LENGTH then take (MAX_FOCUS_ITEM_LENGTH - 1) t @ ellipsis else t)"

fun focus_loop :: "bool \<Rightarrow> bool \<Rightarrow> jsstring list \<Rightarrow> jsstring list \<Rightarrow> jsstring list" where
  "focus_loop inSection inFence [] out = out"
| "focus_loop inSection inFence (l # ls) out =
     (if fence l then focus_loop inSection (\<not> inFence) ls out
      else if inFence then focus_loop inSection inFence ls out
      else if \<not> inSection then focus_loop (focus_heading (js_trim l)) inFence ls out
      else if next_heading l then out
      else case bullet_text l of
          None \<Rightarrow> focus_loop inSection inFence ls out
        | Some t \<Rightarrow> if t = [] then focus_loop inSection inFence ls out
            else let out' = out @ [cut_item t] in
              if length out' \<ge> MAX_FOCUS_ITEMS then out' else focus_loop inSection inFence ls out')"

definition parseReviewFocus :: "jsstring option \<Rightarrow> jsstring list" where
  "parseReviewFocus body = (case body of None \<Rightarrow> [] | Some b \<Rightarrow> focus_loop False False (crlf_lines (stripHtmlComments b)) [])"

definition reviewFocusPromptLines :: "jsstring list \<Rightarrow> jsstring list" where
  "reviewFocusPromptLines items = (if items = [] then []
     else [lit ''The issue author asks you to specifically examine:''] @ map (\<lambda>i. lit ''- '' @ i) items
       @ [lit ''Report each one in `focus`. Do not skip an item because it looks unlikely:'',
          lit ''`not-checked` is the honest answer when you did not examine it.'', []])"

subsection \<open>The findings inside a reply\<close>

text \<open>
  \<open>extractFindingsJson\<close> of \<open>src/services/hermes-task-review.ts\<close>: the reply itself, else a fenced block, else the first
  balanced object, whichever parses as an object first.
\<close>

definition parsesAsObject :: "js_env \<Rightarrow> jsstring \<Rightarrow> bool" where
  "parsesAsObject env text = (case je_parse env text of Some (WObj _) \<Rightarrow> True | _ \<Rightarrow> False)"

definition FENCE :: jsstring where "FENCE = [96, 96, 96]"

text \<open>The rest of an opening fence's line, and the body up to the closing fence.\<close>

definition fence_line :: "jsstring \<Rightarrow> jsstring option" where
  "fence_line s = (let a = dropWhile blank_unit s;
       b = (if map lower_unit (take 4 a) = lit ''json'' then dropWhile blank_unit (drop 4 a) else a);
       c = (if take 1 b = [13] then drop 1 b else b)
     in if take 1 c = [10] then Some (drop 1 c) else None)"

fun until_fence :: "jsstring \<Rightarrow> (jsstring \<times> jsstring) option" where
  "until_fence [] = None"
| "until_fence (c # s) = (if begins_with FENCE (c # s) then Some ([], drop 3 (c # s))
     else map_option (\<lambda>(b, r). (c # b, r)) (until_fence s))"

definition fenced_block :: "jsstring \<Rightarrow> (jsstring \<times> jsstring) option" where
  "fenced_block s = (if begins_with FENCE s then (case fence_line (drop 3 s) of None \<Rightarrow> None | Some t \<Rightarrow> until_fence t) else None)"

lemma fence_line_length: "fence_line s = Some t \<Longrightarrow> length t \<le> length s"
proof -
  have "length (dropWhile blank_unit (drop 4 (dropWhile blank_unit s))) \<le> length s"
    using length_dropWhile_le [of blank_unit "drop 4 (dropWhile blank_unit s)"] length_dropWhile_le [of blank_unit s] by simp
  moreover have "length (dropWhile blank_unit s) \<le> length s" by (rule length_dropWhile_le)
  ultimately show "fence_line s = Some t \<Longrightarrow> length t \<le> length s"
    by (auto simp: fence_line_def Let_def split: if_splits)
qed

lemma until_fence_length: "until_fence s = Some (b, r) \<Longrightarrow> length r < length s"
  by (induction s arbitrary: b r) (auto simp: less_Suc_eq split: if_splits)

lemma fenced_block_length: "fenced_block (c # s) = Some (b, r) \<Longrightarrow> length r < Suc (length s)"
proof -
  assume "fenced_block (c # s) = Some (b, r)"
  then obtain t where t: "fence_line (drop 3 (c # s)) = Some t" "until_fence t = Some (b, r)"
    by (auto simp: fenced_block_def split: if_splits option.splits)
  then show ?thesis using fence_line_length [OF t(1)] until_fence_length [OF t(2)] by simp
qed

function fenced_blocks :: "jsstring \<Rightarrow> jsstring list" where
  "fenced_blocks [] = []"
| "fenced_blocks (c # s) = (case fenced_block (c # s) of Some (b, r) \<Rightarrow> b # fenced_blocks r | None \<Rightarrow> fenced_blocks s)"
  by pat_completeness auto
termination
  by (relation "measure length") (auto dest: fenced_block_length)

text \<open>The string literal whose quote has been read, with its end; and a balanced object.\<close>

fun string_rest :: "jsstring \<Rightarrow> (jsstring \<times> jsstring) option" where
  "string_rest [] = None"
| "string_rest [c] = (if c = 34 then Some ([c], []) else None)"
| "string_rest (c # d # s) = (if c = 92 then map_option (\<lambda>(q, r). (c # d # q, r)) (string_rest s)
     else if c = 34 then Some ([c], d # s) else map_option (\<lambda>(q, r). (c # q, r)) (string_rest (d # s)))"

lemma string_rest_length: "string_rest s = Some (q, r) \<Longrightarrow> length r < length s"
  by (induction s arbitrary: q r rule: string_rest.induct) (fastforce split: if_splits)+

function balanced_object :: "nat \<Rightarrow> jsstring \<Rightarrow> jsstring option" where
  "balanced_object depth [] = None"
| "balanced_object depth (c # s) =
     (if c = 34 then (case string_rest s of None \<Rightarrow> None | Some (q, r) \<Rightarrow> map_option (\<lambda>o'. c # q @ o') (balanced_object depth r))
      else if c = 123 then map_option ((#) c) (balanced_object (depth + 1) s)
      else if c = 125 then (if depth - 1 = 0 then Some [c] else map_option ((#) c) (balanced_object (depth - 1) s))
      else map_option ((#) c) (balanced_object depth s))"
  by pat_completeness auto
termination
  by (relation "measure (\<lambda>(_, s). length s)") (auto dest: string_rest_length)

fun objects_in :: "jsstring \<Rightarrow> jsstring list" where
  "objects_in [] = []"
| "objects_in (c # s) = (if c = 123 then (case balanced_object 0 (c # s) of Some o' \<Rightarrow> o' # objects_in s | None \<Rightarrow> objects_in s)
     else objects_in s)"

definition extractFindingsJson :: "js_env \<Rightarrow> jsstring \<Rightarrow> jsstring option" where
  "extractFindingsJson env text =
     (let raw = js_trim text in
      if raw = [] then None
      else if parsesAsObject env raw then Some raw
      else case find (parsesAsObject env) (map js_trim (fenced_blocks raw)) of
          Some body \<Rightarrow> Some body
        | None \<Rightarrow> find (parsesAsObject env) (objects_in raw))"

lemma extracted_parses: "extractFindingsJson env text = Some json \<Longrightarrow> parsesAsObject env json"
  by (auto simp: extractFindingsJson_def Let_def find_Some_iff split: if_splits option.splits)

lemma balanced_is_prefix: "balanced_object depth s = Some o' \<Longrightarrow> \<exists>r. s = o' @ r"
proof (induction depth s arbitrary: o' rule: balanced_object.induct)
  case (2 depth c s)
  have str: "string_rest s = Some (q, r) \<Longrightarrow> s = q @ r" for q r s
    by (induction s arbitrary: q r rule: string_rest.induct) (auto split: if_splits)
  show ?case using 2 by (auto split: if_splits option.splits dest!: str)
qed simp

subsection \<open>No approval without grounds\<close>

lemma map_filter_mem: "y \<in> set (List.map_filter f xs) \<longleftrightarrow> (\<exists>x \<in> set xs. f x = Some y)"
  by (induction xs) (auto simp: List.map_filter_simps split: option.splits)

lemma derive_approves:
  assumes "deriveVerdict findings previous scope claimed \<noteq> VChanges"
  shows "(\<forall>d \<in> set previous. rd_status d = DsAddressed) \<and> (\<forall>c \<in> set scope. \<not> scope_blocks c)
    \<and> (\<forall>f \<in> set findings. rf_severity f = Some SevSuggestion)
    \<and> (if findings = [] then deriveVerdict findings previous scope claimed = VApproved \<and> claimed \<noteq> VChanges
       else deriveVerdict findings previous scope claimed = VSuggestions)"
  using assms by (auto simp: deriveVerdict_def list_ex_iff split: if_splits)

lemma parse_cases:
  obtains (freeform) "parseReviewFindings env ignorePrevious raw = freeform_review (js_trim raw)"
  | (structured) obj claimed summary where "je_parse env (js_trim raw) = Some obj"
      "claimed_verdict (wire_field obj ''verdict'') = Some claimed"
      "parseReviewFindings env ignorePrevious raw = structured_review env ignorePrevious obj claimed summary"
proof -
  have "parseReviewFindings env ignorePrevious raw = freeform_review (js_trim raw)
    \<or> (\<exists>obj claimed summary. je_parse env (js_trim raw) = Some obj \<and> claimed_verdict (wire_field obj ''verdict'') = Some claimed
        \<and> parseReviewFindings env ignorePrevious raw = structured_review env ignorePrevious obj claimed summary)"
    by (auto simp: parseReviewFindings_def Let_def split: option.splits)
  then show thesis using freeform structured by blast
qed

lemma structured_parts:
  "pv_verdict (structured_review env ig obj claimed summary)
    = deriveVerdict (pv_findings (structured_review env ig obj claimed summary)) (pv_previous (structured_review env ig obj claimed summary))
        (pv_scope (structured_review env ig obj claimed summary)) claimed"
  by (simp add: structured_review_def Let_def)

lemma scope_not_blocking: "\<not> scope_blocks c \<longleftrightarrow> sc_status c = ScMet \<or> (sc_status c = ScDeviated \<and> cites_decision True (sc_evidence c))"
  by (cases "sc_status c") (auto simp: scope_blocks_def)

text \<open>The entries of a findings file under which an approval can stand, as the file has them.\<close>

text \<open>A finding with a path, a body and a line that is a positive integer.\<close>

definition anchored :: "js_env \<Rightarrow> wire \<Rightarrow> bool" where
  "anchored env w \<longleftrightarrow> wire_text w ''path'' \<noteq> None \<and> wire_text w ''body'' \<noteq> None \<and> finding_line env (wire_field w ''line'') \<noteq> None"

definition optional_finding :: "wire \<Rightarrow> bool" where
  "optional_finding w \<longleftrightarrow> wire_string (wire_field w ''severity'') \<in> {Some (lit ''suggestion''), Some (lit ''nit'')}"

definition stays_open :: "wire \<Rightarrow> bool" where
  "stays_open w \<longleftrightarrow> wire_text w ''ref'' \<noteq> None \<and> wire_string (wire_field w ''status'') \<in> {Some (lit ''still-open''), Some (lit ''re-broken'')}"

definition leaves_scope :: "wire \<Rightarrow> bool" where
  "leaves_scope w \<longleftrightarrow> wire_text w ''item'' \<noteq> None \<and> (wire_string (wire_field w ''status'') \<in> {Some (lit ''partial''), Some (lit ''missing'')}
     \<or> wire_string (wire_field w ''status'') = Some (lit ''deviated'') \<and> \<not> cites_decision True (evidence_of w))"

lemma optional_findings:
  assumes "\<forall>f \<in> set (List.map_filter (normalizeReviewFinding env) ws). rf_severity f = Some SevSuggestion"
    and "w \<in> set ws" and "anchored env w"
  shows "optional_finding w"
proof -
  obtain f where f: "normalizeReviewFinding env w = Some f" "rf_severity f = normalizeSeverity (wire_string (wire_field w ''severity''))"
    using assms(3) by (auto simp: anchored_def normalizeReviewFinding_def)
  have "f \<in> set (List.map_filter (normalizeReviewFinding env) ws)" using f(1) assms(2) by (auto simp: map_filter_mem)
  with assms(1) f(2) have "normalizeSeverity (wire_string (wire_field w ''severity'')) = Some SevSuggestion" by simp
  then show ?thesis by (cases "wire_string (wire_field w ''severity'')") (auto simp: optional_finding_def split: if_splits)
qed

lemma no_open_disposition:
  assumes "\<forall>d \<in> set (normalizeDispositions raw). rd_status d = DsAddressed" and "w \<in> set (wire_array raw)"
  shows "\<not> stays_open w"
proof
  assume o: "stays_open w"
  then obtain d where "normalizeDisposition w = Some d" "rd_status d \<noteq> DsAddressed"
    by (auto simp: stays_open_def normalizeDisposition_def disposition_of_def lit_def)
  then show False using assms by (auto simp: normalizeDispositions_def map_filter_mem)
qed

lemma no_missing_scope:
  assumes "\<forall>c \<in> set (normalizeScope raw). \<not> scope_blocks c" and "w \<in> set (wire_array raw)"
  shows "\<not> leaves_scope w"
proof
  assume o: "leaves_scope w"
  then obtain c where "normalizeScopeCheck w = Some c" "scope_blocks c"
    by (auto simp: leaves_scope_def normalizeScopeCheck_def scope_of_def lit_def Let_def scope_blocks_def)
  then show False using assms by (auto simp: normalizeScope_def map_filter_mem)
qed

text \<open>
  C36: A review approves only on the grounds its file states. When parsing gives an approving verdict, the text was JSON
  with a known verdict word; every finding in it that has a path, a body and a positive line number carries the word
  suggestion or nit; unless earlier findings are ignored (after an approving round), none with a ref is marked still open
  or broken again; no scope item is marked partial or missing, or deviated without a declared decision cited; and when
  no finding is left after parsing, the verdict is the plain approval and the file did not ask for changes. Entries
  without these fields are dropped by the parser and do not block (\<open>finding_without_line_is_lost\<close>).
\<close>

theorem approval_is_earned:
  assumes "isApprovingVerdict (Some (verdict_word (pv_verdict pv)))" and "pv = parseReviewFindings env ignorePrevious raw"
  shows "pv_structured pv \<and> (\<exists>obj claimed. je_parse env (js_trim raw) = Some obj
    \<and> claimed_verdict (wire_field obj ''verdict'') = Some claimed
    \<and> list_all (\<lambda>w. anchored env w \<longrightarrow> optional_finding w) (wire_array (wire_field obj ''findings''))
    \<and> (ignorePrevious \<or> list_all (\<lambda>w. \<not> stays_open w) (wire_array (wire_field obj ''previous'')))
    \<and> list_all (\<lambda>w. \<not> leaves_scope w) (wire_array (wire_field obj ''scope''))
    \<and> (if pv_findings pv = [] then pv_verdict pv = VApproved \<and> claimed \<noteq> VChanges else pv_verdict pv = VSuggestions))"
proof -
  have v: "pv_verdict pv \<noteq> VChanges" using assms(1) by (auto simp: isApprovingVerdict_def)
  show ?thesis
  proof (cases rule: parse_cases [of env ignorePrevious raw])
    case freeform
    then show ?thesis using v assms(2) by (simp add: freeform_review_def)
  next
    case (structured obj claimed summary)
    note d = derive_approves [OF v [unfolded assms(2) structured(3) structured_parts]]
    have pv: "pv_findings pv = List.map_filter (normalizeReviewFinding env) (wire_array (wire_field obj ''findings''))"
      "pv_previous pv = (if ignorePrevious then [] else normalizeDispositions (wire_field obj ''previous''))"
      "pv_scope pv = normalizeScope (wire_field obj ''scope'')" "pv_structured pv"
      "pv_verdict pv = deriveVerdict (pv_findings pv) (pv_previous pv) (pv_scope pv) claimed"
      by (simp_all add: assms(2) structured(3) structured_review_def Let_def)
    have "list_all (\<lambda>w. anchored env w \<longrightarrow> optional_finding w) (wire_array (wire_field obj ''findings''))"
      using d optional_findings unfolding assms(2) [symmetric] structured(3) [symmetric] by (auto simp: list_all_iff pv)
    moreover have "ignorePrevious \<or> list_all (\<lambda>w. \<not> stays_open w) (wire_array (wire_field obj ''previous''))"
      using d no_open_disposition unfolding assms(2) [symmetric] structured(3) [symmetric] by (auto simp: list_all_iff pv)
    moreover have "list_all (\<lambda>w. \<not> leaves_scope w) (wire_array (wire_field obj ''scope''))"
      using d no_missing_scope unfolding assms(2) [symmetric] structured(3) [symmetric] by (auto simp: list_all_iff pv)
    moreover have "if pv_findings pv = [] then pv_verdict pv = VApproved \<and> claimed \<noteq> VChanges else pv_verdict pv = VSuggestions"
      using d unfolding assms(2) [symmetric] structured(3) [symmetric] pv(5) [symmetric] by simp
    ultimately show ?thesis using structured(1,2) pv(4) by blast
  qed
qed

subsection \<open>A rendered round reads back\<close>

text \<open>A text on one line, and the texts of a review.\<close>

definition one_line :: "jsstring \<Rightarrow> bool" where "one_line s \<longleftrightarrow> \<not> list_ex line_end s"

definition review_texts :: "js_env \<Rightarrow> parsed_review \<Rightarrow> jsstring list" where
  "review_texts env pv = [pv_summary pv]
     @ concat (map (\<lambda>f. [rf_path f, rf_body f, je_show env (rf_line f)]) (pv_findings pv))
     @ concat (map (\<lambda>d. [rd_ref d, rd_evidence d]) (pv_previous pv))
     @ concat (map (\<lambda>c. [sc_item c, sc_evidence c]) (pv_scope pv))
     @ concat (map (\<lambda>c. [fc_item c, fc_evidence c]) (pv_focus pv))
     @ pv_verified pv @ pv_notes pv @ pv_looksGood pv"

lemma one_line_simps [simp]:
  "one_line []" "one_line (c # s) \<longleftrightarrow> \<not> line_end c \<and> one_line s" "one_line (s @ t) \<longleftrightarrow> one_line s \<and> one_line t"
  by (auto simp: one_line_def)

lemma one_line_replace: "one_line r \<Longrightarrow> one_line s \<Longrightarrow> one_line (replace_unit c r s)"
  by (induction s) (auto simp: replace_unit_def)

lemma one_line_break: "one_line s \<Longrightarrow> one_line (break_mentions s)"
  by (induction s) (auto simp: line_end_def)

lemma one_line_neutral: "one_line s \<Longrightarrow> one_line (neutraliseDecisionLine s)"
  unfolding neutraliseDecisionLine_def
  by (intro one_line_replace one_line_break) (simp_all add: lit_def line_end_def)

lemma one_line_severity [simp]: "one_line (severityPrefix sev)"
  by (cases sev rule: severityPrefix.cases) (simp_all add: lit_def line_end_def)

lemma one_line_disposition [simp]: "one_line (lit (disposition_word ds))"
  by (cases ds) (simp_all add: lit_def line_end_def)

lemma one_line_scope [simp]: "one_line (lit (scope_word ss))"
  by (cases ss) (simp_all add: lit_def line_end_def)

lemma one_line_focus [simp]: "one_line (lit (focus_word fs))"
  by (cases fs) (simp_all add: lit_def line_end_def)

lemma one_line_label [simp]: "one_line (lit (verdict_label v))"
  by (cases v) (simp_all add: lit_def line_end_def)

lemma one_line_dashed [simp]: "one_line dashed"
  by (simp add: dashed_def em_dash_def lit_def line_end_def)

lemma one_line_evidence: "one_line sep \<Longrightarrow> one_line e \<Longrightarrow> one_line (with_evidence sep e)"
  by (simp add: with_evidence_def)

text \<open>The lines of a rendered comment are single lines, and none of them begins a round.\<close>

definition comment_lines :: "js_env \<Rightarrow> parsed_review \<Rightarrow> jsstring list" where
  "comment_lines env pv = [verdict_line pv, []] @ earlier_lines pv @ section_lines env pv RmComment"

definition calm_line :: "jsstring \<Rightarrow> bool" where
  "calm_line l \<longleftrightarrow> one_line l \<and> \<not> begins_with round_start l"

lemma calm_text: "one_line s \<Longrightarrow> calm_line (lit ''- '' @ s)" "one_line s \<Longrightarrow> calm_line (lit ''### '' @ s)" "calm_line []"
  by (simp_all add: calm_line_def round_start_def lit_def line_end_def)

lemma calm_star: "one_line s \<Longrightarrow> calm_line (lit ''- **'' @ s)"
  by (simp add: calm_line_def round_start_def lit_def line_end_def)

lemma calm_verdict: "one_line (pv_summary pv) \<Longrightarrow> calm_line (verdict_line pv)"
  by (simp add: verdict_line_def calm_line_def round_start_def one_line_evidence) (simp add: lit_def line_end_def)

lemma calm_headings [simp]:
  "calm_line (lit ''- None'')" "calm_line (lit ''### Earlier findings'')" "calm_line (lit ''### Scope check'')"
  "calm_line (lit ''### Review focus'')"
  by (simp_all add: calm_line_def round_start_def lit_def line_end_def)

lemma calm_earlier: "one_line (rd_ref d) \<Longrightarrow> one_line (rd_evidence d) \<Longrightarrow> calm_line (earlier_line d)"
  unfolding earlier_line_def by (intro calm_star) (simp add: one_line_evidence, simp add: lit_def line_end_def one_line_evidence)

lemma calm_check:
  "one_line (lit status) \<Longrightarrow> one_line item \<Longrightarrow> one_line evidence \<Longrightarrow> calm_line (check_line status item evidence)"
  unfolding check_line_def by (intro calm_star) (simp add: one_line_evidence one_line_neutral, simp add: lit_def line_end_def one_line_evidence one_line_neutral)

lemma calm_bullet:
  "one_line (rf_path f) \<Longrightarrow> one_line (rf_body f) \<Longrightarrow> one_line (je_show env (rf_line f)) \<Longrightarrow> calm_line (finding_bullet env f)"
  unfolding finding_bullet_def by (intro calm_text) (simp, simp add: lit_def line_end_def)

lemma calm_findings:
  assumes "list_all (\<lambda>f. one_line (rf_path f) \<and> one_line (rf_body f) \<and> one_line (je_show env (rf_line f))) fs" and "one_line (lit h)"
  shows "list_all calm_line (renderFindingsSection env h fs RmComment)"
  using assms by (auto simp: renderFindingsSection_def list_all_iff calm_bullet calm_text)

lemma calm_texts:
  assumes "list_all one_line ts" and "one_line (lit h)"
  shows "list_all calm_line (renderTextSection h ts omit)"
  using assms by (auto simp: renderTextSection_def list_all_iff calm_text)

lemma calm_comment:
  assumes "list_all one_line (review_texts env pv)"
  shows "list_all calm_line (comment_lines env pv)"
proof -
  have h: "one_line (lit ''Critical'')" "one_line (lit ''Warnings'')" "one_line (lit ''Suggestions'')" "one_line (lit ''Verified'')"
    "one_line (lit ''Notes'')" "one_line (lit ''Looks Good'')" by (simp_all add: lit_def line_end_def)
  have t: "one_line (pv_summary pv)" "list_all one_line (pv_verified pv)" "list_all one_line (pv_notes pv)" "list_all one_line (pv_looksGood pv)"
    "list_all (\<lambda>f. one_line (rf_path f) \<and> one_line (rf_body f) \<and> one_line (je_show env (rf_line f))) (pv_findings pv)"
    "\<And>d. d \<in> set (pv_previous pv) \<Longrightarrow> one_line (rd_ref d) \<and> one_line (rd_evidence d)"
    "\<And>c. c \<in> set (pv_scope pv) \<Longrightarrow> one_line (sc_item c) \<and> one_line (sc_evidence c)"
    "\<And>c. c \<in> set (pv_focus pv) \<Longrightarrow> one_line (fc_item c) \<and> one_line (fc_evidence c)"
    using assms unfolding review_texts_def list_all_iff by auto
  have "list_all one_line (map (\<lambda>n. if begins_with FOCUS_NOTE_PREFIX n then neutraliseDecisionLine n else n) (pv_notes pv))"
    using t(3) by (auto simp: list_all_iff one_line_neutral)
  moreover have "list_all (\<lambda>f. one_line (rf_path f) \<and> one_line (rf_body f) \<and> one_line (je_show env (rf_line f)))
      (filter (\<lambda>f. findingSection (rf_severity f) = s) (pv_findings pv))" for s
    using t(5) by (auto simp: list_all_iff)
  moreover have "list_all calm_line (renderScopeSection (pv_scope pv))" "list_all calm_line (renderFocusSection (pv_focus pv))"
    "list_all calm_line (earlier_lines pv)"
    using t(6-8) by (auto simp: renderScopeSection_def renderFocusSection_def earlier_lines_def list_all_iff calm_check calm_text calm_earlier)
  ultimately show ?thesis
    unfolding comment_lines_def section_lines_def Let_def list_all_append
    using h t(1,2,4) by (simp add: calm_verdict calm_text calm_findings calm_texts)
qed

subsection \<open>Lines of a text\<close>

lemma re_lines_not_Nil [simp]: "re_lines s \<noteq> []"
  by (induction s) (auto split: list.splits)

lemma re_lines_append: "line_end c \<Longrightarrow> re_lines (s @ c # t) = re_lines s @ re_lines t"
  by (induction s) (auto split: list.splits)

lemma re_lines_one: "one_line s \<Longrightarrow> re_lines s = [s]"
  by (induction s) auto

lemma newline_ends [simp]: "line_end 10"
  by (simp add: line_end_def)

lemma re_lines_join: "ls \<noteq> [] \<Longrightarrow> list_all one_line ls \<Longrightarrow> re_lines (js_join [10] ls) = ls"
proof (induction "[10 :: nat]" ls rule: js_join.induct)
  case (2 s)
  then show ?case by (simp add: re_lines_one)
next
  case (3 s t ss)
  then show ?case by (simp add: re_lines_append re_lines_one)
qed simp

lemma join_split_at: "B \<noteq> [] \<Longrightarrow> js_join [10] (A @ e # B) = js_join [10] (A @ [e]) @ 10 # js_join [10] B"
proof (induction A)
  case Nil
  then show ?case by (cases B) auto
next
  case (Cons a A)
  then show ?case by (cases A) auto
qed

lemma trim_end_append: "list_ex (\<lambda>c. \<not> js_space c) t \<Longrightarrow> js_trim_end (s @ t) = s @ js_trim_end t"
  unfolding js_trim_end_def by (induction t rule: rev_induct) auto

lemma trim_end_prefix: "\<exists>r. s = js_trim_end s @ r"
proof -
  have "s = js_trim_end s @ rev (takeWhile js_space (rev s))"
    unfolding js_trim_end_def rev_append [symmetric] by simp
  then show ?thesis by blast
qed

lemma re_lines_prefix: "one_line p \<Longrightarrow> re_lines (p @ s) = (p @ hd (re_lines s)) # tl (re_lines s)"
  by (induction p) (auto split: list.splits)

lemma one_line_round [simp]: "one_line round_start"
  by (simp add: round_start_def lit_def line_end_def)

subsection \<open>Rounds of a text\<close>

lemma split_single: "(\<And>x y. s \<noteq> x @ 10 # 10 # round_start @ y) \<Longrightarrow> split_rounds s = [s]"
proof (induction s)
  case (Cons c s)
  have "s \<noteq> x @ 10 # 10 # round_start @ y" for x y
  proof
    assume "s = x @ 10 # 10 # round_start @ y"
    then have "c # s = (c # x) @ 10 # 10 # round_start @ y" by simp
    then show False using Cons.prems by blast
  qed
  then have "split_rounds s = [s]" by (rule Cons.IH)
  moreover have "\<not> (c = 10 \<and> s \<noteq> [] \<and> hd s = 10 \<and> begins_with round_start (tl s))"
    using Cons.prems [of "[]"] by (cases s) (auto simp: begins_with_iff)
  ultimately show ?case by simp
qed simp

lemma split_rounds_not_Nil [simp]: "split_rounds s \<noteq> []"
  by (induction s rule: split_rounds.induct) (auto split: list.splits)

lemma last_round:
  assumes "begins_with round_start b"
  shows "length (split_rounds (x @ 10 # 10 # b)) > 1 \<and> last (split_rounds (x @ 10 # 10 # b)) = last (split_rounds b)"
proof (induction x rule: length_induct)
  case (1 x)
  show ?case
  proof (cases x)
    case Nil
    then show ?thesis using assms by (cases "split_rounds b") simp_all
  next
    case (Cons c y)
    let ?s = "y @ 10 # 10 # b"
    have IH: "length (split_rounds ?s) > 1 \<and> last (split_rounds ?s) = last (split_rounds b)" using 1 Cons by simp
    show ?thesis
    proof (cases "c = 10 \<and> ?s \<noteq> [] \<and> hd ?s = 10 \<and> begins_with round_start (tl ?s)")
      case True
      then obtain d z where y: "y = d # z" by (cases y) (auto simp: begins_with_iff round_start_def lit_def)
      have "last (split_rounds (z @ 10 # 10 # b)) = last (split_rounds b)" using 1 Cons y by simp
      then show ?thesis using True Cons y by (cases "split_rounds (z @ 10 # 10 # b)") simp_all
    next
      case False
      obtain l ls where l: "split_rounds ?s = l # ls" by (metis list.exhaust split_rounds_not_Nil)
      then show ?thesis using False IH Cons by auto
    qed
  qed
qed

lemma round_is_one_block:
  assumes "one_line label" and "list_all calm_line ls" and "ls \<noteq> []" and "js_join [10] ls = p @ q"
  shows "split_rounds (label @ 10 # 10 # p) = [label @ 10 # 10 # p]"
proof (rule split_single)
  fix x y
  show "label @ 10 # 10 # p \<noteq> x @ 10 # 10 # round_start @ y"
  proof
    assume "label @ 10 # 10 # p = x @ 10 # 10 # round_start @ y"
    then have whole: "label @ 10 # 10 # js_join [10] ls = x @ 10 # 10 # round_start @ (y @ q)"
      unfolding assms(4) by (metis append.assoc append_Cons)
    have "list_all one_line ls" using assms(2) by (auto simp: list_all_iff calm_line_def)
    then have "re_lines (label @ 10 # 10 # js_join [10] ls) = label # [] # ls"
      using assms(1,3) by (simp add: re_lines_append re_lines_one re_lines_join)
    then have "label # [] # ls = re_lines x @ [] # re_lines (round_start @ (y @ q))"
      unfolding whole by (simp add: re_lines_append)
    then have "round_start @ hd (re_lines (y @ q)) \<in> set ([] # ls)"
      by (cases "re_lines x") (auto simp: re_lines_prefix)
    then show False using assms(2) by (auto simp: list_all_iff calm_line_def round_start_def lit_def)
  qed
qed

lemma ref_before_stars: "42 \<notin> set r \<Longrightarrow> r \<noteq> [] \<Longrightarrow> open_tail t \<Longrightarrow> ref_before (r @ t) = Some r"
proof (induction r)
  case (Cons c r)
  show ?case
  proof (cases r)
    case Nil
    then show ?thesis using Cons.prems by simp
  next
    case (Cons d r')
    then have "\<not> open_tail (r @ t)" using Cons.prems by (simp add: open_tail_def lit_def)
    then show ?thesis using Cons.IH Cons.prems Cons by simp
  qed
qed simp

lemma open_ref_earlier:
  assumes "42 \<notin> set (rd_ref d)" and "rd_ref d \<noteq> []" and "rd_status d \<noteq> DsAddressed"
  shows "open_ref (earlier_line d) = Some (rd_ref d)"
proof -
  have "open_tail (lit ''**'' @ dashed @ lit (disposition_word (rd_status d)) @ t)" for t
    using assms(3) begins_with_append [of "lit ''**'' @ dashed @ lit (disposition_word (rd_status d))" t]
    by (cases "rd_status d") (simp_all add: open_tail_def)
  then have "ref_before (rd_ref d @ lit ''**'' @ dashed @ lit (disposition_word (rd_status d)) @ t) = Some (rd_ref d)" for t
    using assms(1,2) by (intro ref_before_stars)
  moreover have "drop 4 (lit ''- **'' @ s) = s" for s by (simp add: lit_def)
  ultimately show ?thesis by (simp add: open_ref_def earlier_line_def)
qed

text \<open>A new finding without a severity, whose text begins with the word, reads like an earlier one left open.\<close>

lemma new_finding_reads_as_open:
  assumes "rf_severity f = None" and "rf_body f = lit ''still-open'' @ t" and "42 \<notin> set (rf_path f)" and "42 \<notin> set (je_show env (rf_line f))"
  shows "open_ref (finding_bullet env f) = Some (rf_path f @ lit '':'' @ je_show env (rf_line f))"
proof -
  have "open_tail (lit ''**'' @ dashed @ lit ''still-open'' @ t)"
    using begins_with_append [of "lit ''**'' @ dashed @ lit ''still-open''" t] by (simp add: open_tail_def)
  moreover have "42 \<notin> set (rf_path f @ lit '':'' @ je_show env (rf_line f))" using assms(3,4) by (simp add: lit_def)
  ultimately have "ref_before ((rf_path f @ lit '':'' @ je_show env (rf_line f)) @ lit ''**'' @ dashed @ lit ''still-open'' @ t)
      = Some (rf_path f @ lit '':'' @ je_show env (rf_line f))"
    by (intro ref_before_stars) (simp_all add: lit_def)
  moreover have "finding_bullet env f = lit ''- **'' @ (rf_path f @ lit '':'' @ je_show env (rf_line f)) @ lit ''**'' @ dashed @ lit ''still-open'' @ t"
    using assms(1,2) by (simp add: finding_bullet_def lit_def)
  moreover have "drop 4 (lit ''- **'' @ s) = s" for s by (simp add: lit_def)
  ultimately show ?thesis by (simp add: open_ref_def)
qed

text \<open>The header of a round, and a round's text stored after the earlier ones.\<close>

definition round_label :: "js_env \<Rightarrow> nat \<Rightarrow> bool \<Rightarrow> jsstring" where
  "round_label env rounds afterSuggestions = lit ''## Round '' @ je_show env (rounds + 1)
     @ (if afterSuggestions then lit '' (re-review after suggestions)'' else [])"

definition append_round :: "jsstring option \<Rightarrow> jsstring \<Rightarrow> jsstring" where
  "append_round reviewFindings comment = (case reviewFindings of
       Some t \<Rightarrow> if t = [] then comment else t @ [10, 10] @ comment | None \<Rightarrow> comment)"

definition round_comment :: "js_env \<Rightarrow> nat \<Rightarrow> bool \<Rightarrow> parsed_review \<Rightarrow> jsstring" where
  "round_comment env rounds afterSuggestions pv =
     round_label env rounds afterSuggestions @ [10, 10] @ renderReviewFindingsMarkdown env pv RmComment"

lemma set_join_mem: "l \<in> set ls \<Longrightarrow> c \<in> set l \<Longrightarrow> c \<in> set (js_join sep ls)"
  by (induction sep ls rule: js_join.induct) auto

lemma round_label_props:
  assumes "one_line (je_show env (rounds + 1))"
  shows "one_line (round_label env rounds b)" and "begins_with round_start (round_label env rounds b @ s)"
  using assms by (simp_all add: round_label_def round_start_def) (simp add: lit_def line_end_def)+

lemma rendered_comment:
  assumes "pv_structured pv" and "pv_previous pv \<noteq> []"
  shows "renderReviewFindingsMarkdown env pv RmComment = js_trim_end (js_join [10] (comment_lines env pv))"
  using assms by (simp add: renderReviewFindingsMarkdown_def has_other_structure_def comment_lines_def)

lemma earlier_line_rendered:
  assumes "pv_structured pv" and "list_all one_line (review_texts env pv)" and "d \<in> set (pv_previous pv)"
  shows "earlier_line d \<in> set (re_lines (renderReviewFindingsMarkdown env pv RmComment))"
proof -
  obtain p1 p2 where p: "pv_previous pv = p1 @ d # p2" using assms(3) by (meson split_list)
  define A where "A = [verdict_line pv, [], lit ''### Earlier findings''] @ map earlier_line p1"
  define B where "B = map earlier_line p2 @ [[]] @ section_lines env pv RmComment"
  have lines: "comment_lines env pv = A @ earlier_line d # B"
    by (simp add: comment_lines_def earlier_lines_def p A_def B_def)
  have "lit ''### Looks Good'' \<in> set B" by (simp add: B_def section_lines_def renderTextSection_def lit_def)
  then have "35 \<in> set (js_join [10] B)" by (rule set_join_mem) (simp add: lit_def)
  then have vis: "list_ex (\<lambda>c. \<not> js_space c) (js_join [10] B)"
    unfolding list_ex_iff by (rule rev_bexI) (simp add: js_space_def)
  then have "list_ex (\<lambda>c. \<not> js_space c) (10 # js_join [10] B)" by simp
  moreover have "B \<noteq> []" by (simp add: B_def)
  ultimately have "renderReviewFindingsMarkdown env pv RmComment = js_join [10] (A @ [earlier_line d]) @ js_trim_end (10 # js_join [10] B)"
    using rendered_comment [OF assms(1)] p lines by (simp add: join_split_at trim_end_append)
  moreover have "js_trim_end (10 # js_join [10] B) = 10 # js_trim_end (js_join [10] B)"
    using trim_end_append [OF vis, of "[10]"] by simp
  moreover have "list_all one_line (A @ [earlier_line d])"
    using calm_comment [OF assms(2)] unfolding lines by (auto simp: list_all_iff calm_line_def)
  ultimately show ?thesis by (simp add: re_lines_append re_lines_join)
qed

text \<open>
  What a round left open is read back from its text, when the texts of the review are single lines and the reference has
  no stars, whatever text was stored before.
\<close>

lemma last_round_left_open:
  assumes "pv_structured pv" and "list_all one_line (review_texts env pv)" and "one_line (je_show env (rounds + 1))"
    and "d \<in> set (pv_previous pv)" and "rd_status d \<noteq> DsAddressed" and "rd_ref d \<noteq> []" and "42 \<notin> set (rd_ref d)"
  shows "rd_ref d \<in> set (previous_open_refs (Some (append_round stored_text (round_comment env rounds b pv))))"
proof -
  let ?r = "renderReviewFindingsMarkdown env pv RmComment" and ?l = "round_label env rounds b"
  let ?c = "round_comment env rounds b pv"
  have ne: "pv_previous pv \<noteq> []" using assms(4) by auto
  obtain q where q: "js_join [10] (comment_lines env pv) = ?r @ q"
    using trim_end_prefix [of "js_join [10] (comment_lines env pv)"] rendered_comment [OF assms(1) ne] by metis
  have "split_rounds ?c = [?c]"
    using round_is_one_block [OF round_label_props(1) [OF assms(3)] calm_comment [OF assms(2)] _ q]
    by (simp add: round_comment_def comment_lines_def)
  moreover have "begins_with round_start ?c" using round_label_props(2) [OF assms(3)] by (simp add: round_comment_def)
  ultimately have "last (split_rounds (append_round stored_text ?c)) = ?c"
    using last_round [of ?c] by (auto simp: append_round_def split: option.splits)
  moreover have "earlier_line d \<in> set (re_lines ?c)"
    using earlier_line_rendered [OF assms(1,2,4)] by (simp add: round_comment_def re_lines_append)
  ultimately show ?thesis
    using open_ref_earlier [OF assms(7,6,5)] by (auto simp: previous_open_refs_def openRefsOfRenderedRound_def map_filter_mem)
qed

text \<open>A reviewer that lists an earlier finding as still open under an approving verdict.\<close>

definition demo_js :: js_env where
  "demo_js = \<lparr>je_parse = (\<lambda>_. Some (WObj [(lit ''verdict'', WStr (lit ''approved'')), (lit ''summary'', WStr (lit ''fine'')),
       (lit ''findings'', WArr [WObj [(lit ''path'', WStr (lit ''a.ts'')), (lit ''line'', WNum (Finite 3)),
         (lit ''severity'', WStr (lit ''nit'')), (lit ''body'', WStr (lit ''rename''))]])])),
     je_number = (\<lambda>_. Not_finite), je_show = (\<lambda>n. [48 + n mod 10])\<rparr>"

definition demo_open :: review_disposition where
  "demo_open = \<lparr>rd_ref = lit ''a.ts:3'', rd_status = DsStillOpen, rd_evidence = []\<rparr>"

definition open_review :: parsed_review where
  "open_review = (freeform_review (lit ''no''))\<lparr>pv_structured := True, pv_previous := [demo_open]\<rparr>"

theorem approval_is_earned_witness:
  "\<exists>obj claimed. je_parse demo_js (js_trim []) = Some obj \<and> claimed_verdict (wire_field obj ''verdict'') = Some claimed
    \<and> list_all (\<lambda>w. anchored demo_js w \<longrightarrow> optional_finding w) (wire_array (wire_field obj ''findings''))
    \<and> wire_array (wire_field obj ''findings'') \<noteq> []"
proof -
  let ?pv = "parseReviewFindings demo_js False []"
  have f: "pv_findings ?pv = [\<lparr>rf_path = lit ''a.ts'', rf_line = 3, rf_side = SideRight, rf_severity = Some SevSuggestion, rf_body = lit ''rename''\<rparr>]"
    by (simp add: parseReviewFindings_def demo_js_def structured_review_def claimed_verdict_def wire_string_def wire_array_def
        List.map_filter_simps normalizeReviewFinding_def wire_text_def finding_line_def Let_def lit_def)
  have "pv_verdict ?pv = VSuggestions"
    by (simp add: parseReviewFindings_def demo_js_def structured_review_def claimed_verdict_def wire_string_def wire_array_def
        List.map_filter_simps normalizeReviewFinding_def wire_text_def finding_line_def Let_def lit_def
        deriveVerdict_def normalizeDispositions_def normalizeScope_def)
  then have "isApprovingVerdict (Some (verdict_word (pv_verdict ?pv)))" by (simp add: isApprovingVerdict_def)
  note earned = approval_is_earned [OF this refl]
  have "wire_array (wire_field obj ''findings'') \<noteq> []" if "je_parse demo_js (js_trim []) = Some obj" for obj
    using that by (auto simp: demo_js_def wire_array_def lit_def)
  with earned show ?thesis by blast
qed

text \<open>
  A finding the parser cannot anchor is lost: a critical finding at line 0 is dropped, and the review that states it
  under the word approved approves. The comment of \<open>normalizeReviewFinding\<close> counts on the verdict
  \<open>changes-requested\<close> to keep a human in the loop; it does so only if the reviewer wrote that word.
\<close>

lemma finding_without_line_is_lost:
  assumes "je_parse env (js_trim raw) = Some (WObj [(lit ''verdict'', WStr (lit ''approved'')), (lit ''summary'', WStr summary),
      (lit ''findings'', WArr [WObj [(lit ''path'', WStr (lit ''a.ts'')), (lit ''line'', WNum (Finite 0)),
         (lit ''severity'', WStr (lit ''critical'')), (lit ''body'', WStr body)]])])"
  shows "pv_verdict (parseReviewFindings env ignorePrevious raw) = VApproved"
  by (simp add: parseReviewFindings_def assms structured_review_def claimed_verdict_def wire_string_def wire_array_def
      List.map_filter_simps normalizeReviewFinding_def wire_text_def finding_line_def Let_def lit_def
      deriveVerdict_def normalizeDispositions_def normalizeScope_def quotient_of_number)

subsection \<open>The focus list is small\<close>

lemma cut_item_length: "t \<noteq> [] \<Longrightarrow> cut_item t \<noteq> [] \<and> length (cut_item t) \<le> MAX_FOCUS_ITEM_LENGTH"
  by (simp add: cut_item_def ellipsis_def MAX_FOCUS_ITEM_LENGTH_def)

lemma focus_loop_bounds:
  "length out < MAX_FOCUS_ITEMS \<Longrightarrow> list_all (\<lambda>t. t \<noteq> [] \<and> length t \<le> MAX_FOCUS_ITEM_LENGTH) out
    \<Longrightarrow> length (focus_loop sec fen ls out) \<le> MAX_FOCUS_ITEMS
      \<and> list_all (\<lambda>t. t \<noteq> [] \<and> length t \<le> MAX_FOCUS_ITEM_LENGTH) (focus_loop sec fen ls out)"
proof (induction sec fen ls out rule: focus_loop.induct)
  case (2 inSection inFence l ls out)
  then show ?case by (auto simp: Let_def cut_item_length split: option.splits)
qed simp

lemma focus_is_bounded:
  "length (parseReviewFocus body) \<le> 12 \<and> list_all (\<lambda>t. t \<noteq> [] \<and> length t \<le> 300) (parseReviewFocus body)"
  using focus_loop_bounds [of "[]"]
  by (auto simp: parseReviewFocus_def MAX_FOCUS_ITEMS_def MAX_FOCUS_ITEM_LENGTH_def split: option.splits)

end
