(* ===== verification/ReviewLoop.thy ===== *)
theory ReviewLoop
  imports ReviewFindings TaskDeps SessionStatus
begin

section \<open>The review loop of a task\<close>

text \<open>
  What \<open>src/services/task-reconciler.ts\<close> does with a task under review: it starts a review, reads its outcome
  into the row, sends the task back to its worker, stops a loop that goes nowhere and re-arms a
  review that stalled; with the derivations the board and the sweeps share (\<open>task-review-handle.ts\<close>,
  \<open>task-approval-state.ts\<close>, \<open>task-rate-limit-grace.ts\<close>, \<open>merge-readiness.ts\<close>) and the writes of the review routes of
  \<open>routes/tasks.ts\<close> and of \<open>task-approve.ts\<close>. Every write is a compare-and-swap on the row: \<open>db\<close> is the row as it is,
  \<open>task\<close> the snapshot an operation read earlier. An operation that waits for a host or for GitHub is cut there.
  A time written to a column loses its milliseconds. Whether an agent takes a seed prompt, and what GitHub
  and the hosts answer, are arguments.
\<close>

subsection \<open>The row\<close>

datatype return_reason = RrReview | RrCi | RrPrComment | RrSuggestions
datatype stall_reason = NoProgress | FindingPersisted
datatype human_reason = HrCap | HrStall stall_reason

record review_row =
  rw_status :: task_status
  rw_rounds :: nat
  rw_carriedAt :: "int option"
  rw_lastReturn :: "return_reason option"
  rw_capAt :: "int option"
  rw_human :: "human_reason option"
  rw_claimedAt :: "int option"
  rw_session :: "int option"
  rw_ingestedSession :: "int option"
  rw_run :: "string option"
  rw_runDispatchedAt :: "int option"
  rw_runHead :: "string option"
  rw_ingestedRun :: "string option"
  rw_seedDelivered :: "bool option"
  rw_spawnClaimedAt :: "int option"
  rw_reviewFindings :: "jsstring option"
  rw_verdict :: "string option"
  rw_verdictAt :: "int option"
  rw_headSha :: "string option"
  rw_rearms :: nat
  rw_rateLimitAt :: "int option"
  rw_rebaseStartedAt :: "int option"
  rw_reviewingAt :: "int option"
  rw_pr :: "int option"
  rw_worktree :: "string option"
  rw_agent :: "string option"

definition column_time :: "int \<Rightarrow> int" where "column_time t = t div 1000 * 1000"

text \<open>An update under a condition: the new row, and whether a row changed.\<close>

definition cas :: "(review_row \<Rightarrow> bool) \<Rightarrow> (review_row \<Rightarrow> review_row) \<Rightarrow> review_row \<Rightarrow> review_row \<times> bool" where
  "cas cond upd db = (if cond db then (upd db, True) else (db, False))"

subsection \<open>Which review is current\<close>

definition clear_run :: "review_row \<Rightarrow> review_row" where
  "clear_run db = db\<lparr>rw_run := None, rw_runDispatchedAt := None, rw_runHead := None, rw_ingestedRun := None\<rparr>"

definition hasReviewHandle :: "review_row \<Rightarrow> bool" where
  "hasReviewHandle row \<longleftrightarrow> rw_session row \<noteq> None \<or> rw_run row \<noteq> None"

definition hasIngestedCurrentReview :: "review_row \<Rightarrow> bool" where
  "hasIngestedCurrentReview row \<longleftrightarrow>
     (rw_session row \<noteq> None \<and> rw_ingestedSession row = rw_session row)
     \<or> (rw_run row \<noteq> None \<and> rw_ingestedRun row = rw_run row)"

definition hasCurrentApproval :: "review_row \<Rightarrow> bool" where
  "hasCurrentApproval task \<longleftrightarrow> isApprovingVerdict (rw_verdict task) \<and> hasIngestedCurrentReview task"

datatype approval_state = AwaitingHuman | AutoPending

definition deriveApprovalState :: "review_row \<Rightarrow> bool \<Rightarrow> bool \<Rightarrow> approval_state option" where
  "deriveApprovalState row projectAutoApprove enabled =
     (if \<not> (rw_status row = Reviewing \<and> hasIngestedCurrentReview row \<and> isApprovingVerdict (rw_verdict row)) then None
      else if projectAutoApprove \<and> rw_pr row \<noteq> None \<and> enabled then Some AutoPending else Some AwaitingHuman)"

datatype review_phase = Rebasing | AwaitingReview | NoReviewer

definition canSpawnReviewer :: "review_row \<Rightarrow> bool \<Rightarrow> bool \<Rightarrow> bool" where
  "canSpawnReviewer row enabled reviewerConfigured \<longleftrightarrow> enabled \<and> reviewerConfigured \<and> rw_worktree row \<noteq> None"

definition deriveReviewPhase :: "review_row \<Rightarrow> int \<Rightarrow> bool \<Rightarrow> bool \<Rightarrow> int \<Rightarrow> review_phase option \<times> int option" where
  "deriveReviewPhase row staleMs enabled reviewerConfigured now =
     (if rw_status row \<noteq> Reviewing \<or> rw_session row \<noteq> None then (None, None)
      else if rw_run row \<noteq> None then (None, None)
      else if \<not> canSpawnReviewer row enabled reviewerConfigured
        then (if enabled \<and> rw_worktree row \<noteq> None then (Some NoReviewer, None) else (None, None))
      else case rw_rebaseStartedAt row of
          Some t \<Rightarrow> if now < t + staleMs then (Some Rebasing, Some (t + staleMs)) else (Some AwaitingReview, None)
        | None \<Rightarrow> (Some AwaitingReview, None))"

datatype merge_readiness = MrClean | MrBehind | MrBlocked | MrUnstable | MrDirty | MrComputing | MrAlreadyDone

definition classifyMergeReadiness :: "bool \<Rightarrow> bool \<Rightarrow> string \<Rightarrow> merge_readiness" where
  "classifyMergeReadiness merged isClosed mergeableState =
     (if merged \<or> isClosed then MrAlreadyDone
      else if mergeableState = ''clean'' then MrClean
      else if mergeableState = ''behind'' then MrBehind
      else if mergeableState = ''unstable'' then MrUnstable
      else if mergeableState = ''dirty'' then MrDirty
      else if mergeableState = ''blocked'' then MrBlocked
      else MrComputing)"

subsection \<open>Rate limits\<close>

text \<open>\<open>recordRateLimitEvent\<close>: the row, and the time written; it is not a compare-and-swap.\<close>

definition recordRateLimitEvent :: "int \<Rightarrow> string option \<Rightarrow> review_row \<Rightarrow> review_row \<times> int option" where
  "recordRateLimitEvent now errorDetail db =
     (if errorDetail \<noteq> Some ''rate_limit'' then (db, None) else (db\<lparr>rw_rateLimitAt := Some (column_time now)\<rparr>, Some now))"

definition isRateLimitGraceActive :: "string option \<Rightarrow> string option \<Rightarrow> int option \<Rightarrow> int \<Rightarrow> bool \<Rightarrow> int \<Rightarrow> bool" where
  "isRateLimitGraceActive errorState errorDetail lastRateLimitAt graceMinutes hasCommitsPastBase now =
     (if errorState \<noteq> Some ''api_error'' then False
      else if graceMinutes \<le> 0 then False
      else if hasCommitsPastBase then False
      else case lastRateLimitAt of None \<Rightarrow> False
        | Some t \<Rightarrow> if errorDetail \<noteq> Some ''rate_limit'' then False else now - t < graceMinutes * 60000)"

definition isTaskInRateLimitGrace :: "int option \<Rightarrow> int \<Rightarrow> int \<Rightarrow> bool" where
  "isTaskInRateLimitGrace lastRateLimitAt graceMinutes now = (case lastRateLimitAt of None \<Rightarrow> False
     | Some t \<Rightarrow> if graceMinutes \<le> 0 then False else now - t < graceMinutes * 60000)"

subsection \<open>The round budget\<close>

definition DEFAULT_MAX_AUTO_RETURN_ROUNDS :: nat where "DEFAULT_MAX_AUTO_RETURN_ROUNDS = 10"

text \<open>\<open>None\<close> is \<open>Infinity\<close>.\<close>

definition resolveMaxAutoReturnRounds :: "nat option \<Rightarrow> nat \<Rightarrow> nat option" where
  "resolveMaxAutoReturnRounds projectCap installCap =
     (let cap = (case projectCap of Some c \<Rightarrow> c | None \<Rightarrow> installCap) in if cap = 0 then None else Some cap)"

definition cap_reached :: "nat \<Rightarrow> nat option \<Rightarrow> bool" where
  "cap_reached rounds cap = (case cap of None \<Rightarrow> False | Some c \<Rightarrow> rounds \<ge> c)"

subsection \<open>A loop that goes nowhere\<close>

text \<open>\<open>headSha\<close> is the head GitHub reports for the pull request, \<open>None\<close> when it could not be asked.\<close>

definition detectReviewStall :: "review_row \<Rightarrow> parsed_review \<Rightarrow> string option \<Rightarrow> stall_reason option" where
  "detectReviewStall task parsed headSha =
     (if pv_verdict parsed \<noteq> VChanges then None
      else case (rw_claimedAt task, rw_verdictAt task) of
        (Some claimedAt, Some verdictAt) \<Rightarrow>
          (if \<not> claimedAt > verdictAt then None
           else if list_ex (\<lambda>d. rd_status d \<noteq> DsAddressed \<and> rd_ref d \<in> set (previous_open_refs (rw_reviewFindings task)))
               (pv_previous parsed) then Some FindingPersisted
           else if rw_lastReturn task = Some RrReview \<and> rw_verdict task = Some ''changes-requested''
               \<and> rw_headSha task \<noteq> None \<and> rw_pr task \<noteq> None \<and> headSha \<noteq> None \<and> headSha = rw_headSha task
             then Some NoProgress
           else None)
      | _ \<Rightarrow> None)"

subsection \<open>When a review session's output counts\<close>

definition REVIEW_FINDINGS_GRACE_MS :: int where "REVIEW_FINDINGS_GRACE_MS = 30 * 60000"

text \<open>
  One row of \<open>processReviewingTasks\<close>, once the host answered (\<open>info\<close>: the error state and detail of a running session,
  \<open>None\<close> if it does not run) and the file was read (\<open>None\<close>: none or empty). \<open>now\<close> is when the pass began, \<open>clock\<close> the time at this row. The result: the row after the
  capture of a rate limit, and the ingestion to do, as whether the review finished and why nothing was found.
\<close>

record review_reading =
  rr_status :: session_status
  rr_info :: "(string option \<times> string option) option"
  rr_parsed :: "parsed_review option"
  rr_createdAt :: int

definition usable_signal :: "review_reading \<Rightarrow> int \<Rightarrow> bool" where
  "usable_signal rd now = (if rr_parsed rd \<noteq> None then rr_status rd = SFinished \<or> rr_status rd = SExited
     else rr_status rd = SExited
       \<or> (SEVERITY_BY_STATUS (rr_status rd) \<noteq> Busy \<and> now - rr_createdAt rd \<ge> REVIEW_FINDINGS_GRACE_MS))"

definition no_findings_reason :: "session_status \<Rightarrow> jsstring" where
  "no_findings_reason st = lit (if st = SExited then ''Review agent ended without writing a findings file''
     else if st = SFinished then ''Review agent finished but wrote no findings file''
     else ''Review agent produced no findings file within the expected time'')"

definition review_reading_step :: "review_row \<Rightarrow> review_reading \<Rightarrow> int \<Rightarrow> int \<Rightarrow> int \<Rightarrow> review_row \<Rightarrow> review_row \<times> (bool \<times> jsstring) option" where
  "review_reading_step task rd graceMinutes now clock db =
     (if hasIngestedCurrentReview task then (db, None)
      else
        let missing = (rr_info rd \<noteq> None \<and> rr_parsed rd = None);
            state = (case rr_info rd of Some (e, _) \<Rightarrow> e | None \<Rightarrow> None);
            detail = (case rr_info rd of Some (_, d) \<Rightarrow> d | None \<Rightarrow> None);
            (db', captured) = (if missing then recordRateLimitEvent clock detail db else (db, None));
            limitedAt = (case captured of Some t \<Rightarrow> Some t | None \<Rightarrow> rw_rateLimitAt task)
        in if missing \<and> rr_status rd \<noteq> SApiError \<and> isTaskInRateLimitGrace limitedAt graceMinutes clock then (db', None)
           else if missing \<and> isRateLimitGraceActive state detail limitedAt graceMinutes False clock then (db', None)
           else if \<not> usable_signal rd now then (db', None)
           else (db', Some (rr_status rd = SFinished, no_findings_reason (rr_status rd))))"

subsection \<open>Ingesting an outcome\<close>

text \<open>The review an outcome belongs to, and what ingestion is given.\<close>

datatype review_latch = LatchSession int | LatchRun string

record ingest_input =
  in_parsed :: "parsed_review option"
  in_finished :: bool
  in_reason :: jsstring
  in_now :: int
  in_latch :: review_latch
  in_head :: "string option"
  in_enabled :: bool
  in_cap :: "nat option"
  in_stallHead :: "string option"
  in_announceNow :: int

datatype ingest_next = IngestDone | SendSuggestions | SendBack

record ingest_result =
  ir_verdict :: string
  ir_body :: jsstring
  ir_note :: jsstring
  ir_resolveThreads :: bool
  ir_next :: ingest_next

definition takes_seed :: "(string \<Rightarrow> bool) \<Rightarrow> review_row \<Rightarrow> bool" where
  "takes_seed seedable task \<longleftrightarrow> rw_worktree task \<noteq> None \<and> (case rw_agent task of None \<Rightarrow> False | Some a \<Rightarrow> seedable a)"

definition has_verdict :: "ingest_input \<Rightarrow> review_verdict \<Rightarrow> bool" where
  "has_verdict inp v \<longleftrightarrow> (case in_parsed inp of None \<Rightarrow> False | Some pv \<Rightarrow> pv_verdict pv = v)"

definition wantsAutoReturn :: "(string \<Rightarrow> bool) \<Rightarrow> review_row \<Rightarrow> ingest_input \<Rightarrow> bool" where
  "wantsAutoReturn seedable task inp \<longleftrightarrow> in_finished inp \<and> has_verdict inp VChanges \<and> in_enabled inp \<and> takes_seed seedable task"

definition wantsSuggestionsRound :: "(string \<Rightarrow> bool) \<Rightarrow> review_row \<Rightarrow> ingest_input \<Rightarrow> bool" where
  "wantsSuggestionsRound seedable task inp \<longleftrightarrow> in_finished inp \<and> has_verdict inp VSuggestions \<and> in_enabled inp \<and> takes_seed seedable task"

definition ingest_stall :: "(string \<Rightarrow> bool) \<Rightarrow> review_row \<Rightarrow> ingest_input \<Rightarrow> stall_reason option" where
  "ingest_stall seedable task inp = (case in_parsed inp of None \<Rightarrow> None
     | Some pv \<Rightarrow> if wantsAutoReturn seedable task inp \<and> \<not> cap_reached (rw_rounds task) (in_cap inp)
         then detectReviewStall task pv (in_stallHead inp) else None)"

definition shouldAutoReturn :: "(string \<Rightarrow> bool) \<Rightarrow> review_row \<Rightarrow> ingest_input \<Rightarrow> bool" where
  "shouldAutoReturn seedable task inp \<longleftrightarrow> wantsAutoReturn seedable task inp \<and> \<not> cap_reached (rw_rounds task) (in_cap inp)
     \<and> ingest_stall seedable task inp = None"

definition ingest_verdict :: "ingest_input \<Rightarrow> string" where
  "ingest_verdict inp = (case in_parsed inp of Some pv \<Rightarrow> verdict_word (pv_verdict pv) | None \<Rightarrow> ''inconclusive'')"

definition ingest_comment :: "js_env \<Rightarrow> review_row \<Rightarrow> ingest_input \<Rightarrow> jsstring" where
  "ingest_comment env task inp = (let again = (rw_lastReturn task = Some RrSuggestions) in
     case in_parsed inp of
       Some pv \<Rightarrow> round_comment env (rw_rounds task) again pv
     | None \<Rightarrow> round_label env (rw_rounds task) again @ [10, 10] @ in_reason inp @ dashed @ lit ''treat this review as inconclusive.'')"

definition ingest_human :: "(string \<Rightarrow> bool) \<Rightarrow> review_row \<Rightarrow> ingest_input \<Rightarrow> human_reason option" where
  "ingest_human seedable task inp =
     (if wantsSuggestionsRound seedable task inp then None
      else if cap_reached (rw_rounds task) (in_cap inp) then Some HrCap
      else map_option HrStall (ingest_stall seedable task inp))"

definition cappedNote :: "js_env \<Rightarrow> (string \<Rightarrow> bool) \<Rightarrow> review_row \<Rightarrow> ingest_input \<Rightarrow> jsstring" where
  "cappedNote env seedable task inp =
     (if wantsAutoReturn seedable task inp \<and> cap_reached (rw_rounds task) (in_cap inp)
      then [10, 10] @ lit ''_Automatic round cap ('' @ (case in_cap inp of Some c \<Rightarrow> je_show env c | None \<Rightarrow> [])
        @ lit '') reached for this task '' @ em_dash @ lit '' it needs a human to take it from here._''
      else case ingest_stall seedable task inp of
        Some FindingPersisted \<Rightarrow> [10, 10] @ lit ''_The same earlier finding is still open after two rounds '' @ em_dash
          @ lit '' the automatic loop has stopped; this task needs a human to take it from here._''
      | Some NoProgress \<Rightarrow> [10, 10] @ lit ''_The worker returned without pushing a change '' @ em_dash
          @ lit '' the automatic loop has stopped; this task needs a human to take it from here._''
      | None \<Rightarrow> [])"

definition latch_is_current :: "review_latch \<Rightarrow> review_row \<Rightarrow> bool" where
  "latch_is_current latch db = (case latch of LatchSession s \<Rightarrow> True
     | LatchRun r \<Rightarrow> rw_run db = Some r \<and> rw_ingestedRun db \<noteq> Some r)"

definition ingest_write :: "js_env \<Rightarrow> (string \<Rightarrow> bool) \<Rightarrow> review_row \<Rightarrow> ingest_input \<Rightarrow> review_row \<Rightarrow> review_row" where
  "ingest_write env seedable task inp db =
     (let marked = (case in_latch inp of LatchSession s \<Rightarrow> db\<lparr>rw_ingestedSession := Some s\<rparr> | LatchRun r \<Rightarrow> db\<lparr>rw_ingestedRun := Some r\<rparr>);
          human = ingest_human seedable task inp
      in marked\<lparr>rw_reviewFindings := Some (append_round (rw_reviewFindings task) (ingest_comment env task inp)),
        rw_verdict := Some (ingest_verdict inp), rw_carriedAt := None, rw_verdictAt := Some (column_time (in_now inp)),
        rw_capAt := (if human \<noteq> None then Some (column_time (in_announceNow inp)) else rw_capAt db),
        rw_human := (if human \<noteq> None then human else rw_human db),
        rw_headSha := (case in_head inp of Some h \<Rightarrow> Some h | None \<Rightarrow> rw_headSha db)\<rparr>)"

text \<open>\<open>ingestReviewOutcome\<close>: \<open>None\<close> when a concurrent decision took the task, so that nothing is posted or sent.\<close>

definition ingestReviewOutcome :: "js_env \<Rightarrow> (string \<Rightarrow> bool) \<Rightarrow> review_row \<Rightarrow> ingest_input \<Rightarrow> review_row
    \<Rightarrow> review_row \<times> ingest_result option" where
  "ingestReviewOutcome env seedable task inp db =
     (let (db', won) = cas (\<lambda>r. rw_status r = Reviewing \<and> latch_is_current (in_latch inp) r) (ingest_write env seedable task inp) db in
      if \<not> won then (db, None)
      else (db', Some \<lparr>ir_verdict = ingest_verdict inp, ir_body = ingest_comment env task inp @ cappedNote env seedable task inp,
        ir_note = cappedNote env seedable task inp, ir_resolveThreads = isApprovingVerdict (Some (ingest_verdict inp)),
        ir_next = (if wantsSuggestionsRound seedable task inp then SendSuggestions
          else if shouldAutoReturn seedable task inp then SendBack else IngestDone)\<rparr>))"

subsection \<open>Reviews that run elsewhere\<close>

definition HERMES_DISPATCH_GIVE_UP_MS :: int where "HERMES_DISPATCH_GIVE_UP_MS = 30 * 60000"
definition HERMES_RUN_MAX_MS :: int where "HERMES_RUN_MAX_MS = 60 * 60000"
definition HERMES_GONE_POLLS :: nat where "HERMES_GONE_POLLS = 3"
definition HERMES_STATE_MAX_ENTRIES :: nat where "HERMES_STATE_MAX_ENTRIES = 500"

definition bumpBounded :: "('k, nat) jsmap \<Rightarrow> 'k \<Rightarrow> nat \<times> ('k, nat) jsmap" where
  "bumpBounded m k =
     (let n = (case jm_get m k of Some i \<Rightarrow> i | None \<Rightarrow> 0) + 1;
          m1 = (if \<not> jm_has m k \<and> jm_size m \<ge> HERMES_STATE_MAX_ENTRIES then jm_delete_oldest m else m)
      in (n, jm_set k n m1))"

definition isUnsentRunId :: "string \<Rightarrow> bool" where
  "isUnsentRunId runId \<longleftrightarrow> take 7 runId = ''unsent:''"

definition unsentRunId :: "(int \<Rightarrow> string) \<Rightarrow> int \<Rightarrow> nat \<Rightarrow> nat \<Rightarrow> string" where
  "unsentRunId printed taskId rnd rearms = ''unsent:'' @ printed taskId @ '':r'' @ printed (int rnd) @ '':x'' @ printed (int rearms)"

text \<open>What a poll of a run answers, and what becomes of it: wait, or ingest, after stopping the run where \<open>stop\<close> says so.\<close>

datatype poll_answer = PollThrew | PollGone | PollRunning | PollDone jsstring jsstring "jsstring option"
datatype poll_action = PollWait | PollIngest bool "parsed_review option" bool jsstring

definition reply_review :: "js_env \<Rightarrow> review_row \<Rightarrow> jsstring \<Rightarrow> parsed_review option" where
  "reply_review env task reply = (case extractFindingsJson env reply of None \<Rightarrow> None
     | Some json \<Rightarrow> let candidate = parseReviewFindings env (rw_verdict task = Some ''approved-with-suggestions'') json
         in if pv_structured candidate then Some candidate else None)"

definition poll_run :: "js_env \<Rightarrow> review_row \<Rightarrow> string \<Rightarrow> poll_answer \<Rightarrow> int \<Rightarrow> (string, nat) jsmap \<Rightarrow> (string, nat) jsmap \<times> poll_action" where
  "poll_run env task runId answer now gone =
     (let overdue = (case rw_runDispatchedAt task of Some t \<Rightarrow> now - t | None \<Rightarrow> 0) \<ge> HERMES_RUN_MAX_MS in
      case answer of
        PollThrew \<Rightarrow> (gone, if overdue then PollIngest True None False (lit ''The Hermes review could not be read within 60 minutes'') else PollWait)
      | PollGone \<Rightarrow> (let (seen, gone') = bumpBounded gone runId in
          if seen < HERMES_GONE_POLLS then (gone', PollWait)
          else (jm_delete runId gone', PollIngest False None False (lit ''Hermes no longer knows the review run'')))
      | PollRunning \<Rightarrow> (jm_delete runId gone, if \<not> overdue then PollWait
          else PollIngest True None False (lit ''The Hermes review did not finish within 60 minutes''))
      | PollDone status reply error \<Rightarrow> (jm_delete runId gone,
          (let completed = (status = lit ''completed''); parsed = (if completed then reply_review env task reply else None);
               reason = (if completed \<and> parsed = None then lit ''The Hermes reply was not the findings JSON''
                 else lit ''The Hermes review '' @ status
                   @ (case error of None \<Rightarrow> [] | Some e \<Rightarrow> with_evidence (lit '': '') e))
           in PollIngest False parsed completed reason)))"

text \<open>A run that must be polled, and whether a failed dispatch is given up.\<close>

definition polls_run :: "review_row \<Rightarrow> string option" where
  "polls_run task = (if rw_status task = Reviewing \<and> rw_ingestedRun task \<noteq> rw_run task
     then (case rw_run task of Some r \<Rightarrow> if isUnsentRunId r then None else Some r | None \<Rightarrow> None) else None)"

definition gives_up_dispatch :: "int \<Rightarrow> int \<Rightarrow> review_row \<Rightarrow> bool" where
  "gives_up_dispatch now createdAt task \<longleftrightarrow>
     now - (case rw_reviewingAt task of Some t \<Rightarrow> t | None \<Rightarrow> (case rw_claimedAt task of Some t \<Rightarrow> t | None \<Rightarrow> createdAt))
       \<ge> HERMES_DISPATCH_GIVE_UP_MS"

subsection \<open>Back to the worker\<close>

text \<open>\<open>autoReturnTask\<close>, cut at the re-seed: the forward write, and the rollback of a failed re-seed.\<close>

definition round_after :: "return_reason \<Rightarrow> review_row \<Rightarrow> nat" where
  "round_after reason task = rw_rounds task + (if reason \<noteq> RrSuggestions then 1 else 0)"

definition auto_return_begin :: "return_reason \<Rightarrow> bool \<Rightarrow> int \<Rightarrow> review_row \<Rightarrow> review_row \<Rightarrow> review_row \<times> bool" where
  "auto_return_begin reason carryApproval now task db =
     cas (\<lambda>r. rw_status r = Reviewing)
       (\<lambda>r. r\<lparr>rw_status := InProgress, rw_rounds := round_after reason task,
          rw_carriedAt := (if carryApproval \<or> reason = RrSuggestions then Some (column_time now) else None),
          rw_lastReturn := Some reason, rw_capAt := None, rw_human := None, rw_claimedAt := Some (column_time now)\<rparr>) db"

definition auto_return_end :: "return_reason \<Rightarrow> bool \<Rightarrow> review_row \<Rightarrow> review_row \<Rightarrow> review_row \<times> bool" where
  "auto_return_end reason reseeded task db =
     (if reseeded then (db, False)
      else cas (\<lambda>r. rw_status r = InProgress \<and> rw_rounds r = round_after reason task)
       (\<lambda>r. r\<lparr>rw_status := Reviewing, rw_rounds := rw_rounds task, rw_carriedAt := rw_carriedAt task,
          rw_lastReturn := rw_lastReturn task, rw_capAt := rw_capAt task, rw_human := rw_human task,
          rw_claimedAt := rw_claimedAt task\<rparr>) db)"

text \<open>The notice of a red check or of new comments on a task whose rounds are spent.\<close>

definition announce_cap :: "int \<Rightarrow> review_row \<Rightarrow> review_row \<times> bool" where
  "announce_cap now db = cas (\<lambda>r. rw_status r = Reviewing) (\<lambda>r. r\<lparr>rw_capAt := Some (column_time now), rw_human := Some HrCap\<rparr>) db"

subsection \<open>Into review, and a new review\<close>

text \<open>
  The transition of a finished worker. \<open>request\<close> is what the host says of a re-review request, read only when an
  approval is carried: none, one, or (\<open>None\<close>) a host that may answer later, which leaves the task for the next tick.
\<close>

definition carries_approval :: "review_row \<Rightarrow> bool" where
  "carries_approval task \<longleftrightarrow> rw_carriedAt task \<noteq> None \<and> hasReviewHandle task \<and> rw_verdictAt task \<noteq> None
     \<and> isApprovingVerdict (rw_verdict task)"

definition to_reviewing :: "bool option \<Rightarrow> int \<Rightarrow> review_row \<Rightarrow> review_row \<Rightarrow> review_row \<times> bool" where
  "to_reviewing request now task db =
     (if carries_approval task \<and> request = None then (db, False)
      else let rereview = (carries_approval task \<and> request = Some True);
               carry = (carries_approval task \<and> \<not> rereview)
        in cas (\<lambda>r. rw_status r = InProgress)
          (\<lambda>r. let r1 = r\<lparr>rw_status := Reviewing, rw_reviewingAt := Some (column_time now),
                   rw_rounds := (if rereview then rw_rounds task + 1 else rw_rounds r), rw_capAt := None, rw_human := None\<rparr>
               in if carry then r1
                  else (clear_run r1)\<lparr>rw_session := None, rw_seedDelivered := None, rw_spawnClaimedAt := None,
                    rw_carriedAt := None, rw_rearms := 0\<rparr>) db)"

definition REVIEW_SPAWN_CLAIM_STALE_MS :: int where "REVIEW_SPAWN_CLAIM_STALE_MS = 10 * 60000"
definition REBASE_ATTEMPT_STALE_MS :: int where "REBASE_ATTEMPT_STALE_MS = 30 * 60000"

text \<open>The candidates of the spawn pass, and its claim.\<close>

definition awaits_reviewer :: "int \<Rightarrow> review_row \<Rightarrow> bool" where
  "awaits_reviewer now row \<longleftrightarrow> rw_status row = Reviewing \<and> rw_session row = None \<and> rw_run row = None
     \<and> (case rw_rebaseStartedAt row of None \<Rightarrow> True | Some t \<Rightarrow> t \<le> column_time (now - REBASE_ATTEMPT_STALE_MS))"

definition claim_spawn :: "int \<Rightarrow> review_row \<Rightarrow> review_row \<times> bool" where
  "claim_spawn now db = cas (\<lambda>r. rw_status r = Reviewing \<and> rw_session r = None \<and> rw_run r = None
       \<and> (case rw_spawnClaimedAt r of None \<Rightarrow> True | Some t \<Rightarrow> t < column_time (now - REVIEW_SPAWN_CLAIM_STALE_MS)))
     (\<lambda>r. r\<lparr>rw_spawnClaimedAt := Some (column_time now)\<rparr>) db"

definition attach_review :: "int \<Rightarrow> bool \<Rightarrow> review_row \<Rightarrow> review_row \<times> bool" where
  "attach_review sessionId delivered db = cas (\<lambda>r. rw_status r = Reviewing)
     (\<lambda>r. r\<lparr>rw_session := Some sessionId, rw_seedDelivered := Some delivered\<rparr>) db"

definition clearReviewSpawnClaim :: "review_row \<Rightarrow> review_row \<times> bool" where
  "clearReviewSpawnClaim db = cas (\<lambda>r. rw_session r = None) (\<lambda>r. r\<lparr>rw_spawnClaimedAt := None\<rparr>) db"

text \<open>A dispatched run, the release of its claim, and the stand-in of a dispatch that was given up.\<close>

definition attach_run :: "string \<Rightarrow> string \<Rightarrow> int \<Rightarrow> review_row \<Rightarrow> review_row \<times> bool" where
  "attach_run runId headSha now db = cas (\<lambda>r. rw_status r = Reviewing \<and> rw_session r = None \<and> rw_run r = None)
     (\<lambda>r. r\<lparr>rw_run := Some runId, rw_runDispatchedAt := Some (column_time now), rw_runHead := Some headSha, rw_spawnClaimedAt := None\<rparr>) db"

definition release_run_claim :: "review_row \<Rightarrow> review_row \<times> bool" where
  "release_run_claim db = cas (\<lambda>r. rw_run r = None) (\<lambda>r. r\<lparr>rw_spawnClaimedAt := None\<rparr>) db"

definition attach_stand_in :: "string \<Rightarrow> int \<Rightarrow> review_row \<Rightarrow> review_row \<times> bool" where
  "attach_stand_in standIn now db = cas (\<lambda>r. rw_status r = Reviewing \<and> rw_session r = None \<and> rw_run r = None)
     (\<lambda>r. r\<lparr>rw_run := Some standIn, rw_runDispatchedAt := Some (column_time now), rw_runHead := None\<rparr>) db"

subsection \<open>Arming a parked task again\<close>

definition drop_review :: "review_row \<Rightarrow> review_row" where
  "drop_review db = (clear_run db)\<lparr>rw_session := None, rw_seedDelivered := None, rw_spawnClaimedAt := None\<rparr>"

text \<open>\<open>reannounceCappedTasksAfterHumanPush\<close> for one task; \<open>head\<close> is the pull request's head in the poller's cache, if it is there.\<close>

definition rearm_capped :: "string option \<Rightarrow> review_row \<Rightarrow> review_row \<Rightarrow> review_row \<times> bool" where
  "rearm_capped head task db =
     (if rw_status task \<noteq> Reviewing \<or> rw_capAt task = None \<or> rw_pr task = None then (db, False)
      else case head of None \<Rightarrow> (db, False)
      | Some h \<Rightarrow> if rw_headSha task = Some h then (db, False)
          else cas (\<lambda>r. rw_status r = Reviewing \<and> rw_capAt r = rw_capAt task)
            (\<lambda>r. (drop_review r)\<lparr>rw_capAt := None, rw_human := None, rw_headSha := Some h\<rparr>) db)"

definition INCONCLUSIVE_REVIEW_REARM_GRACE_MS :: int where "INCONCLUSIVE_REVIEW_REARM_GRACE_MS = 60 * 60000"
definition MAX_AUTOMATIC_INCONCLUSIVE_REARMS :: nat where "MAX_AUTOMATIC_INCONCLUSIVE_REARMS = 1"

definition rearm_candidate :: "nat option \<Rightarrow> int \<Rightarrow> review_row \<Rightarrow> bool" where
  "rearm_candidate cap now task \<longleftrightarrow> rw_status task = Reviewing \<and> rw_verdict task = Some ''inconclusive''
     \<and> ((rw_ingestedSession task \<noteq> None \<and> rw_session task \<noteq> None) \<or> (rw_ingestedRun task \<noteq> None \<and> rw_run task \<noteq> None))
     \<and> rw_capAt task = None \<and> rw_rearms task < MAX_AUTOMATIC_INCONCLUSIVE_REARMS
     \<and> hasReviewHandle task
     \<and> (case rw_verdictAt task of None \<Rightarrow> False | Some t \<Rightarrow> now - t \<ge> INCONCLUSIVE_REVIEW_REARM_GRACE_MS)
     \<and> \<not> cap_reached (rw_rounds task) cap"

text \<open>\<open>reannounceInconclusiveReviewsAfterGrace\<close> for one task: the row, and the session and the run that are then stopped.\<close>

definition rearm_inconclusive :: "nat option \<Rightarrow> int \<Rightarrow> review_row \<Rightarrow> review_row \<Rightarrow> review_row \<times> (int option \<times> string option)" where
  "rearm_inconclusive cap now task db =
     (if \<not> rearm_candidate cap now task then (db, None, None)
      else case cas (\<lambda>r. rw_status r = Reviewing \<and> rw_verdict r = Some ''inconclusive'' \<and> rw_session r = rw_session task
            \<and> rw_run r = rw_run task \<and> rw_rearms r = rw_rearms task)
          (\<lambda>r. (drop_review r)\<lparr>rw_ingestedSession := None, rw_rearms := rw_rearms task + 1\<rparr>) db of
        (db', won) \<Rightarrow> if won then (db', rw_session task, rw_run task) else (db, None, None))"

subsection \<open>What a human does\<close>

text \<open>\<open>POST /re-review\<close>: the row and the session that is killed, or the conflict it answers.\<close>

definition re_review :: "int \<Rightarrow> review_row \<Rightarrow> review_row \<Rightarrow> (review_row \<times> int option) option" where
  "re_review now task db =
     (if rw_status task \<noteq> Reviewing \<or> rw_verdict task = None \<or> \<not> hasReviewHandle task then None
      else let isRun = (rw_run task \<noteq> None) in
        if (if isRun then rw_ingestedRun task = None else rw_ingestedSession task = None) then None
        else case cas (\<lambda>r. rw_status r = Reviewing \<and> rw_verdict r = rw_verdict task \<and> rw_session r = rw_session task \<and> rw_run r = rw_run task
              \<and> (if isRun then rw_ingestedRun r \<noteq> None else rw_ingestedSession r \<noteq> None))
            (\<lambda>r. (drop_review r)\<lparr>rw_ingestedSession := None, rw_reviewingAt := Some (column_time now),
               rw_rearms := rw_rearms task + (if rw_verdict task = Some ''inconclusive'' then 1 else 0)\<rparr>) db of
          (db', won) \<Rightarrow> if won then Some (db', rw_session task) else None)"

definition reject_task :: "int \<Rightarrow> review_row \<Rightarrow> review_row \<times> bool" where
  "reject_task now db = cas (\<lambda>r. rw_status r = Reviewing)
     (\<lambda>r. r\<lparr>rw_status := InProgress, rw_claimedAt := Some (column_time now), rw_capAt := None, rw_human := None, rw_carriedAt := None\<rparr>) db"

definition approve_write :: "int \<Rightarrow> review_row \<Rightarrow> review_row \<times> bool" where
  "approve_write prNumber db = cas (\<lambda>r. rw_status r = Reviewing)
     (\<lambda>r. r\<lparr>rw_status := TaskDone, rw_pr := Some prNumber, rw_rebaseStartedAt := None\<rparr>) db"

text \<open>The adoption of a rebase worker, which makes the review of the old head void.\<close>

definition rebase_started :: "int \<Rightarrow> review_row \<Rightarrow> review_row \<times> bool" where
  "rebase_started now db = cas (\<lambda>r. rw_status r = TaskDone \<or> rw_status r = Reviewing)
     (\<lambda>r. (clear_run r)\<lparr>rw_session := None, rw_ingestedSession := None, rw_rebaseStartedAt := Some (column_time now)\<rparr>) db"

definition rebase_abandoned :: "review_row \<Rightarrow> review_row" where
  "rebase_abandoned db = (clear_run db)\<lparr>rw_session := None\<rparr>"

subsection \<open>A loop that does not converge stops\<close>


text \<open>A task whose first two rounds both leave \<open>a.ts:3\<close> open.\<close>

definition looped_row :: review_row where
  "looped_row = \<lparr>rw_status = Reviewing, rw_rounds = 1, rw_carriedAt = None, rw_lastReturn = Some RrReview, rw_capAt = None, rw_human = None,
     rw_claimedAt = Some 9000, rw_session = Some 5, rw_ingestedSession = Some 4, rw_run = None, rw_runDispatchedAt = None, rw_runHead = None,
     rw_ingestedRun = None, rw_seedDelivered = Some True, rw_spawnClaimedAt = None,
     rw_reviewFindings = Some (append_round None (round_comment demo_js 0 False open_review)), rw_verdict = Some ''changes-requested'',
     rw_verdictAt = Some 8000, rw_headSha = None, rw_rearms = 0, rw_rateLimitAt = None, rw_rebaseStartedAt = None, rw_reviewingAt = Some 9000,
     rw_pr = Some 7, rw_worktree = Some ''w'', rw_agent = Some ''claude''\<rparr>"

definition demo_outcome :: ingest_input where
  "demo_outcome = \<lparr>in_parsed = Some open_review, in_finished = True, in_reason = [], in_now = 20000, in_latch = LatchSession 5, in_head = None,
     in_enabled = True, in_cap = Some 10, in_stallHead = None, in_announceNow = 21000\<rparr>"


text \<open>Two writes in the same second hide the stall: the columns keep no milliseconds, and the claim must be later than the verdict.\<close>

lemma same_second_hides_stall:
  "v div 1000 = c div 1000 \<Longrightarrow>
     detectReviewStall (task\<lparr>rw_verdictAt := Some (column_time v), rw_claimedAt := Some (column_time c)\<rparr>) parsed headSha = None"
  by (simp add: detectReviewStall_def column_time_def)

subsection \<open>A failed return costs nothing\<close>

text \<open>
  A return whose re-seed fails costs nothing. If no one else moves the task between the two writes of an automatic return, the
  rollback restores the row exactly; if someone did (it left \<open>in_progress\<close>), the rollback does nothing, so a decision
  that was taken meanwhile stands.
\<close>

theorem failed_return_costs_nothing:
  assumes "auto_return_begin reason carry now db db = (db1, True)"
  shows "auto_return_end reason False db db1 = (db, True)
    \<and> auto_return_end reason False db (db1\<lparr>rw_status := st\<rparr>) = (if st = InProgress then (db, True) else (db1\<lparr>rw_status := st\<rparr>, False))"
  using assms by (auto simp: auto_return_begin_def auto_return_end_def cas_def split: if_splits)

theorem failed_return_costs_nothing_witness:
  "auto_return_end RrReview False looped_row (fst (auto_return_begin RrReview False 9500 looped_row looped_row)) = (looped_row, True)"
proof -
  have "auto_return_begin RrReview False 9500 looped_row looped_row = (fst (auto_return_begin RrReview False 9500 looped_row looped_row), True)"
    by (simp add: auto_return_begin_def cas_def looped_row_def)
  from failed_return_costs_nothing [OF this] show ?thesis by blast
qed

subsection \<open>A stale marker passes for a result\<close>

text \<open>
  The ingest marker of an earlier session survives the next review's spawn. The sweep for inconclusive reviews and the re-review
  route ask only whether there is a marker, so both stop a review that is still running: here after an inconclusive review
  was rejected by a human and the worker finished again.
\<close>

definition stalled_row :: review_row where
  "stalled_row = looped_row\<lparr>rw_session := Some 4, rw_verdict := Some ''inconclusive'', rw_verdictAt := Some 9000\<rparr>"

definition rejected_and_back :: review_row where
  "rejected_and_back = fst (attach_review 6 True (fst (claim_spawn 4000000 (let r = fst (reject_task 3000000 stalled_row) in
     fst (to_reviewing (Some False) 3900000 r r)))))"

theorem running_review_is_stopped:
  "hasIngestedCurrentReview stalled_row \<and> \<not> hasIngestedCurrentReview rejected_and_back \<and> rw_session rejected_and_back = Some 6
    \<and> snd (rearm_inconclusive (Some 10) 4001000 rejected_and_back rejected_and_back) = (Some 6, None)
    \<and> map_option snd (re_review 4001000 rejected_and_back rejected_and_back) = Some (Some 6)"
  by (simp add: hasIngestedCurrentReview_def rejected_and_back_def stalled_row_def looped_row_def reject_task_def to_reviewing_def
      carries_approval_def claim_spawn_def attach_review_def cas_def clear_run_def column_time_def rearm_inconclusive_def
      rearm_candidate_def hasReviewHandle_def re_review_def Let_def INCONCLUSIVE_REVIEW_REARM_GRACE_MS_def
      MAX_AUTOMATIC_INCONCLUSIVE_REARMS_def cap_reached_def REVIEW_SPAWN_CLAIM_STALE_MS_def)

subsection \<open>Re-reviews are not capped\<close>

text \<open>
  One turn of a worker that asks for a re-review after every suggestions round, whose reviewer again approves with suggestions.
  The request spends a round, but nothing on this way compares the rounds with the cap.
\<close>

definition suggestions_cycle :: "js_env \<Rightarrow> (string \<Rightarrow> bool) \<Rightarrow> ingest_input \<Rightarrow> int \<Rightarrow> review_row \<Rightarrow> review_row" where
  "suggestions_cycle env seedable inp now row =
     (let r1 = fst (auto_return_begin RrSuggestions False now row row);
          r2 = fst (to_reviewing (Some True) now r1 r1);
          r3 = fst (attach_review now True (fst (claim_spawn now r2)))
      in fst (ingestReviewOutcome env seedable r3 (inp\<lparr>in_latch := LatchSession now\<rparr>) r3))"

definition suggesting :: "(string \<Rightarrow> bool) \<Rightarrow> review_row \<Rightarrow> bool" where
  "suggesting seedable row \<longleftrightarrow> rw_status row = Reviewing \<and> rw_verdict row = Some ''approved-with-suggestions''
     \<and> rw_verdictAt row \<noteq> None \<and> rw_session row \<noteq> None \<and> takes_seed seedable row"

lemma suggestions_cycle_round:
  assumes "suggesting seedable row" and "has_verdict inp VSuggestions"
  shows "suggesting seedable (suggestions_cycle env seedable inp now row) \<and> rw_rounds (suggestions_cycle env seedable inp now row) = rw_rounds row + 1"
  using assms
  by (simp add: suggesting_def suggestions_cycle_def auto_return_begin_def to_reviewing_def carries_approval_def hasReviewHandle_def
      isApprovingVerdict_def round_after_def claim_spawn_def attach_review_def ingestReviewOutcome_def ingest_write_def
      latch_is_current_def cas_def Let_def clear_run_def takes_seed_def ingest_verdict_def has_verdict_def split: option.splits)

theorem rereviews_pass_the_cap:
  "suggesting seedable row \<Longrightarrow> has_verdict inp VSuggestions
    \<Longrightarrow> rw_rounds ((suggestions_cycle env seedable inp now ^^ n) row) = rw_rounds row + n
      \<and> suggesting seedable ((suggestions_cycle env seedable inp now ^^ n) row)"
  by (induction n) (simp_all add: suggestions_cycle_round)

text \<open>And the next round is sent whatever the cap: the outcome asks for it even when the rounds are spent.\<close>

lemma suggestions_ignore_cap:
  "wantsSuggestionsRound seedable task inp \<Longrightarrow> rw_status db = Reviewing \<Longrightarrow> in_latch inp = LatchSession k
    \<Longrightarrow> map_option ir_next (snd (ingestReviewOutcome env seedable task (inp\<lparr>in_cap := Some 0\<rparr>) db)) = Some SendSuggestions"
  by (simp add: ingestReviewOutcome_def cas_def latch_is_current_def wantsSuggestionsRound_def has_verdict_def Let_def)

subsection \<open>Whose approval it is\<close>

text \<open>
  The life of a row with what was ingested into it, newest first. Snapshots are arbitrary: the writes must hold up against
  any. A session is attached under an id no session had before, and, like the outcome of a session, only while no run
  is attached (the passes of one tick follow each other, and a claim keeps the two kinds of review apart).
\<close>

record review_life =
  rl_row :: review_row
  rl_next :: int
  rl_log :: "(review_latch \<times> string) list"

definition same_review :: "review_row \<Rightarrow> review_row \<Rightarrow> bool" where
  "same_review a b \<longleftrightarrow> rw_session a = rw_session b \<and> rw_ingestedSession a = rw_ingestedSession b \<and> rw_run a = rw_run b
     \<and> rw_ingestedRun a = rw_ingestedRun b \<and> rw_verdict a = rw_verdict b"

inductive review_step :: "review_life \<Rightarrow> review_life \<Rightarrow> bool" where
  ingest: "ingestReviewOutcome env seedable task inp (rl_row s) = (r, Some res) \<Longrightarrow>
    (case in_latch inp of LatchSession k \<Rightarrow> k < rl_next s \<and> rw_run (rl_row s) = None | LatchRun _ \<Rightarrow> True) \<Longrightarrow>
    review_step s (s\<lparr>rl_row := r, rl_log := (in_latch inp, ir_verdict res) # rl_log s\<rparr>)"
| return_begin: "review_step s (s\<lparr>rl_row := fst (auto_return_begin reason carry now task (rl_row s))\<rparr>)"
| return_end: "review_step s (s\<lparr>rl_row := fst (auto_return_end reason reseeded task (rl_row s))\<rparr>)"
| cap_notice: "review_step s (s\<lparr>rl_row := fst (announce_cap now (rl_row s))\<rparr>)"
| worker_done: "review_step s (s\<lparr>rl_row := fst (to_reviewing request now task (rl_row s))\<rparr>)"
| claim: "review_step s (s\<lparr>rl_row := fst (claim_spawn now (rl_row s))\<rparr>)"
| unclaim: "review_step s (s\<lparr>rl_row := fst (clearReviewSpawnClaim (rl_row s))\<rparr>)"
| spawned: "rw_run (rl_row s) = None \<Longrightarrow>
    review_step s (s\<lparr>rl_row := fst (attach_review (rl_next s) delivered (rl_row s)), rl_next := rl_next s + 1\<rparr>)"
| dispatched: "review_step s (s\<lparr>rl_row := fst (attach_run runId headSha now (rl_row s))\<rparr>)"
| given_up: "review_step s (s\<lparr>rl_row := fst (attach_stand_in runId now (rl_row s))\<rparr>)"
| unclaim_run: "review_step s (s\<lparr>rl_row := fst (release_run_claim (rl_row s))\<rparr>)"
| human_push: "review_step s (s\<lparr>rl_row := fst (rearm_capped headNow task (rl_row s))\<rparr>)"
| rearmed: "review_step s (s\<lparr>rl_row := fst (rearm_inconclusive cap now task (rl_row s))\<rparr>)"
| reviewed_again: "re_review now task (rl_row s) = Some (r, killed) \<Longrightarrow> review_step s (s\<lparr>rl_row := r\<rparr>)"
| rejected: "review_step s (s\<lparr>rl_row := fst (reject_task now (rl_row s))\<rparr>)"
| approved: "review_step s (s\<lparr>rl_row := fst (approve_write prNumber (rl_row s))\<rparr>)"
| rebasing: "review_step s (s\<lparr>rl_row := fst (rebase_started now (rl_row s))\<rparr>)"
| rebase_failed: "review_step s (s\<lparr>rl_row := rebase_abandoned (rl_row s)\<rparr>)"
| elsewhere: "same_review r (rl_row s) \<Longrightarrow> review_step s (s\<lparr>rl_row := r\<rparr>)"

definition unreviewed :: "review_life \<Rightarrow> bool" where
  "unreviewed s \<longleftrightarrow> rw_session (rl_row s) = None \<and> rw_ingestedSession (rl_row s) = None \<and> rw_run (rl_row s) = None
     \<and> rw_ingestedRun (rl_row s) = None"

inductive review_reach :: "review_life \<Rightarrow> bool" where
  start: "unreviewed s \<Longrightarrow> review_reach s"
| advance: "review_reach s \<Longrightarrow> review_step s t \<Longrightarrow> review_reach t"

definition current_latch :: "review_row \<Rightarrow> review_latch \<Rightarrow> bool" where
  "current_latch row latch \<longleftrightarrow> (case latch of LatchSession k \<Rightarrow> rw_session row = Some k | LatchRun r \<Rightarrow> rw_run row = Some r)"

definition review_inv :: "review_life \<Rightarrow> bool" where
  "review_inv s \<longleftrightarrow>
     (let row = rl_row s in
      (\<forall>k. rw_session row = Some k \<longrightarrow> k < rl_next s) \<and> (\<forall>k. rw_ingestedSession row = Some k \<longrightarrow> k < rl_next s)
      \<and> (rw_run row = None \<longrightarrow> rw_ingestedRun row = None) \<and> (rw_session row = None \<or> rw_run row = None)
      \<and> (hasIngestedCurrentReview row \<longrightarrow> rl_log s \<noteq> [] \<and> current_latch row (fst (hd (rl_log s)))
          \<and> rw_verdict row = Some (snd (hd (rl_log s)))))"

text \<open>Writes that leave the review alone, and writes that drop it.\<close>

lemma inv_same: "review_inv s \<Longrightarrow> same_review r (rl_row s) \<Longrightarrow> review_inv (s\<lparr>rl_row := r\<rparr>)"
  by (simp add: review_inv_def same_review_def hasIngestedCurrentReview_def current_latch_def Let_def split: review_latch.splits)

lemma same_writes:
  "same_review (fst (auto_return_begin reason carry now task r)) r"
  "same_review (fst (auto_return_end reason reseeded task r)) r"
  "same_review (fst (announce_cap now r)) r"
  "same_review (fst (claim_spawn now r)) r"
  "same_review (fst (clearReviewSpawnClaim r)) r"
  "same_review (fst (release_run_claim r)) r"
  "same_review (fst (reject_task now r)) r"
  "same_review (fst (approve_write prNumber r)) r"
  by (simp_all add: same_review_def auto_return_begin_def auto_return_end_def announce_cap_def claim_spawn_def
      clearReviewSpawnClaim_def release_run_claim_def reject_task_def approve_write_def cas_def)

definition dropped :: "review_row \<Rightarrow> review_row \<Rightarrow> bool" where
  "dropped a b \<longleftrightarrow> rw_session a = None \<and> rw_run a = None \<and> rw_ingestedRun a = None
     \<and> (rw_ingestedSession a = None \<or> rw_ingestedSession a = rw_ingestedSession b)"

lemma inv_dropped: "review_inv s \<Longrightarrow> dropped r (rl_row s) \<Longrightarrow> review_inv (s\<lparr>rl_row := r\<rparr>)"
  by (auto simp: review_inv_def dropped_def hasIngestedCurrentReview_def Let_def)

lemma inv_either: "review_inv s \<Longrightarrow> same_review r (rl_row s) \<or> dropped r (rl_row s) \<Longrightarrow> review_inv (s\<lparr>rl_row := r\<rparr>)"
  using inv_same inv_dropped by blast

lemma dropping_writes:
  "same_review (fst (to_reviewing request now task r)) r \<or> dropped (fst (to_reviewing request now task r)) r"
  "same_review (fst (rearm_capped headNow task r)) r \<or> dropped (fst (rearm_capped headNow task r)) r"
  "same_review (fst (rearm_inconclusive cap now task r)) r \<or> dropped (fst (rearm_inconclusive cap now task r)) r"
  "same_review (fst (rebase_started now r)) r \<or> dropped (fst (rebase_started now r)) r"
  "same_review (rebase_abandoned r) r \<or> dropped (rebase_abandoned r) r"
  "re_review now task r = Some (r', killed) \<Longrightarrow> dropped r' r"
  by (auto simp: same_review_def dropped_def to_reviewing_def rearm_capped_def rearm_inconclusive_def rebase_started_def rebase_abandoned_def
      re_review_def cas_def Let_def clear_run_def drop_review_def split: option.splits if_splits)

lemma inv_ingest:
  assumes "review_inv s" and "ingestReviewOutcome env seedable task inp (rl_row s) = (r, Some res)"
    and "case in_latch inp of LatchSession k \<Rightarrow> k < rl_next s \<and> rw_run (rl_row s) = None | LatchRun _ \<Rightarrow> True"
  shows "review_inv (s\<lparr>rl_row := r, rl_log := (in_latch inp, ir_verdict res) # rl_log s\<rparr>)"
proof -
  have w: "r = ingest_write env seedable task inp (rl_row s)" "ir_verdict res = ingest_verdict inp" "latch_is_current (in_latch inp) (rl_row s)"
    using assms(2) by (auto simp: ingestReviewOutcome_def cas_def Let_def split: if_splits)
  show ?thesis
    using assms(1,3) w(2,3) unfolding w(1)
    by (cases "in_latch inp")
      (auto simp: review_inv_def ingest_write_def hasIngestedCurrentReview_def current_latch_def latch_is_current_def Let_def)
qed

lemma inv_spawned:
  "review_inv s \<Longrightarrow> rw_run (rl_row s) = None
    \<Longrightarrow> review_inv (s\<lparr>rl_row := fst (attach_review (rl_next s) delivered (rl_row s)), rl_next := rl_next s + 1\<rparr>)"
  by (auto simp: review_inv_def attach_review_def cas_def hasIngestedCurrentReview_def current_latch_def Let_def
      less_le split: review_latch.splits)

lemma inv_dispatched:
  "review_inv s \<Longrightarrow> review_inv (s\<lparr>rl_row := fst (attach_run runId headSha now (rl_row s))\<rparr>)"
  "review_inv s \<Longrightarrow> review_inv (s\<lparr>rl_row := fst (attach_stand_in runId now (rl_row s))\<rparr>)"
  by (auto simp: review_inv_def attach_run_def attach_stand_in_def cas_def hasIngestedCurrentReview_def Let_def)

lemma review_inv_step: "review_step s t \<Longrightarrow> review_inv s \<Longrightarrow> review_inv t"
proof (induction rule: review_step.induct)
  case (ingest env seedable task inp s r res)
  then show ?case by (intro inv_ingest)
next
  case (spawned s delivered)
  then show ?case by (intro inv_spawned)
next
  case (reviewed_again now task s r killed)
  then show ?case by (intro inv_dropped dropping_writes(6))
qed ((intro inv_same same_writes; assumption) | (intro inv_either dropping_writes; assumption) | (intro inv_dispatched; assumption))+

text \<open>
  C38: An approval is always that of the review the task has now. In every state that any order of spawns, dispatches,
  outcomes, returns, re-arms, re-reviews, rejections, approvals and rebases can bring about, each with any stale snapshot, a task
  the board shows as approved, or the sweep may approve, is under review, its newest ingested outcome is an approval, and that
  outcome is of the very session or run that the row points at.
\<close>

theorem approval_is_of_current_review:
  assumes "review_reach s" and "deriveApprovalState (rl_row s) projectAutoApprove enabled \<noteq> None"
  shows "rw_status (rl_row s) = Reviewing \<and> rl_log s \<noteq> [] \<and> isApprovingVerdict (Some (snd (hd (rl_log s))))
    \<and> current_latch (rl_row s) (fst (hd (rl_log s)))"
proof -
  have "review_inv s" using assms(1)
  proof (induction rule: review_reach.induct)
    case (start s)
    then show ?case by (simp add: review_inv_def unreviewed_def hasIngestedCurrentReview_def)
  next
    case (advance s t)
    then show ?case by (blast intro: review_inv_step)
  qed
  then show ?thesis using assms(2) by (auto simp: review_inv_def deriveApprovalState_def Let_def split: if_splits)
qed

definition clean_review :: parsed_review where
  "clean_review = (freeform_review [])\<lparr>pv_verdict := VApproved, pv_structured := True\<rparr>"

theorem approval_is_of_current_review_witness:
  "\<exists>s :: review_life. deriveApprovalState (rl_row s) False True = Some AwaitingHuman \<and> rw_session (rl_row s) = Some 5
    \<and> isApprovingVerdict (Some (snd (hd (rl_log s)))) \<and> current_latch (rl_row s) (fst (hd (rl_log s)))"
proof -
  define s0 where "s0 = \<lparr>rl_row = looped_row\<lparr>rw_session := None, rw_ingestedSession := None\<rparr>, rl_next = 5, rl_log = []\<rparr>"
  define s1 where "s1 = s0\<lparr>rl_row := fst (attach_review (rl_next s0) True (rl_row s0)), rl_next := rl_next s0 + 1\<rparr>"
  let ?inp = "demo_outcome\<lparr>in_parsed := Some clean_review\<rparr>"
  obtain r res where o': "ingestReviewOutcome demo_js (\<lambda>_. True) looped_row ?inp (rl_row s1) = (r, Some res)"
    and r: "rw_session r = Some 5" "rw_ingestedSession r = Some 5" "rw_status r = Reviewing" "rw_verdict r = Some ''approved''"
    by (simp add: s1_def s0_def attach_review_def cas_def looped_row_def ingestReviewOutcome_def demo_outcome_def latch_is_current_def
        ingest_write_def Let_def ingest_verdict_def clean_review_def)
  define s2 where "s2 = s1\<lparr>rl_row := r, rl_log := (in_latch ?inp, ir_verdict res) # rl_log s1\<rparr>"
  have "review_reach s0" by (intro start) (simp add: s0_def unreviewed_def looped_row_def)
  moreover have "review_step s0 s1" unfolding s1_def by (intro spawned) (simp add: s0_def looped_row_def)
  moreover have "review_step s1 s2" unfolding s2_def
    by (intro ingest [OF o']) (simp add: demo_outcome_def s1_def s0_def attach_review_def cas_def looped_row_def)
  ultimately have reach: "review_reach s2" by (meson advance)
  have a: "deriveApprovalState (rl_row s2) False True = Some AwaitingHuman"
    using r by (simp add: s2_def deriveApprovalState_def hasIngestedCurrentReview_def isApprovingVerdict_def)
  then have "deriveApprovalState (rl_row s2) False True \<noteq> None" by simp
  note approved = approval_is_of_current_review [OF reach this]
  have "rw_session (rl_row s2) = Some 5" using r(1) by (simp add: s2_def)
  then show ?thesis using approved a by blast
qed

end
