(* ===== verification/HookProtocol.thy ===== *)
theory HookProtocol
  imports Prelude
begin

section \<open>The hook message protocol\<close>

text \<open>
  \<open>src/services/hook-protocol.ts\<close>: the messages an agent's hooks send, one JSON object per line, and the
  parser that accepts or rejects them. A validator builds its message from a whitelist of fields; an
  unrecognised \<open>kind\<close> is passed through verbatim. A line is what its text parses to
  (the members of an object in the order of the text), a text a \<open>string\<close>, a number an integer (a fractional \<open>exitCode\<close> is
  rejected by the source and has no value here); \<open>None\<close> in place of the parsed line is malformed JSON.
  A result is \<open>Inl\<close> the error text or \<open>Inr\<close> the message.
\<close>

subsection \<open>Messages\<close>

datatype progress_phase = Thinking | Generating | TurnDone
datatype file_action = Modify | Create | Delete
datatype gate_wire = WireWaiting | WireApproved | WireDenied
datatype edge = Started | Finished
datatype compact_trigger = Manual | Auto
datatype todo_status = TPending | TInProgress | TCompleted | TCancelled
datatype todo_priority = High | Medium | Low

record diff_file =
  df_file :: string
  df_additions :: int
  df_deletions :: int
  df_patch :: "string option"

datatype hook_message =
    HNotification (hm_title: string) (hm_body: string)
  | HProgress progress_phase "string option" "json list option" "string option" "bool option"
  | HFileChange string file_action "string option" "string option"
  | HReviewGate gate_wire string "string option"
  | HPromoteRequest string "string option"
  | HSessionStart "string option" "string option"
  | HNotificationResolved
  | HPermissionRequest string string
  | HToolDone string
  | HStopFailure string "string option" "string option"
  | HToolFailure string string "string option" "string option" "string option"
  | HSessionEnd string "int option"
  | HPlanReady string "string option" "string option"
  | HGitBranch string "string option"
  | HCwdChanged string "string option"
  | HAgentSession string
  | HTurnStart "string option"
  | HCompact edge "compact_trigger option"
  | HSubagent edge "string option" "string option" "string option" "json list option"
  | HElicitation edge "string option"
  | HQuestion edge "string option" "string option" "(string \<times> string) option"
  | HTodo string todo_status todo_priority
  | HSessionDiff "diff_file list"
  | HPermissionResolved
  | HPlanResolved
  | HBrowserAction jobject
  | HGithubToken
  | HUnknown jobject

text \<open>\<open>turnEndMeansWorkFinished\<close>: an absent source falls back to the wakeups, an unknown one is done.\<close>

definition turnEndMeansWorkFinished :: "string option \<Rightarrow> bool \<Rightarrow> bool" where
  "turnEndMeansWorkFinished source wakeupsPending = (case source of
       None \<Rightarrow> \<not> wakeupsPending
     | Some s \<Rightarrow> if s \<in> {''user'', ''sdk''} then True
         else if s \<in> {''loop_wakeup'', ''schedule_wakeup'', ''poll_event'', ''system''} then \<not> wakeupsPending
         else True)"

subsection \<open>Reading fields\<close>

definition andThen :: "'e + 'a \<Rightarrow> ('a \<Rightarrow> 'e + 'b) \<Rightarrow> 'e + 'b" where
  "andThen r f = (case r of Inl e \<Rightarrow> Inl e | Inr x \<Rightarrow> f x)"

lemma andThen_simps [simp]: "andThen (Inl e) f = Inl e" "andThen (Inr x) f = f x"
  by (simp_all add: andThen_def)

lemma andThen_Inr: "andThen r f = Inr y \<longleftrightarrow> (\<exists>x. r = Inr x \<and> f x = Inr y)"
  by (cases r) auto

lemma isl_andThen: "isl (andThen r f) \<longleftrightarrow> isl r \<or> isl (f (projr r))"
  by (cases r) auto

text \<open>The object \<open>JSON.parse\<close> returns for the members of a text: of a repeated key the last value counts.\<close>

definition object_of :: "(string \<times> json) list \<Rightarrow> jobject" where
  "object_of ms = spread [] ms"

text \<open>\<open>isString(payload.k) ? payload.k : undefined\<close>.\<close>

definition text_field :: "jobject \<Rightarrow> string \<Rightarrow> string option" where
  "text_field fs k = (case jm_get fs k of Some (JStr s) \<Rightarrow> Some s | _ \<Rightarrow> None)"

definition required_text :: "jobject \<Rightarrow> string \<Rightarrow> string \<Rightarrow> string + string" where
  "required_text fs k err = (case text_field fs k of Some s \<Rightarrow> Inr s | None \<Rightarrow> Inl err)"

definition nonempty_text :: "jobject \<Rightarrow> string \<Rightarrow> string \<Rightarrow> string + string" where
  "nonempty_text fs k err = (case text_field fs k of Some s \<Rightarrow> if s = [] then Inl err else Inr s | None \<Rightarrow> Inl err)"

text \<open>A field that may be missing and is an error when it is present and no string (\<open>null\<close> included).\<close>

definition optional_text :: "jobject \<Rightarrow> string \<Rightarrow> string \<Rightarrow> string + string option" where
  "optional_text fs k err = (case jm_get fs k of None \<Rightarrow> Inr None | Some (JStr s) \<Rightarrow> Inr (Some s) | Some _ \<Rightarrow> Inl err)"

text \<open>A truthy string, or nothing.\<close>

definition nonempty_or_dropped :: "string option \<Rightarrow> string option" where
  "nonempty_or_dropped s = (if s = Some [] then None else s)"

definition isPlainObject :: "json \<Rightarrow> bool" where
  "isPlainObject v = (case v of JObj _ \<Rightarrow> True | _ \<Rightarrow> False)"

definition validateBackgroundTasksField :: "string \<Rightarrow> json \<Rightarrow> string + json list" where
  "validateBackgroundTasksField kind v = (case v of
       JArr xs \<Rightarrow> Inr (filter isPlainObject xs)
     | _ \<Rightarrow> Inl (kind @ '' requires 'backgroundTasks' to be an array when present''))"

definition optional_tasks :: "string \<Rightarrow> jobject \<Rightarrow> string + json list option" where
  "optional_tasks kind fs = (case jm_get fs ''backgroundTasks'' of
       None \<Rightarrow> Inr None
     | Some v \<Rightarrow> andThen (validateBackgroundTasksField kind v) (\<lambda>ts. Inr (Some ts)))"

definition MAX_AGENT_FIELD_LEN :: nat where "MAX_AGENT_FIELD_LEN = 128"

definition isValidAgentField :: "string \<Rightarrow> bool" where
  "isValidAgentField s \<longleftrightarrow> 0 < length s \<and> length s \<le> MAX_AGENT_FIELD_LEN"

text \<open>The two attribution fields; a malformed value is dropped.\<close>

definition agent_field :: "jobject \<Rightarrow> string \<Rightarrow> string option" where
  "agent_field fs k = (case text_field fs k of Some s \<Rightarrow> if isValidAgentField s then Some s else None | None \<Rightarrow> None)"

definition parseAgentEnvelope :: "jobject \<Rightarrow> string option \<times> string option" where
  "parseAgentEnvelope fs = (agent_field fs ''agentId'', agent_field fs ''agentType'')"

text \<open>A field that is one of a union of literals.\<close>

definition literal :: "(string \<times> 'a) list \<Rightarrow> json option \<Rightarrow> 'a option" where
  "literal table v = (case v of Some (JStr s) \<Rightarrow> map_of table s | _ \<Rightarrow> None)"

definition required_literal :: "(string \<times> 'a) list \<Rightarrow> jobject \<Rightarrow> string \<Rightarrow> string \<Rightarrow> string + 'a" where
  "required_literal table fs k err = (case literal table (jm_get fs k) of Some x \<Rightarrow> Inr x | None \<Rightarrow> Inl err)"

definition PHASES :: "(string \<times> progress_phase) list" where
  "PHASES = [(''thinking'', Thinking), (''generating'', Generating), (''done'', TurnDone)]"

definition FILE_ACTIONS :: "(string \<times> file_action) list" where
  "FILE_ACTIONS = [(''modify'', Modify), (''create'', Create), (''delete'', Delete)]"

definition GATE_STATES :: "(string \<times> gate_wire) list" where
  "GATE_STATES = [(''waiting'', WireWaiting), (''approved'', WireApproved), (''denied'', WireDenied)]"

definition EDGES :: "(string \<times> edge) list" where
  "EDGES = [(''started'', Started), (''finished'', Finished)]"

definition TRIGGERS :: "(string \<times> compact_trigger) list" where
  "TRIGGERS = [(''manual'', Manual), (''auto'', Auto)]"

definition TODO_STATUSES :: "(string \<times> todo_status) list" where
  "TODO_STATUSES = [(''pending'', TPending), (''in_progress'', TInProgress), (''completed'', TCompleted), (''cancelled'', TCancelled)]"

definition TODO_PRIORITIES :: "(string \<times> todo_priority) list" where
  "TODO_PRIORITIES = [(''high'', High), (''medium'', Medium), (''low'', Low)]"

subsection \<open>Validators\<close>

type_synonym validator = "jobject \<Rightarrow> string + hook_message"

definition validateNotification :: validator where
  "validateNotification fs = (case (text_field fs ''title'', text_field fs ''body'') of
       (Some t, Some b) \<Rightarrow> Inr (HNotification t b)
     | _ \<Rightarrow> Inl ''notification requires string 'title' and 'body' fields'')"

definition optional_wakeups :: "jobject \<Rightarrow> string + bool option" where
  "optional_wakeups fs = (case jm_get fs ''wakeupsPending'' of
       None \<Rightarrow> Inr None
     | Some (JBool b) \<Rightarrow> Inr (Some b)
     | Some _ \<Rightarrow> Inl ''progress requires 'wakeupsPending' to be a boolean when present'')"

definition validateProgress :: validator where
  "validateProgress fs =
     andThen (required_literal PHASES fs ''phase'' ''progress requires 'phase' to be thinking|generating|done'') (\<lambda>p.
     andThen (optional_text fs ''lastAssistantMessage''
       ''progress requires 'lastAssistantMessage' to be a string when present'') (\<lambda>l.
     andThen (optional_tasks ''progress'' fs) (\<lambda>ts.
     andThen (optional_text fs ''detail'' ''progress requires 'detail' to be a string when present'') (\<lambda>d.
     andThen (optional_wakeups fs) (\<lambda>w. Inr (HProgress p l ts d w))))))"

definition validateFileChange :: validator where
  "validateFileChange fs =
     andThen (required_text fs ''path'' ''file_change requires a string 'path' field'') (\<lambda>p.
     andThen (required_literal FILE_ACTIONS fs ''action'' ''file_change requires 'action' to be modify|create|delete'') (\<lambda>a.
     Inr (HFileChange p a (fst (parseAgentEnvelope fs)) (snd (parseAgentEnvelope fs)))))"

definition validateReviewGate :: validator where
  "validateReviewGate fs =
     andThen (required_literal GATE_STATES fs ''state'' ''review_gate requires 'state' to be waiting|approved|denied'') (\<lambda>st.
     andThen (required_text fs ''prompt'' ''review_gate requires a string 'prompt' field'') (\<lambda>p.
     Inr (HReviewGate st p (nonempty_or_dropped (text_field fs ''gateId'')))))"

definition validatePromoteRequest :: validator where
  "validatePromoteRequest fs =
     andThen (required_text fs ''summary'' ''promote_request requires a string 'summary' field'') (\<lambda>s.
     Inr (HPromoteRequest s (text_field fs ''suggestedBaseRef'')))"

definition validateSessionStart :: validator where
  "validateSessionStart fs =
     andThen (optional_text fs ''source'' ''session_start requires 'source' to be a string when present'') (\<lambda>s.
     andThen (optional_text fs ''transcriptPath'' ''session_start requires 'transcriptPath' to be a string when present'') (\<lambda>t.
     Inr (HSessionStart s t)))"

definition validatePermissionRequest :: validator where
  "validatePermissionRequest fs =
     andThen (required_text fs ''tool'' ''permission_request requires a string 'tool' field'') (\<lambda>t.
     andThen (required_text fs ''summary'' ''permission_request requires a string 'summary' field'') (\<lambda>s.
     Inr (HPermissionRequest t s)))"

definition validateToolDone :: validator where
  "validateToolDone fs =
     andThen (required_text fs ''tool'' ''tool_done requires a string 'tool' field'') (\<lambda>t. Inr (HToolDone t))"

definition validateStopFailure :: validator where
  "validateStopFailure fs =
     andThen (required_text fs ''error'' ''stop_failure requires a string 'error' field'') (\<lambda>e.
     Inr (HStopFailure e (text_field fs ''errorDetails'') (text_field fs ''errorType'')))"

definition validateToolFailure :: validator where
  "validateToolFailure fs =
     andThen (required_text fs ''tool'' ''tool_failure requires a string 'tool' field'') (\<lambda>t.
     andThen (required_text fs ''error'' ''tool_failure requires a string 'error' field'') (\<lambda>e.
     andThen (optional_text fs ''summary'' ''tool_failure requires 'summary' to be a string when present'') (\<lambda>s.
     Inr (HToolFailure t e s (fst (parseAgentEnvelope fs)) (snd (parseAgentEnvelope fs))))))"

definition optional_exitCode :: "jobject \<Rightarrow> string + int option" where
  "optional_exitCode fs = (case jm_get fs ''exitCode'' of
       None \<Rightarrow> Inr None
     | Some (JNum n) \<Rightarrow> Inr (Some n)
     | Some _ \<Rightarrow> Inl ''session_end requires 'exitCode' to be an integer when present'')"

definition validateSessionEnd :: validator where
  "validateSessionEnd fs =
     andThen (required_text fs ''reason'' ''session_end requires a string 'reason' field'') (\<lambda>r.
     andThen (optional_exitCode fs) (\<lambda>c. Inr (HSessionEnd r c)))"

definition validatePlanReady :: validator where
  "validatePlanReady fs =
     andThen (required_text fs ''plan'' ''plan_ready requires a string 'plan' field'') (\<lambda>p.
     andThen (optional_text fs ''filePath'' ''plan_ready requires 'filePath' to be a string when present'') (\<lambda>f.
     andThen (optional_text fs ''summary'' ''plan_ready requires 'summary' to be a string when present'') (\<lambda>s.
     Inr (HPlanReady p f s))))"

definition validateGitBranch :: validator where
  "validateGitBranch fs =
     andThen (nonempty_text fs ''branch'' ''git_branch requires a non-empty string 'branch' field'') (\<lambda>b.
     Inr (HGitBranch b (nonempty_or_dropped (text_field fs ''worktree''))))"

definition validateCwdChanged :: validator where
  "validateCwdChanged fs =
     andThen (nonempty_text fs ''cwd'' ''cwd_changed requires a non-empty string 'cwd' field'') (\<lambda>c.
     andThen (optional_text fs ''transcriptPath'' ''cwd_changed requires 'transcriptPath' to be a string when present'') (\<lambda>t.
     Inr (HCwdChanged c (nonempty_or_dropped t))))"

definition validateAgentSession :: validator where
  "validateAgentSession fs =
     andThen (nonempty_text fs ''sessionId'' ''agent_session requires a non-empty string 'sessionId' field'') (\<lambda>s.
     Inr (HAgentSession s))"

definition validateTurnStart :: validator where
  "validateTurnStart fs =
     andThen (optional_text fs ''promptSource'' ''turn_start requires 'promptSource' to be a string when present'') (\<lambda>s.
     Inr (HTurnStart s))"

definition validateStartedFinished :: "string \<Rightarrow> jobject \<Rightarrow> string + edge" where
  "validateStartedFinished kind fs =
     required_literal EDGES fs ''state'' (kind @ '' requires 'state' to be started|finished'')"

definition optional_trigger :: "jobject \<Rightarrow> string + compact_trigger option" where
  "optional_trigger fs = (case jm_get fs ''trigger'' of
       None \<Rightarrow> Inr None
     | Some v \<Rightarrow> (case literal TRIGGERS (Some v) of
           Some t \<Rightarrow> Inr (Some t)
         | None \<Rightarrow> Inl ''compact requires 'trigger' to be manual|auto when present''))"

definition validateCompact :: validator where
  "validateCompact fs =
     andThen (validateStartedFinished ''compact'' fs) (\<lambda>e.
     andThen (optional_trigger fs) (\<lambda>t. Inr (HCompact e t)))"

definition validateSubagent :: validator where
  "validateSubagent fs =
     andThen (validateStartedFinished ''subagent'' fs) (\<lambda>e.
     andThen (optional_text fs ''summary'' ''subagent requires 'summary' to be a string when present'') (\<lambda>s.
     andThen (optional_tasks ''subagent'' fs) (\<lambda>ts.
     Inr (HSubagent e (snd (parseAgentEnvelope fs)) (fst (parseAgentEnvelope fs)) s ts))))"

definition validateElicitation :: validator where
  "validateElicitation fs =
     andThen (validateStartedFinished ''elicitation'' fs) (\<lambda>e.
     andThen (optional_text fs ''server'' ''elicitation requires 'server' to be a string when present'') (\<lambda>s.
     Inr (HElicitation e s)))"

text \<open>The tool call a question blocks. An array is an object without these fields.\<close>

definition optional_tool :: "jobject \<Rightarrow> string + (string \<times> string) option" where
  "optional_tool fs = (case jm_get fs ''tool'' of
       None \<Rightarrow> Inr None
     | Some (JObj t) \<Rightarrow> (case (text_field (object_of t) ''messageID'', text_field (object_of t) ''callID'') of
           (Some m, Some c) \<Rightarrow> Inr (Some (m, c))
         | _ \<Rightarrow> Inl ''question requires 'tool' to be { messageID, callID } when present'')
     | Some _ \<Rightarrow> Inl ''question requires 'tool' to be { messageID, callID } when present'')"

definition validateQuestion :: validator where
  "validateQuestion fs =
     andThen (validateStartedFinished ''question'' fs) (\<lambda>e.
     andThen (optional_text fs ''header'' ''question requires 'header' to be a string when present'') (\<lambda>h.
     andThen (optional_text fs ''summary'' ''question requires 'summary' to be a string when present'') (\<lambda>s.
     andThen (optional_tool fs) (\<lambda>t. Inr (HQuestion e h s t)))))"

definition validateTodo :: validator where
  "validateTodo fs =
     andThen (required_text fs ''content'' ''todo requires a string 'content' field'') (\<lambda>c.
     andThen (required_literal TODO_STATUSES fs ''status''
       ''todo requires 'status' to be pending|in_progress|completed|cancelled'') (\<lambda>st.
     andThen (optional_text fs ''priority'' ''todo requires 'priority' to be a string when present'') (\<lambda>p.
     Inr (HTodo c st (case literal TODO_PRIORITIES (map_option JStr p) of Some q \<Rightarrow> q | None \<Rightarrow> Medium)))))"

definition count_field :: "jobject \<Rightarrow> string \<Rightarrow> int" where
  "count_field fs k = (case jm_get fs k of Some (JNum n) \<Rightarrow> n | _ \<Rightarrow> 0)"

definition diff_entry :: "json \<Rightarrow> diff_file option" where
  "diff_entry v = (case v of
       JObj ms \<Rightarrow> (let fs = object_of ms in case nonempty_or_dropped (text_field fs ''file'') of
           None \<Rightarrow> None
         | Some f \<Rightarrow> Some \<lparr>df_file = f, df_additions = count_field fs ''additions'', df_deletions = count_field fs ''deletions'',
             df_patch = nonempty_or_dropped (text_field fs ''patch'')\<rparr>)
     | _ \<Rightarrow> None)"

definition validateSessionDiff :: validator where
  "validateSessionDiff fs = (case jm_get fs ''files'' of
       Some (JArr (x # xs)) \<Rightarrow> (case List.map_filter diff_entry (x # xs) of
           [] \<Rightarrow> Inl ''session_diff requires at least one valid file entry with a non-empty 'file' string''
         | files \<Rightarrow> Inr (HSessionDiff files))
     | _ \<Rightarrow> Inl ''session_diff requires a non-empty array 'files' field'')"

definition KNOWN_BROWSER_ACTIONS :: "string set" where
  "KNOWN_BROWSER_ACTIONS = {''navigate'', ''click'', ''press'', ''type'', ''select'', ''check'', ''uncheck'', ''wait'', ''dialog'',
     ''hover'', ''scroll'', ''get'', ''console'', ''errors'', ''find'', ''fill'', ''snapshot'', ''eval'', ''screenshot'', ''download''}"

definition validateBrowserAction :: validator where
  "validateBrowserAction fs =
     andThen (required_text fs ''action'' ''browser_action requires a string 'action' field'') (\<lambda>a.
     if a \<notin> KNOWN_BROWSER_ACTIONS then Inl (''unknown browser_action: '' @ a)
     else Inr (HBrowserAction (spread [(''kind'', JStr ''browser_action'')] fs)))"

subsection \<open>Parsing a line\<close>

text \<open>The switch over the recognised kinds, in the order the source lists them.\<close>

definition VALIDATORS :: "(string \<times> validator) list" where
  "VALIDATORS =
    [(''notification'', validateNotification), (''progress'', validateProgress), (''file_change'', validateFileChange),
     (''review_gate'', validateReviewGate), (''promote_request'', validatePromoteRequest),
     (''session_start'', validateSessionStart), (''notification_resolved'', \<lambda>_. Inr HNotificationResolved),
     (''permission_request'', validatePermissionRequest), (''tool_done'', validateToolDone),
     (''stop_failure'', validateStopFailure), (''tool_failure'', validateToolFailure), (''session_end'', validateSessionEnd),
     (''plan_ready'', validatePlanReady), (''git_branch'', validateGitBranch), (''cwd_changed'', validateCwdChanged),
     (''agent_session'', validateAgentSession), (''turn_start'', validateTurnStart), (''compact'', validateCompact),
     (''subagent'', validateSubagent), (''elicitation'', validateElicitation), (''question'', validateQuestion),
     (''todo'', validateTodo), (''session_diff'', validateSessionDiff), (''permission_resolved'', \<lambda>_. Inr HPermissionResolved),
     (''plan_resolved'', \<lambda>_. Inr HPlanResolved), (''browser_action'', validateBrowserAction),
     (''github_token'', \<lambda>_. Inr HGithubToken)]"

definition dispatch_kind :: "string \<Rightarrow> validator" where
  "dispatch_kind kind fs = (case map_of VALIDATORS kind of Some v \<Rightarrow> v fs | None \<Rightarrow> Inr (HUnknown fs))"

definition parseHookMessage :: "json option \<Rightarrow> string + hook_message" where
  "parseHookMessage line = (case line of
       None \<Rightarrow> Inl ''malformed JSON''
     | Some (JObj ms) \<Rightarrow> (let fs = object_of ms in
         andThen (nonempty_text fs ''kind'' ''message must have a non-empty string 'kind' field'') (\<lambda>kind. dispatch_kind kind fs))
     | Some _ \<Rightarrow> Inl ''message must be a JSON object'')"

subsection \<open>What a sender writes\<close>

text \<open>The object a hook writes for a message: absent fields are left out.\<close>

definition opt_kv :: "string \<Rightarrow> ('a \<Rightarrow> json) \<Rightarrow> 'a option \<Rightarrow> jobject" where
  "opt_kv k f v = (case v of None \<Rightarrow> [] | Some x \<Rightarrow> [(k, f x)])"

fun phase_name :: "progress_phase \<Rightarrow> string" where
  "phase_name Thinking = ''thinking''"
| "phase_name Generating = ''generating''"
| "phase_name TurnDone = ''done''"

fun action_name :: "file_action \<Rightarrow> string" where
  "action_name Modify = ''modify''"
| "action_name Create = ''create''"
| "action_name Delete = ''delete''"

fun gate_name :: "gate_wire \<Rightarrow> string" where
  "gate_name WireWaiting = ''waiting''"
| "gate_name WireApproved = ''approved''"
| "gate_name WireDenied = ''denied''"

fun edge_name :: "edge \<Rightarrow> string" where
  "edge_name Started = ''started''"
| "edge_name Finished = ''finished''"

fun trigger_name :: "compact_trigger \<Rightarrow> string" where
  "trigger_name Manual = ''manual''"
| "trigger_name Auto = ''auto''"

fun todo_status_name :: "todo_status \<Rightarrow> string" where
  "todo_status_name TPending = ''pending''"
| "todo_status_name TInProgress = ''in_progress''"
| "todo_status_name TCompleted = ''completed''"
| "todo_status_name TCancelled = ''cancelled''"

fun priority_name :: "todo_priority \<Rightarrow> string" where
  "priority_name High = ''high''"
| "priority_name Medium = ''medium''"
| "priority_name Low = ''low''"

definition diff_json :: "diff_file \<Rightarrow> json" where
  "diff_json f = JObj ([(''file'', JStr (df_file f)), (''additions'', JNum (df_additions f)), (''deletions'', JNum (df_deletions f))]
     @ opt_kv ''patch'' JStr (df_patch f))"

definition agent_kvs :: "string option \<Rightarrow> string option \<Rightarrow> jobject" where
  "agent_kvs agentId agentType = opt_kv ''agentId'' JStr agentId @ opt_kv ''agentType'' JStr agentType"

fun message_kind :: "hook_message \<Rightarrow> string" where
  "message_kind (HNotification t b) = ''notification''"
| "message_kind (HProgress p l ts d w) = ''progress''"
| "message_kind (HFileChange p a i t) = ''file_change''"
| "message_kind (HReviewGate st p g) = ''review_gate''"
| "message_kind (HPromoteRequest s b) = ''promote_request''"
| "message_kind (HSessionStart s t) = ''session_start''"
| "message_kind HNotificationResolved = ''notification_resolved''"
| "message_kind (HPermissionRequest t s) = ''permission_request''"
| "message_kind (HToolDone t) = ''tool_done''"
| "message_kind (HStopFailure e d t) = ''stop_failure''"
| "message_kind (HToolFailure t e s i ty) = ''tool_failure''"
| "message_kind (HSessionEnd r c) = ''session_end''"
| "message_kind (HPlanReady p f s) = ''plan_ready''"
| "message_kind (HGitBranch b w) = ''git_branch''"
| "message_kind (HCwdChanged c t) = ''cwd_changed''"
| "message_kind (HAgentSession s) = ''agent_session''"
| "message_kind (HTurnStart s) = ''turn_start''"
| "message_kind (HCompact e t) = ''compact''"
| "message_kind (HSubagent e ty i s ts) = ''subagent''"
| "message_kind (HElicitation e s) = ''elicitation''"
| "message_kind (HQuestion e h s t) = ''question''"
| "message_kind (HTodo c st p) = ''todo''"
| "message_kind (HSessionDiff fs) = ''session_diff''"
| "message_kind HPermissionResolved = ''permission_resolved''"
| "message_kind HPlanResolved = ''plan_resolved''"
| "message_kind (HBrowserAction fs) = ''browser_action''"
| "message_kind HGithubToken = ''github_token''"
| "message_kind (HUnknown fs) = (case text_field fs ''kind'' of Some k \<Rightarrow> k | None \<Rightarrow> [])"

fun message_fields :: "hook_message \<Rightarrow> jobject" where
  "message_fields (HNotification t b) = [(''title'', JStr t), (''body'', JStr b)]"
| "message_fields (HProgress p l ts d w) = [(''phase'', JStr (phase_name p))] @ opt_kv ''lastAssistantMessage'' JStr l
     @ opt_kv ''backgroundTasks'' JArr ts @ opt_kv ''detail'' JStr d @ opt_kv ''wakeupsPending'' JBool w"
| "message_fields (HFileChange p a i t) = [(''path'', JStr p), (''action'', JStr (action_name a))] @ agent_kvs i t"
| "message_fields (HReviewGate st p g) = [(''state'', JStr (gate_name st)), (''prompt'', JStr p)] @ opt_kv ''gateId'' JStr g"
| "message_fields (HPromoteRequest s b) = [(''summary'', JStr s)] @ opt_kv ''suggestedBaseRef'' JStr b"
| "message_fields (HSessionStart s t) = opt_kv ''source'' JStr s @ opt_kv ''transcriptPath'' JStr t"
| "message_fields (HPermissionRequest t s) = [(''tool'', JStr t), (''summary'', JStr s)]"
| "message_fields (HToolDone t) = [(''tool'', JStr t)]"
| "message_fields (HStopFailure e d t) = [(''error'', JStr e)] @ opt_kv ''errorDetails'' JStr d @ opt_kv ''errorType'' JStr t"
| "message_fields (HToolFailure t e s i ty) = [(''tool'', JStr t), (''error'', JStr e)] @ opt_kv ''summary'' JStr s @ agent_kvs i ty"
| "message_fields (HSessionEnd r c) = [(''reason'', JStr r)] @ opt_kv ''exitCode'' JNum c"
| "message_fields (HPlanReady p f s) = [(''plan'', JStr p)] @ opt_kv ''filePath'' JStr f @ opt_kv ''summary'' JStr s"
| "message_fields (HGitBranch b w) = [(''branch'', JStr b)] @ opt_kv ''worktree'' JStr w"
| "message_fields (HCwdChanged c t) = [(''cwd'', JStr c)] @ opt_kv ''transcriptPath'' JStr t"
| "message_fields (HAgentSession s) = [(''sessionId'', JStr s)]"
| "message_fields (HTurnStart s) = opt_kv ''promptSource'' JStr s"
| "message_fields (HCompact e t) = [(''state'', JStr (edge_name e))] @ opt_kv ''trigger'' (\<lambda>x. JStr (trigger_name x)) t"
| "message_fields (HSubagent e ty i s ts) = [(''state'', JStr (edge_name e))] @ agent_kvs i ty @ opt_kv ''summary'' JStr s
     @ opt_kv ''backgroundTasks'' JArr ts"
| "message_fields (HElicitation e s) = [(''state'', JStr (edge_name e))] @ opt_kv ''server'' JStr s"
| "message_fields (HQuestion e h s t) = [(''state'', JStr (edge_name e))] @ opt_kv ''header'' JStr h @ opt_kv ''summary'' JStr s
     @ opt_kv ''tool'' (\<lambda>(m, c). JObj [(''messageID'', JStr m), (''callID'', JStr c)]) t"
| "message_fields (HTodo c st p) = [(''content'', JStr c), (''status'', JStr (todo_status_name st)), (''priority'', JStr (priority_name p))]"
| "message_fields (HSessionDiff fs) = [(''files'', JArr (map diff_json fs))]"
| "message_fields (HBrowserAction fs) = fs"
| "message_fields (HUnknown fs) = fs"
| "message_fields _ = []"

definition hook_json :: "hook_message \<Rightarrow> json" where
  "hook_json m = JObj (case m of HBrowserAction fs \<Rightarrow> fs | HUnknown fs \<Rightarrow> fs
     | _ \<Rightarrow> (''kind'', JStr (message_kind m)) # message_fields m)"

text \<open>The messages a line can become: what the validators guarantee to the handlers behind them.\<close>

definition agent_ok :: "string option \<Rightarrow> bool" where
  "agent_ok a \<longleftrightarrow> (case a of None \<Rightarrow> True | Some s \<Rightarrow> isValidAgentField s)"

definition tasks_ok :: "json list option \<Rightarrow> bool" where
  "tasks_ok ts \<longleftrightarrow> (case ts of None \<Rightarrow> True | Some xs \<Rightarrow> list_all isPlainObject xs)"

fun hook_wf :: "hook_message \<Rightarrow> bool" where
  "hook_wf (HProgress p l ts d w) = tasks_ok ts"
| "hook_wf (HFileChange p a i t) = (agent_ok i \<and> agent_ok t)"
| "hook_wf (HReviewGate st p g) = (g \<noteq> Some [])"
| "hook_wf (HToolFailure t e s i ty) = (agent_ok i \<and> agent_ok ty)"
| "hook_wf (HGitBranch b w) = (b \<noteq> [] \<and> w \<noteq> Some [])"
| "hook_wf (HCwdChanged c t) = (c \<noteq> [] \<and> t \<noteq> Some [])"
| "hook_wf (HAgentSession s) = (s \<noteq> [])"
| "hook_wf (HSubagent e ty i s ts) = (agent_ok i \<and> agent_ok ty \<and> tasks_ok ts)"
| "hook_wf (HSessionDiff fs) = (fs \<noteq> [] \<and> list_all (\<lambda>f. df_file f \<noteq> [] \<and> df_patch f \<noteq> Some []) fs)"
| "hook_wf (HBrowserAction fs) = (jm_wf fs \<and> (\<exists>r. fs = (''kind'', JStr ''browser_action'') # r)
     \<and> (\<exists>a \<in> KNOWN_BROWSER_ACTIONS. text_field fs ''action'' = Some a))"
| "hook_wf (HUnknown fs) = (jm_wf fs \<and> (\<exists>k. text_field fs ''kind'' = Some k \<and> k \<noteq> [] \<and> k \<notin> fst ` set VALIDATORS))"
| "hook_wf _ = True"

subsection \<open>Accepted messages\<close>

lemmas field_defs = text_field_def required_text_def nonempty_text_def optional_text_def nonempty_or_dropped_def
  required_literal_def literal_def optional_tasks_def validateBackgroundTasksField_def optional_wakeups_def
  optional_exitCode_def optional_trigger_def optional_tool_def agent_field_def parseAgentEnvelope_def
  validateStartedFinished_def

lemmas validator_defs = validateNotification_def validateProgress_def validateFileChange_def validateReviewGate_def
  validatePromoteRequest_def validateSessionStart_def validatePermissionRequest_def validateToolDone_def
  validateStopFailure_def validateToolFailure_def validateSessionEnd_def validatePlanReady_def validateGitBranch_def
  validateCwdChanged_def validateAgentSession_def validateTurnStart_def validateCompact_def validateSubagent_def
  validateElicitation_def validateQuestion_def validateTodo_def

lemma agent_field_ok: "agent_ok (agent_field fs k)"
  by (simp add: agent_field_def agent_ok_def split: option.split)

lemma optional_tasks_ok: "optional_tasks kind fs = Inr ts \<Longrightarrow> tasks_ok ts"
  by (auto simp: optional_tasks_def validateBackgroundTasksField_def tasks_ok_def list_all_iff
      split: option.splits json.splits)

lemma diff_entry_ok: "diff_entry v = Some f \<Longrightarrow> df_file f \<noteq> [] \<and> df_patch f \<noteq> Some []"
  by (auto simp: diff_entry_def nonempty_or_dropped_def Let_def split: json.splits option.splits if_splits)

lemma session_diff_wf:
  assumes "validateSessionDiff fs = Inr m"
  shows "hook_wf m"
proof -
  obtain x xs where f: "jm_get fs ''files'' = Some (JArr (x # xs))"
    using assms by (auto simp: validateSessionDiff_def split: option.splits json.splits list.splits)
  let ?ys = "List.map_filter diff_entry (x # xs)"
  have "m = HSessionDiff ?ys \<and> ?ys \<noteq> []"
    using assms by (cases ?ys) (simp_all add: validateSessionDiff_def f del: List.map_filter_simps)
  then show ?thesis using diff_entry_ok by (fastforce simp: List.map_filter_def list_all_iff)
qed

lemma object_wf: "jm_wf a \<Longrightarrow> jm_wf (spread a b)"
  unfolding spread_def by (induction b arbitrary: a) (auto intro: jm.wf_put)

lemma spread_new: "distinct (map fst (a @ b)) \<Longrightarrow> spread a b = a @ b"
proof (induction b arbitrary: a)
  case (Cons kv b)
  obtain k v where kv: "kv = (k, v)" by fastforce
  have "k \<notin> fst ` set a" using Cons.prems by (auto simp: kv)
  then have "jm_set k v a = a @ [(k, v)]" by (induction a) (auto simp: jm_set_def)
  with Cons.IH [of "a @ [(k, v)]"] Cons.prems show ?case by (simp add: spread_def kv)
qed simp

lemma object_distinct: "jm_wf fs \<Longrightarrow> object_of fs = fs"
  using spread_new [of "[]" fs] by (simp add: object_of_def jm_wf_def)

lemma spread_head:
  assumes "\<And>w. (k, w) \<in> set b \<Longrightarrow> w = v"
  shows "\<exists>r'. spread ((k, v) # r) b = (k, v) # r'"
  using assms
proof (induction b arbitrary: r)
  case (Cons kw b)
  obtain k' w where kw: "kw = (k', w)" by fastforce
  have "\<exists>r'. jm_set k' w ((k, v) # r) = (k, v) # r'"
    using Cons.prems by (cases "k' = k") (auto simp: jm_set_def kw)
  then obtain r' where "jm_set k' w ((k, v) # r) = (k, v) # r'" by blast
  with Cons.IH [of r'] Cons.prems show ?case by (simp add: spread_def kw)
qed simp

lemma jm_get_Cons: "jm_get ((k', v) # b) k = (if k = k' then Some v else jm_get b k)"
  by (simp add: jm_get_def)

lemma jm_get_spread_wf: "jm_wf b \<Longrightarrow> jm_get (spread a b) k = (case jm_get b k of Some v \<Rightarrow> Some v | None \<Rightarrow> jm_get a k)"
proof (induction b arbitrary: a)
  case (Cons kv b)
  obtain k' v where kv: "kv = (k', v)" by fastforce
  from Cons.prems have "jm_wf b" and "jm_get b k' = None"
    by (auto simp: jm_wf_def kv jm_get_def map_of_eq_None_iff)
  then show ?case using Cons.IH [of "jm_set k' v a"]
    by (auto simp: spread_def kv jm.get_put jm_get_Cons split: option.split)
qed (simp add: spread_def)

lemma browser_fields:
  assumes "jm_wf fs" and "jm_get fs ''kind'' = Some (JStr ''browser_action'')"
  shows "\<exists>r. spread [(''kind'', JStr ''browser_action'')] fs = (''kind'', JStr ''browser_action'') # r"
    and "jm_wf (spread [(''kind'', JStr ''browser_action'')] fs)"
    and "jm_get (spread [(''kind'', JStr ''browser_action'')] fs) k = jm_get fs k"
proof -
  have "w = JStr ''browser_action''" if "(''kind'', w) \<in> set fs" for w
    using assms that by (simp add: jm_wf_def jm_get_def)
  then show "\<exists>r. spread [(''kind'', JStr ''browser_action'')] fs = (''kind'', JStr ''browser_action'') # r"
    using spread_head by blast
  show "jm_wf (spread [(''kind'', JStr ''browser_action'')] fs)" by (rule object_wf) (simp add: jm_wf_def)
  show "jm_get (spread [(''kind'', JStr ''browser_action'')] fs) k = jm_get fs k"
    using assms(2) by (auto simp: jm_get_spread_wf [OF assms(1)] jm_get_Cons split: option.split)
qed

lemma text_of: "text_field fs k = Some s \<longleftrightarrow> jm_get fs k = Some (JStr s)"
  by (auto simp: text_field_def split: option.splits json.splits)

lemma browser_wf:
  assumes "jm_wf fs" and "text_field fs ''kind'' = Some ''browser_action''" and "validateBrowserAction fs = Inr m"
  shows "hook_wf m"
proof -
  obtain a where a: "text_field fs ''action'' = Some a" "a \<in> KNOWN_BROWSER_ACTIONS"
      and m: "m = HBrowserAction (spread [(''kind'', JStr ''browser_action'')] fs)"
    using assms(3) by (auto simp: validateBrowserAction_def required_text_def andThen_Inr split: option.splits if_splits)
  have kind: "jm_get fs ''kind'' = Some (JStr ''browser_action'')" using assms(2) by (simp add: text_of)
  have "text_field (spread [(''kind'', JStr ''browser_action'')] fs) ''action'' = Some a"
    using a(1) browser_fields(3) [OF assms(1) kind] by (simp add: text_of)
  with a(2) browser_fields(1,2) [OF assms(1) kind] show ?thesis by (auto simp: m)
qed

lemma nonempty_dropped: "nonempty_or_dropped s \<noteq> Some []"
  by (simp add: nonempty_or_dropped_def)

lemma nonempty_text_Inr: "nonempty_text fs k e = Inr s \<longleftrightarrow> text_field fs k = Some s \<and> s \<noteq> []"
  by (auto simp: nonempty_text_def split: option.split)

lemma validator_wf:
  "validateNotification fs = Inr m \<Longrightarrow> hook_wf m"
  "validateProgress fs = Inr m \<Longrightarrow> hook_wf m"
  "validateFileChange fs = Inr m \<Longrightarrow> hook_wf m"
  "validateReviewGate fs = Inr m \<Longrightarrow> hook_wf m"
  "validatePromoteRequest fs = Inr m \<Longrightarrow> hook_wf m"
  "validateSessionStart fs = Inr m \<Longrightarrow> hook_wf m"
  "validatePermissionRequest fs = Inr m \<Longrightarrow> hook_wf m"
  "validateToolDone fs = Inr m \<Longrightarrow> hook_wf m"
  "validateStopFailure fs = Inr m \<Longrightarrow> hook_wf m"
  "validateToolFailure fs = Inr m \<Longrightarrow> hook_wf m"
  "validateSessionEnd fs = Inr m \<Longrightarrow> hook_wf m"
  "validatePlanReady fs = Inr m \<Longrightarrow> hook_wf m"
  "validateGitBranch fs = Inr m \<Longrightarrow> hook_wf m"
  "validateCwdChanged fs = Inr m \<Longrightarrow> hook_wf m"
  "validateAgentSession fs = Inr m \<Longrightarrow> hook_wf m"
  "validateTurnStart fs = Inr m \<Longrightarrow> hook_wf m"
  "validateCompact fs = Inr m \<Longrightarrow> hook_wf m"
  "validateSubagent fs = Inr m \<Longrightarrow> hook_wf m"
  "validateElicitation fs = Inr m \<Longrightarrow> hook_wf m"
  "validateQuestion fs = Inr m \<Longrightarrow> hook_wf m"
  "validateTodo fs = Inr m \<Longrightarrow> hook_wf m"
  by (auto simp: validator_defs parseAgentEnvelope_def andThen_Inr agent_field_ok nonempty_dropped nonempty_text_Inr
        optional_tasks_ok split: option.splits)

lemma validators_wf:
  assumes "map_of VALIDATORS k = Some v" and "v fs = Inr m" and "k \<noteq> ''browser_action''"
  shows "hook_wf m"
proof -
  have "list_all (\<lambda>(k, v). k \<noteq> ''browser_action'' \<longrightarrow> (\<forall>fs m. v fs = Inr m \<longrightarrow> hook_wf m)) VALIDATORS"
    by (simp add: VALIDATORS_def session_diff_wf validator_wf)
  then show ?thesis using map_of_SomeD [OF assms(1)] assms(2,3) by (fastforce simp: list_all_iff)
qed

lemma validator_keys: "map_of VALIDATORS k = None \<longleftrightarrow> k \<notin> fst ` set VALIDATORS"
  by (rule map_of_eq_None_iff)

lemma accepted_wf:
  assumes "parseHookMessage line = Inr m"
  shows "hook_wf m"
proof -
  obtain ms kind where line: "line = Some (JObj ms)" and kind: "text_field (object_of ms) ''kind'' = Some kind" "kind \<noteq> []"
      and m: "dispatch_kind kind (object_of ms) = Inr m"
    using assms by (auto simp: parseHookMessage_def Let_def andThen_Inr nonempty_text_Inr split: option.splits json.splits)
  have wf: "jm_wf (object_of ms)" unfolding object_of_def by (rule object_wf) simp
  show ?thesis
  proof (cases "map_of VALIDATORS kind")
    case None
    then have "m = HUnknown (object_of ms)" using m by (simp add: dispatch_kind_def)
    then show ?thesis using None kind wf by (auto simp: validator_keys)
  next
    case (Some v)
    then have v: "v (object_of ms) = Inr m" using m by (simp add: dispatch_kind_def)
    show ?thesis
    proof (cases "kind = ''browser_action''")
      case True
      with Some v have "validateBrowserAction (object_of ms) = Inr m" by (simp add: VALIDATORS_def)
      then show ?thesis using browser_wf [OF wf] kind True by blast
    next
      case False
      then show ?thesis using validators_wf [OF Some v] by blast
    qed
  qed
qed

subsection \<open>Round trip\<close>

lemma jm_get_kvs [simp]:
  "jm_get [] k = None"
  "jm_get ((k', v) # b) k = (if k = k' then Some v else jm_get b k)"
  by (simp_all add: jm_get_def)

lemma jm_get_opt_kv [simp]: "jm_get (opt_kv k' f v @ b) k =
    (if k = k' then (case v of Some x \<Rightarrow> Some (f x) | None \<Rightarrow> jm_get b k) else jm_get b k)"
  by (cases v) (simp_all add: opt_kv_def)

lemma jm_get_opt_kv_last [simp]: "jm_get (opt_kv k' f v) k = (if k = k' then map_option f v else None)"
  by (cases v) (simp_all add: opt_kv_def)

lemma names [simp]:
  "map_of PHASES (phase_name p) = Some p" "map_of FILE_ACTIONS (action_name a) = Some a"
  "map_of GATE_STATES (gate_name g) = Some g" "map_of EDGES (edge_name e) = Some e"
  "map_of TRIGGERS (trigger_name t) = Some t" "map_of TODO_STATUSES (todo_status_name ts) = Some ts"
  "map_of TODO_PRIORITIES (priority_name tp) = Some tp"
  subgoal by (cases p) (simp_all add: PHASES_def)
  subgoal by (cases a) (simp_all add: FILE_ACTIONS_def)
  subgoal by (cases g) (simp_all add: GATE_STATES_def)
  subgoal by (cases e) (simp_all add: EDGES_def)
  subgoal by (cases t) (simp_all add: TRIGGERS_def)
  subgoal by (cases ts) (simp_all add: TODO_STATUSES_def)
  subgoal by (cases tp) (simp_all add: TODO_PRIORITIES_def)
  done

lemma distinct_opt_kv: "distinct (map fst (opt_kv k f v))" "fst ` set (opt_kv k f v) = (if v = None then {} else {k})"
  by (cases v; simp add: opt_kv_def)+

lemma fields_distinct: "\<not> (\<exists>fs. m = HBrowserAction fs \<or> m = HUnknown fs)
    \<Longrightarrow> jm_wf ((''kind'', JStr (message_kind m)) # message_fields m)"
  by (cases m) (simp_all add: jm_wf_def agent_kvs_def distinct_opt_kv)

lemma tasks_kept: "tasks_ok (Some xs) \<Longrightarrow> filter isPlainObject xs = xs"
  by (simp add: tasks_ok_def list_all_iff)

lemma agent_kept: "agent_ok (Some s) \<Longrightarrow> isValidAgentField s"
  by (simp add: agent_ok_def)

lemma diff_entry_json: "df_file f \<noteq> [] \<Longrightarrow> df_patch f \<noteq> Some [] \<Longrightarrow> diff_entry (diff_json f) = Some f"
  by (cases f) (auto simp: diff_entry_def diff_json_def object_distinct jm_wf_def distinct_opt_kv Let_def text_field_def
      nonempty_or_dropped_def count_field_def opt_kv_def split: option.splits)

lemma diff_list_json: "list_all (\<lambda>f. df_file f \<noteq> [] \<and> df_patch f \<noteq> Some []) fs \<Longrightarrow> List.map_filter diff_entry (map diff_json fs) = fs"
  by (induction fs) (auto simp: List.map_filter_simps diff_entry_json)

lemma session_diff_json:
  assumes "hook_wf (HSessionDiff fs)" and "jm_get p ''files'' = Some (JArr (map diff_json fs))"
  shows "validateSessionDiff p = Inr (HSessionDiff fs)"
proof -
  have "List.map_filter diff_entry (map diff_json fs) = fs" using assms(1) by (simp add: diff_list_json)
  with assms show ?thesis
    by (cases fs) (simp_all add: validateSessionDiff_def del: List.map_filter_simps)
qed

lemma tool_object: "object_of [(''messageID'', JStr a), (''callID'', JStr b)] = [(''messageID'', JStr a), (''callID'', JStr b)]"
  by (rule object_distinct) (simp add: jm_wf_def)

lemma dispatch_fields:
  assumes "hook_wf m" and "\<not> (\<exists>fs. m = HBrowserAction fs \<or> m = HUnknown fs)"
  shows "dispatch_kind (message_kind m) ((''kind'', JStr (message_kind m)) # message_fields m) = Inr m"
  using assms
  by (cases m)
    (auto simp: dispatch_kind_def VALIDATORS_def validator_defs field_defs agent_kvs_def tasks_kept agent_kept tool_object
      session_diff_json simp del: hook_wf.simps(9) split: option.split)

lemma message_kind_nonempty: "\<not> (\<exists>fs. m = HUnknown fs) \<Longrightarrow> message_kind m \<noteq> []"
  by (cases m) simp_all

lemma parse_object: "jm_wf fs \<Longrightarrow> jm_get fs ''kind'' = Some (JStr k) \<Longrightarrow> k \<noteq> [] \<Longrightarrow> parseHookMessage (Some (JObj fs)) = dispatch_kind k fs"
  by (simp add: parseHookMessage_def object_distinct nonempty_text_def text_field_def)

lemma parse_json:
  assumes "hook_wf m"
  shows "parseHookMessage (Some (hook_json m)) = Inr m"
proof -
  consider (browser) fs where "m = HBrowserAction fs" | (unknown) fs where "m = HUnknown fs"
    | (known) "\<not> (\<exists>fs. m = HBrowserAction fs \<or> m = HUnknown fs)" by blast
  then show ?thesis
  proof cases
    case browser
    then obtain r a where wf: "jm_wf fs" and fs: "fs = (''kind'', JStr ''browser_action'') # r"
        and a: "text_field fs ''action'' = Some a" "a \<in> KNOWN_BROWSER_ACTIONS"
      using assms by auto
    have "spread [(''kind'', JStr ''browser_action'')] fs = fs"
      using spread_new [of "[(''kind'', JStr ''browser_action'')]" r] wf
      by (simp add: fs jm_wf_def) (simp add: spread_def jm_set_def)
    then have "dispatch_kind ''browser_action'' fs = Inr m"
      using a by (simp add: dispatch_kind_def VALIDATORS_def validateBrowserAction_def required_text_def browser)
    then show ?thesis using parse_object [OF wf] by (simp add: hook_json_def browser fs)
  next
    case unknown
    then show ?thesis using assms
      by (auto simp: hook_json_def text_of parse_object dispatch_kind_def validator_keys [symmetric])
  next
    case known
    then have "hook_json m = JObj ((''kind'', JStr (message_kind m)) # message_fields m)"
      by (cases m) (simp_all add: hook_json_def)
    then show ?thesis
      using parse_object [OF fields_distinct [OF known]] dispatch_fields [OF assms known] message_kind_nonempty known by auto
  qed
qed

text \<open>
  C8: Serialising a message and parsing it again returns the very message, for exactly the messages
  a line can parse to at all; and those are the well-formed ones: background tasks are objects, an
  attribution field has 1 to 128 characters, a gate id, branch, directory or agent session id is
  never empty, a diff names at least one file, a browser action is a known one, and a message
  passed through as unknown has a kind no validator is responsible for.
\<close>

theorem hook_message_roundtrip:
  "(parseHookMessage (Some (hook_json m)) = Inr m \<longleftrightarrow> (\<exists>line. parseHookMessage line = Inr m))
    \<and> ((\<exists>line. parseHookMessage line = Inr m) \<longleftrightarrow> hook_wf m)"
  using parse_json accepted_wf by blast

text \<open>An attribution field is read by nothing that can reject.\<close>

lemma object_append: "object_of (ms @ [(k, v)]) = jm_set k v (object_of ms)"
  by (simp add: object_of_def spread_def)

lemma validator_ignores_attribution:
  assumes "k \<in> {''agentId'', ''agentType''}" and "map_of VALIDATORS kind = Some f"
  shows "isl (f (jm_set k v fs)) = isl (f fs)"
proof -
  have kept: "k' \<notin> {''agentId'', ''agentType''} \<Longrightarrow> jm_get (jm_set k v fs) k' = jm_get fs k'" for k'
    using assms(1) by (auto simp: jm.get_put)
  have fields: "k' \<notin> {''agentId'', ''agentType''} \<Longrightarrow> text_field (jm_set k v fs) k' = text_field fs k'" for k'
    by (simp add: text_field_def kept)
  have "list_all (\<lambda>(kind, f). isl (f (jm_set k v fs)) = isl (f fs)) VALIDATORS"
    by (simp add: VALIDATORS_def validator_defs validateSessionDiff_def validateBrowserAction_def validateStartedFinished_def
      required_text_def nonempty_text_def optional_text_def required_literal_def optional_tasks_def optional_wakeups_def
      optional_exitCode_def optional_trigger_def optional_tool_def kept fields isl_andThen)
  then show ?thesis using map_of_SomeD [OF assms(2)] by (fastforce simp: list_all_iff)
qed

text \<open>
  The attribution of a hook message is advisory: whatever value a sender adds as \<open>agentId\<close> or
  \<open>agentType\<close> to whatever line (of the wrong type, empty, oversized, a forged one), the line is
  accepted or rejected just as without it.
\<close>

theorem attribution_never_rejects:
  "isl (parseHookMessage (Some (JObj (ms @ [(''agentId'', v)])))) = isl (parseHookMessage (Some (JObj ms)))
    \<and> isl (parseHookMessage (Some (JObj (ms @ [(''agentType'', w)])))) = isl (parseHookMessage (Some (JObj ms)))"
proof -
  have "isl (parseHookMessage (Some (JObj (ms @ [(k, x)])))) = isl (parseHookMessage (Some (JObj ms)))"
    if k: "k \<in> {''agentId'', ''agentType''}" for k x
  proof -
    have "text_field (jm_set k x (object_of ms)) ''kind'' = text_field (object_of ms) ''kind''"
      using k by (auto simp: text_field_def jm.get_put)
    moreover have "isl (dispatch_kind kind (jm_set k x (object_of ms))) = isl (dispatch_kind kind (object_of ms))" for kind
      using validator_ignores_attribution [OF k] by (simp add: dispatch_kind_def split: option.split)
    ultimately show ?thesis by (simp add: parseHookMessage_def object_append nonempty_text_def split: option.split)
  qed
  then show ?thesis by simp
qed

end
