(* ===== verification/SessionState.thy ===== *)
theory SessionState
  imports HookProtocol TerminalModes SessionStatus
begin

section \<open>The live state of a session\<close>

text \<open>
  The state part of \<open>Session\<close> in \<open>src/services/pty-manager.ts\<close>: the latches its hooks set, the event
  ring, the subagent registry, the input window, the sweeps of \<open>src/services/stale-latch-sweep.ts\<close>, the
  restore of \<open>src/services/session-state-persistence.ts\<close> and the summary \<open>toInfo\<close> the status derives
  from. The terminal part is the \<open>pty_session\<close> of \<open>TerminalModes\<close> (which holds the attention tracker),
  the gates are the registry of \<open>GateRegistry\<close>.
  An operation runs without interruption and takes one reading \<open>now\<close> of the clock. Texts are strings;
  what a terminal sends or receives is a list of code units. What listeners are handed is kept in
  \<open>el_sent\<close>, what is written to the terminal in \<open>typed\<close>.
\<close>

subsection \<open>Events\<close>

record session_event =
  se_seq :: nat
  se_kind :: string
  se_ts :: int
  se_payload :: jobject

record event_log =
  eventSeq :: nat
  event_ring :: "session_event list"
  lastSeenSeq :: int
  el_sent :: "session_event list"

definition EVENTS_MAX :: nat where "EVENTS_MAX = 100"

definition new_log :: event_log where
  "new_log = \<lparr>eventSeq = 0, event_ring = [], lastSeenSeq = 0, el_sent = []\<rparr>"

definition push_event :: "int \<Rightarrow> event_log \<Rightarrow> notification_event \<Rightarrow> event_log" where
  "push_event now l ev =
     (let e = \<lparr>se_seq = Suc (eventSeq l), se_kind = fst ev, se_ts = now, se_payload = snd ev\<rparr>;
          ring = event_ring l @ [e]
      in l\<lparr>eventSeq := Suc (eventSeq l), event_ring := (if length ring > EVENTS_MAX then tl ring else ring),
           el_sent := el_sent l @ [e]\<rparr>)"

definition push_events :: "int \<Rightarrow> event_log \<Rightarrow> notification_event list \<Rightarrow> event_log" where
  "push_events now l evs = foldl (push_event now) l evs"

definition markEventsSeen :: "int \<Rightarrow> event_log \<Rightarrow> bool \<times> event_log" where
  "markEventsSeen seq l = (if seq > lastSeenSeq l then (True, l\<lparr>lastSeenSeq := seq\<rparr>) else (False, l))"

subsection \<open>The state\<close>

record subagent_info =
  sa_agentType :: "string option"
  sa_startedAt :: int
  sa_endedAt :: "int option"
  sa_summary :: "string option"
  sa_fileChanges :: nat
  sa_toolFailures :: nat
  sa_eventCount :: nat

text \<open>A file change whose path is being checked against the ignore rules.\<close>

record file_check =
  fc_root :: jsstring
  fc_path :: string
  fc_action :: file_action
  fc_agentId :: "string option"

record live_session =
  ls_cwd :: string
  hooksActive :: bool
  envCodexHome :: string
  pty :: pty_session
  gates :: gate_registry
  log :: event_log
  permissionState :: pending_state
  permissionAt :: "int option"
  pendingPermissionTool :: "string option"
  planState :: pending_state
  planAt :: "int option"
  promoteState :: promote_state
  promoteSummary :: "string option"
  promoteSuggestedBaseRef :: "string option"
  promoteAt :: "int option"
  elicitationState :: pending_state
  elicitationServer :: "string option"
  elicitationAt :: "int option"
  questionState :: pending_state
  questionHeader :: "string option"
  questionAt :: "int option"
  errorState :: error_state
  errorAt :: "int option"
  errorDetail :: "string option"
  compactState :: compact_state
  compactAt :: "int option"
  subagentCount :: int
  subagentCountAt :: "int option"
  subagents :: "(string, subagent_info) jsmap"
  lastAssistantMessage :: "string option"
  currentTodo :: "(string \<times> todo_status) option"
  endedReason :: "string option"
  exitCode :: "int option"
  liveBranch :: "string option"
  agentSessionId :: "string option"
  agentTranscriptPath :: "string option"
  codexTranscriptPath :: "string option"
  codexTranscriptHome :: "string option"
  fileChangeQueue :: "file_check list"
  hooksProven :: bool
  stateRestored :: bool
  alive :: bool
  agentPromptAt :: "int option"
  lastUserInputAt :: "int option"
  writeWindowStartedAt :: int
  pendingWriteBytes :: nat
  typed :: "(int \<times> jsstring) list"

abbreviation tracker :: "live_session \<Rightarrow> attention_tracker" where
  "tracker s \<equiv> ps_tracker (pty s)"

definition put_tracker :: "attention_tracker \<Rightarrow> live_session \<Rightarrow> live_session" where
  "put_tracker t s = s\<lparr>pty := (pty s)\<lparr>ps_tracker := t\<rparr>\<rparr>"

definition emitEvent :: "string \<Rightarrow> jobject \<Rightarrow> int \<Rightarrow> live_session \<Rightarrow> live_session" where
  "emitEvent kind payload now s = s\<lparr>log := push_event now (log s) (kind, payload)\<rparr>"

definition emit_all :: "notification_event list \<Rightarrow> int \<Rightarrow> live_session \<Rightarrow> live_session" where
  "emit_all evs now s = s\<lparr>log := push_events now (log s) evs\<rparr>"

text \<open>A call into the attention tracker: its new state, and its events through \<open>emitEvent\<close>.\<close>

definition call_tracker :: "(attention_tracker \<Rightarrow> attention_tracker \<times> notification_event list) \<Rightarrow> int
    \<Rightarrow> live_session \<Rightarrow> live_session" where
  "call_tracker f now s = (case f (tracker s) of (t, evs) \<Rightarrow> emit_all evs now (put_tracker t s))"

definition update_tracker :: "(attention_tracker \<Rightarrow> attention_tracker) \<Rightarrow> live_session \<Rightarrow> live_session" where
  "update_tracker f s = put_tracker (f (tracker s)) s"

definition or_null :: "string option \<Rightarrow> json" where
  "or_null v = (case v of None \<Rightarrow> JNull | Some t \<Rightarrow> JStr t)"

subsection \<open>The subagent registry\<close>

definition MAX_TRACKED_SUBAGENTS :: nat where "MAX_TRACKED_SUBAGENTS = 50"

text \<open>The finished entry with the earliest end, the first of equals.\<close>

fun oldest_finished :: "(string, subagent_info) jsmap \<Rightarrow> (string \<times> int) option \<Rightarrow> (string \<times> int) option" where
  "oldest_finished [] best = best"
| "oldest_finished ((agentId, info) # m) best = oldest_finished m
     (case sa_endedAt info of
        None \<Rightarrow> best
      | Some t \<Rightarrow> (case best of None \<Rightarrow> Some (agentId, t) | Some (_, b) \<Rightarrow> if t < b then Some (agentId, t) else best))"

definition recordSubagentStart :: "string \<Rightarrow> string option \<Rightarrow> int \<Rightarrow> (string, subagent_info) jsmap \<Rightarrow> (string, subagent_info) jsmap" where
  "recordSubagentStart agentId agentType now m =
     (if jm_has m agentId then m
      else let m1 = (if jm_size m \<ge> MAX_TRACKED_SUBAGENTS
             then (case oldest_finished m None of Some (old, _) \<Rightarrow> jm_delete old m | None \<Rightarrow> m) else m)
        in jm_set agentId \<lparr>sa_agentType = agentType, sa_startedAt = now, sa_endedAt = None, sa_summary = None,
             sa_fileChanges = 0, sa_toolFailures = 0, sa_eventCount = 0\<rparr> m1)"

definition recordSubagentStop :: "string \<Rightarrow> string option \<Rightarrow> int \<Rightarrow> (string, subagent_info) jsmap \<Rightarrow> (string, subagent_info) jsmap" where
  "recordSubagentStop agentId summary now m = (case jm_get m agentId of
       None \<Rightarrow> m
     | Some info \<Rightarrow> jm_set agentId (info\<lparr>sa_endedAt := Some now,
         sa_summary := (case summary of None \<Rightarrow> sa_summary info | Some t \<Rightarrow> Some t)\<rparr>) m)"

datatype subagent_activity = Act_file_change | Act_tool_failure

definition bumpSubagentActivity :: "string \<Rightarrow> subagent_activity \<Rightarrow> (string, subagent_info) jsmap \<Rightarrow> (string, subagent_info) jsmap" where
  "bumpSubagentActivity agentId kind m = (case jm_get m agentId of
       None \<Rightarrow> m
     | Some info \<Rightarrow> jm_set agentId
         ((case kind of Act_file_change \<Rightarrow> info\<lparr>sa_fileChanges := Suc (sa_fileChanges info)\<rparr>
                      | Act_tool_failure \<Rightarrow> info\<lparr>sa_toolFailures := Suc (sa_toolFailures info)\<rparr>)
           \<lparr>sa_eventCount := Suc (sa_eventCount info)\<rparr>) m)"

subsection \<open>Review gates and promote requests\<close>

fun decision_name :: "gate_decision \<Rightarrow> string" where
  "decision_name DApproved = ''approved''"
| "decision_name DDenied = ''denied''"
| "decision_name DLapsed = ''lapsed''"

text \<open>The two calls the registry makes back into the session.\<close>

fun gate_effect :: "int \<Rightarrow> live_session \<Rightarrow> gate_event \<Rightarrow> live_session" where
  "gate_effect now s (GateRegistry.ReviewGate d gateId prompt reason) = emitEvent ''review_gate''
     ([(''state'', JStr (decision_name d)), (''gateId'', JStr gateId), (''prompt'', JStr prompt)]
       @ opt_kv ''reason'' JStr reason) now s"
| "gate_effect now s ClearReviewGateAttention = call_tracker (clearIfConfirmedKind Attention.ReviewGate now) now s"

definition call_gates :: "(gate_registry \<Rightarrow> gate_registry \<times> gate_event list) \<Rightarrow> int \<Rightarrow> live_session \<Rightarrow> live_session" where
  "call_gates f now s = (case f (gates s) of (g, evs) \<Rightarrow> foldl (gate_effect now) (s\<lparr>gates := g\<rparr>) evs)"

definition registerPendingGate :: "string \<Rightarrow> string \<Rightarrow> int \<Rightarrow> live_session \<Rightarrow> live_session" where
  "registerPendingGate gateId prompt now s = s\<lparr>gates := gate_register gateId prompt now now (gates s)\<rparr>"

definition pendingGateIds :: "live_session \<Rightarrow> string list" where
  "pendingGateIds s = gate_pendingIds (gates s)"

definition resolveGate :: "string \<Rightarrow> gate_decision \<Rightarrow> string option \<Rightarrow> int \<Rightarrow> live_session \<Rightarrow> live_session" where
  "resolveGate gateId d reason now s = call_gates (gate_resolve gateId d reason) now s"

datatype promote_decision = PromoteAccepted | PromoteDeclined

fun promote_outcome :: "promote_decision \<Rightarrow> promote_state \<times> string" where
  "promote_outcome PromoteAccepted = (PAccepted, ''accepted'')"
| "promote_outcome PromoteDeclined = (PDeclined, ''declined'')"

definition resolvePromote :: "promote_decision \<Rightarrow> int \<Rightarrow> live_session \<Rightarrow> live_session" where
  "resolvePromote d now s =
     call_tracker (clearIfConfirmedKind PromoteRequest now) now
       (emitEvent ''promote_request'' [(''state'', JStr (snd (promote_outcome d)))] now
         (s\<lparr>promoteState := fst (promote_outcome d), promoteSummary := None, promoteSuggestedBaseRef := None, promoteAt := None\<rparr>))"

text \<open>The acknowledge refuses while any of the six decisions is pending.\<close>

definition decision_pending :: "live_session \<Rightarrow> bool" where
  "decision_pending s \<longleftrightarrow> gr_state (gates s) = GWaiting \<or> promoteState s = PPending \<or> permissionState s = Pending
     \<or> planState s = Pending \<or> elicitationState s = Pending \<or> questionState s = Pending"

definition acknowledge :: "int \<Rightarrow> live_session \<Rightarrow> bool \<times> live_session" where
  "acknowledge now s =
     (if decision_pending s then (False, s)
      else (case acknowledgeAttention now (tracker s) of (ok, t, evs) \<Rightarrow> (ok, emit_all evs now (put_tracker t s))))"

subsection \<open>Input\<close>

text \<open>Regular expressions without alternatives to try: each part says how many units it takes.\<close>

type_synonym matcher = "jsstring \<Rightarrow> nat option"

definition m_unit :: "(nat \<Rightarrow> bool) \<Rightarrow> matcher" where
  "m_unit P s = (case s of c # _ \<Rightarrow> if P c then Some 1 else None | [] \<Rightarrow> None)"

definition m_char :: "nat \<Rightarrow> matcher" where
  "m_char c = m_unit (\<lambda>x. x = c)"

definition m_many :: "(nat \<Rightarrow> bool) \<Rightarrow> matcher" where
  "m_many P s = Some (length (takeWhile P s))"

definition m_many1 :: "(nat \<Rightarrow> bool) \<Rightarrow> matcher" where
  "m_many1 P s = (let n = length (takeWhile P s) in if n = 0 then None else Some n)"

definition m_opt :: "nat \<Rightarrow> matcher" where
  "m_opt c s = Some (if s \<noteq> [] \<and> hd s = c then 1 else 0)"

fun m_seq :: "matcher list \<Rightarrow> matcher" where
  "m_seq [] s = Some 0"
| "m_seq (m # ms) s = (case m s of None \<Rightarrow> None | Some n \<Rightarrow> map_option (\<lambda>k. n + k) (m_seq ms (drop n s)))"

definition m_or :: "matcher \<Rightarrow> matcher \<Rightarrow> matcher" where
  "m_or a b s = (case a s of None \<Rightarrow> b s | r \<Rightarrow> r)"

text \<open>The seven shapes, without the escape each begins with.\<close>

definition FOCUS_REPORT :: matcher where
  "FOCUS_REPORT = m_seq [m_char 91, m_unit (\<lambda>c. c = 73 \<or> c = 79)]"

definition X10_MOUSE_REPORT :: matcher where
  "X10_MOUSE_REPORT = m_seq [m_char 91, m_char 77, m_unit (\<lambda>_. True), m_unit (\<lambda>_. True), m_unit (\<lambda>_. True)]"

definition SGR_MOUSE_REPORT :: matcher where
  "SGR_MOUSE_REPORT = m_seq [m_char 91, m_char 60, m_many1 digit_unit, m_char 59, m_many1 digit_unit, m_char 59,
     m_many1 digit_unit, m_unit (\<lambda>c. c = 77 \<or> c = 109)]"

definition CURSOR_POSITION_REPORT :: matcher where
  "CURSOR_POSITION_REPORT = m_seq [m_char 91, m_many1 digit_unit, m_char 59, m_many1 digit_unit, m_char 82]"

definition DEVICE_ATTRIBUTES_REPLY :: matcher where
  "DEVICE_ATTRIBUTES_REPLY = m_seq [m_char 91, m_opt 62, m_opt 63, m_many (\<lambda>c. digit_unit c \<or> c = 59), m_char 99]"

definition OSC_COLOR_REPLY :: matcher where
  "OSC_COLOR_REPLY = m_seq [m_char 93, m_char 49, m_unit (\<lambda>c. c = 48 \<or> c = 49 \<or> c = 50), m_char 59,
     m_many (\<lambda>c. c \<noteq> 7 \<and> c \<noteq> 27), m_or (m_char 7) (m_seq [m_char 27, m_char 92])]"

definition COLOR_SCHEME_NOTIFICATION :: matcher where
  "COLOR_SCHEME_NOTIFICATION = m_seq [m_char 91, m_char 63, m_char 57, m_char 57, m_char 55, m_char 59,
     m_unit (\<lambda>c. c = 49 \<or> c = 50), m_char 110]"

definition AUTO_REPORT_SHAPES :: "matcher list" where
  "AUTO_REPORT_SHAPES = [FOCUS_REPORT, X10_MOUSE_REPORT, SGR_MOUSE_REPORT, CURSOR_POSITION_REPORT,
     DEVICE_ATTRIBUTES_REPLY, OSC_COLOR_REPLY, COLOR_SCHEME_NOTIFICATION]"

text \<open>\<open>remainder.replace(shape, "")\<close> with the global flag: one pass from the left.\<close>

function strip_shape :: "matcher \<Rightarrow> jsstring \<Rightarrow> jsstring" where
  "strip_shape m [] = []"
| "strip_shape m (c # s) = (if c = 27 then (case m s of Some n \<Rightarrow> strip_shape m (drop n s) | None \<Rightarrow> c # strip_shape m s)
     else c # strip_shape m s)"
  by pat_completeness auto
termination
  by (relation "measure (\<lambda>(m, s). length s)") auto

definition isGenuineUserInput :: "jsstring \<Rightarrow> bool" where
  "isGenuineUserInput data =
     (if 27 \<notin> set data then data \<noteq> [] else foldl (\<lambda>r shape. strip_shape shape r) data AUTO_REPORT_SHAPES \<noteq> [])"

definition WRITE_BACKPRESSURE_MAX_BYTES :: nat where "WRITE_BACKPRESSURE_MAX_BYTES = 4194304"
definition WRITE_BACKPRESSURE_WINDOW_MS :: int where "WRITE_BACKPRESSURE_WINDOW_MS = 1000"

definition writeToPty :: "jsstring \<Rightarrow> int \<Rightarrow> live_session \<Rightarrow> bool \<times> live_session" where
  "writeToPty data now s =
     (let s1 = (if now - writeWindowStartedAt s \<ge> WRITE_BACKPRESSURE_WINDOW_MS
          then s\<lparr>writeWindowStartedAt := now, pendingWriteBytes := 0\<rparr> else s);
          byteLength = utf8_length data
      in if pendingWriteBytes s1 + byteLength > WRITE_BACKPRESSURE_MAX_BYTES then (False, s1)
         else let s2 = s1\<lparr>pendingWriteBytes := pendingWriteBytes s1 + byteLength\<rparr> in
              if alive s2 then (True, s2\<lparr>typed := typed s2 @ [(now, data)]\<rparr>) else (False, s2))"

text \<open>The latches of the turn that a keystroke or an agent's prompt ends; whether any was set.\<close>

definition clearTurnLatches :: "live_session \<Rightarrow> bool \<times> live_session" where
  "clearTurnLatches s =
     (let t = tracker s in
      (lastTurnEndedAt t \<noteq> None \<or> workFinishedAt t \<noteq> None \<or> backgroundTasks t \<noteq> [] \<or> errorState s \<noteq> NoError,
       (put_tracker (t\<lparr>lastTurnEndedAt := None, workFinishedAt := None, turnEndPingSent := False,
            backgroundTasks := [], backgroundTasksAt := None\<rparr>) s)
         \<lparr>errorState := NoError, errorAt := (if errorState s \<noteq> NoError then None else errorAt s),
          errorDetail := (if errorState s \<noteq> NoError then None else errorDetail s)\<rparr>))"

definition feed_tracker :: "attention_input \<Rightarrow> jobject option \<Rightarrow> attention_tracker \<Rightarrow> attention_tracker \<times> notification_event list" where
  "feed_tracker i extras t = applyAttentionTransition (advanceAttention (at_state t) i) extras t"

definition noteUserInput :: "jsstring \<Rightarrow> int \<Rightarrow> live_session \<Rightarrow> live_session" where
  "noteUserInput data now s =
     (if isGenuineUserInput data then
        (let s1 = (if gr_state (gates s) = GWaiting \<and> confirmedKind (at_state (tracker s)) = Some Attention.ReviewGate
               then s else call_tracker (feed_tracker (In_userInput now) None) now s);
             (changed, s2) = clearTurnLatches s1
         in if changed then emitEvent ''status_change'' [(''reason'', JStr ''genuine_user_input'')] now s2 else s2)
      else s)"

definition pty_write :: "jsstring \<Rightarrow> int \<Rightarrow> live_session \<Rightarrow> live_session" where
  "pty_write data now s = noteUserInput data now ((snd (writeToPty data now s))\<lparr>lastUserInputAt := Some now\<rparr>)"

definition writeAgentInput :: "jsstring \<Rightarrow> int \<Rightarrow> live_session \<Rightarrow> bool \<times> live_session" where
  "writeAgentInput data now s = writeToPty data now s"

definition beginAgentTurn :: "int \<Rightarrow> live_session \<Rightarrow> live_session" where
  "beginAgentTurn now s =
     (let (changed, s1) = clearTurnLatches s;
          s2 = (if changed then emitEvent ''status_change'' [(''reason'', JStr ''agent_prompt'')] now s1 else s1)
      in s2\<lparr>agentPromptAt := Some now\<rparr>)"

definition AGENT_TURN_IN_FLIGHT_MAX_MS :: int where "AGENT_TURN_IN_FLIGHT_MAX_MS = 900000"

definition agentTurnInFlight :: "int \<Rightarrow> live_session \<Rightarrow> bool" where
  "agentTurnInFlight now s \<longleftrightarrow> (case agentPromptAt s of
       None \<Rightarrow> False
     | Some prompt \<Rightarrow> \<not> (now - prompt > AGENT_TURN_IN_FLIGHT_MAX_MS)
         \<and> (case lastTurnEndedAt (tracker s) of None \<Rightarrow> True | Some ended \<Rightarrow> ended < prompt))"

subsection \<open>Output, silence and exit\<close>

definition SUSTAIN_MS :: int where "SUSTAIN_MS = 1000"
definition SUSTAINED_SILENCE_MS :: int where "SUSTAINED_SILENCE_MS = 10000"
definition HOOK_FALLBACK_SILENCE_MS :: int where "HOOK_FALLBACK_SILENCE_MS = 60000"

definition hasSustainedStreak :: "live_session \<Rightarrow> bool" where
  "hasSustainedStreak s = (case (activityStreakStart (pty s), lastActivityAt (pty s)) of
       (Some streak_start, Some recent) \<Rightarrow> recent - streak_start \<ge> SUSTAIN_MS
     | _ \<Rightarrow> False)"

text \<open>\<open>context\<close> is what \<open>silenceContextFromScrollback\<close> returns.\<close>

definition session_tick :: "string option \<Rightarrow> int \<Rightarrow> live_session \<Rightarrow> live_session" where
  "session_tick context now s =
     (let s1 = call_tracker (feed_tracker (In_tick now) None) now s;
          s2 = call_tracker (drainDeferred now) now s1;
          required = (if hooksActive s2 then HOOK_FALLBACK_SILENCE_MS else SUSTAINED_SILENCE_MS);
          silent = (case lastActivityAt (pty s2) of Some t \<Rightarrow> now - t \<ge> required | None \<Rightarrow> False)
      in if am_state (at_state (tracker s2)) = Att_idle \<and> hasSustainedStreak s2 \<and> silent
         then (let ctx = (if \<not> hooksActive s2 \<and> \<not> inAltScreen (ps_modes (pty s2)) then context else None)
           in call_tracker (feed_tracker (In_signal Silence now)
                (map_option (\<lambda>c. [(''context'', JStr c)]) ctx)) now s2)
         else s2)"

text \<open>A read of the terminal. A title goes to the debouncer, whose event comes later as \<open>emitTitle\<close>.\<close>

fun pty_fx :: "pty_effect list \<Rightarrow> notification_event list" where
  "pty_fx [] = []"
| "pty_fx (Fx_event e # fx) = e # pty_fx fx"
| "pty_fx (Fx_title t # fx) = pty_fx fx"

definition session_onData :: "(jsstring \<Rightarrow> jsstring) \<Rightarrow> jsstring \<Rightarrow> bool \<Rightarrow> int \<Rightarrow> int \<Rightarrow> live_session \<Rightarrow> live_session" where
  "session_onData platform_path data suppressing pushedTotal now s =
     (case onData platform_path data suppressing pushedTotal now (pty s) of
        (p, fx) \<Rightarrow> emit_all (pty_fx fx) now (s\<lparr>pty := p\<rparr>))"

definition emitTitle :: "string \<Rightarrow> int \<Rightarrow> live_session \<Rightarrow> live_session" where
  "emitTitle title now s = emitEvent ''title_change'' [(''title'', JStr title)] now s"

text \<open>The attach client ended; \<open>pendingTitle\<close> is what the title debouncer still held.\<close>

definition clientExit :: "bool \<Rightarrow> string option \<Rightarrow> int \<Rightarrow> live_session \<Rightarrow> live_session" where
  "clientExit incompatible pendingTitle now s =
     (let s1 = s\<lparr>alive := False\<rparr>;
          s2 = (case pendingTitle of Some t \<Rightarrow> emitTitle t now s1 | None \<Rightarrow> s1);
          s3 = s2\<lparr>pty := (pty s2)\<lparr>ps_modes := clearDetectCarry (ps_modes (pty s2))\<rparr>\<rparr>
      in emitEvent ''status_change'' [(''reason'', JStr (if incompatible then ''incompatible'' else ''exited''))] now
           (update_tracker clearDeferred s3))"

subsection \<open>Staleness\<close>

definition BLOCKED_STALE_GRACE_MS :: int where "BLOCKED_STALE_GRACE_MS = 2000"

definition isLatchStale :: "int option \<Rightarrow> int \<Rightarrow> int \<Rightarrow> int option \<Rightarrow> int \<Rightarrow> bool" where
  "isLatchStale setAt maxAgeMs now lastActivity graceMs \<longleftrightarrow> (case setAt of
       None \<Rightarrow> False
     | Some t \<Rightarrow> now - t \<ge> maxAgeMs \<and> (case lastActivity of None \<Rightarrow> True | Some a \<Rightarrow> a \<le> t + graceMs))"

datatype latch_tier = TierBlocked | TierBusy

record stale_latch =
  sl_name :: string
  sl_tier :: latch_tier
  sl_isActive :: "live_session \<Rightarrow> bool"
  sl_at :: "live_session \<Rightarrow> int option"
  sl_clear :: "int \<Rightarrow> live_session \<Rightarrow> live_session"
  sl_kind :: "attention_signal_kind option"

definition outstandingTasks :: "live_session \<Rightarrow> Attention.background_task list" where
  "outstandingTasks s = Attention.filterOutstandingBackgroundTasks (backgroundTasks (tracker s))"

definition staleLatches :: "stale_latch list" where
  "staleLatches =
    [\<lparr>sl_name = ''permissionState'', sl_tier = TierBlocked, sl_isActive = (\<lambda>s. permissionState s \<noteq> NotPending),
      sl_at = permissionAt,
      sl_clear = (\<lambda>_ s. s\<lparr>permissionState := NotPending, permissionAt := None, pendingPermissionTool := None\<rparr>),
      sl_kind = Some PermissionRequest\<rparr>,
     \<lparr>sl_name = ''planState'', sl_tier = TierBlocked, sl_isActive = (\<lambda>s. planState s \<noteq> NotPending), sl_at = planAt,
      sl_clear = (\<lambda>_ s. s\<lparr>planState := NotPending, planAt := None\<rparr>), sl_kind = Some PlanReady\<rparr>,
     \<lparr>sl_name = ''gateState'', sl_tier = TierBlocked, sl_isActive = (\<lambda>s. gr_state (gates s) = GWaiting),
      sl_at = (\<lambda>s. gr_at (gates s)), sl_clear = (\<lambda>now s. call_gates gate_clearStale now s), sl_kind = Some Attention.ReviewGate\<rparr>,
     \<lparr>sl_name = ''promoteState'', sl_tier = TierBlocked, sl_isActive = (\<lambda>s. promoteState s = PPending), sl_at = promoteAt,
      sl_clear = (\<lambda>_ s. s\<lparr>promoteState := PIdle, promoteAt := None, promoteSummary := None, promoteSuggestedBaseRef := None\<rparr>),
      sl_kind = Some PromoteRequest\<rparr>,
     \<lparr>sl_name = ''elicitationState'', sl_tier = TierBlocked, sl_isActive = (\<lambda>s. elicitationState s \<noteq> NotPending),
      sl_at = elicitationAt,
      sl_clear = (\<lambda>_ s. s\<lparr>elicitationState := NotPending, elicitationAt := None, elicitationServer := None\<rparr>),
      sl_kind = Some Elicitation\<rparr>,
     \<lparr>sl_name = ''questionState'', sl_tier = TierBlocked, sl_isActive = (\<lambda>s. questionState s \<noteq> NotPending),
      sl_at = questionAt,
      sl_clear = (\<lambda>_ s. s\<lparr>questionState := NotPending, questionHeader := None, questionAt := None\<rparr>),
      sl_kind = Some Question\<rparr>,
     \<lparr>sl_name = ''compactState'', sl_tier = TierBusy, sl_isActive = (\<lambda>s. compactState s \<noteq> NotCompacting), sl_at = compactAt,
      sl_clear = (\<lambda>_ s. s\<lparr>compactState := NotCompacting, compactAt := None\<rparr>), sl_kind = None\<rparr>,
     \<lparr>sl_name = ''subagentCount'', sl_tier = TierBusy, sl_isActive = (\<lambda>s. subagentCount s > 0), sl_at = subagentCountAt,
      sl_clear = (\<lambda>_ s. s\<lparr>subagentCount := 0, subagentCountAt := None\<rparr>), sl_kind = None\<rparr>,
     \<lparr>sl_name = ''backgroundTasks'', sl_tier = TierBusy, sl_isActive = (\<lambda>s. outstandingTasks s \<noteq> []),
      sl_at = (\<lambda>s. backgroundTasksAt (tracker s)),
      sl_clear = (\<lambda>_ s. update_tracker (\<lambda>t. t\<lparr>backgroundTasks := [], backgroundTasksAt := None\<rparr>) s), sl_kind = None\<rparr>]"

definition sweep_latch :: "int \<Rightarrow> int \<Rightarrow> int \<Rightarrow> stale_latch \<Rightarrow> bool \<times> live_session \<Rightarrow> bool \<times> live_session" where
  "sweep_latch blockedMaxAge busyMaxAge now l r =
     (let (changed, s) = r;
          maxAge = (case sl_tier l of TierBlocked \<Rightarrow> blockedMaxAge | TierBusy \<Rightarrow> busyMaxAge)
      in if \<not> sl_isActive l s then (changed, s)
         else if \<not> isLatchStale (sl_at l s) maxAge now (lastActivityAt (pty s)) BLOCKED_STALE_GRACE_MS then (changed, s)
         else (let s1 = sl_clear l now s;
                   s2 = (case sl_kind l of Some k \<Rightarrow> call_tracker (clearIfConfirmedKind k now) now s1 | None \<Rightarrow> s1)
               in (True, emitEvent ''status_change'' [(''reason'', JStr ''stale_blocked_cleared''), (''state'', JStr (sl_name l))] now s2)))"

definition sweepStaleLatches :: "stale_latch list \<Rightarrow> int \<Rightarrow> int \<Rightarrow> int \<Rightarrow> live_session \<Rightarrow> bool \<times> live_session" where
  "sweepStaleLatches latches blockedMaxAge busyMaxAge now s =
     foldl (\<lambda>r l. sweep_latch blockedMaxAge busyMaxAge now l r) (False, s) latches"

definition close_stale_subagent :: "int \<Rightarrow> int \<Rightarrow> int option \<Rightarrow> subagent_info \<Rightarrow> subagent_info" where
  "close_stale_subagent busyMaxAge now lastActivity info =
     (if sa_endedAt info = None \<and> isLatchStale (Some (sa_startedAt info)) busyMaxAge now lastActivity BLOCKED_STALE_GRACE_MS
      then info\<lparr>sa_endedAt := Some now\<rparr> else info)"

definition clearStaleBlockedIfOlderThan :: "int \<Rightarrow> int \<Rightarrow> int \<Rightarrow> live_session \<Rightarrow> bool \<times> live_session" where
  "clearStaleBlockedIfOlderThan blockedMaxAge busyMaxAge now s =
     (let (changed, s1) = sweepStaleLatches staleLatches blockedMaxAge busyMaxAge now s;
          closed = map (\<lambda>(i, info). (i, close_stale_subagent busyMaxAge now (lastActivityAt (pty s1)) info)) (subagents s1)
      in if closed = subagents s1 then (changed, s1)
         else (True, emitEvent ''status_change'' [(''reason'', JStr ''stale_blocked_cleared''), (''state'', JStr ''subagents'')] now
                (s1\<lparr>subagents := closed\<rparr>)))"

definition clearStaleErrorIfOlderThan :: "int \<Rightarrow> int \<Rightarrow> live_session \<Rightarrow> bool \<times> live_session" where
  "clearStaleErrorIfOlderThan maxAge now s =
     (if errorState s = NoError then (False, s)
      else case errorAt s of
        None \<Rightarrow> (False, s)
      | Some t \<Rightarrow> if now - t < maxAge then (False, s)
          else (True, emitEvent ''status_change'' [(''reason'', JStr ''stale_error_cleared'')] now
                 (s\<lparr>errorState := NoError, errorAt := None, errorDetail := None\<rparr>)))"

subsection \<open>The state file\<close>

text \<open>\<open>StoredStateFields\<close>: every field may be missing from a file; a field that may be \<open>null\<close> has two options.\<close>

record stored_state =
  st_permissionState :: "pending_state option"
  st_planState :: "pending_state option"
  st_errorState :: "error_state option"
  st_errorAt :: "int option option"
  st_errorDetail :: "string option option"
  st_gateState :: "gate_state option"
  st_gatePrompt :: "string option option"
  st_promoteState :: "promote_state option"
  st_promoteSummary :: "string option option"
  st_promoteSuggestedBaseRef :: "string option option"
  st_attentionKind :: "attention_signal_kind option option"
  st_compactState :: "compact_state option"
  st_subagentCount :: "int option"
  st_subagents :: "(string \<times> subagent_info) list option"
  st_elicitationState :: "pending_state option"
  st_elicitationServer :: "string option option"
  st_questionState :: "pending_state option"
  st_questionHeader :: "string option option"
  st_questionAt :: "int option option"
  st_lastTurnEndedAt :: "int option option"
  st_workFinishedAt :: "int option option"
  st_turnPromptSource :: "string option option"
  st_lastAssistantMessage :: "string option option"
  st_currentTodo :: "(string \<times> todo_status) option option"
  st_backgroundTasks :: "Attention.background_task list option"
  st_termModes :: "stored_modes option"
  st_codexTranscriptPath :: "string option option"
  st_codexTranscriptHome :: "string option option"

definition collectState :: "live_session \<Rightarrow> stored_state" where
  "collectState s =
     \<lparr>st_permissionState = Some (permissionState s), st_planState = Some (planState s), st_errorState = Some (errorState s),
      st_errorAt = Some (errorAt s), st_errorDetail = Some (errorDetail s), st_gateState = Some (gr_state (gates s)),
      st_gatePrompt = Some (gr_prompt (gates s)), st_promoteState = Some (promoteState s),
      st_promoteSummary = Some (promoteSummary s), st_promoteSuggestedBaseRef = Some (promoteSuggestedBaseRef s),
      st_attentionKind = Some (confirmedKind (at_state (tracker s))), st_compactState = Some (compactState s),
      st_subagentCount = Some (subagentCount s), st_subagents = Some (subagents s),
      st_elicitationState = Some (elicitationState s), st_elicitationServer = Some (elicitationServer s),
      st_questionState = Some (questionState s), st_questionHeader = Some (questionHeader s), st_questionAt = Some (questionAt s),
      st_lastTurnEndedAt = Some (lastTurnEndedAt (tracker s)), st_workFinishedAt = Some (workFinishedAt (tracker s)),
      st_turnPromptSource = Some (turnPromptSource (tracker s)), st_lastAssistantMessage = Some (lastAssistantMessage s),
      st_currentTodo = Some (currentTodo s), st_backgroundTasks = Some (backgroundTasks (tracker s)),
      st_termModes = Some (snapshot (ps_modes (pty s))), st_codexTranscriptPath = Some (codexTranscriptPath s),
      st_codexTranscriptHome = Some (codexTranscriptHome s)\<rparr>"

definition stampLatch :: "int \<Rightarrow> bool \<Rightarrow> int option \<Rightarrow> int option" where
  "stampLatch now active setAt = (if active \<and> setAt = None then Some now else setAt)"

definition stampRestoredLatches :: "int \<Rightarrow> live_session \<Rightarrow> live_session" where
  "stampRestoredLatches now s =
     s\<lparr>permissionAt := stampLatch now (permissionState s \<noteq> NotPending) (permissionAt s),
       planAt := stampLatch now (planState s \<noteq> NotPending) (planAt s),
       promoteAt := stampLatch now (promoteState s = PPending) (promoteAt s),
       elicitationAt := stampLatch now (elicitationState s \<noteq> NotPending) (elicitationAt s),
       compactAt := stampLatch now (compactState s \<noteq> NotCompacting) (compactAt s),
       subagentCountAt := stampLatch now (subagentCount s > 0) (subagentCountAt s)\<rparr>"

definition setCodexTranscriptPath :: "string \<Rightarrow> live_session \<Rightarrow> live_session" where
  "setCodexTranscriptPath path s =
     (let home = (if codexTranscriptPath s \<noteq> None \<and> codexTranscriptPath s \<noteq> Some path then None else codexTranscriptHome s)
      in s\<lparr>codexTranscriptPath := Some path, codexTranscriptHome := Some (case home of Some h \<Rightarrow> h | None \<Rightarrow> envCodexHome s)\<rparr>)"

definition restored :: "'a option \<Rightarrow> 'a \<Rightarrow> 'a" where
  "restored stored current = (case stored of Some v \<Rightarrow> v | None \<Rightarrow> current)"

definition restore_error :: "stored_state \<Rightarrow> live_session \<Rightarrow> live_session" where
  "restore_error st s =
     s\<lparr>permissionState := restored (st_permissionState st) (permissionState s), planState := restored (st_planState st) (planState s),
       errorState := restored (st_errorState st) (errorState s), errorAt := restored (st_errorAt st) (errorAt s),
       errorDetail := restored (st_errorDetail st) (errorDetail s)\<rparr>"

definition restore_gate :: "bool \<Rightarrow> int \<Rightarrow> stored_state \<Rightarrow> live_session \<Rightarrow> live_session" where
  "restore_gate lapseWaitingGate now st s =
     (if lapseWaitingGate \<and> st_gateState st = Some GWaiting
      then call_tracker (clearIfConfirmedKind Attention.ReviewGate now) now
             (emitEvent ''review_gate'' [(''state'', JStr ''lapsed''),
                (''reason'', JStr ''Mullion restarted while this request was pending'')] now
               (s\<lparr>gates := gate_lapseRestoredSummary (gates s)\<rparr>))
      else s\<lparr>gates := (gates s)\<lparr>gr_state := restored (st_gateState st) (gr_state (gates s)),
             gr_prompt := restored (st_gatePrompt st) (gr_prompt (gates s))\<rparr>\<rparr>)"

definition restore_promote :: "stored_state \<Rightarrow> live_session \<Rightarrow> live_session" where
  "restore_promote st s =
     s\<lparr>promoteState := restored (st_promoteState st) (promoteState s), promoteSummary := restored (st_promoteSummary st) (promoteSummary s),
       promoteSuggestedBaseRef := restored (st_promoteSuggestedBaseRef st) (promoteSuggestedBaseRef s)\<rparr>"

definition restore_kind :: "bool \<Rightarrow> int \<Rightarrow> stored_state \<Rightarrow> live_session \<Rightarrow> live_session" where
  "restore_kind restoreAttentionKind now st s = (case st_attentionKind st of
       Some (Some k) \<Rightarrow> if restoreAttentionKind then call_tracker (feed_tracker (In_signal k now) None) now s else s
     | _ \<Rightarrow> s)"

definition restore_rest :: "int \<Rightarrow> stored_state \<Rightarrow> live_session \<Rightarrow> live_session" where
  "restore_rest now st s =
     (let s1 = s\<lparr>compactState := restored (st_compactState st) (compactState s),
            subagentCount := restored (st_subagentCount st) (subagentCount s),
            subagents := (case st_subagents st of Some xs \<Rightarrow> foldl (\<lambda>m (i, info). jm_set i info m) [] xs | None \<Rightarrow> subagents s),
            elicitationState := restored (st_elicitationState st) (elicitationState s),
            elicitationServer := restored (st_elicitationServer st) (elicitationServer s),
            questionState := restored (st_questionState st) (questionState s),
            questionHeader := restored (st_questionHeader st) (questionHeader s),
            questionAt := restored (st_questionAt st) (questionAt s),
            lastAssistantMessage := restored (st_lastAssistantMessage st) (lastAssistantMessage s),
            currentTodo := restored (st_currentTodo st) (currentTodo s)\<rparr>
      in update_tracker (\<lambda>t. let t1 = t\<lparr>lastTurnEndedAt := restored (st_lastTurnEndedAt st) (lastTurnEndedAt t),
                workFinishedAt := restored (st_workFinishedAt st) (workFinishedAt t)\<rparr>
            in case st_backgroundTasks st of Some ts \<Rightarrow> setBackgroundTasks ts now t1 | None \<Rightarrow> t1) s1)"

definition restore_codex :: "stored_state \<Rightarrow> live_session \<Rightarrow> live_session" where
  "restore_codex st s =
     (let s1 = (case st_codexTranscriptPath st of Some (Some p) \<Rightarrow> if p \<noteq> [] then setCodexTranscriptPath p s else s | _ \<Rightarrow> s)
      in case st_codexTranscriptHome st of Some (Some h) \<Rightarrow> if h \<noteq> [] then s1\<lparr>codexTranscriptHome := Some h\<rparr> else s1 | _ \<Rightarrow> s1)"

definition restore_turn :: "stored_state \<Rightarrow> live_session \<Rightarrow> live_session" where
  "restore_turn st s = update_tracker (\<lambda>t.
     let t1 = (case st_turnPromptSource st of Some (Some src) \<Rightarrow> t\<lparr>turnPromptSource := Some src\<rparr> | _ \<Rightarrow> t)
     in if lastTurnEndedAt t1 \<noteq> None
        then t1\<lparr>turnEndPingSent := (Attention.filterOutstandingBackgroundTasks (backgroundTasks t1) = [])\<rparr> else t1) s"

definition applyStoredState :: "bool \<Rightarrow> bool \<Rightarrow> bool \<Rightarrow> int \<Rightarrow> stored_state \<Rightarrow> live_session \<Rightarrow> live_session" where
  "applyStoredState lapseWaitingGate restoreAttentionKind restoreTermModes now st s =
     (let s1 = restore_error st s;
          s2 = restore_gate lapseWaitingGate now st s1;
          s3 = restore_promote st s2;
          s4 = restore_kind restoreAttentionKind now st s3;
          s5 = restore_rest now st s4;
          s6 = stampRestoredLatches now s5;
          s7 = (if restoreTermModes then s6\<lparr>pty := (pty s6)\<lparr>ps_modes := restore (st_termModes st) (ps_modes (pty s6))\<rparr>\<rparr> else s6)
      in restore_turn st (restore_codex st s7))"

subsection \<open>Construction and spawn\<close>

definition new_pty :: pty_session where
  "new_pty = \<lparr>ps_modes = new_modes, liveCwd = None, lastTitle = None, lastTitleActivity = None, ps_tracker = new_tracker,
     lastActivityAt = None, activityStreakStart = None, altScreenExitedAtBytes = Some 0\<rparr>"

definition blank_session :: "string \<Rightarrow> bool \<Rightarrow> string \<Rightarrow> live_session" where
  "blank_session cwd hooks codexHome =
     \<lparr>ls_cwd = cwd, hooksActive = hooks, envCodexHome = codexHome, pty = new_pty, gates = new_gates, log = new_log,
      permissionState = NotPending, permissionAt = None, pendingPermissionTool = None, planState = NotPending, planAt = None,
      promoteState = PIdle, promoteSummary = None, promoteSuggestedBaseRef = None, promoteAt = None,
      elicitationState = NotPending, elicitationServer = None, elicitationAt = None,
      questionState = NotPending, questionHeader = None, questionAt = None,
      errorState = NoError, errorAt = None, errorDetail = None, compactState = NotCompacting, compactAt = None,
      subagentCount = 0, subagentCountAt = None, subagents = [], lastAssistantMessage = None, currentTodo = None,
      endedReason = None, exitCode = None, liveBranch = None, agentSessionId = None, agentTranscriptPath = None,
      codexTranscriptPath = None, codexTranscriptHome = None, fileChangeQueue = [], hooksProven = False,
      stateRestored = False, alive = False, agentPromptAt = None, lastUserInputAt = None,
      writeWindowStartedAt = 0, pendingWriteBytes = 0, typed = []\<rparr>"

text \<open>The constructor: the state file if there is one, and whether the session's socket exists already.\<close>

definition new_session :: "string \<Rightarrow> bool \<Rightarrow> string \<Rightarrow> stored_state option \<Rightarrow> bool \<Rightarrow> int \<Rightarrow> live_session" where
  "new_session cwd hooks codexHome file socketExists now =
     (let s = blank_session cwd hooks codexHome;
          s1 = (case file of None \<Rightarrow> s | Some st \<Rightarrow> (applyStoredState False True True now st s)\<lparr>stateRestored := True\<rparr>)
      in if socketExists then s1 else s1\<lparr>stateRestored := True\<rparr>)"

definition spawn_reset :: "live_session \<Rightarrow> live_session" where
  "spawn_reset s =
     (update_tracker (\<lambda>t. clearDeferred (t\<lparr>lastTurnEndedAt := None, workFinishedAt := None, turnEndPingSent := False,
          backgroundTasks := [], backgroundTasksAt := None, at_state := INITIAL_ATTENTION_STATE\<rparr>)) s)
       \<lparr>permissionState := NotPending, permissionAt := None, pendingPermissionTool := None, planState := NotPending, planAt := None,
        gates := gate_resetSummary (gates s),
        promoteState := PIdle, promoteAt := None, promoteSummary := None, promoteSuggestedBaseRef := None,
        errorState := NoError, errorAt := None, endedReason := None, exitCode := None, liveBranch := None,
        agentSessionId := None, agentTranscriptPath := None, errorDetail := None, lastAssistantMessage := None,
        currentTodo := None, compactState := NotCompacting, compactAt := None, subagentCount := 0, subagentCountAt := None,
        subagents := [], elicitationState := NotPending, elicitationServer := None, elicitationAt := None,
        questionState := NotPending, questionHeader := None, questionAt := None, agentPromptAt := None\<rparr>"

text \<open>\<open>client\<close>: whether \<open>spawnInternal\<close> ends with a live attach client.\<close>

definition session_spawn :: "bool \<Rightarrow> int \<Rightarrow> live_session \<Rightarrow> live_session" where
  "session_spawn client now s =
     (if alive s then s
      else let savedState = (if stateRestored s then Some (collectState s) else None);
               s1 = spawn_reset s;
               s2 = (case savedState of Some st \<Rightarrow> applyStoredState True False False now st s1 | None \<Rightarrow> s1)
           in s2\<lparr>alive := client\<rparr>)"

subsection \<open>What the clients see\<close>

definition IDLE_THRESHOLD_MS :: int where "IDLE_THRESHOLD_MS = 2000"
definition USER_INPUT_ECHO_MS :: int where "USER_INPUT_ECHO_MS = 1000"

definition session_activity :: "int \<Rightarrow> int \<Rightarrow> live_session \<Rightarrow> activity" where
  "session_activity idleThreshold now s =
     (case classifyActivityFromTitle (lastTitle (pty s)) of
        Some Act_working \<Rightarrow> Working
      | Some Act_idle \<Rightarrow> Idle
      | None \<Rightarrow>
          let recent = (case lastActivityAt (pty s) of Some t \<Rightarrow> now - t < idleThreshold | None \<Rightarrow> False);
              withinEchoWindow = (case lastUserInputAt s of Some t \<Rightarrow> now - t < USER_INPUT_ECHO_MS | None \<Rightarrow> False)
          in if recent \<and> hasSustainedStreak s \<and> \<not> withinEchoWindow then Working else Idle)"

text \<open>The fields of \<open>toInfo\<close> the status is derived from. \<open>portReason\<close> is what \<open>derivePortInUseEndedReason\<close> returns.\<close>

definition toInfo :: "int \<Rightarrow> string option \<Rightarrow> int \<Rightarrow> live_session \<Rightarrow> status_info" where
  "toInfo idleThreshold portReason now s =
    \<lparr>si_activity = session_activity idleThreshold now s,
     si_attention = (confirmedAt (at_state (tracker s)) \<noteq> None),
     si_attentionKind = confirmedKind (at_state (tracker s)),
     si_permissionState = permissionState s, si_planState = planState s,
     si_gateState = gr_state (gates s), si_gatePrompt = map_option lit (gr_prompt (gates s)),
     si_promoteState = promoteState s, si_promoteSummary = map_option lit (promoteSummary s),
     si_elicitationState = elicitationState s, si_elicitationServer = map_option lit (elicitationServer s),
     si_questionState = questionState s, si_questionHeader = map_option lit (questionHeader s),
     si_errorState = errorState s, si_errorDetail = map_option lit (errorDetail s),
     si_endedReason = map_option lit (case endedReason s of Some r \<Rightarrow> Some r | None \<Rightarrow> portReason),
     si_exitCode = exitCode s, si_compactState = compactState s, si_subagentCount = subagentCount s,
     si_lastTurnEndedAt = lastTurnEndedAt (tracker s),
     si_outstandingBackgroundTasks = map (\<lambda>t. case bt_status t of Some (JStr st) \<Rightarrow> Some (lit st) | _ \<Rightarrow> None) (outstandingTasks s)\<rparr>"

end
