(* ===== verification/SessionHooks.thy ===== *)
theory SessionHooks
  imports SessionState
begin

section \<open>What a session does with its agent's hooks\<close>

text \<open>
  \<open>src/services/hook-handlers.ts\<close>: one handler per message kind, on the session of \<open>SessionState\<close>. The
  handlers are reached through \<open>emitHookEvent\<close>; \<open>session_step\<close> is everything that happens to a session,
  and the invariants of its reachable states follow. \<open>uuid\<close> stands for the fresh id of \<open>randomUUID\<close>.
\<close>

subsection \<open>Calls into the tracker\<close>

definition signal :: "attention_signal_kind \<Rightarrow> jobject \<Rightarrow> int \<Rightarrow> live_session \<Rightarrow> live_session" where
  "signal k extras now s = call_tracker (emitAttentionSignalWithExtras k extras now) now s"

definition defer_signal :: "attention_signal_kind \<Rightarrow> jobject \<Rightarrow> notification_event list \<Rightarrow> int \<Rightarrow> live_session \<Rightarrow> live_session" where
  "defer_signal k extras also now s = update_tracker (emitAttentionSignalDeferred k extras also now) s"

definition clear_kind :: "attention_signal_kind \<Rightarrow> int \<Rightarrow> live_session \<Rightarrow> live_session" where
  "clear_kind k now s = call_tracker (clearIfConfirmedKind k now) now s"

text \<open>A latch released together with the attention kind it owns.\<close>

definition release_permission :: "int \<Rightarrow> live_session \<Rightarrow> live_session" where
  "release_permission now s =
     clear_kind PermissionRequest now (s\<lparr>permissionState := NotPending, permissionAt := None, pendingPermissionTool := None\<rparr>)"

definition release_plan :: "int \<Rightarrow> live_session \<Rightarrow> live_session" where
  "release_plan now s = clear_kind PlanReady now (s\<lparr>planState := NotPending, planAt := None\<rparr>)"

definition release_question :: "int \<Rightarrow> live_session \<Rightarrow> live_session" where
  "release_question now s = clear_kind Question now (s\<lparr>questionState := NotPending, questionHeader := None, questionAt := None\<rparr>)"

text \<open>The task the tracker keeps of a reported object: its \<open>status\<close>.\<close>

definition task_of :: "json \<Rightarrow> Attention.background_task" where
  "task_of v = \<lparr>bt_status = (case v of JObj ms \<Rightarrow> jm_get (object_of ms) ''status'' | _ \<Rightarrow> None)\<rparr>"

definition set_tasks :: "json list option \<Rightarrow> int \<Rightarrow> live_session \<Rightarrow> live_session" where
  "set_tasks ts now s = (case ts of None \<Rightarrow> s | Some xs \<Rightarrow> update_tracker (setBackgroundTasks (map task_of xs) now) s)"

subsection \<open>Handlers\<close>

definition RECENT_STRUCTURED_ASK_MS :: int where "RECENT_STRUCTURED_ASK_MS = 2000"

definition hasRecentStructuredAsk :: "int \<Rightarrow> live_session \<Rightarrow> bool" where
  "hasRecentStructuredAsk now s \<longleftrightarrow>
     (let recent = (\<lambda>setAt. case setAt of None \<Rightarrow> False | Some t \<Rightarrow> now - t < RECENT_STRUCTURED_ASK_MS) in
      (questionState s = Pending \<and> recent (questionAt s)) \<or> (permissionState s = Pending \<and> recent (permissionAt s))
      \<or> (planState s = Pending \<and> recent (planAt s)) \<or> (promoteState s = PPending \<and> recent (promoteAt s))
      \<or> (elicitationState s = Pending \<and> recent (elicitationAt s)) \<or> (gr_state (gates s) = GWaiting \<and> recent (gr_at (gates s))))"

definition on_notification :: "string \<Rightarrow> string \<Rightarrow> int \<Rightarrow> live_session \<Rightarrow> live_session" where
  "on_notification title body now s =
     (if hasRecentStructuredAsk now s then s
      else signal HookNotification [(''title'', JStr title), (''body'', JStr body)] now s)"

text \<open>The end of a turn: the sticky latches are released, the finished latch is set and its ping scheduled.\<close>

definition turn_done :: "bool \<Rightarrow> int \<Rightarrow> live_session \<Rightarrow> live_session" where
  "turn_done wakeupsPending now s =
     update_tracker (\<lambda>t. if turnEndMeansWorkFinished (turnPromptSource t) wakeupsPending
         then t\<lparr>workFinishedAt := lastTurnEndedAt t\<rparr> else t)
       (update_tracker (resolveDeferredTurnEnd now)
         (update_tracker (\<lambda>t. t\<lparr>lastTurnEndedAt := Some now, turnEndPingSent := False\<rparr>)
           (release_question now (release_plan now (release_permission now s)))))"

definition on_progress :: "progress_phase \<Rightarrow> string option \<Rightarrow> json list option \<Rightarrow> string option \<Rightarrow> bool option \<Rightarrow> int
    \<Rightarrow> live_session \<Rightarrow> live_session" where
  "on_progress phase lastMsg tasks detail wakeups now s =
     (let extras = [(''phase'', JStr (phase_name phase))] @ opt_kv ''lastAssistantMessage'' JStr lastMsg
            @ opt_kv ''backgroundTasks'' JArr tasks @ opt_kv ''detail'' JStr detail;
          s1 = (case lastMsg of None \<Rightarrow> s | Some m \<Rightarrow> s\<lparr>lastAssistantMessage := Some m\<rparr>);
          s2 = emitEvent ''status_change'' extras now (set_tasks tasks now s1);
          s3 = (if phase = TurnDone then turn_done (wakeups = Some True) now s2
                else let s' = update_tracker (cancelDeferred AgentIdle) s2 in
                     if tasks \<noteq> None then update_tracker (resolveDeferredTurnEnd now) s' else s')
      in update_tracker (\<lambda>t. cancelDeferred ApiError (cancelDeferred ToolFailure t))
           (s3\<lparr>errorState := NoError, errorAt := None, errorDetail := None\<rparr>))"

definition on_file_change :: "string \<Rightarrow> file_action \<Rightarrow> string option \<Rightarrow> jsstring \<Rightarrow> live_session \<Rightarrow> live_session" where
  "on_file_change path action agentId root s =
     s\<lparr>fileChangeQueue := fileChangeQueue s @ [\<lparr>fc_root = root, fc_path = path, fc_action = action, fc_agentId = agentId\<rparr>]\<rparr>"

text \<open>\<open>ctx.liveCwd ?? ctx.cwd\<close>.\<close>

definition file_root :: "live_session \<Rightarrow> jsstring" where
  "file_root s = (case liveCwd (pty s) of Some d \<Rightarrow> d | None \<Rightarrow> lit (ls_cwd s))"

text \<open>The queue's next step, when the check of its oldest path has answered.\<close>

definition file_checked :: "bool \<Rightarrow> int \<Rightarrow> live_session \<Rightarrow> live_session" where
  "file_checked ignored now s = (case fileChangeQueue s of
       [] \<Rightarrow> s
     | f # rest \<Rightarrow>
         let s1 = s\<lparr>fileChangeQueue := rest\<rparr> in
         if ignored then s1
         else emitEvent ''file_change'' [(''path'', JStr (fc_path f)), (''action'', JStr (action_name (fc_action f))),
                (''agentId'', or_null (fc_agentId f))] now
              (case fc_agentId f of None \<Rightarrow> s1
               | Some a \<Rightarrow> s1\<lparr>subagents := bumpSubagentActivity a Act_file_change (subagents s1)\<rparr>))"

definition on_gate_waiting :: "string \<Rightarrow> string \<Rightarrow> int \<Rightarrow> live_session \<Rightarrow> live_session" where
  "on_gate_waiting gateId prompt now s =
     signal Attention.ReviewGate [(''prompt'', JStr prompt)] now
       (emitEvent ''review_gate'' [(''state'', JStr ''waiting''), (''prompt'', JStr prompt), (''gateId'', JStr gateId)] now
         (registerPendingGate gateId prompt now s))"

text \<open>A decision that arrives over the hook channel: for the given gate, else for the oldest.\<close>

definition on_gate_decided :: "gate_decision \<Rightarrow> string option \<Rightarrow> int \<Rightarrow> live_session \<Rightarrow> live_session" where
  "on_gate_decided d gateId now s =
     (case (case gateId of Some g \<Rightarrow> Some g | None \<Rightarrow> (case pendingGateIds s of [] \<Rightarrow> None | g # _ \<Rightarrow> Some g)) of
        None \<Rightarrow> s
      | Some g \<Rightarrow> resolveGate g d None now s)"

definition on_review_gate :: "gate_wire \<Rightarrow> string \<Rightarrow> string option \<Rightarrow> string \<Rightarrow> int \<Rightarrow> live_session \<Rightarrow> live_session" where
  "on_review_gate st prompt gateId uuid now s = (case st of
       WireWaiting \<Rightarrow> on_gate_waiting (case nonempty_or_dropped gateId of Some g \<Rightarrow> g | None \<Rightarrow> uuid) prompt now s
     | WireApproved \<Rightarrow> on_gate_decided DApproved gateId now s
     | WireDenied \<Rightarrow> on_gate_decided DDenied gateId now s)"

definition on_promote_request :: "string \<Rightarrow> string option \<Rightarrow> int \<Rightarrow> live_session \<Rightarrow> live_session" where
  "on_promote_request summary baseRef now s =
     signal PromoteRequest [(''summary'', JStr summary)] now
       (emitEvent ''promote_request'' [(''summary'', JStr summary), (''suggestedBaseRef'', or_null baseRef)] now
         (s\<lparr>promoteState := PPending, promoteAt := Some now, promoteSummary := Some summary, promoteSuggestedBaseRef := baseRef\<rparr>))"

definition on_permission_request :: "string \<Rightarrow> string \<Rightarrow> int \<Rightarrow> live_session \<Rightarrow> live_session" where
  "on_permission_request tool summary now s =
     (if tool = ''ExitPlanMode'' \<and> planState s = Pending then s
      else let payload = [(''tool'', JStr tool), (''summary'', JStr summary)] in
           defer_signal PermissionRequest payload [(''permission_request'', payload)] now
             (s\<lparr>permissionState := Pending, permissionAt := Some now, pendingPermissionTool := Some tool\<rparr>))"

definition stop_failure_detail :: "string \<Rightarrow> string option \<Rightarrow> string option \<Rightarrow> string option" where
  "stop_failure_detail err details type = (case type of Some t \<Rightarrow> Some t
     | None \<Rightarrow> (case details of Some d \<Rightarrow> Some d | None \<Rightarrow> if err = [] then None else Some err))"

definition on_stop_failure :: "string \<Rightarrow> string option \<Rightarrow> string option \<Rightarrow> int \<Rightarrow> live_session \<Rightarrow> live_session" where
  "on_stop_failure err details type now s =
     (let s1 = s\<lparr>errorState := EApiError, errorAt := Some now, errorDetail := stop_failure_detail err details type\<rparr>;
          s2 = update_tracker (\<lambda>t. cancelDeferred AgentIdle (t\<lparr>lastTurnEndedAt := None\<rparr>)) s1;
          s3 = emitEvent ''stop_failure'' [(''error'', JStr err), (''errorDetails'', or_null details)] now s2
      in defer_signal ApiError [(''title'', JStr ''API Error''), (''body'', JStr err)] [] now s3)"

definition on_tool_failure :: "string \<Rightarrow> string \<Rightarrow> string option \<Rightarrow> string option \<Rightarrow> int \<Rightarrow> live_session \<Rightarrow> live_session" where
  "on_tool_failure tool err summary agentId now s =
     (let s1 = s\<lparr>errorState := EToolFailure, errorAt := Some now,
            errorDetail := Some (case summary of Some t \<Rightarrow> t | None \<Rightarrow> tool),
            subagents := (case agentId of None \<Rightarrow> subagents s | Some a \<Rightarrow> bumpSubagentActivity a Act_tool_failure (subagents s))\<rparr>;
          s2 = emitEvent ''tool_failure'' [(''tool'', JStr tool), (''error'', JStr err), (''summary'', or_null summary),
            (''agentId'', or_null agentId)] now s1
      in defer_signal ToolFailure [(''title'', JStr (''Tool failed: '' @ tool)), (''body'', JStr err)] [] now s2)"

definition on_session_end :: "string \<Rightarrow> int option \<Rightarrow> int \<Rightarrow> live_session \<Rightarrow> live_session" where
  "on_session_end reason code now s =
     emitEvent ''session_end'' [(''reason'', JStr reason), (''exitCode'', case code of Some n \<Rightarrow> JNum n | None \<Rightarrow> JNull)] now
       (s\<lparr>endedReason := Some reason, exitCode := code\<rparr>)"

definition on_plan_ready :: "string \<Rightarrow> string option \<Rightarrow> string option \<Rightarrow> int \<Rightarrow> live_session \<Rightarrow> live_session" where
  "on_plan_ready plan filePath summary now s =
     (let s1 = (if permissionState s = Pending \<and> pendingPermissionTool s = Some ''ExitPlanMode'' then release_permission now s else s);
          s2 = emitEvent ''plan_ready'' [(''plan'', JStr plan), (''filePath'', or_null filePath), (''summary'', or_null summary)] now
            (s1\<lparr>planState := Pending, planAt := Some now\<rparr>)
      in signal PlanReady [(''summary'', JStr (case summary of Some t \<Rightarrow> t | None \<Rightarrow> take 100 plan))] now s2)"

definition set_liveCwd :: "string \<Rightarrow> live_session \<Rightarrow> live_session" where
  "set_liveCwd d s = s\<lparr>pty := (pty s)\<lparr>liveCwd := Some (lit d)\<rparr>\<rparr>"

definition on_git_branch :: "string \<Rightarrow> string option \<Rightarrow> int \<Rightarrow> live_session \<Rightarrow> live_session" where
  "on_git_branch branch worktree now s =
     (let s1 = s\<lparr>liveBranch := Some branch\<rparr>;
          s2 = (case nonempty_or_dropped worktree of
              Some w \<Rightarrow> if liveCwd (pty s1) \<noteq> Some (lit w) then set_liveCwd w s1 else s1
            | None \<Rightarrow> s1)
      in emitEvent ''status_change'' [(''phase'', JStr ''done'')] now s2)"

definition on_cwd_changed :: "string \<Rightarrow> string option \<Rightarrow> int \<Rightarrow> live_session \<Rightarrow> live_session" where
  "on_cwd_changed cwd transcript now s =
     (let s1 = (case transcript of Some p \<Rightarrow> s\<lparr>agentTranscriptPath := Some p\<rparr> | None \<Rightarrow> s)
      in if liveCwd (pty s1) \<noteq> Some (lit cwd)
         then emitEvent ''status_change'' [(''phase'', JStr ''done'')] now (set_liveCwd cwd s1) else s1)"

definition on_turn_start :: "string option \<Rightarrow> int \<Rightarrow> live_session \<Rightarrow> live_session" where
  "on_turn_start source now s =
     (let s1 = call_tracker (clearAttention now) now s;
          s2 = s1\<lparr>permissionState := NotPending, permissionAt := None, pendingPermissionTool := None,
            planState := NotPending, planAt := None, elicitationState := NotPending, elicitationServer := None, elicitationAt := None,
            questionState := NotPending, questionHeader := None, questionAt := None,
            errorState := NoError, errorAt := None, errorDetail := None\<rparr>;
          s3 = update_tracker (\<lambda>t. t\<lparr>lastTurnEndedAt := None, workFinishedAt := None, turnEndPingSent := False,
            backgroundTasks := [], backgroundTasksAt := None, turnPromptSource := source\<rparr>) s2
      in emitEvent ''status_change'' [(''phase'', JStr ''generating''), (''promptSource'', or_null source)] now s3)"

definition on_compact :: "edge \<Rightarrow> compact_trigger option \<Rightarrow> int \<Rightarrow> live_session \<Rightarrow> live_session" where
  "on_compact e trigger now s =
     emitEvent ''status_change'' [(''compacting'', JBool (e = Started)), (''trigger'', or_null (map_option trigger_name trigger))] now
       (s\<lparr>compactState := (if e = Started then Compacting else NotCompacting), compactAt := (if e = Started then Some now else None)\<rparr>)"

definition on_subagent :: "edge \<Rightarrow> string option \<Rightarrow> string option \<Rightarrow> string option \<Rightarrow> json list option \<Rightarrow> int
    \<Rightarrow> live_session \<Rightarrow> live_session" where
  "on_subagent e agentType agentId summary tasks now s =
     (let count = max 0 (subagentCount s + (if e = Started then 1 else - 1));
          s1 = s\<lparr>subagentCount := count,
            subagentCountAt := (if e = Started \<and> count > 0 then Some now
              else if e \<noteq> Started \<and> count = 0 then None else subagentCountAt s),
            subagents := (case agentId of None \<Rightarrow> subagents s
              | Some a \<Rightarrow> if e = Started then recordSubagentStart a agentType now (subagents s)
                  else recordSubagentStop a summary now (subagents s))\<rparr>;
          extras = [(''subagentCount'', JNum count), (''agentType'', or_null agentType), (''agentId'', or_null agentId),
            (''subagentState'', JStr (edge_name e))] @ opt_kv ''backgroundTasks'' JArr tasks;
          s2 = emitEvent ''status_change'' extras now (set_tasks tasks now s1)
      in if tasks \<noteq> None then update_tracker (resolveDeferredTurnEnd now) s2 else s2)"

definition on_elicitation :: "edge \<Rightarrow> string option \<Rightarrow> int \<Rightarrow> live_session \<Rightarrow> live_session" where
  "on_elicitation e server now s =
     (if e = Started
      then signal Elicitation [(''server'', or_null server)] now
             (emitEvent ''elicitation'' [(''state'', JStr ''started''), (''server'', or_null server)] now
               (s\<lparr>elicitationState := Pending, elicitationAt := Some now, elicitationServer := server\<rparr>))
      else clear_kind Elicitation now
             (emitEvent ''elicitation'' [(''state'', JStr ''finished'')] now
               (s\<lparr>elicitationState := NotPending, elicitationServer := None, elicitationAt := None\<rparr>)))"

definition on_question :: "edge \<Rightarrow> string option \<Rightarrow> string option \<Rightarrow> int \<Rightarrow> live_session \<Rightarrow> live_session" where
  "on_question e header summary now s =
     (if e = Started
      then signal Question [(''header'', or_null header)] now
             (emitEvent ''question'' [(''state'', JStr ''started''), (''header'', or_null header), (''summary'', or_null summary)] now
               (s\<lparr>questionState := Pending, questionHeader := header, questionAt := Some now\<rparr>))
      else clear_kind Question now
             (emitEvent ''question'' [(''state'', JStr ''finished'')] now
               (s\<lparr>questionState := NotPending, questionHeader := None, questionAt := None\<rparr>)))"

definition on_todo :: "string \<Rightarrow> todo_status \<Rightarrow> todo_priority \<Rightarrow> int \<Rightarrow> live_session \<Rightarrow> live_session" where
  "on_todo content status priority now s =
     (emitEvent ''todo'' [(''content'', JStr content), (''status'', JStr (todo_status_name status)),
        (''priority'', JStr (priority_name priority))] now s)
       \<lparr>currentTodo := (if status = TPending \<or> status = TInProgress then Some (content, status) else None)\<rparr>"

definition on_session_diff :: "diff_file list \<Rightarrow> int \<Rightarrow> live_session \<Rightarrow> live_session" where
  "on_session_diff files now s = emitEvent ''session_diff'' [(''files'', JArr (map diff_json files))] now s"

text \<open>A finished tool call: the agent runs again, and a decision waiting on this very tool was taken.\<close>

definition release_if :: "(live_session \<Rightarrow> bool) \<Rightarrow> (live_session \<Rightarrow> live_session) \<Rightarrow> bool \<times> live_session \<Rightarrow> bool \<times> live_session" where
  "release_if c f r = (if c (snd r) then (True, f (snd r)) else r)"

definition clear_error :: "live_session \<Rightarrow> live_session" where
  "clear_error s = s\<lparr>errorState := NoError, errorAt := None, errorDetail := None\<rparr>"

definition on_tool_done :: "string \<Rightarrow> int \<Rightarrow> live_session \<Rightarrow> live_session" where
  "on_tool_done tool now s =
     (let (changed, s') =
        release_if (\<lambda>s. tool = ''AskUserQuestion'' \<and> questionState s = Pending) (release_question now)
         (release_if (\<lambda>s. tool = ''ExitPlanMode'' \<and> planState s = Pending) (release_plan now)
          (release_if (\<lambda>s. permissionState s = Pending
               \<and> (pendingPermissionTool s = None \<or> pendingPermissionTool s = Some tool)) (release_permission now)
           (release_if (\<lambda>s. errorState s \<noteq> NoError) clear_error (False, s))))
      in if changed then emitEvent ''status_change'' [(''reason'', JStr ''tool_done''), (''tool'', JStr tool)] now s' else s')"

subsection \<open>Dispatch\<close>

text \<open>A kind without a handler, and \<open>session_start\<close>, which the hook server answers itself, do nothing.\<close>

fun HOOK_HANDLERS :: "string \<Rightarrow> int \<Rightarrow> hook_message \<Rightarrow> live_session \<Rightarrow> live_session" where
  "HOOK_HANDLERS uuid now (HNotification t b) s = on_notification t b now s"
| "HOOK_HANDLERS uuid now (HProgress p l ts d w) s = on_progress p l ts d w now s"
| "HOOK_HANDLERS uuid now (HFileChange p a i t) s = on_file_change p a i (file_root s) s"
| "HOOK_HANDLERS uuid now (HReviewGate st p g) s = on_review_gate st p g uuid now s"
| "HOOK_HANDLERS uuid now (HPromoteRequest m b) s = on_promote_request m b now s"
| "HOOK_HANDLERS uuid now HNotificationResolved s = clear_kind HookNotification now s"
| "HOOK_HANDLERS uuid now (HPermissionRequest t m) s = on_permission_request t m now s"
| "HOOK_HANDLERS uuid now (HToolDone t) s = on_tool_done t now s"
| "HOOK_HANDLERS uuid now (HStopFailure e d t) s = on_stop_failure e d t now s"
| "HOOK_HANDLERS uuid now (HToolFailure t e m i ty) s = on_tool_failure t e m i now s"
| "HOOK_HANDLERS uuid now (HSessionEnd r c) s = on_session_end r c now s"
| "HOOK_HANDLERS uuid now (HPlanReady p f m) s = on_plan_ready p f m now s"
| "HOOK_HANDLERS uuid now (HGitBranch b w) s = on_git_branch b w now s"
| "HOOK_HANDLERS uuid now (HCwdChanged c t) s = on_cwd_changed c t now s"
| "HOOK_HANDLERS uuid now (HAgentSession i) s = s\<lparr>agentSessionId := Some i\<rparr>"
| "HOOK_HANDLERS uuid now (HTurnStart src) s = on_turn_start src now s"
| "HOOK_HANDLERS uuid now (HCompact e t) s = on_compact e t now s"
| "HOOK_HANDLERS uuid now (HSubagent e ty i m ts) s = on_subagent e ty i m ts now s"
| "HOOK_HANDLERS uuid now (HElicitation e sv) s = on_elicitation e sv now s"
| "HOOK_HANDLERS uuid now (HQuestion e h m t) s = on_question e h m now s"
| "HOOK_HANDLERS uuid now (HTodo c st p) s = on_todo c st p now s"
| "HOOK_HANDLERS uuid now (HSessionDiff fs) s = on_session_diff fs now s"
| "HOOK_HANDLERS uuid now HPermissionResolved s = release_permission now s"
| "HOOK_HANDLERS uuid now HPlanResolved s = release_plan now s"
| "HOOK_HANDLERS uuid now _ s = s"

definition emitHookEvent :: "bool \<Rightarrow> string \<Rightarrow> int \<Rightarrow> hook_message \<Rightarrow> live_session \<Rightarrow> live_session" where
  "emitHookEvent provesHookPipeline uuid now m s =
     HOOK_HANDLERS uuid now m (if provesHookPipeline then s\<lparr>hooksProven := True\<rparr> else s)"

subsection \<open>Everything that happens to a session\<close>

datatype session_op =
    Op_hook bool string hook_message int
  | Op_file_checked bool int
  | Op_output "jsstring \<Rightarrow> jsstring" jsstring bool int int
  | Op_title string int
  | Op_keys jsstring int
  | Op_agent_keys jsstring int
  | Op_agent_turn int
  | Op_eval "string option" int
  | Op_acknowledge int
  | Op_gate string gate_decision "string option" int
  | Op_promote promote_decision int
  | Op_sweep int int int
  | Op_sweep_error int int
  | Op_seen int
  | Op_exit bool "string option" int
  | Op_spawn bool int
  | Op_restart bool bool int

text \<open>A restart of the server builds the session anew from the state file the old one wrote, and spawns it.\<close>

fun session_step :: "live_session \<Rightarrow> session_op \<Rightarrow> live_session" where
  "session_step s (Op_hook proves uuid m now) = emitHookEvent proves uuid now m s"
| "session_step s (Op_file_checked ignored now) = file_checked ignored now s"
| "session_step s (Op_output pp data q tot now) = session_onData pp data q tot now s"
| "session_step s (Op_title t now) = emitTitle t now s"
| "session_step s (Op_keys data now) = pty_write data now s"
| "session_step s (Op_agent_keys data now) = snd (writeAgentInput data now s)"
| "session_step s (Op_agent_turn now) = beginAgentTurn now s"
| "session_step s (Op_eval ctx now) = session_tick ctx now s"
| "session_step s (Op_acknowledge now) = snd (acknowledge now s)"
| "session_step s (Op_gate g d r now) = resolveGate g d r now s"
| "session_step s (Op_promote d now) = resolvePromote d now s"
| "session_step s (Op_sweep blocked busy now) = snd (clearStaleBlockedIfOlderThan blocked busy now s)"
| "session_step s (Op_sweep_error age now) = snd (clearStaleErrorIfOlderThan age now s)"
| "session_step s (Op_seen seq) = s\<lparr>log := snd (markEventsSeen seq (log s))\<rparr>"
| "session_step s (Op_exit incompatible t now) = clientExit incompatible t now s"
| "session_step s (Op_spawn ok now) = session_spawn ok now s"
| "session_step s (Op_restart socketExists ok now) = session_spawn ok now
     (new_session (ls_cwd s) (hooksActive s) (envCodexHome s) (Some (collectState s)) socketExists now)"

subsection \<open>Calls as record updates\<close>

lemma call_tracker_eq: "call_tracker f now s =
    s\<lparr>pty := (pty s)\<lparr>ps_tracker := fst (f (tracker s))\<rparr>, log := push_events now (log s) (snd (f (tracker s)))\<rparr>"
  by (simp add: call_tracker_def emit_all_def put_tracker_def split: prod.split)

lemma update_tracker_eq: "update_tracker f s = s\<lparr>pty := (pty s)\<lparr>ps_tracker := f (tracker s)\<rparr>\<rparr>"
  by (simp add: update_tracker_def put_tracker_def)

lemmas call_eqs = call_tracker_eq update_tracker_eq emitEvent_def emit_all_def put_tracker_def

text \<open>What every latch's release and every event keep, a sweep keeps.\<close>

lemma sweep_latch_keeps:
  assumes "P s" and "\<And>s. P s \<Longrightarrow> P (case sl_kind l of Some k \<Rightarrow> clear_kind k now (sl_clear l now s) | None \<Rightarrow> sl_clear l now s)"
    and "\<And>k p s. P s \<Longrightarrow> P (emitEvent k p now s)"
  shows "P (snd (sweep_latch b y now l (ch, s)))"
  using assms by (auto simp: sweep_latch_def Let_def clear_kind_def split: option.splits)

lemma sweep_keeps:
  assumes "P s" and "list_all (\<lambda>l. \<forall>s. P s \<longrightarrow> P (case sl_kind l of Some k \<Rightarrow> clear_kind k now (sl_clear l now s)
      | None \<Rightarrow> sl_clear l now s)) ls" and event: "\<And>k p s. P s \<Longrightarrow> P (emitEvent k p now s)"
  shows "P (snd (sweepStaleLatches ls b y now s))"
proof -
  have "P (snd (foldl (\<lambda>r l. sweep_latch b y now l r) (ch, s) ls))" for ch
    using assms(1,2)
  proof (induction ls arbitrary: ch s)
    case (Cons l ls)
    obtain ch' s' where r: "sweep_latch b y now l (ch, s) = (ch', s')" by fastforce
    have "P s'" using sweep_latch_keeps [of P s l now b y ch] Cons.prems event by (simp add: r)
    with Cons r show ?case by simp
  qed simp
  then show ?thesis by (simp add: sweepStaleLatches_def)
qed

subsection \<open>Decisions the tracker holds\<close>

text \<open>A kind the tracker shows or is about to show.\<close>

definition raised :: "attention_tracker \<Rightarrow> attention_signal_kind \<Rightarrow> bool" where
  "raised t k \<longleftrightarrow> confirmedKind (at_state t) = Some k \<or> jm_has (deferred t) k"

definition open_within :: "attention_signal_kind set \<Rightarrow> attention_tracker \<Rightarrow> bool" where
  "open_within A t \<longleftrightarrow> attention_wf (at_state t) \<and> (\<forall>k \<in> ACK_BLOCKING_KINDS. raised t k \<longrightarrow> k \<in> A)"

lemma open_within_mono: "open_within A t \<Longrightarrow> A \<subseteq> B \<Longrightarrow> open_within B t"
  by (auto simp: open_within_def)

lemma jm_has_set: "jm_has (jm_set k v m) k' \<longleftrightarrow> k' = k \<or> jm_has m k'"
  by (simp add: jm_has_get jm.get_put)

lemma jm_has_delete: "jm_has (jm_delete k m) k' \<longleftrightarrow> k' \<noteq> k \<and> jm_has m k'"
  by (simp add: jm_has_get jm.get_delete)

lemma userInput_clears: "attention_wf a \<Longrightarrow> confirmedKind (tr_next (advanceAttention a (In_userInput now))) = None"
  by (cases "am_state a") (auto simp: advanceAttention_def transition_defs attention_wf_def)

lemma signal_kinds: "attention_wf a \<Longrightarrow> confirmedKind (tr_next (advanceAttention a (In_signal k now))) = Some k'
    \<Longrightarrow> k' = k \<or> confirmedKind a = Some k'"
  by (cases "am_state a") (auto simp: advanceAttention_def transition_defs attention_wf_def moreAuthoritativeKind_def
      split: option.splits if_splits)

lemma output_kinds: "attention_wf a \<Longrightarrow> confirmedKind (tr_next (advanceAttention a (In_output now))) = Some k'
    \<Longrightarrow> confirmedKind a = Some k'"
  by (cases "am_state a") (auto simp: advanceAttention_def transition_defs attention_wf_def split: option.splits if_splits)

text \<open>Only a bell or a notification waits out a window, so a tick confirms no decision.\<close>

lemma tick_kinds: "attention_wf a \<Longrightarrow> confirmedKind (tr_next (advanceAttention a (In_tick now))) = Some k'
    \<Longrightarrow> k' \<notin> ACK_BLOCKING_KINDS \<or> confirmedKind a = Some k'"
  by (cases "am_state a"; cases "the (pendingKind a)")
    (auto simp: advanceAttention_def transition_defs attention_wf_def ACK_BLOCKING_KINDS_def OUTPUT_IMMUNE_KINDS_def
      split: option.splits if_splits)

lemma confirmed_state: "attention_wf a \<Longrightarrow> confirmedKind a = Some k \<Longrightarrow> am_state a = Att_attention"
  by (cases "am_state a") (auto simp: attention_wf_def INITIAL_ATTENTION_STATE_def)

lemma open_clear_kind: "open_within A t \<Longrightarrow> open_within (A - {k}) (fst (clearIfConfirmedKind k now t))"
  by (auto dest: confirmed_state simp: open_within_def raised_def clearIfConfirmedKind_def Let_def cancelDeferred_def jm_has_delete
      applyAttentionTransition_def userInput_clears attention_wf_advance)

lemma open_clear: "open_within A t \<Longrightarrow> open_within {} (fst (clearAttention now t))"
  by (auto simp: open_within_def raised_def clearAttention_def Let_def jm_has_def applyAttentionTransition_def
      userInput_clears attention_wf_advance)

lemma open_signal: "open_within A t \<Longrightarrow> open_within (insert k A) (fst (emitAttentionSignalWithExtras k x now t))"
  by (auto simp: open_within_def raised_def emitAttentionSignalWithExtras_def attention_wf_advance dest!: signal_kinds)

lemma open_defer: "open_within A t \<Longrightarrow> open_within (insert k A) (emitAttentionSignalDeferred k x al now t)"
  by (auto simp: open_within_def raised_def emitAttentionSignalDeferred_def Let_def jm_has_set)

lemma open_cancel: "open_within A t \<Longrightarrow> open_within A (cancelDeferred k t)"
  by (auto simp: open_within_def raised_def cancelDeferred_def jm_has_delete)

lemma open_turn_end: "open_within A t \<Longrightarrow> open_within A (resolveDeferredTurnEnd now t)"
  using open_defer [of A "t\<lparr>turnEndPingSent := True\<rparr>" AgentIdle "[]" "[]" now]
  by (auto simp: resolveDeferredTurnEnd_def open_within_def raised_def ACK_BLOCKING_KINDS_def OUTPUT_IMMUNE_KINDS_def)

lemma open_feed:
  assumes "open_within A t" and "\<forall>k n. i = In_signal k n \<longrightarrow> k \<in> A \<or> k \<notin> ACK_BLOCKING_KINDS"
  shows "open_within A (fst (feed_tracker i x t))"
proof -
  have wf: "attention_wf (at_state t)" using assms(1) by (simp add: open_within_def)
  have "k' \<in> A" if k': "k' \<in> ACK_BLOCKING_KINDS"
    and "confirmedKind (tr_next (advanceAttention (at_state t) i)) = Some k'" for k'
    using that assms signal_kinds [OF wf] output_kinds [OF wf] tick_kinds [OF wf] userInput_clears [OF wf]
    by (cases i) (fastforce simp: open_within_def raised_def)+
  then show ?thesis using assms(1)
    by (auto simp: open_within_def raised_def feed_tracker_def applyAttentionTransition_def attention_wf_advance)
qed

lemma open_drain_loop:
  "open_within A t \<Longrightarrow> fst ` set es \<inter> ACK_BLOCKING_KINDS \<subseteq> A \<Longrightarrow> open_within A (fst (drain_loop now es t))"
proof (induction now es t rule: drain_loop.induct)
  case (2 now kind entry rest t)
  let ?t = "t\<lparr>deferred := jm_delete kind (deferred t), at_state := tr_next (advanceAttention (at_state t) (In_signal kind now))\<rparr>"
  have "open_within A ?t"
    using "2.prems" signal_kinds [of "at_state t" kind now]
    by (fastforce simp: open_within_def raised_def jm_has_delete attention_wf_advance)
  moreover have "fst ` set rest \<inter> ACK_BLOCKING_KINDS \<subseteq> A" using "2.prems"(2) by auto
  ultimately show ?case using 2 by (cases "de_dueAt entry > now") (auto simp: Let_def split: prod.splits)
qed simp

lemma open_drain: "open_within A t \<Longrightarrow> open_within A (fst (drainDeferred now t))"
  unfolding drainDeferred_def
  by (rule open_drain_loop) (auto simp: open_within_def raised_def jm_has_def)

lemma open_simps [simp]:
  "open_within A (t\<lparr>lastTurnEndedAt := a\<rparr>) = open_within A t"
  "open_within A (t\<lparr>workFinishedAt := b\<rparr>) = open_within A t"
  "open_within A (t\<lparr>turnEndPingSent := c\<rparr>) = open_within A t"
  "open_within A (t\<lparr>backgroundTasks := ts\<rparr>) = open_within A t"
  "open_within A (t\<lparr>backgroundTasksAt := d\<rparr>) = open_within A t"
  "open_within A (t\<lparr>turnPromptSource := e\<rparr>) = open_within A t"
  "open_within A (setBackgroundTasks xs now t) = open_within A t"
  by (simp_all add: open_within_def raised_def setBackgroundTasks_def)

lemma open_deferred_cleared: "open_within A t \<Longrightarrow> open_within A (clearDeferred t)"
  by (auto simp: open_within_def raised_def clearDeferred_def jm_has_def)

lemma open_acknowledge: "open_within A t \<Longrightarrow> open_within A (fst (snd (acknowledgeAttention now t)))"
  using open_within_mono [OF open_clear [of A t now], of A]
  by (auto simp: acknowledgeAttention_def split: prod.splits option.splits)

subsection \<open>Every open decision has its latch\<close>

text \<open>The decisions a session waits for, by the latches themselves.\<close>

definition awaited :: "live_session \<Rightarrow> attention_signal_kind set" where
  "awaited s = {k. (k = PermissionRequest \<and> permissionState s = Pending) \<or> (k = PlanReady \<and> planState s = Pending)
     \<or> (k = Attention.ReviewGate \<and> gr_state (gates s) = GWaiting) \<or> (k = PromoteRequest \<and> promoteState s = PPending)
     \<or> (k = Elicitation \<and> elicitationState s = Pending) \<or> (k = Question \<and> questionState s = Pending)}"

definition settled :: "live_session \<Rightarrow> bool" where
  "settled s \<longleftrightarrow> open_within (awaited s) (tracker s)"

lemma settledI: "open_within A (tracker s) \<Longrightarrow> A \<subseteq> awaited s \<Longrightarrow> settled s"
  by (auto simp: settled_def intro: open_within_mono)

lemma blocking_kinds: "ACK_BLOCKING_KINDS = {PermissionRequest, PlanReady, Attention.ReviewGate, PromoteRequest, Elicitation, Question}"
  by (auto simp: ACK_BLOCKING_KINDS_def OUTPUT_IMMUNE_KINDS_def)

lemma open_irrelevant: "k \<notin> ACK_BLOCKING_KINDS \<Longrightarrow> open_within (insert k A) t = open_within A t"
  by (auto simp: open_within_def)

lemmas open_rules = open_clear_kind open_clear open_signal open_defer open_cancel open_turn_end open_feed open_drain
  open_deferred_cleared

lemma open_step:
  "open_within A (tracker s) \<Longrightarrow> open_within (A - {k}) (tracker (clear_kind k now s))"
  "open_within A (tracker s) \<Longrightarrow> open_within (insert k A) (tracker (signal k x now s))"
  "open_within A (tracker s) \<Longrightarrow> open_within (insert k A) (tracker (defer_signal k x al now s))"
  "open_within A (tracker s) \<Longrightarrow> open_within (A - {PermissionRequest}) (tracker (release_permission now s))"
  "open_within A (tracker s) \<Longrightarrow> open_within (A - {PlanReady}) (tracker (release_plan now s))"
  "open_within A (tracker s) \<Longrightarrow> open_within (A - {Question}) (tracker (release_question now s))"
  by (simp_all add: clear_kind_def signal_def defer_signal_def release_permission_def release_plan_def release_question_def
      call_eqs open_rules)

lemma tracker_kept [simp]:
  "tracker (emitEvent k p now s) = tracker s"
  "tracker (emit_all evs now s) = tracker s"
  "tracker (put_tracker t s) = t"
  "tracker (update_tracker f s) = f (tracker s)"
  "tracker (call_tracker g now s) = fst (g (tracker s))"
  by (simp_all add: call_eqs)

lemma awaited_kept [simp]:
  "awaited (emitEvent k p now s) = awaited s"
  "awaited (emit_all evs now s) = awaited s"
  "awaited (put_tracker t s) = awaited s"
  "awaited (update_tracker f s) = awaited s"
  "awaited (call_tracker g now s) = awaited s"
  "awaited (signal kd x now s) = awaited s"
  "awaited (defer_signal kd x al now s) = awaited s"
  "awaited (clear_kind kd now s) = awaited s"
  by (simp_all add: call_eqs awaited_def signal_def defer_signal_def clear_kind_def)

lemma awaited_released [simp]:
  "awaited (release_permission now s) = awaited s - {PermissionRequest}"
  "awaited (release_plan now s) = awaited s - {PlanReady}"
  "awaited (release_question now s) = awaited s - {Question}"
  by (auto simp: release_permission_def release_plan_def release_question_def) (auto simp: awaited_def)

lemma set_tasks_kept [simp]:
  "open_within A (tracker (set_tasks ts now s)) = open_within A (tracker s)"
  "awaited (set_tasks ts now s) = awaited s"
  by (simp_all add: set_tasks_def split: option.split)

lemma settled_release:
  "settled s \<Longrightarrow> settled (release_permission now s)"
  "settled s \<Longrightarrow> settled (release_plan now s)"
  "settled s \<Longrightarrow> settled (release_question now s)"
  by (simp_all add: settled_def open_step)

lemma settled_signal: "settled s \<Longrightarrow> k \<notin> ACK_BLOCKING_KINDS \<Longrightarrow> settled (signal k x now s)"
  using open_step(2) [of "awaited s" s k x now] by (simp add: settled_def open_irrelevant)

lemma settled_gate_effect:
  "open_within A (tracker s) \<Longrightarrow> open_within (if ev = ClearReviewGateAttention then A - {Attention.ReviewGate} else A)
    (tracker (gate_effect now s ev))"
  by (cases ev) (simp_all add: open_rules)

lemma gate_effects_open:
  "open_within A (tracker s) \<Longrightarrow> open_within (if ClearReviewGateAttention \<in> set evs then A - {Attention.ReviewGate} else A)
    (tracker (foldl (gate_effect now) s evs))"
proof (induction evs arbitrary: s A)
  case (Cons ev evs)
  from Cons.IH [OF settled_gate_effect [OF Cons.prems, of ev now]] show ?case
    by (auto elim!: open_within_mono split: if_splits)
qed simp

lemma gate_effects_kept: "awaited (foldl (gate_effect now) s evs) = awaited s"
proof (induction evs arbitrary: s)
  case (Cons ev evs)
  then show ?case by (cases ev) simp_all
qed simp

subsection \<open>The operations keep it\<close>

lemma settled_simps [simp]:
  "settled (emitEvent k p now s) = settled s"
  "settled (emit_all evs now s) = settled s"
  "settled (s\<lparr>lastAssistantMessage := a1\<rparr>) = settled s"
  "settled (s\<lparr>currentTodo := a2\<rparr>) = settled s"
  "settled (s\<lparr>errorState := b1, errorAt := b2, errorDetail := b3\<rparr>) = settled s"
  "settled (s\<lparr>errorState := b1, errorAt := b2, errorDetail := b3, subagents := b4\<rparr>) = settled s"
  "settled (s\<lparr>subagents := c1\<rparr>) = settled s"
  "settled (s\<lparr>fileChangeQueue := c2\<rparr>) = settled s"
  "settled (s\<lparr>endedReason := d1, exitCode := d2\<rparr>) = settled s"
  "settled (s\<lparr>liveBranch := e1\<rparr>) = settled s"
  "settled (s\<lparr>agentSessionId := e2\<rparr>) = settled s"
  "settled (s\<lparr>agentTranscriptPath := e3\<rparr>) = settled s"
  "settled (s\<lparr>compactState := f1, compactAt := f2\<rparr>) = settled s"
  "settled (s\<lparr>subagentCount := g1, subagentCountAt := g2, subagents := g3\<rparr>) = settled s"
  "settled (s\<lparr>subagentCount := g1, subagentCountAt := g2\<rparr>) = settled s"
  "settled (s\<lparr>subagentCount := g1\<rparr>) = settled s"
  "settled (s\<lparr>hooksProven := h1\<rparr>) = settled s"
  "settled (s\<lparr>lastUserInputAt := h2\<rparr>) = settled s"
  "settled (s\<lparr>agentPromptAt := h3\<rparr>) = settled s"
  "settled (s\<lparr>log := h4\<rparr>) = settled s"
  "settled (s\<lparr>alive := h5\<rparr>) = settled s"
  "settled (set_liveCwd d s) = settled s"
  "settled (set_tasks ts now s) = settled s"
  by (simp_all add: settled_def awaited_def emitEvent_def emit_all_def set_liveCwd_def set_tasks_def update_tracker_eq
      split: option.split)

lemma settled_update: "settled s \<Longrightarrow> (\<And>A t. open_within A t \<Longrightarrow> open_within A (f t)) \<Longrightarrow> settled (update_tracker f s)"
  by (simp add: settled_def)

lemma settled_call: "settled s \<Longrightarrow> (\<And>A t. open_within A t \<Longrightarrow> open_within A (fst (f t))) \<Longrightarrow> settled (call_tracker f now s)"
  by (simp add: settled_def)

lemma settled_pending:
  assumes "open_within A (tracker s)" and "A \<subseteq> awaited s" and "k \<in> awaited s"
  shows "settled (signal k x now s)" and "settled (defer_signal k x al now s)"
  using assms open_within_mono [OF open_step(2) [OF assms(1)]] open_within_mono [OF open_step(3) [OF assms(1)]]
  by (auto simp: settled_def)

lemma settled_progress: "settled s \<Longrightarrow> settled (on_progress p l ts d w now s)"
  unfolding on_progress_def Let_def turn_done_def
  by (auto simp: settled_release open_cancel open_turn_end intro!: settled_update split: option.split)

lemma settled_resolveGate: "settled s \<Longrightarrow> settled (resolveGate i d r now s)"
proof -
  assume s: "settled s"
  obtain g evs where r: "gate_resolve i d r (gates s) = (g, evs)" by fastforce
  let ?s = "s\<lparr>gates := g\<rparr>"
  have o: "open_within (awaited s) (tracker ?s)" using s by (simp add: settled_def)
  have "(if ClearReviewGateAttention \<in> set evs then awaited s - {Attention.ReviewGate} else awaited s) \<subseteq> awaited ?s"
    using r by (auto simp: gate_resolve_def Let_def awaited_def split: option.splits list.splits)
  then show ?thesis unfolding resolveGate_def call_gates_def r
    by (simp del: if_split) (rule settledI [OF gate_effects_open [OF o]], simp add: gate_effects_kept)
qed

lemma settled_gate_waiting: "settled s \<Longrightarrow> settled (on_gate_waiting i p now s)"
proof -
  assume s: "settled s"
  let ?s = "emitEvent ''review_gate'' [(''state'', JStr ''waiting''), (''prompt'', JStr p), (''gateId'', JStr i)] now
    (registerPendingGate i p now s)"
  have a: "gr_state (gates ?s) = GWaiting"
    by (simp add: registerPendingGate_def emitEvent_def gate_register_def Let_def)
  then have "awaited ?s = insert Attention.ReviewGate (awaited s)"
    by (auto simp: awaited_def registerPendingGate_def emitEvent_def)
  moreover have "open_within (awaited s) (tracker ?s)"
    using s by (simp add: settled_def) (simp add: registerPendingGate_def)
  ultimately show ?thesis unfolding on_gate_waiting_def by (intro settled_pending(1)) auto
qed

lemma settled_gate: "settled s \<Longrightarrow> settled (on_review_gate st p g uuid now s)"
  by (auto simp: on_review_gate_def on_gate_decided_def settled_gate_waiting settled_resolveGate
      split: gate_wire.split option.split list.split)

lemma awaited_latched [simp]:
  "awaited (s\<lparr>permissionState := Pending, permissionAt := a, pendingPermissionTool := b\<rparr>) = insert PermissionRequest (awaited s)"
  "awaited (s\<lparr>planState := Pending, planAt := a\<rparr>) = insert PlanReady (awaited s)"
  "awaited (s\<lparr>promoteState := PPending, promoteAt := a, promoteSummary := c, promoteSuggestedBaseRef := d\<rparr>)
     = insert PromoteRequest (awaited s)"
  "awaited (s\<lparr>elicitationState := Pending, elicitationAt := a, elicitationServer := b\<rparr>) = insert Elicitation (awaited s)"
  "awaited (s\<lparr>questionState := Pending, questionHeader := b, questionAt := a\<rparr>) = insert Question (awaited s)"
  subgoal by (auto simp: awaited_def)
  subgoal by (auto simp: awaited_def)
  subgoal by (auto simp: awaited_def)
  subgoal by (auto simp: awaited_def)
  subgoal by (auto simp: awaited_def)
  done

lemma awaited_unlatched [simp]:
  "awaited (s\<lparr>elicitationState := NotPending, elicitationServer := b, elicitationAt := a\<rparr>) = awaited s - {Elicitation}"
  "awaited (s\<lparr>questionState := NotPending, questionHeader := b, questionAt := a\<rparr>) = awaited s - {Question}"
  subgoal by (auto simp: awaited_def)
  subgoal by (auto simp: awaited_def)
  done

lemma settled_latched:
  assumes "settled s" and "tracker s' = tracker s" and "awaited s' = insert k (awaited s)"
  shows "settled (signal k x now s')" and "settled (defer_signal k x al now s')"
  using assms open_step(2) [of "awaited s" s' k x now] open_step(3) [of "awaited s" s' k x al now]
  by (simp_all add: settled_def)

lemma settled_permission_request: "settled s \<Longrightarrow> settled (on_permission_request tn m now s)"
  by (simp add: on_permission_request_def Let_def settled_latched)

lemma settled_promote_request: "settled s \<Longrightarrow> settled (on_promote_request m b now s)"
  by (simp add: on_promote_request_def settled_latched)

lemma settled_plan_ready:
  assumes "settled s"
  shows "settled (on_plan_ready pl f m now s)"
proof -
  define s1 where "s1 = (if permissionState s = Pending \<and> pendingPermissionTool s = Some ''ExitPlanMode''
    then release_permission now s else s)"
  have "settled s1" using assms by (simp add: s1_def settled_release)
  then show ?thesis unfolding on_plan_ready_def Let_def s1_def [symmetric] by (simp add: settled_latched)
qed

lemma settled_unlatched: "settled s \<Longrightarrow> tracker s' = tracker s \<Longrightarrow> awaited s' = awaited s - {k} \<Longrightarrow> settled (clear_kind k now s')"
  using open_step(1) [of "awaited s" s' k now] by (simp add: settled_def)

lemma settled_elicitation: "settled s \<Longrightarrow> settled (on_elicitation e sv now s)"
  by (simp add: on_elicitation_def settled_latched settled_unlatched)

lemma settled_question: "settled s \<Longrightarrow> settled (on_question e h m now s)"
  by (simp add: on_question_def settled_latched settled_unlatched)

lemma settled_turn_start: "settled s \<Longrightarrow> settled (on_turn_start src now s)"
  by (rule settledI [where A = "{}"]) (simp_all add: on_turn_start_def Let_def settled_def open_clear)

lemma settled_failures:
  "settled s \<Longrightarrow> settled (on_stop_failure e d t now s)"
  "settled s \<Longrightarrow> settled (on_tool_failure tn e m i now s)"
proof -
  have irrelevant: "settled s' \<Longrightarrow> k \<notin> ACK_BLOCKING_KINDS \<Longrightarrow> settled (defer_signal k x al now s')" for s' k x al
    using open_step(3) [of "awaited s'" s' k x al now] by (simp add: settled_def open_irrelevant)
  show "settled s \<Longrightarrow> settled (on_stop_failure e d t now s)" "settled s \<Longrightarrow> settled (on_tool_failure tn e m i now s)"
    unfolding on_stop_failure_def on_tool_failure_def Let_def
    by (auto intro!: irrelevant settled_update simp: open_cancel) (simp_all add: blocking_kinds)
qed

lemma settled_release_if: "settled (snd r) \<Longrightarrow> (\<And>s. settled s \<Longrightarrow> settled (f s)) \<Longrightarrow> settled (snd (release_if c f r))"
  by (simp add: release_if_def)

lemma settled_clear_error: "settled s \<Longrightarrow> settled (clear_error s)"
  by (simp add: clear_error_def)

lemma settled_tool_done:
  assumes "settled s"
  shows "settled (on_tool_done tn now s)"
  unfolding on_tool_done_def Let_def case_prod_beta
  by (simp only: if_distrib [where f = settled] settled_simps if_cancel)
    (intro settled_release_if settled_release settled_clear_error; simp add: assms)

lemma settled_notes:
  "settled s \<Longrightarrow> settled (on_notification t b now s)"
  "settled s \<Longrightarrow> settled (clear_kind k now s)"
  "settled s \<Longrightarrow> settled (on_git_branch br w now s)"
  "settled s \<Longrightarrow> settled (on_cwd_changed d p now s)"
proof -
  show "settled s \<Longrightarrow> settled (on_notification t b now s)" by (simp add: on_notification_def settled_signal blocking_kinds)
  show "settled s \<Longrightarrow> settled (clear_kind k now s)"
    using open_within_mono [OF open_step(1) [of "awaited s" s k now]] by (simp add: settled_def)
  show "settled s \<Longrightarrow> settled (on_git_branch br w now s)" by (simp add: on_git_branch_def Let_def split: option.split)
  show "settled s \<Longrightarrow> settled (on_cwd_changed d p now s)" by (simp add: on_cwd_changed_def Let_def split: option.split)
qed

lemma settled_subagent: "settled s \<Longrightarrow> settled (on_subagent e ty i m ts now s)"
  unfolding on_subagent_def Let_def by (simp add: settled_update open_turn_end)

lemma settled_hook: "settled s \<Longrightarrow> settled (emitHookEvent proves uuid now m s)"
proof -
  have "settled s \<Longrightarrow> settled (HOOK_HANDLERS uuid now m s)" for s
    by (cases m) (simp_all add: settled_progress settled_gate settled_promote_request settled_permission_request
      settled_tool_done settled_failures settled_plan_ready settled_turn_start settled_elicitation settled_question
      settled_release settled_notes settled_subagent on_file_change_def on_session_end_def on_compact_def on_todo_def
      on_session_diff_def)
  then show "settled s \<Longrightarrow> settled (emitHookEvent proves uuid now m s)" by (simp add: emitHookEvent_def)
qed

lemma settled_file_checked: "settled s \<Longrightarrow> settled (file_checked ignored now s)"
  by (simp add: file_checked_def Let_def split: list.split option.split)

lemma feed_is_feed: "feed_attention c q now t = (case c of
     Some k \<Rightarrow> (cancelDeferred ApiError (cancelDeferred ToolFailure (fst (feed_tracker (In_signal k now) None t))), snd (feed_tracker (In_signal k now) None t))
   | None \<Rightarrow> if q then (t, []) else
       (cancelDeferred ApiError (cancelDeferred ToolFailure (fst (feed_tracker (In_output now) None t))), snd (feed_tracker (In_output now) None t)))"
  by (simp add: feed_attention_def feed_tracker_def Let_def split: option.split prod.split)

lemma candidate_nonblocking: "candidateKind ex ti sg = Some k \<Longrightarrow> k \<notin> ACK_BLOCKING_KINDS"
  by (auto simp: candidateKind_def blocking_kinds split: if_splits)

lemma tracker_of_scan: "ps_tracker (snd (snd (track_modes pp data pushed tot p))) = ps_tracker p"
  "ps_tracker (snd (snd (track_title sg p))) = ps_tracker p"
  by (simp_all add: track_modes_def track_title_def Let_def split: prod.split option.split)

lemma open_onData:
  assumes "open_within A (ps_tracker p)"
  shows "open_within A (ps_tracker (fst (onData pp data q tot now p)))"
proof -
  obtain c t where t: "ps_tracker (fst (onData pp data q tot now p)) = fst (feed_attention c q now t)"
      and c: "\<And>k. c = Some k \<Longrightarrow> k \<notin> ACK_BLOCKING_KINDS" and p: "t = ps_tracker p"
    by (fastforce simp: onData_def Let_def case_prod_beta tracker_of_scan dest: candidate_nonblocking)
  then show ?thesis using assms
    by (auto simp: feed_is_feed split: option.split intro!: open_cancel open_feed)
qed

lemma awaited_pty [simp]:
  "awaited (s\<lparr>pty := p\<rparr>) = awaited s" "awaited (s\<lparr>alive := a, pty := p\<rparr>) = awaited s" "awaited (s\<lparr>alive := a\<rparr>) = awaited s"
  by (simp_all add: awaited_def)

lemma settled_output: "settled s \<Longrightarrow> settled (session_onData pp data q tot now s)"
  unfolding session_onData_def using open_onData [of "awaited s" "pty s" pp data q tot now]
  by (cases "onData pp data q tot now (pty s)") (auto simp: settled_def)

lemma settled_write: "settled (snd (writeToPty data now s)) = settled s"
  by (simp add: writeToPty_def Let_def settled_def awaited_def)

lemma settled_turn_latches: "settled (snd (clearTurnLatches s)) = settled s"
  by (simp add: clearTurnLatches_def Let_def settled_def awaited_def put_tracker_def)

lemma settled_keys: "settled s \<Longrightarrow> settled (pty_write data now s)"
  unfolding pty_write_def noteUserInput_def Let_def case_prod_beta
  by (simp add: settled_write settled_turn_latches settled_call open_feed)

lemma settled_agent_turn: "settled s \<Longrightarrow> settled (beginAgentTurn now s)"
  unfolding beginAgentTurn_def Let_def case_prod_beta by (simp add: settled_turn_latches)

lemma settled_tick: "settled s \<Longrightarrow> settled (session_tick ctx now s)"
  unfolding session_tick_def Let_def
  by (auto simp: open_feed open_drain blocking_kinds intro!: settled_call)

lemma settled_acknowledge: "settled s \<Longrightarrow> settled (snd (acknowledge now s))"
  using open_acknowledge [of "awaited s" "tracker s" now]
  by (auto simp: acknowledge_def settled_def split: prod.split)

lemma awaited_resolved: "v \<noteq> PPending \<Longrightarrow>
    awaited (s\<lparr>promoteState := v, promoteSummary := b, promoteSuggestedBaseRef := c, promoteAt := a\<rparr>) = awaited s - {PromoteRequest}"
  by (simp add: awaited_def) blast

lemma settled_promote: "settled s \<Longrightarrow> settled (resolvePromote d now s)"
  unfolding resolvePromote_def clear_kind_def [symmetric]
  by (rule settled_unlatched [of s]) (cases d; simp add: awaited_resolved)+

lemma settled_sweep_error: "settled s \<Longrightarrow> settled (snd (clearStaleErrorIfOlderThan age now s))"
  by (simp add: clearStaleErrorIfOlderThan_def split: option.split)

lemma settled_exit: "settled s \<Longrightarrow> settled (clientExit inc tt now s)"
  by (simp add: clientExit_def Let_def emitTitle_def settled_def open_deferred_cleared split: option.split)

text \<open>The sweep releases each latch together with its kind.\<close>

lemma gates_cleared:
  assumes "settled s"
  shows "settled (clear_kind Attention.ReviewGate now (call_gates gate_clearStale now s))"
proof -
  obtain g evs where r: "gate_clearStale (gates s) = (g, evs)" by fastforce
  let ?s = "s\<lparr>gates := g\<rparr>" and ?s' = "call_gates gate_clearStale now s"
  have "gr_state g = GIdle" using r by (auto simp: gate_clearStale_def gate_resetSummary_def split: prod.splits)
  then have a: "awaited ?s' = awaited s - {Attention.ReviewGate}"
    by (simp add: call_gates_def r gate_effects_kept) (auto simp: awaited_def)
  have "open_within (awaited s) (tracker ?s)" using assms by (simp add: settled_def)
  then have "open_within (awaited s) (tracker ?s')"
    using gate_effects_open [of "awaited s" ?s evs now] open_within_mono
    by (auto simp: call_gates_def r split: if_splits)
  from open_step(1) [OF this, of Attention.ReviewGate now] show ?thesis by (simp add: settled_def a)
qed

lemma awaited_released_latches [simp]:
  "awaited (s\<lparr>permissionState := NotPending, permissionAt := a, pendingPermissionTool := b\<rparr>) = awaited s - {PermissionRequest}"
  "awaited (s\<lparr>planState := NotPending, planAt := a\<rparr>) = awaited s - {PlanReady}"
  "awaited (s\<lparr>elicitationState := NotPending, elicitationAt := a, elicitationServer := b\<rparr>) = awaited s - {Elicitation}"
  "awaited (s\<lparr>promoteState := PIdle, promoteAt := a, promoteSummary := b, promoteSuggestedBaseRef := c\<rparr>) = awaited s - {PromoteRequest}"
  subgoal by (auto simp: awaited_def)
  subgoal by (auto simp: awaited_def)
  subgoal by (auto simp: awaited_def)
  subgoal by (auto simp: awaited_def)
  done

lemma settled_sweep: "settled s \<Longrightarrow> settled (snd (sweepStaleLatches staleLatches b y now s))"
  by (rule sweep_keeps) (simp_all add: staleLatches_def settled_unlatched gates_cleared settled_update)

lemma settled_stale: "settled s \<Longrightarrow> settled (snd (clearStaleBlockedIfOlderThan b y now s))"
  using settled_sweep [of s b y now]
  by (auto simp: clearStaleBlockedIfOlderThan_def Let_def split: prod.splits)

text \<open>A respawn starts with a tracker that holds nothing.\<close>

lemma alive_calls [simp]:
  "alive (call_tracker f now s) = alive s" "alive (update_tracker g s) = alive s" "alive (emitEvent k p now s) = alive s"
  by (simp_all add: call_eqs)

lemma restore_kept:
  "tracker (restore_error st s) = tracker s" "alive (restore_error st s) = alive s"
  "tracker (restore_promote st s) = tracker s" "alive (restore_promote st s) = alive s"
  "tracker (stampRestoredLatches now s) = tracker s" "alive (stampRestoredLatches now s) = alive s"
  "tracker (setCodexTranscriptPath p s) = tracker s" "alive (setCodexTranscriptPath p s) = alive s"
  by (simp_all add: restore_error_def restore_promote_def stampRestoredLatches_def setCodexTranscriptPath_def Let_def)

lemma restore_codex_kept: "tracker (restore_codex st s) = tracker s" "alive (restore_codex st s) = alive s"
  by (simp_all add: restore_codex_def Let_def restore_kept split: option.split)

lemma restore_alive:
  "alive (restore_gate lapse now st s) = alive s" "alive (restore_kind kn now st s) = alive s"
  "alive (restore_rest now st s) = alive s" "alive (restore_turn st s) = alive s"
  subgoal by (simp add: restore_gate_def)
  subgoal by (simp add: restore_kind_def split: option.split)
  subgoal by (simp add: restore_rest_def Let_def)
  subgoal by (simp add: restore_turn_def)
  done

lemma open_restore: "open_within {} (tracker s) \<Longrightarrow> open_within {} (tracker (applyStoredState lapse False modes now st s))"
proof -
  assume s: "open_within {} (tracker s)"
  have gate: "open_within {} (tracker (restore_gate lapse now st s'))" if "open_within {} (tracker s')" for s'
    using open_clear_kind [OF that, of Attention.ReviewGate now] that by (simp add: restore_gate_def)
  have rest: "open_within {} (tracker (restore_rest now st s'))" if "open_within {} (tracker s')" for s'
    using that by (simp add: restore_rest_def Let_def split: option.split)
  have turn: "open_within {} (tracker (restore_turn st s'))" if "open_within {} (tracker s')" for s'
    using that by (simp add: restore_turn_def Let_def split: option.split)
  have kind: "restore_kind False now st s' = s'" for s' by (simp add: restore_kind_def split: option.split)
  let ?s5 = "restore_rest now st (restore_promote st (restore_gate lapse now st (restore_error st s)))"
  have "open_within {} (tracker ?s5)" using s by (intro rest) (simp add: restore_kept gate)
  then show ?thesis
    unfolding applyStoredState_def Let_def kind by (intro turn) (simp add: restore_kept restore_codex_kept)
qed

lemma settled_spawn: "settled s \<or> \<not> alive s \<Longrightarrow> settled (session_spawn ok now s)"
proof -
  have reset: "open_within {} (tracker (spawn_reset s))"
    by (simp add: spawn_reset_def) (simp add: open_within_def raised_def clearDeferred_def jm_has_def,
      simp add: INITIAL_ATTENTION_STATE_def)
  have "settled (s'\<lparr>alive := ok\<rparr>)" if "open_within {} (tracker s')" for s'
    by (rule settledI [where A = "{}"]) (use that in simp_all)
  with reset open_restore [OF reset] show "settled s \<or> \<not> alive s \<Longrightarrow> settled (session_spawn ok now s)"
    by (auto simp: session_spawn_def Let_def)
qed

lemma new_session_not_alive: "\<not> alive (new_session cwd h c file ex now)"
proof -
  have "alive (applyStoredState l k m now st s) = alive s" for l k m st s
    by (simp add: applyStoredState_def Let_def restore_kept restore_codex_kept restore_alive)
  then show ?thesis by (simp add: new_session_def blank_session_def Let_def split: option.split)
qed

lemma settled_session_step: "settled s \<Longrightarrow> settled (session_step s op)"
  by (cases op) (simp_all add: settled_hook settled_file_checked settled_output emitTitle_def settled_keys writeAgentInput_def
      settled_write settled_agent_turn settled_tick settled_acknowledge settled_resolveGate settled_promote settled_stale
      settled_sweep_error settled_exit settled_spawn new_session_not_alive)

interpretation session: step_machine session_step "\<lambda>_. True" settled
  by unfold_locales (rule settled_session_step)

definition started :: "string \<Rightarrow> bool \<Rightarrow> string \<Rightarrow> bool \<Rightarrow> int \<Rightarrow> live_session" where
  "started cwd hooks codexHome socketExists now = new_session cwd hooks codexHome None socketExists now"

lemma started_eq: "started cwd h c ex now = (blank_session cwd h c)\<lparr>stateRestored := \<not> ex\<rparr>"
  by (simp add: started_def new_session_def Let_def blank_session_def)

lemma settled_started: "settled (started cwd h c ex now)"
proof (rule settledI)
  have "tracker (started cwd h c ex now) = new_tracker" by (simp add: started_eq blank_session_def new_pty_def)
  then show "open_within {} (tracker (started cwd h c ex now))"
    by (simp only:) (simp add: open_within_def raised_def new_tracker_def jm_has_def, simp add: INITIAL_ATTENTION_STATE_def)
qed simp

lemma settled_run: "settled (foldl session_step (started cwd h c ex t) ops)"
  by (rule session.inv_run [OF settled_started]) (simp add: list_all_iff)

subsection \<open>Every latch has its time\<close>

definition task_part :: "attention_tracker \<Rightarrow> Attention.background_task list \<times> int option" where
  "task_part t = (backgroundTasks t, backgroundTasksAt t)"

definition stamped :: "live_session \<Rightarrow> bool" where
  "stamped s \<longleftrightarrow> (permissionState s = NotPending \<or> permissionAt s \<noteq> None) \<and> (planState s = NotPending \<or> planAt s \<noteq> None)
     \<and> (promoteState s \<noteq> PPending \<or> promoteAt s \<noteq> None) \<and> (elicitationState s = NotPending \<or> elicitationAt s \<noteq> None)
     \<and> (questionState s = NotPending \<or> questionAt s \<noteq> None) \<and> (errorState s = NoError \<or> errorAt s \<noteq> None)
     \<and> (compactState s = NotCompacting \<or> compactAt s \<noteq> None)
     \<and> 0 \<le> subagentCount s \<and> (subagentCount s = 0 \<or> subagentCountAt s \<noteq> None)
     \<and> (Attention.filterOutstandingBackgroundTasks (fst (task_part (tracker s))) = [] \<or> snd (task_part (tracker s)) \<noteq> None)"

lemma task_kept [simp]:
  "task_part (fst (clearIfConfirmedKind k now t)) = task_part t"
  "task_part (fst (clearAttention now t)) = task_part t"
  "task_part (fst (emitAttentionSignalWithExtras k x now t)) = task_part t"
  "task_part (emitAttentionSignalDeferred k x al now t) = task_part t"
  "task_part (cancelDeferred k t) = task_part t"
  "task_part (fst (feed_tracker i y t)) = task_part t"
  "task_part (clearDeferred t) = task_part t"
  "task_part (resolveDeferredTurnEnd now t) = task_part t"
  by (simp_all add: task_part_def clearIfConfirmedKind_def clearAttention_def emitAttentionSignalWithExtras_def Let_def
      emitAttentionSignalDeferred_def cancelDeferred_def feed_tracker_def applyAttentionTransition_def clearDeferred_def
      resolveDeferredTurnEnd_def)

lemma task_fields [simp]:
  "task_part (t\<lparr>lastTurnEndedAt := a\<rparr>) = task_part t" "task_part (t\<lparr>turnEndPingSent := b\<rparr>) = task_part t"
  "task_part (t\<lparr>workFinishedAt := c\<rparr>) = task_part t" "task_part (t\<lparr>turnPromptSource := d\<rparr>) = task_part t"
  "task_part (t\<lparr>at_state := e\<rparr>) = task_part t"
  by (simp_all add: task_part_def)

lemma task_drain [simp]: "task_part (fst (drainDeferred now t)) = task_part t"
proof -
  have "task_part (fst (drain_loop now es t)) = task_part t" for es
    by (induction now es t rule: drain_loop.induct) (auto simp: task_part_def Let_def split: prod.splits)
  then show ?thesis by (simp add: drainDeferred_def)
qed

lemma task_acknowledge [simp]: "task_part (fst (snd (acknowledgeAttention now t))) = task_part t"
  using task_kept(2) [of now t]
  by (auto simp: acknowledgeAttention_def task_part_def split: prod.splits option.splits)

lemma stamped_event [simp]:
  "stamped (emitEvent k p now s) = stamped s" "stamped (emit_all evs now s) = stamped s"
  by (simp_all add: stamped_def emitEvent_def emit_all_def)

lemma stamped_call: "(\<And>t. task_part (fst (f t)) = task_part t) \<Longrightarrow> stamped (call_tracker f now s) = stamped s"
  by (simp add: stamped_def call_eqs)

lemma stamped_update: "(\<And>t. task_part (f t) = task_part t) \<Longrightarrow> stamped (update_tracker f s) = stamped s"
  by (simp add: stamped_def call_eqs)

lemma stamped_calls [simp]:
  "stamped (signal k x now s) = stamped s" "stamped (defer_signal k x al now s) = stamped s" "stamped (clear_kind k now s) = stamped s"
  by (simp_all add: signal_def defer_signal_def clear_kind_def stamped_call stamped_update)

lemma stamped_release [simp]:
  "stamped s \<Longrightarrow> stamped (release_permission now s)"
  "stamped s \<Longrightarrow> stamped (release_plan now s)"
  "stamped s \<Longrightarrow> stamped (release_question now s)"
  "stamped s \<Longrightarrow> stamped (clear_error s)"
  by (simp_all add: release_permission_def release_plan_def release_question_def clear_error_def) (simp_all add: stamped_def)

lemma stamped_set_tasks [simp]: "stamped s \<Longrightarrow> stamped (set_tasks ts now s)"
  by (simp add: set_tasks_def update_tracker_eq stamped_def setBackgroundTasks_def task_part_def split: option.split)

lemma stamped_turn_done: "stamped s \<Longrightarrow> stamped (turn_done w now s)"
  unfolding turn_done_def by (simp add: stamped_update)

lemma stamped_gate_effects: "stamped (foldl (gate_effect now) s evs) = stamped s"
proof (induction evs arbitrary: s)
  case (Cons ev evs)
  then show ?case by (cases ev) (simp_all add: stamped_call)
qed simp

lemma stamped_gates [simp]: "stamped (s\<lparr>gates := g\<rparr>) = stamped s"
  by (simp add: stamped_def)

lemma stamped_call_gates [simp]: "stamped (call_gates f now s) = stamped s"
  by (simp add: call_gates_def stamped_gate_effects split: prod.split)

lemma stamped_simps [simp]:
  "stamped (s\<lparr>lastAssistantMessage := a1\<rparr>) = stamped s"
  "stamped (s\<lparr>currentTodo := a2\<rparr>) = stamped s"
  "stamped (s\<lparr>subagents := c1\<rparr>) = stamped s"
  "stamped (s\<lparr>fileChangeQueue := c2\<rparr>) = stamped s"
  "stamped (s\<lparr>endedReason := d1, exitCode := d2\<rparr>) = stamped s"
  "stamped (s\<lparr>liveBranch := e1\<rparr>) = stamped s"
  "stamped (s\<lparr>agentSessionId := e2\<rparr>) = stamped s"
  "stamped (s\<lparr>agentTranscriptPath := e3\<rparr>) = stamped s"
  "stamped (s\<lparr>hooksProven := h1\<rparr>) = stamped s"
  "stamped (s\<lparr>lastUserInputAt := h2\<rparr>) = stamped s"
  "stamped (s\<lparr>agentPromptAt := h3\<rparr>) = stamped s"
  "stamped (s\<lparr>log := h4\<rparr>) = stamped s"
  "stamped (s\<lparr>alive := h5\<rparr>) = stamped s"
  "stamped (set_liveCwd d s) = stamped s"
  "stamped (registerPendingGate i p now s) = stamped s"
  by (simp_all add: stamped_def set_liveCwd_def registerPendingGate_def)

lemma stamped_latched [simp]:
  "stamped s \<Longrightarrow> stamped (s\<lparr>permissionState := Pending, permissionAt := Some a, pendingPermissionTool := b\<rparr>)"
  "stamped s \<Longrightarrow> stamped (s\<lparr>planState := Pending, planAt := Some a\<rparr>)"
  "stamped s \<Longrightarrow> stamped (s\<lparr>promoteState := PPending, promoteAt := Some a, promoteSummary := m, promoteSuggestedBaseRef := d\<rparr>)"
  "stamped s \<Longrightarrow> stamped (s\<lparr>elicitationState := Pending, elicitationAt := Some a, elicitationServer := b\<rparr>)"
  "stamped s \<Longrightarrow> stamped (s\<lparr>questionState := Pending, questionHeader := b, questionAt := Some a\<rparr>)"
  "stamped s \<Longrightarrow> stamped (s\<lparr>elicitationState := NotPending, elicitationServer := None, elicitationAt := None\<rparr>)"
  "stamped s \<Longrightarrow> stamped (s\<lparr>questionState := NotPending, questionHeader := None, questionAt := None\<rparr>)"
  "stamped s \<Longrightarrow> stamped (s\<lparr>errorState := NoError, errorAt := None, errorDetail := None\<rparr>)"
  "stamped s \<Longrightarrow> stamped (s\<lparr>errorState := er, errorAt := Some a, errorDetail := dt\<rparr>)"
  "stamped s \<Longrightarrow> stamped (s\<lparr>errorState := er, errorAt := Some a, errorDetail := dt, subagents := sa\<rparr>)"
  "stamped s \<Longrightarrow> stamped (s\<lparr>compactState := Compacting, compactAt := Some a\<rparr>)"
  "stamped s \<Longrightarrow> stamped (s\<lparr>compactState := NotCompacting, compactAt := None\<rparr>)"
  by (simp_all add: stamped_def)

lemma stamped_turn_start: "stamped s \<Longrightarrow> stamped (on_turn_start src now s)"
  by (simp add: on_turn_start_def Let_def) (simp add: call_eqs stamped_def task_part_def Attention.filterOutstandingBackgroundTasks_def)

lemma stamped_subagent: "stamped s \<Longrightarrow> stamped (on_subagent e ty i m ts now s)"
proof -
  assume s: "stamped s"
  have c: "stamped (s\<lparr>subagentCount := max 0 (subagentCount s + (if e = Started then 1 else - 1)),
        subagentCountAt := (if e = Started \<and> max 0 (subagentCount s + (if e = Started then 1 else - 1)) > 0 then Some now
          else if e \<noteq> Started \<and> max 0 (subagentCount s + (if e = Started then 1 else - 1)) = 0 then None else subagentCountAt s),
        subagents := sa\<rparr>)" for sa
    using s by (cases e) (auto simp: stamped_def)
  show ?thesis unfolding on_subagent_def Let_def using c
    by (simp add: stamped_update del: max_def)
qed

lemma stamped_progress: "stamped s \<Longrightarrow> stamped (on_progress p l ts d w now s)"
  unfolding on_progress_def Let_def
  by (simp add: stamped_update stamped_turn_done split: option.split)

lemma stamped_tool_done:
  assumes "stamped s"
  shows "stamped (on_tool_done tn now s)"
proof -
  have "stamped (snd r) \<Longrightarrow> (\<And>s. stamped s \<Longrightarrow> stamped (f s)) \<Longrightarrow> stamped (snd (release_if c f r))" for r c f
    by (simp add: release_if_def)
  then show ?thesis unfolding on_tool_done_def Let_def case_prod_beta using assms by simp
qed

lemma stamped_hook: "stamped s \<Longrightarrow> stamped (emitHookEvent proves uuid now m s)"
proof -
  have "stamped s \<Longrightarrow> stamped (HOOK_HANDLERS uuid now m s)" for s
  proof (cases m)
    case (HSubagent e ty i m' ts)
    then show "stamped s \<Longrightarrow> ?thesis" by (simp add: stamped_subagent)
  next
    case (HProgress p l ts d w)
    then show "stamped s \<Longrightarrow> ?thesis" by (simp add: stamped_progress)
  next
    case (HReviewGate st p g)
    then show "stamped s \<Longrightarrow> ?thesis"
      by (simp add: on_review_gate_def on_gate_waiting_def on_gate_decided_def resolveGate_def split: gate_wire.split option.split list.split)
  qed (simp_all add: stamped_turn_start stamped_tool_done on_notification_def on_file_change_def on_promote_request_def
      on_permission_request_def on_stop_failure_def on_tool_failure_def on_session_end_def on_plan_ready_def on_git_branch_def
      on_cwd_changed_def on_compact_def on_elicitation_def on_question_def on_todo_def on_session_diff_def Let_def
      stamped_update split: option.split)
  then show "stamped s \<Longrightarrow> stamped (emitHookEvent proves uuid now m s)" by (simp add: emitHookEvent_def)
qed

lemma stamped_onData: "task_part (ps_tracker (fst (onData pp data q tot now p))) = task_part (ps_tracker p)"
proof -
  obtain c t where t: "ps_tracker (fst (onData pp data q tot now p)) = fst (feed_attention c q now t)" and p: "t = ps_tracker p"
    by (fastforce simp: onData_def Let_def case_prod_beta tracker_of_scan)
  then show ?thesis by (simp add: feed_is_feed split: option.split)
qed

lemma stamped_pty: "task_part (ps_tracker p) = task_part (tracker s) \<Longrightarrow> stamped (s\<lparr>pty := p\<rparr>) = stamped s"
  by (simp add: stamped_def)

lemma stamped_output: "stamped s \<Longrightarrow> stamped (session_onData pp data q tot now s)"
  unfolding session_onData_def using stamped_onData [of pp data q tot now "pty s"]
  by (cases "onData pp data q tot now (pty s)") (simp add: stamped_pty)

lemma stamped_write [simp]: "stamped (snd (writeToPty data now s)) = stamped s"
  by (simp add: writeToPty_def Let_def stamped_def)

lemma stamped_turn_latches [simp]: "stamped s \<Longrightarrow> stamped (snd (clearTurnLatches s))"
  by (simp add: clearTurnLatches_def Let_def put_tracker_def stamped_def task_part_def Attention.filterOutstandingBackgroundTasks_def)

lemma stamped_keys: "stamped s \<Longrightarrow> stamped (pty_write data now s)"
  unfolding pty_write_def noteUserInput_def Let_def case_prod_beta by (simp add: stamped_call)

lemma stamped_agent_turn: "stamped s \<Longrightarrow> stamped (beginAgentTurn now s)"
  unfolding beginAgentTurn_def Let_def case_prod_beta by simp

lemma stamped_tick: "stamped s \<Longrightarrow> stamped (session_tick ctx now s)"
  unfolding session_tick_def Let_def by (simp add: stamped_call)

lemma stamped_acknowledge:
  assumes "stamped s"
  shows "stamped (snd (acknowledge now s))"
proof -
  obtain ok t evs where r: "acknowledgeAttention now (tracker s) = (ok, t, evs)" by (cases "acknowledgeAttention now (tracker s)")
  have "task_part t = task_part (tracker s)" using task_acknowledge [of now "tracker s"] unfolding r by simp
  then show ?thesis using assms by (simp add: acknowledge_def r put_tracker_def stamped_pty)
qed

lemma stamped_promote: "stamped s \<Longrightarrow> stamped (resolvePromote d now s)"
  unfolding resolvePromote_def by (cases d) (simp_all add: stamped_call, simp_all add: stamped_def)

lemma stamped_sweep: "stamped s \<Longrightarrow> stamped (snd (sweepStaleLatches staleLatches b y now s))"
proof (rule sweep_keeps)
  show "list_all (\<lambda>l. \<forall>s. stamped s \<longrightarrow> stamped (case sl_kind l of Some k \<Rightarrow> clear_kind k now (sl_clear l now s)
      | None \<Rightarrow> sl_clear l now s)) staleLatches"
    unfolding staleLatches_def
    by (simp add: stamped_pty update_tracker_eq) (simp add: stamped_def task_part_def Attention.filterOutstandingBackgroundTasks_def)
qed simp_all

lemma stamped_stale: "stamped s \<Longrightarrow> stamped (snd (clearStaleBlockedIfOlderThan b y now s))"
  using stamped_sweep [of s b y now] by (auto simp: clearStaleBlockedIfOlderThan_def Let_def split: prod.splits)

lemma stamped_sweep_error: "stamped s \<Longrightarrow> stamped (snd (clearStaleErrorIfOlderThan age now s))"
  by (simp add: clearStaleErrorIfOlderThan_def split: option.split)

lemma stamped_exit: "stamped s \<Longrightarrow> stamped (clientExit inc tt now s)"
  by (simp add: clientExit_def Let_def emitTitle_def stamped_update stamped_pty split: option.split)

text \<open>What a restored session has of the snapshot, and what is stamped anew.\<close>

lemma restored_latches:
  fixes s0 s :: live_session and now :: int and lapse kn :: bool
  defines "r \<equiv> restore_rest now (collectState s0) (restore_kind kn now (collectState s0) (restore_promote (collectState s0)
      (restore_gate lapse now (collectState s0) (restore_error (collectState s0) s))))"
  shows "permissionState r = permissionState s0" "planState r = planState s0" "promoteState r = promoteState s0"
    "elicitationState r = elicitationState s0" "questionState r = questionState s0" "questionAt r = questionAt s0"
    "errorState r = errorState s0" "errorAt r = errorAt s0" "compactState r = compactState s0" "subagentCount r = subagentCount s0"
    "task_part (tracker r) = (backgroundTasks (tracker s0),
       if Attention.filterOutstandingBackgroundTasks (backgroundTasks (tracker s0)) = [] then None else Some now)"
  unfolding r_def
  by (simp_all add: restore_rest_def Let_def update_tracker_eq restore_kind_def restore_promote_def restore_gate_def
      restore_error_def collectState_def restored_def call_tracker_eq emitEvent_def task_part_def setBackgroundTasks_def
      split: option.split)

lemma stamped_tail:
  "stamped (restore_turn st s) = stamped s" "stamped (restore_codex st s) = stamped s"
  subgoal by (simp add: restore_turn_def Let_def stamped_update split: option.split)
  subgoal by (simp add: restore_codex_def Let_def setCodexTranscriptPath_def stamped_def split: option.split)
  done

lemma stampLatch_None: "(stampLatch now a t = None) = (\<not> a \<and> t = None)"
  by (auto simp: stampLatch_def)

lemma stamped_restore: "stamped s0 \<Longrightarrow> stamped (applyStoredState lapse kn modes now (collectState s0) s)"
proof -
  assume s0: "stamped s0"
  define r where "r = restore_rest now (collectState s0) (restore_kind kn now (collectState s0) (restore_promote (collectState s0)
      (restore_gate lapse now (collectState s0) (restore_error (collectState s0) s))))"
  note f = restored_latches [of now s0 kn lapse s, folded r_def]
  have "stamped (stampRestoredLatches now r)" using s0
    by (simp add: stamped_def stampRestoredLatches_def f stampLatch_None) (auto simp: task_part_def)
  then show ?thesis
    by (simp add: applyStoredState_def Let_def r_def [symmetric] stamped_tail stamped_pty)
qed

lemma stamped_reset: "stamped (spawn_reset s)"
  by (simp add: spawn_reset_def update_tracker_eq stamped_def clearDeferred_def task_part_def Attention.filterOutstandingBackgroundTasks_def)

lemma stamped_spawn: "stamped s \<Longrightarrow> stamped (session_spawn ok now s)"
  by (simp add: session_spawn_def Let_def stamped_restore stamped_reset)

lemma stamped_new: "stamped s0 \<Longrightarrow> stamped (new_session cwd h c (Some (collectState s0)) ex now)"
proof -
  have "stamped (s\<lparr>stateRestored := b\<rparr>) = stamped s" for s b by (simp add: stamped_def)
  then show "stamped s0 \<Longrightarrow> stamped (new_session cwd h c (Some (collectState s0)) ex now)"
    by (simp add: new_session_def Let_def stamped_restore)
qed

lemma stamped_step: "stamped s \<Longrightarrow> stamped (session_step s op)"
  by (cases op) (simp_all add: stamped_hook file_checked_def stamped_output emitTitle_def stamped_keys writeAgentInput_def
      stamped_agent_turn stamped_tick stamped_acknowledge resolveGate_def stamped_promote stamped_stale stamped_sweep_error
      stamped_exit stamped_spawn stamped_new Let_def split: list.split option.split)

interpretation stamps: step_machine session_step "\<lambda>_. True" stamped
  by unfold_locales (rule stamped_step)

lemma stamped_run: "stamped (foldl session_step (started cwd h c ex t) ops)"
proof (rule stamps.inv_run)
  show "stamped (started cwd h c ex t)"
    by (simp add: started_eq blank_session_def stamped_def new_pty_def new_tracker_def task_part_def Attention.filterOutstandingBackgroundTasks_def)
qed (simp add: list_all_iff)

end
