(* ===== verification/SessionPromises.thy ===== *)
theory SessionPromises
  imports SessionHooks
begin

section \<open>What a live session promises\<close>

text \<open>
  The properties of \<open>SessionState\<close> and \<open>SessionHooks\<close> over whole histories of a session: decisions and
  the attention signal, stale latches, turns, events and input.
\<close>

subsection \<open>Decisions and attention\<close>

definition shown_status :: "int \<Rightarrow> string option \<Rightarrow> int \<Rightarrow> live_session \<Rightarrow> session_status" where
  "shown_status idleThreshold portReason now s = ds_status (deriveSessionStatus
     \<lparr>in_dbStatus = Active, in_hostReachable = Some True, in_hostRefusedStatus = None, in_hostBusy = None,
      in_info = toInfo idleThreshold portReason now s\<rparr>)"

lemma mem_awaited [simp]:
  "PermissionRequest \<in> awaited s \<longleftrightarrow> permissionState s = Pending"
  "PlanReady \<in> awaited s \<longleftrightarrow> planState s = Pending"
  "Attention.ReviewGate \<in> awaited s \<longleftrightarrow> gr_state (gates s) = GWaiting"
  "PromoteRequest \<in> awaited s \<longleftrightarrow> promoteState s = PPending"
  "Elicitation \<in> awaited s \<longleftrightarrow> elicitationState s = Pending"
  "Question \<in> awaited s \<longleftrightarrow> questionState s = Pending"
  by (simp_all add: awaited_def)

lemma awaited_blocking: "awaited s \<subseteq> ACK_BLOCKING_KINDS"
  unfolding awaited_def blocking_kinds by blast

lemma awaited_decisions: "awaited s = {} \<longleftrightarrow> \<not> decision_pending s"
proof -
  have "awaited s = {} \<longleftrightarrow> (\<forall>k \<in> ACK_BLOCKING_KINDS. k \<notin> awaited s)" using awaited_blocking [of s] by blast
  also have "\<dots> \<longleftrightarrow> \<not> decision_pending s" unfolding blocking_kinds decision_pending_def by simp blast
  finally show ?thesis .
qed

lemma acknowledge_iff:
  assumes "settled s"
  shows "fst (acknowledge now s) \<longleftrightarrow> \<not> decision_pending s"
proof (cases "decision_pending s")
  case True
  then show ?thesis by (simp add: acknowledge_def)
next
  case False
  then have "awaited s = {}" by (simp add: awaited_decisions)
  with assms have "\<forall>k \<in> ACK_BLOCKING_KINDS. confirmedKind (at_state (tracker s)) \<noteq> Some k"
    by (auto simp: settled_def open_within_def raised_def)
  then show ?thesis using False
    by (auto simp: acknowledge_def acknowledgeAttention_def split: prod.split option.split)
qed

lemma no_decision_needs_input:
  assumes "settled s"
  shows "\<not> (shown_status th pr now s = NeedsInput \<and> (\<exists>k \<in> ACK_BLOCKING_KINDS. confirmedKind (at_state (tracker s)) = Some k))"
proof
  assume a: "shown_status th pr now s = NeedsInput \<and> (\<exists>k \<in> ACK_BLOCKING_KINDS. confirmedKind (at_state (tracker s)) = Some k)"
  then have "awaited s \<noteq> {}" using assms by (auto simp: settled_def open_within_def raised_def)
  then have "decision_pending s" by (simp add: awaited_decisions)
  with a show False
    by (auto simp: shown_status_def deriveSessionStatus_def Let_def toInfo_def decision_pending_def split: if_splits)
qed

text \<open>
  C1: A decision flag is never orphaned. After any history of a session (hooks, output, keystrokes,
  timers, sweeps, exits, respawns, restarts of the server), every decision its attention signal shows
  or is about to show is one the session still waits for by its own latch; so an acknowledge from the
  user is refused exactly while a decision is pending, and a session that merely reads "needs input"
  never does so for a decision.
\<close>

theorem decisions_have_their_latch:
  fixes cwd codexHome :: string and hooks ex :: bool and t :: int
  defines "after ops \<equiv> foldl session_step (started cwd hooks codexHome ex t) ops"
  shows "{k \<in> ACK_BLOCKING_KINDS. raised (tracker (after ops)) k} \<subseteq> awaited (after ops)
    \<and> (fst (acknowledge now (after ops)) \<longleftrightarrow> \<not> decision_pending (after ops))
    \<and> \<not> (shown_status threshold portReason now (after ops) = NeedsInput
         \<and> (\<exists>k \<in> ACK_BLOCKING_KINDS. confirmedKind (at_state (tracker (after ops))) = Some k))"
proof -
  have s: "settled (after ops)" unfolding after_def by (rule settled_run)
  then have "{k \<in> ACK_BLOCKING_KINDS. raised (tracker (after ops)) k} \<subseteq> awaited (after ops)"
    by (auto simp: settled_def open_within_def)
  with acknowledge_iff [OF s] no_decision_needs_input [OF s] show ?thesis by blast
qed

subsection \<open>Stale latches\<close>

lemma latch_views:
  assumes "m \<in> set staleLatches"
  shows "sl_isActive m (emitEvent k p now s) = sl_isActive m s" "sl_at m (emitEvent k p now s) = sl_at m s"
    and "sl_isActive m (clear_kind kd now s) = sl_isActive m s" "sl_at m (clear_kind kd now s) = sl_at m s"
proof -
  have t: "task_part (tracker (clear_kind kd now s)) = task_part (tracker s)" by (simp add: clear_kind_def)
  have "list_all (\<lambda>m. sl_isActive m (emitEvent k p now s) = sl_isActive m s \<and> sl_at m (emitEvent k p now s) = sl_at m s
      \<and> sl_isActive m (clear_kind kd now s) = sl_isActive m s \<and> sl_at m (clear_kind kd now s) = sl_at m s) staleLatches"
    using t by (simp add: staleLatches_def emitEvent_def outstandingTasks_def task_part_def)
      (simp add: clear_kind_def call_tracker_eq)
  with assms show "sl_isActive m (emitEvent k p now s) = sl_isActive m s" "sl_at m (emitEvent k p now s) = sl_at m s"
    "sl_isActive m (clear_kind kd now s) = sl_isActive m s" "sl_at m (clear_kind kd now s) = sl_at m s"
    by (auto simp: list_all_iff)
qed

lemma gate_effects_view:
  assumes "m \<in> set staleLatches"
  shows "sl_isActive m (foldl (gate_effect now) s evs) = sl_isActive m s \<and> sl_at m (foldl (gate_effect now) s evs) = sl_at m s"
proof (induction evs arbitrary: s)
  case (Cons ev evs)
  show ?case
    using Cons [of "gate_effect now s ev"] latch_views [OF assms]
    by (cases ev) (simp_all add: clear_kind_def [symmetric])
qed simp

lemma clear_view:
  assumes "l \<in> set staleLatches" and "m \<in> set staleLatches" and "sl_name l \<noteq> sl_name m"
  shows "sl_isActive m (sl_clear l now s) = sl_isActive m s \<and> sl_at m (sl_clear l now s) = sl_at m s"
proof (cases "sl_name l = ''gateState''")
  case True
  then have l: "sl_clear l = call_gates gate_clearStale" using assms(1) by (auto simp: staleLatches_def)
  have "list_all (\<lambda>m. sl_name m \<noteq> ''gateState'' \<longrightarrow> sl_isActive m (s\<lparr>gates := g\<rparr>) = sl_isActive m s
      \<and> sl_at m (s\<lparr>gates := g\<rparr>) = sl_at m s) staleLatches" for g
    by (simp add: staleLatches_def outstandingTasks_def)
  then have "sl_isActive m (s\<lparr>gates := g\<rparr>) = sl_isActive m s \<and> sl_at m (s\<lparr>gates := g\<rparr>) = sl_at m s" for g
    using assms(2,3) True by (auto simp: list_all_iff)
  then show ?thesis using gate_effects_view [OF assms(2)] by (simp add: l call_gates_def split: prod.split)
next
  case False
  have "list_all (\<lambda>l. sl_name l \<noteq> ''gateState'' \<longrightarrow> list_all (\<lambda>m. sl_name l \<noteq> sl_name m \<longrightarrow>
      sl_isActive m (sl_clear l now s) = sl_isActive m s \<and> sl_at m (sl_clear l now s) = sl_at m s) staleLatches) staleLatches"
    by (simp add: staleLatches_def outstandingTasks_def update_tracker_eq)
  then show ?thesis using assms False by (auto simp: list_all_iff)
qed

lemma gate_effects_gates: "gates (foldl (gate_effect now) s evs) = gates s"
proof (induction evs arbitrary: s)
  case (Cons ev evs)
  then show ?case by (cases ev) (simp_all add: call_eqs)
qed simp

lemma stale_gate_released: "gr_state (gates (call_gates gate_clearStale now s)) = GIdle"
  by (simp add: call_gates_def gate_effects_gates gate_clearStale_def gate_resetSummary_def split: prod.split)

lemma clear_inactive: "l \<in> set staleLatches \<Longrightarrow> \<not> sl_isActive l (sl_clear l now s)"
proof -
  have "list_all (\<lambda>l. \<not> sl_isActive l (sl_clear l now s)) staleLatches"
    by (simp add: staleLatches_def stale_gate_released outstandingTasks_def update_tracker_eq Attention.filterOutstandingBackgroundTasks_def)
  then show "l \<in> set staleLatches \<Longrightarrow> \<not> sl_isActive l (sl_clear l now s)" by (auto simp: list_all_iff)
qed

lemma gate_effects_activity: "lastActivityAt (pty (foldl (gate_effect now) s evs)) = lastActivityAt (pty s)"
proof (induction evs arbitrary: s)
  case (Cons ev evs)
  then show ?case by (cases ev) (simp_all add: call_eqs)
qed simp

lemma clear_activity: "l \<in> set staleLatches \<Longrightarrow> lastActivityAt (pty (sl_clear l now s)) = lastActivityAt (pty s)"
proof -
  have "lastActivityAt (pty (call_gates gate_clearStale now s)) = lastActivityAt (pty s)"
    by (simp add: call_gates_def gate_effects_activity split: prod.split)
  then have "list_all (\<lambda>l. lastActivityAt (pty (sl_clear l now s)) = lastActivityAt (pty s)) staleLatches"
    by (simp add: staleLatches_def update_tracker_eq)
  then show "l \<in> set staleLatches \<Longrightarrow> ?thesis" by (auto simp: list_all_iff)
qed

definition latch_due :: "int \<Rightarrow> int \<Rightarrow> int \<Rightarrow> live_session \<Rightarrow> stale_latch \<Rightarrow> bool" where
  "latch_due blocked busy now s l \<longleftrightarrow> (sl_isActive l s \<longrightarrow> isLatchStale (sl_at l s)
     (case sl_tier l of TierBlocked \<Rightarrow> blocked | TierBusy \<Rightarrow> busy) now (lastActivityAt (pty s)) BLOCKED_STALE_GRACE_MS)"

text \<open>One latch of the sweep: its own is released when due, the others and the clock of the output stay.\<close>

lemma sweep_latch_effect:
  fixes l :: stale_latch and s :: live_session and ch :: bool and blocked busy now :: int
  assumes "l \<in> set staleLatches"
  defines "s' \<equiv> snd (sweep_latch blocked busy now l (ch, s))"
  shows "latch_due blocked busy now s l \<Longrightarrow> \<not> sl_isActive l s'"
    and "m \<in> set staleLatches \<Longrightarrow> sl_name l \<noteq> sl_name m \<Longrightarrow> sl_isActive m s' = sl_isActive m s \<and> sl_at m s' = sl_at m s"
    and "lastActivityAt (pty s') = lastActivityAt (pty s)"
proof -
  show "latch_due blocked busy now s l \<Longrightarrow> \<not> sl_isActive l s'"
    using latch_views [OF assms(1)] clear_inactive [OF assms(1), of now s]
    by (simp add: s'_def sweep_latch_def Let_def latch_due_def clear_kind_def [symmetric] split: option.split)
  show "m \<in> set staleLatches \<Longrightarrow> sl_name l \<noteq> sl_name m \<Longrightarrow> sl_isActive m s' = sl_isActive m s \<and> sl_at m s' = sl_at m s"
    using latch_views clear_view [OF assms(1)]
    by (simp add: s'_def sweep_latch_def Let_def clear_kind_def [symmetric] split: option.split)
  show "lastActivityAt (pty s') = lastActivityAt (pty s)"
    using clear_activity [OF assms(1), of now s]
    by (simp add: s'_def sweep_latch_def Let_def call_tracker_eq emitEvent_def split: option.split)
qed

lemma sweep_releases:
  "set ls \<subseteq> set staleLatches \<Longrightarrow> distinct (map sl_name ls)
    \<Longrightarrow> (\<forall>l \<in> set ls. latch_due blocked busy now s l \<longrightarrow> \<not> sl_isActive l (snd (foldl (\<lambda>r l. sweep_latch blocked busy now l r) (ch, s) ls)))
      \<and> (\<forall>m \<in> set staleLatches. sl_name m \<notin> sl_name ` set ls \<longrightarrow>
            sl_isActive m (snd (foldl (\<lambda>r l. sweep_latch blocked busy now l r) (ch, s) ls)) = sl_isActive m s)"
proof (induction ls arbitrary: ch s)
  case (Cons l ls)
  obtain ch' s' where r: "sweep_latch blocked busy now l (ch, s) = (ch', s')" by fastforce
  note e = sweep_latch_effect [where l = l and s = s and ch = ch and blocked = blocked and busy = busy and now = now, unfolded r snd_conv]
  have l: "l \<in> set staleLatches" using Cons.prems by simp
  have other: "sl_name l \<noteq> sl_name m" if "m \<in> set ls" for m using Cons.prems(2) that by force
  have "latch_due blocked busy now s' m = latch_due blocked busy now s m" if "m \<in> set ls" for m
    using Cons.prems e [OF l] other [OF that] that by (auto simp: latch_due_def)
  with Cons.IH [of s' ch'] Cons.prems
  have ih: "\<forall>m \<in> set ls. latch_due blocked busy now s m \<longrightarrow> \<not> sl_isActive m (snd (foldl (\<lambda>r l. sweep_latch blocked busy now l r) (ch', s') ls))"
    "\<forall>m \<in> set staleLatches. sl_name m \<notin> sl_name ` set ls \<longrightarrow>
        sl_isActive m (snd (foldl (\<lambda>r l. sweep_latch blocked busy now l r) (ch', s') ls)) = sl_isActive m s'" by simp_all
  define z where "z = snd (foldl (\<lambda>r l. sweep_latch blocked busy now l r) (ch', s') ls)"
  have "sl_name l \<notin> sl_name ` set ls" using other by auto
  then have "latch_due blocked busy now s l \<longrightarrow> \<not> sl_isActive l z" using e(1) [OF l] ih(2) l by (simp add: z_def)
  moreover have "sl_isActive m z = sl_isActive m s" if "m \<in> set staleLatches" "sl_name m \<notin> sl_name ` set (l # ls)" for m
  proof -
    have "sl_name l \<noteq> sl_name m" using that(2) by auto
    then show ?thesis using ih(2) e(2) [OF l that(1)] that by (simp add: z_def)
  qed
  moreover have "snd (foldl (\<lambda>r l. sweep_latch blocked busy now l r) (ch, s) (l # ls)) = z" by (simp add: r z_def)
  ultimately show ?case using ih(1) by (simp add: z_def)
qed simp

lemma sweep_due_released:
  fixes s :: live_session and blocked busy now :: int
  defines "s' \<equiv> snd (clearStaleBlockedIfOlderThan blocked busy now s)"
  assumes "l \<in> set staleLatches" and "latch_due blocked busy now s l"
  shows "\<not> sl_isActive l s'"
proof -
  obtain c r where r: "sweepStaleLatches staleLatches blocked busy now s = (c, r)" by fastforce
  have "distinct (map sl_name staleLatches)" by (simp add: staleLatches_def)
  with assms(2,3) have "\<not> sl_isActive l r"
    using sweep_releases [of staleLatches blocked busy now s False] r by (simp add: sweepStaleLatches_def)
  moreover have "list_all (\<lambda>l. sl_isActive l (emitEvent k p now (r\<lparr>subagents := c\<rparr>)) = sl_isActive l r) staleLatches" for k p c
    by (simp add: staleLatches_def emitEvent_def outstandingTasks_def)
  moreover have "s' = r \<or> (\<exists>k p c. s' = emitEvent k p now (r\<lparr>subagents := c\<rparr>))"
    unfolding s'_def clearStaleBlockedIfOlderThan_def r Let_def by auto
  ultimately show ?thesis using assms(2) by (auto simp: list_all_iff)
qed

definition silent_since :: "int \<Rightarrow> live_session \<Rightarrow> bool" where
  "silent_since limit s \<longleftrightarrow> (case lastActivityAt (pty s) of None \<Rightarrow> True | Some a \<Rightarrow> a \<le> limit)"

lemma stamped_due:
  assumes "stamped s"
    and "\<forall>l \<in> set staleLatches. case sl_at l s of None \<Rightarrow> True
      | Some since \<Rightarrow> since + max blocked busy \<le> now \<and> silent_since (since + BLOCKED_STALE_GRACE_MS) s"
    and "l \<in> set staleLatches"
  shows "latch_due blocked busy now s l \<or> sl_name l = ''gateState'' \<and> gr_state (gates s) = GWaiting \<and> gr_at (gates s) = None"
proof -
  have "list_all (\<lambda>l. sl_name l \<noteq> ''gateState'' \<longrightarrow> sl_isActive l s \<longrightarrow> sl_at l s \<noteq> None) staleLatches"
    using assms(1) unfolding staleLatches_def stamped_def outstandingTasks_def task_part_def list.pred_inject stale_latch.simps
    by simp (metis less_irrefl)
  moreover have "list_all (\<lambda>l. sl_name l = ''gateState'' \<longrightarrow> sl_isActive l s = (gr_state (gates s) = GWaiting) \<and> sl_at l s = gr_at (gates s)) staleLatches"
    by (simp add: staleLatches_def)
  ultimately have "sl_isActive l s \<longrightarrow> sl_at l s \<noteq> None \<or> sl_name l = ''gateState'' \<and> gr_state (gates s) = GWaiting \<and> gr_at (gates s) = None"
    using assms(3) by (auto simp: list_all_iff)
  moreover have "case sl_at l s of None \<Rightarrow> True
      | Some since \<Rightarrow> since + max blocked busy \<le> now \<and> silent_since (since + BLOCKED_STALE_GRACE_MS) s" using assms(2,3) by blast
  ultimately show ?thesis
    by (auto simp: latch_due_def isLatchStale_def silent_since_def split: option.splits latch_tier.split)
qed

text \<open>
  C2: From any state a session can reach, once every latch it set is older than the limits of the sweep
  and its terminal has been silent since it was set (but for the grace), one sweep leaves no permission,
  plan, elicitation, question or promote request pending, no compaction, no subagent count and no
  outstanding background task. A review gate is released too, with one exception: a gate shown waiting
  without a time (a session can reach that by a respawn) is the only blocker that can remain.
\<close>

theorem silent_blockers_are_swept:
  fixes cwd codexHome :: string and hooks ex :: bool and t blocked busy now :: int and ops :: "session_op list"
  defines "s \<equiv> foldl session_step (started cwd hooks codexHome ex t) ops"
  defines "s' \<equiv> session_step s (Op_sweep blocked busy now)"
  assumes "\<forall>l \<in> set staleLatches. case sl_at l s of None \<Rightarrow> True
      | Some since \<Rightarrow> since + max blocked busy \<le> now \<and> silent_since (since + BLOCKED_STALE_GRACE_MS) s"
  shows "permissionState s' = NotPending \<and> planState s' = NotPending \<and> elicitationState s' = NotPending
    \<and> questionState s' = NotPending \<and> promoteState s' \<noteq> PPending
    \<and> compactState s' = NotCompacting \<and> subagentCount s' \<le> 0 \<and> outstandingTasks s' = []
    \<and> (gr_state (gates s') = GWaiting \<longrightarrow> gr_state (gates s) = GWaiting \<and> gr_at (gates s) = None)"
proof -
  have "stamped s" unfolding s_def by (rule stamped_run)
  then have "list_all (\<lambda>l. sl_isActive l s' \<longrightarrow> sl_name l = ''gateState'' \<and> gr_state (gates s) = GWaiting \<and> gr_at (gates s) = None)
      staleLatches"
    using stamped_due [OF _ assms(3)] sweep_due_released by (fastforce simp: list_all_iff s'_def)
  then show ?thesis by (simp add: staleLatches_def)
qed

theorem silent_blockers_are_swept_witness:
  "permissionState (foldl session_step (started ''/w'' True ''/c'' False 0)
       [Op_hook True ''u'' (HPermissionRequest ''Bash'' ''ls'') 5, Op_hook True ''u'' (HCompact Started None) 7]) = Pending
   \<and> \<not> decision_pending (session_step (foldl session_step (started ''/w'' True ''/c'' False 0)
       [Op_hook True ''u'' (HPermissionRequest ''Bash'' ''ls'') 5, Op_hook True ''u'' (HCompact Started None) 7])
       (Op_sweep 100 200 300))"
proof -
  let ?s = "foldl session_step (started ''/w'' True ''/c'' False 0)
       [Op_hook True ''u'' (HPermissionRequest ''Bash'' ''ls'') 5, Op_hook True ''u'' (HCompact Started None) 7]"
  have gate: "gr_state (gates ?s) \<noteq> GWaiting" by code_simp
  have "\<forall>l \<in> set staleLatches. case sl_at l ?s of None \<Rightarrow> True
      | Some since \<Rightarrow> since + max 100 200 \<le> 300 \<and> silent_since (since + BLOCKED_STALE_GRACE_MS) ?s" by code_simp
  note swept = silent_blockers_are_swept [OF this]
  have "\<not> decision_pending (session_step ?s (Op_sweep 100 200 300))"
    unfolding decision_pending_def using swept gate by simp
  moreover have "permissionState ?s = Pending" by code_simp
  ultimately show ?thesis by blast
qed

end
