(* ===== verification/SessionTurns.thy ===== *)
theory SessionTurns
  imports SessionPromises
begin

section \<open>Turns, events and input of a session\<close>

text \<open>
  The properties of \<open>SessionState\<close> and \<open>SessionHooks\<close> that follow one thread through a session: its event
  ring, the turns of its agent, the bytes typed into its terminal, and the review gates of a respawn.
\<close>

subsection \<open>The event ring\<close>

definition log_ok :: "event_log \<Rightarrow> bool" where
  "log_ok l \<longleftrightarrow> eventSeq l = length (el_sent l) \<and> map se_seq (el_sent l) = [1..<Suc (length (el_sent l))]
     \<and> event_ring l = drop (length (el_sent l) - EVENTS_MAX) (el_sent l)"

lemma log_ok_push: "log_ok l \<Longrightarrow> log_ok (push_event now l ev)"
proof -
  have "Suc (n - 100) = n - 99" if "99 < n - (n - 100)" for n :: nat using that by linarith
  then show "log_ok l \<Longrightarrow> log_ok (push_event now l ev)"
    by (auto simp: log_ok_def push_event_def Let_def EVENTS_MAX_def tl_drop drop_Suc [symmetric] Suc_diff_le)
qed

lemma log_ok_pushes: "log_ok l \<Longrightarrow> log_ok (push_events now l evs)"
  unfolding push_events_def by (induction evs arbitrary: l) (auto simp: log_ok_push)

lemma log_ok_new: "log_ok new_log"
  by (simp add: log_ok_def new_log_def)

abbreviation logged :: "live_session \<Rightarrow> bool" where
  "logged s \<equiv> log_ok (log s)"

lemma logged_calls [simp, intro]:
  "logged s \<Longrightarrow> logged (emitEvent k p now s)" "logged s \<Longrightarrow> logged (emit_all evs now s)"
  "logged s \<Longrightarrow> logged (call_tracker f now s)" "logged s \<Longrightarrow> logged (update_tracker g s)"
  "logged s \<Longrightarrow> logged (signal kd x now s)" "logged s \<Longrightarrow> logged (clear_kind kd now s)"
  "logged s \<Longrightarrow> logged (defer_signal kd x al now s)" "logged s \<Longrightarrow> logged (put_tracker t s)"
  by (simp_all add: call_eqs signal_def clear_kind_def defer_signal_def log_ok_push log_ok_pushes)

lemma logged_releases [simp, intro]:
  "logged s \<Longrightarrow> logged (release_permission now s)" "logged s \<Longrightarrow> logged (release_plan now s)"
  "logged s \<Longrightarrow> logged (release_question now s)" "logged s \<Longrightarrow> logged (set_tasks ts now s)"
  "logged s \<Longrightarrow> logged (clear_error s)" "logged s \<Longrightarrow> logged (set_liveCwd d s)" "logged s \<Longrightarrow> logged (turn_done w now s)"
  by (simp_all add: release_permission_def release_plan_def release_question_def set_tasks_def clear_error_def set_liveCwd_def
      turn_done_def split: option.split)

lemma logged_gate_effects: "logged s \<Longrightarrow> logged (foldl (gate_effect now) s evs)"
proof (induction evs arbitrary: s)
  case (Cons ev evs)
  then show ?case by (cases ev) simp_all
qed simp

lemma logged_call_gates [simp, intro]: "logged s \<Longrightarrow> logged (call_gates f now s)"
  by (simp add: call_gates_def logged_gate_effects split: prod.split)

lemma logged_progress: "logged s \<Longrightarrow> logged (on_progress p l ts d w now s)"
  by (simp add: on_progress_def Let_def split: option.split)

lemma logged_review_gate: "logged s \<Longrightarrow> logged (on_review_gate st p g uuid now s)"
  by (simp add: on_review_gate_def on_gate_waiting_def on_gate_decided_def resolveGate_def registerPendingGate_def
      split: gate_wire.split option.split list.split)

lemma logged_release_if: "logged (snd r) \<Longrightarrow> (\<And>s. logged s \<Longrightarrow> logged (f s)) \<Longrightarrow> logged (snd (release_if c f r))"
  by (simp add: release_if_def)

lemma logged_tool_done: "logged s \<Longrightarrow> logged (on_tool_done tn now s)"
  unfolding on_tool_done_def Let_def case_prod_beta by (simp add: logged_release_if)

lemma logged_subagent: "logged s \<Longrightarrow> logged (on_subagent e ty i m ts now s)"
  by (simp add: on_subagent_def Let_def)

lemma logged_hook: "logged s \<Longrightarrow> logged (emitHookEvent proves uuid now m s)"
proof -
  have "logged s \<Longrightarrow> logged (HOOK_HANDLERS uuid now m s)" for s
    by (cases m) (simp_all add: logged_progress logged_review_gate logged_tool_done logged_subagent on_notification_def
        on_file_change_def on_promote_request_def on_permission_request_def on_stop_failure_def on_tool_failure_def
        on_session_end_def on_plan_ready_def on_git_branch_def on_cwd_changed_def on_turn_start_def on_compact_def
        on_elicitation_def on_question_def on_todo_def on_session_diff_def Let_def split: option.split)
  then show "logged s \<Longrightarrow> logged (emitHookEvent proves uuid now m s)" by (simp add: emitHookEvent_def)
qed

lemma logged_write [simp]: "logged s \<Longrightarrow> logged (snd (writeToPty data now s))"
  by (simp add: writeToPty_def Let_def)

lemma logged_latches [simp]: "logged s \<Longrightarrow> logged (snd (clearTurnLatches s))"
  by (simp add: clearTurnLatches_def Let_def put_tracker_def)

lemma logged_keys: "logged s \<Longrightarrow> logged (pty_write data now s)"
  unfolding pty_write_def noteUserInput_def Let_def case_prod_beta by simp

lemma logged_agent_turn: "logged s \<Longrightarrow> logged (beginAgentTurn now s)"
  unfolding beginAgentTurn_def Let_def case_prod_beta by simp

lemma logged_acknowledge: "logged s \<Longrightarrow> logged (snd (acknowledge now s))"
  by (simp add: acknowledge_def put_tracker_def emit_all_def log_ok_pushes split: prod.split)

lemma logged_sweep: "logged s \<Longrightarrow> logged (snd (sweepStaleLatches staleLatches b y now s))"
  by (rule sweep_keeps) (simp_all add: staleLatches_def)

lemma logged_stale: "logged s \<Longrightarrow> logged (snd (clearStaleBlockedIfOlderThan b y now s))"
  using logged_sweep [of s b y now] by (auto simp: clearStaleBlockedIfOlderThan_def Let_def split: prod.splits)

lemma logged_restore: "logged s \<Longrightarrow> logged (applyStoredState lapse kn modes now st s)"
proof -
  assume s: "logged s"
  have 1: "logged (restore_gate lapse now st (restore_error st s))" using s by (simp add: restore_gate_def restore_error_def)
  then have "logged (restore_kind kn now st (restore_promote st (restore_gate lapse now st (restore_error st s))))"
    by (simp add: restore_kind_def restore_promote_def split: option.split)
  then have "logged (stampRestoredLatches now (restore_rest now st
      (restore_kind kn now st (restore_promote st (restore_gate lapse now st (restore_error st s))))))"
    by (simp add: restore_rest_def stampRestoredLatches_def Let_def)
  then show ?thesis
    by (simp add: applyStoredState_def restore_turn_def restore_codex_def setCodexTranscriptPath_def Let_def split: option.split)
qed

lemma logged_spawn: "logged s \<Longrightarrow> logged (session_spawn ok now s)"
  by (simp add: session_spawn_def spawn_reset_def Let_def logged_restore)

lemma logged_new: "logged (new_session cwd h c file ex now)"
  by (simp add: new_session_def Let_def blank_session_def log_ok_new logged_restore split: option.split)

lemma log_ok_seen: "log_ok l \<Longrightarrow> log_ok (snd (markEventsSeen seq l))"
  by (simp add: markEventsSeen_def log_ok_def del: upt_Suc)

lemma logged_step: "logged s \<Longrightarrow> logged (session_step s op)"
  by (cases op) (simp_all add: logged_hook logged_keys logged_agent_turn logged_acknowledge logged_stale logged_spawn logged_new
      file_checked_def Let_def session_onData_def emit_all_def log_ok_pushes emitTitle_def writeAgentInput_def session_tick_def
      resolveGate_def resolvePromote_def clearStaleErrorIfOlderThan_def clientExit_def log_ok_seen
      split: list.split option.split prod.split)

interpretation event_ring: step_machine session_step "\<lambda>_. True" logged
  by unfold_locales (rule logged_step)

text \<open>
  C39: The event ring. After any history of a session its events are numbered from 1 without a gap in the
  order they were sent, and the ring a client is replayed is exactly the last hundred of them: a client
  that saw all events up to number n - 100 misses nothing.
\<close>

theorem event_ring_is_a_window:
  fixes cwd codexHome :: string and hooks ex :: bool and t :: int and ops :: "session_op list"
  defines "l \<equiv> log (foldl session_step (started cwd hooks codexHome ex t) ops)"
  shows "map se_seq (el_sent l) = [1..<Suc (eventSeq l)]
    \<and> event_ring l = filter (\<lambda>e. se_seq e + EVENTS_MAX > eventSeq l) (el_sent l)
    \<and> length (event_ring l) = min EVENTS_MAX (eventSeq l)"
proof -
  have "logged (foldl session_step (started cwd hooks codexHome ex t) ops)"
    by (rule event_ring.inv_run) (simp_all add: started_def logged_new list_all_iff)
  then have ok: "log_ok l" by (simp add: l_def)
  have "filter (\<lambda>e. se_seq e + k > length es) es = drop (length es - k) es"
    if "map se_seq es = [1..<Suc (length es)]" for es :: "session_event list" and k :: nat
  proof -
    have nth: "se_seq (es ! i) = Suc i" if "i < length es" for i
      using that \<open>map se_seq es = _\<close> by (metis add.commute length_map nth_map nth_upt plus_1_eq_Suc less_Suc_eq_le Suc_leI)
    have "filter (\<lambda>e. se_seq e + k > length es) (take (length es - k) es) = []"
      by (auto simp: filter_empty_conv in_set_conv_nth nth)
    moreover have "filter (\<lambda>e. se_seq e + k > length es) (drop (length es - k) es) = drop (length es - k) es"
      by (rule filter_True) (auto simp: in_set_conv_nth nth)
    ultimately show ?thesis by (metis append_take_drop_id filter_append self_append_conv2)
  qed
  with ok show ?thesis by (auto simp: log_ok_def)
qed

subsection \<open>Turns\<close>

lemma ended_kept [simp]:
  "lastTurnEndedAt (fst (clearIfConfirmedKind k now t)) = lastTurnEndedAt t"
  "lastTurnEndedAt (fst (clearAttention now t)) = lastTurnEndedAt t"
  "lastTurnEndedAt (fst (emitAttentionSignalWithExtras k x now t)) = lastTurnEndedAt t"
  "lastTurnEndedAt (emitAttentionSignalDeferred k x al now t) = lastTurnEndedAt t"
  "lastTurnEndedAt (cancelDeferred k t) = lastTurnEndedAt t"
  "lastTurnEndedAt (fst (feed_tracker i y t)) = lastTurnEndedAt t"
  "lastTurnEndedAt (clearDeferred t) = lastTurnEndedAt t"
  "lastTurnEndedAt (resolveDeferredTurnEnd now t) = lastTurnEndedAt t"
  "lastTurnEndedAt (setBackgroundTasks ts now t) = lastTurnEndedAt t"
  by (simp_all add: clearIfConfirmedKind_def clearAttention_def emitAttentionSignalWithExtras_def Let_def
      emitAttentionSignalDeferred_def cancelDeferred_def feed_tracker_def applyAttentionTransition_def clearDeferred_def
      resolveDeferredTurnEnd_def setBackgroundTasks_def)

lemma ended_drain [simp]: "lastTurnEndedAt (fst (drainDeferred now t)) = lastTurnEndedAt t"
proof -
  have "lastTurnEndedAt (fst (drain_loop now es t)) = lastTurnEndedAt t" for es
    by (induction now es t rule: drain_loop.induct) (auto simp: Let_def split: prod.splits)
  then show ?thesis by (simp add: drainDeferred_def)
qed

lemma ended_acknowledge: "lastTurnEndedAt t = None \<Longrightarrow> lastTurnEndedAt (fst (snd (acknowledgeAttention now t))) = None"
  using ended_kept(2) [of now t]
  by (auto simp: acknowledgeAttention_def split: prod.splits option.splits)

lemma ended_output: "lastTurnEndedAt (ps_tracker (fst (onData pp data q tot now p))) = lastTurnEndedAt (ps_tracker p)"
proof -
  obtain c t where "ps_tracker (fst (onData pp data q tot now p)) = fst (feed_attention c q now t)" and "t = ps_tracker p"
    by (fastforce simp: onData_def Let_def case_prod_beta tracker_of_scan)
  then show ?thesis by (simp add: feed_is_feed split: option.split)
qed

text \<open>The turn an agent's prompt began at \<open>p\<close> is still open.\<close>

definition in_turn :: "int \<Rightarrow> live_session \<Rightarrow> bool" where
  "in_turn p s \<longleftrightarrow> agentPromptAt s = Some p \<and> lastTurnEndedAt (tracker s) = None"

lemma in_turn_calls [simp, intro]:
  "in_turn p (emitEvent k x now s) = in_turn p s" "in_turn p (emit_all evs now s) = in_turn p s"
  "in_turn p (signal kd x now s) = in_turn p s" "in_turn p (clear_kind kd now s) = in_turn p s"
  "in_turn p (defer_signal kd x al now s) = in_turn p s"
  by (simp_all add: in_turn_def call_eqs signal_def clear_kind_def defer_signal_def)

lemma in_turn_call: "(\<And>t. lastTurnEndedAt (fst (f t)) = lastTurnEndedAt t) \<Longrightarrow> in_turn p (call_tracker f now s) = in_turn p s"
  by (simp add: in_turn_def call_eqs)

lemma in_turn_update: "(\<And>t. lastTurnEndedAt t = None \<Longrightarrow> lastTurnEndedAt (f t) = None) \<Longrightarrow> in_turn p s \<Longrightarrow> in_turn p (update_tracker f s)"
  by (simp add: in_turn_def call_eqs)

lemma in_turn_view: "agentPromptAt s' = agentPromptAt s \<Longrightarrow> pty s' = pty s \<Longrightarrow> in_turn p s' = in_turn p s"
  by (simp add: in_turn_def)

lemma in_turn_releases [simp, intro]:
  "in_turn p (release_permission now s) = in_turn p s" "in_turn p (release_plan now s) = in_turn p s"
  "in_turn p (release_question now s) = in_turn p s" "in_turn p (clear_error s) = in_turn p s" "in_turn p (set_liveCwd d s) = in_turn p s"
  "in_turn p s \<Longrightarrow> in_turn p (set_tasks ts now s)"
  by (simp_all add: release_permission_def release_plan_def release_question_def clear_error_def set_liveCwd_def set_tasks_def
      in_turn_update split: option.split) (simp_all add: in_turn_def)

lemma in_turn_gate_effects: "in_turn p (foldl (gate_effect now) s evs) = in_turn p s"
proof (induction evs arbitrary: s)
  case (Cons ev evs)
  then show ?case by (cases ev) (simp_all add: in_turn_call)
qed simp

lemma in_turn_call_gates [simp]: "in_turn p (call_gates f now s) = in_turn p s"
  by (simp add: call_gates_def in_turn_gate_effects split: prod.split) (simp add: in_turn_def)

text \<open>The hooks that do not end a turn.\<close>

fun ends_turn :: "hook_message \<Rightarrow> bool" where
  "ends_turn (HProgress phase _ _ _ _) \<longleftrightarrow> phase = TurnDone"
| "ends_turn _ \<longleftrightarrow> False"

lemma in_turn_progress: "p \<noteq> TurnDone \<Longrightarrow> in_turn q s \<Longrightarrow> in_turn q (on_progress p l ts d w now s)"
proof -
  assume "p \<noteq> TurnDone" and s: "in_turn q s"
  have last: "in_turn q (update_tracker (\<lambda>t. cancelDeferred ApiError (cancelDeferred ToolFailure t))
      (r\<lparr>errorState := NoError, errorAt := None, errorDetail := None\<rparr>))" if "in_turn q r" for r
    using that by (simp add: in_turn_def call_eqs)
  have first: "in_turn q (case l of None \<Rightarrow> s | Some m \<Rightarrow> s\<lparr>lastAssistantMessage := Some m\<rparr>)"
    using s by (simp add: in_turn_def split: option.split)
  show ?thesis unfolding on_progress_def Let_def using \<open>p \<noteq> TurnDone\<close> first
    by (intro last) (simp add: in_turn_update)
qed

lemma in_turn_tool_done: "in_turn p s \<Longrightarrow> in_turn p (on_tool_done tn now s)"
proof -
  have "in_turn p (snd r) \<Longrightarrow> (\<And>s. in_turn p s \<Longrightarrow> in_turn p (f s)) \<Longrightarrow> in_turn p (snd (release_if c f r))" for r c f
    by (simp add: release_if_def)
  then show "in_turn p s \<Longrightarrow> ?thesis" unfolding on_tool_done_def Let_def case_prod_beta by simp
qed

lemma in_turn_subagent: "in_turn p s \<Longrightarrow> in_turn p (on_subagent e ty i m ts now s)"
proof -
  assume s: "in_turn p s"
  have "in_turn p (s\<lparr>subagentCount := c, subagentCountAt := ca, subagents := sa\<rparr>)" for c ca sa
    using s by (simp add: in_turn_def)
  then show ?thesis unfolding on_subagent_def Let_def by (simp add: in_turn_update)
qed

lemma in_turn_fields [simp]:
  "in_turn p (registerPendingGate i pr now s) = in_turn p s"
  "in_turn p (s\<lparr>permissionState := a, permissionAt := b, pendingPermissionTool := c\<rparr>) = in_turn p s"
  "in_turn p (s\<lparr>planState := a, planAt := b\<rparr>) = in_turn p s"
  "in_turn p (s\<lparr>promoteState := d, promoteAt := b, promoteSummary := c, promoteSuggestedBaseRef := e\<rparr>) = in_turn p s"
  "in_turn p (s\<lparr>promoteState := d, promoteSummary := c, promoteSuggestedBaseRef := e, promoteAt := b\<rparr>) = in_turn p s"
  "in_turn p (s\<lparr>errorState := f, errorAt := b, errorDetail := c\<rparr>) = in_turn p s"
  "in_turn p (s\<lparr>errorState := f, errorAt := b, errorDetail := c, subagents := g\<rparr>) = in_turn p s"
  "in_turn p (s\<lparr>elicitationState := a, elicitationAt := b, elicitationServer := c\<rparr>) = in_turn p s"
  "in_turn p (s\<lparr>elicitationState := a, elicitationServer := c, elicitationAt := b\<rparr>) = in_turn p s"
  "in_turn p (s\<lparr>questionState := a, questionHeader := c, questionAt := b\<rparr>) = in_turn p s"
  "in_turn p (s\<lparr>endedReason := c, exitCode := h\<rparr>) = in_turn p s"
  "in_turn p (s\<lparr>compactState := i1, compactAt := b\<rparr>) = in_turn p s"
  "in_turn p (s\<lparr>subagentCount := i2, subagentCountAt := b\<rparr>) = in_turn p s"
  "in_turn p (s\<lparr>currentTodo := i3\<rparr>) = in_turn p s" "in_turn p (s\<lparr>liveBranch := c\<rparr>) = in_turn p s"
  "in_turn p (s\<lparr>agentTranscriptPath := c\<rparr>) = in_turn p s" "in_turn p (s\<lparr>agentSessionId := c\<rparr>) = in_turn p s"
  "in_turn p (s\<lparr>fileChangeQueue := i4\<rparr>) = in_turn p s" "in_turn p (s\<lparr>subagents := g\<rparr>) = in_turn p s"
  "in_turn p (s\<lparr>hooksProven := i5\<rparr>) = in_turn p s" "in_turn p (s\<lparr>lastUserInputAt := b\<rparr>) = in_turn p s"
  "in_turn p (s\<lparr>alive := i5\<rparr>) = in_turn p s" "in_turn p (s\<lparr>log := i6\<rparr>) = in_turn p s"
  by (simp_all add: in_turn_def registerPendingGate_def)

lemma in_turn_started: "in_turn p s \<Longrightarrow> in_turn p (on_turn_start src now s)"
  by (simp add: on_turn_start_def Let_def in_turn_def call_eqs)

lemma in_turn_failure: "in_turn p s \<Longrightarrow> in_turn p (on_stop_failure er dt ty now s)"
  unfolding on_stop_failure_def Let_def by (simp add: in_turn_update)

lemma in_turn_hook: "in_turn p s \<Longrightarrow> \<not> ends_turn m \<Longrightarrow> in_turn p (emitHookEvent proves uuid now m s)"
proof -
  have "in_turn p s \<Longrightarrow> \<not> ends_turn m \<Longrightarrow> in_turn p (HOOK_HANDLERS uuid now m s)" for s
    by (cases m) (simp_all add: in_turn_progress in_turn_tool_done in_turn_subagent in_turn_started in_turn_failure
        on_review_gate_def on_gate_waiting_def on_gate_decided_def resolveGate_def on_notification_def
        on_file_change_def on_promote_request_def on_permission_request_def on_tool_failure_def
        on_session_end_def on_plan_ready_def on_git_branch_def on_cwd_changed_def on_compact_def
        on_elicitation_def on_question_def on_todo_def on_session_diff_def Let_def
        split: option.split gate_wire.split list.split)
  then show "in_turn p s \<Longrightarrow> \<not> ends_turn m \<Longrightarrow> in_turn p (emitHookEvent proves uuid now m s)" by (simp add: emitHookEvent_def)
qed

lemma in_turn_write: "in_turn p (snd (writeToPty data now s)) = in_turn p s"
  by (simp add: writeToPty_def Let_def in_turn_def)

lemma in_turn_latches: "in_turn p s \<Longrightarrow> in_turn p (snd (clearTurnLatches s))"
  by (simp add: clearTurnLatches_def Let_def in_turn_def put_tracker_def)

lemma in_turn_keys: "in_turn p s \<Longrightarrow> in_turn p (pty_write data now s)"
  unfolding pty_write_def noteUserInput_def Let_def case_prod_beta by (simp add: in_turn_call in_turn_write in_turn_latches)

lemma in_turn_acknowledge: "in_turn p s \<Longrightarrow> in_turn p (snd (acknowledge now s))"
proof -
  obtain ok t evs where r: "acknowledgeAttention now (tracker s) = (ok, t, evs)" by (cases "acknowledgeAttention now (tracker s)")
  show "in_turn p s \<Longrightarrow> ?thesis" using ended_acknowledge [of "tracker s" now]
    by (simp add: acknowledge_def r in_turn_def emit_all_def put_tracker_def)
qed

lemma in_turn_output: "in_turn p s \<Longrightarrow> in_turn p (session_onData pp data q tot now s)"
  unfolding session_onData_def using ended_output [of pp data q tot now "pty s"]
  by (cases "onData pp data q tot now (pty s)") (simp, simp add: in_turn_def)

lemma in_turn_tick: "in_turn p s \<Longrightarrow> in_turn p (session_tick ctx now s)"
  unfolding session_tick_def Let_def by (simp add: in_turn_call)

lemma in_turn_sweep: "in_turn p s \<Longrightarrow> in_turn p (snd (sweepStaleLatches staleLatches b y now s))"
  by (rule sweep_keeps) (simp_all add: staleLatches_def in_turn_update)

lemma in_turn_stale: "in_turn p s \<Longrightarrow> in_turn p (snd (clearStaleBlockedIfOlderThan b y now s))"
  using in_turn_sweep [of p s b y now] by (auto simp: clearStaleBlockedIfOlderThan_def Let_def split: prod.splits)

lemma in_turn_exit: "in_turn p s \<Longrightarrow> in_turn p (clientExit inc tt now s)"
  by (simp add: clientExit_def Let_def emitTitle_def in_turn_def call_eqs split: option.split)

text \<open>A new attach client starts without a prompt.\<close>

lemma prompt_restored: "agentPromptAt (applyStoredState lapse kn modes now st s) = agentPromptAt s"
proof -
  have "agentPromptAt (stampRestoredLatches now (restore_rest now st (restore_kind kn now st (restore_promote st
      (restore_gate lapse now st (restore_error st s)))))) = agentPromptAt s"
    by (simp add: restore_kind_def restore_promote_def restore_rest_def restore_gate_def restore_error_def stampRestoredLatches_def
        call_eqs Let_def split: option.split)
  then show ?thesis
    by (simp add: applyStoredState_def restore_turn_def restore_codex_def setCodexTranscriptPath_def call_eqs Let_def split: option.split)
qed

lemma spawn_forgets_prompt: "\<not> alive s \<Longrightarrow> agentPromptAt (session_spawn client now s) = None"
  by (simp add: session_spawn_def Let_def prompt_restored spawn_reset_def split: option.split)

lemma restart_forgets_prompt: "agentPromptAt (session_step s (Op_restart ex client now)) = None"
proof -
  have "agentPromptAt (new_session cwd h c (Some st) ex now) = None" for cwd h c st
    by (simp add: new_session_def Let_def prompt_restored blank_session_def)
  then show ?thesis by (simp add: session_spawn_def Let_def prompt_restored spawn_reset_def split: option.split)
qed

text \<open>
  What may happen while the turn lasts: everything but a turn end, another prompt (it opens a turn of its
  own) and the start of a new attach client (\<open>spawn_reset\<close> forgets the prompt).
\<close>

fun within_turn :: "session_op \<Rightarrow> bool" where
  "within_turn (Op_hook _ _ m _) \<longleftrightarrow> \<not> ends_turn m"
| "within_turn (Op_agent_turn _) \<longleftrightarrow> False"
| "within_turn (Op_spawn _ _) \<longleftrightarrow> False"
| "within_turn (Op_restart _ _ _) \<longleftrightarrow> False"
| "within_turn _ \<longleftrightarrow> True"

lemma in_turn_step: "in_turn p s \<Longrightarrow> within_turn op \<Longrightarrow> in_turn p (session_step s op)"
  by (cases op) (simp_all add: in_turn_hook in_turn_output in_turn_keys in_turn_acknowledge in_turn_tick in_turn_stale in_turn_exit
      file_checked_def Let_def emitTitle_def writeAgentInput_def in_turn_write resolveGate_def resolvePromote_def in_turn_call
      clearStaleErrorIfOlderThan_def split: list.split option.split)

interpretation agent_turn: step_machine session_step within_turn "in_turn p" for p
  by unfold_locales (rule in_turn_step)

text \<open>
  C7: A prompted agent counts as working. After the server types a prompt into a session, as long as the
  agent does not report the end of its turn, no other prompt is typed and no new attach client is started, no
  output, keystroke, acknowledge, failed tool, sweep or exit of the attach client ends the turn: it is in
  flight exactly until the limit of fifteen minutes. The excluded restarts do end it: a spawn after
  the client has exited, and a restart of the server, forget the prompt.
\<close>

theorem prompted_turn_stays_in_flight:
  fixes s :: live_session and ops :: "session_op list" and prompted :: int
  assumes "list_all within_turn ops"
  defines "s' \<equiv> foldl session_step (session_step s (Op_agent_turn prompted)) ops"
  shows "(agentTurnInFlight now s' \<longleftrightarrow> now - prompted \<le> AGENT_TURN_IN_FLIGHT_MAX_MS)
    \<and> (\<not> alive s' \<longrightarrow> \<not> agentTurnInFlight now (session_step s' (Op_spawn client later)))
    \<and> \<not> agentTurnInFlight now (session_step s' (Op_restart socketExists client later))"
proof -
  have "in_turn prompted (session_step s (Op_agent_turn prompted))"
    by (simp add: beginAgentTurn_def Let_def clearTurnLatches_def in_turn_def put_tracker_def emitEvent_def)
  then have "in_turn prompted s'"
    using assms unfolding s'_def by (blast intro: agent_turn.inv_run)
  then show ?thesis using spawn_forgets_prompt restart_forgets_prompt by (auto simp: in_turn_def agentTurnInFlight_def)
qed

theorem prompted_turn_stays_in_flight_witness:
  "agentTurnInFlight 800000 (foldl session_step (session_step (started ''/w'' True ''/c'' False 0) (Op_agent_turn 10))
     [Op_hook True ''u'' (HToolFailure ''Bash'' ''exit 1'' None None None) 20, Op_keys [97] 30, Op_acknowledge 40, Op_exit False None 50])"
proof -
  have "list_all within_turn [Op_hook True ''u'' (HToolFailure ''Bash'' ''exit 1'' None None None) 20, Op_keys [97] 30, Op_acknowledge 40,
      Op_exit False None 50]" by simp
  from prompted_turn_stays_in_flight [OF this, of 800000 "started ''/w'' True ''/c'' False 0" 10] show ?thesis
    by (simp add: AGENT_TURN_IN_FLIGHT_MAX_MS_def del: session_step.simps)
qed

text \<open>The end of a turn, step by step.\<close>

lemma turn_done_fields:
  fixes w :: bool and now :: int and s :: live_session
  defines "r \<equiv> turn_done w now s"
  shows "lastTurnEndedAt (tracker r) = Some now" "permissionState r = NotPending" "planState r = NotPending"
    "questionState r = NotPending" "gates r = gates s" "promoteState r = promoteState s" "elicitationState r = elicitationState s"
    "agentPromptAt r = agentPromptAt s" "task_part (tracker r) = task_part (tracker s)"
    "workFinishedAt (tracker r) = (if turnEndMeansWorkFinished (turnPromptSource (tracker s)) w then Some now else workFinishedAt (tracker s))"
  unfolding r_def turn_done_def
  by (simp_all add: update_tracker_eq release_permission_def release_plan_def release_question_def clear_kind_def call_tracker_eq
      task_part_def resolveDeferredTurnEnd_def emitAttentionSignalDeferred_def clearIfConfirmedKind_def cancelDeferred_def
      applyAttentionTransition_def Let_def)

text \<open>
  C6: The end of a turn. When the agent reports it, the turn is over for every caller (unless its prompt
  lies in the future), the permission, plan and question it had asked for and its error are gone, the work
  counts as finished exactly for a turn a user or another agent began and that left no wakeup pending, and
  the session reads "finished" exactly when nothing else is pending and no background task is left.
\<close>

theorem turn_end_settles_the_session:
  fixes s :: live_session and now now' threshold :: int and lastMsg detail portReason :: "string option"
    and tasks :: "json list option" and wakeups :: "bool option" and proves :: bool and uuid :: string
  defines "r \<equiv> session_step s (Op_hook proves uuid (HProgress TurnDone lastMsg tasks detail wakeups) now)"
  shows "(agentTurnInFlight now' r \<longleftrightarrow> (\<exists>p. agentPromptAt s = Some p \<and> now < p \<and> now' - p \<le> AGENT_TURN_IN_FLIGHT_MAX_MS))
    \<and> permissionState r = NotPending \<and> planState r = NotPending \<and> questionState r = NotPending \<and> errorState r = NoError
    \<and> workFinishedAt (tracker r) = (if turnEndMeansWorkFinished (turnPromptSource (tracker s)) (wakeups = Some True) then Some now
         else workFinishedAt (tracker s))
    \<and> outstandingTasks r = (case tasks of None \<Rightarrow> outstandingTasks s | Some ts \<Rightarrow> Attention.filterOutstandingBackgroundTasks (map task_of ts))
    \<and> (shown_status threshold portReason now' r = SFinished \<longleftrightarrow> outstandingTasks r = []
         \<and> gr_state (gates s) \<noteq> GWaiting \<and> promoteState s \<noteq> PPending \<and> elicitationState s \<noteq> Pending)"
proof -
  define s1 where "s1 = (case lastMsg of None \<Rightarrow> (if proves then s\<lparr>hooksProven := True\<rparr> else s)
    | Some m \<Rightarrow> (if proves then s\<lparr>hooksProven := True\<rparr> else s)\<lparr>lastAssistantMessage := Some m\<rparr>)"
  define s2 where "s2 = emitEvent ''status_change'' ([(''phase'', JStr (phase_name TurnDone))] @ opt_kv ''lastAssistantMessage'' JStr lastMsg
            @ opt_kv ''backgroundTasks'' JArr tasks @ opt_kv ''detail'' JStr detail) now (set_tasks tasks now s1)"
  have r: "r = update_tracker (\<lambda>t. cancelDeferred ApiError (cancelDeferred ToolFailure t))
      ((turn_done (wakeups = Some True) now s2)\<lparr>errorState := NoError, errorAt := None, errorDetail := None\<rparr>)"
    by (simp add: r_def s2_def s1_def emitHookEvent_def on_progress_def Let_def)
  have s2: "agentPromptAt s2 = agentPromptAt s" "gates s2 = gates s" "promoteState s2 = promoteState s"
      "elicitationState s2 = elicitationState s" "turnPromptSource (tracker s2) = turnPromptSource (tracker s)"
      "workFinishedAt (tracker s2) = workFinishedAt (tracker s)"
      "fst (task_part (tracker s2)) = (case tasks of None \<Rightarrow> backgroundTasks (tracker s) | Some ts \<Rightarrow> map task_of ts)"
    by (simp_all add: s2_def s1_def set_tasks_def update_tracker_eq emitEvent_def setBackgroundTasks_def task_part_def split: option.split)
  note f = turn_done_fields [of "wakeups = Some True" now s2]
  have tasks: "backgroundTasks (tracker r) = (case tasks of None \<Rightarrow> backgroundTasks (tracker s) | Some ts \<Rightarrow> map task_of ts)"
    using f(9) s2(7) by (simp add: r update_tracker_eq cancelDeferred_def task_part_def)
  have fields: "agentPromptAt r = agentPromptAt s" "lastTurnEndedAt (tracker r) = Some now" "permissionState r = NotPending"
      "planState r = NotPending" "questionState r = NotPending" "errorState r = NoError" "gates r = gates s"
      "promoteState r = promoteState s" "elicitationState r = elicitationState s"
      "workFinishedAt (tracker r) = (if turnEndMeansWorkFinished (turnPromptSource (tracker s)) (wakeups = Some True) then Some now
         else workFinishedAt (tracker s))"
    using f s2 by (simp_all add: r update_tracker_eq cancelDeferred_def)
  have "agentTurnInFlight now' r \<longleftrightarrow> (\<exists>p. agentPromptAt s = Some p \<and> now < p \<and> now' - p \<le> AGENT_TURN_IN_FLIGHT_MAX_MS)"
    by (auto simp: agentTurnInFlight_def fields split: option.split)
  moreover have "outstandingTasks r = (case tasks of None \<Rightarrow> outstandingTasks s | Some ts \<Rightarrow> Attention.filterOutstandingBackgroundTasks (map task_of ts))"
    by (simp add: outstandingTasks_def tasks split: option.split)
  moreover have "shown_status threshold portReason now' r = SFinished \<longleftrightarrow> outstandingTasks r = []
         \<and> gr_state (gates s) \<noteq> GWaiting \<and> promoteState s \<noteq> PPending \<and> elicitationState s \<noteq> Pending"
    by (simp add: shown_status_def deriveSessionStatus_def Let_def toInfo_def fields)
  ultimately show ?thesis using fields by simp
qed

subsection \<open>Input\<close>

text \<open>Writes to the terminal, and the bytes that reached it from time \<open>a\<close> and before \<open>b\<close>.\<close>

definition write_all :: "(int \<times> jsstring) list \<Rightarrow> live_session \<Rightarrow> live_session" where
  "write_all ws s = foldl (\<lambda>s (now, data). snd (writeToPty data now s)) s ws"

definition typed_between :: "int \<Rightarrow> int \<Rightarrow> live_session \<Rightarrow> nat" where
  "typed_between a b s = sum_list (map (\<lambda>(t, d). utf8_length d) (filter (\<lambda>(t, d). a \<le> t \<and> t < b) (typed s)))"

lemma typed_snoc: "typed_between a b (s\<lparr>typed := typed s @ [(t, d)]\<rparr>) = typed_between a b s + (if a \<le> t \<and> t < b then utf8_length d else 0)"
  by (simp add: typed_between_def)

lemma typed_same: "typed s' = typed s \<Longrightarrow> typed_between a b s' = typed_between a b s"
  by (simp add: typed_between_def)

lemma typed_mono: "a' \<le> a \<Longrightarrow> b \<le> b' \<Longrightarrow> typed_between a b s \<le> typed_between a' b' s"
proof -
  have "a' \<le> a \<Longrightarrow> b \<le> b' \<Longrightarrow> sum_list (map (\<lambda>(t, d). utf8_length d) (filter (\<lambda>(t, d). a \<le> t \<and> t < b) xs))
      \<le> sum_list (map (\<lambda>(t, d). utf8_length d) (filter (\<lambda>(t, d). a' \<le> t \<and> t < b') xs))" for xs
    by (induction xs) auto
  then show "a' \<le> a \<Longrightarrow> b \<le> b' \<Longrightarrow> typed_between a b s \<le> typed_between a' b' s" unfolding typed_between_def .
qed

lemma typed_split: "typed_between a c s \<le> typed_between a b s + typed_between b c s"
proof -
  have "sum_list (map (\<lambda>(t, d). utf8_length d) (filter (\<lambda>(t, d). a \<le> t \<and> t < c) xs))
      \<le> sum_list (map (\<lambda>(t, d). utf8_length d) (filter (\<lambda>(t, d). a \<le> t \<and> t < b) xs))
       + sum_list (map (\<lambda>(t, d). utf8_length d) (filter (\<lambda>(t, d). b \<le> t \<and> t < c) xs))" for xs
    by (induction xs) auto
  then show ?thesis unfolding typed_between_def .
qed

lemma typed_none: "\<forall>(t, d) \<in> set (typed s). t < a \<Longrightarrow> typed_between a b s = 0"
  by (auto simp: typed_between_def filter_empty_conv)

text \<open>
  The window the counter counts in starts at \<open>W\<close>: all that was typed lies before its end, its bytes are
  counted, and no more than the limit lies in the second before it.
\<close>

definition paced :: "live_session \<Rightarrow> bool" where
  "paced s \<longleftrightarrow> (let W = writeWindowStartedAt s; P = WRITE_BACKPRESSURE_WINDOW_MS in
     (\<forall>(t, d) \<in> set (typed s). t < W + P)
     \<and> typed_between W (W + P) s \<le> pendingWriteBytes s \<and> pendingWriteBytes s \<le> WRITE_BACKPRESSURE_MAX_BYTES
     \<and> typed_between (W - P) W s \<le> WRITE_BACKPRESSURE_MAX_BYTES
     \<and> (\<forall>a. typed_between a (a + P) s \<le> 2 * WRITE_BACKPRESSURE_MAX_BYTES))"

lemma paced_roll:
  assumes "paced s" and "now - writeWindowStartedAt s \<ge> WRITE_BACKPRESSURE_WINDOW_MS"
  shows "paced (s\<lparr>writeWindowStartedAt := now, pendingWriteBytes := 0\<rparr>)"
proof -
  let ?W = "writeWindowStartedAt s" and ?P = WRITE_BACKPRESSURE_WINDOW_MS and ?s = "s\<lparr>writeWindowStartedAt := now, pendingWriteBytes := 0\<rparr>"
  have old: "\<forall>(t, d) \<in> set (typed s). t < now" and "0 < ?P" using assms by (auto simp: paced_def Let_def WRITE_BACKPRESSURE_WINDOW_MS_def)
  have "typed_between (now - ?P) now s \<le> typed_between ?W (?W + ?P) s + typed_between (?W + ?P) now s"
    using typed_mono [of ?W "now - ?P" now now s] typed_split [of ?W now s "?W + ?P"] assms(2) by linarith
  also have "typed_between (?W + ?P) now s = 0" by (rule typed_none) (use assms(1) in \<open>auto simp: paced_def Let_def\<close>)
  finally have "typed_between (now - ?P) now s \<le> WRITE_BACKPRESSURE_MAX_BYTES" using assms(1) by (simp add: paced_def Let_def)
  moreover have "typed_between now (now + ?P) s = 0" by (rule typed_none [OF old])
  moreover have "\<forall>(t, d) \<in> set (typed s). t < now + ?P" using old \<open>0 < ?P\<close> by auto
  ultimately show ?thesis using assms(1) by (simp add: paced_def Let_def typed_same [of ?s s])
qed

lemma paced_write_here:
  assumes "paced s" and "writeWindowStartedAt s \<le> now" "now < writeWindowStartedAt s + WRITE_BACKPRESSURE_WINDOW_MS"
    and "pendingWriteBytes s + utf8_length d \<le> WRITE_BACKPRESSURE_MAX_BYTES"
  shows "paced (s\<lparr>pendingWriteBytes := pendingWriteBytes s + utf8_length d, typed := typed s @ [(now, d)]\<rparr>)" (is "paced ?s")
proof -
  let ?W = "writeWindowStartedAt s" and ?P = WRITE_BACKPRESSURE_WINDOW_MS
  have b: "typed_between a b ?s = typed_between a b s + (if a \<le> now \<and> now < b then utf8_length d else 0)" for a b
    by (simp add: typed_between_def)
  have "typed_between a (a + ?P) s + utf8_length d \<le> 2 * WRITE_BACKPRESSURE_MAX_BYTES" if "a \<le> now" "now < a + ?P" for a
  proof (cases "a \<le> ?W")
    case True
    have "typed_between a (a + ?P) s \<le> typed_between a ?W s + typed_between ?W (a + ?P) s" by (rule typed_split)
    moreover have "typed_between a ?W s \<le> typed_between (?W - ?P) ?W s" using that assms(2) by (intro typed_mono) simp_all
    moreover have "typed_between ?W (a + ?P) s \<le> typed_between ?W (?W + ?P) s" using True by (intro typed_mono) simp_all
    ultimately show ?thesis using assms(1,4) by (simp add: paced_def Let_def)
  next
    case False
    then have "typed_between a (a + ?P) s \<le> typed_between ?W (?W + ?P) s + typed_between (?W + ?P) (a + ?P) s"
      using typed_mono [of ?W a "a + ?P" "a + ?P" s] typed_split [of ?W "a + ?P" s "?W + ?P"] by linarith
    also have "typed_between (?W + ?P) (a + ?P) s = 0" by (rule typed_none) (use assms(1) in \<open>auto simp: paced_def Let_def\<close>)
    finally show ?thesis using assms(1,4) by (simp add: paced_def Let_def)
  qed
  then show ?thesis using assms by (auto simp: paced_def Let_def b)
qed

lemma paced_write:
  assumes "paced s" and "writeWindowStartedAt s \<le> now"
  shows "paced (snd (writeToPty d now s)) \<and> writeWindowStartedAt (snd (writeToPty d now s)) \<le> now"
proof -
  define s1 where "s1 = (if now - writeWindowStartedAt s \<ge> WRITE_BACKPRESSURE_WINDOW_MS
          then s\<lparr>writeWindowStartedAt := now, pendingWriteBytes := 0\<rparr> else s)"
  have s1: "paced s1" "writeWindowStartedAt s1 \<le> now" "now < writeWindowStartedAt s1 + WRITE_BACKPRESSURE_WINDOW_MS"
    using assms paced_roll [OF assms(1)] by (auto simp: s1_def WRITE_BACKPRESSURE_WINDOW_MS_def)
  have counted: "paced (s1\<lparr>pendingWriteBytes := pendingWriteBytes s1 + utf8_length d\<rparr>)"
    if "pendingWriteBytes s1 + utf8_length d \<le> WRITE_BACKPRESSURE_MAX_BYTES"
    using s1(1) that by (simp add: paced_def Let_def typed_between_def)
  show ?thesis using s1 counted paced_write_here [OF s1, of d]
    by (simp add: writeToPty_def Let_def s1_def [symmetric])
qed

lemma paced_writes:
  "paced s \<Longrightarrow> sorted (writeWindowStartedAt s # map fst ws) \<Longrightarrow> paced (write_all ws s)"
proof (induction ws arbitrary: s)
  case (Cons w ws)
  obtain now d where w: "w = (now, d)" by fastforce
  with Cons.prems paced_write [of s now d] have "paced (snd (writeToPty d now s))"
    "writeWindowStartedAt (snd (writeToPty d now s)) \<le> now" by simp_all
  moreover from this(2) Cons.prems(2) have "sorted (writeWindowStartedAt (snd (writeToPty d now s)) # map fst ws)"
    by (auto simp: w)
  ultimately show ?case using Cons.IH by (simp add: write_all_def w)
qed (simp add: write_all_def)

definition input_part :: "live_session \<Rightarrow> (int \<times> jsstring) list \<times> int \<times> nat" where
  "input_part s = (typed s, writeWindowStartedAt s, pendingWriteBytes s)"

lemma input_restored: "input_part (applyStoredState lapse kn modes now st s) = input_part s"
proof -
  have "input_part (restore_gate lapse now st (restore_error st s)) = input_part s"
    by (simp add: restore_gate_def restore_error_def input_part_def call_tracker_eq emitEvent_def)
  then have "input_part (stampRestoredLatches now (restore_rest now st (restore_kind kn now st (restore_promote st
      (restore_gate lapse now st (restore_error st s)))))) = input_part s"
    by (simp add: restore_kind_def restore_promote_def restore_rest_def stampRestoredLatches_def input_part_def Let_def call_eqs
        split: option.split)
  then show ?thesis
    by (simp add: applyStoredState_def restore_turn_def restore_codex_def setCodexTranscriptPath_def input_part_def Let_def call_eqs
        split: option.split)
qed

lemma input_spawned: "input_part (session_spawn client now s) = input_part s"
proof -
  have "input_part (spawn_reset s) = input_part s" by (simp add: spawn_reset_def input_part_def update_tracker_eq)
  moreover have "input_part (r\<lparr>alive := b\<rparr>) = input_part r" for r b by (simp add: input_part_def)
  ultimately show ?thesis by (simp add: session_spawn_def Let_def input_restored)
qed

text \<open>
  C40: Flood protection. Whatever clients and agents type into a session, no second of it carries more than
  twice the limit of four mebibytes into the terminal (twice, because the counter restarts with each window
  instead of sliding), as long as the clock does not run backwards.
\<close>

theorem typed_bytes_per_second:
  assumes "sorted (0 # map fst ws)"
  shows "typed_between a (a + WRITE_BACKPRESSURE_WINDOW_MS)
      (write_all ws (session_spawn client t (started cwd hooks codexHome ex t))) \<le> 2 * WRITE_BACKPRESSURE_MAX_BYTES"
proof -
  let ?s = "session_spawn client t (started cwd hooks codexHome ex t)"
  have s: "typed ?s = [] \<and> writeWindowStartedAt ?s = 0 \<and> pendingWriteBytes ?s = 0"
    using input_spawned [of client t "started cwd hooks codexHome ex t"] by (simp add: started_eq blank_session_def input_part_def)
  then have "paced ?s" by (simp add: paced_def typed_between_def)
  with paced_writes [of ?s ws] assms s show ?thesis by (simp add: paced_def Let_def)
qed

theorem typed_bytes_per_second_witness:
  "typed_between 5 (5 + WRITE_BACKPRESSURE_WINDOW_MS)
      (write_all [(5, lit ''ls''), (900, lit ''x''), (1400, lit ''y'')] (session_spawn True 1 (started ''/w'' True ''/c'' False 1)))
    \<le> 2 * WRITE_BACKPRESSURE_MAX_BYTES"
  using typed_bytes_per_second [of "[(5, lit ''ls''), (900, lit ''x''), (1400, lit ''y'')]" 5 True 1 "''/w''" True "''/c''" False] by simp

subsection \<open>Review gates across a respawn\<close>

lemma gates_restored: "gates (applyStoredState True kn modes now (collectState s0) s)
    = (if gr_state (gates s0) = GWaiting then gate_lapseRestoredSummary (gates s)
       else (gates s)\<lparr>gr_state := gr_state (gates s0), gr_prompt := gr_prompt (gates s0)\<rparr>)"
proof -
  have "gates (restore_gate True now (collectState s0) (restore_error (collectState s0) s))
    = (if gr_state (gates s0) = GWaiting then gate_lapseRestoredSummary (gates s)
       else (gates s)\<lparr>gr_state := gr_state (gates s0), gr_prompt := gr_prompt (gates s0)\<rparr>)"
    by (simp add: restore_gate_def restore_error_def collectState_def restored_def call_tracker_eq emitEvent_def)
  then have "gates (stampRestoredLatches now (restore_rest now (collectState s0) (restore_kind kn now (collectState s0)
      (restore_promote (collectState s0) (restore_gate True now (collectState s0) (restore_error (collectState s0) s))))))
    = (if gr_state (gates s0) = GWaiting then gate_lapseRestoredSummary (gates s)
       else (gates s)\<lparr>gr_state := gr_state (gates s0), gr_prompt := gr_prompt (gates s0)\<rparr>)"
    by (simp add: restore_kind_def restore_promote_def restore_rest_def stampRestoredLatches_def Let_def call_eqs split: option.split)
  then show ?thesis
    by (simp add: applyStoredState_def restore_turn_def restore_codex_def setCodexTranscriptPath_def Let_def call_eqs split: option.split)
qed

text \<open>
  A respawn forgets a gate that still waits. When the attach client of a session died while a review
  gate was open and the session is spawned again, the session shows the gate as lapsed and counts no
  decision, although the registry still holds it and its caller still waits; the next gate that arrives is
  shown without its prompt and without a time, so the sweep never releases it.
\<close>

theorem respawn_hides_open_gates:
  fixes s :: live_session and client :: bool and now :: int
  assumes "\<not> alive s" and "stateRestored s" and "gr_state (gates s) = GWaiting" and "pendingGateIds s \<noteq> []"
  defines "r \<equiv> session_step s (Op_spawn client now)"
  shows "gr_state (gates r) = GLapsed \<and> pendingGateIds r = pendingGateIds s
    \<and> gates (registerPendingGate gateId prompt later r)
        = \<lparr>gr_state = GWaiting, gr_prompt = None, gr_at = None,
           gr_pending = jm_set gateId \<lparr>ge_prompt = prompt, ge_at = later\<rparr> (gr_pending (gates s))\<rparr>
    \<and> \<not> isLatchStale (gr_at (gates (registerPendingGate gateId prompt later r))) age sweep_time activity grace"
proof -
  have "gates r = gate_lapseRestoredSummary (gate_resetSummary (gates s))"
    using assms(1-3) by (simp add: r_def session_spawn_def Let_def gates_restored spawn_reset_def)
  then show ?thesis using assms(4)
    by (simp add: gate_lapseRestoredSummary_def gate_resetSummary_def pendingGateIds_def gate_pendingIds_def registerPendingGate_def
        gate_register_def jm_size_def jm_keys_def isLatchStale_def)
qed

theorem respawn_hides_open_gates_witness:
  "let s = foldl session_step (started ''/w'' True ''/c'' False 0)
       [Op_spawn True 1, Op_hook True ''u'' (HReviewGate WireWaiting ''Merge?'' (Some ''g1'')) 5, Op_exit False None 9]
   in gr_state (gates s) = GWaiting \<and> gr_state (gates (session_step s (Op_spawn True 12))) = GLapsed
     \<and> pendingGateIds (session_step s (Op_spawn True 12)) = [''g1'']"
proof -
  let ?s = "foldl session_step (started ''/w'' True ''/c'' False 0)
       [Op_spawn True 1, Op_hook True ''u'' (HReviewGate WireWaiting ''Merge?'' (Some ''g1'')) 5, Op_exit False None 9]"
  have "\<not> alive ?s" by code_simp
  moreover have "stateRestored ?s" by code_simp
  moreover have g: "gr_state (gates ?s) = GWaiting" by code_simp
  moreover have p: "pendingGateIds ?s = [''g1'']" by code_simp
  moreover have "pendingGateIds ?s \<noteq> []" using p by simp
  ultimately show ?thesis using respawn_hides_open_gates [of ?s True 12] unfolding Let_def by simp
qed

end
