(* ===== verification/HookServer.thy ===== *)
theory HookServer
  imports SessionHooks TerminalText
begin

section \<open>The hook server\<close>

text \<open>
  \<open>src/plugins/hooks.ts\<close>: the socket the agents' hooks connect to. A connection presents a session's token on
  its first line, then one message per line; review gates and promote requests stay open until they are answered by
  the user, a timer, the end of the connection or the shutdown. The sessions are those of \<open>SessionHooks\<close>,
  so gates live twice: here with the connection that waits, and in the registry of their session.
  One event of the server runs without interruption and takes one reading \<open>now\<close> of the clock. A browser action and a request for
  a GitHub token wait for an answer from outside: the connection is paused until \<open>hook_answer\<close>.
  A chunk is the text it decodes to. Replies are kept in \<open>hc_replies\<close>.
\<close>

subsection \<open>State\<close>

datatype gate_answer = AnsApproved | AnsDenied | AnsNoResponse

fun answer_name :: "gate_answer \<Rightarrow> string" where
  "answer_name AnsApproved = ''approved''"
| "answer_name AnsDenied = ''denied''"
| "answer_name AnsNoResponse = ''no_response''"

fun answer_decision :: "gate_answer \<Rightarrow> gate_decision" where
  "answer_decision AnsApproved = DApproved"
| "answer_decision AnsDenied = DDenied"
| "answer_decision AnsNoResponse = DLapsed"

datatype promote_answer = AnsAccepted string int | AnsDeclined "string option"

fun promote_json :: "promote_answer \<Rightarrow> json" where
  "promote_json (AnsAccepted worktreePath newSessionId) = JObj [(''decision'', JStr ''accepted''),
     (''worktreePath'', JStr worktreePath), (''newSessionId'', JNum newSessionId)]"
| "promote_json (AnsDeclined reason) = JObj ([(''decision'', JStr ''declined'')] @ opt_kv ''reason'' JStr reason)"

fun promote_decision_of :: "promote_answer \<Rightarrow> promote_decision" where
  "promote_decision_of (AnsAccepted _ _) = PromoteAccepted"
| "promote_decision_of (AnsDeclined _) = PromoteDeclined"

definition gate_json :: "gate_answer \<Rightarrow> string option \<Rightarrow> json" where
  "gate_json d reason = JObj ([(''decision'', JStr (answer_name d))] @ opt_kv ''reason'' JStr reason)"

definition error_json :: "string \<Rightarrow> json" where
  "error_json e = JObj [(''error'', JStr e)]"

record pending_gate =
  pg_socket :: nat
  pg_timer :: nat
  pg_prompt :: string

record pending_promote =
  pp_socket :: nat
  pp_timer :: nat

text \<open>The two callbacks a timer may have.\<close>

datatype timeout = GateTimeout string string | PromoteTimeout string

record hook_conn =
  hc_buffer :: jsstring
  hc_session :: "string option"
  hc_gate :: "string option"
  hc_writable :: bool
  hc_closed :: bool
  hc_waits :: bool
  hc_replies :: "json list"

record hook_server =
  hs_sessions :: "(string, live_session) jsmap"
  hs_tokens :: "(string, string) jsmap"
  hs_seeds :: "(string, string) jsmap"
  hs_conns :: "(nat, hook_conn) jsmap"
  hs_gates :: "(string, (string, pending_gate) jsmap) jsmap"
  hs_promotes :: "(string, pending_promote) jsmap"
  hs_timers :: "(nat, int \<times> timeout) jsmap"
  hs_fresh :: nat

text \<open>
  What lies outside: \<open>JSON.parse\<close>, the fresh ids of \<open>randomUUID\<close>, whether a session is an mcode session that skips
  permissions, and the texts read from files for the start of a session.
\<close>

record hook_env =
  he_parse :: "jsstring \<Rightarrow> json option"
  he_uuid :: "nat \<Rightarrow> string"
  he_bypass :: "string \<Rightarrow> bool"
  he_guide :: "string \<Rightarrow> string option"
  he_workflow :: "string \<Rightarrow> string option"
  he_briefing :: "string \<Rightarrow> string option"

definition MAX_LINE_BYTES :: nat where "MAX_LINE_BYTES = 65536"
definition GATE_TIMEOUT_MS :: int where "GATE_TIMEOUT_MS = 290000"
definition PROMOTE_TIMEOUT_MS :: int where "PROMOTE_TIMEOUT_MS = 290000"

definition new_server :: hook_server where
  "new_server = \<lparr>hs_sessions = [], hs_tokens = [], hs_seeds = [], hs_conns = [], hs_gates = [], hs_promotes = [],
     hs_timers = [], hs_fresh = 0\<rparr>"

definition new_conn :: hook_conn where
  "new_conn = \<lparr>hc_buffer = [], hc_session = None, hc_gate = None, hc_writable = True, hc_closed = False, hc_waits = False,
     hc_replies = []\<rparr>"

subsection \<open>Effects\<close>

definition set_timer :: "int \<Rightarrow> timeout \<Rightarrow> hook_server \<Rightarrow> nat \<times> hook_server" where
  "set_timer dueAt callback st =
     (hs_fresh st, st\<lparr>hs_timers := jm_set (hs_fresh st) (dueAt, callback) (hs_timers st), hs_fresh := Suc (hs_fresh st)\<rparr>)"

definition clear_timer :: "nat \<Rightarrow> hook_server \<Rightarrow> hook_server" where
  "clear_timer timer st = st\<lparr>hs_timers := jm_delete timer (hs_timers st)\<rparr>"

definition update_conn :: "nat \<Rightarrow> (hook_conn \<Rightarrow> hook_conn) \<Rightarrow> hook_server \<Rightarrow> hook_server" where
  "update_conn cid f st = (case jm_get (hs_conns st) cid of None \<Rightarrow> st | Some c \<Rightarrow> st\<lparr>hs_conns := jm_set cid (f c) (hs_conns st)\<rparr>)"

text \<open>\<open>if (socket.writable) socket.write(...)\<close>.\<close>

definition reply :: "nat \<Rightarrow> json \<Rightarrow> hook_server \<Rightarrow> hook_server" where
  "reply cid v st = update_conn cid (\<lambda>c. if hc_writable c then c\<lparr>hc_replies := hc_replies c @ [v]\<rparr> else c) st"

definition destroy :: "nat \<Rightarrow> hook_server \<Rightarrow> hook_server" where
  "destroy cid st = update_conn cid (\<lambda>c. c\<lparr>hc_writable := False\<rparr>) st"

text \<open>\<open>this.sessions.get(id)?.f()\<close>.\<close>

definition on_session :: "string \<Rightarrow> (live_session \<Rightarrow> live_session) \<Rightarrow> hook_server \<Rightarrow> hook_server" where
  "on_session sid f st = (case jm_get (hs_sessions st) sid of
       None \<Rightarrow> st | Some s \<Rightarrow> st\<lparr>hs_sessions := jm_set sid (f s) (hs_sessions st)\<rparr>)"

definition gates_of :: "hook_server \<Rightarrow> string \<Rightarrow> (string, pending_gate) jsmap" where
  "gates_of st sid = (case jm_get (hs_gates st) sid of None \<Rightarrow> [] | Some forSession \<Rightarrow> forSession)"

definition resolvePendingPromote :: "string \<Rightarrow> promote_answer \<Rightarrow> int \<Rightarrow> hook_server \<Rightarrow> bool \<times> hook_server" where
  "resolvePendingPromote sid d now st = (case jm_get (hs_promotes st) sid of
       None \<Rightarrow> (False, st)
     | Some p \<Rightarrow>
         let st1 = (clear_timer (pp_timer p) st)\<lparr>hs_promotes := jm_delete sid (hs_promotes st)\<rparr>
         in (True, on_session sid (resolvePromote (promote_decision_of d) now) (reply (pp_socket p) (promote_json d) st1)))"

definition resolvePendingGate :: "string \<Rightarrow> string \<Rightarrow> gate_answer \<Rightarrow> string option \<Rightarrow> int \<Rightarrow> hook_server \<Rightarrow> bool \<times> hook_server" where
  "resolvePendingGate sid gid d reason now st = (case jm_get (gates_of st sid) gid of
       None \<Rightarrow> (False, st)
     | Some p \<Rightarrow>
         let rest = jm_delete gid (gates_of st sid);
             st1 = (clear_timer (pg_timer p) st)\<lparr>hs_gates := (if rest = [] then jm_delete sid (hs_gates st) else jm_set sid rest (hs_gates st))\<rparr>
         in (True, on_session sid (resolveGate gid (answer_decision d) reason now) (reply (pg_socket p) (gate_json d reason) st1)))"

subsection \<open>A line\<close>

definition token_of :: "json option \<Rightarrow> string option" where
  "token_of v = (case v of Some (JObj ms) \<Rightarrow> text_field (object_of ms) ''token'' | _ \<Rightarrow> None)"

definition accept_handshake :: "hook_env \<Rightarrow> nat \<Rightarrow> jsstring \<Rightarrow> hook_server \<Rightarrow> hook_server" where
  "accept_handshake env cid line st =
     (case (case token_of (he_parse env line) of None \<Rightarrow> None | Some t \<Rightarrow> jm_get (hs_tokens st) t) of
        None \<Rightarrow> destroy cid st
      | Some sid \<Rightarrow> update_conn cid (\<lambda>c. c\<lparr>hc_session := Some sid\<rparr>) st)"

definition register_gate :: "nat \<Rightarrow> string \<Rightarrow> string \<Rightarrow> string \<Rightarrow> int \<Rightarrow> hook_server \<Rightarrow> hook_server" where
  "register_gate cid sid gid prompt now st =
     (let (timer, st1) = set_timer (now + GATE_TIMEOUT_MS) (GateTimeout sid gid) st;
          st2 = st1\<lparr>hs_gates := jm_set sid (jm_set gid \<lparr>pg_socket = cid, pg_timer = timer, pg_prompt = prompt\<rparr> (gates_of st1 sid)) (hs_gates st1)\<rparr>
      in update_conn cid (\<lambda>c. c\<lparr>hc_gate := Some gid\<rparr>) st2)"

definition deliver :: "hook_env \<Rightarrow> string \<Rightarrow> hook_message \<Rightarrow> int \<Rightarrow> hook_server \<Rightarrow> hook_server" where
  "deliver env sid m now st = on_session sid (emitHookEvent True (he_uuid env (hs_fresh st)) now m) st"

text \<open>A waiting gate; a session that skips permissions has it approved once its own registry knows it.\<close>

definition gate_message :: "hook_env \<Rightarrow> nat \<Rightarrow> string \<Rightarrow> string \<Rightarrow> string option \<Rightarrow> int \<Rightarrow> hook_server \<Rightarrow> hook_server" where
  "gate_message env cid sid prompt gateId now st =
     (let gid = (case gateId of Some g \<Rightarrow> g | None \<Rightarrow> he_uuid env (hs_fresh st));
          st1 = deliver env sid (HReviewGate WireWaiting prompt (Some gid)) now (register_gate cid sid gid prompt now st)
      in if jm_has (hs_sessions st) sid \<and> he_bypass env sid
         then snd (resolvePendingGate sid gid AnsApproved (Some ''Mullion session spawned with skip-permissions'') now st1) else st1)"

fun join_blocks :: "string list \<Rightarrow> string" where
  "join_blocks [] = []"
| "join_blocks [b] = b"
| "join_blocks (b # bs) = b @ [CHR 0x0A, CHR 0x0A] @ join_blocks bs"

definition session_start :: "hook_env \<Rightarrow> nat \<Rightarrow> string \<Rightarrow> string option \<Rightarrow> hook_server \<Rightarrow> hook_server" where
  "session_start env cid sid transcript st =
     (let st1 = on_session sid (\<lambda>s. s\<lparr>hooksProven := True\<rparr>) st;
          st2 = (case transcript of None \<Rightarrow> st1 | Some p \<Rightarrow> on_session sid (setCodexTranscriptPath p) st1);
          st3 = st2\<lparr>hs_seeds := jm_delete sid (hs_seeds st2)\<rparr>;
          blocks = List.map_filter nonempty_or_dropped [jm_get (hs_seeds st) sid, he_guide env sid, he_workflow env sid, he_briefing env sid]
      in reply cid (JObj [(''additionalContext'', JStr (join_blocks blocks))]) st3)"

definition promote_message :: "hook_env \<Rightarrow> nat \<Rightarrow> string \<Rightarrow> string \<Rightarrow> string option \<Rightarrow> int \<Rightarrow> hook_server \<Rightarrow> hook_server" where
  "promote_message env cid sid summary base now st =
     (if jm_has (hs_promotes st) sid
      then reply cid (promote_json (AnsDeclined (Some ''another promote request is already pending for this session''))) st
      else let (timer, st1) = set_timer (now + PROMOTE_TIMEOUT_MS) (PromoteTimeout sid) st
           in deliver env sid (HPromoteRequest summary base) now
                (st1\<lparr>hs_promotes := jm_set sid \<lparr>pp_socket = cid, pp_timer = timer\<rparr> (hs_promotes st1)\<rparr>))"

fun handle_message :: "hook_env \<Rightarrow> nat \<Rightarrow> string \<Rightarrow> hook_message \<Rightarrow> int \<Rightarrow> hook_server \<Rightarrow> hook_server" where
  "handle_message env cid sid (HReviewGate WireWaiting prompt gateId) now st = gate_message env cid sid prompt gateId now st"
| "handle_message env cid sid (HSessionStart _ transcript) now st = session_start env cid sid transcript st"
| "handle_message env cid sid (HPromoteRequest summary base) now st = promote_message env cid sid summary base now st"
| "handle_message env cid sid (HBrowserAction _) now st = update_conn cid (\<lambda>c. c\<lparr>hc_waits := True\<rparr>) st"
| "handle_message env cid sid HGithubToken now st = update_conn cid (\<lambda>c. c\<lparr>hc_waits := True\<rparr>) st"
| "handle_message env cid sid m now st = deliver env sid m now st"

definition conn_session :: "nat \<Rightarrow> hook_server \<Rightarrow> string option" where
  "conn_session cid st = (case jm_get (hs_conns st) cid of None \<Rightarrow> None | Some c \<Rightarrow> hc_session c)"

definition conn_waits :: "nat \<Rightarrow> hook_server \<Rightarrow> bool" where
  "conn_waits cid st \<longleftrightarrow> (case jm_get (hs_conns st) cid of None \<Rightarrow> False | Some c \<Rightarrow> hc_waits c)"

definition blank_line :: "jsstring \<Rightarrow> bool" where
  "blank_line line \<longleftrightarrow> TerminalText.js_trim line = []"

definition handle_line :: "hook_env \<Rightarrow> nat \<Rightarrow> jsstring \<Rightarrow> int \<Rightarrow> hook_server \<Rightarrow> hook_server" where
  "handle_line env cid line now st =
     (if blank_line line then st
      else case conn_session cid st of
        None \<Rightarrow> accept_handshake env cid line st
      | Some sid \<Rightarrow> (case parseHookMessage (he_parse env line) of
            Inl e \<Rightarrow> reply cid (error_json e) st
          | Inr m \<Rightarrow> handle_message env cid sid m now st))"

subsection \<open>Events of a connection\<close>

text \<open>The lines of the buffer, until it holds none, the handshake failed or a message waits.\<close>

function lines_loop :: "hook_env \<Rightarrow> nat \<Rightarrow> int \<Rightarrow> jsstring \<Rightarrow> hook_server \<Rightarrow> hook_server" where
  "lines_loop env cid now buf st =
     (if 10 \<notin> set buf then update_conn cid (\<lambda>c. c\<lparr>hc_buffer := buf\<rparr>) st
      else let line = takeWhile (\<lambda>c. c \<noteq> 10) buf;
               rest = tl (dropWhile (\<lambda>c. c \<noteq> 10) buf);
               st1 = handle_line env cid line now st
           in if conn_waits cid st1 \<or> (\<not> blank_line line \<and> conn_session cid st1 = None)
              then update_conn cid (\<lambda>c. c\<lparr>hc_buffer := rest\<rparr>) st1
              else lines_loop env cid now rest st1)"
  by pat_completeness auto
termination
proof (relation "measure (\<lambda>(env, cid, now, buf, st). length buf)", goal_cases)
  case (2 env cid now buf st)
  then have "dropWhile (\<lambda>c. c \<noteq> 10) buf \<noteq> []" by (auto simp: dropWhile_eq_Nil_conv)
  then show ?case using 2 length_dropWhile_le [of "\<lambda>c. c \<noteq> 10" buf] by (cases "dropWhile (\<lambda>c. c \<noteq> 10) buf") simp_all
qed simp

declare lines_loop.simps [simp del]

definition hook_data :: "hook_env \<Rightarrow> nat \<Rightarrow> jsstring \<Rightarrow> int \<Rightarrow> hook_server \<Rightarrow> hook_server" where
  "hook_data env cid text now st = (case jm_get (hs_conns st) cid of
       None \<Rightarrow> st
     | Some c \<Rightarrow>
         if \<not> hc_writable c \<or> hc_waits c then st
         else let buf = hc_buffer c @ text in
              if length buf > MAX_LINE_BYTES then destroy cid st else lines_loop env cid now buf st)"

text \<open>The awaited answer: it is written and the loop goes on with what the buffer holds.\<close>

definition hook_answer :: "hook_env \<Rightarrow> nat \<Rightarrow> json \<Rightarrow> int \<Rightarrow> hook_server \<Rightarrow> hook_server" where
  "hook_answer env cid v now st = (case jm_get (hs_conns st) cid of
       None \<Rightarrow> st
     | Some c \<Rightarrow>
         if hc_waits c then lines_loop env cid now (hc_buffer c) (update_conn cid (\<lambda>c. c\<lparr>hc_waits := False\<rparr>) (reply cid v st))
         else st)"

definition hook_close :: "nat \<Rightarrow> int \<Rightarrow> hook_server \<Rightarrow> hook_server" where
  "hook_close cid now st = (case jm_get (hs_conns st) cid of
       None \<Rightarrow> st
     | Some c \<Rightarrow>
         if hc_closed c then st
         else let st1 = update_conn cid (\<lambda>c. c\<lparr>hc_writable := False, hc_closed := True\<rparr>) st in
           (case hc_session c of
              None \<Rightarrow> st1
            | Some sid \<Rightarrow>
                let st2 = (case hc_gate c of
                      None \<Rightarrow> st1
                    | Some gid \<Rightarrow> snd (resolvePendingGate sid gid AnsNoResponse (Some ''hook connection closed before a decision was made'') now st1))
                in (case jm_get (hs_promotes st2) sid of
                      None \<Rightarrow> st2
                    | Some p \<Rightarrow> if pp_socket p = cid
                        then snd (resolvePendingPromote sid (AnsDeclined (Some ''hook connection closed before a decision was made'')) now st2)
                        else st2)))"

subsection \<open>Other events\<close>

definition fire_timer :: "nat \<Rightarrow> int \<Rightarrow> hook_server \<Rightarrow> hook_server" where
  "fire_timer timer now st = (case jm_get (hs_timers st) timer of
       None \<Rightarrow> st
     | Some (dueAt, GateTimeout sid gid) \<Rightarrow>
         snd (resolvePendingGate sid gid AnsNoResponse (Some ''timed out waiting for a decision'') now (clear_timer timer st))
     | Some (dueAt, PromoteTimeout sid) \<Rightarrow>
         snd (resolvePendingPromote sid (AnsDeclined (Some ''timed out waiting for a decision'')) now (clear_timer timer st)))"

text \<open>\<open>approved\<close>: the two decisions a user can take; without an id the oldest gate is meant.\<close>

definition resolveHookGate :: "string \<Rightarrow> string option \<Rightarrow> bool \<Rightarrow> string option \<Rightarrow> int \<Rightarrow> hook_server \<Rightarrow> bool \<times> hook_server" where
  "resolveHookGate sid gateId approved reason now st =
     (case (case gateId of Some g \<Rightarrow> Some g | None \<Rightarrow> jm_oldest (gates_of st sid)) of
        None \<Rightarrow> (False, st)
      | Some gid \<Rightarrow> resolvePendingGate sid gid (if approved then AnsApproved else AnsDenied) reason now st)"

definition pending_pairs :: "hook_server \<Rightarrow> (string \<times> string) list" where
  "pending_pairs st = concat (map (\<lambda>(sid, forSession). map (\<lambda>gid. (sid, gid)) (jm_keys forSession)) (hs_gates st))"

text \<open>
  The shutdown is cut where it awaits the end of the server: the sockets it destroys run their close handlers first,
  which decline the promote requests that still wait.
\<close>

definition shutdown :: "int \<Rightarrow> hook_server \<Rightarrow> hook_server" where
  "shutdown now st =
     (let st1 = foldl (\<lambda>st (sid, gid). snd (resolvePendingGate sid gid AnsNoResponse (Some ''Mullion is shutting down'') now st)) st (pending_pairs st)
      in foldl (\<lambda>st cid. destroy cid st) st1 (jm_keys (hs_conns st1)))"

definition server_closed :: "hook_server \<Rightarrow> hook_server" where
  "server_closed st =
     (let st1 = foldl (\<lambda>st p. clear_timer (pg_timer p) st) st (concat (map (\<lambda>(sid, forSession). jm_values forSession) (hs_gates st)));
          st2 = foldl (\<lambda>st p. clear_timer (pp_timer p) st) (st1\<lparr>hs_gates := []\<rparr>) (jm_values (hs_promotes st1))
      in st2\<lparr>hs_promotes := []\<rparr>)"

subsection \<open>Everything that happens to the server\<close>

text \<open>
  Up to the end of the server. The session manager starts and removes sessions, and things happen to a session that do not come through a hook
  connection; the other caller of \<open>emitHookEvent\<close> (\<open>codex-rate-limit.ts\<close>) sends no gate and no promote request.
\<close>

fun raises_gate :: "session_op \<Rightarrow> bool" where
  "raises_gate (Op_hook _ _ (HReviewGate WireWaiting _ _) _) \<longleftrightarrow> True"
| "raises_gate (Op_hook _ _ (HPromoteRequest _ _) _) \<longleftrightarrow> True"
| "raises_gate _ \<longleftrightarrow> False"

datatype hook_op =
    H_session string string string bool string bool int
  | H_remove string
  | H_session_op string session_op
  | H_seed string string
  | H_connect nat
  | H_data nat jsstring int
  | H_answer nat json int
  | H_close nat int
  | H_timer nat int
  | H_decide string "string option" bool "string option" int
  | H_promote string promote_answer int
  | H_shutdown int

definition add_session :: "string \<Rightarrow> string \<Rightarrow> live_session \<Rightarrow> hook_server \<Rightarrow> hook_server" where
  "add_session sid token s st =
     (if jm_has (hs_sessions st) sid then st
      else st\<lparr>hs_sessions := jm_set sid s (hs_sessions st), hs_tokens := jm_set token sid (hs_tokens st)\<rparr>)"

definition remove_session :: "string \<Rightarrow> hook_server \<Rightarrow> hook_server" where
  "remove_session sid st =
     st\<lparr>hs_sessions := jm_delete sid (hs_sessions st), hs_tokens := filter (\<lambda>(_, i). i \<noteq> sid) (hs_tokens st)\<rparr>"

fun hook_step :: "hook_env \<Rightarrow> hook_server \<Rightarrow> hook_op \<Rightarrow> hook_server" where
  "hook_step env st (H_session sid token cwd hooks codexHome ex now) = add_session sid token (started cwd hooks codexHome ex now) st"
| "hook_step env st (H_remove sid) = remove_session sid st"
| "hook_step env st (H_session_op sid op) = (if raises_gate op then st else on_session sid (\<lambda>s. session_step s op) st)"
| "hook_step env st (H_seed sid seed) = st\<lparr>hs_seeds := jm_set sid seed (hs_seeds st)\<rparr>"
| "hook_step env st (H_connect cid) =
     (if jm_has (hs_conns st) cid then st else st\<lparr>hs_conns := jm_set cid new_conn (hs_conns st)\<rparr>)"
| "hook_step env st (H_data cid text now) = hook_data env cid text now st"
| "hook_step env st (H_answer cid v now) = hook_answer env cid v now st"
| "hook_step env st (H_close cid now) = hook_close cid now st"
| "hook_step env st (H_timer timer now) = fire_timer timer now st"
| "hook_step env st (H_decide sid gateId approved reason now) = snd (resolveHookGate sid gateId approved reason now st)"
| "hook_step env st (H_promote sid d now) = snd (resolvePendingPromote sid d now st)"
| "hook_step env st (H_shutdown now) = shutdown now st"

subsection \<open>The gates of a session\<close>

text \<open>The gates a session's own registry waits for.\<close>

definition gate_ids :: "live_session \<Rightarrow> string set" where
  "gate_ids s = set (pendingGateIds s)"

lemma gate_ids_gates: "gates s' = gates s \<Longrightarrow> gate_ids s' = gate_ids s"
  by (simp add: gate_ids_def pendingGateIds_def)

lemma gates_kept [simp]:
  "gates (emitEvent k p now s) = gates s" "gates (emit_all evs now s) = gates s" "gates (put_tracker t s) = gates s"
  "gates (call_tracker f now s) = gates s" "gates (update_tracker g s) = gates s" "gates (signal kd x now s) = gates s"
  "gates (defer_signal kd x al now s) = gates s" "gates (clear_kind kd now s) = gates s" "gates (clear_error s) = gates s"
  "gates (release_permission now s) = gates s" "gates (release_plan now s) = gates s" "gates (release_question now s) = gates s"
  "gates (set_tasks ts now s) = gates s" "gates (set_liveCwd d s) = gates s" "gates (turn_done w now s) = gates s"
  by (simp_all add: call_eqs signal_def defer_signal_def clear_kind_def clear_error_def release_permission_def release_plan_def
      release_question_def set_tasks_def set_liveCwd_def turn_done_def split: option.split)

lemma gates_effects [simp]: "gates (foldl (gate_effect now) s evs) = gates s"
proof (induction evs arbitrary: s)
  case (Cons ev evs)
  then show ?case by (cases ev) simp_all
qed simp

lemma gates_call [simp]: "gates (call_gates f now s) = fst (f (gates s))"
  by (simp add: call_gates_def split: prod.split)

lemma registry_resolve: "jm_keys (gr_pending (fst (gate_resolve i d r g))) = filter (\<lambda>x. x \<noteq> i) (jm_keys (gr_pending g))"
proof (cases "jm_get (gr_pending g) i")
  case None
  then show ?thesis using jm.get_in_keys [of "gr_pending g" i] by (auto simp: gate_resolve_def intro!: filter_True [symmetric])
next
  case (Some p)
  then have "gr_pending (fst (gate_resolve i d r g)) = jm_delete i (gr_pending g)"
    by (auto simp: gate_resolve_def Let_def split: list.split)
  then show ?thesis by (simp add: jm.keys_delete)
qed

lemma gate_ids_resolve: "gate_ids (resolveGate i d r now s) = gate_ids s - {i}"
  by (auto simp: gate_ids_def pendingGateIds_def gate_pendingIds_def resolveGate_def registry_resolve)

lemma gate_ids_register: "gate_ids (registerPendingGate i p now s) = insert i (gate_ids s)"
  by (auto simp: gate_ids_def pendingGateIds_def gate_pendingIds_def registerPendingGate_def gate_register_def Let_def jm.keys_put)

lemma gates_tool_done: "gates (on_tool_done tn now s) = gates s"
proof -
  have "gates (snd (release_if c f r)) = gates (snd r)" if "\<And>s. gates (f s) = gates s" for c f r
    using that by (simp add: release_if_def)
  then show ?thesis unfolding on_tool_done_def Let_def case_prod_beta by simp
qed

lemma gates_handlers [simp]:
  "gates (on_notification t b now s) = gates s" "gates (on_progress p l ts d w now s) = gates s"
  "gates (on_promote_request m br now s) = gates s" "gates (on_permission_request tn m now s) = gates s"
  "gates (on_stop_failure er dt ty now s) = gates s" "gates (on_tool_failure tn er sm ai now s) = gates s"
  "gates (on_session_end rs cd now s) = gates s" "gates (on_plan_ready pl fp sm now s) = gates s"
  "gates (on_git_branch gb wt now s) = gates s" "gates (on_cwd_changed cw tp now s) = gates s" "gates (on_turn_start src now s) = gates s"
  "gates (on_compact e tr now s) = gates s" "gates (on_subagent e ty i sm ts now s) = gates s" "gates (on_elicitation e sv now s) = gates s"
  "gates (on_question e hdr sm now s) = gates s" "gates (on_todo ct st pr now s) = gates s" "gates (on_session_diff fs now s) = gates s"
  "gates (on_file_change fn a ai rt s) = gates s"
  by (simp_all add: on_notification_def on_progress_def on_promote_request_def on_permission_request_def on_stop_failure_def
      on_tool_failure_def on_session_end_def on_plan_ready_def on_git_branch_def on_cwd_changed_def on_turn_start_def on_compact_def
      on_subagent_def on_elicitation_def on_question_def on_todo_def on_session_diff_def on_file_change_def Let_def split: option.split)

lemma gate_ids_decided: "gate_ids (on_gate_decided d g now s) \<subseteq> gate_ids s"
  by (auto simp: on_gate_decided_def gate_ids_resolve split: option.split list.split)

lemma gate_ids_waiting: "gate_ids (on_gate_waiting g p now s) = insert g (gate_ids s)"
proof -
  have "gate_ids (on_gate_waiting g p now s) = gate_ids (registerPendingGate g p now s)"
    by (rule gate_ids_gates) (simp add: on_gate_waiting_def)
  then show ?thesis by (simp add: gate_ids_register)
qed

fun waiting_gate :: "hook_message \<Rightarrow> bool" where
  "waiting_gate (HReviewGate WireWaiting _ _) \<longleftrightarrow> True"
| "waiting_gate _ \<longleftrightarrow> False"

lemma gate_ids_hook: "\<not> waiting_gate m \<Longrightarrow> gate_ids (emitHookEvent proves uuid now m s) \<subseteq> gate_ids s"
proof -
  have "\<not> waiting_gate m \<Longrightarrow> gate_ids (HOOK_HANDLERS uuid now m s) \<subseteq> gate_ids s" for s
  proof (cases m)
    case (HReviewGate st p g)
    then show "\<not> waiting_gate m \<Longrightarrow> ?thesis" by (cases st) (simp_all add: on_review_gate_def gate_ids_decided)
  qed (simp_all add: gate_ids_def pendingGateIds_def gates_tool_done)
  moreover have "gate_ids (s\<lparr>hooksProven := True\<rparr>) = gate_ids s" by (rule gate_ids_gates) simp
  ultimately show "\<not> waiting_gate m \<Longrightarrow> ?thesis" by (cases proves) (auto simp: emitHookEvent_def)
qed

lemma gate_ids_hook_waiting:
  "gid \<noteq> [] \<Longrightarrow> gate_ids (emitHookEvent proves uuid now (HReviewGate WireWaiting p (Some gid)) s) = insert gid (gate_ids s)"
proof -
  have "gate_ids (s\<lparr>hooksProven := True\<rparr>) = gate_ids s" by (rule gate_ids_gates) simp
  then show "gid \<noteq> [] \<Longrightarrow> ?thesis"
    by (simp add: emitHookEvent_def on_review_gate_def nonempty_or_dropped_def gate_ids_waiting)
qed

lemma registry_clearStale: "set (gate_pendingIds (fst (gate_clearStale g))) \<subseteq> set (gate_pendingIds g)"
proof -
  have "set (jm_keys (gr_pending (fst (gate_lapse_all is g)))) \<subseteq> set (jm_keys (gr_pending g))" for "is"
  proof (induction "is" arbitrary: g)
    case (Cons i "is")
    obtain g1 es where r: "gate_resolve i DLapsed (Some ''stale gate cleared'') g = (g1, es)" by fastforce
    have "set (jm_keys (gr_pending (fst (gate_lapse_all (i # is) g)))) = set (jm_keys (gr_pending (fst (gate_lapse_all is g1))))"
      by (simp add: r split: prod.split)
    also have "\<dots> \<subseteq> set (jm_keys (gr_pending g1))" by (rule Cons.IH)
    also have "\<dots> \<subseteq> set (jm_keys (gr_pending g))" using registry_resolve [of i DLapsed "Some ''stale gate cleared''" g] by (auto simp: r)
    finally show ?case .
  qed simp
  then show ?thesis
    by (simp add: gate_pendingIds_def gate_clearStale_def gate_resetSummary_def split: prod.split) (metis fst_conv)
qed

lemma gate_ids_sweep: "gate_ids (snd (sweepStaleLatches staleLatches b y now s)) \<subseteq> gate_ids s"
proof (rule sweep_keeps [where P = "\<lambda>s'. gate_ids s' \<subseteq> gate_ids s"])
  have "X \<subseteq> Y \<Longrightarrow> set (gate_pendingIds g) \<subseteq> X \<Longrightarrow> set (gate_pendingIds (fst (gate_clearStale g))) \<subseteq> Y" for X Y g
    using registry_clearStale [of g] by blast
  then show "list_all (\<lambda>l. \<forall>s'. gate_ids s' \<subseteq> gate_ids s \<longrightarrow> gate_ids (case sl_kind l of Some k \<Rightarrow> clear_kind k now (sl_clear l now s')
      | None \<Rightarrow> sl_clear l now s') \<subseteq> gate_ids s) staleLatches"
    by (simp add: staleLatches_def gate_ids_def pendingGateIds_def)
qed (simp_all add: gate_ids_def pendingGateIds_def)

lemma gate_ids_stale: "gate_ids (snd (clearStaleBlockedIfOlderThan b y now s)) \<subseteq> gate_ids s"
proof -
  obtain c r where r: "sweepStaleLatches staleLatches b y now s = (c, r)" by fastforce
  have "gates (snd (clearStaleBlockedIfOlderThan b y now s)) = gates r"
    by (simp add: clearStaleBlockedIfOlderThan_def r Let_def)
  then show ?thesis using gate_ids_sweep [of b y now s] gate_ids_gates by (metis r snd_conv)
qed

text \<open>A restore touches the summary of the gates, never the gates themselves.\<close>

lemma pending_restored: "gr_pending (gates (applyStoredState lapse kn modes now st s)) = gr_pending (gates s)"
proof -
  have "gr_pending (gates (restore_gate lapse now st (restore_error st s))) = gr_pending (gates s)"
    by (simp add: restore_gate_def restore_error_def gate_lapseRestoredSummary_def)
  then have "gr_pending (gates (stampRestoredLatches now (restore_rest now st (restore_kind kn now st (restore_promote st
      (restore_gate lapse now st (restore_error st s))))))) = gr_pending (gates s)"
    by (simp add: restore_kind_def restore_promote_def restore_rest_def stampRestoredLatches_def Let_def split: option.split)
  then show ?thesis
    by (simp add: applyStoredState_def restore_turn_def restore_codex_def setCodexTranscriptPath_def Let_def split: option.split)
qed

lemma gate_ids_spawn: "gate_ids (session_spawn client now s) = gate_ids s"
  by (simp add: gate_ids_def pendingGateIds_def gate_pendingIds_def session_spawn_def Let_def pending_restored spawn_reset_def
      gate_resetSummary_def)

lemma gate_ids_new: "gate_ids (new_session cwd h c file ex now) = {}"
  by (simp add: gate_ids_def pendingGateIds_def gate_pendingIds_def new_session_def Let_def pending_restored blank_session_def
      new_gates_def jm_keys_def split: option.split)

lemma gates_input:
  "gates (snd (writeToPty data now s)) = gates s" "gates (snd (clearTurnLatches s)) = gates s" "gates (beginAgentTurn now s) = gates s"
  "gates (pty_write data now s) = gates s" "gates (session_tick ctx now s) = gates s" "gates (snd (acknowledge now s)) = gates s"
  "gates (session_onData pp data q tot now s) = gates s" "gates (clientExit inc tt now s) = gates s"
  "gates (file_checked ig now s) = gates s" "gates (resolvePromote pd now s) = gates s" "gates (emitTitle t now s) = gates s"
proof -
  show w: "gates (snd (writeToPty data now s)) = gates s" for data s by (simp add: writeToPty_def Let_def)
  show l: "gates (snd (clearTurnLatches s)) = gates s" for s by (simp add: clearTurnLatches_def Let_def)
  show "gates (beginAgentTurn now s) = gates s" unfolding beginAgentTurn_def Let_def case_prod_beta by (simp add: l)
  show "gates (pty_write data now s) = gates s"
    unfolding pty_write_def noteUserInput_def Let_def case_prod_beta by (simp add: l w)
  show "gates (session_tick ctx now s) = gates s" by (simp add: session_tick_def Let_def)
  show "gates (snd (acknowledge now s)) = gates s" by (simp add: acknowledge_def split: prod.split)
  show "gates (session_onData pp data q tot now s) = gates s" by (simp add: session_onData_def split: prod.split)
  show "gates (clientExit inc tt now s) = gates s" by (simp add: clientExit_def emitTitle_def Let_def split: option.split)
  show "gates (file_checked ig now s) = gates s" by (simp add: file_checked_def Let_def split: list.split option.split)
qed (simp_all add: resolvePromote_def emitTitle_def)

lemma gate_ids_step: "\<not> raises_gate op \<Longrightarrow> gate_ids (session_step s op) \<subseteq> gate_ids s"
proof (cases op)
  case (Op_hook proves uuid m now)
  then show "\<not> raises_gate op \<Longrightarrow> ?thesis"
    using gate_ids_hook [of m] by (cases "waiting_gate m") (auto elim!: waiting_gate.elims)
next
  case (Op_gate g d r now)
  then show ?thesis by (simp add: gate_ids_resolve)
next
  case (Op_sweep b y now)
  then show ?thesis by (simp add: gate_ids_stale)
next
  case (Op_spawn client now)
  then show ?thesis by (simp add: gate_ids_spawn)
next
  case (Op_restart ex client now)
  then show ?thesis by (simp add: gate_ids_spawn gate_ids_new)
qed (simp_all add: gate_ids_def pendingGateIds_def gates_input writeAgentInput_def clearStaleErrorIfOlderThan_def split: option.split)

subsection \<open>The promote request of a session\<close>

lemma promote_kept [simp]:
  "promoteState (emitEvent k p now s) = promoteState s" "promoteState (emit_all evs now s) = promoteState s"
  "promoteState (put_tracker t s) = promoteState s" "promoteState (call_tracker f now s) = promoteState s"
  "promoteState (update_tracker g s) = promoteState s" "promoteState (signal kd x now s) = promoteState s"
  "promoteState (defer_signal kd x al now s) = promoteState s" "promoteState (clear_kind kd now s) = promoteState s"
  "promoteState (clear_error s) = promoteState s" "promoteState (release_permission now s) = promoteState s"
  "promoteState (release_plan now s) = promoteState s" "promoteState (release_question now s) = promoteState s"
  "promoteState (set_tasks ts now s) = promoteState s" "promoteState (set_liveCwd d s) = promoteState s"
  "promoteState (turn_done w now s) = promoteState s"
  by (simp_all add: call_eqs signal_def defer_signal_def clear_kind_def clear_error_def release_permission_def release_plan_def
      release_question_def set_tasks_def set_liveCwd_def turn_done_def split: option.split)

lemma promote_effects [simp]: "promoteState (foldl (gate_effect now) s evs) = promoteState s"
proof (induction evs arbitrary: s)
  case (Cons ev evs)
  then show ?case by (cases ev) simp_all
qed simp

lemma promote_call_gates [simp]: "promoteState (call_gates f now s) = promoteState s"
  by (simp add: call_gates_def split: prod.split)

lemma promote_tool_done: "promoteState (on_tool_done tn now s) = promoteState s"
proof -
  have "promoteState (snd (release_if c f r)) = promoteState (snd r)" if "\<And>s. promoteState (f s) = promoteState s" for c f r
    using that by (simp add: release_if_def)
  then show ?thesis unfolding on_tool_done_def Let_def case_prod_beta by simp
qed

lemma promote_handlers [simp]:
  "promoteState (on_notification t b now s) = promoteState s" "promoteState (on_progress p l ts d w now s) = promoteState s"
  "promoteState (on_permission_request tn m now s) = promoteState s" "promoteState (on_stop_failure er dt ty now s) = promoteState s"
  "promoteState (on_tool_failure tn er sm ai now s) = promoteState s" "promoteState (on_session_end rs cd now s) = promoteState s"
  "promoteState (on_plan_ready pl fp sm now s) = promoteState s" "promoteState (on_git_branch gb wt now s) = promoteState s"
  "promoteState (on_cwd_changed cw tp now s) = promoteState s" "promoteState (on_turn_start src now s) = promoteState s"
  "promoteState (on_compact e tr now s) = promoteState s" "promoteState (on_subagent e ty i sm ts now s) = promoteState s"
  "promoteState (on_elicitation e sv now s) = promoteState s" "promoteState (on_question e hdr sm now s) = promoteState s"
  "promoteState (on_todo ct st pr now s) = promoteState s" "promoteState (on_session_diff fs now s) = promoteState s"
  "promoteState (on_file_change fn a ai rt s) = promoteState s" "promoteState (on_review_gate gw pm g uuid now s) = promoteState s"
  by (simp_all add: on_notification_def on_progress_def on_permission_request_def on_stop_failure_def
      on_tool_failure_def on_session_end_def on_plan_ready_def on_git_branch_def on_cwd_changed_def on_turn_start_def on_compact_def
      on_subagent_def on_elicitation_def on_question_def on_todo_def on_session_diff_def on_file_change_def on_review_gate_def
      on_gate_waiting_def on_gate_decided_def registerPendingGate_def resolveGate_def Let_def split: option.split gate_wire.split list.split)

fun asks_promote :: "hook_message \<Rightarrow> bool" where
  "asks_promote (HPromoteRequest _ _) \<longleftrightarrow> True"
| "asks_promote _ \<longleftrightarrow> False"

lemma promote_hook: "\<not> asks_promote m \<Longrightarrow> promoteState (emitHookEvent proves uuid now m s) = promoteState s"
  by (cases m) (simp_all add: emitHookEvent_def promote_tool_done Let_def)

lemma promote_restored:
  "promoteState (applyStoredState lapse kn modes now st s) = restored (st_promoteState st) (promoteState s)"
proof -
  have "promoteState (stampRestoredLatches now (restore_rest now st (restore_kind kn now st (restore_promote st x))))
    = restored (st_promoteState st) (promoteState x)" for x
    by (simp add: restore_kind_def restore_promote_def restore_rest_def stampRestoredLatches_def Let_def split: option.split)
  moreover have "promoteState (restore_gate lapse now st (restore_error st s)) = promoteState s"
    by (simp add: restore_gate_def restore_error_def)
  ultimately show ?thesis
    by (simp add: applyStoredState_def restore_turn_def restore_codex_def setCodexTranscriptPath_def Let_def split: option.split)
qed

lemma promote_input:
  "promoteState (snd (writeToPty data now s)) = promoteState s" "promoteState (snd (clearTurnLatches s)) = promoteState s"
  "promoteState (beginAgentTurn now s) = promoteState s" "promoteState (pty_write data now s) = promoteState s"
  "promoteState (session_tick ctx now s) = promoteState s" "promoteState (snd (acknowledge now s)) = promoteState s"
  "promoteState (session_onData pp data q tot now s) = promoteState s" "promoteState (clientExit inc tt now s) = promoteState s"
  "promoteState (file_checked ig now s) = promoteState s" "promoteState (emitTitle t now s) = promoteState s"
proof -
  show w: "promoteState (snd (writeToPty data now s)) = promoteState s" for data s by (simp add: writeToPty_def Let_def)
  show l: "promoteState (snd (clearTurnLatches s)) = promoteState s" for s by (simp add: clearTurnLatches_def Let_def)
  show "promoteState (beginAgentTurn now s) = promoteState s" unfolding beginAgentTurn_def Let_def case_prod_beta by (simp add: l)
  show "promoteState (pty_write data now s) = promoteState s"
    unfolding pty_write_def noteUserInput_def Let_def case_prod_beta by (simp add: l w)
  show "promoteState (session_tick ctx now s) = promoteState s" by (simp add: session_tick_def Let_def)
  show "promoteState (snd (acknowledge now s)) = promoteState s" by (simp add: acknowledge_def split: prod.split)
  show "promoteState (session_onData pp data q tot now s) = promoteState s" by (simp add: session_onData_def split: prod.split)
  show "promoteState (clientExit inc tt now s) = promoteState s" by (simp add: clientExit_def emitTitle_def Let_def split: option.split)
  show "promoteState (file_checked ig now s) = promoteState s" by (simp add: file_checked_def Let_def split: list.split option.split)
qed (simp add: emitTitle_def)

lemma promote_resolved: "promoteState (resolvePromote d now s) \<noteq> PPending"
  by (cases d) (simp_all add: resolvePromote_def)

lemma promote_spawn: "promoteState (session_spawn client now s) = PPending \<Longrightarrow> promoteState s = PPending"
  by (auto simp: session_spawn_def Let_def promote_restored restored_def collectState_def spawn_reset_def split: if_splits option.splits)

lemma promote_new: "promoteState (new_session cwd h c file ex now) = PPending
    \<Longrightarrow> (case file of None \<Rightarrow> False | Some st \<Rightarrow> st_promoteState st = Some PPending)"
  by (auto simp: new_session_def Let_def blank_session_def promote_restored restored_def split: option.splits if_splits)

lemma promote_stale: "promoteState (snd (clearStaleBlockedIfOlderThan b y now s)) = PPending \<Longrightarrow> promoteState s = PPending"
proof -
  have p: "promoteState (snd (sweepStaleLatches staleLatches b y now s)) = PPending \<longrightarrow> promoteState s = PPending"
    by (rule sweep_keeps [where P = "\<lambda>s'. promoteState s' = PPending \<longrightarrow> promoteState s = PPending"]) (simp_all add: staleLatches_def)
  obtain c r where r: "sweepStaleLatches staleLatches b y now s = (c, r)" by fastforce
  have "promoteState (snd (clearStaleBlockedIfOlderThan b y now s)) = promoteState r"
    by (simp add: clearStaleBlockedIfOlderThan_def r Let_def)
  then show "promoteState (snd (clearStaleBlockedIfOlderThan b y now s)) = PPending \<Longrightarrow> promoteState s = PPending" using p r by simp
qed

text \<open>Nothing but the handler of a promote request makes one pending.\<close>

lemma promote_step: "\<not> raises_gate op \<Longrightarrow> promoteState (session_step s op) = PPending \<Longrightarrow> promoteState s = PPending"
proof (cases op)
  case (Op_hook proves uuid m now)
  then show "\<not> raises_gate op \<Longrightarrow> promoteState (session_step s op) = PPending \<Longrightarrow> promoteState s = PPending"
    using promote_hook [of m] by (cases "asks_promote m") (auto elim!: asks_promote.elims)
next
  case (Op_restart ex client now)
  assume "promoteState (session_step s op) = PPending"
  then show "promoteState s = PPending"
    using promote_spawn promote_new by (fastforce simp: Op_restart collectState_def)
next
  case (Op_spawn client now)
  then show "promoteState (session_step s op) = PPending \<Longrightarrow> promoteState s = PPending" by (simp add: promote_spawn)
next
  case (Op_sweep b y now)
  then show "promoteState (session_step s op) = PPending \<Longrightarrow> promoteState s = PPending" by (simp add: promote_stale)
next
  case (Op_sweep_error age now)
  then show "promoteState (session_step s op) = PPending \<Longrightarrow> promoteState s = PPending"
    by (simp add: clearStaleErrorIfOlderThan_def split: option.splits if_splits)
qed (simp_all add: promote_input promote_resolved resolveGate_def writeAgentInput_def)

end
