(* ===== verification/HookPromises.thy ===== *)
theory HookPromises
  imports HookServer "HOL-Library.Sublist"
begin

section \<open>What the hook server promises\<close>

text \<open>
  Properties of \<open>HookServer\<close> over all its runs: every gate a session waits for has a connection and an armed timer
  that answers it, the timers answer everything that waits, and a connection acts only on the session of a token it
  has presented.
\<close>

subsection \<open>Fields an effect leaves alone\<close>

lemma conn_kept [simp]:
  "hs_sessions (update_conn cid f st) = hs_sessions st" "hs_tokens (update_conn cid f st) = hs_tokens st"
  "hs_gates (update_conn cid f st) = hs_gates st" "hs_promotes (update_conn cid f st) = hs_promotes st"
  "hs_timers (update_conn cid f st) = hs_timers st" "hs_fresh (update_conn cid f st) = hs_fresh st"
  by (simp_all add: update_conn_def split: option.split)

lemma session_kept [simp]:
  "hs_conns (on_session sid g st) = hs_conns st" "hs_tokens (on_session sid g st) = hs_tokens st"
  "hs_gates (on_session sid g st) = hs_gates st" "hs_promotes (on_session sid g st) = hs_promotes st"
  "hs_timers (on_session sid g st) = hs_timers st" "hs_fresh (on_session sid g st) = hs_fresh st"
  by (simp_all add: on_session_def split: option.split)

lemma gates_of_eq: "hs_gates st' = hs_gates st \<Longrightarrow> gates_of st' = gates_of st"
  by (rule ext) (simp add: gates_of_def)

lemma gates_of_kept [simp]:
  "gates_of (update_conn cid f st) = gates_of st" "gates_of (on_session sid g st) = gates_of st"
  "gates_of (clear_timer t st) = gates_of st" "gates_of (st\<lparr>hs_promotes := ps\<rparr>) = gates_of st"
  "gates_of (st\<lparr>hs_timers := ts, hs_fresh := n\<rparr>) = gates_of st" "gates_of (st\<lparr>hs_sessions := ss\<rparr>) = gates_of st"
  "gates_of (st\<lparr>hs_sessions := ss, hs_tokens := tk\<rparr>) = gates_of st" "gates_of (st\<lparr>hs_seeds := sd\<rparr>) = gates_of st"
  "gates_of (st\<lparr>hs_conns := cs\<rparr>) = gates_of st"
  by (rule gates_of_eq; simp add: clear_timer_def)+

lemma timer_kept [simp]:
  "hs_sessions (clear_timer t st) = hs_sessions st" "hs_gates (clear_timer t st) = hs_gates st"
  "hs_promotes (clear_timer t st) = hs_promotes st" "hs_conns (clear_timer t st) = hs_conns st"
  "hs_fresh (clear_timer t st) = hs_fresh st" "hs_timers (clear_timer t st) = jm_delete t (hs_timers st)"
  by (simp_all add: clear_timer_def)

lemma jm_get_session: "jm_get (hs_sessions (on_session sid f st)) sid' =
    (if sid' = sid then map_option f (jm_get (hs_sessions st) sid) else jm_get (hs_sessions st) sid')"
  by (simp add: on_session_def jm.get_put split: option.split)

text \<open>The state after a gate is resolved, component by component.\<close>

lemma resolved_gates: "gates_of (snd (resolvePendingGate sid gid d reason now st)) sid' =
    (if sid' = sid \<and> jm_has (gates_of st sid) gid then jm_delete gid (gates_of st sid) else gates_of st sid')"
proof (cases "jm_get (gates_of st sid) gid")
  case None
  then show ?thesis by (simp add: resolvePendingGate_def jm_has_get)
next
  case (Some p)
  have "gates_of (st\<lparr>hs_timers := ts, hs_gates := (if rest = [] then jm_delete sid (hs_gates st) else jm_set sid rest (hs_gates st))\<rparr>) sid'
      = (if sid' = sid then rest else gates_of st sid')" for rest ts
    by (simp add: gates_of_def jm.get_put jm.get_delete)
  then show ?thesis using Some
    by (simp add: resolvePendingGate_def Let_def clear_timer_def reply_def jm_has_get)
qed

lemma resolved_rest:
  "hs_promotes (snd (resolvePendingGate sid gid d reason now st)) = hs_promotes st"
  "hs_tokens (snd (resolvePendingGate sid gid d reason now st)) = hs_tokens st"
  "hs_fresh (snd (resolvePendingGate sid gid d reason now st)) = hs_fresh st"
  by (simp_all add: resolvePendingGate_def Let_def reply_def clear_timer_def split: option.split)

lemma resolved_timers: "hs_timers (snd (resolvePendingGate sid gid d reason now st)) =
    (case jm_get (gates_of st sid) gid of None \<Rightarrow> hs_timers st | Some p \<Rightarrow> jm_delete (pg_timer p) (hs_timers st))"
  by (simp add: resolvePendingGate_def Let_def reply_def clear_timer_def split: option.split)

lemma resolved_sessions: "jm_get (hs_sessions (snd (resolvePendingGate sid gid d reason now st))) sid' =
    (if sid' = sid \<and> jm_has (gates_of st sid) gid
     then map_option (resolveGate gid (answer_decision d) reason now) (jm_get (hs_sessions st) sid)
     else jm_get (hs_sessions st) sid')"
  by (auto simp: resolvePendingGate_def Let_def reply_def jm_get_session jm_has_get split: option.split)

lemma promoted_rest:
  "gates_of (snd (resolvePendingPromote sid d now st)) = gates_of st"
  "hs_fresh (snd (resolvePendingPromote sid d now st)) = hs_fresh st"
  "hs_promotes (snd (resolvePendingPromote sid d now st)) = jm_delete sid (hs_promotes st)"
  "hs_timers (snd (resolvePendingPromote sid d now st)) =
    (case jm_get (hs_promotes st) sid of None \<Rightarrow> hs_timers st | Some p \<Rightarrow> jm_delete (pp_timer p) (hs_timers st))"
proof -
  have "jm_get (hs_promotes st) sid = None \<Longrightarrow> jm_delete sid (hs_promotes st) = hs_promotes st"
    by (simp add: jm_defs delete_id map_of_eq_None_iff)
  then show "hs_promotes (snd (resolvePendingPromote sid d now st)) = jm_delete sid (hs_promotes st)"
    by (simp add: resolvePendingPromote_def Let_def reply_def split: option.split)
qed (simp_all add: resolvePendingPromote_def Let_def reply_def split: option.split)

lemma promoted_sessions: "jm_get (hs_sessions (snd (resolvePendingPromote sid d now st))) sid' =
    (if sid' = sid \<and> jm_has (hs_promotes st) sid
     then map_option (resolvePromote (promote_decision_of d) now) (jm_get (hs_sessions st) sid)
     else jm_get (hs_sessions st) sid')"
  by (auto simp: resolvePendingPromote_def Let_def reply_def jm_get_session jm_has_get split: option.split)

subsection \<open>Every gate is attended\<close>

text \<open>
  The timer of what waits for an answer; \<open>timed\<close>: it is armed with the callback that answers it (or, for a
  callback in \<open>X\<close>, is gone). Every gate of a session's registry is one the server holds, and no timer is later
  than \<open>T\<close> allows.
\<close>

fun owner :: "hook_server \<Rightarrow> timeout \<Rightarrow> nat option" where
  "owner st (GateTimeout sid gid) = map_option pg_timer (jm_get (gates_of st sid) gid)"
| "owner st (PromoteTimeout sid) = map_option pp_timer (jm_get (hs_promotes st) sid)"

definition timed :: "timeout set \<Rightarrow> hook_server \<Rightarrow> bool" where
  "timed X st \<longleftrightarrow> (\<forall>cb t. owner st cb = Some t \<longrightarrow> map_option snd (jm_get (hs_timers st) t) = Some cb
     \<or> (cb \<in> X \<and> jm_get (hs_timers st) t = None))"

lemma timed_armed: "timed X st \<Longrightarrow> owner st cb = Some t \<Longrightarrow> cb \<notin> X \<Longrightarrow> \<exists>d. jm_get (hs_timers st) t = Some (d, cb)"
  by (fastforce simp: timed_def)

lemma timed_same: "timed X st \<Longrightarrow> owner st cb = Some t \<Longrightarrow> jm_get (hs_timers st) t = Some (d, cb') \<Longrightarrow> cb' = cb"
  by (fastforce simp: timed_def)

lemma owner_eq: "gates_of st' = gates_of st \<Longrightarrow> hs_promotes st' = hs_promotes st \<Longrightarrow> owner st' = owner st"
  by (rule ext, rename_tac cb, case_tac cb) simp_all

lemma owner_kept [simp]:
  "owner (update_conn cid f st) = owner st" "owner (on_session sid g st) = owner st" "owner (clear_timer t st) = owner st"
  "owner (st\<lparr>hs_seeds := sd\<rparr>) = owner st" "owner (st\<lparr>hs_conns := cs\<rparr>) = owner st"
  "owner (st\<lparr>hs_sessions := ss, hs_tokens := tk\<rparr>) = owner st"
  by (rule owner_eq; simp)+

lemma timed_resolved:
  assumes "timed X st" and "X \<subseteq> {cb}" and o: "owner st' = (owner st)(cb := None)"
    and t: "hs_timers st' = (case owner st cb of None \<Rightarrow> hs_timers st | Some t \<Rightarrow> jm_delete t (hs_timers st))"
  shows "timed {} st'"
  unfolding timed_def
proof (intro allI impI disjI1)
  fix cb' t'
  assume "owner st' cb' = Some t'"
  then have cb': "cb' \<noteq> cb" "owner st cb' = Some t'" by (auto simp: o split: if_splits)
  then have m: "map_option snd (jm_get (hs_timers st) t') = Some cb'" using assms(1,2) by (auto simp: timed_def)
  moreover have "t \<noteq> t'" if "owner st cb = Some t" for t
    using timed_same [OF assms(1) that] timed_same [OF assms(1) cb'(2)] m cb'(1) by auto
  ultimately show "map_option snd (jm_get (hs_timers st') t') = Some cb'"
    by (auto simp: t jm.get_delete split: option.split)
qed

definition attended :: "hook_server \<Rightarrow> bool" where
  "attended st \<longleftrightarrow> (\<forall>sid s gid. jm_get (hs_sessions st) sid = Some s \<longrightarrow> gid \<in> gate_ids s \<longrightarrow> jm_has (gates_of st sid) gid)"

definition dated :: "int \<Rightarrow> hook_server \<Rightarrow> bool" where
  "dated T st \<longleftrightarrow> (\<forall>t d cb. jm_get (hs_timers st) t = Some (d, cb) \<longrightarrow> t < hs_fresh st \<and> d \<le> T + GATE_TIMEOUT_MS)"

definition server_ok :: "int \<Rightarrow> timeout set \<Rightarrow> hook_server \<Rightarrow> bool" where
  "server_ok T X st \<longleftrightarrow> timed X st \<and> attended st \<and> dated T st"

lemma ok_new: "server_ok T {} new_server"
proof -
  have "owner new_server cb = None" for cb by (cases cb) (simp_all add: new_server_def gates_of_def)
  then show ?thesis by (simp add: server_ok_def timed_def attended_def dated_def) (simp add: new_server_def)
qed

lemma ok_conn [simp]: "server_ok T X (update_conn cid f st) = server_ok T X st"
  by (simp add: server_ok_def timed_def attended_def dated_def)

lemma ok_reply [simp]: "server_ok T X (reply cid v st) = server_ok T X st" "server_ok T X (destroy cid st) = server_ok T X st"
  by (simp_all add: reply_def destroy_def)

lemma ok_seeds [simp]: "server_ok T X (st\<lparr>hs_seeds := sd\<rparr>) = server_ok T X st"
  by (simp add: server_ok_def timed_def attended_def dated_def)

lemma ok_conns [simp]: "server_ok T X (st\<lparr>hs_conns := cs\<rparr>) = server_ok T X st"
  by (simp add: server_ok_def timed_def attended_def dated_def)

lemma ok_session:
  assumes "server_ok T X st" and "\<And>s. jm_get (hs_sessions st) sid = Some s \<Longrightarrow> gate_ids (f s) \<subseteq> gate_ids s \<union> {g. jm_has (gates_of st sid) g}"
  shows "server_ok T X (on_session sid f st)"
proof -
  have "attended (on_session sid f st)" using assms
    unfolding server_ok_def attended_def jm_get_session gates_of_kept
    by (fastforce split: if_splits)
  then show ?thesis using assms(1) by (simp add: server_ok_def timed_def dated_def)
qed

lemma ok_session_same: "server_ok T X st \<Longrightarrow> (\<And>s. gate_ids (f s) \<subseteq> gate_ids s) \<Longrightarrow> server_ok T X (on_session sid f st)"
  by (rule ok_session) auto

text \<open>A timer that fired or is cleared leaves at most its own callback without a timer.\<close>

lemma timer_cleared:
  assumes "server_ok T {} st" and "jm_get (hs_timers st) t = Some (d, cb)"
  shows "server_ok T {cb} (clear_timer t st)"
proof -
  have ok: "timed {} st" "attended st" "dated T st" using assms(1) by (simp_all add: server_ok_def)
  have "timed {cb} (clear_timer t st)"
    unfolding timed_def owner_kept timer_kept jm.get_delete
    using timed_armed [OF ok(1)] timed_same [OF ok(1) _ assms(2)] by fastforce
  with ok(2,3) show ?thesis by (auto simp: server_ok_def attended_def dated_def jm.get_delete)
qed

lemma ok_resolved:
  assumes ok: "server_ok T X st" and X: "X \<subseteq> {GateTimeout sid gid}"
  shows "server_ok T {} (snd (resolvePendingGate sid gid d reason now st))" (is "server_ok T {} ?r")
proof (cases "jm_get (gates_of st sid) gid")
  case None
  then have "?r = st" by (simp add: resolvePendingGate_def)
  moreover have "timed {} st"
    unfolding timed_def
  proof (intro allI impI disjI1)
    fix cb t
    assume o: "owner st cb = Some t"
    then have "cb \<notin> X" using X None by auto
    with timed_armed [of X st cb t] ok o show "map_option snd (jm_get (hs_timers st) t) = Some cb" by (auto simp: server_ok_def)
  qed
  ultimately show ?thesis using ok by (simp add: server_ok_def)
next
  case (Some p)
  then have has: "jm_has (gates_of st sid) gid" by (simp add: jm_has_get)
  have timed: "timed {} ?r"
  proof (rule timed_resolved)
    show "owner ?r = (owner st)(GateTimeout sid gid := None)"
      by (rule ext, rename_tac cb, case_tac cb) (auto simp: resolved_gates resolved_rest has jm.get_delete)
    show "hs_timers ?r = (case owner st (GateTimeout sid gid) of None \<Rightarrow> hs_timers st | Some t \<Rightarrow> jm_delete t (hs_timers st))"
      by (simp add: resolved_timers Some)
  qed (use ok X in \<open>simp_all add: server_ok_def\<close>)
  have "attended ?r"
    unfolding attended_def resolved_gates resolved_sessions
    using ok has by (auto simp: server_ok_def attended_def jm_has_get jm.get_delete gate_ids_resolve split: if_splits)
  moreover have "dated T ?r"
    unfolding dated_def resolved_rest resolved_timers Some using ok by (auto simp: server_ok_def dated_def jm.get_delete split: if_splits)
  ultimately show ?thesis using timed by (simp add: server_ok_def)
qed

lemma gate_ids_promote: "gate_ids (resolvePromote d now s) = gate_ids s"
  by (rule gate_ids_gates) (simp add: gates_input)

lemma ok_promoted:
  assumes ok: "server_ok T X st" and X: "X \<subseteq> {PromoteTimeout sid}"
  shows "server_ok T {} (snd (resolvePendingPromote sid d now st))" (is "server_ok T {} ?r")
proof -
  have "timed {} ?r"
  proof (rule timed_resolved)
    show "owner ?r = (owner st)(PromoteTimeout sid := None)"
      by (rule ext, rename_tac cb, case_tac cb) (auto simp: promoted_rest jm.get_delete)
    show "hs_timers ?r = (case owner st (PromoteTimeout sid) of None \<Rightarrow> hs_timers st | Some t \<Rightarrow> jm_delete t (hs_timers st))"
      by (simp add: promoted_rest split: option.split)
  qed (use ok X in \<open>simp_all add: server_ok_def\<close>)
  moreover have "attended ?r"
    unfolding attended_def promoted_rest promoted_sessions
    using ok by (auto simp: server_ok_def attended_def gate_ids_promote split: if_splits)
  moreover have "dated T ?r"
    unfolding dated_def promoted_rest using ok by (auto simp: server_ok_def dated_def jm.get_delete split: if_splits option.splits)
  ultimately show ?thesis by (simp add: server_ok_def)
qed

subsection \<open>Messages and lines keep it\<close>

lemma timed_registered:
  assumes "timed {} st" and "dated T st" and o: "owner st' = (owner st)(cb := Some (hs_fresh st))"
    and t: "hs_timers st' = jm_set (hs_fresh st) (d, cb) (hs_timers st)"
  shows "timed {} st'"
  unfolding timed_def
proof (intro allI impI disjI1)
  fix cb' t'
  assume a: "owner st' cb' = Some t'"
  show "map_option snd (jm_get (hs_timers st') t') = Some cb'"
  proof (cases "cb' = cb")
    case True
    then show ?thesis using a by (simp add: o t jm.get_put)
  next
    case False
    then have "\<exists>d. jm_get (hs_timers st) t' = Some (d, cb')" using a timed_armed [OF assms(1)] by (simp add: o)
    moreover from this have "t' < hs_fresh st" using assms(2) by (auto simp: dated_def)
    ultimately show ?thesis by (auto simp: t jm.get_put)
  qed
qed

lemma dated_registered:
  "dated T st \<Longrightarrow> d \<le> T + GATE_TIMEOUT_MS \<Longrightarrow> hs_timers st' = jm_set (hs_fresh st) (d, cb) (hs_timers st)
    \<Longrightarrow> hs_fresh st' = Suc (hs_fresh st) \<Longrightarrow> dated T st'"
  by (auto simp: dated_def jm.get_put less_Suc_eq split: if_splits)

lemma registered_gates: "gates_of (register_gate cid sid gid prompt now st) sid' =
    (if sid' = sid then jm_set gid \<lparr>pg_socket = cid, pg_timer = hs_fresh st, pg_prompt = prompt\<rparr> (gates_of st sid) else gates_of st sid')"
  by (simp add: register_gate_def set_timer_def gates_of_def jm.get_put)

lemma registered_rest:
  "hs_sessions (register_gate cid sid gid prompt now st) = hs_sessions st"
  "hs_promotes (register_gate cid sid gid prompt now st) = hs_promotes st"
  "hs_tokens (register_gate cid sid gid prompt now st) = hs_tokens st"
  "hs_fresh (register_gate cid sid gid prompt now st) = Suc (hs_fresh st)"
  "hs_timers (register_gate cid sid gid prompt now st) = jm_set (hs_fresh st) (now + GATE_TIMEOUT_MS, GateTimeout sid gid) (hs_timers st)"
  by (simp_all add: register_gate_def set_timer_def)

lemma ok_registered:
  assumes ok: "server_ok T {} st" and "now \<le> T"
  shows "server_ok T {} (register_gate cid sid gid prompt now st)" (is "server_ok T {} ?r")
proof -
  have "timed {} ?r"
  proof (rule timed_registered [where T = T and st = st])
    show "owner ?r = (owner st)(GateTimeout sid gid := Some (hs_fresh st))"
      by (rule ext, rename_tac cb, case_tac cb) (simp_all add: registered_gates registered_rest jm.get_put)
  qed (use ok in \<open>simp_all add: registered_rest server_ok_def\<close>)
  moreover have "attended ?r" unfolding attended_def registered_gates registered_rest
    using ok by (auto simp: server_ok_def attended_def jm_has_set)
  moreover have "dated T ?r"
    by (rule dated_registered [where st = st]) (use assms in \<open>simp_all add: registered_rest server_ok_def\<close>)
  ultimately show ?thesis by (simp add: server_ok_def)
qed

lemma ok_deliver: "server_ok T X st \<Longrightarrow> \<not> waiting_gate m \<Longrightarrow> server_ok T X (deliver env sid m now st)"
  unfolding deliver_def by (rule ok_session_same) (auto simp: gate_ids_hook)

lemma ok_deliver_gate:
  assumes "server_ok T X st" and "gid \<noteq> []" and "jm_has (gates_of st sid) gid"
  shows "server_ok T X (deliver env sid (HReviewGate WireWaiting prompt (Some gid)) now st)"
  unfolding deliver_def using assms by (intro ok_session) (auto simp: gate_ids_hook_waiting)

text \<open>\<open>randomUUID\<close> never returns the empty string.\<close>

definition uuids :: "hook_env \<Rightarrow> bool" where
  "uuids env \<longleftrightarrow> (\<forall>n. he_uuid env n \<noteq> [])"

lemma ok_gate_message:
  assumes "server_ok T {} st" and "now \<le> T" and "uuids env" and "gateId \<noteq> Some []"
  shows "server_ok T {} (gate_message env cid sid prompt gateId now st)"
proof -
  define gid where "gid = (case gateId of Some g \<Rightarrow> g | None \<Rightarrow> he_uuid env (hs_fresh st))"
  have "gid \<noteq> []" using assms(3,4) by (auto simp: gid_def uuids_def split: option.split)
  then have "server_ok T {} (deliver env sid (HReviewGate WireWaiting prompt (Some gid)) now (register_gate cid sid gid prompt now st))"
    using ok_registered [OF assms(1,2)] by (intro ok_deliver_gate) (simp_all add: registered_gates jm_has_set)
  then show ?thesis by (simp add: gate_message_def gid_def [symmetric] Let_def ok_resolved [OF _ empty_subsetI])
qed

lemma ok_session_start: "server_ok T X st \<Longrightarrow> server_ok T X (session_start env cid sid tr st)"
  unfolding session_start_def Let_def
  by (auto intro!: ok_session_same simp: gate_ids_def pendingGateIds_def setCodexTranscriptPath_def Let_def split: option.split)

lemma ok_promote_message:
  assumes ok: "server_ok T {} st" and "now \<le> T"
  shows "server_ok T {} (promote_message env cid sid summary base now st)"
proof (cases "jm_has (hs_promotes st) sid")
  case True
  then show ?thesis using ok by (simp add: promote_message_def)
next
  case False
  define r where "r = snd (set_timer (now + PROMOTE_TIMEOUT_MS) (PromoteTimeout sid) st)
    \<lparr>hs_promotes := jm_set sid \<lparr>pp_socket = cid, pp_timer = hs_fresh st\<rparr> (hs_promotes st)\<rparr>"
  have g: "gates_of r = gates_of st" by (rule gates_of_eq) (simp add: r_def set_timer_def)
  have "timed {} r"
  proof (rule timed_registered [where T = T and st = st])
    show "owner r = (owner st)(PromoteTimeout sid := Some (hs_fresh st))"
      by (rule ext, rename_tac cb, case_tac cb) (simp_all add: g, simp add: r_def jm.get_put)
  qed (use ok in \<open>simp_all add: r_def set_timer_def server_ok_def\<close>)
  moreover have "attended r" using ok by (simp add: server_ok_def attended_def g) (simp add: r_def set_timer_def)
  moreover have "dated T r"
    by (rule dated_registered [where st = st])
      (use assms in \<open>simp_all add: r_def set_timer_def server_ok_def GATE_TIMEOUT_MS_def PROMOTE_TIMEOUT_MS_def\<close>)
  ultimately have "server_ok T {} r" by (simp add: server_ok_def)
  then show ?thesis using False ok_deliver [of T "{}" r "HPromoteRequest summary base" env sid now]
    by (simp add: promote_message_def r_def set_timer_def)
qed

lemma ok_message:
  assumes "server_ok T {} st" and "now \<le> T" and "uuids env" and "hook_wf m"
  shows "server_ok T {} (handle_message env cid sid m now st)"
proof (cases m)
  case (HReviewGate g prompt gateId)
  with assms show ?thesis by (cases g) (simp_all add: ok_gate_message ok_deliver)
qed (use assms in \<open>simp_all add: ok_session_start ok_promote_message ok_deliver\<close>)

lemma ok_line: "server_ok T {} st \<Longrightarrow> now \<le> T \<Longrightarrow> uuids env \<Longrightarrow> server_ok T {} (handle_line env cid line now st)"
proof -
  assume a: "server_ok T {} st" "now \<le> T" "uuids env"
  have "server_ok T {} (handle_message env cid sid m now st)" if "parseHookMessage (he_parse env line) = Inr m" for sid m
    using ok_message [OF a] accepted_wf that by blast
  then show ?thesis using a(1) by (simp add: handle_line_def accept_handshake_def split: option.split sum.split)
qed

lemma ok_loop: "server_ok T {} st \<Longrightarrow> now \<le> T \<Longrightarrow> uuids env \<Longrightarrow> server_ok T {} (lines_loop env cid now buf st)"
proof (induction env cid now buf st rule: lines_loop.induct)
  case (1 env cid now buf st)
  show ?case
  proof (subst lines_loop.simps, cases "10 \<notin> set buf", goal_cases)
    case 2
    define st1 where "st1 = handle_line env cid (takeWhile (\<lambda>c. c \<noteq> 10) buf) now st"
    have "server_ok T {} st1" unfolding st1_def using 1 by (intro ok_line)
    then show ?case using 1 2 by (simp add: Let_def st1_def [symmetric])
  qed (use 1 in simp)
qed

subsection \<open>Every event keeps it\<close>

lemma ok_data: "server_ok T {} st \<Longrightarrow> now \<le> T \<Longrightarrow> uuids env \<Longrightarrow> server_ok T {} (hook_data env cid text now st)"
  by (simp add: hook_data_def Let_def ok_loop split: option.split)

lemma ok_answer: "server_ok T {} st \<Longrightarrow> now \<le> T \<Longrightarrow> uuids env \<Longrightarrow> server_ok T {} (hook_answer env cid v now st)"
  by (simp add: hook_answer_def ok_loop split: option.split)

lemma ok_close: "server_ok T {} st \<Longrightarrow> server_ok T {} (hook_close cid now st)"
  unfolding hook_close_def Let_def
  by (auto simp: ok_resolved [OF _ empty_subsetI] ok_promoted [OF _ empty_subsetI] split: option.split)

lemma ok_fire: "server_ok T {} st \<Longrightarrow> server_ok T {} (fire_timer t now st)"
  unfolding fire_timer_def
  by (auto simp: ok_resolved [OF timer_cleared subset_refl] ok_promoted [OF timer_cleared subset_refl] split: option.split timeout.split)

lemma ok_decide: "server_ok T {} st \<Longrightarrow> server_ok T {} (snd (resolveHookGate sid g a r now st))"
  by (simp add: resolveHookGate_def ok_resolved [OF _ empty_subsetI] split: option.split)

lemma ok_add: "server_ok T X st \<Longrightarrow> gate_ids s = {} \<Longrightarrow> server_ok T X (add_session sid token s st)"
  by (auto simp: add_session_def server_ok_def timed_def attended_def dated_def jm.get_put)

lemma ok_remove: "server_ok T X st \<Longrightarrow> server_ok T X (remove_session sid st)"
  by (auto simp: remove_session_def server_ok_def timed_def attended_def dated_def jm.get_delete split: if_splits)

lemma no_keys: "\<forall>k. jm_get m k = None \<Longrightarrow> m = []"
  by (cases m) (auto simp: jm_get_def split: if_splits)

lemma pairs_cover: "jm_get (gates_of st sid) gid = Some p \<Longrightarrow> (sid, gid) \<in> set (pending_pairs st)"
  by (force simp: pending_pairs_def gates_of_def jm_get_def jm_keys_def dest!: map_of_SomeD split: option.splits)

lemma resolve_all:
  "server_ok T {} st \<Longrightarrow> server_ok T {} (foldl (\<lambda>st (sid, gid). snd (resolvePendingGate sid gid d r now st)) st ps)
    \<and> (\<forall>sid gid p. jm_get (gates_of (foldl (\<lambda>st (sid, gid). snd (resolvePendingGate sid gid d r now st)) st ps) sid) gid = Some p
         \<longrightarrow> jm_get (gates_of st sid) gid = Some p \<and> (sid, gid) \<notin> set ps)"
proof (induction ps arbitrary: st)
  case (Cons q ps)
  obtain sid gid where q: "q = (sid, gid)" by fastforce
  have "jm_get (gates_of st sid') gid' = Some p \<and> (sid', gid') \<noteq> (sid, gid)"
    if "jm_get (gates_of (snd (resolvePendingGate sid gid d r now st)) sid') gid' = Some p" for sid' gid' p
    using that by (auto simp: resolved_gates jm.get_delete jm_has_get split: if_splits)
  then show ?case using Cons.IH [OF ok_resolved [OF Cons.prems empty_subsetI, of sid gid d r now]] by (fastforce simp: q)
qed simp

lemma destroy_all:
  "server_ok T X (foldl (\<lambda>st cid. destroy cid st) st cs) = server_ok T X st
    \<and> hs_gates (foldl (\<lambda>st cid. destroy cid st) st cs) = hs_gates st"
  by (induction cs arbitrary: st) (simp_all, simp add: destroy_def)

lemma shutdown_none:
  assumes ok: "server_ok T {} st"
  shows "server_ok T {} (shutdown now st) \<and> gates_of (shutdown now st) sid = []"
proof -
  define a where "a = foldl (\<lambda>st (sid, gid). snd (resolvePendingGate sid gid AnsNoResponse (Some ''Mullion is shutting down'') now st)) st (pending_pairs st)"
  note all = resolve_all [OF ok, of AnsNoResponse "Some ''Mullion is shutting down''" now "pending_pairs st", folded a_def]
  have "jm_get (gates_of a sid) gid = None" for gid using all pairs_cover by (cases "jm_get (gates_of a sid) gid") blast+
  then have "gates_of a sid = []" by (intro no_keys) simp
  then show ?thesis using all by (simp add: shutdown_def a_def [symmetric] destroy_all gates_of_def)
qed

lemma ok_shutdown: "server_ok T {} st \<Longrightarrow> server_ok T {} (shutdown now st)"
  using shutdown_none by blast

lemma clear_all:
  "jm_get (hs_timers (foldl (\<lambda>st p. clear_timer (f p) st) st xs)) t = (if t \<in> f ` set xs then None else jm_get (hs_timers st) t)
    \<and> hs_gates (foldl (\<lambda>st p. clear_timer (f p) st) st xs) = hs_gates st
    \<and> hs_sessions (foldl (\<lambda>st p. clear_timer (f p) st) st xs) = hs_sessions st
    \<and> hs_promotes (foldl (\<lambda>st p. clear_timer (f p) st) st xs) = hs_promotes st
    \<and> hs_fresh (foldl (\<lambda>st p. clear_timer (f p) st) st xs) = hs_fresh st"
  by (induction xs arbitrary: st) (auto simp: jm.get_delete)

text \<open>The end of the server disarms the timer of everything that still waits.\<close>

lemma closed_disarms: "owner st cb = Some t \<Longrightarrow> jm_get (hs_timers (server_closed st)) t = None"
proof (cases cb)
  case (GateTimeout sid gid)
  have found: "jm_get m k = Some v \<Longrightarrow> (k, v) \<in> set m" for m k v by (simp add: jm_get_def map_of_SomeD)
  assume "owner st cb = Some t"
  then obtain forSession p where "jm_get (hs_gates st) sid = Some forSession" "jm_get forSession gid = Some p" "pg_timer p = t"
    by (auto simp: GateTimeout gates_of_def split: option.splits)
  then have "(sid, forSession) \<in> set (hs_gates st)" "p \<in> set (jm_values forSession)" "pg_timer p = t"
    using found by (force simp: jm_values_def)+
  then have "t \<in> pg_timer ` set (concat (map (\<lambda>(sid, forSession). jm_values forSession) (hs_gates st)))" by force
  then show ?thesis by (simp add: server_closed_def Let_def clear_all)
next
  case (PromoteTimeout sid)
  assume "owner st cb = Some t"
  then obtain p where "jm_get (hs_promotes st) sid = Some p" "pp_timer p = t" by (auto simp: PromoteTimeout)
  then have "t \<in> pp_timer ` set (jm_values (hs_promotes st))"
    by (force simp: jm_values_def jm_get_def dest!: map_of_SomeD)
  then show ?thesis by (simp add: server_closed_def Let_def clear_all)
qed

text \<open>The events that can set a timer, by \<open>T\<close>.\<close>

fun until :: "int \<Rightarrow> hook_op \<Rightarrow> bool" where
  "until T (H_data _ _ now) \<longleftrightarrow> now \<le> T"
| "until T (H_answer _ _ now) \<longleftrightarrow> now \<le> T"
| "until T _ \<longleftrightarrow> True"

lemma ok_step: "server_ok T {} st \<Longrightarrow> uuids env \<Longrightarrow> until T op \<Longrightarrow> server_ok T {} (hook_step env st op)"
  by (cases op) (simp_all add: ok_add ok_remove ok_data ok_answer ok_close ok_fire ok_decide ok_shutdown ok_promoted [OF _ empty_subsetI]
      ok_session_same gate_ids_step started_def gate_ids_new)

interpretation hook_run: step_machine "hook_step env" "\<lambda>op. uuids env \<and> until T op" "server_ok T {}" for env T
  by unfold_locales (simp add: ok_step)

lemma ok_run: "uuids env \<Longrightarrow> list_all (until T) ops \<Longrightarrow> server_ok T {} (foldl (hook_step env) new_server ops)"
  by (rule hook_run.inv_run) (simp_all add: ok_new list_all_iff)

text \<open>
  C3: No gate waits unattended. In every state the server can reach, each review gate a session waits for is held
  by a connection under the very id, and a timer is armed that answers this gate and goes off at the
  latest 290 seconds after the last message received.
\<close>

theorem waiting_gates_are_attended:
  fixes env :: hook_env and ops :: "hook_op list"
  assumes "uuids env" and "list_all (until T) ops"
  defines "st \<equiv> foldl (hook_step env) new_server ops"
  assumes "jm_get (hs_sessions st) sid = Some s" and "gid \<in> set (pendingGateIds s)"
  shows "\<exists>p dueAt. jm_get (gates_of st sid) gid = Some p
    \<and> jm_get (hs_timers st) (pg_timer p) = Some (dueAt, GateTimeout sid gid) \<and> dueAt \<le> T + GATE_TIMEOUT_MS"
proof -
  have ok: "server_ok T {} st" unfolding st_def using assms(1,2) by (rule ok_run)
  then obtain p where p: "jm_get (gates_of st sid) gid = Some p"
    using assms(4,5) unfolding server_ok_def attended_def gate_ids_def jm_has_get by blast
  then have "owner st (GateTimeout sid gid) = Some (pg_timer p)" by simp
  then obtain d where "jm_get (hs_timers st) (pg_timer p) = Some (d, GateTimeout sid gid)"
    using ok timed_armed [of "{}"] by (fastforce simp: server_ok_def)
  with ok p show ?thesis by (auto simp: server_ok_def dated_def)
qed

text \<open>A run to evaluate: a session, a connection that presents its token, and a gate.\<close>

definition sample_env :: hook_env where
  "sample_env = \<lparr>he_parse = (\<lambda>line. if line = lit ''t'' then Some (JObj [(''token'', JStr ''tok'')])
       else if line = lit ''g'' then Some (JObj [(''kind'', JStr ''review_gate''), (''state'', JStr ''waiting''), (''prompt'', JStr ''Merge?''), (''gateId'', JStr ''g1'')])
       else None),
     he_uuid = (\<lambda>n. ''u''), he_bypass = (\<lambda>_. False), he_guide = (\<lambda>_. None), he_workflow = (\<lambda>_. None), he_briefing = (\<lambda>_. None)\<rparr>"

definition sample_run :: "hook_op list" where
  "sample_run = [H_session ''1'' ''tok'' ''/w'' True ''/c'' False 0, H_connect 7, H_data 7 (lit ''t'' @ [10] @ lit ''g'' @ [10]) 50]"

lemma sample_uuids: "uuids sample_env"
  by (simp add: uuids_def sample_env_def)

lemma sample_until: "list_all (until 60) sample_run"
  by (simp add: sample_run_def)

lemma sample_lines:
  "he_parse sample_env [116] = Some (JObj [(''token'', JStr ''tok'')])"
  "parseHookMessage (he_parse sample_env [103]) = Inr (HReviewGate WireWaiting ''Merge?'' (Some ''g1''))"
  by (simp add: sample_env_def lit_def) code_simp

lemma sample_state:
  "\<exists>s c. foldl (hook_step sample_env) new_server sample_run = \<lparr>hs_sessions = [(''1'', s)], hs_tokens = [(''tok'', ''1'')], hs_seeds = [],
      hs_conns = [(7, c)], hs_gates = [(''1'', [(''g1'', \<lparr>pg_socket = 7, pg_timer = 0, pg_prompt = ''Merge?''\<rparr>)])], hs_promotes = [],
      hs_timers = [(0, 290050, GateTimeout ''1'' ''g1'')], hs_fresh = 1\<rparr> \<and> gate_ids s = {''g1''}"
proof -
  define s where "s = started ''/w'' True ''/c'' False 0"
  have s: "gate_ids s = {}" by (simp add: s_def started_def gate_ids_new)
  have bypass: "\<not> he_bypass sample_env sid" for sid by (simp add: sample_env_def)
  have tok: "token_of (Some (JObj [(''token'', JStr ''tok'')])) = Some ''tok''" by code_simp
  show ?thesis
    by (simp add: sample_run_def s_def [symmetric] add_session_def new_server_def new_conn_def jm_defs hook_data_def Let_def lit_def
        MAX_LINE_BYTES_def lines_loop.simps handle_line_def blank_line_def TerminalText.js_trim_def TerminalText.js_space_def conn_session_def
        accept_handshake_def tok update_conn_def conn_waits_def sample_lines gate_message_def bypass deliver_def on_session_def register_gate_def
        set_timer_def gates_of_def GATE_TIMEOUT_MS_def gate_ids_hook_waiting s)
qed

lemma sample_views:
  "(\<exists>s. jm_get (hs_sessions (foldl (hook_step sample_env) new_server sample_run)) ''1'' = Some s \<and> gate_ids s = {''g1''})
    \<and> gates_of (foldl (hook_step sample_env) new_server sample_run) ''1'' \<noteq> []"
proof -
  from sample_state show ?thesis
  proof (elim exE conjE, goal_cases)
    case (1 s c)
    show ?case unfolding 1(1) using 1(2) by (simp add: gates_of_def jm_get_def)
  qed
qed

theorem waiting_gates_are_attended_witness:
  "\<exists>p dueAt. jm_get (gates_of (foldl (hook_step sample_env) new_server sample_run) ''1'') ''g1'' = Some p
    \<and> jm_get (hs_timers (foldl (hook_step sample_env) new_server sample_run)) (pg_timer p) = Some (dueAt, GateTimeout ''1'' ''g1'')
    \<and> dueAt \<le> 60 + GATE_TIMEOUT_MS"
proof -
  obtain s where s: "jm_get (hs_sessions (foldl (hook_step sample_env) new_server sample_run)) ''1'' = Some s" "gate_ids s = {''g1''}"
    using sample_views by blast
  have "''g1'' \<in> set (pendingGateIds s)" using s(2) unfolding gate_ids_def by simp
  then show ?thesis by (rule waiting_gates_are_attended [OF sample_uuids sample_until s(1)])
qed

subsection \<open>A session that shows a promote request has one\<close>

definition promised :: "hook_server \<Rightarrow> bool" where
  "promised st \<longleftrightarrow> (\<forall>sid s. jm_get (hs_sessions st) sid = Some s \<longrightarrow> promoteState s = PPending \<longrightarrow> jm_has (hs_promotes st) sid)"

lemma promised_mono:
  assumes "promised st" and "\<And>sid. jm_has (hs_promotes st) sid \<Longrightarrow> jm_has (hs_promotes st') sid"
    and "\<And>sid s'. jm_get (hs_sessions st') sid = Some s' \<Longrightarrow> promoteState s' = PPending
      \<Longrightarrow> \<exists>s. jm_get (hs_sessions st) sid = Some s \<and> promoteState s = PPending"
  shows "promised st'"
  using assms unfolding promised_def by blast

lemma promised_kept [simp]:
  "promised (update_conn cid f st) = promised st" "promised (reply cid v st) = promised st" "promised (destroy cid st) = promised st"
  "promised (clear_timer t st) = promised st" "promised (st\<lparr>hs_seeds := sd\<rparr>) = promised st" "promised (st\<lparr>hs_conns := cs\<rparr>) = promised st"
  "promised (register_gate cid sid gid prompt now st) = promised st"
  by (simp_all add: promised_def reply_def destroy_def registered_rest)

lemma promised_session:
  "promised st \<Longrightarrow> (\<And>s. promoteState (f s) = PPending \<Longrightarrow> promoteState s = PPending) \<Longrightarrow> promised (on_session sid f st)"
  by (erule promised_mono) (auto simp: jm_get_session split: if_splits)

lemma promised_deliver: "promised st \<Longrightarrow> \<not> asks_promote m \<Longrightarrow> promised (deliver env sid m now st)"
  unfolding deliver_def by (rule promised_session) (simp_all add: promote_hook)

lemma promised_resolved: "promised st \<Longrightarrow> promised (snd (resolvePendingGate sid gid d reason now st))"
  by (erule promised_mono) (auto simp: resolved_rest resolved_sessions resolveGate_def split: if_splits)

lemma promised_promoted: "promised st \<Longrightarrow> promised (snd (resolvePendingPromote sid d now st))"
  unfolding promised_def promoted_rest promoted_sessions
  by (simp add: jm_has_get jm.get_delete) (metis promote_resolved option.distinct(1))

lemma promised_start: "promised st \<Longrightarrow> promised (session_start env cid sid tr st)"
  unfolding session_start_def Let_def
  by (auto intro!: promised_session simp: setCodexTranscriptPath_def Let_def split: option.split)

lemma promised_promote: "promised st \<Longrightarrow> promised (promote_message env cid sid summary base now st)"
  unfolding promised_def promote_message_def deliver_def set_timer_def
  by (auto simp: reply_def jm_get_session jm_has_set split: if_splits)

lemma promised_message: "promised st \<Longrightarrow> promised (handle_message env cid sid m now st)"
proof (cases m)
  case (HReviewGate g prompt gateId)
  then show "promised st \<Longrightarrow> ?thesis"
    by (cases g) (simp_all add: gate_message_def Let_def promised_resolved promised_deliver)
qed (simp_all add: promised_start promised_promote promised_deliver)

lemma promised_line: "promised st \<Longrightarrow> promised (handle_line env cid line now st)"
  by (simp add: handle_line_def accept_handshake_def promised_message split: option.split sum.split)

lemma promised_loop: "promised st \<Longrightarrow> promised (lines_loop env cid now buf st)"
proof (induction env cid now buf st rule: lines_loop.induct)
  case (1 env cid now buf st)
  show ?case
  proof (subst lines_loop.simps, cases "10 \<notin> set buf", goal_cases)
    case 2
    define st1 where "st1 = handle_line env cid (takeWhile (\<lambda>c. c \<noteq> 10) buf) now st"
    have "promised st1" unfolding st1_def using 1 by (intro promised_line)
    then show ?case using 1 2 by (simp add: Let_def st1_def [symmetric])
  qed (use 1 in simp)
qed

lemma promised_all:
  "promised st \<Longrightarrow> promised (foldl (\<lambda>st (sid, gid). snd (resolvePendingGate sid gid d r now st)) st ps)"
  "promised st \<Longrightarrow> promised (foldl (\<lambda>st cid. destroy cid st) st cs)"
proof -
  show "promised st \<Longrightarrow> promised (foldl (\<lambda>st (sid, gid). snd (resolvePendingGate sid gid d r now st)) st ps)"
    by (induction ps arbitrary: st) (auto simp: promised_resolved)
  show "promised st \<Longrightarrow> promised (foldl (\<lambda>st cid. destroy cid st) st cs)"
    by (induction cs arbitrary: st) simp_all
qed

lemma promised_step: "promised st \<Longrightarrow> promised (hook_step env st op)"
proof (cases op)
  case (H_session sid token cwd hooks codexHome ex now)
  assume p: "promised st"
  have "promoteState (started cwd hooks codexHome ex now) \<noteq> PPending" using promote_new [of cwd hooks codexHome None ex now] by (auto simp: started_def)
  with p show ?thesis by (auto simp: H_session add_session_def promised_def jm.get_put)
next
  case (H_remove sid)
  then show "promised st \<Longrightarrow> ?thesis" by (auto simp: remove_session_def promised_def jm.get_delete split: if_splits)
next
  case (H_session_op sid op)
  then show "promised st \<Longrightarrow> ?thesis" by (auto intro!: promised_session dest: promote_step)
qed (auto simp: hook_data_def hook_answer_def hook_close_def fire_timer_def resolveHookGate_def shutdown_def Let_def promised_loop
    promised_resolved promised_promoted promised_all split: option.split timeout.split)

lemma promised_run: "promised (foldl (hook_step env) new_server ops)"
  by (induction ops rule: rev_induct) (simp_all add: promised_step, simp add: promised_def new_server_def)

subsection \<open>The timers answer what waits\<close>

text \<open>All armed timers going off.\<close>

definition fire_all :: "hook_env \<Rightarrow> int \<Rightarrow> hook_server \<Rightarrow> hook_server" where
  "fire_all env now st = foldl (\<lambda>st t. hook_step env st (H_timer t now)) st (jm_keys (hs_timers st))"

lemma fired_timers: "set (jm_keys (hs_timers (fire_timer t now st))) \<subseteq> set (jm_keys (hs_timers st)) - {t}"
  by (auto simp: fire_timer_def resolved_timers promoted_rest jm.keys_delete jm.get_in_keys [symmetric]
      split: option.splits timeout.splits)

lemma fire_list: "set (jm_keys (hs_timers (foldl (\<lambda>st t. fire_timer t now st) st ts))) \<subseteq> set (jm_keys (hs_timers st)) - set ts"
proof (induction ts arbitrary: st)
  case (Cons t ts)
  show ?case using Cons.IH [of "fire_timer t now st"] fired_timers [of t now st] by auto
qed simp

text \<open>\<open>grown\<close>: connections only got further replies; \<open>answered\<close>: \<open>v\<close> is among those of a writable connection.\<close>

definition grown :: "hook_server \<Rightarrow> hook_server \<Rightarrow> bool" where
  "grown st st' \<longleftrightarrow> (\<forall>cid c. jm_get (hs_conns st) cid = Some c
     \<longrightarrow> (\<exists>new. jm_get (hs_conns st') cid = Some (c\<lparr>hc_replies := hc_replies c @ new\<rparr>)))"

definition answered :: "hook_server \<Rightarrow> hook_server \<Rightarrow> nat \<Rightarrow> json \<Rightarrow> bool" where
  "answered st st' cid v \<longleftrightarrow> (\<forall>c. jm_get (hs_conns st) cid = Some c \<and> hc_writable c
     \<longrightarrow> (\<exists>new. jm_get (hs_conns st') cid = Some (c\<lparr>hc_replies := hc_replies c @ new\<rparr>) \<and> v \<in> set new))"

lemma replies_join: "c\<lparr>hc_replies := hc_replies c @ xs\<rparr>\<lparr>hc_replies := hc_replies (c\<lparr>hc_replies := hc_replies c @ xs\<rparr>) @ ys\<rparr>
    = c\<lparr>hc_replies := hc_replies c @ (xs @ ys)\<rparr>"
  by simp

lemma grownD: "grown a b \<Longrightarrow> jm_get (hs_conns a) cid = Some k \<Longrightarrow> \<exists>new. jm_get (hs_conns b) cid = Some (k\<lparr>hc_replies := hc_replies k @ new\<rparr>)"
  by (simp add: grown_def)

lemma grown_trans: "grown a b \<Longrightarrow> grown b c \<Longrightarrow> grown a c"
  unfolding grown_def [of a c] by (metis grownD replies_join)

lemma answered_grown:
  assumes "answered a b cid v" and "grown b c"
  shows "answered a c cid v"
  unfolding answered_def
proof (intro allI impI)
  fix k assume k: "jm_get (hs_conns a) cid = Some k \<and> hc_writable k"
  with assms(1) obtain xs where "jm_get (hs_conns b) cid = Some (k\<lparr>hc_replies := hc_replies k @ xs\<rparr>)" "v \<in> set xs"
    by (auto simp: answered_def)
  with grownD [OF assms(2)] obtain ys where "jm_get (hs_conns c) cid = Some (k\<lparr>hc_replies := hc_replies k @ (xs @ ys)\<rparr>)"
    by (metis replies_join)
  moreover have "v \<in> set (xs @ ys)" using \<open>v \<in> set xs\<close> by simp
  ultimately show "\<exists>new. jm_get (hs_conns c) cid = Some (k\<lparr>hc_replies := hc_replies k @ new\<rparr>) \<and> v \<in> set new" by blast
qed

lemma grown_answered:
  assumes "grown a b" and "answered b c cid v"
  shows "answered a c cid v"
  unfolding answered_def
proof (intro allI impI)
  fix k assume k: "jm_get (hs_conns a) cid = Some k \<and> hc_writable k"
  with grownD [OF assms(1)] obtain xs where b: "jm_get (hs_conns b) cid = Some (k\<lparr>hc_replies := hc_replies k @ xs\<rparr>)" by blast
  with k assms(2) obtain ys where "jm_get (hs_conns c) cid = Some (k\<lparr>hc_replies := hc_replies k @ (xs @ ys)\<rparr>)" "v \<in> set ys"
    by (fastforce simp: answered_def)
  moreover from this have "v \<in> set (xs @ ys)" by simp
  ultimately show "\<exists>new. jm_get (hs_conns c) cid = Some (k\<lparr>hc_replies := hc_replies k @ new\<rparr>) \<and> v \<in> set new" by blast
qed

lemma grown_same: "hs_conns st' = hs_conns st \<Longrightarrow> grown st st'"
  by (force simp: grown_def intro: exI [of _ "[]"])

lemma reply_effect:
  assumes "hs_conns st = hs_conns st0"
  shows "grown st0 (reply cid v st)" and "answered st0 (reply cid v st) cid v"
  using assms by (force simp: grown_def answered_def reply_def update_conn_def jm.get_put split: option.split intro: exI [of _ "[]"])+

lemma resolve_answers:
  "grown st (snd (resolvePendingGate sid gid d r now st))"
  "jm_get (gates_of st sid) gid = Some p \<Longrightarrow> answered st (snd (resolvePendingGate sid gid d r now st)) (pg_socket p) (gate_json d r)"
  "grown st (snd (resolvePendingPromote sid pd now st))"
  "jm_get (hs_promotes st) sid = Some q \<Longrightarrow> answered st (snd (resolvePendingPromote sid pd now st)) (pp_socket q) (promote_json pd)"
proof -
  have s: "grown st (on_session x f st') = grown st st'" "answered st (on_session x f st') c v = answered st st' c v" for x f st' c v
    by (simp_all add: grown_def answered_def)
  show "grown st (snd (resolvePendingGate sid gid d r now st))" "grown st (snd (resolvePendingPromote sid pd now st))"
    by (auto simp: resolvePendingGate_def resolvePendingPromote_def Let_def s intro!: reply_effect(1) intro: grown_same split: option.split)
  show "jm_get (gates_of st sid) gid = Some p \<Longrightarrow> answered st (snd (resolvePendingGate sid gid d r now st)) (pg_socket p) (gate_json d r)"
    by (auto simp: resolvePendingGate_def Let_def s intro!: reply_effect)
  show "jm_get (hs_promotes st) sid = Some q \<Longrightarrow> answered st (snd (resolvePendingPromote sid pd now st)) (pp_socket q) (promote_json pd)"
    by (auto simp: resolvePendingPromote_def Let_def s intro!: reply_effect)
qed

definition timed_out :: string where "timed_out = ''timed out waiting for a decision''"

text \<open>A timer that goes off leaves a request as it is, or answers it as timed out.\<close>

lemma fire_one:
  "grown st (fire_timer t now st)"
  "jm_get (gates_of st sid) gid = Some p \<Longrightarrow> jm_get (gates_of (fire_timer t now st) sid) gid = Some p
    \<or> answered st (fire_timer t now st) (pg_socket p) (gate_json AnsNoResponse (Some timed_out))"
  "jm_get (hs_promotes st) sid = Some q \<Longrightarrow> jm_get (hs_promotes (fire_timer t now st)) sid = Some q
    \<or> answered st (fire_timer t now st) (pp_socket q) (promote_json (AnsDeclined (Some timed_out)))"
proof -
  have s: "grown st st' = grown (clear_timer t st) st'" "answered st st' c v = answered (clear_timer t st) st' c v" for st' c v
    by (simp_all add: grown_def answered_def)
  show "grown st (fire_timer t now st)"
    by (auto simp: fire_timer_def s intro!: resolve_answers grown_same split: option.split timeout.split)
  show "jm_get (gates_of st sid) gid = Some p \<Longrightarrow> jm_get (gates_of (fire_timer t now st) sid) gid = Some p
    \<or> answered st (fire_timer t now st) (pg_socket p) (gate_json AnsNoResponse (Some timed_out))"
    using resolve_answers(2) [of "clear_timer t st" sid gid p AnsNoResponse "Some timed_out" now]
    by (auto simp: fire_timer_def s timed_out_def resolved_gates promoted_rest jm.get_delete split: option.split timeout.split)
  show "jm_get (hs_promotes st) sid = Some q \<Longrightarrow> jm_get (hs_promotes (fire_timer t now st)) sid = Some q
    \<or> answered st (fire_timer t now st) (pp_socket q) (promote_json (AnsDeclined (Some timed_out)))"
    using resolve_answers(4) [of "clear_timer t st" sid q "AnsDeclined (Some timed_out)" now]
    by (auto simp: fire_timer_def s timed_out_def resolved_rest promoted_rest jm.get_delete split: option.split timeout.split)
qed

lemma fire_many:
  "grown st (foldl (\<lambda>st t. fire_timer t now st) st ts)
    \<and> (jm_get (gates_of st sid) gid = Some p \<longrightarrow> jm_get (gates_of (foldl (\<lambda>st t. fire_timer t now st) st ts) sid) gid = Some p
        \<or> answered st (foldl (\<lambda>st t. fire_timer t now st) st ts) (pg_socket p) (gate_json AnsNoResponse (Some timed_out)))
    \<and> (jm_get (hs_promotes st) sid' = Some q \<longrightarrow> jm_get (hs_promotes (foldl (\<lambda>st t. fire_timer t now st) st ts)) sid' = Some q
        \<or> answered st (foldl (\<lambda>st t. fire_timer t now st) st ts) (pp_socket q) (promote_json (AnsDeclined (Some timed_out))))"
proof (induction ts arbitrary: st)
  case (Cons t ts)
  let ?u = "fire_timer t now st"
  let ?z = "foldl (\<lambda>st t. fire_timer t now st) ?u ts"
  have z: "foldl (\<lambda>st t. fire_timer t now st) st (t # ts) = ?z" by simp
  note one = fire_one [where st = st and t = t and now = now] and ih = Cons.IH [of ?u]
  then have keep: "answered st ?u c v \<Longrightarrow> answered st ?z c v" "answered ?u ?z c v \<Longrightarrow> answered st ?z c v" for c v
    using answered_grown grown_answered by blast+
  have "grown st ?z" using one(1) ih grown_trans by blast
  moreover have "jm_get (gates_of ?z sid) gid = Some p \<or> answered st ?z (pg_socket p) (gate_json AnsNoResponse (Some timed_out))"
    if "jm_get (gates_of st sid) gid = Some p"
    using one(2) [OF that] ih keep by blast
  moreover have "jm_get (hs_promotes ?z) sid' = Some q \<or> answered st ?z (pp_socket q) (promote_json (AnsDeclined (Some timed_out)))"
    if "jm_get (hs_promotes st) sid' = Some q"
    using one(3) [OF that] ih keep by blast
  ultimately show ?case unfolding z by blast
qed (simp add: grown_same)

text \<open>
  C4: Every request is answered. From any state the server can reach, once the armed timers have gone off no gate
  and no promote request is pending at the server, and no session waits for a gate or shows a pending promote
  request. Each gate and each promote request that was pending has had its reply on the connection that asked, if
  that connection was still writable: \<open>no_response\<close> for a gate, \<open>declined\<close> for a promote request, with
  the reason that the wait timed out.
\<close>

theorem timers_answer_everything:
  fixes env :: hook_env and ops :: "hook_op list" and now T :: int
  assumes "uuids env" and "list_all (until T) ops"
  defines "st0 \<equiv> foldl (hook_step env) new_server ops"
  defines "st \<equiv> fire_all env now st0"
  shows "hs_timers st = [] \<and> (\<forall>sid. gates_of st sid = []) \<and> hs_promotes st = []
    \<and> (\<forall>sid. case jm_get (hs_sessions st) sid of None \<Rightarrow> True | Some s \<Rightarrow> pendingGateIds s = [] \<and> promoteState s \<noteq> PPending)
    \<and> (\<forall>sid gid. case jm_get (gates_of st0 sid) gid of None \<Rightarrow> True
        | Some p \<Rightarrow> answered st0 st (pg_socket p) (gate_json AnsNoResponse (Some timed_out)))
    \<and> (\<forall>sid. case jm_get (hs_promotes st0) sid of None \<Rightarrow> True
        | Some q \<Rightarrow> answered st0 st (pp_socket q) (promote_json (AnsDeclined (Some timed_out))))"
proof -
  have "list_all (\<lambda>op. uuids env \<and> until T op) (map (\<lambda>t. H_timer t now) ts)" for ts using assms(1) by (simp add: list_all_iff)
  from hook_run.inv_run [OF ok_run [OF assms(1,2)] this]
  have ok: "server_ok T {} st" by (simp add: st_def st0_def fire_all_def foldl_map)
  have f: "st = foldl (\<lambda>st t. fire_timer t now st) st0 (jm_keys (hs_timers st0))" by (simp add: st_def fire_all_def)
  then have t: "hs_timers st = []" using fire_list [of now st0 "jm_keys (hs_timers st0)"] by (simp add: jm_keys_def)
  then have none: "owner st cb = None" for cb
    using ok timed_armed [of "{}" st cb] by (cases "owner st cb") (auto simp: server_ok_def jm_get_def)
  have g: "gates_of st sid = []" for sid
  proof (rule no_keys, rule allI)
    show "jm_get (gates_of st sid) gid = None" for gid using none [of "GateTimeout sid gid"] by simp
  qed
  have p: "hs_promotes st = []"
  proof (rule no_keys, rule allI)
    show "jm_get (hs_promotes st) sid = None" for sid using none [of "PromoteTimeout sid"] by simp
  qed
  have "promised st" using promised_run [of env "ops @ map (\<lambda>t. H_timer t now) (jm_keys (hs_timers st0))"]
    by (simp add: st_def st0_def fire_all_def foldl_map)
  then have "pendingGateIds s = [] \<and> promoteState s \<noteq> PPending" if "jm_get (hs_sessions st) sid = Some s" for sid s
    using ok g p that by (fastforce simp: server_ok_def attended_def gate_ids_def jm_has_def promised_def jm_keys_def)
  moreover have "answered st0 st (pg_socket q) (gate_json AnsNoResponse (Some timed_out))"
    if "jm_get (gates_of st0 sid) gid = Some q" for sid gid q
    using fire_many [where st = st0 and now = now and ts = "jm_keys (hs_timers st0)" and sid = sid and gid = gid and p = q] that f g by (simp add: jm_get_def)
  moreover have "answered st0 st (pp_socket q) (promote_json (AnsDeclined (Some timed_out)))"
    if "jm_get (hs_promotes st0) sid = Some q" for sid q
    using fire_many [where st = st0 and now = now and ts = "jm_keys (hs_timers st0)" and sid' = sid and q = q] that f p by (simp add: jm_get_def)
  ultimately show ?thesis using t g p by (simp split: option.split)
qed

theorem timers_answer_everything_witness:
  "gates_of (foldl (hook_step sample_env) new_server sample_run) ''1'' \<noteq> []
    \<and> (\<forall>sid. gates_of (fire_all sample_env 900000 (foldl (hook_step sample_env) new_server sample_run)) sid = [])"
proof -
  have "gates_of (foldl (hook_step sample_env) new_server sample_run) ''1'' \<noteq> []" using sample_views by blast
  moreover note timers_answer_everything [OF sample_uuids sample_until, of 900000, THEN conjunct2, THEN conjunct1]
  ultimately show ?thesis by (rule conjI)
qed

subsection \<open>A connection speaks for its token\<close>

text \<open>All the server holds about a session.\<close>

definition about :: "string \<Rightarrow> hook_server \<Rightarrow> live_session option \<times> (string, pending_gate) jsmap \<times> pending_promote option \<times> string option" where
  "about sid st = (jm_get (hs_sessions st) sid, gates_of st sid, jm_get (hs_promotes st) sid, jm_get (hs_seeds st) sid)"

lemma seeds_kept [simp]:
  "hs_seeds (update_conn cid f st) = hs_seeds st" "hs_seeds (on_session sid g st) = hs_seeds st" "hs_seeds (clear_timer t st) = hs_seeds st"
  by (simp_all add: update_conn_def on_session_def clear_timer_def split: option.split)

lemma about_kept [simp]:
  "about sid (update_conn cid f st) = about sid st" "about sid (reply cid v st) = about sid st" "about sid (destroy cid st) = about sid st"
  "about sid (clear_timer t st) = about sid st"
  by (simp_all add: about_def reply_def destroy_def)

lemma about_other:
  assumes "sid' \<noteq> sid"
  shows "about sid (on_session sid' f st) = about sid st"
    and "about sid (deliver env sid' m now st) = about sid st"
    and "about sid (snd (resolvePendingGate sid' gid d reason now st)) = about sid st"
    and "about sid (snd (resolvePendingPromote sid' pd now st)) = about sid st"
    and "about sid (register_gate cid sid' gid prompt now st) = about sid st"
proof -
  show s: "about sid (on_session sid' f st) = about sid st" for f st using assms by (simp add: about_def jm_get_session)
  then show "about sid (deliver env sid' m now st) = about sid st" by (simp add: deliver_def)
  have "hs_seeds (snd (resolvePendingGate sid' gid d reason now st)) = hs_seeds st"
    by (simp add: resolvePendingGate_def Let_def reply_def split: option.split)
  then show "about sid (snd (resolvePendingGate sid' gid d reason now st)) = about sid st"
    using assms by (simp add: about_def resolved_sessions resolved_gates resolved_rest)
  have "hs_seeds (snd (resolvePendingPromote sid' pd now st)) = hs_seeds st"
    by (simp add: resolvePendingPromote_def Let_def reply_def split: option.split)
  then show "about sid (snd (resolvePendingPromote sid' pd now st)) = about sid st"
    using assms by (simp add: about_def promoted_sessions promoted_rest jm.get_delete)
  have "hs_seeds (register_gate cid sid' gid prompt now st) = hs_seeds st" by (simp add: register_gate_def set_timer_def)
  then show "about sid (register_gate cid sid' gid prompt now st) = about sid st"
    using assms by (simp add: about_def registered_gates registered_rest)
qed

lemma about_message: "sid' \<noteq> sid \<Longrightarrow> about sid (handle_message env cid sid' m now st) = about sid st"
proof -
  assume o: "sid' \<noteq> sid"
  have start: "about sid (session_start env cid sid' tr st) = about sid st" for tr
  proof -
    have "about sid (r\<lparr>hs_seeds := jm_delete sid' (hs_seeds r)\<rparr>) = about sid r" for r
      using o by (simp add: about_def jm.get_delete)
    then show ?thesis using o by (simp add: session_start_def Let_def about_other split: option.split)
  qed
  have promote: "about sid (promote_message env cid sid' sm b now st) = about sid st" for sm b
  proof -
    have "about sid (st\<lparr>hs_timers := x, hs_fresh := y, hs_promotes := jm_set sid' z (hs_promotes st)\<rparr>) = about sid st" for x y z
      using o by (simp add: about_def jm.get_put gates_of_def)
    then show ?thesis using o by (simp add: promote_message_def set_timer_def about_other)
  qed
  have gate: "about sid (gate_message env cid sid' p g now st) = about sid st" for p g
    using o by (simp add: gate_message_def Let_def about_other)
  show ?thesis
  proof (cases m)
    case (HReviewGate g p i)
    with gate o show ?thesis by (cases g) (simp_all add: about_other)
  qed (use start promote o in \<open>simp_all add: about_other\<close>)
qed

lemma about_line: "conn_session cid st \<noteq> Some sid \<Longrightarrow> about sid (handle_line env cid line now st) = about sid st"
  by (auto simp: handle_line_def accept_handshake_def about_message split: option.split sum.split)

text \<open>A connection's session, once known, stays; and it is the one of a token in the input.\<close>

lemma conn_session_eq: "hs_conns st' = hs_conns st \<Longrightarrow> conn_session cid st' = conn_session cid st"
  by (simp add: conn_session_def)

lemma conn_session_kept:
  "(\<And>c. hc_session (f c) = hc_session c) \<Longrightarrow> conn_session cid (update_conn cid' f st) = conn_session cid st"
  by (auto simp: conn_session_def update_conn_def jm.get_put split: option.split)

lemma conn_session_simps [simp]:
  "conn_session cid (reply cid' v st) = conn_session cid st" "conn_session cid (destroy cid' st) = conn_session cid st"
  "conn_session cid (on_session sid g st) = conn_session cid st" "conn_session cid (clear_timer t st) = conn_session cid st"
  "conn_session cid (update_conn cid' (\<lambda>c. c\<lparr>hc_waits := w\<rparr>) st) = conn_session cid st"
  "conn_session cid (update_conn cid' (\<lambda>c. c\<lparr>hc_buffer := b\<rparr>) st) = conn_session cid st"
  "conn_session cid (update_conn cid' (\<lambda>c. c\<lparr>hc_gate := g'\<rparr>) st) = conn_session cid st"
  by (simp_all add: reply_def destroy_def conn_session_kept) (rule conn_session_eq, simp)+

lemma conn_session_resolved [simp]: "conn_session cid (snd (resolvePendingGate sid gid d reason now st)) = conn_session cid st"
  by (simp add: resolvePendingGate_def Let_def split: option.split) (simp add: conn_session_def)

lemma conn_session_message [simp]: "conn_session cid (handle_message env cid' sid m now st) = conn_session cid st"
proof -
  have reg: "conn_session cid (register_gate cid' sid g p now st) = conn_session cid st" for g p
    by (simp add: register_gate_def set_timer_def) (simp add: conn_session_def)
  have start: "conn_session cid (session_start env cid' sid tr st) = conn_session cid st" for tr
  proof -
    have "conn_session cid (r\<lparr>hs_seeds := x\<rparr>) = conn_session cid r" for r x by (simp add: conn_session_def)
    then show ?thesis by (simp add: session_start_def Let_def split: option.split)
  qed
  have promote: "conn_session cid (promote_message env cid' sid sm b now st) = conn_session cid st" for sm b
    by (simp add: promote_message_def set_timer_def deliver_def) (simp add: conn_session_def)
  show ?thesis
  proof (cases m)
    case (HReviewGate g p i)
    with reg show ?thesis by (cases g) (simp_all add: gate_message_def Let_def deliver_def)
  qed (simp_all add: start promote deliver_def)
qed

lemma conn_session_line: "conn_session cid st = Some sid \<Longrightarrow> conn_session cid (handle_line env cid line now st) = Some sid"
  by (simp add: handle_line_def split: sum.split)

lemma conn_session_loop: "conn_session cid st = Some sid \<Longrightarrow> conn_session cid (lines_loop env cid now buf st) = Some sid"
proof (induction env cid now buf st rule: lines_loop.induct)
  case (1 env cid now buf st)
  show ?case using 1 by (subst lines_loop.simps) (simp add: Let_def conn_session_line)
qed

lemma about_loop: "conn_session cid (lines_loop env cid now buf st) = Some sid \<or> about sid (lines_loop env cid now buf st) = about sid st"
proof (induction env cid now buf st rule: lines_loop.induct)
  case (1 env cid now buf st)
  define st1 where "st1 = handle_line env cid (takeWhile (\<lambda>c. c \<noteq> 10) buf) now st"
  show ?case
  proof (cases "conn_session cid st = Some sid")
    case True
    then show ?thesis by (intro disjI1 conn_session_loop)
  next
    case False
    then have "about sid st1 = about sid st" by (simp add: st1_def about_line)
    with 1 show ?thesis by (subst (1 2) lines_loop.simps) (auto simp: Let_def st1_def [symmetric])
  qed
qed

text \<open>
  A close asks only for the id of the gate, not for its socket: with an id two connections have used, the one that closes
  answers the gate of the other.
\<close>

lemma close_answers_anothers_gate:
  assumes "jm_get (hs_conns st) 1 = Some c" and "\<not> hc_closed c" and "hc_session c = Some sid" and "hc_gate c = Some gid"
    and "jm_get (gates_of st sid) gid = Some p" and "pg_socket p = 2"
  shows "jm_get (gates_of (hook_close 1 now st) sid) gid = None"
  using assms by (simp add: hook_close_def Let_def resolved_gates promoted_rest jm_has_get jm.get_delete split: option.split)

text \<open>The session of a connection comes from a token in a line of its input.\<close>

definition token_in :: "hook_env \<Rightarrow> jsstring \<Rightarrow> string option \<Rightarrow> hook_server \<Rightarrow> bool" where
  "token_in env input sid st \<longleftrightarrow>
     (\<exists>line t. sublist line input \<and> token_of (he_parse env line) = Some t \<and> sid \<noteq> None \<and> jm_get (hs_tokens st) t = sid)"

lemma tokens_line: "hs_tokens (handle_line env cid line now st) = hs_tokens st"
proof -
  have "hs_tokens (handle_message env cid sid m now st) = hs_tokens st" for sid m
  proof (cases m)
    case (HReviewGate g p i)
    then show ?thesis by (cases g) (simp_all add: gate_message_def Let_def deliver_def registered_rest resolved_rest)
  qed (simp_all add: session_start_def promote_message_def set_timer_def Let_def reply_def deliver_def split: option.split)
  then show ?thesis by (simp add: handle_line_def accept_handshake_def reply_def destroy_def split: option.split sum.split)
qed

lemma token_line: "conn_session cid (handle_line env cid line now st) = conn_session cid st
    \<or> token_in env line (conn_session cid (handle_line env cid line now st)) st"
proof (cases "blank_line line \<or> conn_session cid st \<noteq> None")
  case True
  then show ?thesis by (auto simp: handle_line_def split: option.split sum.split)
next
  case False
  have "conn_session cid (update_conn cid (\<lambda>c. c\<lparr>hc_session := Some sid\<rparr>) st) = conn_session cid st
      \<or> conn_session cid (update_conn cid (\<lambda>c. c\<lparr>hc_session := Some sid\<rparr>) st) = Some sid" for sid
    by (simp add: conn_session_def update_conn_def jm.get_put split: option.split)
  with False show ?thesis
    by (fastforce simp: handle_line_def accept_handshake_def token_in_def split: option.split)
qed

lemma token_in_mono: "token_in env input sid st \<Longrightarrow> sublist input input' \<Longrightarrow> hs_tokens st' = hs_tokens st \<Longrightarrow> token_in env input' sid st'"
  using sublist_order.order.trans by (fastforce simp: token_in_def)

lemma rest_sublist: "sublist (takeWhile P buf) buf" "sublist (tl (dropWhile P buf)) buf"
proof -
  show "sublist (takeWhile P buf) buf" by (simp add: takeWhile_is_prefix prefix_imp_sublist)
  show "sublist (tl (dropWhile P buf)) buf"
    using suffix_imp_sublist [OF suffix_dropWhile] sublist_tl sublist_order.order.trans by blast
qed

lemma token_loop: "conn_session cid (lines_loop env cid now buf st) = conn_session cid st
    \<or> token_in env buf (conn_session cid (lines_loop env cid now buf st)) st"
proof (induction env cid now buf st rule: lines_loop.induct)
  case (1 env cid now buf st)
  define line where "line = takeWhile (\<lambda>c. c \<noteq> 10) buf"
  define rest where "rest = tl (dropWhile (\<lambda>c. c \<noteq> 10) buf)"
  define st1 where "st1 = handle_line env cid line now st"
  have one: "conn_session cid st1 = conn_session cid st \<or> token_in env buf (conn_session cid st1) st"
    using token_line [of cid env line now st] token_in_mono rest_sublist(1) unfolding st1_def line_def by blast
  show ?case
  proof (cases "10 \<notin> set buf \<or> conn_waits cid st1 \<or> (\<not> blank_line line \<and> conn_session cid st1 = None)")
    case True
    with one show ?thesis by (subst (1 2) lines_loop.simps) (auto simp: Let_def line_def [symmetric] rest_def [symmetric] st1_def [symmetric])
  next
    case False
    have loop: "lines_loop env cid now buf st = lines_loop env cid now rest st1"
      using False by (subst lines_loop.simps) (auto simp: Let_def line_def [symmetric] rest_def [symmetric] st1_def [symmetric])
    have "conn_session cid (lines_loop env cid now rest st1) = conn_session cid st1
        \<or> token_in env rest (conn_session cid (lines_loop env cid now rest st1)) st1"
      using 1 False by (simp add: line_def rest_def st1_def)
    then show ?thesis using one token_in_mono [of env rest _ st1 buf st] rest_sublist(2) tokens_line
      unfolding loop by (metis rest_def st1_def)
  qed
qed

text \<open>
  C5: A connection speaks only for the session of its token. Whatever a chunk holds, whatever messages it completes,
  the state of every other session, its gates, its promote request and its seed stay as they were; and the
  session a connection acts on is the one it had before or one whose token stands in a line it has sent.
\<close>

theorem connection_speaks_for_its_token:
  fixes env :: hook_env and st :: hook_server and cid :: nat and chunk :: jsstring and now :: int
  defines "st' \<equiv> hook_step env st (H_data cid chunk now)"
  shows "(conn_session cid st' = Some sid \<or> about sid st' = about sid st)
    \<and> (conn_session cid st' = conn_session cid st
       \<or> (\<exists>c. jm_get (hs_conns st) cid = Some c \<and> token_in env (hc_buffer c @ chunk) (conn_session cid st') st))"
  using about_loop token_loop
  by (auto simp: st'_def hook_data_def Let_def split: option.split)

end
