(* ===== verification/Spec2Isabelle.thy ===== *)
theory Spec2Isabelle
  imports Prelude Attention Scrollback SshAgentFilter MuxPromises ChannelPipes Limiters GateRegistry MessageQueue
    MessageFrame TerminalText SessionStatus SessionLive HostAgents Hosts TaskDeps TaskDispatch Placement Guards
    TerminalModes PullRequests ReviewRelay EventStore ReviewLoop SessionTurns HookPromises
begin

section \<open>The Mullion session manager\<close>

text \<open>
  Mullion runs coding agents in long-lived terminal sessions on one primary and any number of remote hosts, shows them
  in a browser and lets a task board start them. A session is a process in a detached scope; the server keeps its
  scrollback, decides when it needs its user, derives its status, carries the SSH agent and HTTP traffic of remote
  hosts over one multiplexed WebSocket, tracks the health, capacity and protocol of every host, and places and
  dispatches new work. This library models the services under \<open>src/services\<close> that hold that logic. Paths below are
  relative to the repository's \<open>src\<close> directory.

  \<^bold>\<open>How code is modelled.\<close> Objects and closures are records, their methods functions on them in the order the source
  performs its effects. Whatever the code does towards the outside (frames, events, log lines, promises) is an output
  list. An \<open>async\<close> function is cut at its awaits: each synchronous stretch is one step of a machine, so that a theorem
  over all step sequences covers every interleaving. Clock readings are \<open>int\<close> arguments, one per reading. A \<open>Map\<close> is an
  association list in insertion order, a \<open>Buffer\<close> a list of \<open>8 word\<close>, a string either \<open>string\<close> (identifiers) or the list
  of its UTF-16 code units (texts that are cut, escaped or compared). A raise is a value: \<open>None\<close>, \<open>Inl\<close> or a constructor
  named after it. Loops are structural recursions or have a \<open>termination\<close> proof; no definition uses fuel. Database rows
  are records in lists, JSON columns are parsed values or \<open>Garbage\<close>. Code that is not in the repository, and I/O, are
  arguments: the WebSocket's state and buffer, the answers of a host's HTTP client, of GitHub and of git, the rounding
  and printing of doubles.

  \<^bold>\<open>Theories.\<close>
  \<^item> \<open>Prelude\<close>: the insertion-ordered map with its contract (locale \<open>insertion_ordered_map\<close>), big-endian integers, JSON,
    step machines with invariants (locale \<open>step_machine\<close>).
  \<^item> \<open>Attention\<close> (\<open>attention-detect.ts\<close>, \<open>attention-tracker.ts\<close>): the reducer that decides when a session needs its user,
    and the tracker with its settle windows. Events alternate and end in the machine's state; a client that only follows
    events agrees with the server; a confirmed decision survives any output; a signal resolved in its window leaves no trace.
  \<^item> \<open>Scrollback\<close> (\<open>scrollback-buffer.ts\<close>): the replay is a suffix of everything written, within its cap (or one slab) and
    no shorter than needed; \<open>tail\<close> reads its newest bytes.
  \<^item> \<open>SshAgentFilter\<close> (\<open>ssh-agent-filter.ts\<close>): the stream is cut into frames; the list and sign requests pass whole and in
    order, every other frame is answered by one failure, whatever the chunking; bytes are conserved and the retained bytes bounded.
  \<^item> \<open>MuxFrame\<close>, \<open>MuxChannel\<close>, \<open>MuxConnection\<close> (\<open>ssh-agent-mux.ts\<close>): wire format, a channel with its credit windows, and
    the connection. \<open>MuxSafety\<close> proves the invariant of the connection for every input, \<open>MuxPromises\<close> that every open
    is settled once or waits, unless the id allocator threw for it (which takes most of the 32-bit ids), and that no queued open
    waits while there is room.
  \<^item> \<open>ChannelPipes\<close> (\<open>ssh-agent-mux.ts\<close>, \<open>ssh-agent-relay.ts\<close>): the relays, written against the channel interface (locales
    \<open>mux_endpoint\<close>, \<open>relay_ends\<close>) and interpreted on two connections: nothing is lost, duplicated or reordered, what
    reaches the agent through the filtered relay are the safe requests of the stream, whole and in order, and no handler throws.
  \<^item> \<open>Limiters\<close> (\<open>nonce-store.ts\<close>, \<open>failure-rate-limiter.ts\<close>, \<open>task-retry-backoff.ts\<close>): bounded stores that reject replays,
    count failures in a window and space out retries.
  \<^item> \<open>GateRegistry\<close> (\<open>gate-registry.ts\<close>): the summary of a session's review gates shows the oldest waiting gate, or the
    last outcome when none waits, as long as it is reset only while none waits.
  \<^item> \<open>MessageQueue\<close>, \<open>MessageFrame\<close> (\<open>session-message-queue.ts\<close>): messages between sessions are bounded per target, settle
    once, and are typed as a frame that a body cannot forge.
  \<^item> \<open>TerminalText\<close> (\<open>terminal-text.ts\<close>, \<open>hook-adapters/shared.ts\<close>): escape sequences removed, one readable line, safe prompts.
  \<^item> \<open>SessionStatus\<close> (\<open>session-status.ts\<close>): the derived status is the first in the declared order whose condition holds.
  \<^item> \<open>SessionLive\<close> (\<open>session-live-info.ts\<close>): a session's host, alone and in chunked batches; reading a host's answer; repair
    of an exited row.
  \<^item> \<open>HostAgents\<close> (\<open>shared/agent-protocol.ts\<close>, \<open>host-agents.ts\<close>): what a host's agent can do, its refresh cut at four awaits;
    an answer to a refresh begun before an invalidation is never recorded.
  \<^item> \<open>Hosts\<close> (\<open>host-heartbeat.ts\<close>, \<open>host-capacity.ts\<close>): a host's health is the verdict of its history of observations, however
    the poller's events interleave.
  \<^item> \<open>TaskDeps\<close> (\<open>task-state.ts\<close>, \<open>task-dependencies.ts\<close>): the task lifecycle and the gate of its GitHub blockers.
  \<^item> \<open>TaskDispatch\<close> (\<open>task-dispatch.ts\<close>, \<open>task-claim.ts\<close>): the sweep that starts queued tasks loses no trigger unless a
    dispatch throws, and the reservation of a worker slot respects the limit.
  \<^item> \<open>Placement\<close> (\<open>placement.ts\<close>): collects candidates from the trackers of \<open>Hosts\<close> and \<open>HostAgents\<close> and decides where a new
    session runs. The policy is total; the decision is the minimum over the suitable hosts whatever their order; a
    project's flags and a caller's target are met or refused; a final refusal stays final.
  \<^item> \<open>Guards\<close> (\<open>url-guard.ts\<close>, \<open>pinned-connect.ts\<close>, \<open>safe-path.ts\<close>): the address guard is its table of networks in the
    five spellings of an IPv4 address it reads; resolved paths stay below their root; the search for a block in an error ends on cyclic errors.
  \<^item> \<open>TerminalModes\<close> (\<open>attention-detect.ts\<close>, \<open>terminal-mode-tracker.ts\<close>, \<open>Session.onData\<close> of \<open>pty-manager.ts\<close>): what a session
    reads off its output. The tracked modes do not depend on how the output is cut into reads, reading the replay preamble
    restores them, and a directory announced alone is read whatever reads it is cut into.
  \<^item> \<open>HookProtocol\<close> (\<open>hook-protocol.ts\<close>): the messages an agent's hooks send. The parser's results are exactly the
    well-formed messages, and serialising and parsing return each of them; attribution never decides over acceptance.
  \<^item> \<open>SessionState\<close> (the state of \<open>Session\<close> in \<open>pty-manager.ts\<close>, \<open>terminal-input-classify.ts\<close>, \<open>stale-latch-sweep.ts\<close>,
    \<open>session-state-persistence.ts\<close>): latches, event ring, subagents, input window, sweeps, the state file, construction and
    spawn, the summary the status derives from. It holds the terminal part of \<open>TerminalModes\<close>, the tracker of
    \<open>Attention\<close> and the registry of \<open>GateRegistry\<close>.
  \<^item> \<open>SessionHooks\<close> (\<open>hook-handlers.ts\<close>): the handler of every message kind, \<open>session_step\<close> as everything that happens to
    a session, and two invariants of all its runs: a decision the tracker shows has its latch, a latch that is set has its time.
  \<^item> \<open>SessionPromises\<close>, \<open>SessionTurns\<close>: what follows for users. An acknowledge is refused exactly while a decision is
    pending; a sweep frees a silent session, but for a gate shown without its time; the end of a turn settles it, and short of that, another
    prompt or a new attach client nothing ends a prompted turn; the event
    ring is the last hundred events; the input of a second is bounded.
  \<^item> \<open>HookServer\<close>, \<open>HookPromises\<close> (\<open>plugins/hooks.ts\<close>): the socket the hooks connect to, over the sessions of \<open>SessionHooks\<close>:
    handshake, lines, gates and promote requests that keep their connection open, timers, closes, shutdown. Every gate a
    session waits for is held by the server with an armed timer; the timers answer every gate and promote request, towards the
    connection and in the session; a connection acts only on
    the session of its token.
  \<^item> \<open>PullRequests\<close> (\<open>github-pr-phase.ts\<close>, \<open>review-summary.ts\<close>, \<open>github-pr-poller.ts\<close>, \<open>pr-session-events.ts\<close>): a pull
    request's phase and review summary agree on when it is ready, and the changes the poller reports rebuild the list it
    compares with.
  \<^item> \<open>ReviewRelay\<close> (\<open>relay-review-state.ts\<close>): the base of the next review round is a commit some review really covered, and
    the memo of landed reviews is fresh and bounded.
  \<^item> \<open>EventStore\<close> (\<open>event-history.ts\<close>, \<open>event-store.ts\<close>): the persisted events. A host adds only to the history of its own
    sessions; a failing batch costs only its bad rows; paging misses and repeats nothing; the cap keeps the newest rows.
  \<^item> \<open>Wire\<close>: parsed JSON of unknown shape, and the string functions that read it.
  \<^item> \<open>ReviewFindings\<close> (\<open>task-prompt.ts\<close>, \<open>task-review-focus.ts\<close>, \<open>hermes-task-review.ts\<close>, \<open>task-decisions.ts\<close>): the contract of a
    reviewer's answer. A verdict approves only on grounds the review states, entries the parser drops aside; a rendered round reads back; the focus list is bounded.
  \<^item> \<open>ReviewLoop\<close> (\<open>task-reconciler.ts\<close>, \<open>task-review-handle.ts\<close>, \<open>task-approval-state.ts\<close>, \<open>task-rate-limit-grace.ts\<close>,
    \<open>merge-readiness.ts\<close>, the review routes of \<open>routes/tasks.ts\<close>): a task under review. An approval is always that of the review the
    task has now; a finding that survives two rounds stops the loop if the return is of a later second than the verdict; a return that fails costs nothing.

  \<^bold>\<open>How the parts interact.\<close> The filter and the multiplexer meet in \<open>ChannelPipes\<close>, whose theorems are over real connection
  states. \<open>SessionStatus\<close> reads the attention machine, the gates and the terminal text. \<open>Hosts\<close> embeds the agent cache of
  \<open>HostAgents\<close>, and \<open>Placement\<close> reads both. \<open>TaskDispatch\<close> uses the lifecycle of \<open>TaskDeps\<close>. \<open>TerminalModes\<close> feeds the
  machine of \<open>Attention\<close>. \<open>ReviewRelay\<close> completes the summaries of \<open>PullRequests\<close> and reads the relay's markers with the string
  functions of \<open>MessageFrame\<close>. \<open>EventStore\<close> checks a reporting host with the lookup of \<open>SessionLive\<close>. \<open>ReviewLoop\<close>
  stores what \<open>ReviewFindings\<close> renders and reads it back in the next round, moves the task along the states of \<open>TaskDeps\<close>, and reads
  the reviewer's status as \<open>SessionStatus\<close> derives it. \<open>SessionHooks\<close> drives the tracker, the gates and the terminal of one session
  together; its properties are over whole histories of hooks, output, keystrokes, timers, exits, respawns and restarts, and
  read the session through \<open>SessionStatus\<close> as a client does. \<open>HookServer\<close> feeds the parsed lines of \<open>HookProtocol\<close> to those
  sessions; its properties relate the gates it holds to the registries inside the sessions, over every order of messages,
  decisions, closes, timers, sweeps and restarts.

  \<^bold>\<open>Bounds.\<close> The source's constants are kept at their values: 256 KiB windows and frames, 256 channels, 32-bit channel ids
  (the search for a free one wraps as the source does), 100000 nonces, eight queued messages per target. Integers that
  JavaScript keeps exact (counters, timestamps, lengths) are unbounded.

  \<^bold>\<open>What the models showed.\<close> An Open frame that arrives after \<open>close()\<close> creates a channel nothing closes any more
  (\<open>MuxPromises.open_after_close_leaks\<close>). A sign request larger than a window passes the filter and is never relayed
  (\<open>ChannelPipes.big_request_is_never_relayed\<close>). A nonce recorded again keeps its old place and is evicted early
  (\<open>Limiters.rerecorded_nonce_replayed\<close>). A pass that hangs blocks the expiry of messages
  (\<open>MessageQueue.hung_pass_blocks_expiry\<close>). The OSC pattern swallows the text between two titles
  (\<open>TerminalText.osc_swallows_the_text_between\<close>). A stale mark set while a read runs is lost
  (\<open>HostAgents.stale_mark_lost_to_a_running_read\<close>), and an answer that arrives after the heartbeat was switched off leaves a
  verdict (\<open>Hosts.stale_verdict_after_disarm\<close>). A trigger is lost when a dispatch throws
  (\<open>TaskDispatch.trigger_lost_to_a_throw\<close>). The refusal of a platform target names hosts the caller did not name
  (\<open>Placement.refusal_names_hosts\<close>) and may promise that waiting helps when it cannot
  (\<open>Placement.hold_without_prospect\<close>). A dangling symbolic link is taken for a path still to be created
  (\<open>Guards.unresolved_link_kept\<close>). A directory announced after a title in the same read is lost
  (\<open>TerminalModes.announcement_after_title_is_lost\<close>). A page limit between 0 and 1 makes a query throw
  (\<open>EventStore.fractional_limit_throws\<close>). The ingest marker of an earlier session lets the sweep for inconclusive reviews and the
  re-review route stop a running reviewer (\<open>ReviewLoop.running_review_is_stopped\<close>); re-reviews a worker asks for pass the cap
  (\<open>ReviewLoop.rereviews_pass_the_cap\<close>); two writes in one second hide a stall (\<open>ReviewLoop.same_second_hides_stall\<close>); a new
  finding can read as an earlier one left open (\<open>ReviewFindings.new_finding_reads_as_open\<close>), and a critical finding without a
  valid line is lost to an approval (\<open>ReviewFindings.finding_without_line_is_lost\<close>). A respawn after the attach client
  died shows a gate that still waits as lapsed (\<open>SessionTurns.respawn_hides_open_gates\<close>). The close of a connection answers the gate of another that used the same id
  (\<open>HookPromises.close_answers_anothers_gate\<close>).

  \<^bold>\<open>Not modelled.\<close> Process, socket, file and network I/O (PTY manager, scope backends, git, GitHub, browser and device
  managers, updates); the HTTP routes and plugins that wire the services together; the database layer; prompt and scaffold
  texts; the web frontend and the command line. Of \<open>session-live-info.ts\<close> the assembly of the REST row, of \<open>host-agents.ts\<close> the
  read of the primary's own tools, and of \<open>task-claim.ts\<close> the creation of worktrees and sessions around the reservation are
  left out; of \<open>attention-detect.ts\<close> and \<open>Session.onData\<close> the translation of Windows directories and the stripping of
  start-up queries; of the poller and the event writer the timers and the GitHub calls. \<open>Date.parse\<close>, \<open>toISOString\<close> and JSON
  are arguments, and \<open>Array.sort\<close> is a stable insertion also for dates that do not parse, where the language leaves the order
  open. Of the
  task reconciler the merges, releases and the returns for red checks and comments are left out, and whether an agent takes a seed prompt
  is an argument; of \<open>Session\<close> the attach client with its process, sizes and subscribers, the dev-server detection and the
  timer of the title debouncer; of the hook server the decoding of chunks, and the texts and answers it fetches from other
  services, which are arguments. These, the tunnel over channels and the preview and bridge registries remain open.
\<close>

end
